(* ===== verification/Prelude.thy ===== *)
theory Prelude
  imports Complex_Main "HOL-Library.AList" "HOL-Library.Char_ord" "HOL-Library.List_Lexorder" "HOL-Library.Multiset"
begin

text \<open>
  Shared vocabulary of the development: Go strings as byte strings, the dynamic values
  (\<open>any\<close>) that JSON documents decode to, the JSONB objects the models keep, and the
  generic lemmas on lists and options that several components use.
\<close>

named_theorems go_defs \<open>definitions of small pure helpers of the Go code\<close>

section \<open>Bytes and UTF-8\<close>

text \<open>
  A Go string is a sequence of bytes; a HOL \<^typ>\<open>char\<close> is one byte. \<open>byte c\<close> is its value.
\<close>

abbreviation byte :: "char \<Rightarrow> nat" where
  "byte c \<equiv> of_char c"

lemma byte_char_of: "k < 256 \<Longrightarrow> byte (char_of k) = k"
  by (simp add: of_char_of)

text \<open>\<open>utf8.RuneStart\<close>: the byte is not a continuation byte (10xxxxxx).\<close>

definition rune_start :: "char \<Rightarrow> bool" where
  [go_defs]: "rune_start c \<longleftrightarrow> \<not> (128 \<le> byte c \<and> byte c < 192)"

text \<open>
  \<open>utf8.DecodeRune\<close>, the length of the valid encoding at the front of a byte string, or
  \<^const>\<open>None\<close> for an invalid one (overlong forms, surrogates and values past U+10FFFF are
  invalid).
\<close>

definition cont_byte :: "nat \<Rightarrow> nat \<Rightarrow> char \<Rightarrow> bool" where
  [go_defs]: "cont_byte lo hi c \<longleftrightarrow> lo \<le> byte c \<and> byte c \<le> hi"

fun rune_size :: "string \<Rightarrow> nat option" where
  "rune_size [] = None"
| "rune_size (c # cs) =
     (let b = byte c in
      if b < 128 then Some 1
      else if 194 \<le> b \<and> b \<le> 223 then
        (case cs of c1 # _ \<Rightarrow> if cont_byte 128 191 c1 then Some 2 else None | _ \<Rightarrow> None)
      else if 224 \<le> b \<and> b \<le> 239 then
        (case cs of c1 # c2 # _ \<Rightarrow>
           if cont_byte (if b = 224 then 160 else 128) (if b = 237 then 159 else 191) c1
              \<and> cont_byte 128 191 c2 then Some 3 else None
         | _ \<Rightarrow> None)
      else if 240 \<le> b \<and> b \<le> 244 then
        (case cs of c1 # c2 # c3 # _ \<Rightarrow>
           if cont_byte (if b = 240 then 144 else 128) (if b = 244 then 143 else 191) c1
              \<and> cont_byte 128 191 c2 \<and> cont_byte 128 191 c3 then Some 4 else None
         | _ \<Rightarrow> None)
      else None)"

section \<open>Functions of the \<open>strings\<close> package\<close>

text \<open>
  The encodings of the code points \<open>unicode.IsSpace\<close> accepts, as \<open>strings.TrimSpace\<close> and
  \<open>strings.Fields\<close> use them.
\<close>

definition go_spaces :: "string list" where
  "go_spaces =
    [[CHR 0x09], [CHR 0x0A], [CHR 0x0B], [CHR 0x0C], [CHR 0x0D], [CHR 0x20],
     [CHR 0xC2, CHR 0x85], [CHR 0xC2, CHR 0xA0], [CHR 0xE1, CHR 0x9A, CHR 0x80],
     [CHR 0xE2, CHR 0x80, CHR 0x80], [CHR 0xE2, CHR 0x80, CHR 0x81],
     [CHR 0xE2, CHR 0x80, CHR 0x82], [CHR 0xE2, CHR 0x80, CHR 0x83],
     [CHR 0xE2, CHR 0x80, CHR 0x84], [CHR 0xE2, CHR 0x80, CHR 0x85],
     [CHR 0xE2, CHR 0x80, CHR 0x86], [CHR 0xE2, CHR 0x80, CHR 0x87],
     [CHR 0xE2, CHR 0x80, CHR 0x88], [CHR 0xE2, CHR 0x80, CHR 0x89],
     [CHR 0xE2, CHR 0x80, CHR 0x8A], [CHR 0xE2, CHR 0x80, CHR 0xA8],
     [CHR 0xE2, CHR 0x80, CHR 0xA9], [CHR 0xE2, CHR 0x80, CHR 0xAF],
     [CHR 0xE2, CHR 0x81, CHR 0x9F], [CHR 0xE3, CHR 0x80, CHR 0x80]]"

definition strip_prefix :: "string \<Rightarrow> string \<Rightarrow> string option" where
  "strip_prefix p s = (if take (length p) s = p then Some (drop (length p) s) else None)"

fun first_prefix :: "string list \<Rightarrow> string \<Rightarrow> string option" where
  "first_prefix [] s = None"
| "first_prefix (p # ps) s =
     (case strip_prefix p s of None \<Rightarrow> first_prefix ps s | Some r \<Rightarrow> Some r)"

lemma strip_prefix_Some: "strip_prefix p s = Some r \<longleftrightarrow> s = p @ r"
  by (auto simp: strip_prefix_def) (metis append_take_drop_id)

lemma strip_prefix_None: "strip_prefix p s = None \<longleftrightarrow> (\<forall>r. s \<noteq> p @ r)"
  using strip_prefix_Some [of p s] by (metis option.exhaust option.distinct(1))

lemma find_SomeD: "List.find P xs = Some x \<Longrightarrow> x \<in> set xs \<and> P x"
  by (induction xs) (auto split: if_splits)

text \<open>Trimming removes one separator after another; the length of the string bounds the rounds.\<close>

fun trim_front :: "nat \<Rightarrow> string list \<Rightarrow> string \<Rightarrow> string" where
  "trim_front 0 ps s = s"
| "trim_front (Suc n) ps s =
     (case first_prefix ps s of None \<Rightarrow> s | Some r \<Rightarrow> trim_front n ps r)"

definition trim_left_space :: "string \<Rightarrow> string" where
  "trim_left_space s = trim_front (length s) go_spaces s"

definition trim_right_space :: "string \<Rightarrow> string" where
  "trim_right_space s = rev (trim_front (length s) (map rev go_spaces) (rev s))"

definition trim_space :: "string \<Rightarrow> string" where
  "trim_space s = trim_right_space (trim_left_space s)"

text \<open>\<open>strings.TrimRight(s, cutset)\<close> for an ASCII cutset.\<close>

definition trim_right :: "char list \<Rightarrow> string \<Rightarrow> string" where
  "trim_right cs s = rev (dropWhile (\<lambda>c. c \<in> set cs) (rev s))"

lemma length_trim_right [simp]: "length (trim_right cs s) \<le> length s"
  by (metis length_dropWhile_le length_rev trim_right_def)

lemma trim_right_prefix: "\<exists>zs. s = trim_right cs s @ zs \<and> set zs \<subseteq> set cs"
proof -
  have "rev s = takeWhile (\<lambda>c. c \<in> set cs) (rev s) @ dropWhile (\<lambda>c. c \<in> set cs) (rev s)"
    by simp
  then have "s = trim_right cs s @ rev (takeWhile (\<lambda>c. c \<in> set cs) (rev s))"
    by (metis rev_append rev_rev_ident trim_right_def)
  then show ?thesis by (metis set_rev set_takeWhileD subsetI)
qed

text \<open>
  \<open>strings.ToLower\<close> on ASCII text, the text the modelled code lowers (weekday names, Meta's
  category names); bytes from 128 up are left as they are.
\<close>

definition lower_char :: "char \<Rightarrow> char" where
  "lower_char c = (if 65 \<le> byte c \<and> byte c \<le> 90 then char_of (byte c + 32) else c)"

definition to_lower :: "string \<Rightarrow> string" where
  "to_lower s = map lower_char s"

lemma lower_char_idem [simp]: "lower_char (lower_char c) = lower_char c"
  by (simp add: lower_char_def)

lemma to_lower_idem [simp]: "to_lower (to_lower s) = to_lower s"
  by (simp add: to_lower_def)

text \<open>\<open>strings.EqualFold\<close> on ASCII text.\<close>

definition equal_fold :: "string \<Rightarrow> string \<Rightarrow> bool" where
  "equal_fold s t \<longleftrightarrow> to_lower s = to_lower t"

text \<open>
  Go compares strings byte by byte, which is the lexicographic order of the library on lists of
  characters: \<open><=\<close>, \<open><\<close> and \<open>sort.Strings\<close> are \<^const>\<open>less_eq\<close>, \<^const>\<open>less\<close> and \<^const>\<open>sort\<close>.
\<close>

text \<open>\<open>len([]rune(s))\<close>: the number of code points, an invalid byte counting as one.\<close>

fun rune_count_fuel :: "nat \<Rightarrow> string \<Rightarrow> nat" where
  "rune_count_fuel 0 s = 0"
| "rune_count_fuel (Suc n) s =
     (if s = [] then 0
      else Suc (rune_count_fuel n (drop (case rune_size s of None \<Rightarrow> 1 | Some k \<Rightarrow> k) s)))"

definition rune_count :: "string \<Rightarrow> nat" where
  "rune_count s = rune_count_fuel (length s) s"

text \<open>\<open>strings.Split(s, sep)\<close> for a separator of one byte (or one code point), and \<open>strings.Join\<close>.\<close>

fun split_char :: "'a \<Rightarrow> 'a list \<Rightarrow> 'a list list" where
  "split_char d [] = [[]]"
| "split_char d (c # cs) =
     (if c = d then [] # split_char d cs
      else case split_char d cs of [] \<Rightarrow> [[c]] | l # ls \<Rightarrow> (c # l) # ls)"

fun join :: "'a list \<Rightarrow> 'a list list \<Rightarrow> 'a list" where
  "join d [] = []"
| "join d [x] = x"
| "join d (x # y # xs) = x @ d @ join d (y # xs)"

lemma split_char_ne [simp]: "split_char d s \<noteq> []"
  by (induction s) (auto split: list.splits)

lemma split_char_append:
  "d \<notin> set l \<Longrightarrow> split_char d (l @ d # s) = l # split_char d s"
  by (induction l) auto

lemma split_char_single: "d \<notin> set l \<Longrightarrow> split_char d l = [l]"
  by (induction l) auto

lemma split_char_lines:
  "d \<notin> set l \<Longrightarrow> \<forall>x \<in> set ls. d \<notin> set x \<Longrightarrow> split_char d (l @ concat (map ((#) d) ls)) = l # ls"
proof (induction ls arbitrary: l)
  case Nil
  then show ?case by (simp add: split_char_single)
next
  case (Cons x ls)
  have "split_char d (l @ concat (map ((#) d) (x # ls))) = l # split_char d (x @ concat (map ((#) d) ls))"
    using split_char_append [OF Cons.prems(1)] by simp
  then show ?case using Cons by simp
qed

lemma join_split_char: "join [d] (split_char d s) = s"
proof (induction s)
  case (Cons c cs)
  then show ?case by (cases "split_char d cs") (auto split: list.splits, (metis join.simps list.exhaust append_Cons)+)
qed simp

text \<open>Decimal numbers and booleans as \<open>strconv\<close> and \<open>fmt\<close> print them.\<close>

fun show_nat :: "nat \<Rightarrow> string" where
  "show_nat n = (if n < 10 then [char_of (48 + n)] else show_nat (n div 10) @ [char_of (48 + n mod 10)])"

declare show_nat.simps [simp del]

definition show_bool :: "bool \<Rightarrow> string" where
  "show_bool b = (if b then ''true'' else ''false'')"

definition show_int :: "int \<Rightarrow> string" where
  "show_int i = (if i < 0 then CHR ''-'' # show_nat (nat (- i)) else show_nat (nat i))"

text \<open>
  The first place where a matcher succeeds, with the text before it; \<open>strings.Index\<close> is the search
  for a literal.
\<close>

fun search :: "(string \<Rightarrow> 'a option) \<Rightarrow> string \<Rightarrow> (string \<times> 'a) option" where
  "search m [] = map_option (Pair []) (m [])"
| "search m (c # cs) =
     (case m (c # cs) of
        Some x \<Rightarrow> Some ([], x)
      | None \<Rightarrow> map_option (\<lambda>(before, x). (c # before, x)) (search m cs))"

abbreviation find_sub :: "string \<Rightarrow> string \<Rightarrow> (string \<times> string) option" where
  "find_sub p s \<equiv> search (strip_prefix p) s"

definition no_match :: "(string \<Rightarrow> 'a option) \<Rightarrow> string \<Rightarrow> string \<Rightarrow> bool" where
  "no_match m s rest \<longleftrightarrow> (\<forall>i < length s. m (drop i s @ rest) = None)"

lemma no_match_Nil [simp]: "no_match m [] rest"
  by (simp add: no_match_def)

lemma no_match_Cons: "no_match m (c # s) rest \<longleftrightarrow> m (c # s @ rest) = None \<and> no_match m s rest"
  by (auto simp: no_match_def nth_Cons' less_Suc_eq_0_disj)

lemma no_match_append: "no_match m (s @ t) rest \<longleftrightarrow> no_match m s (t @ rest) \<and> no_match m t rest"
  by (induction s) (auto simp: no_match_Cons)

lemma search_skip: "no_match m s rest \<Longrightarrow> search m (s @ rest) = map_option (\<lambda>(before, x). (s @ before, x)) (search m rest)"
proof (induction s)
  case (Cons c s)
  then show ?case by (cases "search m rest") (auto simp: no_match_Cons)
qed (auto simp: option.map_comp comp_def case_prod_beta map_option_case split: option.split)

lemma search_hit: "no_match m s rest \<Longrightarrow> m rest = Some x \<Longrightarrow> search m (s @ rest) = Some (s, x)"
  using search_skip [of m s rest] by (cases rest) simp_all

lemma search_miss: "no_match m s [] \<Longrightarrow> m [] = None \<Longrightarrow> search m s = None"
  using search_skip [of m s "[]"] by simp

lemma search_none_iff: "search m s = None \<longleftrightarrow> no_match m s [] \<and> m [] = None"
  by (induction s) (auto simp: no_match_Cons split: option.splits)

lemma search_some:
  "search m s = Some (before, x) \<Longrightarrow> \<exists>rest. s = before @ rest \<and> m rest = Some x \<and> no_match m before rest"
proof (induction s arbitrary: before)
  case (Cons c cs)
  show ?case
  proof (cases "m (c # cs)")
    case None
    then obtain b where b: "search m cs = Some (b, x)" "before = c # b" using Cons.prems by auto
    then obtain rest where "cs = b @ rest" "m rest = Some x" "no_match m b rest" using Cons.IH by blast
    then show ?thesis using None b(2) by (intro exI [of _ rest]) (auto simp: no_match_Cons)
  next
    case (Some y)
    then show ?thesis using Cons.prems by (intro exI [of _ "c # cs"]) auto
  qed
qed (auto simp: map_option_case split: option.splits)

section \<open>Identifiers and time\<close>

text \<open>A UUID is a number, the nil UUID is 0. An instant and a duration are nanoseconds.\<close>

type_synonym uuid = nat
type_synonym time = int

section \<open>Dynamic values\<close>

text \<open>
  \<open>any\<close>: what \<open>encoding/json\<close> decodes into an interface value, plus the Go \<open>int\<close> that the
  code itself stores. A \<open>float64\<close> is the rational it denotes (JSON has no NaN or infinity). An
  object is an association list with its first binding per key, which \<open>jput\<close> keeps unique.
\<close>

datatype any =
    ANil
  | ABool bool
  | AInt int
  | AFloat rat
  | AStr string
  | AArr "any list"
  | AObj "(string \<times> any) list"

type_synonym jsonb = "(string \<times> any) list"

definition jget :: "jsonb \<Rightarrow> string \<Rightarrow> any" where
  "jget m k = (case map_of m k of Some v \<Rightarrow> v | None \<Rightarrow> ANil)"

definition jput :: "string \<Rightarrow> any \<Rightarrow> jsonb \<Rightarrow> jsonb" where
  "jput k v m = AList.update k v m"

text \<open>The two-result type assertion \<open>x, _ := v.(T)\<close>: the zero value when the type differs.\<close>

fun as_str :: "any \<Rightarrow> string option" where
  "as_str (AStr s) = Some s"
| "as_str _ = None"

fun as_bool :: "any \<Rightarrow> bool option" where
  "as_bool (ABool b) = Some b"
| "as_bool _ = None"

fun as_arr :: "any \<Rightarrow> any list option" where
  "as_arr (AArr xs) = Some xs"
| "as_arr _ = None"

fun as_obj :: "any \<Rightarrow> jsonb option" where
  "as_obj (AObj m) = Some m"
| "as_obj _ = None"

definition str_of :: "any \<Rightarrow> string" where
  "str_of v = (case as_str v of Some s \<Rightarrow> s | None \<Rightarrow> [])"

definition bool_of :: "any \<Rightarrow> bool" where
  "bool_of v = (case as_bool v of Some b \<Rightarrow> b | None \<Rightarrow> False)"

lemma jget_jput_same [simp]: "jget (jput k v m) k = v"
  by (simp add: jget_def jput_def update_conv)

lemma jget_jput_other [simp]: "k' \<noteq> k \<Longrightarrow> jget (jput k v m) k' = jget m k'"
  by (simp add: jget_def jput_def update_conv)

lemma jget_Nil [simp]: "jget [] k = ANil"
  by (simp add: jget_def)

lemma distinct_keys_jput [simp]:
  "distinct (map fst m) \<Longrightarrow> distinct (map fst (jput k v m))"
  by (simp add: jput_def distinct_update)

text \<open>\<open>int(f)\<close> of a \<open>float64\<close>: truncation towards zero (for values in the range of int64).\<close>

definition trunc_rat :: "rat \<Rightarrow> int" where
  "trunc_rat q = (if q < 0 then - \<lfloor>- q\<rfloor> else \<lfloor>q\<rfloor>)"

section \<open>Lists\<close>

lemma filter_Cons_split: "x \<in> set xs \<Longrightarrow> P x \<Longrightarrow> filter P xs \<noteq> []"
  by (auto simp: filter_empty_conv)

lemma map_fst_eq_fst_unique:
  "distinct (map f xs) \<Longrightarrow> x \<in> set xs \<Longrightarrow> y \<in> set xs \<Longrightarrow> f x = f y \<Longrightarrow> x = y"
  by (metis distinct_map inj_onD)

lemma list_all2_filter_le:
  "list_all2 R xs ys \<Longrightarrow> (\<And>x y. R x y \<Longrightarrow> Q y \<Longrightarrow> P x) \<Longrightarrow>
   length (filter Q ys) \<le> length (filter P xs)"
  by (induction rule: list_all2_induct) auto

lemma list_all2_map_eq: "list_all2 R xs ys \<Longrightarrow> (\<And>x y. R x y \<Longrightarrow> f y = f x) \<Longrightarrow> map f ys = map f xs"
  by (induction rule: list_all2_induct) auto

lemma list_all2_all:
  "list_all2 R xs ys \<Longrightarrow> (\<And>x y. R x y \<Longrightarrow> P x \<Longrightarrow> Q y) \<Longrightarrow> \<forall>x \<in> set xs. P x \<Longrightarrow> \<forall>y \<in> set ys. Q y"
  by (induction rule: list_all2_induct) auto

lemma list_all2_find_row:
  "list_all2 R xs ys \<Longrightarrow> y \<in> set ys \<Longrightarrow> \<exists>x \<in> set xs. R x y"
  by (induction rule: list_all2_induct) auto

lemma length_filter_mono: "(\<And>x. x \<in> set xs \<Longrightarrow> P x \<Longrightarrow> Q x) \<Longrightarrow> length (filter P xs) \<le> length (filter Q xs)"
  by (induction xs) auto

end
