(* ===== verification/Tool_Policy.thy ===== *)
theory Tool_Policy
  imports Tool_Loop
begin

text \<open>
  The catalog of AI tools and the authorization policy (\<open>internal/aitools/aitools.go\<close>, \<open>policy.go\<close>,
  \<open>write.go\<close>, and \<open>ToolDefinition.Validate\<close> of \<open>internal/ai/tools.go\<close>). The real tools are
  built by factories, which are data of a specification: they stay functions on the world \<open>'x\<close> the
  tools work on.
\<close>

section \<open>Risk, actors and scope\<close>

datatype risk = RiskRead | RiskWrite | RiskOther string

datatype actor_kind = ActorAI | ActorHuman | ActorSystem

record actor =
  ac_kind :: actor_kind
  ac_ref :: string

record scope =
  sc_org :: uuid
  sc_contact :: "uuid option"
  sc_session :: "uuid option"
  sc_account :: string

section \<open>Deny reasons\<close>

abbreviation "DenyUnknownTool \<equiv> ''unknown_tool''"
abbreviation "DenyNotEnabled \<equiv> ''not_enabled''"
abbreviation "DenyGlobalOff \<equiv> ''global_off''"
abbreviation "DenyConfirmationUnavailable \<equiv> ''confirmation_unavailable''"
abbreviation "DenyLoopLimit \<equiv> ''loop_limit''"
abbreviation "DenyAuditUnavailable \<equiv> ''audit_unavailable''"
abbreviation "DenyArgsTooLarge \<equiv> ''args_too_large''"
abbreviation "DenyWriteDisabled \<equiv> ''write_disabled''"
abbreviation "DenyFeatureNotAllowed \<equiv> ''feature_not_allowed''"

section \<open>The policy: \<open>Authorize\<close>\<close>

record policy_input =
  pi_global_enabled :: bool
  pi_known :: bool
  pi_org_enabled :: bool
  pi_risk :: risk
  pi_feature_allowed :: bool
  pi_write_enabled :: bool
  pi_confirmation_available :: bool

record verdict =
  v_allowed :: bool
  v_reason :: string
  v_needs_confirmation :: bool

definition deny :: "string \<Rightarrow> verdict" where
  "deny reason = \<lparr>v_allowed = False, v_reason = reason, v_needs_confirmation = False\<rparr>"

definition authorize :: "policy_input \<Rightarrow> verdict" where
  "authorize p =
     (if \<not> pi_global_enabled p then deny DenyGlobalOff
      else if \<not> pi_known p then deny DenyUnknownTool
      else if \<not> pi_org_enabled p then deny DenyNotEnabled
      else if \<not> pi_feature_allowed p then deny DenyFeatureNotAllowed
      else (case pi_risk p of
              RiskRead \<Rightarrow> \<lparr>v_allowed = True, v_reason = [], v_needs_confirmation = False\<rparr>
            | RiskWrite \<Rightarrow>
                if \<not> pi_write_enabled p then deny DenyWriteDisabled
                else if \<not> pi_confirmation_available p then deny DenyConfirmationUnavailable
                else \<lparr>v_allowed = True, v_reason = [], v_needs_confirmation = True\<rparr>
            | RiskOther _ \<Rightarrow> deny DenyConfirmationUnavailable))"

lemma authorize_allowed_iff:
  "v_allowed (authorize p) \<longleftrightarrow>
     pi_global_enabled p \<and> pi_known p \<and> pi_org_enabled p \<and> pi_feature_allowed p
     \<and> (pi_risk p = RiskRead
        \<or> (pi_risk p = RiskWrite \<and> pi_write_enabled p \<and> pi_confirmation_available p))"
  by (auto simp: authorize_def deny_def split: risk.splits)

lemma authorize_reason_iff: "v_reason (authorize p) = [] \<longleftrightarrow> v_allowed (authorize p)"
  by (auto simp: authorize_def deny_def split: risk.splits)

text \<open>The policy denies by default: a call is allowed exactly when the global switch is on, the tool
  exists, the organization enabled it, the feature may use it and it is a read tool, or a write
  tool with writing on and a confirmation mechanism wired. A denial always carries a reason and an
  allowed call none, and what is allowed for a write tool is only a proposal.\<close>

theorem authorize_characterised:
  "(v_allowed (authorize p) \<longleftrightarrow>
      pi_global_enabled p \<and> pi_known p \<and> pi_org_enabled p \<and> pi_feature_allowed p
      \<and> (pi_risk p = RiskRead
         \<or> (pi_risk p = RiskWrite \<and> pi_write_enabled p \<and> pi_confirmation_available p)))
   \<and> (v_reason (authorize p) = [] \<longleftrightarrow> v_allowed (authorize p))
   \<and> (v_needs_confirmation (authorize p) \<longleftrightarrow> v_allowed (authorize p) \<and> pi_risk p = RiskWrite)"
  by (auto simp: authorize_def deny_def split: risk.splits)

section \<open>Tools, write tools and their specifications\<close>

text \<open>
  What building and running a real tool can give: its result, a deadline, another error, or a
  panic. A factory may return no tool.
\<close>

datatype tool_out = ToolOk tool_result | ToolTimeout | ToolFailed | ToolPanic

datatype 'x built = Built "tool_call \<Rightarrow> 'x \<Rightarrow> tool_out \<times> 'x" | BuiltNil | BuildPanic

datatype propose_out =
    Proposed "jsonb option" tool_result
  | ProposeTimeout
  | ProposeFailed
  | ProposePanic

record exec_result =
  er_outcome :: string
  er_transfer :: "uuid option"

datatype write_out = Wrote exec_result | WriteTimeout | WriteFailed | WritePanic

record 'x write_tool =
  wt_propose :: "tool_call \<Rightarrow> 'x \<Rightarrow> propose_out \<times> 'x"
  wt_execute :: "jsonb \<Rightarrow> time \<Rightarrow> 'x \<Rightarrow> write_out \<times> 'x"

datatype 'x write_built = WBuilt "'x write_tool" | WBuiltNil | WBuildPanic

record confirm_spec =
  cs_prompt :: "(time \<Rightarrow> string) option"
  cs_confirm_label :: string
  cs_decline_label :: string
  cs_declined_text :: string
  cs_expired_text :: string
  cs_outcome_text :: "(string \<Rightarrow> string) option"

definition max_button_title :: nat where
  "max_button_title = 20"

fun confirm_valid :: "confirm_spec option \<Rightarrow> bool" where
  "confirm_valid None = False"
| "confirm_valid (Some c) =
     (cs_prompt c \<noteq> None \<and> cs_outcome_text c \<noteq> None \<and> cs_declined_text c \<noteq> [] \<and> cs_expired_text c \<noteq> []
      \<and> cs_confirm_label c \<noteq> [] \<and> cs_decline_label c \<noteq> []
      \<and> rune_count (cs_confirm_label c) \<le> max_button_title
      \<and> rune_count (cs_decline_label c) \<le> max_button_title)"

record 'x tool_spec =
  ts_name :: string
  ts_description :: string
  ts_parameters :: string
  ts_risk :: risk
  ts_features :: "string list"
  ts_factory :: "(scope \<Rightarrow> 'x \<Rightarrow> 'x built) option"
  ts_write_factory :: "(scope \<Rightarrow> 'x \<Rightarrow> 'x write_built) option"
  ts_confirm :: "confirm_spec option"

text \<open>\<open>ToolSpec{}\<close>, the zero value a failed lookup gives.\<close>

definition zero_spec :: "'x tool_spec" where
  "zero_spec = \<lparr>ts_name = [], ts_description = [], ts_parameters = [], ts_risk = RiskOther [],
     ts_features = [], ts_factory = None, ts_write_factory = None, ts_confirm = None\<rparr>"

definition definition_of :: "'x tool_spec \<Rightarrow> tool_definition" where
  "definition_of s = \<lparr>td_name = ts_name s, td_description = ts_description s, td_parameters = ts_parameters s\<rparr>"

definition feature_allowed :: "'x tool_spec \<Rightarrow> string \<Rightarrow> bool" where
  "feature_allowed s feature = (if ts_features s = [] then True else feature \<in> set (ts_features s))"

section \<open>The catalog\<close>

text \<open>\<open>^[a-zA-Z0-9_-]{1,64}$\<close>\<close>

definition tool_name_char :: "char \<Rightarrow> bool" where
  "tool_name_char c \<longleftrightarrow> (let b = (byte c :: nat) in
     (97 \<le> b \<and> b \<le> 122) \<or> (65 \<le> b \<and> b \<le> 90) \<or> (48 \<le> b \<and> b \<le> 57) \<or> b = 95 \<or> b = 45)"

definition tool_name_ok :: "string \<Rightarrow> bool" where
  "tool_name_ok n \<longleftrightarrow> 1 \<le> length n \<and> length n \<le> 64 \<and> list_all tool_name_char n"

text \<open>
  Decoding the parameters is \<open>encoding/json\<close>: \<open>schema_type\<close> is the parameter that gives the
  \<open>type\<close> member of a document, \<^const>\<open>None\<close> for one that does not decode.
\<close>

definition definition_valid :: "(string \<Rightarrow> string option) \<Rightarrow> tool_definition \<Rightarrow> bool" where
  "definition_valid schema_type d \<longleftrightarrow>
     tool_name_ok (td_name d) \<and> td_parameters d \<noteq> []
     \<and> schema_type (td_parameters d) = Some ''object''"

datatype catalog_error =
    InvalidDefinition string
  | NoRiskClass string
  | NoFactory string
  | ReadWithWriteParts string
  | NoWriteFactory string
  | WriteWithReadFactory string
  | BadConfirmation string
  | DuplicateTool string

definition check_spec :: "(string \<Rightarrow> string option) \<Rightarrow> 'x tool_spec \<Rightarrow> catalog_error option" where
  "check_spec schema_type s =
     (if \<not> definition_valid schema_type (definition_of s) then Some (InvalidDefinition (ts_name s))
      else (case ts_risk s of
              RiskRead \<Rightarrow>
                if ts_factory s = None then Some (NoFactory (ts_name s))
                else if ts_write_factory s \<noteq> None \<or> ts_confirm s \<noteq> None then Some (ReadWithWriteParts (ts_name s))
                else None
            | RiskWrite \<Rightarrow>
                if ts_write_factory s = None then Some (NoWriteFactory (ts_name s))
                else if ts_factory s \<noteq> None then Some (WriteWithReadFactory (ts_name s))
                else if \<not> confirm_valid (ts_confirm s) then Some (BadConfirmation (ts_name s))
                else None
            | RiskOther _ \<Rightarrow> Some (NoRiskClass (ts_name s))))"

record 'x catalog =
  cat_specs :: "'x tool_spec list"
  cat_names :: "string list"

text \<open>The map \<open>specs\<close> is kept as the list of specifications added; names are unique in it.\<close>

definition catalog_get :: "'x catalog option \<Rightarrow> string \<Rightarrow> 'x tool_spec option" where
  "catalog_get c n =
     (case c of None \<Rightarrow> None | Some k \<Rightarrow> List.find (\<lambda>s. ts_name s = n) (cat_specs k))"

definition catalog_names :: "'x catalog option \<Rightarrow> string list" where
  "catalog_names c = (case c of None \<Rightarrow> [] | Some k \<Rightarrow> cat_names k)"

fun add_specs ::
  "(string \<Rightarrow> string option) \<Rightarrow> 'x catalog \<Rightarrow> 'x tool_spec list \<Rightarrow> catalog_error + 'x catalog" where
  "add_specs schema_type c [] = Inr c"
| "add_specs schema_type c (s # ss) =
     (case check_spec schema_type s of
        Some e \<Rightarrow> Inl e
      | None \<Rightarrow>
          if catalog_get (Some c) (ts_name s) \<noteq> None then Inl (DuplicateTool (ts_name s))
          else add_specs schema_type
                 \<lparr>cat_specs = cat_specs c @ [s], cat_names = cat_names c @ [ts_name s]\<rparr> ss)"

definition new_catalog :: "(string \<Rightarrow> string option) \<Rightarrow> 'x tool_spec list \<Rightarrow> catalog_error + 'x catalog" where
  "new_catalog schema_type specs =
     (case add_specs schema_type \<lparr>cat_specs = [], cat_names = []\<rparr> specs of
        Inl e \<Rightarrow> Inl e
      | Inr c \<Rightarrow> Inr (c\<lparr>cat_names := sort (cat_names c)\<rparr>))"

subsection \<open>A built catalog is well formed\<close>

text \<open>The rule on a specification: exactly the parts of its risk class.\<close>

definition spec_wf :: "'x tool_spec \<Rightarrow> bool" where
  "spec_wf s \<longleftrightarrow>
     (ts_risk s = RiskRead \<and> ts_factory s \<noteq> None \<and> ts_write_factory s = None \<and> ts_confirm s = None)
     \<or> (ts_risk s = RiskWrite \<and> ts_factory s = None \<and> ts_write_factory s \<noteq> None \<and> confirm_valid (ts_confirm s))"

definition catalog_wf :: "'x catalog \<Rightarrow> bool" where
  "catalog_wf c \<longleftrightarrow>
     distinct (map ts_name (cat_specs c))
     \<and> mset (cat_names c) = mset (map ts_name (cat_specs c))
     \<and> (\<forall>s \<in> set (cat_specs c). spec_wf s \<and> tool_name_ok (ts_name s))"

lemma check_spec_None:
  "check_spec schema_type s = None \<Longrightarrow> spec_wf s \<and> tool_name_ok (ts_name s)"
  by (auto simp: check_spec_def spec_wf_def definition_valid_def definition_of_def
      split: risk.splits if_splits)

lemma catalog_wf_names:
  assumes "catalog_wf c"
  shows "distinct (cat_names c)" "set (cat_names c) = ts_name ` set (cat_specs c)"
proof -
  have m: "mset (cat_names c) = mset (map ts_name (cat_specs c))" "distinct (map ts_name (cat_specs c))"
    using assms by (simp_all add: catalog_wf_def)
  show "distinct (cat_names c)" using m mset_eq_imp_distinct_iff by blast
  show "set (cat_names c) = ts_name ` set (cat_specs c)" using mset_eq_setD [OF m(1)] by simp
qed

lemma add_specs_wf:
  "catalog_wf c \<Longrightarrow> add_specs schema_type c specs = Inr c' \<Longrightarrow>
   catalog_wf c' \<and> cat_specs c' = cat_specs c @ specs"
proof (induction specs arbitrary: c)
  case (Cons s specs)
  let ?c = "\<lparr>cat_specs = cat_specs c @ [s], cat_names = cat_names c @ [ts_name s]\<rparr>"
  from Cons.prems(2) have ok: "check_spec schema_type s = None"
    and new: "catalog_get (Some c) (ts_name s) = None"
    and rest: "add_specs schema_type ?c specs = Inr c'"
    by (auto split: option.splits if_splits)
  have "ts_name s \<notin> ts_name ` set (cat_specs c)"
    using new by (auto simp: catalog_get_def find_None_iff)
  then have "catalog_wf ?c"
    using Cons.prems(1) check_spec_None [OF ok] by (auto simp: catalog_wf_def)
  from Cons.IH [OF this rest] show ?case by simp
qed simp

lemma new_catalog_wf:
  assumes "new_catalog schema_type specs = Inr c"
  shows "catalog_wf c" "cat_specs c = specs" "sorted (cat_names c)"
proof -
  obtain c0 where c0: "add_specs schema_type \<lparr>cat_specs = [], cat_names = []\<rparr> specs = Inr c0"
    "c = c0\<lparr>cat_names := sort (cat_names c0)\<rparr>"
    using assms by (auto simp: new_catalog_def split: sum.splits)
  have "catalog_wf \<lparr>cat_specs = [] :: 'a tool_spec list, cat_names = []\<rparr>"
    by (simp add: catalog_wf_def)
  from add_specs_wf [OF this c0(1)] c0(2)
  show "catalog_wf c" "cat_specs c = specs" "sorted (cat_names c)"
    by (auto simp: catalog_wf_def)
qed

lemma catalog_get_Some:
  assumes "catalog_get (Some c) n = Some s"
  shows "s \<in> set (cat_specs c)" "ts_name s = n"
  using assms by (auto simp: catalog_get_def find_Some_iff)

lemma catalog_get_iff:
  assumes "catalog_wf c"
  shows "catalog_get (Some c) n = Some s \<longleftrightarrow> s \<in> set (cat_specs c) \<and> ts_name s = n"
proof
  assume s: "s \<in> set (cat_specs c) \<and> ts_name s = n"
  then obtain s' where "catalog_get (Some c) n = Some s'"
    by (cases "catalog_get (Some c) n") (auto simp: catalog_get_def find_None_iff)
  moreover from this have "s' = s"
    using s assms catalog_get_Some [of c n s'] map_fst_eq_fst_unique [of ts_name "cat_specs c" s' s]
    by (simp add: catalog_wf_def)
  ultimately show "catalog_get (Some c) n = Some s" by simp
qed (use catalog_get_Some in blast)

text \<open>
  A catalog that \<open>NewCatalog\<close> accepts holds exactly the given specifications under their names,
  lists the names sorted and without duplicates, and every tool in it has the parts of its risk
  class and no others: a read tool can never be built as a write tool, and a write tool always has
  a complete confirmation and no read factory.\<close>

theorem new_catalog_correct:
  assumes "new_catalog schema_type specs = Inr c"
  shows "(catalog_get (Some c) n = Some s \<longleftrightarrow> s \<in> set specs \<and> ts_name s = n)
    \<and> sorted (catalog_names (Some c)) \<and> distinct (catalog_names (Some c))
    \<and> set (catalog_names (Some c)) = ts_name ` set specs
    \<and> (s \<in> set specs \<longrightarrow> spec_wf s)"
proof -
  note wf = new_catalog_wf [OF assms]
  show ?thesis
    using wf catalog_wf_names [OF wf(1)] catalog_get_iff [OF wf(1)] by (auto simp: catalog_names_def catalog_wf_def)
qed

section \<open>Witnesses\<close>

definition sample_spec :: "nat tool_spec" where
  "sample_spec = \<lparr>ts_name = ''my_tool'', ts_description = ''d'', ts_parameters = ''{}'', ts_risk = RiskRead,
     ts_features = [], ts_factory = Some (\<lambda>_ _. BuiltNil), ts_write_factory = None, ts_confirm = None\<rparr>"

theorem new_catalog_correct_witness:
  "\<exists>c. new_catalog (\<lambda>_. Some ''object'') [sample_spec] = Inr c
     \<and> catalog_get (Some c) ''my_tool'' = Some sample_spec \<and> spec_wf sample_spec"
proof -
  have n: "ts_name sample_spec = ''my_tool''" by (simp add: sample_spec_def)
  obtain c where c: "new_catalog (\<lambda>_. Some ''object'') [sample_spec] = Inr c"
    by (simp add: new_catalog_def check_spec_def definition_valid_def definition_of_def sample_spec_def
        tool_name_ok_def tool_name_char_def catalog_get_def)
  show ?thesis using new_catalog_correct [OF c, of "''my_tool''" sample_spec] c n by auto
qed

end
