(* ===== verification/Tool_Confirmations.thy ===== *)
theory Tool_Confirmations
  imports Tool_Policy
begin

text \<open>
  The confirmation store (\<open>internal/aitools/confirmations.go\<close> on the table of
  \<open>internal/models/ai_tool_confirmations.go\<close>): proposals that wait for the customer, and the
  compare-and-set transitions that are the only way a proposal changes state. The table is a list
  of rows; every operation is one database transaction, so concurrent callers are sequences of
  operations. Hashing and HMAC are parameters. A statement may fail: \<open>ok\<close> says whether it works.
\<close>

section \<open>Rows\<close>

datatype conf_status =
    Pending | Confirmed | Executed | NotExecuted | Failed | Declined | Expired | Superseded | Denied

record conf =
  cf_id :: uuid
  cf_org :: uuid
  cf_contact :: uuid
  cf_session :: uuid
  cf_run :: uuid
  cf_tool :: string
  cf_risk :: risk
  cf_token_hash :: string
  cf_args :: jsonb
  cf_digest :: string
  cf_status :: conf_status
  cf_outcome :: string
  cf_denial :: string
  cf_error_kind :: string
  cf_proposed_at :: time
  cf_expires_at :: time
  cf_confirmed_at :: "time option"
  cf_finished_at :: "time option"
  cf_confirmed_by :: "uuid option"
  cf_wamid :: string
  cf_claimed_at :: "time option"
  cf_attempts :: int
  cf_proposal_call :: "uuid option"
  cf_execution_call :: "uuid option"
  cf_transfer :: "uuid option"

type_synonym table = "conf list"

section \<open>Store, secrets and digests\<close>

record conf_params =
  pr_ttl :: time
  pr_limit :: int
  pr_window :: time
  pr_cooldown :: time

text \<open>
  \<open>cr_canon\<close> is \<open>json.Marshal\<close> and \<open>CanonicalJSON\<close> of the object \<open>{o, c, t, a}\<close>; \<open>cr_mac\<close> is
  HMAC-SHA256 and \<open>cr_sha\<close> SHA-256.
\<close>

record crypto =
  cr_sha :: "string \<Rightarrow> string"
  cr_mac :: "string \<Rightarrow> string \<Rightarrow> string"
  cr_canon :: "uuid \<Rightarrow> uuid \<Rightarrow> string \<Rightarrow> jsonb \<Rightarrow> string option"

record store =
  st_secret :: string
  st_params :: conf_params
  st_crypto :: crypto

datatype store_error =
    ErrTooManyProposals
  | ErrRecentlyDeclined
  | ErrNoSecret
  | ErrMissingScope
  | ErrCanonical
  | ErrRandom
  | ErrDatabase

definition hex_encode :: "string \<Rightarrow> string" where
  "hex_encode s = concat (map (\<lambda>c. [hex_digit (byte c div 16), hex_digit (byte c mod 16)]) s)"

definition hash_token :: "crypto \<Rightarrow> string \<Rightarrow> string" where
  "hash_token cr token = hex_encode (cr_sha cr token)"

definition confirm_purpose :: string where
  "confirm_purpose = ''whatc/ai_tools/confirm/v1''"

definition action_digest ::
  "store \<Rightarrow> uuid \<Rightarrow> uuid \<Rightarrow> string \<Rightarrow> jsonb \<Rightarrow> store_error + string" where
  "action_digest st org contact tool args =
     (if st_secret st = [] then Inl ErrNoSecret
      else case cr_canon (st_crypto st) org contact tool args of
             None \<Rightarrow> Inl ErrCanonical
           | Some canon \<Rightarrow>
               Inr (hex_encode (cr_mac (st_crypto st) (cr_mac (st_crypto st) (st_secret st) confirm_purpose) canon)))"

section \<open>Propose\<close>

record propose_input =
  in_scope :: scope
  in_run :: uuid
  in_tool :: string
  in_args :: jsonb
  in_call :: "uuid option"

definition same_target :: "uuid \<Rightarrow> uuid \<Rightarrow> string \<Rightarrow> conf \<Rightarrow> bool" where
  "same_target org contact tool c \<longleftrightarrow> cf_org c = org \<and> cf_contact c = contact \<and> cf_tool c = tool"

text \<open>\<open>finished_at >= t\<close>: a NULL instant never satisfies a comparison.\<close>

definition since :: "time option \<Rightarrow> time \<Rightarrow> bool" where
  "since x t \<longleftrightarrow> (case x of None \<Rightarrow> False | Some y \<Rightarrow> t \<le> y)"

definition new_conf ::
  "store \<Rightarrow> propose_input \<Rightarrow> uuid \<Rightarrow> uuid \<Rightarrow> uuid \<Rightarrow> string \<Rightarrow> string \<Rightarrow> time \<Rightarrow> conf" where
  "new_conf st i new_id contact session token digest now =
     \<lparr>cf_id = new_id, cf_org = sc_org (in_scope i), cf_contact = contact, cf_session = session,
      cf_run = in_run i, cf_tool = in_tool i, cf_risk = RiskWrite,
      cf_token_hash = hash_token (st_crypto st) token, cf_args = in_args i, cf_digest = digest,
      cf_status = Pending, cf_outcome = [], cf_denial = [], cf_error_kind = [], cf_proposed_at = now,
      cf_expires_at = now + pr_ttl (st_params st), cf_confirmed_at = None, cf_finished_at = None,
      cf_confirmed_by = None, cf_wamid = [], cf_claimed_at = None, cf_attempts = 0,
      cf_proposal_call = in_call i, cf_execution_call = None, cf_transfer = None\<rparr>"

definition supersede :: "uuid \<Rightarrow> uuid \<Rightarrow> string \<Rightarrow> time \<Rightarrow> table \<Rightarrow> table" where
  "supersede org contact tool now t =
     map (\<lambda>c. if same_target org contact tool c \<and> cf_status c = Pending
              then c\<lparr>cf_status := Superseded, cf_finished_at := Some now\<rparr> else c) t"

text \<open>The INSERT fails when the primary key or the unique token hash is already in the table.\<close>

definition insert_row :: "conf \<Rightarrow> table \<Rightarrow> table option" where
  "insert_row c t =
     (if cf_id c \<in> set (map cf_id t) \<or> cf_token_hash c \<in> set (map cf_token_hash t) then None
      else Some (t @ [c]))"

text \<open>
  The transaction, under the per-contact lock: \<open>ok k\<close> says whether its \<open>k\<close>-th statement works
  (lock, refusals, recent proposals, supersede, insert). Any failure rolls the whole of it back.
\<close>

definition propose_tx ::
  "store \<Rightarrow> propose_input \<Rightarrow> uuid \<Rightarrow> conf \<Rightarrow> time \<Rightarrow> (nat \<Rightarrow> bool) \<Rightarrow> table \<Rightarrow> store_error + table" where
  "propose_tx st i contact c now ok t =
     (let p = st_params st; target = same_target (sc_org (in_scope i)) contact (in_tool i) in
      if \<not> ok 0 then Inl ErrDatabase
      else if pr_cooldown p > 0 \<and> \<not> ok 1 then Inl ErrDatabase
      else if pr_cooldown p > 0
              \<and> filter (\<lambda>x. target x \<and> cf_status x = Declined \<and> since (cf_finished_at x) (now - pr_cooldown p)) t \<noteq> []
      then Inl ErrRecentlyDeclined
      else if \<not> ok 2 then Inl ErrDatabase
      else if int (length (filter (\<lambda>x. target x \<and> now - pr_window p \<le> cf_proposed_at x) t)) \<ge> pr_limit p
      then Inl ErrTooManyProposals
      else if \<not> ok 3 then Inl ErrDatabase
      else if \<not> ok 4 then Inl ErrDatabase
      else (case insert_row c (supersede (sc_org (in_scope i)) contact (in_tool i) now t) of
              None \<Rightarrow> Inl ErrDatabase
            | Some t' \<Rightarrow> Inr t'))"

definition propose ::
  "store \<Rightarrow> propose_input \<Rightarrow> string option \<Rightarrow> uuid \<Rightarrow> time \<Rightarrow> (nat \<Rightarrow> bool) \<Rightarrow> table \<Rightarrow>
   (store_error + string \<times> conf) \<times> table" where
  "propose st i random new_id now ok t =
     (if sc_org (in_scope i) = 0 then (Inl ErrMissingScope, t)
      else case (sc_contact (in_scope i), sc_session (in_scope i)) of
        (Some contact, Some session) \<Rightarrow>
          (case action_digest st (sc_org (in_scope i)) contact (in_tool i) (in_args i) of
             Inl e \<Rightarrow> (Inl e, t)
           | Inr digest \<Rightarrow>
               (case random of
                  None \<Rightarrow> (Inl ErrRandom, t)
                | Some token \<Rightarrow>
                    let c = new_conf st i new_id contact session token digest now in
                    (case propose_tx st i contact c now ok t of
                       Inl e \<Rightarrow> (Inl e, t)
                     | Inr t' \<Rightarrow> (Inr (token, c), t'))))
      | _ \<Rightarrow> (Inl ErrMissingScope, t))"

section \<open>Lookup\<close>

datatype lookup_result = LookupOK | LookupNotFound | LookupNotPending | LookupExpired | LookupTampered

text \<open>
  \<open>sessions\<close> says whether \<open>chatbot_sessions\<close> has the session of that organization and contact.
\<close>

definition lookup_conf ::
  "store \<Rightarrow> (uuid \<Rightarrow> uuid \<Rightarrow> uuid \<Rightarrow> bool) \<Rightarrow> string \<Rightarrow> uuid \<Rightarrow> uuid \<Rightarrow> uuid \<Rightarrow> time \<Rightarrow> bool \<Rightarrow> table \<Rightarrow>
   conf option \<times> lookup_result" where
  "lookup_conf st sessions token org contact session now ok t =
     (if token = [] \<or> org = 0 \<or> contact = 0 \<or> session = 0 \<or> \<not> ok then (None, LookupNotFound)
      else case List.find (\<lambda>c. cf_token_hash c = hash_token (st_crypto st) token
                                \<and> cf_org c = org \<and> cf_contact c = contact) t of
        None \<Rightarrow> (None, LookupNotFound)
      | Some c \<Rightarrow>
          if cf_session c \<noteq> session then (None, LookupNotFound)
          else if \<not> sessions (cf_session c) org contact then (None, LookupNotFound)
          else if cf_status c \<noteq> Pending then (Some c, LookupNotPending)
          else if \<not> now < cf_expires_at c then (Some c, LookupExpired)
          else (case action_digest st (cf_org c) (cf_contact c) (cf_tool c) (cf_args c) of
                  Inl e \<Rightarrow> (Some c, LookupTampered)
                | Inr want \<Rightarrow>
                    if want \<noteq> cf_digest c then (Some c, LookupTampered) else (Some c, LookupOK)))"

section \<open>The compare-and-set transitions\<close>

text \<open>
  \<open>UPDATE ... WHERE id = ? AND status IN from\<close>: whether this call made the change, whether the
  statement failed, and the table after it.
\<close>

definition transition ::
  "bool \<Rightarrow> uuid \<Rightarrow> conf_status list \<Rightarrow> (conf \<Rightarrow> conf) \<Rightarrow> table \<Rightarrow> bool \<times> bool \<times> table" where
  "transition ok i from upd t =
     (if \<not> ok then (False, True, t)
      else let hit = (\<lambda>c. cf_id c = i \<and> cf_status c \<in> set from)
           in (length (filter hit t) = 1, False, map (\<lambda>c. if hit c then upd c else c) t))"

definition decline :: "time \<Rightarrow> bool \<Rightarrow> uuid \<Rightarrow> table \<Rightarrow> bool \<times> bool \<times> table" where
  "decline now ok i = transition ok i [Pending] (\<lambda>c. c\<lparr>cf_status := Declined, cf_finished_at := Some now\<rparr>)"

definition expire :: "time \<Rightarrow> bool \<Rightarrow> uuid \<Rightarrow> table \<Rightarrow> bool \<times> bool \<times> table" where
  "expire now ok i = transition ok i [Pending] (\<lambda>c. c\<lparr>cf_status := Expired, cf_finished_at := Some now\<rparr>)"

definition deny_conf :: "time \<Rightarrow> bool \<Rightarrow> uuid \<Rightarrow> string \<Rightarrow> table \<Rightarrow> bool \<times> bool \<times> table" where
  "deny_conf now ok i reason = transition ok i [Pending]
     (\<lambda>c. c\<lparr>cf_status := Denied, cf_denial := reason, cf_finished_at := Some now\<rparr>)"

definition close_not_executed :: "time \<Rightarrow> bool \<Rightarrow> uuid \<Rightarrow> string \<Rightarrow> table \<Rightarrow> bool \<times> bool \<times> table" where
  "close_not_executed now ok i outcome = transition ok i [Pending]
     (\<lambda>c. c\<lparr>cf_status := NotExecuted, cf_outcome := outcome, cf_finished_at := Some now\<rparr>)"

definition confirm :: "time \<Rightarrow> bool \<Rightarrow> uuid \<Rightarrow> uuid \<Rightarrow> string \<Rightarrow> table \<Rightarrow> bool \<times> bool \<times> table" where
  "confirm now ok i by_contact wamid = transition ok i [Pending]
     (\<lambda>c. c\<lparr>cf_status := Confirmed, cf_confirmed_at := Some now, cf_confirmed_by := Some by_contact,
            cf_wamid := wamid\<rparr>)"

record finish_input =
  fi_status :: conf_status
  fi_outcome :: string
  fi_transfer :: "uuid option"
  fi_error_kind :: string
  fi_denial :: string
  fi_execution_call :: "uuid option"

definition finish_row :: "finish_input \<Rightarrow> time \<Rightarrow> conf \<Rightarrow> conf" where
  "finish_row f now c =
     c\<lparr>cf_status := fi_status f, cf_outcome := fi_outcome f, cf_error_kind := fi_error_kind f,
       cf_denial := fi_denial f, cf_finished_at := Some now,
       cf_transfer := (case fi_transfer f of Some x \<Rightarrow> Some x | None \<Rightarrow> cf_transfer c),
       cf_execution_call := (case fi_execution_call f of Some x \<Rightarrow> Some x | None \<Rightarrow> cf_execution_call c)\<rparr>"

definition finish :: "time \<Rightarrow> bool \<Rightarrow> uuid \<Rightarrow> finish_input \<Rightarrow> table \<Rightarrow> bool \<times> bool \<times> table" where
  "finish now ok i f t =
     (if fi_status f \<in> {Executed, NotExecuted, Failed, Denied}
      then transition ok i [Confirmed] (finish_row f now) t
      else (False, True, t))"

definition set_execution_call :: "bool \<Rightarrow> uuid \<Rightarrow> uuid \<Rightarrow> table \<Rightarrow> bool \<times> table" where
  "set_execution_call ok i call t =
     (if \<not> ok then (True, t)
      else (False, map (\<lambda>c. if cf_id c = i then c\<lparr>cf_execution_call := Some call\<rparr> else c) t))"

section \<open>The reconciler's queries\<close>

text \<open>\<open>claimed IS NULL OR claimed < cutoff\<close>\<close>

definition claim_stale :: "time \<Rightarrow> conf \<Rightarrow> bool" where
  "claim_stale cutoff c \<longleftrightarrow> (case cf_claimed_at c of None \<Rightarrow> True | Some x \<Rightarrow> x < cutoff)"

text \<open>\<open>ORDER BY confirmed_at ASC\<close> puts NULL last.\<close>

definition confirmed_key :: "conf \<Rightarrow> int list" where
  "confirmed_key c = (case cf_confirmed_at c of Some x \<Rightarrow> [0, x] | None \<Rightarrow> [1])"

definition stuck_confirmed :: "time \<Rightarrow> time \<Rightarrow> int \<Rightarrow> nat \<Rightarrow> table \<Rightarrow> conf list" where
  "stuck_confirmed now min_age max_attempts limit t =
     take limit (sort_key confirmed_key
       (filter (\<lambda>c. cf_status c = Confirmed
          \<and> (case cf_confirmed_at c of None \<Rightarrow> False | Some x \<Rightarrow> x < now - min_age)
          \<and> cf_attempts c < max_attempts \<and> claim_stale (now - min_age) c) t))"

definition exhausted_confirmed :: "time \<Rightarrow> time \<Rightarrow> int \<Rightarrow> nat \<Rightarrow> table \<Rightarrow> conf list" where
  "exhausted_confirmed now min_age max_attempts limit t =
     take limit (sort_key confirmed_key
       (filter (\<lambda>c. cf_status c = Confirmed \<and> max_attempts \<le> cf_attempts c
          \<and> claim_stale (now - min_age) c) t))"

definition claim_reconcile :: "time \<Rightarrow> bool \<Rightarrow> uuid \<Rightarrow> time \<Rightarrow> table \<Rightarrow> bool \<times> bool \<times> table" where
  "claim_reconcile now ok i min_age t =
     (if \<not> ok then (False, True, t)
      else let hit = (\<lambda>c. cf_id c = i \<and> cf_status c = Confirmed \<and> claim_stale (now - min_age) c)
           in (length (filter hit t) = 1, False,
               map (\<lambda>c. if hit c then c\<lparr>cf_claimed_at := Some now, cf_attempts := cf_attempts c + 1\<rparr> else c) t))"

definition get_conf :: "bool \<Rightarrow> uuid \<Rightarrow> table \<Rightarrow> conf option" where
  "get_conf ok i t = (if ok then List.find (\<lambda>c. cf_id c = i) t else None)"


section \<open>The life of a confirmation\<close>

text \<open>The moves of a status. Every other status is final.\<close>

inductive moves :: "conf_status \<Rightarrow> conf_status \<Rightarrow> bool" where
  confirm: "moves Pending Confirmed"
| close: "b \<in> {Declined, Expired, Superseded, Denied, NotExecuted} \<Longrightarrow> moves Pending b"
| finish: "b \<in> {Executed, NotExecuted, Failed, Denied} \<Longrightarrow> moves Confirmed b"

inductive_simps moves_from_Pending [simp]: "moves Pending b"
inductive_simps moves_from_Confirmed [simp]: "moves Confirmed b"
inductive_cases moves_to_Confirmed: "moves a Confirmed"
inductive_cases moves_to_Executed: "moves a Executed"

lemma moves_into_Pending: "\<not> moves a Pending"
  by (auto elim: moves.cases)

lemma moves_source: "moves a b \<Longrightarrow> a \<in> {Pending, Confirmed}"
  by (auto elim: moves.cases)

text \<open>What a row keeps for ever, and what it means to be in a state.\<close>

definition row_key :: "conf \<Rightarrow> uuid \<times> uuid \<times> uuid \<times> uuid \<times> string \<times> string \<times> jsonb \<times> string \<times> time \<times> time" where
  "row_key c = (cf_id c, cf_org c, cf_contact c, cf_session c, cf_tool c, cf_token_hash c, cf_args c,
     cf_digest c, cf_proposed_at c, cf_expires_at c)"

definition row_wf :: "conf \<Rightarrow> bool" where
  "row_wf c \<longleftrightarrow>
     (cf_status c = Pending \<longrightarrow> cf_confirmed_at c = None \<and> cf_confirmed_by c = None \<and> cf_wamid c = []
        \<and> cf_finished_at c = None \<and> cf_claimed_at c = None \<and> cf_attempts c = 0)
     \<and> (cf_status c \<in> {Pending, Confirmed, Declined, Expired, Superseded} \<longrightarrow>
        cf_outcome c = [] \<and> cf_denial c = [] \<and> cf_error_kind c = [] \<and> cf_transfer c = None)
     \<and> (cf_status c = Confirmed \<longrightarrow> cf_confirmed_at c \<noteq> None \<and> cf_confirmed_by c \<noteq> None \<and> cf_finished_at c = None)
     \<and> (cf_status c \<in> {Executed, Failed} \<longrightarrow> cf_confirmed_at c \<noteq> None \<and> cf_confirmed_by c \<noteq> None)
     \<and> (cf_status c \<notin> {Pending, Confirmed} \<longrightarrow> cf_finished_at c \<noteq> None)"

definition row_step :: "conf \<Rightarrow> conf \<Rightarrow> bool" where
  "row_step c c' \<longleftrightarrow> row_key c' = row_key c
     \<and> (cf_status c' = cf_status c \<or> moves (cf_status c) (cf_status c'))
     \<and> (row_wf c \<longrightarrow> row_wf c')"

lemma row_step_refl [simp]: "row_step c c"
  by (simp add: row_step_def)

lemma row_stepD:
  assumes "row_step c c'"
  shows "cf_id c' = cf_id c" "cf_proposed_at c' = cf_proposed_at c" "cf_token_hash c' = cf_token_hash c"
    "same_target org contact tool c' = same_target org contact tool c"
    "cf_status c' = Pending \<Longrightarrow> cf_status c = Pending"
    "row_wf c \<Longrightarrow> row_wf c'"
  using assms moves_into_Pending by (auto simp: row_step_def row_key_def same_target_def)

lemma list_all2_map_self: "(\<And>x. R x (f x)) \<Longrightarrow> list_all2 R xs (map f xs)"
  by (induction xs) auto

lemma transition_rows:
  assumes "transition ok i from upd t = (won, err, t')"
    and "\<And>c. cf_status c \<in> set from \<Longrightarrow> row_step c (upd c)"
  shows "list_all2 row_step t t'"
  using assms
  by (auto simp: transition_def Let_def list.rel_refl split: if_splits intro!: list_all2_map_self)

lemmas transition_ops = decline_def expire_def deny_conf_def close_not_executed_def confirm_def

lemma op_rows:
  "decline now ok i t = (w, e, t') \<Longrightarrow> list_all2 row_step t t'"
  "expire now ok i t = (w, e, t') \<Longrightarrow> list_all2 row_step t t'"
  "deny_conf now ok i reason t = (w, e, t') \<Longrightarrow> list_all2 row_step t t'"
  "close_not_executed now ok i out t = (w, e, t') \<Longrightarrow> list_all2 row_step t t'"
  "confirm now ok i by_contact wamid t = (w, e, t') \<Longrightarrow> list_all2 row_step t t'"
  by (auto simp: transition_ops row_step_def row_key_def row_wf_def elim!: transition_rows)

lemma finish_rows: "finish now ok i f t = (w, e, t') \<Longrightarrow> list_all2 row_step t t'"
  by (auto simp: finish_def finish_row_def row_step_def row_key_def row_wf_def list.rel_refl
      split: if_splits elim!: transition_rows)

lemma set_execution_call_rows: "set_execution_call ok i call t = (e, t') \<Longrightarrow> list_all2 row_step t t'"
  by (auto simp: set_execution_call_def row_step_def row_key_def row_wf_def list.rel_refl
      split: if_splits intro!: list_all2_map_self)

lemma claim_rows: "claim_reconcile now ok i age t = (w, e, t') \<Longrightarrow> list_all2 row_step t t'"
  by (auto simp: claim_reconcile_def Let_def row_step_def row_key_def row_wf_def list.rel_refl
      split: if_splits intro!: list_all2_map_self)

lemma ids_rows: "list_all2 row_step t t' \<Longrightarrow> map cf_id t' = map cf_id t"
  by (erule list_all2_map_eq) (simp add: row_stepD)

lemma supersede_rows: "list_all2 row_step t (supersede org contact tool now t)"
  by (auto simp: supersede_def row_step_def row_key_def row_wf_def intro!: list_all2_map_self)

section \<open>Histories of the table\<close>

text \<open>
  One operation of some process on the table; \<^term>\<open>OpTick\<close> is time passing. The first component
  of a result is whether the caller won.
\<close>

datatype store_op =
    OpPropose propose_input "string option" uuid "nat \<Rightarrow> bool"
  | OpDecline uuid bool
  | OpExpire uuid bool
  | OpDeny uuid string bool
  | OpClose uuid string bool
  | OpConfirm uuid uuid string bool
  | OpFinish uuid finish_input bool
  | OpSetCall uuid uuid bool
  | OpClaim uuid time bool
  | OpTick nat

definition keep_time :: "time \<Rightarrow> bool \<times> bool \<times> table \<Rightarrow> bool \<times> time \<times> table" where
  "keep_time now r = (case r of (w, e, t) \<Rightarrow> (w, now, t))"

fun exec_op :: "store \<Rightarrow> store_op \<Rightarrow> time \<times> table \<Rightarrow> bool \<times> time \<times> table" where
  "exec_op st (OpPropose i random new_id ok) (now, t) =
     (case propose st i random new_id now ok t of
        (Inl e, t') \<Rightarrow> (False, now, t') | (Inr r, t') \<Rightarrow> (True, now, t'))"
| "exec_op st (OpDecline i ok) (now, t) = keep_time now (decline now ok i t)"
| "exec_op st (OpExpire i ok) (now, t) = keep_time now (expire now ok i t)"
| "exec_op st (OpDeny i reason ok) (now, t) = keep_time now (deny_conf now ok i reason t)"
| "exec_op st (OpClose i out ok) (now, t) = keep_time now (close_not_executed now ok i out t)"
| "exec_op st (OpConfirm i c m ok) (now, t) = keep_time now (confirm now ok i c m t)"
| "exec_op st (OpFinish i f ok) (now, t) = keep_time now (finish now ok i f t)"
| "exec_op st (OpSetCall i c ok) (now, t) = (case set_execution_call ok i c t of (e, t') \<Rightarrow> (False, now, t'))"
| "exec_op st (OpClaim i age ok) (now, t) = keep_time now (claim_reconcile now ok i age t)"
| "exec_op st (OpTick d) (now, t) = (False, now + int d, t)"

text \<open>The two shapes of an operation: rows move in place, or a proposal is added.\<close>

definition added :: "store \<Rightarrow> time \<Rightarrow> table \<Rightarrow> table \<Rightarrow> bool" where
  "added st now t t' \<longleftrightarrow>
     (\<exists>c. t' = supersede (cf_org c) (cf_contact c) (cf_tool c) now t @ [c]
        \<and> cf_status c = Pending \<and> row_wf c \<and> cf_proposed_at c = now
        \<and> cf_id c \<notin> set (map cf_id t)
        \<and> int (length (filter (\<lambda>x. same_target (cf_org c) (cf_contact c) (cf_tool c) x
              \<and> now - pr_window (st_params st) \<le> cf_proposed_at x) t)) < pr_limit (st_params st))"

lemma propose_success:
  assumes "propose st i random new_id now ok t = (Inr (token, c), t')"
  shows "\<exists>contact. sc_contact (in_scope i) = Some contact
    \<and> cf_status c = Pending \<and> row_wf c \<and> cf_proposed_at c = now \<and> cf_org c = sc_org (in_scope i)
    \<and> cf_contact c = contact \<and> cf_tool c = in_tool i
    \<and> propose_tx st i contact c now ok t = Inr t'"
  using assms
  by (auto simp: propose_def Let_def new_conf_def row_wf_def split: if_splits option.splits sum.splits)

lemma map_id_supersede [simp]: "map cf_id (supersede org contact tool now t) = map cf_id t"
  by (auto simp: supersede_def)

lemma insert_row_Some:
  "insert_row c t = Some t' \<longleftrightarrow>
     t' = t @ [c] \<and> cf_id c \<notin> set (map cf_id t) \<and> cf_token_hash c \<notin> set (map cf_token_hash t)"
  unfolding insert_row_def by auto

lemma propose_tx_success:
  assumes "propose_tx st i contact c now ok t = Inr t'"
  shows "t' = supersede (sc_org (in_scope i)) contact (in_tool i) now t @ [c]"
    "cf_id c \<notin> set (map cf_id t)"
    "int (length (filter (\<lambda>x. same_target (sc_org (in_scope i)) contact (in_tool i) x
        \<and> now - pr_window (st_params st) \<le> cf_proposed_at x) t)) < pr_limit (st_params st)"
proof -
  have "insert_row c (supersede (sc_org (in_scope i)) contact (in_tool i) now t) = Some t'"
    using assms by (auto simp: propose_tx_def Let_def split: if_splits option.splits)
  then show "t' = supersede (sc_org (in_scope i)) contact (in_tool i) now t @ [c]" "cf_id c \<notin> set (map cf_id t)"
    by (auto simp: insert_row_def simp del: set_map split: if_splits)
  show "int (length (filter (\<lambda>x. same_target (sc_org (in_scope i)) contact (in_tool i) x
        \<and> now - pr_window (st_params st) \<le> cf_proposed_at x) t)) < pr_limit (st_params st)"
    using assms by (auto simp: propose_tx_def Let_def not_le split: if_splits)
qed

lemma propose_shape:
  assumes "propose st i random new_id now ok t = (r, t')"
  shows "t' = t \<or> added st now t t'"
proof (cases r)
  case (Inl e)
  then show ?thesis
    using assms by (auto simp: propose_def Let_def split: if_splits option.splits sum.splits)
next
  case (Inr tc)
  obtain token c where "tc = (token, c)" by (cases tc)
  then obtain contact where
    c: "cf_status c = Pending" "row_wf c" "cf_proposed_at c = now" "cf_org c = sc_org (in_scope i)"
      "cf_contact c = contact" "cf_tool c = in_tool i"
    and tx: "propose_tx st i contact c now ok t = Inr t'"
    using propose_success assms Inr by blast
  show ?thesis using propose_tx_success [OF tx] c unfolding added_def by (intro disjI2 exI [of _ c]) simp
qed

lemma exec_op_shape:
  assumes "exec_op st x (now, t) = (won, now', t')"
  shows "now \<le> now' \<and> (list_all2 row_step t t' \<or> (now' = now \<and> added st now t t'))"
proof (cases x)
  case (OpPropose i random new_id ok)
  then show ?thesis
    using assms propose_shape [of st i random new_id now ok t]
    by (auto simp: list.rel_refl split: prod.splits sum.splits)
qed (use assms in \<open>auto simp: keep_time_def list.rel_refl split: prod.splits
      elim: op_rows finish_rows set_execution_call_rows claim_rows\<close>)


section \<open>What every reachable table satisfies\<close>

inductive store_reach :: "store \<Rightarrow> time \<times> table \<Rightarrow> bool" for st where
  start: "store_reach st (now, [])"
| op: "store_reach st s \<Longrightarrow> exec_op st x s = (won, s') \<Longrightarrow> store_reach st s'"

definition pending_of :: "uuid \<Rightarrow> uuid \<Rightarrow> string \<Rightarrow> table \<Rightarrow> nat" where
  "pending_of org contact tool t =
     length (filter (\<lambda>c. same_target org contact tool c \<and> cf_status c = Pending) t)"

definition proposed_in :: "uuid \<Rightarrow> uuid \<Rightarrow> string \<Rightarrow> time \<Rightarrow> time \<Rightarrow> table \<Rightarrow> nat" where
  "proposed_in org contact tool a b t =
     length (filter (\<lambda>c. same_target org contact tool c \<and> a \<le> cf_proposed_at c \<and> cf_proposed_at c \<le> b) t)"

definition table_inv :: "store \<Rightarrow> time \<Rightarrow> table \<Rightarrow> bool" where
  "table_inv st now t \<longleftrightarrow>
     distinct (map cf_id t)
     \<and> (\<forall>c \<in> set t. row_wf c \<and> cf_proposed_at c \<le> now)
     \<and> (\<forall>org contact tool. pending_of org contact tool t \<le> 1)
     \<and> (\<forall>org contact tool u.
          int (proposed_in org contact tool (u - pr_window (st_params st)) u t) \<le> max 0 (pr_limit (st_params st)))"

lemma table_inv_Nil: "table_inv st now []"
  by (simp add: table_inv_def pending_of_def proposed_in_def)

lemma pending_rows: "list_all2 row_step t t' \<Longrightarrow> pending_of org contact tool t' \<le> pending_of org contact tool t"
  unfolding pending_of_def by (erule list_all2_filter_le) (simp add: row_stepD)

lemma proposed_rows: "list_all2 row_step t t' \<Longrightarrow> proposed_in org contact tool a b t' \<le> proposed_in org contact tool a b t"
  unfolding proposed_in_def by (erule list_all2_filter_le) (simp add: row_stepD)

lemma table_inv_rows:
  assumes "table_inv st now t" "list_all2 row_step t t'" "now \<le> now'"
  shows "table_inv st now' t'"
proof -
  note ids = ids_rows [OF assms(2)]
  have rows: "\<forall>c \<in> set t'. row_wf c \<and> cf_proposed_at c \<le> now'"
    by (rule list_all2_all [OF assms(2), where P = "\<lambda>c. row_wf c \<and> cf_proposed_at c \<le> now"])
       (use assms(1,3) row_stepD in \<open>auto simp: table_inv_def\<close>)
  show ?thesis
    unfolding table_inv_def
  proof (intro conjI allI)
    show "distinct (map cf_id t')" using assms(1) ids by (simp add: table_inv_def)
    show "\<forall>c \<in> set t'. row_wf c \<and> cf_proposed_at c \<le> now'" by (rule rows)
    show "pending_of org contact tool t' \<le> 1" for org contact tool
      using pending_rows [OF assms(2), of org contact tool] assms(1)
      by (meson le_trans table_inv_def)
    show "int (proposed_in org contact tool (u - pr_window (st_params st)) u t') \<le> max 0 (pr_limit (st_params st))"
      for org contact tool u
    proof -
      have "int (proposed_in org contact tool (u - pr_window (st_params st)) u t) \<le> max 0 (pr_limit (st_params st))"
        using assms(1) by (simp only: table_inv_def)
      then show ?thesis
        using proposed_rows [OF assms(2), of org contact tool "u - pr_window (st_params st)" u] by linarith
    qed
  qed
qed

lemma pending_supersede:
  "pending_of org contact tool (supersede org contact tool now t) = 0"
  by (auto simp: pending_of_def supersede_def filter_empty_conv same_target_def)

lemma pending_append [simp]:
  "pending_of org contact tool (t @ [c]) =
     pending_of org contact tool t + (if same_target org contact tool c \<and> cf_status c = Pending then 1 else 0)"
  by (simp add: pending_of_def)

lemma proposed_append [simp]:
  "proposed_in org contact tool a b (t @ [c]) = proposed_in org contact tool a b t
     + (if same_target org contact tool c \<and> a \<le> cf_proposed_at c \<and> cf_proposed_at c \<le> b then 1 else 0)"
  by (simp add: proposed_in_def)

lemma table_inv_added:
  assumes inv: "table_inv st now t" and "added st now t t'"
  shows "table_inv st now t'"
proof -
  obtain c where t': "t' = supersede (cf_org c) (cf_contact c) (cf_tool c) now t @ [c]"
    and c: "cf_status c = Pending" "row_wf c" "cf_proposed_at c = now" "cf_id c \<notin> set (map cf_id t)"
    and room: "int (length (filter (\<lambda>x. same_target (cf_org c) (cf_contact c) (cf_tool c) x
        \<and> now - pr_window (st_params st) \<le> cf_proposed_at x) t)) < pr_limit (st_params st)"
    using assms(2) unfolding added_def by blast
  let ?s = "supersede (cf_org c) (cf_contact c) (cf_tool c) now t"
  have s: "table_inv st now ?s" by (rule table_inv_rows [OF inv supersede_rows order_refl])
  have pend: "pending_of org contact tool t' \<le> 1" for org contact tool
  proof (cases "same_target org contact tool c")
    case True
    then show ?thesis by (simp add: t' same_target_def pending_supersede)
  next
    case False
    then show ?thesis using s by (simp add: t' table_inv_def)
  qed
  have rate: "int (proposed_in org contact tool (u - pr_window (st_params st)) u t') \<le> max 0 (pr_limit (st_params st))"
    for org contact tool u
  proof (cases "same_target org contact tool c \<and> now \<le> u \<and> u - pr_window (st_params st) \<le> now")
    case True
    then have eq: "org = cf_org c" "contact = cf_contact c" "tool = cf_tool c" by (auto simp: same_target_def)
    have "proposed_in org contact tool (u - pr_window (st_params st)) u ?s
        \<le> proposed_in org contact tool (u - pr_window (st_params st)) u t"
      by (rule proposed_rows [OF supersede_rows])
    also have "\<dots> \<le> length (filter (\<lambda>x. same_target (cf_org c) (cf_contact c) (cf_tool c) x
        \<and> now - pr_window (st_params st) \<le> cf_proposed_at x) t)"
      unfolding proposed_in_def eq by (rule length_filter_mono) (use True in auto)
    finally show ?thesis using room True c(3) by (simp add: t')
  next
    case False
    then show ?thesis using s c(3) by (auto simp: t' table_inv_def)
  qed
  show ?thesis
    using s c pend rate unfolding table_inv_def by (simp add: t')
qed

lemma exec_op_inv: "table_inv st now t \<Longrightarrow> exec_op st x (now, t) = (won, now', t') \<Longrightarrow> table_inv st now' t'"
  using exec_op_shape table_inv_rows table_inv_added by metis

lemma reach_inv: "store_reach st s \<Longrightarrow> table_inv st (fst s) (snd s)"
proof (induction rule: store_reach.induct)
  case (start now)
  then show ?case by (simp add: table_inv_Nil)
next
  case (op s x won s')
  then show ?case using exec_op_inv by (cases s, cases s') auto
qed


text \<open>C5 (type).
  The state of a row tells what happened to it. An executed or failed request was confirmed by a
  customer at some instant. A pending one has no confirmation, no instant of its end, no claim and no
  attempt of the reconciler. One that is pending, confirmed, declined, expired or superseded has no
  outcome, no reason of a denial, no kind of error and no transfer. Every final state has its instant.\<close>

theorem reachable_rows_well_formed:
  assumes "store_reach st (now, t)" "c \<in> set t"
  shows "row_wf c"
  using reach_inv [OF assms(1)] assms(2) by (simp add: table_inv_def)

section \<open>A confirmation is consumed once\<close>

fun run_ops :: "store \<Rightarrow> store_op list \<Rightarrow> time \<times> table \<Rightarrow> bool list \<times> time \<times> table" where
  "run_ops st [] s = ([], s)"
| "run_ops st (x # xs) s =
     (case exec_op st x s of (won, s') \<Rightarrow> (case run_ops st xs s' of (ws, s'') \<Rightarrow> (won # ws, s'')))"

fun confirms :: "uuid \<Rightarrow> store_op \<Rightarrow> bool" where
  "confirms i (OpConfirm j c m ok) = (i = j)"
| "confirms i _ = False"

definition confirm_wins :: "store \<Rightarrow> uuid \<Rightarrow> store_op list \<Rightarrow> time \<times> table \<Rightarrow> nat" where
  "confirm_wins st i xs s = length (filter (\<lambda>(x, won). confirms i x \<and> won) (zip xs (fst (run_ops st xs s))))"

lemma confirm_wins_simps [simp]:
  "confirm_wins st i [] s = 0"
  "confirm_wins st i (x # xs) s =
     (if confirms i x \<and> fst (exec_op st x s) then 1 else 0) + confirm_wins st i xs (snd (exec_op st x s))"
  by (auto simp: confirm_wins_def split: prod.splits)

text \<open>The row of an identifier has left the pending state for good.\<close>

definition spent :: "uuid \<Rightarrow> table \<Rightarrow> bool" where
  "spent i t \<longleftrightarrow> (\<exists>c \<in> set t. cf_id c = i) \<and> (\<forall>c \<in> set t. cf_id c = i \<longrightarrow> cf_status c \<noteq> Pending)"

lemma spent_rows:
  assumes "spent i t" "list_all2 row_step t t'"
  shows "spent i t'"
proof -
  have "(\<exists>c \<in> set t'. cf_id c = i)"
    using assms(1) ids_rows [OF assms(2)] unfolding spent_def by (metis in_set_conv_nth length_map nth_map)
  moreover have "\<forall>c \<in> set t'. cf_id c = i \<longrightarrow> cf_status c \<noteq> Pending"
    by (rule list_all2_all [OF assms(2), where P = "\<lambda>c. cf_id c = i \<longrightarrow> cf_status c \<noteq> Pending"])
       (use assms(1) row_stepD(1,5) in \<open>auto simp: spent_def\<close>)
  ultimately show ?thesis by (simp add: spent_def)
qed

lemma spent_added:
  assumes "spent i t" "added st now t t'"
  shows "spent i t'"
proof -
  obtain c where t': "t' = supersede (cf_org c) (cf_contact c) (cf_tool c) now t @ [c]"
    and new: "cf_id c \<notin> set (map cf_id t)"
    using assms(2) unfolding added_def by blast
  moreover have "cf_id c \<noteq> i" using assms(1) new by (auto simp: spent_def)
  ultimately show ?thesis
    using spent_rows [OF assms(1) supersede_rows, of "cf_org c" "cf_contact c" "cf_tool c" now]
    by (auto simp: spent_def)
qed

lemma spent_stays: "spent i t \<Longrightarrow> exec_op st x (now, t) = (won, now', t') \<Longrightarrow> spent i t'"
  using exec_op_shape spent_rows spent_added by metis

lemma transition_won:
  assumes "transition ok i from upd t = (True, err, t')"
  obtains c where "c \<in> set t" "cf_id c = i" "cf_status c \<in> set from"
proof -
  have "length (filter (\<lambda>c. cf_id c = i \<and> cf_status c \<in> set from) t) = 1"
    using assms by (auto simp: transition_def Let_def split: if_splits)
  then have "filter (\<lambda>c. cf_id c = i \<and> cf_status c \<in> set from) t \<noteq> []" by auto
  then show ?thesis using that by (auto simp: filter_empty_conv)
qed

lemma spent_no_confirm: "spent i t \<Longrightarrow> confirms i x \<Longrightarrow> exec_op st x (now, t) = (won, s') \<Longrightarrow> \<not> won"
  by (cases x) (auto simp: keep_time_def confirm_def spent_def split: prod.splits elim!: transition_won)

lemma confirm_spends:
  assumes "confirms i x" "exec_op st x (now, t) = (True, now', t')"
  shows "spent i t'"
proof -
  obtain c m ok where x: "x = OpConfirm i c m ok" using assms(1) by (cases x) auto
  obtain e where e: "confirm now ok i c m t = (True, e, t')"
    using assms(2) by (auto simp: x keep_time_def split: prod.splits)
  then obtain c0 where c0: "c0 \<in> set t" "cf_id c0 = i"
    unfolding confirm_def by (rule transition_won)
  have "i \<in> set (map cf_id t)" using c0 by auto
  then have "i \<in> set (map cf_id t')" by (simp only: ids_rows [OF op_rows(5) [OF e]])
  then have present: "\<exists>y \<in> set t'. cf_id y = i" by auto
  have "t' = map (\<lambda>y. if cf_id y = i \<and> cf_status y = Pending
      then y\<lparr>cf_status := Confirmed, cf_confirmed_at := Some now, cf_confirmed_by := Some c, cf_wamid := m\<rparr>
      else y) t"
    using e unfolding confirm_def transition_def Let_def by (simp split: if_split_asm)
  then have "\<forall>y \<in> set t'. cf_id y = i \<longrightarrow> cf_status y \<noteq> Pending"
    by (simp only: set_map ball_simps split: if_split) simp
  with present show ?thesis unfolding spent_def by blast
qed

lemma spent_wins_zero: "spent i t \<Longrightarrow> confirm_wins st i xs (now, t) = 0"
proof (induction xs arbitrary: now t)
  case (Cons x xs)
  obtain won now' t' where s: "exec_op st x (now, t) = (won, now', t')" by (metis prod_cases3)
  then show ?case
    using Cons.IH [OF spent_stays [OF Cons.prems s]] spent_no_confirm [OF Cons.prems _ s] by auto
qed simp

text \<open>
  A confirmation is consumed at most once: in any sequence of operations of any number of
  processes, from any table, at most one \<open>Confirm\<close> of an identifier wins its compare-and-set.\<close>

theorem confirm_wins_at_most_once: "confirm_wins st i xs s \<le> 1"
proof (induction xs arbitrary: s)
  case (Cons x xs)
  obtain now t where s: "s = (now, t)" by (cases s)
  obtain won now' t' where e: "exec_op st x (now, t) = (won, now', t')" by (metis prod_cases3)
  show ?case
  proof (cases "confirms i x \<and> won")
    case True
    then have "spent i t'" using confirm_spends [of i x st now t now' t'] e by simp
    then show ?thesis using True e s spent_wins_zero by simp
  next
    case False
    then show ?thesis using Cons.IH e s by auto
  qed
qed simp


section \<open>Looking a token up\<close>

lemma lookup_Some:
  assumes "lookup_conf st sessions token org contact session now ok t = (Some c, res)"
  shows "c \<in> set t \<and> cf_token_hash c = hash_token (st_crypto st) token \<and> cf_org c = org
    \<and> cf_contact c = contact \<and> cf_session c = session \<and> sessions session org contact"
  using assms
  by (auto simp: lookup_conf_def find_Some_iff split: if_splits option.splits sum.splits)

lemma lookup_OK:
  assumes "lookup_conf st sessions token org contact session now ok t = (Some c, LookupOK)"
  shows "cf_status c = Pending \<and> now < cf_expires_at c
    \<and> action_digest st (cf_org c) (cf_contact c) (cf_tool c) (cf_args c) = Inr (cf_digest c)"
  using assms
  by (auto simp: lookup_conf_def split: if_splits option.splits sum.splits)

lemma lookup_None_or:
  "fst (lookup_conf st sessions token org contact session now ok t) = None
   \<longleftrightarrow> snd (lookup_conf st sessions token org contact session now ok t) = LookupNotFound"
  by (auto simp: lookup_conf_def split: option.splits sum.splits)

lemma map_hash_supersede [simp]:
  "map cf_token_hash (supersede org contact tool now t) = map cf_token_hash t"
  by (auto simp: supersede_def)

lemma find_last:
  "\<forall>x \<in> set xs. \<not> P x \<Longrightarrow> P y \<Longrightarrow> List.find P (xs @ [y]) = Some y"
  by (induction xs) auto

text \<open>
  The token \<open>Propose\<close> returns is the key of exactly the row it wrote: until it expires, the contact it
  was made for, in the session it was made in, looks it up and gets that row, pending and with its
  digest intact, whatever other rows the table holds.\<close>

theorem propose_then_lookup:
  assumes "propose st i random new_id now ok t = (Inr (token, c), t')"
    and "sc_contact (in_scope i) = Some contact" "sc_session (in_scope i) = Some session"
    and "token \<noteq> []" "contact \<noteq> 0" "session \<noteq> 0"
    and "sessions session (sc_org (in_scope i)) contact" "later < now + pr_ttl (st_params st)"
  shows "lookup_conf st sessions token (sc_org (in_scope i)) contact session later True t' = (Some c, LookupOK)"
proof -
  obtain digest where org: "sc_org (in_scope i) \<noteq> 0"
    and digest: "action_digest st (sc_org (in_scope i)) contact (in_tool i) (in_args i) = Inr digest"
    and c: "c = new_conf st i new_id contact session token digest now"
    and tx: "propose_tx st i contact c now ok t = Inr t'"
    using assms(1-3)
    by (auto simp: propose_def Let_def split: if_splits option.splits sum.splits)
  let ?s = "supersede (sc_org (in_scope i)) contact (in_tool i) now t"
  have "insert_row c ?s = Some t'"
    using tx by (auto simp: propose_tx_def Let_def split: if_splits option.splits)
  then have t': "t' = ?s @ [c]" and new: "cf_token_hash c \<notin> set (map cf_token_hash ?s)"
    unfolding insert_row_Some by blast+
  have other: "cf_token_hash x \<noteq> hash_token (st_crypto st) token" if "x \<in> set ?s" for x
  proof
    assume "cf_token_hash x = hash_token (st_crypto st) token"
    then have "cf_token_hash c = cf_token_hash x" by (simp add: c new_conf_def)
    then show False using new that by (metis image_eqI set_map)
  qed
  have "List.find (\<lambda>x. cf_token_hash x = hash_token (st_crypto st) token
      \<and> cf_org x = sc_org (in_scope i) \<and> cf_contact x = contact) t' = Some c"
    unfolding t' by (rule find_last) (use other in \<open>auto simp: c new_conf_def\<close>)
  then show ?thesis
    using org digest assms by (simp add: lookup_conf_def c new_conf_def)
qed

text \<open>A button is good only for who got it: when \<open>Lookup\<close> accepts a token, the row is pending and not
  expired, belongs to the organization, contact and session that tapped it, and its tool and
  arguments are the ones its digest was made for. With an HMAC and a canonical form without
  collisions, a row whose tool or arguments were changed after the proposal is never accepted.\<close>

theorem lookup_accepts_only_the_owner:
  assumes "lookup_conf st sessions token org contact session now ok t = (Some c, LookupOK)"
    and "\<And>a b. hex_encode (cr_mac (st_crypto st) key a) = hex_encode (cr_mac (st_crypto st) key b) \<Longrightarrow> a = b"
    and "\<And>o1 c1 t1 a1 o2 c2 t2 a2 d. cr_canon (st_crypto st) o1 c1 t1 a1 = Some d \<Longrightarrow>
           cr_canon (st_crypto st) o2 c2 t2 a2 = Some d \<Longrightarrow> t1 = t2 \<and> a1 = a2"
    and "key = cr_mac (st_crypto st) (st_secret st) confirm_purpose"
    and "action_digest st org contact tool0 args0 = Inr (cf_digest c)"
  shows "cf_status c = Pending \<and> now < cf_expires_at c \<and> cf_org c = org \<and> cf_contact c = contact
    \<and> cf_session c = session \<and> cf_tool c = tool0 \<and> cf_args c = args0"
proof -
  note found = lookup_Some [OF assms(1)] and ok = lookup_OK [OF assms(1)]
  obtain d where d: "cr_canon (st_crypto st) org contact (cf_tool c) (cf_args c) = Some d"
    "cf_digest c = hex_encode (cr_mac (st_crypto st) key d)"
    using ok found assms(4) by (auto simp: action_digest_def split: if_splits option.splits)
  obtain d0 where d0: "cr_canon (st_crypto st) org contact tool0 args0 = Some d0"
    "cf_digest c = hex_encode (cr_mac (st_crypto st) key d0)"
    using assms(4,5) by (auto simp: action_digest_def split: if_splits option.splits)
  have "d = d0" using assms(2) d(2) d0(2) by simp
  then have "cf_tool c = tool0 \<and> cf_args c = args0" using assms(3) d(1) d0(1) by blast
  then show ?thesis using found ok by simp
qed

section \<open>Witnesses\<close>

text \<open>A store with one proposal per minute-long window; the mac and the hash copy their input.\<close>

definition sample_store :: store where
  "sample_store = \<lparr>st_secret = ''s'',
     st_params = \<lparr>pr_ttl = 10, pr_limit = 1, pr_window = 60, pr_cooldown = 5\<rparr>,
     st_crypto = \<lparr>cr_sha = (\<lambda>x. x), cr_mac = (\<lambda>k m. m),
       cr_canon = (\<lambda>o1 c1 tool args. if args = [] then Some tool else None)\<rparr>\<rparr>"

definition sample_input :: propose_input where
  "sample_input = \<lparr>in_scope = \<lparr>sc_org = 1, sc_contact = Some 2, sc_session = Some 3, sc_account = []\<rparr>,
     in_run = 4, in_tool = ''t'', in_args = [], in_call = None\<rparr>"

definition sample_conf :: conf where
  "sample_conf = new_conf sample_store sample_input 7 2 3 ''k'' (hex_encode ''t'') 0"

lemma sample_propose:
  "propose sample_store sample_input (Some ''k'') 7 0 (\<lambda>_. True) [] = (Inr (''k'', sample_conf), [sample_conf])"
  by (simp add: propose_def propose_tx_def sample_store_def sample_input_def sample_conf_def
      action_digest_def insert_row_def supersede_def Let_def)

lemma sample_reach: "store_reach sample_store (0, [sample_conf])"
  by (rule store_reach.op [OF store_reach.start [of _ 0],
        where x = "OpPropose sample_input (Some ''k'') 7 (\<lambda>_. True)" and won = True])
     (simp add: sample_propose)


theorem reachable_rows_well_formed_witness: "row_wf sample_conf"
  by (rule reachable_rows_well_formed [OF sample_reach]) simp

theorem propose_then_lookup_witness:
  "lookup_conf sample_store (\<lambda>s o1 c. s = 3) ''k'' 1 2 3 9 True [sample_conf] = (Some sample_conf, LookupOK)"
  using propose_then_lookup [OF sample_propose, where contact = 2 and session = 3 and later = 9
      and sessions = "\<lambda>s o1 c. s = 3"]
  by (simp add: sample_input_def sample_store_def)

lemma hex_digit_inj: "a < 16 \<Longrightarrow> b < 16 \<Longrightarrow> hex_digit a = hex_digit b \<Longrightarrow> a = b"
proof -
  assume a: "a < 16" and b: "b < 16" and "hex_digit a = hex_digit b"
  then have "byte (hex_digit a) = byte (hex_digit b)" by simp
  then show "a = b" using a b by (auto simp: hex_digit_def byte_char_of split: if_splits)
qed

lemma hex_encode_inj: "hex_encode a = hex_encode b \<Longrightarrow> a = b"
proof (induction a arbitrary: b)
  case Nil
  then show ?case by (cases b) (simp_all add: hex_encode_def)
next
  case (Cons x a)
  then obtain y b' where b: "b = y # b'" by (cases b) (simp_all add: hex_encode_def)
  then have dig: "hex_digit (byte x div 16) = hex_digit (byte y div 16)"
    "hex_digit (byte x mod 16) = hex_digit (byte y mod 16)" and rest: "hex_encode a = hex_encode b'"
    using Cons.prems by (simp_all add: hex_encode_def)
  have lt: "byte z div 16 < (16 :: nat)" for z :: char
    using mod_less_divisor [of 256 "byte z :: nat"] by (simp add: less_mult_imp_div_less)
  have "byte x div 16 = (byte y div 16 :: nat)" "byte x mod 16 = (byte y mod 16 :: nat)"
    using hex_digit_inj [OF lt lt dig(1)] hex_digit_inj [OF _ _ dig(2)] by simp_all
  then have "(byte x :: nat) = byte y" by (metis div_mult_mod_eq)
  then show ?case using Cons.IH [OF rest] b by (simp only: of_char_eq_iff)
qed

theorem lookup_accepts_only_the_owner_witness:
  "cf_tool sample_conf = ''t'' \<and> cf_args sample_conf = [] \<and> cf_contact sample_conf = 2"
proof -
  have l: "lookup_conf sample_store (\<lambda>s o1 c. s = 3) ''k'' 1 2 3 9 True [sample_conf] = (Some sample_conf, LookupOK)"
    by (simp add: lookup_conf_def sample_conf_def new_conf_def sample_input_def sample_store_def
        action_digest_def)
  have d: "action_digest sample_store 1 2 ''t'' [] = Inr (cf_digest sample_conf)"
    by (simp add: action_digest_def sample_store_def sample_conf_def new_conf_def)
  have "cf_status sample_conf = Pending \<and> 9 < cf_expires_at sample_conf \<and> cf_org sample_conf = 1
    \<and> cf_contact sample_conf = 2 \<and> cf_session sample_conf = 3 \<and> cf_tool sample_conf = ''t'' \<and> cf_args sample_conf = []"
    by (rule lookup_accepts_only_the_owner [OF l _ _ refl d])
       (auto simp: sample_store_def dest!: hex_encode_inj split: if_splits)
  then show ?thesis by blast
qed

end
