(* ===== verification/Tool_Resolver.thy ===== *)
theory Tool_Resolver
  imports Tool_Confirmations
begin

text \<open>
  The governed resolver of one run (\<open>internal/aitools/resolver.go\<close>) and the audit of tool calls
  (\<open>audit.go\<close>). \<open>'x\<close> is the world outside the resolver: the database with the audit rows and the
  confirmations, and whatever the tools touch. The auditor and the confirmation store are
  interfaces the resolver calls; the database implementations are at the end.
\<close>

section \<open>Attempts, outcomes and the auditor interface\<close>

record attempt =
  at_run :: uuid
  at_step :: nat
  at_call :: tool_call
  at_risk :: risk
  at_actor :: actor
  at_scope :: scope

datatype call_status = CallRequested | CallDenied | CallExecuted | CallFailed

record outcome =
  oc_status :: call_status
  oc_bytes :: nat
  oc_truncated :: bool
  oc_result_error :: bool
  oc_kind :: string
  oc_duration :: time

text \<open>\<open>Requested\<close> gives the identifier of the row, or fails; \<open>Denied\<close> and \<open>Finish\<close> say whether they worked.\<close>

record 'x auditor =
  au_requested :: "attempt \<Rightarrow> 'x \<Rightarrow> uuid option \<times> 'x"
  au_denied :: "attempt \<Rightarrow> string \<Rightarrow> 'x \<Rightarrow> bool \<times> 'x"
  au_finish :: "uuid \<Rightarrow> outcome \<Rightarrow> 'x \<Rightarrow> bool \<times> 'x"

text \<open>What the resolver uses of the confirmation store: \<open>Propose\<close> and \<open>Params.TTL\<close>.\<close>

record 'x proposer =
  px_propose :: "propose_input \<Rightarrow> 'x \<Rightarrow> (store_error + string \<times> conf) \<times> 'x"
  px_ttl :: time

section \<open>The configuration and the state of a run\<close>

record 'x gov =
  gc_catalog :: "'x catalog"
  gc_global :: bool
  gc_enabled :: "string \<Rightarrow> bool"
  gc_auditor :: "'x auditor"
  gc_actor :: actor
  gc_scope :: scope
  gc_write_enabled :: bool
  gc_confirmation_available :: bool
  gc_confirmations :: "'x proposer option"
  gc_run_id :: uuid
  gc_max_result_bytes :: int
  gc_now :: "'x \<Rightarrow> time"

record pending_confirmation =
  pe_token :: string
  pe_conf :: conf
  pe_spec :: "confirm_spec option"
  pe_tool :: string
  pe_ttl :: time

record 'x gworld =
  gw_ext :: 'x
  gw_step :: nat
  gw_pending :: "pending_confirmation option"

text \<open>
  \<open>NewResolver\<close>: \<open>enabled\<close> is the snapshot of the caller (None for a nil map), \<open>src\<close> the source
  (None for nil) with what it answers (None when it fails); \<open>fresh\<close> is \<open>uuid.New\<close>.
\<close>

definition new_resolver ::
  "'x gov \<Rightarrow> (string \<Rightarrow> bool) option \<Rightarrow> (string \<Rightarrow> bool) option option \<Rightarrow> 'x catalog option \<Rightarrow>
   'x catalog \<Rightarrow> uuid \<Rightarrow> 'x gov" where
  "new_resolver cfg enabled src catalog default_catalog fresh =
     cfg\<lparr>gc_enabled :=
           (case enabled of
              Some m \<Rightarrow> m
            | None \<Rightarrow> (case src of
                Some (Some m) \<Rightarrow> if gc_global cfg then m else (\<lambda>_. False)
              | _ \<Rightarrow> (\<lambda>_. False))),
         gc_run_id := (if gc_run_id cfg = 0 then fresh else gc_run_id cfg),
         gc_max_result_bytes :=
           (if gc_max_result_bytes cfg \<le> 0 then max_result_bytes default_limits else gc_max_result_bytes cfg),
         gc_catalog := (case catalog of Some c \<Rightarrow> c | None \<Rightarrow> default_catalog)\<rparr>"

section \<open>Verdict, Definitions, attempts\<close>

definition spec_of :: "'x gov \<Rightarrow> string \<Rightarrow> 'x tool_spec" where
  "spec_of cfg n = (case catalog_get (Some (gc_catalog cfg)) n of Some s \<Rightarrow> s | None \<Rightarrow> zero_spec)"

definition gov_verdict :: "'x gov \<Rightarrow> string \<Rightarrow> 'x tool_spec \<times> verdict" where
  "gov_verdict cfg n =
     (let spec = spec_of cfg n; known = (catalog_get (Some (gc_catalog cfg)) n \<noteq> None) in
      (spec, authorize \<lparr>pi_global_enabled = gc_global cfg, pi_known = known,
         pi_org_enabled = gc_enabled cfg n, pi_risk = ts_risk spec,
         pi_feature_allowed = known \<and> feature_allowed spec (ac_ref (gc_actor cfg)),
         pi_write_enabled = gc_write_enabled cfg,
         pi_confirmation_available = gc_confirmation_available cfg\<rparr>))"

definition gov_definitions :: "'x gov \<Rightarrow> tool_definition list" where
  "gov_definitions cfg =
     concat (map (\<lambda>n. case gov_verdict cfg n of (s, v) \<Rightarrow> if v_allowed v then [definition_of s] else [])
              (catalog_names (Some (gc_catalog cfg))))"

text \<open>\<open>attempt\<close> takes the next step number and never keeps the transport state.\<close>

definition next_attempt ::
  "'x gov \<Rightarrow> tool_call \<Rightarrow> risk \<Rightarrow> 'x gworld \<Rightarrow> attempt \<times> 'x gworld" where
  "next_attempt cfg c rk w =
     (\<lparr>at_run = gc_run_id cfg, at_step = gw_step w + 1, at_call = c\<lparr>tc_opaque := None\<rparr>,
       at_risk = rk, at_actor = gc_actor cfg, at_scope = gc_scope cfg\<rparr>,
      w\<lparr>gw_step := gw_step w + 1\<rparr>)"

definition on_ext :: "('x \<Rightarrow> 'a \<times> 'x) \<Rightarrow> 'x gworld \<Rightarrow> 'a \<times> 'x gworld" where
  "on_ext f w = (case f (gw_ext w) of (a, x) \<Rightarrow> (a, w\<lparr>gw_ext := x\<rparr>))"

definition record_denied :: "'x gov \<Rightarrow> attempt \<Rightarrow> string \<Rightarrow> 'x gworld \<Rightarrow> 'x gworld" where
  "record_denied cfg a reason w = snd (on_ext (au_denied (gc_auditor cfg) a reason) w)"

definition generic_unavailable :: string where
  "generic_unavailable = ''error: this tool is not available''"

definition generic_failed :: string where
  "generic_failed = ''error: tool failed''"

section \<open>A denied tool\<close>

definition denied_execute :: "'x gov \<Rightarrow> string \<Rightarrow> tool_call \<Rightarrow> 'x gworld \<Rightarrow> tool_result \<times> 'x gworld" where
  "denied_execute cfg reason c w =
     (case next_attempt cfg c (ts_risk (spec_of cfg (tc_name c))) w of
        (a, w1) \<Rightarrow> (fail_result generic_unavailable, record_denied cfg a reason w1))"

definition denied_tool :: "'x gov \<Rightarrow> string \<Rightarrow> 'x gworld tool" where
  "denied_tool cfg reason =
     \<lparr>t_execute = (\<lambda>c w. case denied_execute cfg reason c w of (r, w') \<Rightarrow> (ExecOk r, w')),
      t_reject = Some (\<lambda>c w. case denied_execute cfg reason c w of (r, w') \<Rightarrow> (RejectOk r, w'))\<rparr>"

section \<open>A governed tool\<close>

definition empty_tool_result :: tool_result where
  "empty_tool_result = \<lparr>tr_call_id = [], tr_name = [], tr_content = [], tr_is_error = False\<rparr>"

definition text_result :: "string \<Rightarrow> tool_result" where
  "text_result s = \<lparr>tr_call_id = [], tr_name = [], tr_content = s, tr_is_error = False\<rparr>"

text \<open>\<open>NotAvailableResult\<close>: \<open>json.Marshal\<close> of the map, its keys sorted.\<close>

definition not_available_result :: "string \<Rightarrow> tool_result" where
  "not_available_result reason = text_result
     (''{\"reason\":'' @ json_encode reason @ '',\"status\":\"not_available\",\"transfer_performed\":false}'')"

text \<open>\<open>run\<close>: builds and runs the real tool; a panic (also of a nil factory) is recovered.\<close>

definition gov_run ::
  "'x gov \<Rightarrow> 'x tool_spec \<Rightarrow> tool_call \<Rightarrow> 'x \<Rightarrow> (tool_result \<times> string) \<times> 'x" where
  "gov_run cfg spec c x =
     (case ts_factory spec of
        None \<Rightarrow> ((empty_tool_result, ''panic''), x)
      | Some f \<Rightarrow>
          (case f (gc_scope cfg) x of
             BuildPanic \<Rightarrow> ((empty_tool_result, ''panic''), x)
           | BuiltNil \<Rightarrow> ((empty_tool_result, ''tool_error''), x)
           | Built ex \<Rightarrow>
               (case ex c x of
                  (ToolOk res, x1) \<Rightarrow> ((res, []), x1)
                | (ToolTimeout, x1) \<Rightarrow> ((empty_tool_result, ''timeout''), x1)
                | (ToolFailed, x1) \<Rightarrow> ((empty_tool_result, ''tool_error''), x1)
                | (ToolPanic, x1) \<Rightarrow> ((empty_tool_result, ''panic''), x1))))"

text \<open>\<open>propose\<close>: builds the write tool, asks it for a proposal and records it in the store.\<close>

definition store_proposal ::
  "'x gov \<Rightarrow> 'x tool_spec \<Rightarrow> 'x proposer \<Rightarrow> uuid \<Rightarrow> jsonb \<Rightarrow> tool_result \<Rightarrow> 'x gworld \<Rightarrow>
   (tool_result \<times> string) \<times> 'x gworld" where
  "store_proposal cfg spec px call_id args res w =
     (case on_ext (px_propose px \<lparr>in_scope = gc_scope cfg, in_run = gc_run_id cfg, in_tool = ts_name spec,
                                 in_args = args, in_call = Some call_id\<rparr>) w of
        (Inl ErrTooManyProposals, w1) \<Rightarrow> ((not_available_result ''too_many_requests'', []), w1)
      | (Inl ErrRecentlyDeclined, w1) \<Rightarrow> ((not_available_result ''recently_declined'', []), w1)
      | (Inl _, w1) \<Rightarrow> ((empty_tool_result, ''tool_error''), w1)
      | (Inr (token, conf), w1) \<Rightarrow>
          ((res, []), w1\<lparr>gw_pending := Some \<lparr>pe_token = token, pe_conf = conf, pe_spec = ts_confirm spec,
                            pe_tool = ts_name spec, pe_ttl = px_ttl px\<rparr>\<rparr>))"

definition gov_propose ::
  "'x gov \<Rightarrow> 'x tool_spec \<Rightarrow> 'x proposer \<Rightarrow> uuid \<Rightarrow> tool_call \<Rightarrow> 'x gworld \<Rightarrow>
   (tool_result \<times> string) \<times> 'x gworld" where
  "gov_propose cfg spec px call_id c w =
     (case ts_write_factory spec of
        None \<Rightarrow> ((empty_tool_result, ''panic''), w)
      | Some f \<Rightarrow>
          (case f (gc_scope cfg) (gw_ext w) of
             WBuildPanic \<Rightarrow> ((empty_tool_result, ''panic''), w)
           | WBuiltNil \<Rightarrow> ((empty_tool_result, ''tool_error''), w)
           | WBuilt t \<Rightarrow>
               (case on_ext (wt_propose t c) w of
                  (ProposeTimeout, w1) \<Rightarrow> ((empty_tool_result, ''timeout''), w1)
                | (ProposeFailed, w1) \<Rightarrow> ((empty_tool_result, ''tool_error''), w1)
                | (ProposePanic, w1) \<Rightarrow> ((empty_tool_result, ''panic''), w1)
                | (Proposed None res, w1) \<Rightarrow> ((res, []), w1)
                | (Proposed (Some args) res, w1) \<Rightarrow> store_proposal cfg spec px call_id args res w1)))"

text \<open>\<open>finish\<close>: two tries to write the outcome, never a second run of the tool.\<close>

definition gov_finish :: "'x gov \<Rightarrow> uuid \<Rightarrow> outcome \<Rightarrow> 'x gworld \<Rightarrow> 'x gworld" where
  "gov_finish cfg i out w =
     (case on_ext (au_finish (gc_auditor cfg) i out) w of
        (True, w1) \<Rightarrow> w1
      | (False, w1) \<Rightarrow> snd (on_ext (au_finish (gc_auditor cfg) i out) w1))"

definition outcome_of :: "'x gov \<Rightarrow> tool_result \<Rightarrow> string \<Rightarrow> time \<Rightarrow> outcome" where
  "outcome_of cfg res kind took =
     \<lparr>oc_status = (if kind \<noteq> [] then CallFailed else CallExecuted),
      oc_bytes = length (tr_content res),
      oc_truncated = (int (length (tr_content res)) > gc_max_result_bytes cfg),
      oc_result_error = tr_is_error res, oc_kind = kind, oc_duration = took\<rparr>"

text \<open>
  The order both paths share: the request is on record before \<open>act\<close> (building and running, or
  building and proposing), and the outcome is written after it.
\<close>

definition audited ::
  "'x gov \<Rightarrow> (uuid \<Rightarrow> 'x gworld \<Rightarrow> (tool_result \<times> string) \<times> 'x gworld) \<Rightarrow> attempt \<Rightarrow> 'x gworld \<Rightarrow>
   tool_result \<times> 'x gworld" where
  "audited cfg act a w =
     (case on_ext (au_requested (gc_auditor cfg) a) w of
        (None, w1) \<Rightarrow> (fail_result generic_unavailable, record_denied cfg a DenyAuditUnavailable w1)
      | (Some i, w1) \<Rightarrow>
          (case act i w1 of
             ((res, kind), w2) \<Rightarrow>
               (if kind \<noteq> [] then fail_result generic_failed else res,
                gov_finish cfg i (outcome_of cfg res kind (gc_now cfg (gw_ext w2) - gc_now cfg (gw_ext w1))) w2)))"

definition execute_write ::
  "'x gov \<Rightarrow> 'x tool_spec \<Rightarrow> tool_call \<Rightarrow> 'x gworld \<Rightarrow> tool_result \<times> 'x gworld" where
  "execute_write cfg spec c w =
     (case gc_confirmations cfg of
        None \<Rightarrow> denied_execute cfg DenyConfirmationUnavailable c w
      | Some px \<Rightarrow>
          (case next_attempt cfg c RiskWrite w of
             (a, w1) \<Rightarrow> audited cfg (\<lambda>i. gov_propose cfg spec px i c) a w1))"

definition governed_execute ::
  "'x gov \<Rightarrow> 'x tool_spec \<Rightarrow> tool_call \<Rightarrow> 'x gworld \<Rightarrow> tool_result \<times> 'x gworld" where
  "governed_execute cfg spec c w =
     (let v = snd (gov_verdict cfg (ts_name spec)) in
      if \<not> v_allowed v then denied_execute cfg (v_reason v) c w
      else if ts_risk spec = RiskWrite then execute_write cfg spec c w
      else (case next_attempt cfg c (ts_risk spec) w of
              (a, w1) \<Rightarrow> audited cfg (\<lambda>i. on_ext (gov_run cfg spec c)) a w1))"

definition governed_reject ::
  "'x gov \<Rightarrow> 'x tool_spec \<Rightarrow> tool_call \<Rightarrow> 'x gworld \<Rightarrow> tool_result \<times> 'x gworld" where
  "governed_reject cfg spec c w =
     (case next_attempt cfg c (ts_risk spec) w of
        (a, w1) \<Rightarrow> (fail_result generic_unavailable, record_denied cfg a DenyArgsTooLarge w1))"

definition governed_tool :: "'x gov \<Rightarrow> 'x tool_spec \<Rightarrow> 'x gworld tool" where
  "governed_tool cfg spec =
     \<lparr>t_execute = (\<lambda>c w. case governed_execute cfg spec c w of (r, w') \<Rightarrow> (ExecOk r, w')),
      t_reject = Some (\<lambda>c w. case governed_reject cfg spec c w of (r, w') \<Rightarrow> (RejectOk r, w'))\<rparr>"

section \<open>The resolver\<close>

definition gov_resolve :: "'x gov \<Rightarrow> string \<Rightarrow> 'x gworld tool option" where
  "gov_resolve cfg n =
     (case gov_verdict cfg n of
        (spec, v) \<Rightarrow> if \<not> v_allowed v then Some (denied_tool cfg (v_reason v)) else Some (governed_tool cfg spec))"

definition gov_resolver :: "'x gov \<Rightarrow> 'x gworld tool_resolver" where
  "gov_resolver cfg = \<lparr>r_definitions = gov_definitions cfg, r_resolve = gov_resolve cfg\<rparr>"

fun record_aborted :: "'x gov \<Rightarrow> tool_call list \<Rightarrow> 'x gworld \<Rightarrow> 'x gworld" where
  "record_aborted cfg [] w = w"
| "record_aborted cfg (c # cs) w =
     (case next_attempt cfg (c\<lparr>tc_opaque := None\<rparr>) (ts_risk (spec_of cfg (tc_name c))) w of
        (a, w1) \<Rightarrow> record_aborted cfg cs (record_denied cfg a DenyLoopLimit w1))"

end
