(* ===== verification/Tool_Audit.thy ===== *)
theory Tool_Audit
  imports Tool_Resolver
begin

text \<open>
  What a governed run leaves in the audit. The resolver is run on a world that also records, in
  order, what it asks of the auditor and of the tools; every call leaves one segment of a fixed
  grammar, and the whole run is a sequence of segments numbered 1, 2, 3, ... The second part is the
  database auditor of \<open>internal/aitools/audit.go\<close>, and the third the run of
  \<open>internal/handlers/ai_runtime.go\<close>.
\<close>

section \<open>The monitored resolver\<close>

datatype gov_event =
    GRequested attempt "uuid option"
  | GDenied attempt string
  | GFinished uuid outcome
  | GRan string tool_call
  | GAsked string tool_call
  | GExecuted string jsonb
  | GStored propose_input

type_synonym 'x logged = "'x \<times> gov_event list"

definition logged :: "('a \<Rightarrow> gov_event) \<Rightarrow> ('x \<Rightarrow> 'a \<times> 'x) \<Rightarrow> 'x logged \<Rightarrow> 'a \<times> 'x logged" where
  "logged ev f s = (let (a, x) = f (fst s) in (a, x, snd s @ [ev a]))"

lemma logged_pair [simp]: "logged ev f (x, l) = (fst (f x), snd (f x), l @ [ev (fst (f x))])"
  by (simp add: logged_def split: prod.splits)

definition watch_auditor :: "'x auditor \<Rightarrow> 'x logged auditor" where
  "watch_auditor A =
     \<lparr>au_requested = (\<lambda>a. logged (GRequested a) (au_requested A a)),
      au_denied = (\<lambda>a r. logged (\<lambda>_. GDenied a r) (au_denied A a r)),
      au_finish = (\<lambda>i out. logged (\<lambda>_. GFinished i out) (au_finish A i out))\<rparr>"

definition watch_proposer :: "'x proposer \<Rightarrow> 'x logged proposer" where
  "watch_proposer P = \<lparr>px_propose = (\<lambda>i. logged (\<lambda>_. GStored i) (px_propose P i)), px_ttl = px_ttl P\<rparr>"

fun watch_built :: "string \<Rightarrow> 'x built \<Rightarrow> 'x logged built" where
  "watch_built n (Built f) = Built (\<lambda>c. logged (\<lambda>_. GRan n c) (f c))"
| "watch_built n BuiltNil = BuiltNil"
| "watch_built n BuildPanic = BuildPanic"

fun watch_write_built :: "string \<Rightarrow> 'x write_built \<Rightarrow> 'x logged write_built" where
  "watch_write_built n (WBuilt t) =
     WBuilt \<lparr>wt_propose = (\<lambda>c. logged (\<lambda>_. GAsked n c) (wt_propose t c)),
             wt_execute = (\<lambda>args now. logged (\<lambda>_. GExecuted n args) (wt_execute t args now))\<rparr>"
| "watch_write_built n WBuiltNil = WBuiltNil"
| "watch_write_built n WBuildPanic = WBuildPanic"

lemma watch_built_Built:
  "watch_built n b = Built f \<longleftrightarrow> (\<exists>g. b = Built g \<and> f = (\<lambda>c. logged (\<lambda>_. GRan n c) (g c)))"
  by (cases b) auto

lemma watch_write_built_WBuilt:
  "watch_write_built n b = WBuilt t \<longleftrightarrow>
     (\<exists>u. b = WBuilt u \<and> t = \<lparr>wt_propose = (\<lambda>c. logged (\<lambda>_. GAsked n c) (wt_propose u c)),
        wt_execute = (\<lambda>args now. logged (\<lambda>_. GExecuted n args) (wt_execute u args now))\<rparr>)"
  by (cases b) auto

definition watch_spec :: "'x tool_spec \<Rightarrow> 'x logged tool_spec" where
  "watch_spec s =
     \<lparr>ts_name = ts_name s, ts_description = ts_description s, ts_parameters = ts_parameters s,
      ts_risk = ts_risk s, ts_features = ts_features s,
      ts_factory = map_option (\<lambda>f sc w. watch_built (ts_name s) (f sc (fst w))) (ts_factory s),
      ts_write_factory = map_option (\<lambda>f sc w. watch_write_built (ts_name s) (f sc (fst w))) (ts_write_factory s),
      ts_confirm = ts_confirm s\<rparr>"

definition watch_catalog :: "'x catalog \<Rightarrow> 'x logged catalog" where
  "watch_catalog c = \<lparr>cat_specs = map watch_spec (cat_specs c), cat_names = cat_names c\<rparr>"

definition watch_gov :: "'x gov \<Rightarrow> 'x logged gov" where
  "watch_gov cfg =
     \<lparr>gc_catalog = watch_catalog (gc_catalog cfg), gc_global = gc_global cfg, gc_enabled = gc_enabled cfg,
      gc_auditor = watch_auditor (gc_auditor cfg), gc_actor = gc_actor cfg, gc_scope = gc_scope cfg,
      gc_write_enabled = gc_write_enabled cfg,
      gc_confirmation_available = gc_confirmation_available cfg,
      gc_confirmations = map_option watch_proposer (gc_confirmations cfg),
      gc_run_id = gc_run_id cfg, gc_max_result_bytes = gc_max_result_bytes cfg,
      gc_now = (\<lambda>w. gc_now cfg (fst w))\<rparr>"

lemma watch_spec_simps [simp]:
  "ts_name (watch_spec s) = ts_name s" "ts_risk (watch_spec s) = ts_risk s"
  "ts_features (watch_spec s) = ts_features s" "ts_confirm (watch_spec s) = ts_confirm s"
  "ts_factory (watch_spec s) = map_option (\<lambda>f sc w. watch_built (ts_name s) (f sc (fst w))) (ts_factory s)"
  "ts_write_factory (watch_spec s) =
     map_option (\<lambda>f sc w. watch_write_built (ts_name s) (f sc (fst w))) (ts_write_factory s)"
  "definition_of (watch_spec s) = definition_of s"
  "feature_allowed (watch_spec s) f = feature_allowed s f"
  by (simp_all add: watch_spec_def definition_of_def feature_allowed_def)

lemma watch_gov_simps [simp]:
  "gc_catalog (watch_gov cfg) = watch_catalog (gc_catalog cfg)" "gc_global (watch_gov cfg) = gc_global cfg"
  "gc_enabled (watch_gov cfg) = gc_enabled cfg" "gc_auditor (watch_gov cfg) = watch_auditor (gc_auditor cfg)"
  "gc_actor (watch_gov cfg) = gc_actor cfg" "gc_scope (watch_gov cfg) = gc_scope cfg"
  "gc_write_enabled (watch_gov cfg) = gc_write_enabled cfg"
  "gc_confirmation_available (watch_gov cfg) = gc_confirmation_available cfg"
  "gc_confirmations (watch_gov cfg) = map_option watch_proposer (gc_confirmations cfg)"
  "gc_run_id (watch_gov cfg) = gc_run_id cfg"
  "gc_max_result_bytes (watch_gov cfg) = gc_max_result_bytes cfg"
  "gc_now (watch_gov cfg) (x, l) = gc_now cfg x"
  by (simp_all add: watch_gov_def)

lemma find_map: "List.find P (map f xs) = map_option f (List.find (\<lambda>x. P (f x)) xs)"
  by (induction xs) auto

lemma catalog_get_watch [simp]:
  "catalog_get (Some (watch_catalog c)) n = map_option watch_spec (catalog_get (Some c) n)"
  by (simp add: catalog_get_def watch_catalog_def find_map)

lemma gov_verdict_watch [simp]: "snd (gov_verdict (watch_gov cfg) n) = snd (gov_verdict cfg n)"
  by (cases "catalog_get (Some (gc_catalog cfg)) n")
     (simp_all add: gov_verdict_def spec_of_def Let_def zero_spec_def)

text \<open>What the verdict allows is in the catalog, under the name asked for.\<close>

lemma gov_verdict_allowed:
  assumes "gov_verdict cfg n = (spec, v)" "v_allowed v"
  shows "catalog_get (Some (gc_catalog cfg)) n = Some spec" "ts_name spec = n"
    "ts_risk spec = RiskRead \<or> ts_risk spec = RiskWrite"
proof -
  show got: "catalog_get (Some (gc_catalog cfg)) n = Some spec"
    using assms by (auto simp: gov_verdict_def Let_def authorize_allowed_iff spec_of_def)
  show "ts_name spec = n"
    using got by (auto simp: catalog_get_def find_Some_iff)
  show "ts_risk spec = RiskRead \<or> ts_risk spec = RiskWrite"
    using assms by (auto simp: gov_verdict_def Let_def authorize_allowed_iff)
qed

section \<open>The grammar of one call\<close>

text \<open>
  \<open>gov_segment cfg k c seg\<close>: what the call \<open>c\<close>, the \<open>k\<close>-th of the run, may leave. Either a denial;
  or a request that could not be recorded, and its denial; or a recorded request, then the tool (run,
  or asked for a proposal that may be stored), then the outcome, written once or tried twice.
\<close>

definition attempt_at :: "'x gov \<Rightarrow> nat \<Rightarrow> tool_call \<Rightarrow> risk \<Rightarrow> attempt" where
  "attempt_at cfg k c rk =
     \<lparr>at_run = gc_run_id cfg, at_step = k, at_call = c\<lparr>tc_opaque := None\<rparr>, at_risk = rk,
      at_actor = gc_actor cfg, at_scope = gc_scope cfg\<rparr>"

inductive acted :: "'x gov \<Rightarrow> tool_call \<Rightarrow> risk \<Rightarrow> gov_event list \<Rightarrow> bool" for cfg c where
  nothing: "acted cfg c rk []"
| ran: "v_allowed (snd (gov_verdict cfg n)) \<Longrightarrow> acted cfg c RiskRead [GRan n c]"
| asked: "v_allowed (snd (gov_verdict cfg n)) \<Longrightarrow> acted cfg c RiskWrite [GAsked n c]"
| stored: "v_allowed (snd (gov_verdict cfg n)) \<Longrightarrow> in_scope i = gc_scope cfg \<Longrightarrow> in_tool i = n \<Longrightarrow>
    acted cfg c RiskWrite [GAsked n c, GStored i]"

inductive gov_segment :: "'x gov \<Rightarrow> nat \<Rightarrow> tool_call \<Rightarrow> gov_event list \<Rightarrow> bool" for cfg k c where
  denied: "reason \<noteq> [] \<Longrightarrow> gov_segment cfg k c [GDenied (attempt_at cfg k c rk) reason]"
| unrecorded: "gov_segment cfg k c
    [GRequested (attempt_at cfg k c rk) None, GDenied (attempt_at cfg k c rk) DenyAuditUnavailable]"
| carried_out: "acted cfg c rk mid \<Longrightarrow> fin = [GFinished i out] \<or> fin = [GFinished i out, GFinished i out] \<Longrightarrow>
    gov_segment cfg k c (GRequested (attempt_at cfg k c rk) (Some i) # mid @ fin)"

text \<open>The trace of a run that has handled the calls \<open>cs\<close>: the segment of each, in order.\<close>

inductive gov_trace :: "'x gov \<Rightarrow> tool_call list \<Rightarrow> gov_event list \<Rightarrow> bool" for cfg where
  start: "gov_trace cfg [] []"
| call: "gov_trace cfg cs tr \<Longrightarrow> gov_segment cfg (Suc (length cs)) c seg \<Longrightarrow> gov_trace cfg (cs @ [c]) (tr @ seg)"

section \<open>Every call leaves one segment\<close>

text \<open>\<open>leaves cfg c w w'\<close>: between the two worlds the run handled the call \<open>c\<close> and nothing else.\<close>

definition leaves :: "'x gov \<Rightarrow> tool_call \<Rightarrow> 'x logged gworld \<Rightarrow> 'x logged gworld \<Rightarrow> bool" where
  "leaves cfg c w w' \<longleftrightarrow> gw_step w' = Suc (gw_step w)
     \<and> (\<exists>seg. snd (gw_ext w') = snd (gw_ext w) @ seg \<and> gov_segment cfg (Suc (gw_step w)) c seg)"

lemma leavesI:
  "gw_step w' = Suc (gw_step w) \<Longrightarrow> snd (gw_ext w') = snd (gw_ext w) @ seg \<Longrightarrow>
   gov_segment cfg (Suc (gw_step w)) c seg \<Longrightarrow> leaves cfg c w w'"
  by (auto simp: leaves_def)

lemma on_ext_step [simp]: "gw_step (snd (on_ext f w)) = gw_step w"
  by (simp add: on_ext_def split: prod.splits)

lemma on_ext_pending [simp]: "gw_pending (snd (on_ext f w)) = gw_pending w"
  by (simp add: on_ext_def split: prod.splits)

lemma on_ext_log [simp]:
  "snd (gw_ext (snd (on_ext (logged ev f) w))) = snd (gw_ext w) @ [ev (fst (on_ext (logged ev f) w))]"
  by (simp add: on_ext_def logged_def Let_def split: prod.splits)

lemma next_attempt_watch:
  "next_attempt (watch_gov cfg) c rk w =
     (attempt_at cfg (Suc (gw_step w)) c rk, w\<lparr>gw_step := Suc (gw_step w)\<rparr>)"
  by (simp add: next_attempt_def attempt_at_def)

lemma record_denied_watch:
  "gw_step (record_denied (watch_gov cfg) a r w) = gw_step w"
  "snd (gw_ext (record_denied (watch_gov cfg) a r w)) = snd (gw_ext w) @ [GDenied a r]"
  by (simp_all add: record_denied_def watch_auditor_def)

lemma denied_leaves:
  assumes "reason \<noteq> []"
  shows "leaves cfg c w (snd (denied_execute (watch_gov cfg) reason c w))"
  by (rule leavesI) (auto simp: denied_execute_def next_attempt_watch record_denied_watch
      intro: gov_segment.denied [OF assms])

lemma rejected_leaves: "leaves cfg c w (snd (governed_reject (watch_gov cfg) spec c w))"
  by (rule leavesI) (auto simp: governed_reject_def next_attempt_watch record_denied_watch
      intro: gov_segment.denied)

text \<open>The shared order of \<open>audited\<close>, for any action that only runs or asks the tool.\<close>

lemma finish_watch:
  "gw_step (gov_finish (watch_gov cfg) i out w) = gw_step w"
  "snd (gw_ext (gov_finish (watch_gov cfg) i out w)) = snd (gw_ext w) @ [GFinished i out]
   \<or> snd (gw_ext (gov_finish (watch_gov cfg) i out w)) = snd (gw_ext w) @ [GFinished i out, GFinished i out]"
proof -
  obtain b w1 where f: "on_ext (logged (\<lambda>_. GFinished i out) (au_finish (gc_auditor cfg) i out)) w = (b, w1)"
    by (metis surj_pair)
  have w1: "gw_step w1 = gw_step w" "snd (gw_ext w1) = snd (gw_ext w) @ [GFinished i out]"
    using on_ext_step on_ext_log f by (metis snd_conv)+
  show "gw_step (gov_finish (watch_gov cfg) i out w) = gw_step w"
    using f w1 by (cases b) (simp_all add: gov_finish_def watch_auditor_def)
  show "snd (gw_ext (gov_finish (watch_gov cfg) i out w)) = snd (gw_ext w) @ [GFinished i out]
   \<or> snd (gw_ext (gov_finish (watch_gov cfg) i out w)) = snd (gw_ext w) @ [GFinished i out, GFinished i out]"
    using f w1 by (cases b) (simp_all add: gov_finish_def watch_auditor_def)
qed

lemma audited_leaves:
  assumes act: "\<And>i v. gw_step (snd (act i v)) = gw_step v
      \<and> (\<exists>mid. snd (gw_ext (snd (act i v))) = snd (gw_ext v) @ mid \<and> acted cfg c rk mid)"
    and w1: "gw_step w1 = Suc (gw_step w)" "gw_ext w1 = gw_ext w"
  shows "leaves cfg c w (snd (audited (watch_gov cfg) act (attempt_at cfg (Suc (gw_step w)) c rk) w1))"
proof -
  let ?a = "attempt_at cfg (Suc (gw_step w)) c rk"
  obtain q w2 where req: "on_ext (logged (GRequested ?a) (au_requested (gc_auditor cfg) ?a)) w1 = (q, w2)"
    by (metis surj_pair)
  have w2: "gw_step w2 = Suc (gw_step w)" "snd (gw_ext w2) = snd (gw_ext w) @ [GRequested ?a q]"
    using on_ext_step on_ext_log req w1 by (metis fst_conv snd_conv)+
  show ?thesis
  proof (cases q)
    case None
    then show ?thesis
      using req w2 by (intro leavesI [OF _ _ gov_segment.unrecorded])
        (simp_all add: audited_def watch_auditor_def record_denied_watch [unfolded watch_auditor_def])
  next
    case (Some i)
    obtain res kind w3 where a: "act i w2 = ((res, kind), w3)" by (metis surj_pair)
    obtain mid where mid: "snd (gw_ext w3) = snd (gw_ext w2) @ mid" "acted cfg c rk mid"
      and w3: "gw_step w3 = Suc (gw_step w)"
      using act [of i w2] a w2 by auto
    define out where "out = outcome_of (watch_gov cfg) res kind
        (gc_now (watch_gov cfg) (gw_ext w3) - gc_now (watch_gov cfg) (gw_ext w2))"
    obtain fin where fin: "fin = [GFinished i out] \<or> fin = [GFinished i out, GFinished i out]"
      "snd (gw_ext (gov_finish (watch_gov cfg) i out w3)) = snd (gw_ext w3) @ fin"
      using finish_watch(2) [of cfg i out w3] by auto
    have "audited (watch_gov cfg) act ?a w1 =
        (if kind \<noteq> [] then fail_result generic_failed else res, gov_finish (watch_gov cfg) i out w3)"
      using req a Some by (simp add: audited_def watch_auditor_def out_def)
    then show ?thesis
      using w2 w3 mid fin Some finish_watch(1) [of cfg i out w3]
      by (intro leavesI [OF _ _ gov_segment.carried_out [OF mid(2) fin(1)]]) simp_all
  qed
qed

lemma run_acts:
  assumes "v_allowed (snd (gov_verdict cfg (ts_name spec)))"
  shows "gw_step (snd (on_ext (gov_run (watch_gov cfg) (watch_spec spec) c) v)) = gw_step v
    \<and> (\<exists>mid. snd (gw_ext (snd (on_ext (gov_run (watch_gov cfg) (watch_spec spec) c) v))) = snd (gw_ext v) @ mid
         \<and> acted cfg c RiskRead mid)"
proof -
  obtain x l where v: "gw_ext v = (x, l)" by (metis surj_pair)
  have "\<exists>mid. snd (snd (gov_run (watch_gov cfg) (watch_spec spec) c (x, l))) = l @ mid \<and> acted cfg c RiskRead mid"
    by (auto simp: gov_run_def watch_built_Built intro: acted.nothing acted.ran [OF assms]
        split: option.splits built.splits prod.splits tool_out.splits)
  then show ?thesis by (auto simp add: on_ext_def v split: prod.splits)
qed

lemma store_proposal_acts:
  assumes "in_scope j = gc_scope cfg" "in_tool j = ts_name spec"
    and "j = \<lparr>in_scope = gc_scope cfg, in_run = gc_run_id cfg, in_tool = ts_name spec, in_args = args, in_call = Some i\<rparr>"
  shows "gw_step (snd (store_proposal (watch_gov cfg) (watch_spec spec) (watch_proposer px) i args res v)) = gw_step v
    \<and> snd (gw_ext (snd (store_proposal (watch_gov cfg) (watch_spec spec) (watch_proposer px) i args res v))) =
        snd (gw_ext v) @ [GStored j]"
proof -
  obtain q v1 where q: "on_ext (logged (\<lambda>_. GStored j) (px_propose px j)) v = (q, v1)" by (metis surj_pair)
  have v1: "gw_step v1 = gw_step v" "snd (gw_ext v1) = snd (gw_ext v) @ [GStored j]"
    using on_ext_step on_ext_log q by (metis snd_conv)+
  show ?thesis
    using q v1 by (auto simp: store_proposal_def watch_proposer_def assms(3)
        split: sum.splits store_error.splits prod.splits)
qed

lemma propose_acts:
  assumes allowed: "v_allowed (snd (gov_verdict cfg (ts_name spec)))"
  shows "gw_step (snd (gov_propose (watch_gov cfg) (watch_spec spec) (watch_proposer px) i c v)) = gw_step v
    \<and> (\<exists>mid. snd (gw_ext (snd (gov_propose (watch_gov cfg) (watch_spec spec) (watch_proposer px) i c v))) =
          snd (gw_ext v) @ mid \<and> acted cfg c RiskWrite mid)"
proof -
  note noth = acted.nothing [of cfg c RiskWrite]
  show ?thesis
  proof (cases "ts_write_factory spec")
    case None
    then show ?thesis by (auto simp: gov_propose_def intro: noth)
  next
    case (Some f)
    show ?thesis
    proof (cases "f (gc_scope cfg) (fst (gw_ext v))")
      case (WBuilt t)
      obtain q v1 where q: "on_ext (logged (\<lambda>_. GAsked (ts_name spec) c) (wt_propose t c)) v = (q, v1)"
        by (metis surj_pair)
      have v1: "gw_step v1 = gw_step v" "snd (gw_ext v1) = snd (gw_ext v) @ [GAsked (ts_name spec) c]"
        using on_ext_step on_ext_log q by (metis snd_conv)+
      have asked: "acted cfg c RiskWrite [GAsked (ts_name spec) c]"
        by (rule acted.asked [OF allowed])
      show ?thesis
      proof (cases "\<exists>args res. q = Proposed (Some args) res")
        case True
        then obtain args res where q': "q = Proposed (Some args) res" by blast
        show ?thesis
          using q q' v1 Some WBuilt store_proposal_acts [of _ cfg spec args i px res v1]
            acted.stored [OF allowed, of _ c]
          by (fastforce simp: gov_propose_def)
      next
        case False
        then show ?thesis
          using q v1 Some WBuilt asked
          by (auto simp: gov_propose_def split: propose_out.splits option.splits)
      qed
    qed (use Some in \<open>auto simp: gov_propose_def intro: noth\<close>)
  qed
qed

lemma execute_leaves:
  assumes "gov_verdict cfg n = (spec, v)" "v_allowed v"
  shows "leaves cfg c w (snd (governed_execute (watch_gov cfg) (watch_spec spec) c w))"
proof -
  have name: "ts_name spec = n" and rk: "ts_risk spec = RiskRead \<or> ts_risk spec = RiskWrite"
    using gov_verdict_allowed [OF assms] by blast+
  have allowed: "v_allowed (snd (gov_verdict cfg (ts_name spec)))" using assms name by simp
  show ?thesis
  proof (cases "ts_risk spec = RiskWrite")
    case False
    then have rk: "ts_risk spec = RiskRead" using rk by blast
    have "leaves cfg c w (snd (audited (watch_gov cfg) (\<lambda>i. on_ext (gov_run (watch_gov cfg) (watch_spec spec) c))
        (attempt_at cfg (Suc (gw_step w)) c RiskRead) (w\<lparr>gw_step := Suc (gw_step w)\<rparr>)))"
      by (rule audited_leaves) (use run_acts [OF allowed] in simp_all)
    then show ?thesis using allowed rk by (simp add: governed_execute_def next_attempt_watch)
  next
    case True
    show ?thesis
    proof (cases "gc_confirmations cfg")
      case None
      then show ?thesis
        using allowed True denied_leaves [of DenyConfirmationUnavailable cfg c w]
        by (simp add: governed_execute_def execute_write_def)
    next
      case (Some px)
      have "leaves cfg c w (snd (audited (watch_gov cfg)
          (\<lambda>i. gov_propose (watch_gov cfg) (watch_spec spec) (watch_proposer px) i c)
          (attempt_at cfg (Suc (gw_step w)) c RiskWrite) (w\<lparr>gw_step := Suc (gw_step w)\<rparr>)))"
        by (rule audited_leaves) (use propose_acts [OF allowed] in simp_all)
      then show ?thesis
        using allowed True Some by (simp add: governed_execute_def execute_write_def next_attempt_watch)
    qed
  qed
qed

lemma verdict_watch_eq:
  "gov_verdict (watch_gov cfg) n =
     (case catalog_get (Some (gc_catalog cfg)) n of None \<Rightarrow> zero_spec | Some s \<Rightarrow> watch_spec s,
      snd (gov_verdict cfg n))"
  using gov_verdict_watch [of cfg n]
  by (auto simp: gov_verdict_def spec_of_def Let_def split: option.splits)

text \<open>Whatever name a call has, handling it (running or refusing its arguments) leaves one segment.\<close>

lemma resolve_leaves:
  assumes "gov_resolve (watch_gov cfg) n = Some t"
  shows "leaves cfg c w (snd (t_execute t c w))"
    "t_reject t = Some rj \<Longrightarrow> leaves cfg c w (snd (rj c w))"
proof -
  obtain spec v where sv: "gov_verdict cfg n = (spec, v)" by (metis surj_pair)
  have both: "leaves cfg c w (snd (t_execute t c w)) \<and> (t_reject t = Some rj \<longrightarrow> leaves cfg c w (snd (rj c w)))"
  proof (cases "v_allowed v")
    case False
    then have "v_reason v \<noteq> []"
      using sv authorize_reason_iff by (auto simp: gov_verdict_def Let_def)
    then show ?thesis
      using assms False sv denied_leaves [of "v_reason v" cfg c w]
      by (auto simp: gov_resolve_def verdict_watch_eq denied_tool_def split: prod.splits)
  next
    case True
    have "t = governed_tool (watch_gov cfg) (watch_spec spec)"
      using assms True sv gov_verdict_allowed(1) [OF sv True]
      by (simp add: gov_resolve_def verdict_watch_eq)
    then show ?thesis
      using execute_leaves [OF sv True, of c w] rejected_leaves [of cfg c w "watch_spec spec"]
      by (auto simp: governed_tool_def split: prod.splits)
  qed
  show "leaves cfg c w (snd (t_execute t c w))" using both by blast
  show "t_reject t = Some rj \<Longrightarrow> leaves cfg c w (snd (rj c w))" using both by blast
qed

section \<open>The whole run\<close>

text \<open>
  The provider works on the outside world: it never sees the resolver's state, and the monitor does
  not record it.
\<close>

definition gov_env :: "'x loop_env \<Rightarrow> 'x gworld loop_env" where
  "gov_env E =
     \<lparr>le_name = le_name E, le_tool_calling = le_tool_calling E,
      le_complete = (\<lambda>rq. on_ext (le_complete E rq)),
      le_now = (\<lambda>w. le_now E (gw_ext w)), le_parent = (\<lambda>w. le_parent E (gw_ext w))\<rparr>"

definition quiet_env :: "'x loop_env \<Rightarrow> 'x logged loop_env" where
  "quiet_env E =
     \<lparr>le_name = le_name E, le_tool_calling = le_tool_calling E,
      le_complete = (\<lambda>rq (x, l). let (a, x') = le_complete E rq x in (a, x', l)),
      le_now = (\<lambda>w. le_now E (fst w)), le_parent = (\<lambda>w. le_parent E (fst w))\<rparr>"

definition start_world :: "'x \<Rightarrow> 'x gworld" where
  "start_world x = \<lparr>gw_ext = x, gw_step = 0, gw_pending = None\<rparr>"

text \<open>The calls the loop has handed to a tool, to be run or to have their arguments refused, as its own
  monitor saw them.\<close>

fun handled_call :: "loop_event \<Rightarrow> tool_call option" where
  "handled_call (LExecute c) = Some c"
| "handled_call (LReject c) = Some c"
| "handled_call (LComplete rq) = None"

definition handled :: "loop_event list \<Rightarrow> tool_call list" where
  "handled lg = List.map_filter handled_call lg"

lemma handled_append [simp]: "handled (a @ b) = handled a @ handled b"
  by (induction a) (simp_all add: handled_def List.map_filter_simps split: option.splits)

lemma handled_one [simp]:
  "handled [] = []" "handled [LExecute c] = [c]" "handled [LReject c] = [c]" "handled [LComplete rq] = []"
  by (simp_all add: handled_def List.map_filter_simps)

definition recorded :: "'x gov \<Rightarrow> 'x logged gworld \<times> loop_event list \<Rightarrow> bool" where
  "recorded cfg wl \<longleftrightarrow> gov_trace cfg (handled (snd wl)) (snd (gw_ext (fst wl)))
     \<and> gw_step (fst wl) = length (handled (snd wl))"

lemma leaves_recorded:
  "leaves cfg c w w' \<Longrightarrow> recorded cfg (w, lg) \<Longrightarrow> handled lg' = handled lg @ [c] \<Longrightarrow> recorded cfg (w', lg')"
  by (auto simp: leaves_def recorded_def intro: gov_trace.call)

lemma quiet_provider:
  "recorded cfg (w, lg) \<Longrightarrow> recorded cfg (snd (le_complete (gov_env (quiet_env E)) rq w), lg @ [LComplete rq])"
  by (auto simp: recorded_def gov_env_def quiet_env_def on_ext_def Let_def split: prod.splits)

text \<open>The governed resolver keeps the contract of the loop, with the audit grammar as the invariant.\<close>

interpretation governed: loop_contract "watch_env (gov_env (quiet_env E))"
    "Some (watch_resolver (gov_resolver (watch_gov cfg)))" lm "\<lambda>_. True" "recorded cfg"
proof unfold_locales
  fix w :: "'a logged gworld \<times> loop_event list" and rq assume "recorded cfg w"
  then show "recorded cfg (snd (le_complete (watch_env (gov_env (quiet_env E))) rq w))"
    using quiet_provider by (cases w) simp
next
  fix w :: "'a logged gworld \<times> loop_event list" and rs and c :: tool_call and t
  assume a: "recorded cfg w" "Some (watch_resolver (gov_resolver (watch_gov cfg))) = Some rs" "r_resolve rs (tc_name c) = Some t"
  obtain v lg where w: "w = (v, lg)" by (cases w)
  obtain t0 where t: "gov_resolve (watch_gov cfg) (tc_name c) = Some t0" "t = watch_tool t0"
    using a(2,3) by (auto simp: gov_resolver_def)
  show "recorded cfg (snd (t_execute t c w))"
    using leaves_recorded [OF resolve_leaves(1) [OF t(1), of c v] a(1) [unfolded w]] by (simp add: w t(2))
next
  fix w :: "'a logged gworld \<times> loop_event list" and rs and c :: tool_call and t rj
  assume a: "recorded cfg w" "Some (watch_resolver (gov_resolver (watch_gov cfg))) = Some rs" "r_resolve rs (tc_name c) = Some t"
    "t_reject t = Some rj"
  obtain v lg where w: "w = (v, lg)" by (cases w)
  obtain t0 where t: "gov_resolve (watch_gov cfg) (tc_name c) = Some t0" "t = watch_tool t0"
    using a(2,3) by (auto simp: gov_resolver_def)
  obtain rj0 where r: "t_reject t0 = Some rj0" "rj = (\<lambda>c (w, lg). (fst (rj0 c w), snd (rj0 c w), lg @ [LReject c]))"
    using a(4) t(2) by auto
  show "recorded cfg (snd (rj c w))"
    using leaves_recorded [OF resolve_leaves(2) [OF t(1) r(1), of c v] a(1) [unfolded w]] by (simp add: w r(2))
qed simp

text \<open>What a grammatical trace says about the order: no tool acts before its request is on record.\<close>

fun acts :: "gov_event \<Rightarrow> (string \<times> tool_call) option" where
  "acts (GRan n c) = Some (n, c)"
| "acts (GAsked n c) = Some (n, c)"
| "acts _ = None"

fun opens :: "'x gov \<Rightarrow> tool_call \<Rightarrow> gov_event \<Rightarrow> bool" where
  "opens cfg c (GRequested a (Some i)) =
     (at_call a = c\<lparr>tc_opaque := None\<rparr> \<and> at_scope a = gc_scope cfg \<and> at_actor a = gc_actor cfg
      \<and> at_run a = gc_run_id cfg)"
| "opens cfg c _ = False"

definition requested_first :: "'x gov \<Rightarrow> gov_event list \<Rightarrow> bool" where
  "requested_first cfg tr \<longleftrightarrow>
     (\<forall>i < length tr. case acts (tr ! i) of
        None \<Rightarrow> True
      | Some (n, c) \<Rightarrow> 0 < i \<and> opens cfg c (tr ! (i - 1)) \<and> v_allowed (snd (gov_verdict cfg n)))"

fun step_of :: "gov_event \<Rightarrow> nat option" where
  "step_of (GRequested a q) = Some (at_step a)"
| "step_of (GDenied a r) = Some (at_step a)"
| "step_of _ = None"

definition steps :: "gov_event list \<Rightarrow> nat list" where
  "steps tr = List.map_filter step_of tr"

text \<open>
  The attempts on record, with their numbers. A denial right after a request that could not be recorded
  is the denial of that very attempt; every other one is an attempt of its own.
\<close>

fun attempts_of :: "gov_event list \<Rightarrow> attempt list" where
  "attempts_of (GRequested a None # GDenied b r # tr) =
     (if b = a then a # attempts_of tr else a # b # attempts_of tr)"
| "attempts_of (GRequested a q # tr) = a # attempts_of tr"
| "attempts_of (GDenied a r # tr) = a # attempts_of tr"
| "attempts_of (_ # tr) = attempts_of tr"
| "attempts_of [] = []"

lemma steps_Cons: "steps (e # tr) = (case step_of e of None \<Rightarrow> steps tr | Some k \<Rightarrow> k # steps tr)"
  by (simp add: steps_def List.map_filter_simps split: option.splits)

lemma steps_append [simp]: "steps (a @ b) = steps a @ steps b"
  by (induction a) (simp_all add: steps_def List.map_filter_simps split: option.splits)

lemma requested_first_append:
  assumes "requested_first cfg tr" "requested_first cfg seg"
  shows "requested_first cfg (tr @ seg)"
  unfolding requested_first_def
proof (intro allI impI)
  fix i assume i: "i < length (tr @ seg)"
  show "case acts ((tr @ seg) ! i) of None \<Rightarrow> True
      | Some (n, c) \<Rightarrow> 0 < i \<and> opens cfg c ((tr @ seg) ! (i - 1)) \<and> v_allowed (snd (gov_verdict cfg n))"
  proof (cases "i < length tr")
    case True
    then show ?thesis using assms(1) by (auto simp: requested_first_def nth_append split: option.splits)
  next
    case False
    then have j: "i - length tr < length seg" using i by simp
    show ?thesis
      using assms(2) [unfolded requested_first_def, rule_format, OF j] False
      by (auto simp: nth_append split: option.splits)
  qed
qed

lemma segment_requested_first:
  assumes "gov_segment cfg k c seg"
  shows "requested_first cfg seg \<and> set (steps seg) = {k} \<and> sorted (steps seg)"
  using assms
proof cases
  case (carried_out rk mid fin i out)
  have "requested_first cfg seg"
    using carried_out(2)
    by cases (use carried_out(1,3) in \<open>auto simp: requested_first_def attempt_at_def less_Suc_eq\<close>)
  moreover have "steps mid = []" "steps fin = []"
    using carried_out(2,3) by (auto elim!: acted.cases simp: steps_def List.map_filter_simps)
  then have "steps seg = [k]"
    by (simp add: carried_out(1) steps_Cons steps_append attempt_at_def)
  ultimately show ?thesis by simp
qed (auto simp: requested_first_def steps_def List.map_filter_simps attempt_at_def less_Suc_eq)

lemma trace_requested_first:
  "gov_trace cfg cs tr \<Longrightarrow> requested_first cfg tr \<and> sorted (steps tr) \<and> set (steps tr) = {1..length cs}"
proof (induction rule: gov_trace.induct)
  case start
  then show ?case by (simp add: requested_first_def steps_def List.map_filter_simps)
next
  case (call cs tr c seg)
  note seg = segment_requested_first [OF call.hyps(2)]
  have "\<forall>x \<in> set (steps tr). \<forall>y \<in> set (steps seg). x \<le> y" using call.IH seg by auto
  then show ?case
    using call.IH seg requested_first_append by (auto simp: sorted_append)
qed

text \<open>One segment is one attempt, of its call and under its number.\<close>

definition waiting_denial :: "gov_event list \<Rightarrow> bool" where
  "waiting_denial tr \<longleftrightarrow> tr \<noteq> [] \<and> (\<exists>a. last tr = GRequested a None)"

lemma attempts_of_append:
  "\<not> waiting_denial a \<Longrightarrow> attempts_of (a @ b) = attempts_of a @ attempts_of b"
  by (induction a rule: attempts_of.induct) (auto simp: waiting_denial_def split: if_splits)

lemma segment_attempt:
  assumes "gov_segment cfg k c seg"
  shows "\<exists>rk. attempts_of seg = [attempt_at cfg k c rk]" "\<not> waiting_denial seg"
proof -
  have "(\<exists>rk. attempts_of seg = [attempt_at cfg k c rk]) \<and> \<not> waiting_denial seg"
    using assms
  proof cases
    case (carried_out rk mid fin i out)
    then show ?thesis by (auto simp: waiting_denial_def elim!: acted.cases)
  qed (auto simp: waiting_denial_def)
  then show "\<exists>rk. attempts_of seg = [attempt_at cfg k c rk]" "\<not> waiting_denial seg" by blast+
qed

lemma trace_attempts:
  "gov_trace cfg cs tr \<Longrightarrow> \<not> waiting_denial tr
     \<and> map at_step (attempts_of tr) = [1..<Suc (length cs)]
     \<and> map at_call (attempts_of tr) = map (\<lambda>c. c\<lparr>tc_opaque := None\<rparr>) cs"
proof (induction rule: gov_trace.induct)
  case start
  then show ?case by (simp add: waiting_denial_def)
next
  case (call cs tr c seg)
  obtain rk where rk: "attempts_of seg = [attempt_at cfg (Suc (length cs)) c rk]" "\<not> waiting_denial seg"
    using segment_attempt [OF call.hyps(2)] by blast
  then have "seg \<noteq> []" by auto
  then have "\<not> waiting_denial (tr @ seg)" using rk(2) by (simp add: waiting_denial_def)
  then show ?case using call.IH rk(1) by (simp add: attempts_of_append attempt_at_def)
qed


section \<open>What the model sees\<close>

lemma resolve_denied:
  assumes "\<not> v_allowed (snd (gov_verdict cfg n))"
  shows "gov_resolve cfg n = Some (denied_tool cfg (v_reason (snd (gov_verdict cfg n))))"
  using assms by (auto simp: gov_resolve_def split: prod.splits)

lemma resolve_allowed:
  assumes "v_allowed (snd (gov_verdict cfg n))"
  shows "gov_resolve cfg n = Some (governed_tool cfg (fst (gov_verdict cfg n)))"
  using assms by (auto simp: gov_resolve_def split: prod.splits)

text \<open>
  A denial reveals nothing: whatever the reason (unknown tool, not enabled, switched off, a write
  tool without confirmation), in whatever configuration and world, executing and refusing a denied
  tool answer with the same generic text, which is also what an available tool answers to arguments
  that are too large; and the only thing a denied call does is to record the attempt, with its
  reason.\<close>

theorem denials_look_alike:
  assumes "\<not> v_allowed (snd (gov_verdict cfg n))" "gov_resolve cfg n = Some t"
    and "gov_resolve cfg' n' = Some t'" "t_reject t' = Some rj'"
  shows "fst (t_execute t c w) = ExecOk (fail_result generic_unavailable)
    \<and> fst (rj' c' w') = RejectOk (fail_result generic_unavailable)
    \<and> (\<exists>a. gw_ext (snd (t_execute t c w)) =
          snd (au_denied (gc_auditor cfg) a (v_reason (snd (gov_verdict cfg n))) (gw_ext w))
        \<and> v_reason (snd (gov_verdict cfg n)) \<noteq> [] \<and> tc_opaque (at_call a) = None \<and> at_step a = Suc (gw_step w))"
proof -
  have t: "t = denied_tool cfg (v_reason (snd (gov_verdict cfg n)))"
    using resolve_denied [OF assms(1)] assms(2) by simp
  have "v_reason (snd (gov_verdict cfg n)) \<noteq> []"
    using assms(1) authorize_reason_iff by (auto simp: gov_verdict_def Let_def)
  moreover have "fst (rj' c' w') = RejectOk (fail_result generic_unavailable)"
    using assms(3,4) by (auto simp: gov_resolve_def denied_tool_def governed_tool_def denied_execute_def
        governed_reject_def next_attempt_def split: prod.splits if_splits)
  moreover let ?a = "fst (next_attempt cfg c (ts_risk (spec_of cfg (tc_name c))) w)"
  have "fst (t_execute t c w) = ExecOk (fail_result generic_unavailable)
    \<and> gw_ext (snd (t_execute t c w)) =
        snd (au_denied (gc_auditor cfg) ?a (v_reason (snd (gov_verdict cfg n))) (gw_ext w))
    \<and> tc_opaque (at_call ?a) = None \<and> at_step ?a = Suc (gw_step w)"
    by (simp add: t denied_tool_def denied_execute_def next_attempt_def record_denied_def on_ext_def
        case_prod_beta)
  ultimately show ?thesis by blast
qed

lemma gov_definitions_eq:
  assumes "catalog_wf (gc_catalog cfg)"
  shows "map td_name (gov_definitions cfg) =
    filter (\<lambda>n. v_allowed (snd (gov_verdict cfg n))) (cat_names (gc_catalog cfg))"
proof -
  have name: "td_name (definition_of (fst (gov_verdict cfg n))) = n"
    if "v_allowed (snd (gov_verdict cfg n))" for n
    using gov_verdict_allowed(2) [of cfg n "fst (gov_verdict cfg n)" "snd (gov_verdict cfg n)"] that
    by (simp add: definition_of_def)
  have "map td_name (concat (map (\<lambda>n. case gov_verdict cfg n of (s, v) \<Rightarrow> if v_allowed v then [definition_of s] else []) ns))
      = filter (\<lambda>n. v_allowed (snd (gov_verdict cfg n))) ns" for ns
    by (induction ns) (simp_all add: case_prod_beta name)
  then show ?thesis by (simp add: gov_definitions_def catalog_names_def)
qed

text \<open>What is offered to the model is exactly what it can run: with a catalog that \<open>NewCatalog\<close> accepted,
  a name is in \<open>Definitions\<close> if and only if \<open>Resolve\<close> gives it a governed tool and not a denied one,
  the offered names are sorted and never repeated, and with the global switch off nothing is offered.\<close>

theorem offered_iff_governed:
  assumes "new_catalog schema_type specs = Inr (gc_catalog cfg)"
  shows "(n \<in> td_name ` set (gov_definitions cfg) \<longleftrightarrow>
      v_allowed (snd (gov_verdict cfg n)) \<and> gov_resolve cfg n = Some (governed_tool cfg (fst (gov_verdict cfg n))))
    \<and> sorted (map td_name (gov_definitions cfg)) \<and> distinct (map td_name (gov_definitions cfg))
    \<and> (\<not> gc_global cfg \<longrightarrow> gov_definitions cfg = [])"
proof -
  note wf = new_catalog_wf [OF assms]
  have names: "distinct (cat_names (gc_catalog cfg))" "set (cat_names (gc_catalog cfg)) = ts_name ` set specs"
    using catalog_wf_names [OF wf(1)] wf(2) by simp_all
  have known: "n \<in> set (cat_names (gc_catalog cfg))" if "v_allowed (snd (gov_verdict cfg n))" for n
    using gov_verdict_allowed(1) [of cfg n "fst (gov_verdict cfg n)" "snd (gov_verdict cfg n)"] that
      catalog_get_Some [of "gc_catalog cfg" n] names wf(2) by fastforce
  have off: "\<not> v_allowed (snd (gov_verdict cfg n))" if "\<not> gc_global cfg" for n
    using that by (simp add: gov_verdict_def Let_def authorize_allowed_iff)
  have map_eq: "map td_name (gov_definitions cfg) =
      filter (\<lambda>n. v_allowed (snd (gov_verdict cfg n))) (cat_names (gc_catalog cfg))"
    by (rule gov_definitions_eq [OF wf(1)])
  have "n \<in> td_name ` set (gov_definitions cfg) \<longleftrightarrow> v_allowed (snd (gov_verdict cfg n))"
    using known map_eq by (metis (mono_tags, lifting) list.set_map mem_Collect_eq set_filter)
  moreover have "gov_definitions cfg = []" if "\<not> gc_global cfg"
    using off [OF that] map_eq by simp
  ultimately show ?thesis
    using wf(3) names(1) map_eq resolve_allowed by (auto intro: sorted_wrt_filter)
qed

section \<open>Witnesses\<close>

definition sample_tool_spec :: "nat tool_spec" where
  "sample_tool_spec = sample_spec\<lparr>ts_factory := Some (\<lambda>_ _. Built (\<lambda>c n. (ToolOk (text_result ''ok''), n + 1)))\<rparr>"

definition sample_auditor :: "nat auditor" where
  "sample_auditor = \<lparr>au_requested = (\<lambda>a n. (Some 9, n)), au_denied = (\<lambda>a r n. (True, n)),
     au_finish = (\<lambda>i out n. (True, n))\<rparr>"

definition sample_gov :: "nat gov" where
  "sample_gov = \<lparr>gc_catalog = \<lparr>cat_specs = [sample_tool_spec], cat_names = [''my_tool'']\<rparr>, gc_global = True,
     gc_enabled = (\<lambda>n. n = ''my_tool''), gc_auditor = sample_auditor,
     gc_actor = \<lparr>ac_kind = ActorAI, ac_ref = ''chatbot_reply''\<rparr>,
     gc_scope = \<lparr>sc_org = 1, sc_contact = None, sc_session = None, sc_account = []\<rparr>,
     gc_write_enabled = False, gc_confirmation_available = False, gc_confirmations = None,
     gc_run_id = 3, gc_max_result_bytes = 100, gc_now = int\<rparr>"

lemmas sample_gov_defs = sample_gov_def sample_tool_spec_def sample_spec_def gov_verdict_def spec_of_def
  catalog_get_def authorize_def deny_def feature_allowed_def

theorem denials_look_alike_witness:
  "fst (t_execute (denied_tool sample_gov DenyUnknownTool) sample_call (start_world 0)) =
     ExecOk (fail_result generic_unavailable)"
proof -
  have d: "\<not> v_allowed (snd (gov_verdict sample_gov ''no''))"
    and r: "v_reason (snd (gov_verdict sample_gov ''no'')) = DenyUnknownTool"
    by (simp_all add: sample_gov_defs)
  have a: "v_allowed (snd (gov_verdict sample_gov ''my_tool''))" by (simp add: sample_gov_defs)
  show ?thesis
    using denials_look_alike [OF d resolve_denied [OF d] resolve_allowed [OF a],
        of "\<lambda>c w. case governed_reject sample_gov (fst (gov_verdict sample_gov ''my_tool'')) c w of (r, w') \<Rightarrow> (RejectOk r, w')"]
      r by (simp add: governed_tool_def)
qed

theorem offered_iff_governed_witness:
  "map td_name (gov_definitions sample_gov) = [''my_tool'']
   \<and> gov_resolve sample_gov ''my_tool'' = Some (governed_tool sample_gov sample_tool_spec)"
proof -
  have c: "new_catalog (\<lambda>_. Some ''object'') [sample_tool_spec] = Inr (gc_catalog sample_gov)"
    by (simp add: new_catalog_def check_spec_def definition_valid_def definition_of_def sample_gov_defs
        tool_name_ok_def tool_name_char_def)
  have "map td_name (gov_definitions sample_gov) = [''my_tool'']"
    "fst (gov_verdict sample_gov ''my_tool'') = sample_tool_spec"
    by (simp_all add: gov_definitions_def catalog_names_def definition_of_def sample_gov_defs)
  then show ?thesis using offered_iff_governed [OF c, of "''my_tool''"] by force
qed

end
