(* ===== verification/Tool_Runtime.thy ===== *)
theory Tool_Runtime
  imports Tool_Audit
begin

text \<open>
  The governed run as the application makes it: the database auditor (\<open>internal/aitools/audit.go\<close>,
  \<open>args.go\<close>), the confirmation store behind the resolver, and \<open>completeWithTools\<close>,
  \<open>governedTools\<close> and \<open>recordAIUsage\<close> of \<open>internal/handlers/ai_runtime.go\<close>. Hashing and the JSON
  decoder are parameters; every database statement takes the next answer of an oracle.
\<close>

section \<open>The application's world\<close>

record audit_row =
  ar_id :: uuid
  ar_org :: uuid
  ar_run :: uuid
  ar_step :: nat
  ar_call_id :: string
  ar_tool :: string
  ar_risk :: risk
  ar_actor :: actor
  ar_contact :: "uuid option"
  ar_session :: "uuid option"
  ar_account :: string
  ar_args_bytes :: nat
  ar_requested_at :: time
  ar_hmac :: string
  ar_keys :: "string list"
  ar_status :: call_status
  ar_denial :: string
  ar_result_bytes :: nat
  ar_truncated :: bool
  ar_result_err :: bool
  ar_kind :: string
  ar_finished_at :: "time option"
  ar_duration_ms :: int

text \<open>\<open>ap_rest\<close> is what the tools and the provider work on; \<open>ap_tick\<close> counts the database operations.\<close>

record 'y app =
  ap_calls :: "audit_row list"
  ap_confs :: table
  ap_tick :: nat
  ap_rest :: 'y

text \<open>
  What the database and the system give at the \<open>k\<close>-th operation: whether it works, the time, a fresh
  identifier, random bytes, and for a transaction whether each of its statements works.
\<close>

record db_draws =
  or_ok :: "nat \<Rightarrow> bool"
  or_now :: "nat \<Rightarrow> time"
  or_uuid :: "nat \<Rightarrow> uuid"
  or_random :: "nat \<Rightarrow> string option"
  or_stmt :: "nat \<Rightarrow> nat \<Rightarrow> bool"

record audit_env =
  ae_secret :: string
  ae_crypto :: crypto
  ae_canonical :: "string \<Rightarrow> string option"
  ae_object_keys :: "string \<Rightarrow> string list option"

section \<open>Fingerprints of the arguments\<close>

definition args_purpose :: string where
  "args_purpose = ''whatc/ai_tools/args/v1''"

definition derived_key_for :: "crypto \<Rightarrow> string \<Rightarrow> string \<Rightarrow> string" where
  "derived_key_for cr secret purpose = cr_mac cr secret purpose"

definition args_hmac :: "audit_env \<Rightarrow> string \<Rightarrow> string" where
  "args_hmac A args =
     (if ae_secret A = [] then []
      else let canon = (case ae_canonical A args of None \<Rightarrow> args | Some c \<Rightarrow> c)
           in hex_encode (cr_mac (ae_crypto A) (derived_key_for (ae_crypto A) (ae_secret A) args_purpose) canon))"

definition max_arg_keys :: nat where "max_arg_keys = 20"
definition max_arg_key_len :: nat where "max_arg_key_len = 64"

text \<open>\<open>ae_object_keys\<close> gives the keys of the decoded object in the order the map is walked.\<close>

definition args_keys :: "audit_env \<Rightarrow> string \<Rightarrow> string list" where
  "args_keys A args =
     (case ae_object_keys A args of
        None \<Rightarrow> []
      | Some ks \<Rightarrow> take max_arg_keys (sort (map (take max_arg_key_len) ks)))"

section \<open>The database auditor\<close>

definition audit_row_of :: "audit_env \<Rightarrow> attempt \<Rightarrow> bool \<Rightarrow> time \<Rightarrow> uuid \<Rightarrow> audit_row" where
  "audit_row_of A a with_args now i =
     (let row = \<lparr>ar_id = i, ar_org = sc_org (at_scope a), ar_run = at_run a, ar_step = at_step a,
          ar_call_id = take 128 (tc_id (at_call a)), ar_tool = take 64 (tc_name (at_call a)),
          ar_risk = at_risk a, ar_actor = at_actor a, ar_contact = sc_contact (at_scope a),
          ar_session = sc_session (at_scope a), ar_account = sc_account (at_scope a),
          ar_args_bytes = length (tc_arguments (at_call a)), ar_requested_at = now,
          ar_hmac = [], ar_keys = [], ar_status = CallRequested, ar_denial = [], ar_result_bytes = 0,
          ar_truncated = False, ar_result_err = False, ar_kind = [], ar_finished_at = None,
          ar_duration_ms = 0\<rparr>
      in if \<not> with_args then row
         else row\<lparr>ar_hmac := args_hmac A (tc_arguments (at_call a)),
                  ar_keys := args_keys A (tc_arguments (at_call a))\<rparr>)"

definition db_requested :: "db_draws \<Rightarrow> audit_env \<Rightarrow> attempt \<Rightarrow> 'y app \<Rightarrow> uuid option \<times> 'y app" where
  "db_requested R A a w =
     (let k = ap_tick w; w1 = w\<lparr>ap_tick := k + 1\<rparr>;
          row = (audit_row_of A a True (or_now R k) (or_uuid R k))\<lparr>ar_status := CallRequested\<rparr>
      in if \<not> or_ok R k then (None, w1)
         else (Some (ar_id row), w1\<lparr>ap_calls := ap_calls w @ [row]\<rparr>))"

definition db_denied :: "db_draws \<Rightarrow> audit_env \<Rightarrow> attempt \<Rightarrow> string \<Rightarrow> 'y app \<Rightarrow> bool \<times> 'y app" where
  "db_denied R A a reason w =
     (let k = ap_tick w; w1 = w\<lparr>ap_tick := k + 1\<rparr>;
          row = (audit_row_of A a (reason \<noteq> DenyArgsTooLarge) (or_now R k) (or_uuid R k))
                  \<lparr>ar_status := CallDenied, ar_denial := reason, ar_finished_at := Some (or_now R k)\<rparr>
      in if \<not> or_ok R k then (False, w1) else (True, w1\<lparr>ap_calls := ap_calls w @ [row]\<rparr>))"

text \<open>\<open>Duration.Milliseconds\<close> of nanoseconds rounds toward zero.\<close>

definition milliseconds :: "time \<Rightarrow> int" where
  "milliseconds d = (if 0 \<le> d then d div 1000000 else - ((- d) div 1000000))"

definition finish_call :: "outcome \<Rightarrow> time \<Rightarrow> audit_row \<Rightarrow> audit_row" where
  "finish_call out now r =
     r\<lparr>ar_status := oc_status out, ar_result_bytes := oc_bytes out, ar_truncated := oc_truncated out,
       ar_result_err := oc_result_error out, ar_kind := oc_kind out, ar_finished_at := Some now,
       ar_duration_ms := milliseconds (oc_duration out)\<rparr>"

definition db_finish :: "db_draws \<Rightarrow> uuid \<Rightarrow> outcome \<Rightarrow> 'y app \<Rightarrow> bool \<times> 'y app" where
  "db_finish R i out w =
     (let k = ap_tick w; w1 = w\<lparr>ap_tick := k + 1\<rparr> in
      if \<not> or_ok R k then (False, w1)
      else (True, w1\<lparr>ap_calls := map (\<lambda>r. if ar_id r = i then finish_call out (or_now R k) r else r) (ap_calls w)\<rparr>))"

definition db_auditor :: "db_draws \<Rightarrow> audit_env \<Rightarrow> 'y app auditor" where
  "db_auditor R A = \<lparr>au_requested = db_requested R A, au_denied = db_denied R A, au_finish = db_finish R\<rparr>"

text \<open>\<open>ConfirmationStore.Propose\<close> on the application's table.\<close>

definition db_proposer :: "db_draws \<Rightarrow> store \<Rightarrow> 'y app proposer" where
  "db_proposer R st =
     \<lparr>px_propose = (\<lambda>i w. let k = ap_tick w in
        (case propose st i (or_random R k) (or_uuid R k) (or_now R k) (or_stmt R k) (ap_confs w) of
           (q, t) \<Rightarrow> (q, w\<lparr>ap_tick := k + 1, ap_confs := t\<rparr>))),
      px_ttl = pr_ttl (st_params st)\<rparr>"

text \<open>
  A tool reads and changes the rest of the world only: a read tool gets a read-only database and a
  write tool's \<open>Propose\<close> changes nothing of the audit or of the confirmations.
\<close>

definition on_rest :: "('y \<Rightarrow> 'a \<times> 'y) \<Rightarrow> 'y app \<Rightarrow> 'a \<times> 'y app" where
  "on_rest f w = (case f (ap_rest w) of (a, y) \<Rightarrow> (a, w\<lparr>ap_rest := y\<rparr>))"

fun app_built :: "'y built \<Rightarrow> 'y app built" where
  "app_built (Built f) = Built (\<lambda>c. on_rest (f c))"
| "app_built BuiltNil = BuiltNil"
| "app_built BuildPanic = BuildPanic"

fun app_write_built :: "'y write_built \<Rightarrow> 'y app write_built" where
  "app_write_built (WBuilt t) =
     WBuilt \<lparr>wt_propose = (\<lambda>c. on_rest (wt_propose t c)), wt_execute = (\<lambda>args now. on_rest (wt_execute t args now))\<rparr>"
| "app_write_built WBuiltNil = WBuiltNil"
| "app_write_built WBuildPanic = WBuildPanic"

definition app_spec :: "'y tool_spec \<Rightarrow> 'y app tool_spec" where
  "app_spec s =
     \<lparr>ts_name = ts_name s, ts_description = ts_description s, ts_parameters = ts_parameters s,
      ts_risk = ts_risk s, ts_features = ts_features s,
      ts_factory = map_option (\<lambda>f sc w. app_built (f sc (ap_rest w))) (ts_factory s),
      ts_write_factory = map_option (\<lambda>f sc w. app_write_built (f sc (ap_rest w))) (ts_write_factory s),
      ts_confirm = ts_confirm s\<rparr>"

definition app_catalog :: "'y catalog \<Rightarrow> 'y app catalog" where
  "app_catalog c = \<lparr>cat_specs = map app_spec (cat_specs c), cat_names = cat_names c\<rparr>"

definition app_env :: "'y loop_env \<Rightarrow> 'y app loop_env" where
  "app_env E =
     \<lparr>le_name = le_name E, le_tool_calling = le_tool_calling E,
      le_complete = (\<lambda>rq. on_rest (le_complete E rq)),
      le_now = (\<lambda>w. le_now E (ap_rest w)), le_parent = (\<lambda>w. le_parent E (ap_rest w))\<rparr>"

section \<open>Who may use tools: \<open>governedTools\<close>\<close>

record tools_run =
  tu_scope :: scope
  tu_actor :: actor

record ai_meta =
  am_feature :: string
  am_org :: uuid
  am_account :: string
  am_user :: "uuid option"
  am_contact :: "uuid option"
  am_session :: "uuid option"
  am_sources :: jsonb
  am_tools :: "tools_run option"

text \<open>The application's configuration: \<open>config.AIToolsConfig\<close> and the catalog wired in.\<close>

record 'y ai_app =
  aa_enabled :: bool
  aa_catalog :: "'y catalog"
  aa_providers :: "string list"
  aa_write_enabled :: bool
  aa_encryption_key :: string
  aa_params :: conf_params
  aa_audit :: audit_env

definition provider_validated :: "string list \<Rightarrow> string \<Rightarrow> bool" where
  "provider_validated providers provider =
     (let p = to_lower (trim_space provider) in
      p \<noteq> [] \<and> (\<exists>entry \<in> set providers. \<exists>x \<in> set (split_char (CHR 0x2C) entry). to_lower (trim_space x) = p))"

definition confirmations_ready :: "'y ai_app \<Rightarrow> bool" where
  "confirmations_ready a \<longleftrightarrow> aa_encryption_key a \<noteq> []"

definition app_gov :: "db_draws \<Rightarrow> 'y ai_app \<Rightarrow> tools_run \<Rightarrow> uuid \<Rightarrow> (string \<Rightarrow> bool) option \<Rightarrow> 'y app gov" where
  "app_gov R a tu fresh enabled =
     new_resolver
       \<lparr>gc_catalog = app_catalog (aa_catalog a), gc_global = True, gc_enabled = (\<lambda>_. False),
        gc_auditor = db_auditor R ((aa_audit a)\<lparr>ae_secret := aa_encryption_key a\<rparr>),
        gc_actor = tu_actor tu, gc_scope = tu_scope tu,
        gc_write_enabled = aa_write_enabled a, gc_confirmation_available = confirmations_ready a,
        gc_confirmations =
          (if confirmations_ready a
           then Some (db_proposer R \<lparr>st_secret = aa_encryption_key a, st_params = aa_params a,
                                    st_crypto = ae_crypto (aa_audit a)\<rparr>)
           else None),
        gc_run_id = 0, gc_max_result_bytes = 0, gc_now = (\<lambda>w. or_now R (ap_tick w))\<rparr>
       None (Some enabled) (Some (app_catalog (aa_catalog a))) (app_catalog (aa_catalog a)) fresh"

definition governed_tools ::
  "db_draws \<Rightarrow> 'y ai_app \<Rightarrow> ai_meta \<Rightarrow> 'y loop_env \<Rightarrow> uuid \<Rightarrow> (string \<Rightarrow> bool) option \<Rightarrow> 'y app gov option" where
  "governed_tools R a meta E fresh enabled =
     (case am_tools meta of
        None \<Rightarrow> None
      | Some tu \<Rightarrow>
          if \<not> aa_enabled a \<or> catalog_names (Some (aa_catalog a)) = [] \<or> \<not> le_tool_calling E then None
          else if \<not> provider_validated (aa_providers a) (le_name E) then None
          else (let cfg = app_gov R a tu fresh enabled in
                if gov_definitions cfg = [] then None else Some cfg))"

section \<open>The usage log of a call: \<open>recordAIUsage\<close>\<close>

text \<open>
  \<open>errors.As\<close> and the texts of an error are those of \<open>internal/ai/errors.go\<close>: the parameter
  \<open>describe\<close> gives kind, status and message of an error (with \<open>error\<close> as the kind of any other).
\<close>

record usage_entry =
  ue_org :: uuid
  ue_provider :: string
  ue_model :: string
  ue_feature :: string
  ue_user :: "uuid option"
  ue_contact :: "uuid option"
  ue_session :: "uuid option"
  ue_account :: string
  ue_success :: bool
  ue_latency_ms :: int
  ue_sources :: jsonb
  ue_tokens :: ai_usage
  ue_kind :: string
  ue_status :: int
  ue_message :: string

definition truncate_bytes :: "string \<Rightarrow> nat \<Rightarrow> string" where
  "truncate_bytes s n = (let t = trim_space s in if length t > n then take n t else t)"

definition usage_entry_of ::
  "('e \<Rightarrow> string \<times> int \<times> string) \<Rightarrow> ai_meta \<Rightarrow> string \<Rightarrow> string \<Rightarrow> ai_response option \<Rightarrow> time \<Rightarrow>
   'e option \<Rightarrow> usage_entry" where
  "usage_entry_of describe meta provider model resp took err =
     \<lparr>ue_org = am_org meta, ue_provider = provider,
      ue_model = (case resp of Some r \<Rightarrow> if rs_model r \<noteq> [] then rs_model r else model | None \<Rightarrow> model),
      ue_feature = am_feature meta, ue_user = am_user meta, ue_contact = am_contact meta,
      ue_session = am_session meta, ue_account = am_account meta, ue_success = (err = None),
      ue_latency_ms = milliseconds took, ue_sources = am_sources meta,
      ue_tokens = (case resp of Some r \<Rightarrow> rs_usage r | None \<Rightarrow> \<lparr>u_input = 0, u_output = 0, u_total = 0\<rparr>),
      ue_kind = (case err of None \<Rightarrow> [] | Some e \<Rightarrow> fst (describe e)),
      ue_status = (case err of None \<Rightarrow> 0 | Some e \<Rightarrow> fst (snd (describe e))),
      ue_message = (case err of None \<Rightarrow> [] | Some e \<Rightarrow> truncate_bytes (snd (snd (describe e))) 500)\<rparr>"

section \<open>\<open>completeWithTools\<close>\<close>

fun is_limit :: "loop_err \<Rightarrow> bool" where
  "is_limit (LimitCalls n) = True"
| "is_limit (LimitSteps n) = True"
| "is_limit _ = False"

text \<open>
  \<open>res.Took[i]\<close> of each response: an index out of range would be a panic, so the answer is
  \<^const>\<open>None\<close> then. The result is the answer or the error, the pending confirmation handed to the
  caller, the usage rows in order and the world.
\<close>

fun answer_entries ::
  "(loop_err \<Rightarrow> string \<times> int \<times> string) \<Rightarrow> ai_meta \<Rightarrow> string \<Rightarrow> string \<Rightarrow> ai_response list \<Rightarrow> int list \<Rightarrow>
   usage_entry list option" where
  "answer_entries describe meta provider model [] took = Some []"
| "answer_entries describe meta provider model (r # rs) [] = None"
| "answer_entries describe meta provider model (r # rs) (t # took) =
     map_option ((#) (usage_entry_of describe meta provider model (Some r) t None))
       (answer_entries describe meta provider model rs took)"

definition complete_with_tools ::
  "(string \<Rightarrow> string option) \<Rightarrow> (loop_err \<Rightarrow> string \<times> int \<times> string) \<Rightarrow> 'x loop_env \<Rightarrow> ai_meta \<Rightarrow> ai_request \<Rightarrow>
   'x gov \<Rightarrow> 'x gworld \<Rightarrow>
   ((loop_err + ai_response option) \<times> pending_confirmation option \<times> usage_entry list \<times> 'x gworld) option" where
  "complete_with_tools jcompact describe E meta rq cfg w =
     (case run_tool_loop jcompact (gov_env E) rq (Some (gov_resolver cfg))
         \<lparr>max_steps = 0, max_tool_calls = 0, max_calls_step = 0, loop_timeout = 0, max_args_bytes = 0,
          max_result_bytes = 0\<rparr> w of
        (res, err, w1) \<Rightarrow>
          (case answer_entries describe meta (le_name E) (rq_model rq) (lr_responses res) (lr_took res) of
             None \<Rightarrow> None
           | Some entries \<Rightarrow>
               (case err of
                  None \<Rightarrow> Some (Inr (lr_response res), gw_pending w1, entries, w1)
                | Some e \<Rightarrow>
                    if is_limit e then
                      Some (Inl e, gw_pending w1, entries,
                        (case lr_response res of
                           None \<Rightarrow> w1
                         | Some resp \<Rightarrow> record_aborted cfg (rs_tool_calls resp) w1))
                    else
                      Some (Inl e, gw_pending w1,
                        entries @ [usage_entry_of describe meta (le_name E) (rq_model rq) None (lr_failed_took res) (Some e)],
                        w1))))"

section \<open>Every provider answer is accounted for\<close>

definition tallied :: "loop_result \<Rightarrow> bool" where
  "tallied res \<longleftrightarrow> length (lr_took res) = length (lr_responses res)
     \<and> lr_usage res = fold (\<lambda>r u. add_usage u (rs_usage r)) (lr_responses res) (lr_usage empty_loop_result)"

lemma tallied_empty: "tallied empty_loop_result"
  by (simp add: tallied_def empty_loop_result_def)

lemma tallied_next: "tallied (next_result res resp outs) = tallied res"
  by (simp add: tallied_def next_result_def Let_def)

lemma provider_call_tallied:
  "tallied res \<Longrightarrow> provider_call E dl rq res w = (x, res1, w1) \<Longrightarrow> tallied res1"
  by (auto simp: provider_call_def tallied_def Let_def split: option.splits prod.splits sum.splits)

lemma run_rounds_tallied:
  "tallied res \<Longrightarrow> tallied (out_result (run_rounds n E dl r lm rq res w))"
proof (induction n arbitrary: rq res w)
  case (Suc n)
  obtain x res1 w1 where pc: "provider_call E dl rq res w = (x, res1, w1)" by (metis prod_cases3)
  have "tallied res1" by (rule provider_call_tallied [OF Suc.prems pc])
  then show ?case
    using Suc.IH pc by (auto simp: tallied_next split: sum.splits prod.splits)
qed simp

lemma run_tool_loop_tallied: "tallied (fst (run_tool_loop jcompact E rq r lim0 w))"
proof -
  let ?lm = "with_defaults lim0"
  let ?rounds = "run_rounds (nat (max_steps ?lm)) E (le_now E w + loop_timeout ?lm) r ?lm
      (rq\<lparr>rq_tools := offered_tools E r\<rparr>) empty_loop_result w"
  have t: "tallied (out_result ?rounds)" by (rule run_rounds_tallied [OF tallied_empty])
  show ?thesis
  proof (cases ?rounds)
    case (Returned res e w1)
    then show ?thesis using t by (simp add: run_tool_loop_def Let_def)
  next
    case (OutOfSteps rq1 res w1)
    then show ?thesis
      using t provider_call_tallied
      by (fastforce simp: run_tool_loop_def Let_def split: prod.splits sum.splits)
  qed
qed

lemma answer_entries_map:
  "length took = length rs \<Longrightarrow> answer_entries describe meta provider model rs took =
     Some (map2 (\<lambda>r t. usage_entry_of describe meta provider model (Some r) t None) rs took)"
  by (induction describe meta provider model rs took rule: answer_entries.induct) auto

lemma fold_tokens:
  "length took = length rs \<Longrightarrow>
   fold (\<lambda>e u. add_usage u (ue_tokens e))
     (map2 (\<lambda>r t. usage_entry_of describe meta provider model (Some r) t None) rs took) u =
   fold (\<lambda>r u. add_usage u (rs_usage r)) rs u"
  by (induction took rs arbitrary: u rule: list_induct2) (simp_all add: usage_entry_of_def)

lemma add_usage_zero [simp]: "add_usage u \<lparr>u_input = 0, u_output = 0, u_total = 0\<rparr> = u"
  by (simp add: add_usage_def)

lemma map2_entries_success:
  "\<forall>e \<in> set (map2 (\<lambda>r t. usage_entry_of describe meta provider model (Some r) t None) rs took). ue_success e"
  by (auto simp: usage_entry_of_def)

text \<open>
  Every call of the provider is paid for on record: \<open>completeWithTools\<close> never indexes \<open>Took\<close> out of
  range, writes one successful usage row per provider answer and at most one failed row, always the
  last, and the tokens of its rows add up to the usage of the loop.\<close>

theorem every_answer_is_logged:
  "\<exists>out entries w1.
     complete_with_tools jcompact describe E meta rq cfg w = Some (out, gw_pending w1, entries, w1)
     \<and> fold (\<lambda>e u. add_usage u (ue_tokens e)) entries (lr_usage empty_loop_result) =
         lr_usage (fst (run_tool_loop jcompact (gov_env E) rq (Some (gov_resolver cfg))
           \<lparr>max_steps = 0, max_tool_calls = 0, max_calls_step = 0, loop_timeout = 0, max_args_bytes = 0,
            max_result_bytes = 0\<rparr> w))
     \<and> length (filter ue_success entries) =
         length (lr_responses (fst (run_tool_loop jcompact (gov_env E) rq (Some (gov_resolver cfg))
           \<lparr>max_steps = 0, max_tool_calls = 0, max_calls_step = 0, loop_timeout = 0, max_args_bytes = 0,
            max_result_bytes = 0\<rparr> w)))
     \<and> (\<exists>good failed. entries = good @ failed \<and> length failed \<le> 1
          \<and> filter ue_success entries = good)"
proof -
  let ?lim = "\<lparr>max_steps = 0, max_tool_calls = 0, max_calls_step = 0, loop_timeout = 0,
      max_args_bytes = 0, max_result_bytes = 0\<rparr>"
  obtain res err w1 where run: "run_tool_loop jcompact (gov_env E) rq (Some (gov_resolver cfg)) ?lim w = (res, err, w1)"
    by (metis prod_cases3)
  have t: "tallied res" using run_tool_loop_tallied run by (metis fst_conv)
  then have len: "length (lr_took res) = length (lr_responses res)" by (simp add: tallied_def)
  let ?es = "map2 (\<lambda>r t. usage_entry_of describe meta (le_name E) (rq_model rq) (Some r) t None)
      (lr_responses res) (lr_took res)"
  have es: "answer_entries describe meta (le_name E) (rq_model rq) (lr_responses res) (lr_took res) = Some ?es"
    by (rule answer_entries_map [OF len])
  have good: "filter ue_success ?es = ?es"
    using map2_entries_success [of describe meta "le_name E" "rq_model rq"] by (simp add: filter_id_conv)
  have sums: "fold (\<lambda>e u. add_usage u (ue_tokens e)) ?es (lr_usage empty_loop_result) = lr_usage res"
    using t fold_tokens [OF len] by (simp add: tallied_def)
  have aborted: "gw_pending (record_aborted cfg cs v) = gw_pending v" for cs v
    by (induction cs arbitrary: v) (simp_all add: next_attempt_def record_denied_def)
  show ?thesis
  proof (cases err)
    case None
    then show ?thesis using run es good sums len by (simp add: complete_with_tools_def)
  next
    case (Some e)
    let ?f = "usage_entry_of describe meta (le_name E) (rq_model rq) None (lr_failed_took res) (Some e)"
    have f: "\<not> ue_success ?f" "ue_tokens ?f = \<lparr>u_input = 0, u_output = 0, u_total = 0\<rparr>"
      by (simp_all add: usage_entry_of_def)
    show ?thesis
    proof (cases "is_limit e")
      case True
      then show ?thesis
        using Some run es good sums len aborted by (auto simp: complete_with_tools_def split: option.split)
    next
      case False
      have ex: "\<exists>good failed. ?es @ [?f] = good @ failed \<and> length failed \<le> 1 \<and> filter ue_success (?es @ [?f]) = good"
        using f good by (intro exI [of _ ?es] exI [of _ "[?f]"]) simp
      have ct: "complete_with_tools jcompact describe E meta rq cfg w = Some (Inl e, gw_pending w1, ?es @ [?f], w1)"
        using False Some run es by (simp add: complete_with_tools_def)
      show ?thesis
        unfolding run fst_conv using ct ex f good sums len
        by (intro exI [of _ "Inl e"] exI [of _ "?es @ [?f]"] exI [of _ w1] conjI ex) simp_all
    qed
  qed
qed

section \<open>The pending confirmation is really in the store\<close>

text \<open>
  What the resolver needs of its surroundings for that: \<open>view\<close> is the table of confirmations inside
  the outside world; only a successful \<open>Propose\<close> changes it, and then the row it returns is in it.
\<close>

locale confirm_contract =
  fixes cfg :: "'x gov" and E :: "'x loop_env" and view :: "'x \<Rightarrow> table" and hash :: "string \<Rightarrow> string"
  assumes provider_keeps: "view (snd (le_complete E rq x)) = view x"
    and requested_keeps: "view (snd (au_requested (gc_auditor cfg) a x)) = view x"
    and denied_keeps: "view (snd (au_denied (gc_auditor cfg) a reason x)) = view x"
    and finish_keeps: "view (snd (au_finish (gc_auditor cfg) i out x)) = view x"
    and run_keeps: "catalog_get (Some (gc_catalog cfg)) n = Some s \<Longrightarrow> ts_factory s = Some f \<Longrightarrow>
      f sc x = Built ex \<Longrightarrow> view (snd (ex c x)) = view x"
    and ask_keeps: "catalog_get (Some (gc_catalog cfg)) n = Some s \<Longrightarrow> ts_write_factory s = Some g \<Longrightarrow>
      g sc x = WBuilt t \<Longrightarrow> view (snd (wt_propose t c x)) = view x"
    and refused_keeps: "gc_confirmations cfg = Some px \<Longrightarrow> px_propose px j x = (Inl e, x') \<Longrightarrow> view x' = view x"
    and stored: "gc_confirmations cfg = Some px \<Longrightarrow> px_propose px j x = (Inr (token, k), x') \<Longrightarrow>
      k \<in> set (view x') \<and> cf_status k = Pending \<and> cf_token_hash k = hash token \<and> cf_tool k = in_tool j
      \<and> cf_org k = sc_org (in_scope j) \<and> sc_contact (in_scope j) = Some (cf_contact k)"
begin

definition waits :: "'x gworld \<Rightarrow> bool" where
  "waits w \<longleftrightarrow> (case gw_pending w of
     None \<Rightarrow> True
   | Some p \<Rightarrow> gc_confirmations cfg \<noteq> None
       \<and> pe_conf p \<in> set (view (gw_ext w)) \<and> cf_status (pe_conf p) = Pending
       \<and> cf_token_hash (pe_conf p) = hash (pe_token p) \<and> cf_tool (pe_conf p) = pe_tool p
       \<and> cf_org (pe_conf p) = sc_org (gc_scope cfg) \<and> sc_contact (gc_scope cfg) = Some (cf_contact (pe_conf p)))"

text \<open>\<open>still w w'\<close>: neither the pending confirmation nor the table changed.\<close>

definition still :: "'x gworld \<Rightarrow> 'x gworld \<Rightarrow> bool" where
  "still w w' \<longleftrightarrow> gw_pending w' = gw_pending w \<and> view (gw_ext w') = view (gw_ext w)"

lemma still_waits: "still w w' \<Longrightarrow> waits w \<Longrightarrow> waits w'"
  by (simp add: still_def waits_def split: option.splits)

lemma still_on_ext: "(\<And>x. view (snd (f x)) = view x) \<Longrightarrow> still w (snd (on_ext f w))"
  by (simp add: still_def on_ext_def case_prod_beta)

lemma still_trans: "still w w1 \<Longrightarrow> still w1 w2 \<Longrightarrow> still w w2"
  by (simp add: still_def)

lemma denied_still: "still w (snd (denied_execute cfg reason c w))" "still w (record_denied cfg a reason w)"
  by (simp_all add: still_def denied_execute_def next_attempt_def record_denied_def on_ext_def
      case_prod_beta denied_keeps)

lemma finish_still: "still w (gov_finish cfg i out w)"
proof -
  have 1: "still v (snd (on_ext (au_finish (gc_auditor cfg) i out) v))" for v
    by (rule still_on_ext) (rule finish_keeps)
  show ?thesis
    using 1 [of w] 1 [of "snd (on_ext (au_finish (gc_auditor cfg) i out) w)"]
    by (auto simp: gov_finish_def intro: still_trans split: prod.splits bool.splits)
qed

lemma run_still:
  assumes "catalog_get (Some (gc_catalog cfg)) n = Some spec"
  shows "still w (snd (on_ext (gov_run cfg spec c) w))"
proof (rule still_on_ext)
  fix x
  show "view (snd (gov_run cfg spec c x)) = view x"
    using run_keeps [OF assms, of _ "gc_scope cfg" x _ c]
    by (auto simp: gov_run_def split: option.splits built.splits prod.splits tool_out.splits)
       (metis snd_conv)+
qed

lemma store_proposal_waits:
  assumes "waits w" "gc_confirmations cfg = Some px"
  shows "waits (snd (store_proposal cfg spec px i args res w))"
proof -
  let ?j = "\<lparr>in_scope = gc_scope cfg, in_run = gc_run_id cfg, in_tool = ts_name spec, in_args = args, in_call = Some i\<rparr>"
  obtain q x' where p: "px_propose px ?j (gw_ext w) = (q, x')" by (metis surj_pair)
  show ?thesis
  proof (cases q)
    case (Inl e)
    have "view x' = view (gw_ext w)" using refused_keeps [OF assms(2)] p Inl by blast
    then have "waits (w\<lparr>gw_ext := x'\<rparr>)" using assms(1) by (simp add: waits_def split: option.splits)
    moreover have "snd (store_proposal cfg spec px i args res w) = w\<lparr>gw_ext := x'\<rparr>"
      by (cases e) (simp_all add: store_proposal_def on_ext_def p Inl)
    ultimately show ?thesis by simp
  next
    case (Inr r)
    obtain token k where r: "r = (token, k)" by (cases r)
    show ?thesis
      using stored [OF assms(2), of ?j "gw_ext w" token k x'] p Inr r assms(2)
      by (simp add: store_proposal_def on_ext_def waits_def)
  qed
qed

lemma propose_waits:
  assumes "waits w" "gc_confirmations cfg = Some px" "catalog_get (Some (gc_catalog cfg)) n = Some spec"
  shows "waits (snd (gov_propose cfg spec px i c w))"
proof (cases "\<exists>f t. ts_write_factory spec = Some f \<and> f (gc_scope cfg) (gw_ext w) = WBuilt t")
  case False
  then show ?thesis
    using assms(1) by (auto simp: gov_propose_def split: option.splits write_built.splits)
next
  case True
  then obtain f t where f: "ts_write_factory spec = Some f" "f (gc_scope cfg) (gw_ext w) = WBuilt t" by blast
  obtain q x' where a: "wt_propose t c (gw_ext w) = (q, x')" by (metis surj_pair)
  have "view x' = view (gw_ext w)" using ask_keeps [OF assms(3) f, of c] a by simp
  then have w1: "waits (w\<lparr>gw_ext := x'\<rparr>)" using assms(1) by (simp add: waits_def split: option.splits)
  show ?thesis
    using f a w1 store_proposal_waits [OF w1 assms(2)]
    by (simp add: gov_propose_def on_ext_def split: propose_out.splits option.splits)
qed

lemma audited_waits:
  assumes "\<And>i v. waits v \<Longrightarrow> waits (snd (act i v))" "waits w"
  shows "waits (snd (audited cfg act a w))"
proof -
  obtain q w1 where r: "on_ext (au_requested (gc_auditor cfg) a) w = (q, w1)" by (metis surj_pair)
  have "still w (snd (on_ext (au_requested (gc_auditor cfg) a) w))"
    by (rule still_on_ext) (rule requested_keeps)
  then have "still w w1" using r by simp
  then have w1: "waits w1" by (rule still_waits) (rule assms(2))
  show ?thesis
  proof (cases q)
    case None
    then show ?thesis using r still_waits [OF denied_still(2) w1] by (simp add: audited_def)
  next
    case (Some i)
    obtain res kind w2 where act: "act i w1 = ((res, kind), w2)" by (metis surj_pair)
    then have "waits w2" using assms(1) [OF w1, of i] by simp
    then show ?thesis using r Some act still_waits [OF finish_still] by (simp add: audited_def)
  qed
qed

lemma execute_waits:
  assumes "waits w" "gov_verdict cfg n = (spec, v)" "v_allowed v"
  shows "waits (snd (governed_execute cfg spec c w))"
proof -
  note spec = gov_verdict_allowed(1) [OF assms(2,3)]
  have w1: "waits (w\<lparr>gw_step := s\<rparr>)" for s using assms(1) by (simp add: waits_def split: option.splits)
  have read: "waits (snd (audited cfg (\<lambda>i. on_ext (gov_run cfg spec c)) a (w\<lparr>gw_step := s\<rparr>)))" for a s
    by (rule audited_waits [OF _ w1]) (rule still_waits [OF run_still [OF spec]])
  have wr: "waits (snd (audited cfg (\<lambda>i. gov_propose cfg spec px i c) a (w\<lparr>gw_step := s\<rparr>)))"
    if "gc_confirmations cfg = Some px" for px a s
    by (rule audited_waits [OF _ w1]) (rule propose_waits [OF _ that spec])
  show ?thesis
    using read wr still_waits [OF denied_still(1) assms(1)]
    by (simp add: governed_execute_def execute_write_def next_attempt_def Let_def split: option.split)
qed

lemma resolve_waits:
  assumes "gov_resolve cfg n = Some t" "waits w"
  shows "waits (snd (t_execute t c w))" "t_reject t = Some rj \<Longrightarrow> waits (snd (rj c w))"
proof -
  obtain spec v where sv: "gov_verdict cfg n = (spec, v)" by (metis surj_pair)
  have w1: "waits (w\<lparr>gw_step := s\<rparr>)" for s using assms(2) by (simp add: waits_def split: option.splits)
  have "waits (snd (t_execute t c w)) \<and> (t_reject t = Some rj \<longrightarrow> waits (snd (rj c w)))"
    using assms sv execute_waits [OF assms(2) sv, of c] still_waits [OF denied_still(1) assms(2)]
      still_waits [OF denied_still(2) w1]
    by (auto simp: gov_resolve_def denied_tool_def governed_tool_def governed_reject_def next_attempt_def
        case_prod_beta split: if_splits)
  then show "waits (snd (t_execute t c w))" "t_reject t = Some rj \<Longrightarrow> waits (snd (rj c w))" by blast+
qed

lemma aborted_waits: "waits w \<Longrightarrow> waits (record_aborted cfg cs w)"
proof (induction cs arbitrary: w)
  case (Cons c cs)
  have "waits (w\<lparr>gw_step := k\<rparr>)" for k
    using Cons.prems by (simp add: waits_def split: option.splits)
  then show ?case using Cons.IH still_waits [OF denied_still(2)] by (simp add: next_attempt_def)
qed simp

lemma provider_waits: "waits w \<Longrightarrow> waits (snd (le_complete (gov_env E) rq w))"
  using still_waits [OF still_on_ext [OF provider_keeps]] by (simp add: gov_env_def)

end

sublocale confirm_contract \<subseteq> waiting: loop_contract "gov_env E" "Some (gov_resolver cfg)" lm "\<lambda>_. True" waits
  for lm
proof unfold_locales
  fix w rs and c :: tool_call and t
  assume "waits w" "Some (gov_resolver cfg) = Some rs" "r_resolve rs (tc_name c) = Some t"
  then have "gov_resolve cfg (tc_name c) = Some t" by (auto simp: gov_resolver_def)
  then show "waits (snd (t_execute t c w))" by (rule resolve_waits(1)) fact
next
  fix w rs and c :: tool_call and t rj
  assume "waits w" "Some (gov_resolver cfg) = Some rs" "r_resolve rs (tc_name c) = Some t" "t_reject t = Some rj"
  then have "gov_resolve cfg (tc_name c) = Some t" by (auto simp: gov_resolver_def)
  then show "waits (snd (rj c w))" by (rule resolve_waits(2)) fact+
qed (simp_all add: provider_waits)

context confirm_contract
begin

text \<open>The whole run keeps the pending confirmation in the store.\<close>

lemma complete_with_tools_waits:
  assumes "complete_with_tools jcompact describe E meta rq cfg w = Some (out, pend, entries, w')" "waits w"
  shows "waits w' \<and> pend = gw_pending w'"
proof -
  let ?lim = "\<lparr>max_steps = 0, max_tool_calls = 0, max_calls_step = 0, loop_timeout = 0,
      max_args_bytes = 0, max_result_bytes = 0\<rparr>"
  obtain res err w1 where run: "run_tool_loop jcompact (gov_env E) rq (Some (gov_resolver cfg)) ?lim w = (res, err, w1)"
    by (metis prod_cases3)
  have "waits (snd (snd (run_tool_loop jcompact (gov_env E) rq (Some (gov_resolver cfg)) ?lim w)))"
    by (rule waiting.run_tool_loop_keeps [OF refl assms(2)]) simp_all
  then have w1: "waits w1" using run by simp
  have p: "gw_pending (record_aborted cfg cs v) = gw_pending v" for cs v
    by (induction cs arbitrary: v) (simp_all add: next_attempt_def record_denied_def)
  show ?thesis
    using assms(1) run w1 aborted_waits [OF w1] p
    by (auto simp: complete_with_tools_def split: option.splits if_splits)
qed

end

section \<open>The contract holds for the application\<close>

lemma app_built_Built: "app_built b = Built f \<longleftrightarrow> (\<exists>g. b = Built g \<and> f = (\<lambda>c. on_rest (g c)))"
  by (cases b) auto

lemma app_write_built_WBuilt:
  "app_write_built b = WBuilt t \<longleftrightarrow>
     (\<exists>u. b = WBuilt u \<and> t = \<lparr>wt_propose = (\<lambda>c. on_rest (wt_propose u c)),
        wt_execute = (\<lambda>args now. on_rest (wt_execute u args now))\<rparr>)"
  by (cases b) auto

lemma on_rest_confs [simp]: "ap_confs (snd (on_rest f w)) = ap_confs w"
  by (simp add: on_rest_def split: prod.splits)

lemma app_spec_name [simp]: "ts_name (app_spec s) = ts_name s"
  by (simp add: app_spec_def)

lemma app_catalog_get:
  "catalog_get (Some (app_catalog c)) n = map_option app_spec (catalog_get (Some c) n)"
  by (simp add: catalog_get_def app_catalog_def find_map)

lemma db_auditor_confs [simp]:
  "ap_confs (snd (db_requested R A a w)) = ap_confs w"
  "ap_confs (snd (db_denied R A a reason w)) = ap_confs w"
  "ap_confs (snd (db_finish R i out w)) = ap_confs w"
  by (simp_all add: db_requested_def db_denied_def db_finish_def Let_def)

lemma propose_stores:
  assumes "propose st i random new_id now ok t = (Inr (token, c), t')"
  shows "c \<in> set t' \<and> cf_status c = Pending \<and> cf_token_hash c = hash_token (st_crypto st) token
    \<and> cf_tool c = in_tool i \<and> cf_org c = sc_org (in_scope i) \<and> sc_contact (in_scope i) = Some (cf_contact c)"
proof -
  obtain contact session digest where c: "c = new_conf st i new_id contact session token digest now"
    and contact: "sc_contact (in_scope i) = Some contact"
    and tx: "propose_tx st i contact c now ok t = Inr t'"
    using assms by (auto simp: propose_def Let_def split: if_splits option.splits sum.splits)
  have "c \<in> set t'"
    using tx by (auto simp: propose_tx_def insert_row_def Let_def split: if_splits option.splits)
  then show ?thesis using c contact by (simp add: new_conf_def)
qed

lemma propose_refused: "propose st i random new_id now ok t = (Inl e, t') \<Longrightarrow> t' = t"
  by (auto simp: propose_def Let_def split: if_splits option.splits sum.splits)

lemma db_propose:
  assumes "px_propose (db_proposer R st) j x = (q, x')"
  shows "\<exists>random new_id now ok. propose st j random new_id now ok (ap_confs x) = (q, ap_confs x')"
proof -
  let ?k = "ap_tick x"
  have "propose st j (or_random R ?k) (or_uuid R ?k) (or_now R ?k) (or_stmt R ?k) (ap_confs x) = (q, ap_confs x')"
    using assms by (simp add: db_proposer_def Let_def split: prod.splits) force
  then show ?thesis by blast
qed

lemma app_gov_simps [simp]:
  "gc_catalog (app_gov R a tu fresh enabled) = app_catalog (aa_catalog a)"
  "gc_auditor (app_gov R a tu fresh enabled) = db_auditor R ((aa_audit a)\<lparr>ae_secret := aa_encryption_key a\<rparr>)"
  "gc_scope (app_gov R a tu fresh enabled) = tu_scope tu"
  "gc_confirmations (app_gov R a tu fresh enabled) =
     (if confirmations_ready a
      then Some (db_proposer R \<lparr>st_secret = aa_encryption_key a, st_params = aa_params a,
                               st_crypto = ae_crypto (aa_audit a)\<rparr>)
      else None)"
  by (simp_all add: app_gov_def new_resolver_def)

interpretation app: confirm_contract "app_gov R a tu fresh enabled" "app_env E" ap_confs
    "hash_token (ae_crypto (aa_audit a))"
proof unfold_locales
  fix n s f sc x ex c
  assume "catalog_get (Some (gc_catalog (app_gov R a tu fresh enabled))) n = Some s" "ts_factory s = Some f"
    "f sc x = Built ex"
  then show "ap_confs (snd (ex c x)) = ap_confs x"
    by (auto simp: app_catalog_get app_spec_def app_built_Built)
next
  fix n s g sc x t c
  assume "catalog_get (Some (gc_catalog (app_gov R a tu fresh enabled))) n = Some s" "ts_write_factory s = Some g"
    "g sc x = WBuilt t"
  then show "ap_confs (snd (wt_propose t c x)) = ap_confs x"
    by (auto simp: app_catalog_get app_spec_def app_write_built_WBuilt)
next
  fix px j x e x'
  assume "gc_confirmations (app_gov R a tu fresh enabled) = Some px" "px_propose px j x = (Inl e, x')"
  then show "ap_confs x' = ap_confs x"
    by (auto split: if_splits dest!: db_propose propose_refused)
next
  fix px j x token k x'
  assume "gc_confirmations (app_gov R a tu fresh enabled) = Some px" "px_propose px j x = (Inr (token, k), x')"
  then show "k \<in> set (ap_confs x') \<and> cf_status k = Pending
      \<and> cf_token_hash k = hash_token (ae_crypto (aa_audit a)) token \<and> cf_tool k = in_tool j
      \<and> cf_org k = sc_org (in_scope j) \<and> sc_contact (in_scope j) = Some (cf_contact k)"
    by (auto split: if_splits dest!: db_propose dest: propose_stores)
qed (simp_all add: app_env_def db_auditor_def)


section \<open>Witness\<close>

text \<open>A provider that asks for the write tool once and then answers, with a tool that proposes.\<close>

definition sample_write_spec :: "nat tool_spec" where
  "sample_write_spec =
     \<lparr>ts_name = ''w'', ts_description = [], ts_parameters = ''{}'', ts_risk = RiskWrite, ts_features = [],
      ts_factory = None,
      ts_write_factory = Some (\<lambda>sc n. WBuilt \<lparr>wt_propose = (\<lambda>c k. (Proposed (Some []) (text_result ''wait''), k)),
                                             wt_execute = (\<lambda>args now k. (WriteFailed, k))\<rparr>),
      ts_confirm = None\<rparr>"

definition sample_ai :: "nat ai_app" where
  "sample_ai = \<lparr>aa_enabled = True, aa_catalog = \<lparr>cat_specs = [sample_write_spec], cat_names = [''w'']\<rparr>,
     aa_providers = [''p''], aa_write_enabled = True, aa_encryption_key = ''s'',
     aa_params = \<lparr>pr_ttl = 10, pr_limit = 1, pr_window = 60, pr_cooldown = 5\<rparr>,
     aa_audit = \<lparr>ae_secret = [], ae_crypto = \<lparr>cr_sha = (\<lambda>x. x), cr_mac = (\<lambda>k m. m),
       cr_canon = (\<lambda>o1 c1 t args. Some t)\<rparr>, ae_canonical = (\<lambda>x. None), ae_object_keys = (\<lambda>x. None)\<rparr>\<rparr>"

definition sample_draws :: db_draws where
  "sample_draws = \<lparr>or_ok = (\<lambda>_. True), or_now = int, or_uuid = (\<lambda>k. k + 1), or_random = (\<lambda>_. Some ''k''),
     or_stmt = (\<lambda>_ _. True)\<rparr>"

definition sample_provider :: "nat loop_env" where
  "sample_provider = \<lparr>le_name = ''p'', le_tool_calling = True,
     le_complete = (\<lambda>rq n. (Inr \<lparr>rs_text = ''hi'', rs_model = [], rs_usage = sample_usage,
        rs_tool_calls = (if n = 0 then [\<lparr>tc_id = ''1'', tc_name = ''w'', tc_arguments = ''{}'', tc_opaque = None\<rparr>] else []),
        rs_finish = []\<rparr>, n + 1)),
     le_now = (\<lambda>_. 0), le_parent = (\<lambda>_. None)\<rparr>"

definition sample_meta :: ai_meta where
  "sample_meta = \<lparr>am_feature = [], am_org = 1, am_account = [], am_user = None, am_contact = None,
     am_session = None, am_sources = [],
     am_tools = Some \<lparr>tu_scope = \<lparr>sc_org = 1, sc_contact = Some 2, sc_session = Some 3, sc_account = []\<rparr>,
                       tu_actor = \<lparr>ac_kind = ActorAI, ac_ref = []\<rparr>\<rparr>\<rparr>"

definition sample_app_world :: "nat app" where
  "sample_app_world = \<lparr>ap_calls = [], ap_confs = [], ap_tick = 0, ap_rest = 0\<rparr>"

lemma sample_run_pending:
  "(case governed_tools sample_draws sample_ai sample_meta sample_provider 9 (Some (\<lambda>n. n = ''w'')) of
      None \<Rightarrow> False
    | Some cfg \<Rightarrow>
        (case complete_with_tools (\<lambda>x. Some x) (\<lambda>e. ([], 0, [])) (app_env sample_provider) sample_meta sample_request
            cfg (start_world sample_app_world) of
           Some (out, Some p, entries, w') \<Rightarrow> pe_token p = ''k'' \<and> pe_tool p = ''w'' \<and> length entries = 2
         | _ \<Rightarrow> False))"
  by code_simp


end
