(* ===== verification/Tool_Confirmer.thy ===== *)
theory Tool_Confirmer
  imports Tool_Audit
begin

text \<open>
  The customer's tap on a confirmation button and the reconciler
  (\<open>internal/aitools/confirmer.go\<close>). Every statement on the table of confirmations may be preceded by
  whatever other processes did meanwhile (\<open>co_others\<close>), so the races of concurrent taps, sweeps and
  proposals are part of the model.
\<close>

section \<open>The confirmer\<close>

text \<open>\<open>TransferService\<close>, as far as the confirmer uses it.\<close>

record 'x transfers =
  ts_has_active :: "uuid \<Rightarrow> uuid \<Rightarrow> 'x \<Rightarrow> bool"
  ts_within_hours :: "uuid \<Rightarrow> string \<Rightarrow> 'x \<Rightarrow> bool"
  ts_find_ai :: "uuid \<Rightarrow> uuid \<Rightarrow> time \<Rightarrow> 'x \<Rightarrow> uuid option"

record 'x cworld =
  cw_ext :: 'x
  cw_table :: table

record notification =
  nf_org :: uuid
  nf_contact :: uuid
  nf_account :: string
  nf_text :: string
  nf_outside :: bool

text \<open>
  \<open>co_ok\<close> says whether the next statement on the table works; \<open>co_session_account\<close> is the account of
  a session, \<^const>\<open>None\<close> when the query gives nothing.
\<close>

record 'x confirmer =
  co_store :: store
  co_catalog :: "'x catalog"
  co_enabled :: "uuid \<Rightarrow> 'x \<Rightarrow> (string \<Rightarrow> bool) option"
  co_auditor :: "'x auditor"
  co_transfers :: "'x transfers option"
  co_global :: "'x \<Rightarrow> bool"
  co_write :: "'x \<Rightarrow> bool"
  co_provider :: "uuid \<Rightarrow> 'x \<Rightarrow> bool"
  co_chatbot :: "uuid \<Rightarrow> string \<Rightarrow> 'x \<Rightarrow> bool"
  co_notify :: "(notification \<Rightarrow> 'x \<Rightarrow> 'x) option"
  co_min_age :: time
  co_max_attempts :: int
  co_sessions :: "uuid \<Rightarrow> uuid \<Rightarrow> uuid \<Rightarrow> 'x \<Rightarrow> bool"
  co_session_account :: "uuid \<Rightarrow> 'x \<Rightarrow> string option"
  co_now :: "'x \<Rightarrow> time"
  co_ok :: "'x \<Rightarrow> bool"
  co_others :: "'x cworld \<Rightarrow> 'x cworld"

record tap =
  tap_token :: string
  tap_org :: uuid
  tap_contact :: uuid
  tap_session :: uuid
  tap_account :: string
  tap_wamid :: string
  tap_decline :: bool

datatype tap_result = TapIgnored | TapReply string bool

definition reply :: "string \<Rightarrow> tap_result" where
  "reply text = TapReply text False"

definition outside_hours :: tap_result where
  "outside_hours = TapReply [] True"

text \<open>The fixed sentence of \<open>DeniedText\<close>, its bytes.\<close>

definition denied_text :: string where
  "denied_text = ''N'' @ [char_of (195 :: nat), char_of (163 :: nat)] @ ''o foi poss'' @ [char_of (195 :: nat), char_of (173 :: nat)]
     @ ''vel concluir essa solicita'' @ [char_of (195 :: nat), char_of (167 :: nat), char_of (195 :: nat), char_of (163 :: nat)] @ ''o agora.''"

abbreviation "OutcomeCreated \<equiv> ''created''"
abbreviation "OutcomeAlreadyActive \<equiv> ''already_active''"
abbreviation "OutcomeOutsideHours \<equiv> ''outside_hours''"

abbreviation "FeatureChatbotReply \<equiv> ''chatbot_reply''"

section \<open>Statements on the table, between those of others\<close>

definition statement ::
  "'x confirmer \<Rightarrow> (time \<Rightarrow> bool \<Rightarrow> table \<Rightarrow> bool \<times> bool \<times> table) \<Rightarrow> 'x cworld \<Rightarrow> bool \<times> bool \<times> 'x cworld" where
  "statement C f w =
     (let w1 = co_others C w in
      case f (co_now C (cw_ext w1)) (co_ok C (cw_ext w1)) (cw_table w1) of
        (won, failed, t) \<Rightarrow> (won, failed, w1\<lparr>cw_table := t\<rparr>))"

definition on_cext :: "('x \<Rightarrow> 'a \<times> 'x) \<Rightarrow> 'x cworld \<Rightarrow> 'a \<times> 'x cworld" where
  "on_cext f w = (case f (cw_ext w) of (a, x) \<Rightarrow> (a, w\<lparr>cw_ext := x\<rparr>))"

section \<open>Re-authorization\<close>

definition write_spec :: "'x confirmer \<Rightarrow> string \<Rightarrow> 'x tool_spec option" where
  "write_spec C name =
     (case catalog_get (Some (co_catalog C)) name of
        None \<Rightarrow> None
      | Some s \<Rightarrow> if ts_risk s = RiskWrite \<and> ts_write_factory s \<noteq> None \<and> confirm_valid (ts_confirm s)
                  then Some s else None)"

text \<open>The reason of the first thing that no longer holds, or the empty string.\<close>

definition reauthorize :: "'x confirmer \<Rightarrow> conf \<Rightarrow> 'x tool_spec \<Rightarrow> string \<Rightarrow> 'x \<Rightarrow> string" where
  "reauthorize C c spec account x =
     (if \<not> co_global C x then DenyGlobalOff
      else case co_enabled C (cf_org c) x of
        None \<Rightarrow> DenyNotEnabled
      | Some enabled \<Rightarrow>
          let v = authorize \<lparr>pi_global_enabled = True, pi_known = True, pi_org_enabled = enabled (ts_name spec),
                pi_risk = ts_risk spec, pi_feature_allowed = feature_allowed spec FeatureChatbotReply,
                pi_write_enabled = co_write C x, pi_confirmation_available = True\<rparr>
          in if \<not> v_allowed v then v_reason v
             else if \<not> co_provider C (cf_org c) x then ''provider_not_validated''
             else if \<not> co_chatbot C (cf_org c) account x then ''chatbot_disabled''
             else [])"

definition session_account :: "'x confirmer \<Rightarrow> uuid \<Rightarrow> 'x \<Rightarrow> string" where
  "session_account C session x = (case co_session_account C session x of Some a \<Rightarrow> a | None \<Rightarrow> [])"

definition human_actor :: actor where
  "human_actor = \<lparr>ac_kind = ActorHuman, ac_ref = ''customer_confirmation''\<rparr>"

definition conf_scope :: "conf \<Rightarrow> string \<Rightarrow> scope" where
  "conf_scope c account = \<lparr>sc_org = cf_org c, sc_contact = Some (cf_contact c), sc_session = Some (cf_session c),
     sc_account = account\<rparr>"

definition conf_attempt :: "conf \<Rightarrow> string \<Rightarrow> attempt" where
  "conf_attempt c account =
     \<lparr>at_run = cf_run c, at_step = 1,
      at_call = \<lparr>tc_id = ''confirmation:'' @ show_nat (cf_id c), tc_name = cf_tool c, tc_arguments = ''{}'',
                 tc_opaque = None\<rparr>,
      at_risk = RiskWrite, at_actor = human_actor, at_scope = conf_scope c account\<rparr>"

definition record_denial :: "'x confirmer \<Rightarrow> conf \<Rightarrow> string \<Rightarrow> string \<Rightarrow> 'x cworld \<Rightarrow> 'x cworld" where
  "record_denial C c account reason w = snd (on_cext (au_denied (co_auditor C) (conf_attempt c account) reason) w)"

text \<open>The texts of a \<open>ConfirmSpec\<close>; \<open>writeSpec\<close> has checked that they are there.\<close>

definition outcome_text :: "'x tool_spec \<Rightarrow> string \<Rightarrow> string" where
  "outcome_text spec o1 =
     (case ts_confirm spec of
        None \<Rightarrow> []
      | Some k \<Rightarrow> (case cs_outcome_text k of None \<Rightarrow> [] | Some f \<Rightarrow> f o1))"

definition expired_text :: "'x tool_spec \<Rightarrow> string" where
  "expired_text spec = (case ts_confirm spec of None \<Rightarrow> [] | Some k \<Rightarrow> cs_expired_text k)"

definition declined_text :: "'x tool_spec \<Rightarrow> string" where
  "declined_text spec = (case ts_confirm spec of None \<Rightarrow> [] | Some k \<Rightarrow> cs_declined_text k)"

section \<open>Carrying out a confirmed action\<close>

text \<open>\<open>runWrite\<close>: the result, or the kind of its error.\<close>

definition run_write ::
  "'x confirmer \<Rightarrow> conf \<Rightarrow> 'x tool_spec \<Rightarrow> string \<Rightarrow> 'x \<Rightarrow> (string + exec_result) \<times> 'x" where
  "run_write C c spec account x =
     (case ts_write_factory spec of
        None \<Rightarrow> (Inl ''tool_error'', x)
      | Some f \<Rightarrow>
          (case f (conf_scope c account) x of
             WBuildPanic \<Rightarrow> (Inl ''tool_error'', x)
           | WBuiltNil \<Rightarrow> (Inl ''tool_error'', x)
           | WBuilt t \<Rightarrow>
               (case wt_execute t (cf_args c) (case cf_confirmed_at c of Some instant \<Rightarrow> instant | None \<Rightarrow> co_now C x) x of
                  (Wrote r, x1) \<Rightarrow> (Inr r, x1)
                | (WriteTimeout, x1) \<Rightarrow> (Inl ''timeout'', x1)
                | (WriteFailed, x1) \<Rightarrow> (Inl ''tool_error'', x1)
                | (WritePanic, x1) \<Rightarrow> (Inl ''tool_error'', x1))))"

definition finish_of :: "(string + exec_result) \<Rightarrow> uuid \<Rightarrow> finish_input" where
  "finish_of r call =
     (let fin = \<lparr>fi_status = NotExecuted, fi_outcome = [], fi_transfer = None, fi_error_kind = [], fi_denial = [],
                 fi_execution_call = Some call\<rparr> in
      case r of
        Inl _ \<Rightarrow> fin\<lparr>fi_status := Failed, fi_error_kind := ''execution_error''\<rparr>
      | Inr e \<Rightarrow>
          if er_outcome e = OutcomeCreated
          then fin\<lparr>fi_status := Executed, fi_outcome := er_outcome e, fi_transfer := er_transfer e\<rparr>
          else fin\<lparr>fi_status := NotExecuted, fi_outcome := er_outcome e\<rparr>)"

definition write_outcome :: "(string + exec_result) \<Rightarrow> time \<Rightarrow> outcome" where
  "write_outcome r took =
     \<lparr>oc_status = (case r of Inl _ \<Rightarrow> CallFailed | Inr _ \<Rightarrow> CallExecuted), oc_bytes = 0, oc_truncated = False,
      oc_result_error = False, oc_kind = (case r of Inl k \<Rightarrow> k | Inr _ \<Rightarrow> []), oc_duration = took\<rparr>"

definition tap_text :: "'x tool_spec \<Rightarrow> (string + exec_result) \<Rightarrow> tap_result" where
  "tap_text spec r =
     (case r of
        Inl _ \<Rightarrow> reply denied_text
      | Inr e \<Rightarrow>
          if er_outcome e = OutcomeCreated then reply (outcome_text spec (er_outcome e))
          else if er_outcome e = OutcomeOutsideHours then outside_hours
          else reply (outcome_text spec (er_outcome e)))"

definition execute_confirmed ::
  "'x confirmer \<Rightarrow> conf \<Rightarrow> 'x tool_spec \<Rightarrow> string \<Rightarrow> 'x cworld \<Rightarrow> tap_result \<times> 'x cworld" where
  "execute_confirmed C c spec account w =
     (case on_cext (au_requested (co_auditor C) (conf_attempt c account)) w of
        (None, w1) \<Rightarrow> (TapIgnored, w1)
      | (Some call, w1) \<Rightarrow>
          (case on_cext (run_write C c spec account) w1 of
             (r, w2) \<Rightarrow>
               (case statement C (\<lambda>now ok. finish now ok (cf_id c) (finish_of r call)) w2 of
                  (_, True, w3) \<Rightarrow> (TapIgnored, w3)
                | (_, False, w3) \<Rightarrow>
                    (tap_text spec r,
                     snd (on_cext (au_finish (co_auditor C) call
                            (write_outcome r (co_now C (cw_ext w2) - co_now C (cw_ext w1)))) w3)))))"

section \<open>A tap\<close>

text \<open>
  \<open>HandleTap\<close> up to its compare-and-set: either it is over (with what to answer), or the action may be
  confirmed. Nothing here consumes the customer's authorization.
\<close>

datatype 'x tap_step =
    TapDone tap_result "'x cworld"
  | TapReady conf "'x tool_spec" string "'x cworld"

text \<open>A compare-and-set that closes the request: only who wins it answers.\<close>

definition close_tap ::
  "'x confirmer \<Rightarrow> (time \<Rightarrow> bool \<Rightarrow> table \<Rightarrow> bool \<times> bool \<times> table) \<Rightarrow> ('x cworld \<Rightarrow> 'x cworld) \<Rightarrow> tap_result \<Rightarrow>
   'x cworld \<Rightarrow> 'x tap_step" where
  "close_tap C f after r w =
     (case statement C f w of (won, _, w1) \<Rightarrow> if won then TapDone r (after w1) else TapDone TapIgnored w1)"

definition check_transfers ::
  "'x confirmer \<Rightarrow> conf \<Rightarrow> 'x tool_spec \<Rightarrow> string \<Rightarrow> 'x cworld \<Rightarrow> 'x tap_step" where
  "check_transfers C c spec account w =
     (case co_transfers C of
        None \<Rightarrow> TapReady c spec account w
      | Some ts \<Rightarrow>
          if ts_has_active ts (cf_org c) (cf_contact c) (cw_ext w)
          then close_tap C (\<lambda>now ok. close_not_executed now ok (cf_id c) OutcomeAlreadyActive) (\<lambda>w1. w1)
                 (reply (outcome_text spec OutcomeAlreadyActive)) w
          else if \<not> ts_within_hours ts (cf_org c) account (cw_ext w)
          then close_tap C (\<lambda>now ok. close_not_executed now ok (cf_id c) OutcomeOutsideHours) (\<lambda>w1. w1)
                 outside_hours w
          else TapReady c spec account w)"

definition check_tap :: "'x confirmer \<Rightarrow> tap \<Rightarrow> 'x cworld \<Rightarrow> 'x tap_step" where
  "check_tap C tap w0 =
     (let w = co_others C w0; x = cw_ext w in
      case lookup_conf (co_store C) (\<lambda>s o1 c. co_sessions C s o1 c x) (tap_token tap) (tap_org tap) (tap_contact tap)
             (tap_session tap) (co_now C x) (co_ok C x) (cw_table w) of
        (None, _) \<Rightarrow> TapDone TapIgnored w
      | (Some c, res) \<Rightarrow>
          if res = LookupNotFound \<or> res = LookupNotPending then TapDone TapIgnored w
          else (case write_spec C (cf_tool c) of
                  None \<Rightarrow> close_tap C (\<lambda>now ok. deny_conf now ok (cf_id c) DenyUnknownTool) (\<lambda>w1. w1)
                            (reply denied_text) w
                | Some spec \<Rightarrow>
                    let account = (if tap_account tap = [] then session_account C (cf_session c) x
                                   else tap_account tap) in
                    if res = LookupExpired
                    then close_tap C (\<lambda>now ok. expire now ok (cf_id c)) (\<lambda>w1. w1) (reply (expired_text spec)) w
                    else if res = LookupTampered
                    then close_tap C (\<lambda>now ok. deny_conf now ok (cf_id c) ''tampered'')
                           (record_denial C c account ''tampered'') (reply denied_text) w
                    else if tap_decline tap
                    then close_tap C (\<lambda>now ok. decline now ok (cf_id c)) (\<lambda>w1. w1) (reply (declined_text spec)) w
                    else let reason = reauthorize C c spec account x in
                      if reason \<noteq> []
                      then close_tap C (\<lambda>now ok. deny_conf now ok (cf_id c) reason)
                             (record_denial C c account reason) (reply denied_text) w
                      else check_transfers C c spec account w))"

definition handle_tap :: "'x confirmer \<Rightarrow> tap \<Rightarrow> 'x cworld \<Rightarrow> tap_result \<times> 'x cworld" where
  "handle_tap C tap w0 =
     (case check_tap C tap w0 of
        TapDone r w \<Rightarrow> (r, w)
      | TapReady c spec account w \<Rightarrow>
          (case statement C (\<lambda>now ok. confirm now ok (cf_id c) (tap_contact tap) (tap_wamid tap)) w of
             (won, failed, w1) \<Rightarrow>
               if failed \<or> \<not> won then (TapIgnored, w1)
               else let w2 = co_others C w1 in
                 (case get_conf (co_ok C (cw_ext w2)) (cf_id c) (cw_table w2) of
                    None \<Rightarrow> (TapIgnored, w2)
                  | Some confirmed \<Rightarrow> execute_confirmed C confirmed spec account w2)))"

section \<open>The reconciler\<close>

definition fin_status :: "conf_status \<Rightarrow> finish_input" where
  "fin_status s = \<lparr>fi_status = s, fi_outcome = [], fi_transfer = None, fi_error_kind = [], fi_denial = [],
     fi_execution_call = None\<rparr>"

definition notify ::
  "'x confirmer \<Rightarrow> conf \<Rightarrow> string \<Rightarrow> string \<Rightarrow> bool \<Rightarrow> 'x cworld \<Rightarrow> 'x cworld" where
  "notify C c account text outside w =
     (case co_notify C of
        None \<Rightarrow> w
      | Some f \<Rightarrow>
          if text \<noteq> [] \<or> outside
          then w\<lparr>cw_ext := f \<lparr>nf_org = cf_org c, nf_contact = cf_contact c, nf_account = account, nf_text = text,
                              nf_outside = outside\<rparr> (cw_ext w)\<rparr>
          else w)"

definition reconcile_one :: "'x confirmer \<Rightarrow> uuid \<Rightarrow> 'x cworld \<Rightarrow> 'x cworld" where
  "reconcile_one C i w0 =
     (let w = co_others C w0; x = cw_ext w in
      case get_conf (co_ok C x) i (cw_table w) of
        None \<Rightarrow> w
      | Some c \<Rightarrow>
          (case cf_confirmed_at c of
             None \<Rightarrow> w
           | Some instant \<Rightarrow>
               if cf_status c \<noteq> Confirmed then w
               else let account = session_account C (cf_session c) x;
                        fin = (\<lambda>f. statement C (\<lambda>now ok. finish now ok (cf_id c) f) w) in
                 (case write_spec C (cf_tool c) of
                    None \<Rightarrow> snd (snd (fin ((fin_status Denied)\<lparr>fi_denial := DenyUnknownTool\<rparr>)))
                  | Some spec \<Rightarrow>
                      if co_now C x - instant > pr_ttl (st_params (co_store C))
                      then snd (snd (fin ((fin_status Failed)\<lparr>fi_error_kind := ''reconcile_stale''\<rparr>)))
                      else let reason = reauthorize C c spec account x in
                        if reason \<noteq> []
                        then (case fin ((fin_status Denied)\<lparr>fi_denial := reason\<rparr>) of
                                (won, _, w1) \<Rightarrow>
                                  if won then notify C c account denied_text False (record_denial C c account reason w1)
                                  else w1)
                        else (case (case co_transfers C of
                                      None \<Rightarrow> None
                                    | Some ts \<Rightarrow> ts_find_ai ts (cf_org c) (cf_contact c) instant x) of
                                Some tid \<Rightarrow>
                                  (case fin ((fin_status Executed)\<lparr>fi_outcome := OutcomeCreated, fi_transfer := Some tid\<rparr>) of
                                     (won, _, w1) \<Rightarrow>
                                       if won then notify C c account (outcome_text spec OutcomeCreated) False w1 else w1)
                              | None \<Rightarrow>
                                  (case execute_confirmed C c spec account w of
                                     (TapReply text outside, w1) \<Rightarrow> notify C c account text outside w1
                                   | (TapIgnored, w1) \<Rightarrow> w1)))))"

text \<open>The two sweeps of \<open>Reconcile\<close>: the rows out of attempts, then the stuck ones.\<close>

fun fail_exhausted :: "'x confirmer \<Rightarrow> conf list \<Rightarrow> 'x cworld \<Rightarrow> 'x cworld" where
  "fail_exhausted C [] w = w"
| "fail_exhausted C (c # cs) w =
     fail_exhausted C cs (snd (snd (statement C
       (\<lambda>now ok. finish now ok (cf_id c) ((fin_status Failed)\<lparr>fi_error_kind := ''reconcile_exhausted''\<rparr>)) w)))"

fun work_stuck :: "'x confirmer \<Rightarrow> conf list \<Rightarrow> 'x cworld \<Rightarrow> nat \<times> 'x cworld" where
  "work_stuck C [] w = (0, w)"
| "work_stuck C (c # cs) w =
     (case statement C (\<lambda>now ok. claim_reconcile now ok (cf_id c) (co_min_age C)) w of
        (won, failed, w1) \<Rightarrow>
          if failed \<or> \<not> won then work_stuck C cs w1
          else (case work_stuck C cs (reconcile_one C (cf_id c) w1) of (n, w2) \<Rightarrow> (n + 1, w2)))"

definition reconcile :: "'x confirmer \<Rightarrow> 'x cworld \<Rightarrow> nat \<times> 'x cworld" where
  "reconcile C w0 =
     (let w = co_others C w0;
          w1 = (if co_ok C (cw_ext w)
                then fail_exhausted C (exhausted_confirmed (co_now C (cw_ext w)) (co_min_age C) (co_max_attempts C) 50
                       (cw_table w)) w
                else w);
          w2 = co_others C w1
      in if co_ok C (cw_ext w2)
         then work_stuck C (stuck_confirmed (co_now C (cw_ext w2)) (co_min_age C) (co_max_attempts C) 50
                (cw_table w2)) w2
         else (0, w2))"

section \<open>Taps under interference\<close>

text \<open>The row a tap confirms: the identifier whose compare-and-set this very tap wins, if any.\<close>

definition tap_confirmed :: "'x confirmer \<Rightarrow> tap \<Rightarrow> 'x cworld \<Rightarrow> uuid option" where
  "tap_confirmed C tap w =
     (case check_tap C tap w of
        TapDone r w1 \<Rightarrow> None
      | TapReady c spec account w1 \<Rightarrow>
          (case statement C (\<lambda>now ok. confirm now ok (cf_id c) (tap_contact tap) (tap_wamid tap)) w1 of
             (won, failed, w2) \<Rightarrow> if failed \<or> \<not> won then None else Some (cf_id c)))"

fun tap_wins :: "'x confirmer \<Rightarrow> uuid \<Rightarrow> tap list \<Rightarrow> 'x cworld \<Rightarrow> nat" where
  "tap_wins C i [] w = 0"
| "tap_wins C i (t # ts) w =
     (if tap_confirmed C t w = Some i then 1 else 0) + tap_wins C i ts (snd (handle_tap C t w))"

text \<open>
  A property of the table that no store operation destroys, neither this process's nor the others'.
\<close>

locale tap_race =
  fixes C :: "'x confirmer" and T :: "table \<Rightarrow> bool"
  assumes rows_keep: "T t \<Longrightarrow> list_all2 row_step t t' \<Longrightarrow> T t'"
    and others_keep: "T (cw_table w) \<Longrightarrow> T (cw_table (co_others C w))"
begin

lemma statement_keeps:
  assumes "statement C f w = (won, failed, w')" "T (cw_table w)"
    and "\<And>now ok t a b t'. f now ok t = (a, b, t') \<Longrightarrow> list_all2 row_step t t'"
  shows "T (cw_table w')"
proof -
  let ?w1 = "co_others C w"
  obtain a b t' where f: "f (co_now C (cw_ext ?w1)) (co_ok C (cw_ext ?w1)) (cw_table ?w1) = (a, b, t')"
    by (metis prod_cases3)
  have "T t'" using rows_keep [OF others_keep [OF assms(2)] assms(3) [OF f]] .
  then show ?thesis using assms(1) f by (auto simp: statement_def Let_def)
qed

lemma close_keeps:
  assumes "close_tap C f after r w = TapDone r' w'" "T (cw_table w)"
    and "\<And>now ok t a b t'. f now ok t = (a, b, t') \<Longrightarrow> list_all2 row_step t t'"
    and "\<And>v. cw_table (after v) = cw_table v"
  shows "T (cw_table w')"
proof -
  obtain a b w1 where s: "statement C f w = (a, b, w1)" by (metis prod_cases3)
  have "T (cw_table w1)" by (rule statement_keeps [OF s assms(2,3)])
  then show ?thesis using assms(1,4) s by (auto simp: close_tap_def split: if_splits)
qed

end

lemma record_denial_table [simp]: "cw_table (record_denial C c account reason w) = cw_table w"
  by (simp add: record_denial_def on_cext_def case_prod_beta)

lemma on_cext_table [simp]: "cw_table (snd (on_cext f w)) = cw_table w"
  by (simp add: on_cext_def case_prod_beta)

lemma close_not_ready: "close_tap C f after r w \<noteq> TapReady c spec account w'"
  by (simp add: close_tap_def case_prod_beta)

lemma check_transfers_ready:
  "check_transfers C c' spec' account' w' = TapReady c spec account w \<Longrightarrow>
   c' = c \<and> spec' = spec \<and> account' = account \<and> w' = w"
  by (auto simp: check_transfers_def close_not_ready split: option.splits if_splits)

text \<open>What a tap that is ready to be confirmed has passed.\<close>

lemma check_tap_ready:
  assumes "check_tap C tap w0 = TapReady c spec account w"
  shows "w = co_others C w0
    \<and> lookup_conf (co_store C) (\<lambda>s o1 c1. co_sessions C s o1 c1 (cw_ext w)) (tap_token tap) (tap_org tap)
        (tap_contact tap) (tap_session tap) (co_now C (cw_ext w)) (co_ok C (cw_ext w)) (cw_table w) = (Some c, LookupOK)
    \<and> write_spec C (cf_tool c) = Some spec \<and> \<not> tap_decline tap \<and> reauthorize C c spec account (cw_ext w) = []"
proof -
  obtain x res where l: "lookup_conf (co_store C) (\<lambda>s o1 c1. co_sessions C s o1 c1 (cw_ext (co_others C w0)))
      (tap_token tap) (tap_org tap) (tap_contact tap) (tap_session tap) (co_now C (cw_ext (co_others C w0)))
      (co_ok C (cw_ext (co_others C w0))) (cw_table (co_others C w0)) = (x, res)"
    by (metis surj_pair)
  obtain k where x: "x = Some k" and res: "res \<notin> {LookupNotFound, LookupNotPending}"
    using assms l by (cases x) (auto simp: check_tap_def Let_def split: if_splits)
  obtain s where s: "write_spec C (cf_tool k) = Some s"
    using assms l x res by (cases "write_spec C (cf_tool k)") (auto simp: check_tap_def Let_def close_not_ready)
  have "res = LookupOK"
    using assms l x res s by (cases res) (auto simp: check_tap_def Let_def close_not_ready split: if_splits)
  then show ?thesis
    using assms l x s
    by (auto simp: check_tap_def Let_def close_not_ready split: if_splits dest!: check_transfers_ready)
qed

context tap_race
begin

lemma transfers_keep:
  assumes "check_transfers C c spec account w = TapDone r w'" "T (cw_table w)"
  shows "T (cw_table w')"
  using assms close_keeps [OF _ assms(2), where after = "\<lambda>w1. w1"] op_rows(4)
  by (auto simp: check_transfers_def split: option.splits if_splits)

lemma check_keeps:
  assumes "check_tap C tap w0 = TapDone r w'" "T (cw_table w0)"
  shows "T (cw_table w')"
proof -
  let ?w = "co_others C w0"
  have w: "T (cw_table ?w)" by (rule others_keep) fact
  note close = close_keeps [OF _ w]
  obtain x res where l: "lookup_conf (co_store C) (\<lambda>s o1 c1. co_sessions C s o1 c1 (cw_ext ?w))
      (tap_token tap) (tap_org tap) (tap_contact tap) (tap_session tap) (co_now C (cw_ext ?w))
      (co_ok C (cw_ext ?w)) (cw_table ?w) = (x, res)"
    by (metis surj_pair)
  show ?thesis
  proof (cases "x = None \<or> res = LookupNotFound \<or> res = LookupNotPending")
    case True
    then show ?thesis using assms(1) l w by (cases x) (auto simp: check_tap_def Let_def)
  next
    case False
    then obtain k where x: "x = Some k" by (cases x) auto
    show ?thesis
    proof (cases "write_spec C (cf_tool k)")
      case None
      then have "close_tap C (\<lambda>now ok. deny_conf now ok (cf_id k) DenyUnknownTool) (\<lambda>w1. w1) (reply denied_text) ?w
          = TapDone r w'"
        using assms(1) l x False by (simp add: check_tap_def Let_def)
      then show ?thesis by (rule close) (auto dest: op_rows(3))
    next
      case (Some s)
      show ?thesis
        using assms(1) l x False Some
        by (auto simp: check_tap_def Let_def split: if_splits
            elim!: close transfers_keep [OF _ w] dest: op_rows(1,2,3))
    qed
  qed
qed

lemma execute_keeps: "T (cw_table w) \<Longrightarrow> T (cw_table (snd (execute_confirmed C c spec account w)))"
proof -
  assume T: "T (cw_table w)"
  obtain q w1 where r: "on_cext (au_requested (co_auditor C) (conf_attempt c account)) w = (q, w1)"
    by (metis surj_pair)
  obtain x w2 where x: "on_cext (run_write C c spec account) w1 = (x, w2)" by (metis surj_pair)
  have t2: "cw_table w1 = cw_table w" "cw_table w2 = cw_table w"
    using r x on_cext_table by (metis snd_conv)+
  show ?thesis
  proof (cases q)
    case None
    then show ?thesis using r t2 T by (simp add: execute_confirmed_def)
  next
    case (Some call)
    obtain a b w3 where s: "statement C (\<lambda>now ok. finish now ok (cf_id c) (finish_of x call)) w2 = (a, b, w3)"
      by (metis prod_cases3)
    have "T (cw_table w3)"
      by (rule statement_keeps [OF s]) (use T t2 finish_rows in auto)
    then show ?thesis using r x Some s by (auto simp: execute_confirmed_def split: bool.splits)
  qed
qed

lemma handle_keeps: "T (cw_table w) \<Longrightarrow> T (cw_table (snd (handle_tap C tap w)))"
proof -
  assume T: "T (cw_table w)"
  show ?thesis
  proof (cases "check_tap C tap w")
    case (TapDone r w1)
    then show ?thesis using check_keeps [OF TapDone T] by (simp add: handle_tap_def)
  next
    case (TapReady c spec account w1)
    have w1: "T (cw_table w1)" using check_tap_ready [OF TapReady] others_keep [OF T] by simp
    obtain a b w2 where s: "statement C (\<lambda>now ok. confirm now ok (cf_id c) (tap_contact tap) (tap_wamid tap)) w1 = (a, b, w2)"
      by (metis prod_cases3)
    have w2: "T (cw_table w2)" by (rule statement_keeps [OF s w1]) (rule op_rows(5))
    then show ?thesis
      using TapReady s execute_keeps others_keep [OF w2] by (auto simp: handle_tap_def Let_def split: option.splits)
  qed
qed

end

section \<open>The other processes of the application\<close>

text \<open>
  What the others may do between two statements: any sequence of store operations, chosen by the
  state of the world, while the world itself moves on.
\<close>

definition with_others ::
  "'x confirmer \<Rightarrow> ('x \<Rightarrow> 'x) \<Rightarrow> ('x \<Rightarrow> store_op list) \<Rightarrow> 'x confirmer" where
  "with_others C evolve ops =
     C\<lparr>co_others := (\<lambda>w. \<lparr>cw_ext = evolve (cw_ext w),
        cw_table = snd (snd (run_ops (co_store C) (ops (cw_ext w)) (co_now C (cw_ext w), cw_table w)))\<rparr>)\<rparr>"

lemma run_ops_keep:
  assumes "\<And>x now t won now' t'. T t \<Longrightarrow> exec_op st x (now, t) = (won, now', t') \<Longrightarrow> T t'"
  shows "T t \<Longrightarrow> T (snd (snd (run_ops st xs (now, t))))"
proof (induction xs arbitrary: now t)
  case (Cons x xs)
  obtain won now' t' where e: "exec_op st x (now, t) = (won, now', t')" by (metis prod_cases3)
  then show ?case using Cons.IH [OF assms [OF Cons.prems e]] by (simp add: case_prod_beta)
qed simp

interpretation spent_race: tap_race "with_others C evolve ops" "spent i"
proof unfold_locales
  fix t t' assume "spent i t" "list_all2 row_step t t'"
  then show "spent i t'" by (rule spent_rows)
next
  fix w :: "'a cworld" assume "spent i (cw_table w)"
  then show "spent i (cw_table (co_others (with_others C evolve ops) w))"
    unfolding with_others_def by simp (rule run_ops_keep [where T = "spent i"], rule spent_stays)
qed

lemma rows_wf_stay:
  assumes "\<forall>c \<in> set t. row_wf c" "exec_op st x (now, t) = (won, now', t')"
  shows "\<forall>c \<in> set t'. row_wf c"
proof -
  have rows: "\<forall>c \<in> set t'. row_wf c" if "list_all2 row_step t t'" "\<forall>c \<in> set t. row_wf c" for t t'
    by (rule list_all2_all [OF that(1)]) (use that(2) row_stepD(6) in auto)
  from exec_op_shape [OF assms(2)] show ?thesis
    using rows [OF _ assms(1)] rows [OF supersede_rows assms(1)] by (auto simp: added_def)
qed

interpretation wf_race: tap_race "with_others C evolve ops" "\<lambda>t. \<forall>c \<in> set t. row_wf c"
proof unfold_locales
  fix t t' assume "\<forall>c \<in> set t. row_wf c" "list_all2 row_step t t'"
  then show "\<forall>c \<in> set t'. row_wf c" using list_all2_all [of row_step t t' row_wf] row_stepD(6) by blast
next
  fix w :: "'a cworld" assume "\<forall>c \<in> set (cw_table w). row_wf c"
  then show "\<forall>c \<in> set (cw_table (co_others (with_others C evolve ops) w)). row_wf c"
    unfolding with_others_def
    by simp (rule run_ops_keep [where T = "\<lambda>t. \<forall>c \<in> set t. row_wf c"], rule rows_wf_stay)
qed

subsection \<open>Double taps\<close>

lemma statement_confirm:
  assumes "statement C (\<lambda>now ok. confirm now ok i k m) w = (True, False, w')"
  shows "spent i (cw_table w') \<and> \<not> spent i (cw_table (co_others C w))"
proof -
  let ?w1 = "co_others C w"
  obtain t' e where c: "confirm (co_now C (cw_ext ?w1)) (co_ok C (cw_ext ?w1)) i k m (cw_table ?w1) = (True, e, t')"
    and w': "w' = ?w1\<lparr>cw_table := t'\<rparr>"
    using assms by (auto simp: statement_def Let_def split: prod.splits)
  have x: "exec_op st (OpConfirm i k m (co_ok C (cw_ext ?w1))) (co_now C (cw_ext ?w1), cw_table ?w1) =
      (True, co_now C (cw_ext ?w1), t')" for st
    by (simp add: keep_time_def c)
  have "spent i t'" by (rule confirm_spends [OF _ x]) simp
  moreover have "\<not> spent i (cw_table ?w1)" using spent_no_confirm [OF _ _ x] by auto
  ultimately show ?thesis by (simp add: w')
qed

lemma tap_confirmed_SomeE:
  assumes "tap_confirmed C tap w = Some i"
  obtains c spec account w2 where "check_tap C tap w = TapReady c spec account (co_others C w)" "cf_id c = i"
    "statement C (\<lambda>now ok. confirm now ok i (tap_contact tap) (tap_wamid tap)) (co_others C w) = (True, False, w2)"
proof -
  obtain c spec account w1 where ready: "check_tap C tap w = TapReady c spec account w1"
    using assms by (cases "check_tap C tap w") (auto simp: tap_confirmed_def)
  moreover have "w1 = co_others C w" using check_tap_ready [OF ready] by simp
  ultimately show ?thesis
    using assms that by (auto simp: tap_confirmed_def split: prod.splits if_splits)
qed

lemma spent_not_confirmed:
  assumes "spent i (cw_table w)"
  shows "tap_confirmed (with_others C evolve ops) tap w \<noteq> Some i"
proof
  assume "tap_confirmed (with_others C evolve ops) tap w = Some i"
  then obtain w2 where
    "statement (with_others C evolve ops) (\<lambda>now ok. confirm now ok i (tap_contact tap) (tap_wamid tap))
       (co_others (with_others C evolve ops) w) = (True, False, w2)"
    by (rule tap_confirmed_SomeE)
  then show False
    using statement_confirm spent_race.others_keep [OF spent_race.others_keep [OF assms]] by blast
qed

lemma confirmed_spends:
  assumes "tap_confirmed (with_others C evolve ops) tap w = Some i"
  shows "spent i (cw_table (snd (handle_tap (with_others C evolve ops) tap w)))"
proof -
  let ?C = "with_others C evolve ops"
  obtain c spec account w2 where ready: "check_tap ?C tap w = TapReady c spec account (co_others ?C w)" "cf_id c = i"
    and s: "statement ?C (\<lambda>now ok. confirm now ok i (tap_contact tap) (tap_wamid tap)) (co_others ?C w) = (True, False, w2)"
    using assms by (rule tap_confirmed_SomeE)
  have w2: "spent i (cw_table (co_others ?C w2))"
    using statement_confirm [OF s] spent_race.others_keep by blast
  then show ?thesis
    using ready s spent_race.execute_keeps [OF w2]
    by (auto simp: handle_tap_def Let_def split: option.splits)
qed

lemma spent_tap_wins: "spent i (cw_table w) \<Longrightarrow> tap_wins (with_others C evolve ops) i taps w = 0"
proof (induction taps arbitrary: w)
  case (Cons t ts)
  then show ?case using spent_not_confirmed [OF Cons.prems] spent_race.handle_keeps [OF Cons.prems] by simp
qed simp

text \<open>C8 (safety).
  A customer who taps twice is served once: over any sequence of taps, with any buttons, and whatever
  store operations other processes (other taps, sweeps of the reconciler, new proposals) slip in
  between any two statements, at most one tap confirms a given request.\<close>

theorem taps_confirm_at_most_once: "tap_wins (with_others C evolve ops) i taps w \<le> 1"
proof (induction taps arbitrary: w)
  case (Cons t ts)
  show ?case
    using Cons.IH confirmed_spends [of C evolve ops t w i] spent_tap_wins
    by (cases "tap_confirmed (with_others C evolve ops) t w = Some i") simp_all
qed simp

section \<open>What a tap and a sweep execute\<close>

text \<open>The confirmer on a world that also records what it asks of the auditor and of the write tools.\<close>

definition watch_transfers :: "'x transfers \<Rightarrow> 'x logged transfers" where
  "watch_transfers T =
     \<lparr>ts_has_active = (\<lambda>o1 c w. ts_has_active T o1 c (fst w)),
      ts_within_hours = (\<lambda>o1 a w. ts_within_hours T o1 a (fst w)),
      ts_find_ai = (\<lambda>o1 c t w. ts_find_ai T o1 c t (fst w))\<rparr>"

definition watch_others :: "('x cworld \<Rightarrow> 'x cworld) \<Rightarrow> 'x logged cworld \<Rightarrow> 'x logged cworld" where
  "watch_others f w =
     (let v = f \<lparr>cw_ext = fst (cw_ext w), cw_table = cw_table w\<rparr>
      in \<lparr>cw_ext = (cw_ext v, snd (cw_ext w)), cw_table = cw_table v\<rparr>)"

definition watch_confirmer :: "'x confirmer \<Rightarrow> 'x logged confirmer" where
  "watch_confirmer C =
     \<lparr>co_store = co_store C, co_catalog = watch_catalog (co_catalog C),
      co_enabled = (\<lambda>o1 w. co_enabled C o1 (fst w)), co_auditor = watch_auditor (co_auditor C),
      co_transfers = map_option watch_transfers (co_transfers C),
      co_global = (\<lambda>w. co_global C (fst w)), co_write = (\<lambda>w. co_write C (fst w)),
      co_provider = (\<lambda>o1 w. co_provider C o1 (fst w)), co_chatbot = (\<lambda>o1 a w. co_chatbot C o1 a (fst w)),
      co_notify = map_option (\<lambda>f n w. (f n (fst w), snd w)) (co_notify C),
      co_min_age = co_min_age C, co_max_attempts = co_max_attempts C,
      co_sessions = (\<lambda>s o1 c w. co_sessions C s o1 c (fst w)),
      co_session_account = (\<lambda>s w. co_session_account C s (fst w)),
      co_now = (\<lambda>w. co_now C (fst w)), co_ok = (\<lambda>w. co_ok C (fst w)),
      co_others = watch_others (co_others C)\<rparr>"

abbreviation clog :: "'x logged cworld \<Rightarrow> gov_event list" where
  "clog w \<equiv> snd (cw_ext w)"

fun is_execution :: "gov_event \<Rightarrow> bool" where
  "is_execution (GExecuted n args) = True"
| "is_execution _ = False"

text \<open>\<open>idle w w'\<close>: no write tool was executed between the two worlds.\<close>

definition idle :: "'x logged cworld \<Rightarrow> 'x logged cworld \<Rightarrow> bool" where
  "idle w w' \<longleftrightarrow> filter is_execution (clog w') = filter is_execution (clog w)"

lemma idle_refl [simp]: "idle w w"
  by (simp add: idle_def)

lemma idle_trans: "idle w w1 \<Longrightarrow> idle w1 w2 \<Longrightarrow> idle w w2"
  by (simp add: idle_def)

lemma others_log [simp]: "clog (co_others (watch_confirmer C) w) = clog w"
  by (simp add: watch_confirmer_def watch_others_def Let_def)

lemma statement_log: "statement (watch_confirmer C) f w = (a, b, w') \<Longrightarrow> clog w' = clog w"
  by (auto simp: statement_def Let_def split: prod.splits)

lemma on_cext_log: "on_cext (logged ev f) w = (q, w') \<Longrightarrow> clog w' = clog w @ [ev q]"
  by (auto simp: on_cext_def logged_def Let_def split: prod.splits)

lemma record_denial_log:
  "clog (record_denial (watch_confirmer C) c account reason w) = clog w @ [GDenied (conf_attempt c account) reason]"
  by (simp add: record_denial_def watch_confirmer_def watch_auditor_def on_cext_def logged_def Let_def
      case_prod_beta)

lemma record_denial_idle: "idle w (record_denial (watch_confirmer C) c account reason w)"
  by (simp add: idle_def record_denial_log)

lemma close_idle:
  assumes "close_tap (watch_confirmer C) f after r w = TapDone r' w'" "\<And>v. idle v (after v)"
  shows "idle w w'"
proof -
  obtain a b w1 where s: "statement (watch_confirmer C) f w = (a, b, w1)" by (metis prod_cases3)
  have "idle w w1" using statement_log [OF s] by (simp add: idle_def)
  then show ?thesis using assms s idle_trans by (auto simp: close_tap_def split: if_splits)
qed

lemma transfers_idle: "check_transfers (watch_confirmer C) c spec account w = TapDone r w' \<Longrightarrow> idle w w'"
  by (auto simp: check_transfers_def split: option.splits if_splits elim: close_idle)

lemma check_idle:
  assumes "check_tap (watch_confirmer C) tap w0 = TapDone r w'"
  shows "idle w0 w'"
proof -
  let ?C = "watch_confirmer C" and ?w = "co_others (watch_confirmer C) w0"
  have w: "idle w0 ?w" by (simp add: idle_def)
  obtain x res where l: "lookup_conf (co_store ?C) (\<lambda>s o1 c1. co_sessions ?C s o1 c1 (cw_ext ?w))
      (tap_token tap) (tap_org tap) (tap_contact tap) (tap_session tap) (co_now ?C (cw_ext ?w))
      (co_ok ?C (cw_ext ?w)) (cw_table ?w) = (x, res)"
    by (metis surj_pair)
  show ?thesis
  proof (cases "x = None \<or> res = LookupNotFound \<or> res = LookupNotPending")
    case True
    then show ?thesis using assms l w by (cases x) (auto simp: check_tap_def Let_def)
  next
    case False
    then obtain k where x: "x = Some k" by (cases x) auto
    have "idle ?w w'"
    proof (cases "write_spec ?C (cf_tool k)")
      case None
      then show ?thesis using assms l x False by (auto simp: check_tap_def Let_def elim: close_idle)
    next
      case (Some s)
      then show ?thesis
        using assms l x False
        by (auto simp: check_tap_def Let_def split: if_splits
            elim!: close_idle transfers_idle intro: record_denial_idle)
    qed
    then show ?thesis using w idle_trans by blast
  qed
qed

text \<open>The specification a confirmed action runs with is a watched one, under the name of its tool.\<close>

lemma watch_confirmer_simps [simp]:
  "co_auditor (watch_confirmer C) = watch_auditor (co_auditor C)"
  "co_catalog (watch_confirmer C) = watch_catalog (co_catalog C)"
  "co_now (watch_confirmer C) w = co_now C (fst w)"
  by (simp_all add: watch_confirmer_def)

lemma write_spec_watch:
  "write_spec (watch_confirmer C) name = map_option watch_spec (write_spec C name)"
  by (auto simp: write_spec_def split: option.splits)

lemma write_spec_name: "write_spec C name = Some spec \<Longrightarrow> ts_name spec = name"
  by (auto simp: write_spec_def dest: catalog_get_Some split: option.splits if_splits)

lemma run_write_log:
  assumes "on_cext (run_write (watch_confirmer C) c (watch_spec spec) account) w = (r, w')"
  shows "clog w' = clog w \<or> clog w' = clog w @ [GExecuted (ts_name spec) (cf_args c)]"
proof -
  obtain x l where x: "cw_ext w = (x, l)" by (metis surj_pair)
  show ?thesis
    using assms
    by (auto simp: on_cext_def x run_write_def watch_write_built_WBuilt
        split: option.splits write_built.splits prod.splits write_out.splits)
qed

lemma execute_confirmed_log:
  assumes "execute_confirmed (watch_confirmer C) c (watch_spec spec) account w = (r, w')"
    and "\<not> idle w w'"
  shows "\<exists>i fin. clog w' = clog w @ [GRequested (conf_attempt c account) (Some i), GExecuted (ts_name spec) (cf_args c)] @ fin
    \<and> (fin = [] \<or> (\<exists>out. fin = [GFinished i out]))"
proof -
  let ?C = "watch_confirmer C" and ?a = "conf_attempt c account"
  obtain q w1 where q: "on_cext (logged (GRequested ?a) (au_requested (co_auditor C) ?a)) w = (q, w1)"
    by (metis surj_pair)
  obtain x w2 where x: "on_cext (run_write ?C c (watch_spec spec) account) w1 = (x, w2)" by (metis surj_pair)
  have w1: "clog w1 = clog w @ [GRequested ?a q]" by (rule on_cext_log [OF q])
  show ?thesis
  proof (cases q)
    case None
    then show ?thesis
      using assms q w1 by (simp add: execute_confirmed_def watch_auditor_def idle_def)
  next
    case (Some i)
    obtain a b w3 where s: "statement ?C (\<lambda>now ok. finish now ok (cf_id c) (finish_of x i)) w2 = (a, b, w3)"
      by (metis prod_cases3)
    let ?out = "write_outcome x (co_now C (fst (cw_ext w2)) - co_now C (fst (cw_ext w1)))"
    obtain e w4 where f: "on_cext (logged (\<lambda>_. GFinished i ?out) (au_finish (co_auditor C) i ?out)) w3 = (e, w4)"
      by (metis surj_pair)
    have w': "w' = (if b then w3 else w4)"
      using assms(1) q x Some s f by (cases b) (simp_all add: execute_confirmed_def watch_auditor_def)
    have "clog w' = clog w2 \<or> clog w' = clog w2 @ [GFinished i ?out]"
      using w' statement_log [OF s] on_cext_log [OF f] by simp
    then show ?thesis
      using run_write_log [OF x] w1 Some assms(2) by (auto simp: idle_def)
  qed
qed


lemma notify_log [simp]: "clog (notify (watch_confirmer C) c account text outside w) = clog w"
  by (auto simp: notify_def watch_confirmer_def split: option.splits)

lemma statement_idle [simp]: "idle w (snd (snd (statement (watch_confirmer C) f w)))"
  using statement_log [of C f w] by (cases "statement (watch_confirmer C) f w") (simp add: idle_def)

lemma closed_idle:
  assumes "\<And>v. clog (g v) = clog v \<or> (\<exists>a1 r. clog (g v) = clog v @ [GDenied a1 r])"
  shows "idle w (case statement (watch_confirmer C) f w of
      (won, b, w1) \<Rightarrow> if won then notify (watch_confirmer C) c a t o1 (g w1) else w1)"
proof -
  obtain won b w1 where s: "statement (watch_confirmer C) f w = (won, b, w1)" by (metis prod_cases3)
  show ?thesis using assms [of w1] s statement_log [OF s] by (auto simp: idle_def)
qed

text \<open>C10 (safety).
  The reconciler never widens what the customer authorized: if it executes a write tool for a row,
  the row is confirmed, its confirmation is not older than the validity of a confirmation, the whole
  re-authorization passes now, and no transfer of that request exists yet; it executes once, with the
  row's own arguments, right after the request was written to the audit.\<close>

theorem reconcile_executes_only_fresh:
  assumes "w' = reconcile_one (watch_confirmer C) i w"
    and "clog w = []" "GExecuted n args \<in> set (clog w')"
  shows "\<exists>c spec account instant k fin. let x = cw_ext (co_others (watch_confirmer C) w) in
    c \<in> set (cw_table (co_others (watch_confirmer C) w)) \<and> cf_id c = i \<and> cf_status c = Confirmed
    \<and> cf_confirmed_at c = Some instant \<and> co_now (watch_confirmer C) x - instant \<le> pr_ttl (st_params (co_store C))
    \<and> write_spec C (cf_tool c) = Some spec
    \<and> reauthorize (watch_confirmer C) c (watch_spec spec) account x = []
    \<and> (\<forall>ts. co_transfers C = Some ts \<longrightarrow> ts_find_ai ts (cf_org c) (cf_contact c) instant (fst x) = None)
    \<and> n = cf_tool c \<and> args = cf_args c
    \<and> clog w' = [GRequested (conf_attempt c account) (Some k), GExecuted n args] @ fin
    \<and> (fin = [] \<or> (\<exists>out. fin = [GFinished k out]))"
proof -
  let ?C = "watch_confirmer C"
  let ?w = "co_others ?C w"
  let ?x = "cw_ext ?w"
  have busy: "\<not> idle ?w w'"
    using assms(2,3) by (auto simp: idle_def filter_empty_conv intro!: bexI [of _ "GExecuted n args"])
  obtain c where c: "get_conf (co_ok ?C ?x) i (cw_table ?w) = Some c"
    using busy assms(1) by (cases "get_conf (co_ok ?C ?x) i (cw_table ?w)") (auto simp: reconcile_one_def Let_def)
  then have row: "c \<in> set (cw_table ?w)" "cf_id c = i"
    by (auto simp: get_conf_def find_Some_iff split: if_splits)
  obtain instant where at: "cf_confirmed_at c = Some instant" and st: "cf_status c = Confirmed"
    using busy assms(1) c by (cases "cf_confirmed_at c") (auto simp: reconcile_one_def Let_def split: if_splits)
  let ?account = "session_account ?C (cf_session c) ?x"
  obtain spec where spec: "write_spec C (cf_tool c) = Some spec"
    using busy assms(1) c at st by (cases "write_spec C (cf_tool c)")
      (auto simp: reconcile_one_def Let_def write_spec_watch)
  have fresh: "\<not> co_now ?C ?x - instant > pr_ttl (st_params (co_store ?C))"
    using busy assms(1) c at st spec by (auto simp: reconcile_one_def Let_def write_spec_watch)
  have reauth: "reauthorize ?C c (watch_spec spec) ?account ?x = []"
  proof (rule ccontr)
    assume no: "reauthorize ?C c (watch_spec spec) ?account ?x \<noteq> []"
    have "idle ?w w'"
      unfolding assms(1)
      using closed_idle [of "record_denial ?C c ?account (reauthorize ?C c (watch_spec spec) ?account ?x)"]
        c at st spec fresh no record_denial_log [of C c ?account]
      by (simp add: reconcile_one_def Let_def write_spec_watch)
    then show False using busy by blast
  qed
  let ?found = "case co_transfers ?C of None \<Rightarrow> None | Some ts \<Rightarrow> ts_find_ai ts (cf_org c) (cf_contact c) instant ?x"
  have none: "?found = None"
  proof (rule ccontr)
    assume "?found \<noteq> None"
    then obtain tid where "?found = Some tid" by blast
    then have "idle ?w w'"
      unfolding assms(1) using closed_idle [of "\<lambda>v. v"] c at st spec fresh reauth
      by (simp add: reconcile_one_def Let_def write_spec_watch)
    then show False using busy by blast
  qed
  obtain r w1 where exec: "execute_confirmed ?C c (watch_spec spec) ?account ?w = (r, w1)" by (metis surj_pair)
  have w': "clog w' = clog w1"
    using assms(1) c at st spec fresh reauth none exec
    by (cases r) (simp_all add: reconcile_one_def Let_def write_spec_watch)
  have "\<not> idle ?w w1" using busy w' by (simp add: idle_def)
  from execute_confirmed_log [OF exec this] w' assms(2) obtain k f where
    log: "clog w' = [GRequested (conf_attempt c ?account) (Some k), GExecuted (ts_name spec) (cf_args c)] @ f"
    and f: "f = [] \<or> (\<exists>out. f = [GFinished k out])"
    by auto
  have n: "n = cf_tool c" "args = cf_args c"
    using assms(3) log f write_spec_name [OF spec] by auto
  have find: "ts_find_ai ts (cf_org c) (cf_contact c) instant (fst ?x) = None" if "co_transfers C = Some ts" for ts
    using none that by (simp add: watch_confirmer_def watch_transfers_def)
  show ?thesis
    unfolding Let_def
    using row at st fresh reauth spec find n log f write_spec_name [OF spec]
    by (intro exI [of _ c] exI [of _ spec] exI [of _ ?account] exI [of _ instant] exI [of _ k] exI [of _ f])
       (auto simp: watch_confirmer_def)
qed

section \<open>Witnesses\<close>

definition sample_button_spec :: "unit tool_spec" where
  "sample_button_spec =
     \<lparr>ts_name = ''t'', ts_description = [], ts_parameters = ''{}'', ts_risk = RiskWrite, ts_features = [],
      ts_factory = None,
      ts_write_factory = Some (\<lambda>sc x. WBuilt \<lparr>wt_propose = (\<lambda>c k. (ProposeFailed, k)),
        wt_execute = (\<lambda>args now k. (Wrote \<lparr>er_outcome = OutcomeCreated, er_transfer = Some 5\<rparr>, k))\<rparr>),
      ts_confirm = Some \<lparr>cs_prompt = Some (\<lambda>_. ''?''), cs_confirm_label = ''y'', cs_decline_label = ''n'',
        cs_declined_text = ''d'', cs_expired_text = ''e'', cs_outcome_text = Some (\<lambda>_. ''o'')\<rparr>\<rparr>"

definition sample_confirmer :: "unit confirmer" where
  "sample_confirmer =
     \<lparr>co_store = sample_store, co_catalog = \<lparr>cat_specs = [sample_button_spec], cat_names = [''t'']\<rparr>,
      co_enabled = (\<lambda>_ _. Some (\<lambda>n. n = ''t'')),
      co_auditor = \<lparr>au_requested = (\<lambda>a x. (Some 9, x)), au_denied = (\<lambda>a r x. (True, x)),
                    au_finish = (\<lambda>i out x. (True, x))\<rparr>,
      co_transfers = None, co_global = (\<lambda>_. True), co_write = (\<lambda>_. True), co_provider = (\<lambda>_ _. True),
      co_chatbot = (\<lambda>_ _ _. True), co_notify = None, co_min_age = 1, co_max_attempts = 3,
      co_sessions = (\<lambda>s o1 c x. s = 3), co_session_account = (\<lambda>_ _. Some ''a''), co_now = (\<lambda>_. 9),
      co_ok = (\<lambda>_. True), co_others = (\<lambda>w. w)\<rparr>"

definition sample_tap :: tap where
  "sample_tap = \<lparr>tap_token = ''k'', tap_org = 1, tap_contact = 2, tap_session = 3, tap_account = ''a'',
     tap_wamid = ''m'', tap_decline = False\<rparr>"

definition sample_confirmed :: conf where
  "sample_confirmed = sample_conf\<lparr>cf_status := Confirmed, cf_confirmed_at := Some 5\<rparr>"

definition clean_world :: "table \<Rightarrow> unit logged cworld" where
  "clean_world t = \<lparr>cw_ext = ((), []), cw_table = t\<rparr>"

lemma sample_tap_executes:
  "GExecuted ''t'' [] \<in> set (clog (snd (handle_tap (watch_confirmer sample_confirmer) sample_tap (clean_world [sample_conf]))))"
  by code_simp


lemma sample_reconcile_executes:
  "GExecuted ''t'' [] \<in> set (clog (reconcile_one (watch_confirmer sample_confirmer) 7 (clean_world [sample_confirmed])))"
  by code_simp

theorem reconcile_executes_only_fresh_witness:
  "\<exists>(c :: conf) spec. cf_id c = 7 \<and> cf_status c = Confirmed \<and> write_spec sample_confirmer (cf_tool c) = Some spec"
proof -
  have l: "clog (clean_world [sample_confirmed]) = []" by (simp add: clean_world_def)
  from reconcile_executes_only_fresh [OF refl l sample_reconcile_executes] show ?thesis
    unfolding Let_def by (elim exE conjE) (intro exI conjI, assumption+)
qed

end
