(* ===== verification/Business_Hours.thy ===== *)
theory Business_Hours
  imports Prelude
begin

text \<open>
  Opening hours: the rule of \<open>internal/businesshours/businesshours.go\<close> (days as numbers, times compared
  as text, both ends inclusive) and the timing nodes of the chat and call flows
  (\<open>evaluateTimingSchedule\<close> of \<open>internal/handlers/chatbot_graph_runner.go\<close>, \<open>executeTiming\<close> of
  \<open>internal/calling/ivr.go\<close>: days as names, times parsed, the end exclusive). The clock is the part
  of \<open>time.Time\<close> they read.
\<close>

section \<open>The clock\<close>

record clock =
  ck_weekday :: nat
  ck_hour :: nat
  ck_minute :: nat

definition clock_ok :: "clock \<Rightarrow> bool" where
  "clock_ok c \<longleftrightarrow> ck_weekday c < 7 \<and> ck_hour c < 24 \<and> ck_minute c < 60"

definition digit :: "nat \<Rightarrow> char" where
  "digit n = char_of (48 + n)"

definition two_digits :: "nat \<Rightarrow> string" where
  "two_digits n = [digit (n div 10), digit (n mod 10)]"

text \<open>\<open>now.Format("15:04")\<close>\<close>

definition format_hm :: "nat \<Rightarrow> nat \<Rightarrow> string" where
  "format_hm h m = two_digits h @ CHR 0x3A # two_digits m"

section \<open>\<open>Within\<close> and \<open>Schedule\<close>\<close>

record hours_entry =
  he_day :: int
  he_enabled :: bool
  he_start :: string
  he_end :: string
  he_has_times :: bool

definition hours_entry_of :: "any \<Rightarrow> hours_entry option" where
  "hours_entry_of raw =
     (case as_obj raw of
        None \<Rightarrow> None
      | Some m \<Rightarrow>
          (case jget m ''day'' of
             AFloat d \<Rightarrow>
               Some \<lparr>he_day = trunc_rat d, he_enabled = bool_of (jget m ''enabled''),
                     he_start = str_of (jget m ''start_time''), he_end = str_of (jget m ''end_time''),
                     he_has_times = (as_str (jget m ''start_time'') \<noteq> None \<and> as_str (jget m ''end_time'') \<noteq> None)\<rparr>
           | _ \<Rightarrow> None))"

fun within_at :: "int \<Rightarrow> string \<Rightarrow> any list \<Rightarrow> bool" where
  "within_at today current [] = False"
| "within_at today current (raw # rest) =
     (case hours_entry_of raw of
        None \<Rightarrow> within_at today current rest
      | Some e \<Rightarrow>
          if he_day e \<noteq> today then within_at today current rest
          else if \<not> he_enabled e then False
          else if \<not> he_has_times e then within_at today current rest
          else he_start e \<le> current \<and> current \<le> he_end e)"

definition is_within :: "any list \<Rightarrow> clock \<Rightarrow> bool" where
  "is_within hours c = within_at (int (ck_weekday c)) (format_hm (ck_hour c) (ck_minute c)) hours"

record day_hours =
  dh_day :: nat
  dh_open :: bool
  dh_start :: string
  dh_end :: string

definition closed_day :: "nat \<Rightarrow> day_hours" where
  "closed_day i = \<lparr>dh_day = i, dh_open = False, dh_start = [], dh_end = []\<rparr>"

text \<open>The loop over the entries, with the array \<open>out\<close> and the flags \<open>decided\<close>.\<close>

fun schedule_from :: "any list \<Rightarrow> day_hours list \<Rightarrow> bool list \<Rightarrow> day_hours list" where
  "schedule_from [] out decided = out"
| "schedule_from (raw # rest) out decided =
     (case hours_entry_of raw of
        None \<Rightarrow> schedule_from rest out decided
      | Some e \<Rightarrow>
          if he_day e < 0 \<or> he_day e > 6 \<or> decided ! nat (he_day e) then schedule_from rest out decided
          else if \<not> he_enabled e then schedule_from rest out (decided[nat (he_day e) := True])
          else if \<not> he_has_times e then schedule_from rest out decided
          else let d = nat (he_day e) in
            schedule_from rest
              (out[d := (out ! d)\<lparr>dh_open := True, dh_start := he_start e, dh_end := he_end e\<rparr>])
              (decided[d := True]))"

definition schedule :: "any list \<Rightarrow> day_hours list" where
  "schedule hours = schedule_from hours (map closed_day [0..<7]) (replicate 7 False)"

section \<open>The timing node\<close>

definition weekday_names :: "string list" where
  "weekday_names = [''sunday'', ''monday'', ''tuesday'', ''wednesday'', ''thursday'', ''friday'', ''saturday'']"

definition digit_val :: "char \<Rightarrow> nat option" where
  "digit_val c = (if 48 \<le> byte c \<and> byte c \<le> (57 :: nat) then Some (byte c - 48) else None)"

text \<open>\<open>getnum\<close> of the \<open>time\<close> package: one or two digits, two when \<open>fixed\<close>.\<close>

fun getnum :: "bool \<Rightarrow> string \<Rightarrow> (nat \<times> string) option" where
  "getnum fixed [] = None"
| "getnum fixed [a] =
     (case digit_val a of None \<Rightarrow> None | Some x \<Rightarrow> if fixed then None else Some (x, []))"
| "getnum fixed (a # b # rest) =
     (case digit_val a of
        None \<Rightarrow> None
      | Some x \<Rightarrow>
          (case digit_val b of
             None \<Rightarrow> if fixed then None else Some (x, b # rest)
           | Some y \<Rightarrow> Some (10 * x + y, rest)))"

text \<open>\<open>time.Parse("15:04", s)\<close>, as hours and minutes.\<close>

definition parse_hm :: "string \<Rightarrow> (nat \<times> nat) option" where
  "parse_hm s =
     (case getnum False s of
        None \<Rightarrow> None
      | Some (h, rest) \<Rightarrow>
          if 24 \<le> h then None
          else (case rest of
                  [] \<Rightarrow> None
                | c # rest1 \<Rightarrow>
                    if c \<noteq> CHR 0x3A then None
                    else (case getnum True rest1 of
                            None \<Rightarrow> None
                          | Some (m, rest2) \<Rightarrow> if 60 \<le> m \<or> rest2 \<noteq> [] then None else Some (h, m))))"

definition minutes :: "nat \<times> nat \<Rightarrow> nat" where
  "minutes hm = fst hm * 60 + snd hm"

fun timing_entries :: "string \<Rightarrow> nat \<Rightarrow> any list \<Rightarrow> string" where
  "timing_entries day_name now [] = ''out_of_hours''"
| "timing_entries day_name now (item # rest) =
     (case as_obj item of
        None \<Rightarrow> timing_entries day_name now rest
      | Some m \<Rightarrow>
          if to_lower (str_of (jget m ''day'')) \<noteq> day_name then timing_entries day_name now rest
          else if \<not> bool_of (jget m ''enabled'') then ''out_of_hours''
          else (case (parse_hm (str_of (jget m ''start_time'')), parse_hm (str_of (jget m ''end_time''))) of
                  (Some s, Some e) \<Rightarrow>
                    if minutes s \<le> now \<and> now < minutes e then ''in_hours'' else ''out_of_hours''
                | _ \<Rightarrow> ''out_of_hours''))"

definition evaluate_timing_schedule :: "clock \<Rightarrow> any list \<Rightarrow> string" where
  "evaluate_timing_schedule c sched =
     timing_entries (weekday_names ! ck_weekday c) (minutes (ck_hour c, ck_minute c)) sched"

section \<open>One rule, two uses\<close>

text \<open>The entry that decides a day, if any, and what it says.\<close>

fun deciding :: "int \<Rightarrow> any list \<Rightarrow> hours_entry option" where
  "deciding day [] = None"
| "deciding day (raw # rest) =
     (case hours_entry_of raw of
        None \<Rightarrow> deciding day rest
      | Some e \<Rightarrow>
          if he_day e \<noteq> day then deciding day rest
          else if he_enabled e \<and> \<not> he_has_times e then deciding day rest
          else Some e)"

lemma within_deciding:
  "within_at day current hours =
     (case deciding day hours of None \<Rightarrow> False | Some e \<Rightarrow> he_enabled e \<and> he_start e \<le> current \<and> current \<le> he_end e)"
  by (induction day hours rule: deciding.induct) (auto split: option.splits)

definition day_says :: "hours_entry option \<Rightarrow> day_hours \<Rightarrow> day_hours" where
  "day_says e d =
     (case e of
        None \<Rightarrow> d
      | Some x \<Rightarrow> if he_enabled x then d\<lparr>dh_open := True, dh_start := he_start x, dh_end := he_end x\<rparr> else d)"

lemma schedule_from_deciding:
  "length out = 7 \<Longrightarrow> length decided = 7 \<Longrightarrow> i < 7 \<Longrightarrow>
   schedule_from hours out decided ! i = (if decided ! i then out ! i else day_says (deciding (int i) hours) (out ! i))"
proof (induction hours out decided rule: schedule_from.induct)
  case (1 out decided)
  then show ?case by (simp add: day_says_def)
next
  case (2 raw rest out decided)
  show ?case
  proof (cases "hours_entry_of raw")
    case None
    then show ?thesis using 2 by simp
  next
    case (Some e)
    show ?thesis
    proof (cases "he_day e = int i")
      case True
      then have "nat (he_day e) = i" "\<not> (he_day e < 0 \<or> he_day e > 6)" using 2 by simp_all
      then show ?thesis
        using 2(6-8) 2(2-5) [OF Some] True Some
        by (cases "decided ! i"; cases "he_enabled e"; cases "he_has_times e")
          (simp_all add: Let_def day_says_def)
    next
      case False
      then have "0 \<le> he_day e \<Longrightarrow> nat (he_day e) \<noteq> i" by auto
      then show ?thesis
        using 2 Some False by (auto simp: Let_def)
    qed
  qed
qed

lemma length_schedule_from [simp]: "length (schedule_from hours out decided) = length out"
  by (induction hours out decided rule: schedule_from.induct) (simp_all add: Let_def split: option.splits)

text \<open>C11 (equivalence).
  The chatbot and the \<open>get_business_hours\<close> tool can never disagree: at any moment, \<open>Within\<close> says open
  exactly when the line of \<open>Schedule\<close> for that weekday is open and the time, as text, is between its
  two ends; and \<open>Schedule\<close> always has the seven days in order.\<close>

theorem within_agrees_with_schedule:
  assumes "clock_ok c"
  shows "(is_within hours c \<longleftrightarrow>
      (let d = schedule hours ! ck_weekday c; current = format_hm (ck_hour c) (ck_minute c) in
        dh_open d \<and> dh_start d \<le> current \<and> current \<le> dh_end d))
    \<and> map dh_day (schedule hours) = [0..<7]"
proof -
  have day: "dh_day (schedule hours ! i) = i" if "i < 7" for i
  proof -
    have "schedule hours ! i = day_says (deciding (int i) hours) (closed_day i)"
      using that schedule_from_deciding [of "map closed_day [0..<7]" "replicate 7 False" i hours]
      by (simp add: schedule_def del: upt_rec_numeral upt_Suc)
    then show ?thesis by (simp add: day_says_def closed_day_def split: option.split)
  qed
  have "schedule hours ! ck_weekday c = day_says (deciding (int (ck_weekday c)) hours) (closed_day (ck_weekday c))"
    using assms schedule_from_deciding [of "map closed_day [0..<7]" "replicate 7 False" "ck_weekday c" hours]
    by (simp add: schedule_def clock_ok_def del: upt_rec_numeral upt_Suc)
  moreover have "map dh_day (schedule hours) = [0..<7]"
    by (rule nth_equalityI) (simp_all add: schedule_def del: upt_rec_numeral upt_Suc,
        use day in \<open>simp add: schedule_def del: upt_rec_numeral upt_Suc\<close>)
  ultimately show ?thesis
    by (simp add: is_within_def within_deciding day_says_def closed_day_def Let_def split: option.split)
qed

section \<open>Times as text and times as numbers\<close>

lemma byte_digit: "n < 10 \<Longrightarrow> (byte (digit n) :: nat) = 48 + n"
  by (simp add: digit_def byte_char_of)

lemma digit_less: "a < 10 \<Longrightarrow> b < 10 \<Longrightarrow> (digit a < digit b) = (a < b)"
  using byte_digit [of a] byte_digit [of b] by (simp add: less_char_def)

lemma digit_eq: "a < 10 \<Longrightarrow> b < 10 \<Longrightarrow> (digit a = digit b) = (a = b)"
  using byte_digit [of a] byte_digit [of b] by (metis add_left_cancel)

lemma two_digits_le:
  assumes "a < 100" "b < 100"
  shows "two_digits a @ x \<le> two_digits b @ y \<longleftrightarrow> a < b \<or> (a = b \<and> x \<le> y)"
proof -
  have d: "a div 10 < 10" "b div 10 < 10" "a mod 10 < 10" "b mod 10 < 10" using assms by auto
  have eq: "a = b \<longleftrightarrow> a div 10 = b div 10 \<and> a mod 10 = b mod 10"
    by (metis div_mult_mod_eq)
  have less: "a < b \<longleftrightarrow> a div 10 < b div 10 \<or> (a div 10 = b div 10 \<and> a mod 10 < b mod 10)"
    using div_mult_mod_eq [of a 10] div_mult_mod_eq [of b 10] d(3,4)
    by (cases "a div 10" "b div 10" rule: linorder_cases) linarith+
  have "two_digits a @ x \<le> two_digits b @ y \<longleftrightarrow> a div 10 < b div 10
      \<or> (a div 10 = b div 10 \<and> (a mod 10 < b mod 10 \<or> (a mod 10 = b mod 10 \<and> x \<le> y)))"
    unfolding two_digits_def append.simps Cons_le_Cons
    by (simp only: digit_less [OF d(1,2)] digit_less [OF d(3,4)] digit_eq [OF d(1,2)] digit_eq [OF d(3,4)])
  then show ?thesis unfolding eq less by blast
qed

lemma format_hm_le:
  assumes "h < 24" "m < 60" "h' < 24" "m' < 60"
  shows "format_hm h m \<le> format_hm h' m' \<longleftrightarrow> minutes (h, m) \<le> minutes (h', m')"
proof -
  have "two_digits m \<le> two_digits m' \<longleftrightarrow> m \<le> m'"
    using two_digits_le [of m m' "[]" "[]"] assms by auto
  then have "format_hm h m \<le> format_hm h' m' \<longleftrightarrow> h < h' \<or> (h = h' \<and> m \<le> m')"
    using two_digits_le [of h h' "CHR 0x3A # two_digits m" "CHR 0x3A # two_digits m'"] assms
    by (auto simp: format_hm_def)
  then show ?thesis using assms by (auto simp: minutes_def)
qed

lemma digit_val_digit: "n < 10 \<Longrightarrow> digit_val (digit n) = Some n"
  by (simp add: digit_val_def byte_digit)

lemma digit_val_colon: "digit_val (CHR 0x3A) = None"
  by (simp add: digit_val_def)

lemma getnum_two_digits: "n < 100 \<Longrightarrow> getnum fixed (two_digits n @ rest) = Some (n, rest)"
  by (simp add: two_digits_def digit_val_digit)

text \<open>The text form of a time parses back to it.\<close>

lemma parse_format_hm:
  assumes "h < 24" "m < 60"
  shows "parse_hm (format_hm h m) = Some (h, m)"
proof -
  have "getnum False (format_hm h m) = Some (h, CHR 0x3A # two_digits m)"
    unfolding format_hm_def by (rule getnum_two_digits) (use assms in simp)
  moreover have "getnum True (two_digits m) = Some (m, [])"
    using getnum_two_digits [of m True "[]"] assms by simp
  ultimately show ?thesis using assms by (simp add: parse_hm_def)
qed

lemma format_hm_inj:
  assumes "h < 24" "m < 60" "h' < 24" "m' < 60" "format_hm h m = format_hm h' m'"
  shows "h = h' \<and> m = m'"
  using assms parse_format_hm by (metis option.inject prod.inject)

text \<open>
  A schedule in the form the settings page writes: each element a day 0 to 6 with both times as
  padded text when it is enabled; and the same schedule with the days by name, as a timing node
  has it.
\<close>

definition time_text :: "any \<Rightarrow> bool" where
  "time_text v \<longleftrightarrow> (\<exists>h m. h < 24 \<and> m < 60 \<and> v = AStr (format_hm h m))"

definition canonical_entry :: "any \<Rightarrow> bool" where
  "canonical_entry raw \<longleftrightarrow>
     (\<exists>m d. raw = AObj m \<and> d < 7 \<and> jget m ''day'' = AFloat (of_nat d)
        \<and> time_text (jget m ''start_time'') \<and> time_text (jget m ''end_time''))"

fun by_name :: "any \<Rightarrow> any" where
  "by_name (AObj m) =
     (case jget m ''day'' of
        AFloat d \<Rightarrow> AObj (jput ''day'' (AStr (weekday_names ! nat (trunc_rat d))) m)
      | _ \<Rightarrow> AObj m)"
| "by_name v = v"

definition closing_now :: "any list \<Rightarrow> clock \<Rightarrow> bool" where
  "closing_now hours c \<longleftrightarrow>
     (case deciding (int (ck_weekday c)) hours of
        None \<Rightarrow> False
      | Some e \<Rightarrow> he_enabled e \<and> he_start e \<le> he_end e \<and> he_end e = format_hm (ck_hour c) (ck_minute c))"

lemma trunc_of_nat: "trunc_rat (of_nat d) = int d"
  by (simp add: trunc_rat_def)

lemma weekday_names_distinct: "i < 7 \<Longrightarrow> j < 7 \<Longrightarrow> weekday_names ! i = weekday_names ! j \<longleftrightarrow> i = j"
  by (simp add: weekday_names_def nth_eq_iff_index_eq)

lemma weekday_names_lower: "i < 7 \<Longrightarrow> to_lower (weekday_names ! i) = weekday_names ! i"
proof -
  assume "i < 7"
  then have "weekday_names ! i \<in> set weekday_names" by (intro nth_mem) (simp add: weekday_names_def)
  moreover have "\<forall>n \<in> set weekday_names. to_lower n = n" by code_simp
  ultimately show ?thesis by blast
qed

text \<open>
  A flow's timing node and the organization's opening hours agree: for any schedule as the settings
  page writes it, with its days turned into names, the timing node says \<open>in_hours\<close> exactly when
  \<open>Within\<close> says open and it is not the closing minute itself, the one instant they treat differently
  (\<open>Within\<close> includes its end, the timing node does not). Comparing the times as text, as \<open>Within\<close> does,
  is comparing them as times.\<close>

theorem timing_agrees_with_hours:
  assumes "clock_ok c" "\<forall>raw \<in> set hours. canonical_entry raw"
  shows "evaluate_timing_schedule c (map by_name hours) = ''in_hours'' \<longleftrightarrow>
    is_within hours c \<and> \<not> closing_now hours c"
  using assms(2)
proof (induction hours)
  case Nil
  then show ?case by (simp add: evaluate_timing_schedule_def is_within_def)
next
  case (Cons raw hours)
  let ?now = "format_hm (ck_hour c) (ck_minute c)"
  have ck: "ck_weekday c < 7" "ck_hour c < 24" "ck_minute c < 60" using assms(1) by (simp_all add: clock_ok_def)
  obtain m d h1 m1 h2 m2 where raw: "raw = AObj m" "d < 7" "jget m ''day'' = AFloat (of_nat d)"
      "jget m ''start_time'' = AStr (format_hm h1 m1)" "jget m ''end_time'' = AStr (format_hm h2 m2)"
      "h1 < 24" "m1 < 60" "h2 < 24" "m2 < 60"
    using Cons.prems by (auto simp: canonical_entry_def time_text_def)
  have name: "to_lower (weekday_names ! d) = weekday_names ! ck_weekday c \<longleftrightarrow> int d = int (ck_weekday c)"
    using weekday_names_distinct [OF raw(2) ck(1)] weekday_names_lower [OF raw(2)] by simp
  have e: "hours_entry_of raw = Some \<lparr>he_day = int d, he_enabled = bool_of (jget m ''enabled''),
      he_start = format_hm h1 m1, he_end = format_hm h2 m2, he_has_times = True\<rparr>"
    using raw by (simp add: hours_entry_of_def trunc_of_nat str_of_def)
  have le: "format_hm h1 m1 \<le> ?now \<longleftrightarrow> minutes (h1, m1) \<le> minutes (ck_hour c, ck_minute c)"
    "?now \<le> format_hm h2 m2 \<longleftrightarrow> minutes (ck_hour c, ck_minute c) \<le> minutes (h2, m2)"
    "format_hm h1 m1 \<le> format_hm h2 m2 \<longleftrightarrow> minutes (h1, m1) \<le> minutes (h2, m2)"
    using raw ck by (simp_all add: format_hm_le)
  have eq: "format_hm h2 m2 = ?now \<longleftrightarrow> minutes (h2, m2) = minutes (ck_hour c, ck_minute c)"
    using format_hm_inj [of h2 m2 "ck_hour c" "ck_minute c"] raw ck format_hm_le by (metis dual_order.refl nle_le)
  have timing: "by_name raw = AObj (jput ''day'' (AStr (weekday_names ! d)) m)"
    using raw by (simp add: trunc_of_nat)
  show ?case
  proof (cases "int d = int (ck_weekday c)")
    case False
    have "\<forall>raw \<in> set hours. canonical_entry raw" using Cons.prems by simp
    from Cons.IH [OF this] show ?thesis
      using False name e timing
      by (simp add: evaluate_timing_schedule_def is_within_def closing_now_def str_of_def)
  next
    case True
    then show ?thesis
      using name e timing raw le eq
      by (auto simp: evaluate_timing_schedule_def is_within_def closing_now_def str_of_def bool_of_def
          parse_format_hm)
  qed
qed

section \<open>Witnesses\<close>

definition sample_hours :: "any list" where
  "sample_hours = [AObj [(''day'', AFloat 1), (''enabled'', ABool True), (''start_time'', AStr ''09:00''),
     (''end_time'', AStr ''18:00'')]]"

definition sample_clock :: clock where
  "sample_clock = \<lparr>ck_weekday = 1, ck_hour = 10, ck_minute = 30\<rparr>"

theorem within_agrees_with_schedule_witness: "is_within sample_hours sample_clock"
proof -
  have c: "clock_ok sample_clock" by (simp add: clock_ok_def sample_clock_def)
  have "let d = schedule sample_hours ! ck_weekday sample_clock;
          current = format_hm (ck_hour sample_clock) (ck_minute sample_clock)
        in dh_open d \<and> dh_start d \<le> current \<and> current \<le> dh_end d"
    by code_simp
  then show ?thesis using within_agrees_with_schedule [OF c] by blast
qed

theorem timing_agrees_with_hours_witness:
  "evaluate_timing_schedule sample_clock (map by_name sample_hours) = ''in_hours''"
proof -
  have c: "clock_ok sample_clock" by (simp add: clock_ok_def sample_clock_def)
  have f: "format_hm 9 0 = ''09:00''" "format_hm 18 0 = ''18:00''" by code_simp+
  have t: "time_text (AStr (format_hm 9 0))" "time_text (AStr (format_hm 18 0))"
    unfolding time_text_def by (intro exI conjI; simp)+
  let ?m = "[(''day'', AFloat 1), (''enabled'', ABool True), (''start_time'', AStr ''09:00''),
     (''end_time'', AStr ''18:00'')]"
  have "canonical_entry (AObj ?m)"
    unfolding canonical_entry_def
    by (rule exI [of _ ?m], rule exI [of _ 1]) (use t [unfolded f] in \<open>simp add: jget_def\<close>)
  then have h: "\<forall>raw \<in> set sample_hours. canonical_entry raw" by (simp add: sample_hours_def)
  have "is_within sample_hours sample_clock \<and> \<not> closing_now sample_hours sample_clock" by code_simp
  then show ?thesis using timing_agrees_with_hours [OF c h] by blast
qed

end
