(* ===== verification/Transfers.thy ===== *)
theory Transfers
  imports Business_Hours
begin

text \<open>
  Human attendances (\<open>agent_transfers\<close>): who creates one, who owns it, and the gate in front of every
  send (\<open>internal/handlers/distribution.go\<close>, the creation paths of \<open>agent_transfers.go\<close>, the SLA
  clock of \<open>sla_processor.go\<close>). The table keeps the partial unique index of
  \<open>internal/database/active_transfer_index.go\<close>. Before each statement on the table other processes
  may have run (\<open>te_others\<close>).
\<close>

section \<open>Rows\<close>

datatype transfer_status = TActive | TResumed | TExpired

datatype transfer_source =
  SrcManual | SrcFlow | SrcKeyword | SrcChatbotDisabled | SrcAgentInitiated | SrcAIConfirmed

record sla =
  sl_response_deadline :: "time option"
  sl_resolution_deadline :: "time option"
  sl_escalation_at :: "time option"
  sl_expires_at :: "time option"
  sl_picked_up_at :: "time option"
  sl_first_response_at :: "time option"
  sl_breached :: bool
  sl_breached_at :: "time option"
  sl_level :: int
  sl_escalated_at :: "time option"

definition empty_sla :: sla where
  "empty_sla = \<lparr>sl_response_deadline = None, sl_resolution_deadline = None, sl_escalation_at = None,
     sl_expires_at = None, sl_picked_up_at = None, sl_first_response_at = None, sl_breached = False,
     sl_breached_at = None, sl_level = 0, sl_escalated_at = None\<rparr>"

record agent_transfer =
  tx_id :: uuid
  tx_org :: uuid
  tx_contact :: uuid
  tx_account :: string
  tx_phone :: string
  tx_status :: transfer_status
  tx_source :: transfer_source
  tx_agent :: "uuid option"
  tx_team :: "uuid option"
  tx_by_user :: "uuid option"
  tx_notes :: string
  tx_reason :: "string option"
  tx_at :: time
  tx_sla :: sla
  tx_deleted :: bool
  tx_resumed_at :: "time option"
  tx_resumed_by :: "uuid option"

record contact =
  ct_id :: uuid
  ct_org :: uuid
  ct_phone :: string
  ct_account :: string
  ct_assigned :: "uuid option"
  ct_team :: "uuid option"

record account =
  ac_org :: uuid
  ac_name :: string

section \<open>Settings and the world\<close>

record sla_settings =
  sc_enabled :: bool
  sc_response_minutes :: int
  sc_resolution_minutes :: int
  sc_escalation_minutes :: int
  sc_auto_close_hours :: int

record chat_settings =
  st_sla :: sla_settings
  st_hours_enabled :: bool
  st_hours :: "any list"
  st_out_of_hours_message :: string
  st_assign_same :: bool

text \<open>
  A distribution event of the audit: the event, who caused it (None for the system), the transfer,
  the responsible agent before and after.
\<close>

record dist_event =
  de_event :: string
  de_actor :: "uuid option"
  de_transfer :: uuid
  de_from :: "uuid option"
  de_to :: "uuid option"

datatype contact_status = CNew | CInProgress | CResolved

text \<open>
  The tables and what leaves the process. \<open>tw_assigned\<close>, \<open>tw_team\<close>, \<open>tw_cstatus\<close>, \<open>tw_chatbot_at\<close> and
  \<open>tw_reminded\<close> are columns of \<open>contacts\<close>.
\<close>

record tworld =
  tw_rows :: "agent_transfer list"
  tw_audit :: "dist_event list"
  tw_assigned :: "uuid \<Rightarrow> uuid option"
  tw_team :: "uuid \<Rightarrow> uuid option"
  tw_cstatus :: "uuid \<Rightarrow> contact_status"
  tw_chatbot_at :: "uuid \<Rightarrow> time option"
  tw_reminded :: "uuid \<Rightarrow> bool"
  tw_sessions_ended :: "uuid list"
  tw_sent :: "(uuid \<times> string) list"
  tw_tick :: nat

datatype transfer_error = AlreadyActive | ConversationOwned | DatabaseError

text \<open>
  \<open>te_assign_team\<close> is the Assigner, \<^const>\<open>None\<close> when none is wired; \<open>te_override\<close> is
  \<open>canOverrideConversationOwner\<close>'s two permissions.
\<close>

record tenv =
  te_others :: "tworld \<Rightarrow> tworld"
  te_ok :: "tworld \<Rightarrow> bool"
  te_now :: "tworld \<Rightarrow> time"
  te_fresh :: "tworld \<Rightarrow> uuid"
  te_clock :: "tworld \<Rightarrow> clock"
  te_settings :: "uuid \<Rightarrow> string \<Rightarrow> chat_settings option"
  te_eligible :: "uuid \<Rightarrow> uuid \<Rightarrow> tworld \<Rightarrow> bool"
  te_assign_team :: "(uuid \<Rightarrow> uuid \<Rightarrow> tworld \<Rightarrow> uuid option) option"
  te_can_write_transfers :: "uuid \<Rightarrow> uuid \<Rightarrow> bool"
  te_can_view_all :: "uuid \<Rightarrow> uuid \<Rightarrow> bool"

definition live :: "agent_transfer \<Rightarrow> bool" where
  "live t \<longleftrightarrow> tx_status t = TActive \<and> \<not> tx_deleted t"

definition live_of :: "uuid \<Rightarrow> uuid \<Rightarrow> agent_transfer \<Rightarrow> bool" where
  "live_of org contact t \<longleftrightarrow> live t \<and> tx_org t = org \<and> tx_contact t = contact"

definition one_active :: "agent_transfer list \<Rightarrow> bool" where
  "one_active rows \<longleftrightarrow>
     (\<forall>org contact. length (filter (live_of org contact) rows) \<le> 1) \<and> distinct (map tx_id rows)"

section \<open>Statements on the table\<close>

definition has_active :: "tenv \<Rightarrow> uuid \<Rightarrow> uuid \<Rightarrow> tworld \<Rightarrow> bool \<times> tworld" where
  "has_active E org contact w0 =
     (let w = te_others E w0 in
      (te_ok E w \<and> (\<exists>t \<in> set (tw_rows w). live_of org contact t), w))"

text \<open>\<open>ORDER BY transferred_at DESC, id LIMIT 1\<close>\<close>

definition latest_first :: "agent_transfer \<Rightarrow> int list" where
  "latest_first t = [- tx_at t, int (tx_id t)]"

definition active_transfer_for :: "tenv \<Rightarrow> uuid \<Rightarrow> uuid \<Rightarrow> tworld \<Rightarrow> agent_transfer option \<times> tworld" where
  "active_transfer_for E org contact w0 =
     (let w = te_others E w0 in
      (if \<not> te_ok E w then None
       else (case sort_key latest_first (filter (live_of org contact) (tw_rows w)) of
               [] \<Rightarrow> None | t # _ \<Rightarrow> Some t), w))"

text \<open>\<open>createTransferRow\<close>: the INSERT under the partial unique index and the primary key.\<close>

definition create_transfer_row :: "tenv \<Rightarrow> agent_transfer \<Rightarrow> tworld \<Rightarrow> transfer_error option \<times> tworld" where
  "create_transfer_row E t w0 =
     (let w = te_others E w0 in
      if \<not> te_ok E w \<or> tx_id t \<in> set (map tx_id (tw_rows w)) then (Some DatabaseError, w)
      else if live t \<and> (\<exists>r \<in> set (tw_rows w). live_of (tx_org t) (tx_contact t) r) then (Some AlreadyActive, w)
      else (None, w\<lparr>tw_rows := tw_rows w @ [t]\<rparr>))"

text \<open>An UPDATE with a guard: whether it touched exactly one row, or failed.\<close>

definition update_where ::
  "tenv \<Rightarrow> (agent_transfer \<Rightarrow> bool) \<Rightarrow> (agent_transfer \<Rightarrow> agent_transfer) \<Rightarrow> tworld \<Rightarrow> bool option \<times> tworld" where
  "update_where E hit upd w0 =
     (let w = te_others E w0 in
      if \<not> te_ok E w then (None, w)
      else (Some (length (filter hit (tw_rows w)) = 1),
            w\<lparr>tw_rows := map (\<lambda>t. if hit t then upd t else t) (tw_rows w)\<rparr>))"

section \<open>The SLA clock\<close>

definition update_sla_on_pickup :: "time \<Rightarrow> sla \<Rightarrow> sla" where
  "update_sla_on_pickup now s =
     (if sl_picked_up_at s \<noteq> None then s
      else let s1 = s\<lparr>sl_picked_up_at := Some now\<rparr> in
        (case sl_response_deadline s of
           Some d \<Rightarrow> if d < now then s1\<lparr>sl_breached := True, sl_breached_at := Some now\<rparr> else s1
         | None \<Rightarrow> s1))"

definition minute :: time where "minute = 60 * 10 ^ 9"

definition deadline_after :: "time \<Rightarrow> int \<Rightarrow> time \<Rightarrow> time option \<Rightarrow> time option" where
  "deadline_after now n unit old = (if n > 0 then Some (now + n * unit) else old)"

definition set_sla_deadlines :: "time \<Rightarrow> sla_settings \<Rightarrow> sla \<Rightarrow> sla" where
  "set_sla_deadlines now s x =
     (if \<not> sc_enabled s then x
      else x\<lparr>sl_response_deadline := deadline_after now (sc_response_minutes s) minute (sl_response_deadline x),
             sl_resolution_deadline := deadline_after now (sc_resolution_minutes s) minute (sl_resolution_deadline x),
             sl_escalation_at := deadline_after now (sc_escalation_minutes s) minute (sl_escalation_at x),
             sl_expires_at := deadline_after now (sc_auto_close_hours s) (60 * minute) (sl_expires_at x)\<rparr>)"

section \<open>Claiming and moving\<close>

definition hits_claim :: "agent_transfer \<Rightarrow> agent_transfer \<Rightarrow> bool" where
  "hits_claim t r \<longleftrightarrow> tx_id r = tx_id t \<and> live r \<and> tx_agent r = None"

text \<open>
  \<open>claimTransfer\<close> on the snapshot \<open>t\<close>: the SLA fields are written only when the snapshot was never
  picked up, the breach only when it is new.
\<close>

definition claim_row :: "agent_transfer \<Rightarrow> sla \<Rightarrow> uuid \<Rightarrow> agent_transfer \<Rightarrow> agent_transfer" where
  "claim_row t s agent r =
     (let r1 = r\<lparr>tx_agent := Some agent\<rparr> in
      if sl_picked_up_at (tx_sla t) \<noteq> None then r1
      else let r2 = r1\<lparr>tx_sla := (tx_sla r)\<lparr>sl_picked_up_at := sl_picked_up_at s\<rparr>\<rparr> in
        if sl_breached s \<and> \<not> sl_breached (tx_sla t)
        then r2\<lparr>tx_sla := (tx_sla r2)\<lparr>sl_breached := True, sl_breached_at := sl_breached_at s\<rparr>\<rparr>
        else r2)"

definition claim_transfer ::
  "tenv \<Rightarrow> agent_transfer \<Rightarrow> uuid \<Rightarrow> tworld \<Rightarrow> (transfer_error + bool) \<times> agent_transfer \<times> tworld" where
  "claim_transfer E t agent w =
     (let s = update_sla_on_pickup (te_now E w) (tx_sla t) in
      case update_where E (hits_claim t) (claim_row t s agent) w of
        (None, w1) \<Rightarrow> (Inl DatabaseError, t, w1)
      | (Some False, w1) \<Rightarrow> (Inr False, t, w1)
      | (Some True, w1) \<Rightarrow> (Inr True, t\<lparr>tx_agent := Some agent, tx_sla := s\<rparr>, w1))"

definition move_transfer ::
  "tenv \<Rightarrow> uuid \<Rightarrow> uuid option \<Rightarrow> (agent_transfer \<Rightarrow> agent_transfer) \<Rightarrow> tworld \<Rightarrow> (transfer_error + bool) \<times> tworld" where
  "move_transfer E i from upd w =
     (case update_where E (\<lambda>r. tx_id r = i \<and> live r \<and> tx_agent r = from) upd w of
        (None, w1) \<Rightarrow> (Inl DatabaseError, w1)
      | (Some b, w1) \<Rightarrow> (Inr b, w1))"

section \<open>The audit of the distribution\<close>

definition audit_distribution ::
  "uuid option \<Rightarrow> uuid \<Rightarrow> string \<Rightarrow> uuid option \<Rightarrow> uuid option \<Rightarrow> tworld \<Rightarrow> tworld" where
  "audit_distribution actor i event from to_agent w =
     w\<lparr>tw_audit := tw_audit w @ [\<lparr>de_event = event, de_actor = actor, de_transfer = i, de_from = from, de_to = to_agent\<rparr>]\<rparr>"

definition audit_new_transfer :: "agent_transfer \<Rightarrow> tworld \<Rightarrow> tworld" where
  "audit_new_transfer t w =
     (if tx_source t = SrcAgentInitiated \<and> tx_agent t \<noteq> None
      then audit_distribution (tx_agent t) (tx_id t) ''claimed'' None (tx_agent t) w
      else if tx_agent t \<noteq> None \<and> tx_by_user t \<noteq> None
      then audit_distribution (tx_by_user t) (tx_id t) ''assigned'' None (tx_agent t) w
      else if tx_agent t \<noteq> None
      then audit_distribution None (tx_id t) ''auto_assigned'' None (tx_agent t) w
      else audit_distribution None (tx_id t) ''queued'' None None w)"

section \<open>Creating an attendance\<close>

definition assign_contact :: "contact \<Rightarrow> uuid \<Rightarrow> tworld \<Rightarrow> tworld" where
  "assign_contact c agent w = w\<lparr>tw_assigned := (tw_assigned w)(ct_id c := Some agent)\<rparr>"

text \<open>The deadlines of a new transfer, and its pickup when it already has an agent.\<close>

definition start_sla :: "time \<Rightarrow> chat_settings option \<Rightarrow> agent_transfer \<Rightarrow> agent_transfer" where
  "start_sla now settings t =
     (let t1 = (case settings of
                  Some s \<Rightarrow> t\<lparr>tx_sla := set_sla_deadlines now (st_sla s) (tx_sla t)\<rparr> | None \<Rightarrow> t)
      in if tx_agent t1 \<noteq> None then t1\<lparr>tx_sla := update_sla_on_pickup now (tx_sla t1)\<rparr> else t1)"

lemma start_sla_keeps [simp]:
  "tx_id (start_sla now settings t) = tx_id t" "tx_org (start_sla now settings t) = tx_org t"
  "tx_contact (start_sla now settings t) = tx_contact t" "tx_agent (start_sla now settings t) = tx_agent t"
  "tx_status (start_sla now settings t) = tx_status t" "tx_deleted (start_sla now settings t) = tx_deleted t"
  "tx_team (start_sla now settings t) = tx_team t"
  by (simp_all add: start_sla_def Let_def split: option.split)

definition save_and_finalize ::
  "tenv \<Rightarrow> agent_transfer \<Rightarrow> account \<Rightarrow> contact \<Rightarrow> chat_settings option \<Rightarrow> bool \<Rightarrow> tworld \<Rightarrow>
   transfer_error option \<times> tworld" where
  "save_and_finalize E t acct c settings end_session w =
     (let t2 = start_sla (te_now E w) settings t
      in case create_transfer_row E t2 w of
           (Some e, w1) \<Rightarrow> (Some e, w1)
         | (None, w1) \<Rightarrow>
             (let w2 = audit_new_transfer t2 w1;
                  w3 = (case (tx_agent t2, settings) of
                          (Some agent, Some s) \<Rightarrow>
                            if st_assign_same s \<and> ct_assigned c = None then assign_contact c agent w2 else w2
                        | _ \<Rightarrow> w2)
              in (None, if end_session then w3\<lparr>tw_sessions_ended := tw_sessions_ended w3 @ [ct_id c]\<rparr> else w3)))"

definition new_transfer ::
  "tenv \<Rightarrow> account \<Rightarrow> contact \<Rightarrow> transfer_source \<Rightarrow> uuid option \<Rightarrow> uuid option \<Rightarrow> string \<Rightarrow> string \<Rightarrow> tworld \<Rightarrow>
   agent_transfer" where
  "new_transfer E acct c source agent team notes reason w =
     \<lparr>tx_id = te_fresh E w, tx_org = ac_org acct, tx_contact = ct_id c, tx_account = ac_name acct,
      tx_phone = ct_phone c, tx_status = TActive, tx_source = source, tx_agent = agent, tx_team = team,
      tx_by_user = None, tx_notes = notes, tx_reason = (if reason = [] then None else Some reason),
      tx_at = te_now E w, tx_sla = empty_sla, tx_deleted = False,
      tx_resumed_at = None, tx_resumed_by = None\<rparr>"

text \<open>The opening-hours guard of the automatic paths.\<close>

definition closed_now :: "tenv \<Rightarrow> chat_settings option \<Rightarrow> tworld \<Rightarrow> bool" where
  "closed_now E settings w \<longleftrightarrow>
     (case settings of
        None \<Rightarrow> False
      | Some s \<Rightarrow> st_hours_enabled s \<and> st_hours s \<noteq> [] \<and> \<not> is_within (st_hours s) (te_clock E w))"

datatype transfer_outcome = OutCreated uuid | OutAlreadyActive | OutOutsideHours

definition transfer_to_queue ::
  "tenv \<Rightarrow> account \<Rightarrow> contact \<Rightarrow> transfer_source \<Rightarrow> string \<Rightarrow> string \<Rightarrow> tworld \<Rightarrow>
   (transfer_error + transfer_outcome) \<times> tworld" where
  "transfer_to_queue E acct c source notes reason w =
     (case has_active E (ac_org acct) (ct_id c) w of
        (True, w1) \<Rightarrow> (Inr OutAlreadyActive, w1)
      | (False, w1) \<Rightarrow>
          (let settings = te_settings E (ac_org acct) (ac_name acct) in
           if closed_now E settings w1 then (Inr OutOutsideHours, w1)
           else let t = new_transfer E acct c source None None notes reason w1 in
             (case save_and_finalize E t acct c settings False w1 of
                (Some AlreadyActive, w2) \<Rightarrow> (Inr OutAlreadyActive, w2)
              | (Some e, w2) \<Rightarrow> (Inl e, w2)
              | (None, w2) \<Rightarrow> (Inr (OutCreated (tx_id t)), w2))))"

definition send_out_of_hours :: "chat_settings option \<Rightarrow> contact \<Rightarrow> tworld \<Rightarrow> tworld" where
  "send_out_of_hours settings c w =
     (case settings of
        Some s \<Rightarrow> if st_out_of_hours_message s \<noteq> []
                  then w\<lparr>tw_sent := tw_sent w @ [(ct_id c, st_out_of_hours_message s)]\<rparr> else w
      | None \<Rightarrow> w)"

definition create_transfer_to_queue ::
  "tenv \<Rightarrow> account \<Rightarrow> contact \<Rightarrow> transfer_source \<Rightarrow> string \<Rightarrow> tworld \<Rightarrow> tworld" where
  "create_transfer_to_queue E acct c source reason w =
     (case transfer_to_queue E acct c source [] reason w of
        (Inr OutOutsideHours, w1) \<Rightarrow> send_out_of_hours (te_settings E (ac_org acct) (ac_name acct)) c w1
      | (_, w1) \<Rightarrow> w1)"

definition open_agent_initiated ::
  "tenv \<Rightarrow> account \<Rightarrow> contact \<Rightarrow> uuid \<Rightarrow> tworld \<Rightarrow> transfer_error option \<times> tworld" where
  "open_agent_initiated E acct c agent w =
     save_and_finalize E (new_transfer E acct c SrcAgentInitiated (Some agent) None [] [] w) acct c
       (te_settings E (ac_org acct) (ac_name acct)) True w"

definition create_transfer_from_keyword :: "tenv \<Rightarrow> account \<Rightarrow> contact \<Rightarrow> tworld \<Rightarrow> tworld" where
  "create_transfer_from_keyword E acct c w =
     (case has_active E (ac_org acct) (ct_id c) w of
        (True, w1) \<Rightarrow> w1
      | (False, w1) \<Rightarrow>
          (let settings = te_settings E (ac_org acct) (ac_name acct) in
           if closed_now E settings w1 then send_out_of_hours settings c w1
           else let agent = (case (settings, ct_assigned c) of
                               (Some s, Some u) \<Rightarrow>
                                 if st_assign_same s \<and> te_eligible E (ac_org acct) u w1 then Some u else None
                             | _ \<Rightarrow> None)
             in snd (save_and_finalize E (new_transfer E acct c SrcKeyword agent None [] [] w1) acct c settings True w1)))"

definition create_transfer_to_team ::
  "tenv \<Rightarrow> account \<Rightarrow> contact \<Rightarrow> uuid \<Rightarrow> string \<Rightarrow> transfer_source \<Rightarrow> string \<Rightarrow> tworld \<Rightarrow> tworld" where
  "create_transfer_to_team E acct c team notes source reason w =
     (case has_active E (ac_org acct) (ct_id c) w of
        (True, w1) \<Rightarrow> w1
      | (False, w1) \<Rightarrow>
          (let settings = te_settings E (ac_org acct) (ac_name acct) in
           if closed_now E settings w1 then send_out_of_hours settings c w1
           else let agent = (case te_assign_team E of None \<Rightarrow> None | Some f \<Rightarrow> f team (ac_org acct) w1)
             in snd (save_and_finalize E (new_transfer E acct c source agent (Some team) notes reason w1) acct c
                       settings True w1)))"

section \<open>The gate in front of every send\<close>

definition can_override :: "tenv \<Rightarrow> uuid \<Rightarrow> uuid \<Rightarrow> bool" where
  "can_override E user org \<longleftrightarrow> te_can_write_transfers E user org \<or> te_can_view_all E user org"

definition pin_carteira :: "tenv \<Rightarrow> contact \<Rightarrow> uuid \<Rightarrow> tworld \<Rightarrow> tworld" where
  "pin_carteira E c agent w =
     (case te_settings E (ct_org c) [] of
        None \<Rightarrow> w
      | Some s \<Rightarrow> if \<not> st_assign_same s \<or> ct_assigned c \<noteq> None then w else assign_contact c agent w)"

text \<open>One pass: the answer, or another look because a race was lost (\<open>continue\<close>).\<close>

datatype pass = PassDone "transfer_error option" tworld | PassAgain tworld

definition ensure_pass :: "tenv \<Rightarrow> account \<Rightarrow> contact \<Rightarrow> uuid \<Rightarrow> bool \<Rightarrow> tworld \<Rightarrow> pass" where
  "ensure_pass E acct c user allow w =
     (case active_transfer_for E (ct_org c) (ct_id c) w of
        (None, w1) \<Rightarrow>
          (case open_agent_initiated E acct c user w1 of
             (Some AlreadyActive, w2) \<Rightarrow> PassAgain w2
           | (e, w2) \<Rightarrow> PassDone e w2)
      | (Some t, w1) \<Rightarrow>
          (case tx_agent t of
             None \<Rightarrow>
               (case claim_transfer E t user w1 of
                  (Inl e, _, w2) \<Rightarrow> PassDone (Some e) w2
                | (Inr False, _, w2) \<Rightarrow>
                    PassAgain (audit_distribution (Some user) (tx_id t) ''conflict'' None None w2)
                | (Inr True, _, w2) \<Rightarrow>
                    PassDone None (pin_carteira E c user
                      (audit_distribution (Some user) (tx_id t) ''claimed'' None (Some user) w2)))
           | Some owner \<Rightarrow>
               if owner = user then PassDone None w1
               else if allow \<or> can_override E user (ct_org c) then PassDone None w1
               else PassDone (Some ConversationOwned)
                      (audit_distribution (Some user) (tx_id t) ''conflict'' (Some owner) None w1)))"

definition ensure_agent_owns ::
  "tenv \<Rightarrow> account \<Rightarrow> contact \<Rightarrow> uuid \<Rightarrow> bool \<Rightarrow> tworld \<Rightarrow> transfer_error option \<times> tworld" where
  "ensure_agent_owns E acct c user allow w =
     (case ensure_pass E acct c user allow w of
        PassDone e w1 \<Rightarrow> (e, w1)
      | PassAgain w1 \<Rightarrow>
          (case ensure_pass E acct c user allow w1 of
             PassDone e w2 \<Rightarrow> (e, w2)
           | PassAgain w2 \<Rightarrow> (Some ConversationOwned, w2)))"

section \<open>Returning the attendances of an agent who went away\<close>

text \<open>\<open>returnAgentTransfers\<close>: the carteira is cleared only when it points at the agent who left.\<close>

fun return_each ::
  "tenv \<Rightarrow> string \<Rightarrow> (uuid \<Rightarrow> uuid option) \<Rightarrow> agent_transfer list \<Rightarrow> tworld \<Rightarrow> nat \<times> tworld" where
  "return_each E reason assigned [] w = (0, w)"
| "return_each E reason assigned (t # ts) w =
     (case move_transfer E (tx_id t) (tx_agent t) (\<lambda>r. r\<lparr>tx_agent := None\<rparr>) w of
        (Inr True, w1) \<Rightarrow>
          (let w2 = audit_distribution None (tx_id t) reason (tx_agent t) None w1;
               w3 = (if reason \<noteq> ''returned_away_timeout'' \<and> tx_agent t \<noteq> None \<and> assigned (tx_contact t) = tx_agent t
                     then w2\<lparr>tw_assigned := (tw_assigned w2)(tx_contact t := None)\<rparr> else w2)
           in case return_each E reason assigned ts w3 of (n, w4) \<Rightarrow> (n + 1, w4))
      | (_, w1) \<Rightarrow> return_each E reason assigned ts w1)"

definition return_agent_transfers :: "tenv \<Rightarrow> uuid \<Rightarrow> uuid \<Rightarrow> string \<Rightarrow> tworld \<Rightarrow> nat \<times> tworld" where
  "return_agent_transfers E user org reason w0 =
     (let w = te_others E w0 in
      if \<not> te_ok E w then (0, w)
      else return_each E reason (tw_assigned w)
             (filter (\<lambda>t. tx_agent t = Some user \<and> tx_org t = org \<and> live t) (tw_rows w)) w)"

section \<open>What other processes do to the table\<close>

datatype row_op =
    RowInsert agent_transfer
  | RowMove uuid "uuid option" "uuid option"
  | RowClose uuid bool
  | RowSla uuid sla

fun exec_row_op :: "row_op \<Rightarrow> agent_transfer list \<Rightarrow> agent_transfer list" where
  "exec_row_op (RowInsert t) rows =
     (if tx_id t \<in> set (map tx_id rows) \<or> (live t \<and> (\<exists>r \<in> set rows. live_of (tx_org t) (tx_contact t) r))
      then rows else rows @ [t])"
| "exec_row_op (RowMove i from to_agent) rows =
     map (\<lambda>r. if tx_id r = i \<and> live r \<and> tx_agent r = from then r\<lparr>tx_agent := to_agent\<rparr> else r) rows"
| "exec_row_op (RowClose i expired) rows =
     map (\<lambda>r. if tx_id r = i then r\<lparr>tx_status := (if expired then TExpired else TResumed)\<rparr> else r) rows"
| "exec_row_op (RowSla i s) rows = map (\<lambda>r. if tx_id r = i then r\<lparr>tx_sla := s\<rparr> else r) rows"

definition with_row_ops :: "tenv \<Rightarrow> (tworld \<Rightarrow> row_op list) \<Rightarrow> tenv" where
  "with_row_ops E ops =
     E\<lparr>te_others := (\<lambda>w. w\<lparr>tw_rows := fold exec_row_op (ops w) (tw_rows w), tw_tick := tw_tick w + 1\<rparr>)\<rparr>"

text \<open>\<open>evolved rows rows'\<close>: every row keeps its identifier, organization and contact, and closed rows stay closed.\<close>

definition same_row :: "agent_transfer \<Rightarrow> agent_transfer \<Rightarrow> bool" where
  "same_row r r' \<longleftrightarrow> tx_id r' = tx_id r \<and> tx_org r' = tx_org r \<and> tx_contact r' = tx_contact r \<and> (live r' \<longrightarrow> live r)"

lemma one_active_map:
  assumes "one_active rows" "\<And>r. same_row r (f r)"
  shows "one_active (map f rows)"
proof -
  have "length (filter (live_of org contact) (map f rows)) \<le> length (filter (live_of org contact) rows)" for org contact
    using assms(2) unfolding filter_map length_map
    by (intro length_filter_mono) (auto simp: live_of_def same_row_def)
  moreover have "map tx_id (map f rows) = map tx_id rows"
    using assms(2) by (simp add: same_row_def)
  ultimately show ?thesis using assms(1) unfolding one_active_def by (metis le_trans)
qed

lemma one_active_insert:
  assumes "one_active rows" "tx_id t \<notin> set (map tx_id rows)"
    and "live t \<Longrightarrow> \<not> (\<exists>r \<in> set rows. live_of (tx_org t) (tx_contact t) r)"
  shows "one_active (rows @ [t])"
proof -
  have "length (filter (live_of org contact) (rows @ [t])) \<le> 1" for org contact
  proof (cases "live_of org contact t")
    case True
    then have "filter (live_of org contact) rows = []"
      using assms(3) by (auto simp: filter_empty_conv live_of_def)
    then show ?thesis by simp
  next
    case False
    then show ?thesis using assms(1) by (simp add: one_active_def)
  qed
  then show ?thesis using assms(1,2) by (simp add: one_active_def)
qed

lemma exec_row_op_one_active: "one_active rows \<Longrightarrow> one_active (exec_row_op x rows)"
  by (cases x) (auto intro!: one_active_map one_active_insert simp: same_row_def live_def simp del: map_map)

lemma fold_row_ops_one_active: "one_active rows \<Longrightarrow> one_active (fold exec_row_op xs rows)"
  by (induction xs arbitrary: rows) (simp_all add: exec_row_op_one_active)

text \<open>Two rows of two tables with one identifier are about one contact.\<close>

definition keys_agree :: "agent_transfer list \<Rightarrow> agent_transfer list \<Rightarrow> bool" where
  "keys_agree rows rows' \<longleftrightarrow>
     (\<forall>r \<in> set rows. \<forall>r' \<in> set rows'. tx_id r = tx_id r' \<longrightarrow> tx_org r = tx_org r' \<and> tx_contact r = tx_contact r')"

text \<open>\<open>grows rows rows'\<close>: every row of the first table is still in the second, with its key.\<close>

definition grows :: "agent_transfer list \<Rightarrow> agent_transfer list \<Rightarrow> bool" where
  "grows rows rows' \<longleftrightarrow> (\<forall>r \<in> set rows. \<exists>r' \<in> set rows'. tx_id r' = tx_id r \<and> tx_org r' = tx_org r \<and> tx_contact r' = tx_contact r)"

lemma grows_refl [simp]: "grows rows rows"
  by (auto simp: grows_def)

lemma grows_trans: "grows a b \<Longrightarrow> grows b c \<Longrightarrow> grows a c"
  unfolding grows_def by metis

lemma grows_map: "(\<And>r. same_row r (f r)) \<Longrightarrow> grows rows (map f rows)"
  unfolding grows_def same_row_def by (metis imageI list.set_map)

lemma exec_row_op_grows: "grows rows (exec_row_op x rows)"
proof (cases x)
  case (RowInsert t)
  then show ?thesis by (auto simp: grows_def)
qed (simp_all add: grows_map same_row_def live_def)

lemma fold_row_ops_grow: "grows rows (fold exec_row_op xs rows)"
  by (induction xs arbitrary: rows) (auto intro: grows_trans exec_row_op_grows)

lemma grows_keys:
  assumes "grows rows rows'" "distinct (map tx_id rows')" "r \<in> set rows" "r' \<in> set rows'" "tx_id r = tx_id r'"
  shows "tx_org r = tx_org r' \<and> tx_contact r = tx_contact r'"
proof -
  obtain q where q: "q \<in> set rows'" "tx_id q = tx_id r" "tx_org q = tx_org r" "tx_contact q = tx_contact r"
    using assms(1,3) unfolding grows_def by blast
  have "q = r'" by (rule map_fst_eq_fst_unique [OF assms(2) q(1) assms(4)]) (use q(2) assms(5) in simp)
  then show ?thesis using q by simp
qed

section \<open>Races\<close>

text \<open>What the gate needs of the other processes: they keep the index and never rewrite a row's key.\<close>

locale attendance_races =
  fixes E :: tenv
  assumes others_one_active: "one_active (tw_rows w) \<Longrightarrow> one_active (tw_rows (te_others E w))"
    and others_grow: "one_active (tw_rows w) \<Longrightarrow> grows (tw_rows w) (tw_rows (te_others E w))"
begin

lemma create_keeps:
  assumes "create_transfer_row E t w = (e, w')" "one_active (tw_rows w)"
  shows "one_active (tw_rows w')" "e = None \<Longrightarrow> t \<in> set (tw_rows w')"
proof -
  define v where "v = te_others E w"
  have v: "one_active (tw_rows v)" unfolding v_def by (rule others_one_active) (rule assms(2))
  have r: "(if \<not> te_ok E v \<or> tx_id t \<in> set (map tx_id (tw_rows v)) then (Some DatabaseError, v)
      else if live t \<and> (\<exists>r \<in> set (tw_rows v). live_of (tx_org t) (tx_contact t) r) then (Some AlreadyActive, v)
      else (None, v\<lparr>tw_rows := tw_rows v @ [t]\<rparr>)) = (e, w')"
    using assms(1) unfolding create_transfer_row_def Let_def v_def .
  show "one_active (tw_rows w')"
  proof (cases e)
    case None
    then have "tx_id t \<notin> set (map tx_id (tw_rows v))" "w' = v\<lparr>tw_rows := tw_rows v @ [t]\<rparr>"
      "live t \<Longrightarrow> \<not> (\<exists>r \<in> set (tw_rows v). live_of (tx_org t) (tx_contact t) r)"
      using r by (simp_all split: if_split_asm)
    then show ?thesis using one_active_insert [OF v] by simp
  next
    case (Some x)
    then have "w' = v" using r by (simp split: if_split_asm)
    then show ?thesis using v by simp
  qed
  show "t \<in> set (tw_rows w')" if "e = None"
    using r that by (auto split: if_split_asm)
qed

lemma update_keeps:
  "update_where E hit upd w = (b, w') \<Longrightarrow> one_active (tw_rows w) \<Longrightarrow> (\<And>r. same_row r (upd r)) \<Longrightarrow>
   one_active (tw_rows w')"
  using others_one_active [of w]
  by (auto simp: update_where_def Let_def same_row_def intro!: one_active_map split: if_splits)

lemma finalize_keeps:
  assumes "save_and_finalize E t acct c settings end_session w = (e, w')" "one_active (tw_rows w)"
  shows "one_active (tw_rows w')
    \<and> (e = None \<longrightarrow> (\<exists>r \<in> set (tw_rows w'). tx_id r = tx_id t \<and> tx_org r = tx_org t \<and> tx_contact r = tx_contact t
          \<and> tx_agent r = tx_agent t \<and> tx_status r = tx_status t \<and> tx_deleted r = tx_deleted t))"
proof -
  let ?t2 = "start_sla (te_now E w) settings t"
  obtain e1 w1 where c: "create_transfer_row E ?t2 w = (e1, w1)" by (metis surj_pair)
  have rows: "tw_rows w' = tw_rows w1" and e: "e = e1"
    using assms(1) c
    by (auto simp: save_and_finalize_def Let_def audit_new_transfer_def audit_distribution_def assign_contact_def
        split: option.splits if_splits)
  have "?t2 \<in> set (tw_rows w')" if "e = None" using create_keeps(2) [OF c assms(2)] that rows e by simp
  moreover have "tx_id ?t2 = tx_id t \<and> tx_org ?t2 = tx_org t \<and> tx_contact ?t2 = tx_contact t
      \<and> tx_agent ?t2 = tx_agent t \<and> tx_status ?t2 = tx_status t \<and> tx_deleted ?t2 = tx_deleted t"
    by simp
  ultimately show ?thesis using create_keeps(1) [OF c assms(2)] rows by metis
qed

lemma claim_owns:
  assumes "claim_transfer E t agent w = (x, t', w')" "one_active (tw_rows w)" "t \<in> set (tw_rows w)"
  shows "one_active (tw_rows w')"
    "x = Inr True \<Longrightarrow> \<exists>r \<in> set (tw_rows w'). tx_id r = tx_id t \<and> live_of (tx_org t) (tx_contact t) r \<and> tx_agent r = Some agent"
proof -
  let ?s = "update_sla_on_pickup (te_now E w) (tx_sla t)"
  define v where "v = te_others E w"
  have v: "one_active (tw_rows v)" "grows (tw_rows w) (tw_rows v)"
    unfolding v_def using others_one_active others_grow assms(2) by blast+
  have upd: "same_row r (claim_row t ?s agent r)" "tx_agent (claim_row t ?s agent r) = Some agent"
    "live (claim_row t ?s agent r) = live r" for r
    by (simp_all add: same_row_def claim_row_def Let_def live_def)
  obtain b where u: "update_where E (hits_claim t) (claim_row t ?s agent) w = (b, w')"
    using assms(1) by (auto simp: claim_transfer_def Let_def split: prod.splits option.splits bool.splits)
  show "one_active (tw_rows w')" by (rule update_keeps [OF u assms(2)]) (rule upd(1))
  assume "x = Inr True"
  then have b: "b = Some True"
    using assms(1) u by (auto simp: claim_transfer_def Let_def split: option.splits bool.splits)
  then have hit: "length (filter (hits_claim t) (tw_rows v)) = 1"
    and w': "tw_rows w' = map (\<lambda>r. if hits_claim t r then claim_row t ?s agent r else r) (tw_rows v)"
    using u by (auto simp: update_where_def Let_def v_def split: if_splits)
  then obtain r where r: "r \<in> set (tw_rows v)" "hits_claim t r"
    by (metis filter_empty_conv length_0_conv zero_neq_one)
  have key: "tx_org t = tx_org r \<and> tx_contact t = tx_contact r"
    by (rule grows_keys [OF v(2) _ assms(3) r(1)]) (use v(1) r(2) in \<open>simp_all add: one_active_def hits_claim_def\<close>)
  have "claim_row t ?s agent r \<in> set (tw_rows w')"
    unfolding w' using r by (force simp: image_iff)
  moreover have "tx_id (claim_row t ?s agent r) = tx_id t"
    "live_of (tx_org t) (tx_contact t) (claim_row t ?s agent r)"
    using r(2) key upd(1) [of r] upd(3) [of r] by (simp_all add: hits_claim_def live_of_def same_row_def)
  ultimately show "\<exists>r \<in> set (tw_rows w'). tx_id r = tx_id t \<and> live_of (tx_org t) (tx_contact t) r \<and> tx_agent r = Some agent"
    using upd(2) by blast
qed

lemma active_transfer_found:
  assumes "active_transfer_for E org contact w = (x, w')"
  shows "w' = te_others E w" "x = Some t \<Longrightarrow> t \<in> set (tw_rows w') \<and> live_of org contact t"
proof -
  let ?l = "sort_key latest_first (filter (live_of org contact) (tw_rows (te_others E w)))"
  show w': "w' = te_others E w" using assms by (simp add: active_transfer_for_def Let_def)
  assume "x = Some t"
  then obtain ts where "?l = t # ts"
    using assms by (auto simp: active_transfer_for_def Let_def split: if_splits list.splits)
  then have "t \<in> set ?l" by simp
  then show "t \<in> set (tw_rows w') \<and> live_of org contact t" by (simp add: w')
qed

definition owns :: "contact \<Rightarrow> uuid \<Rightarrow> tworld \<Rightarrow> bool" where
  "owns c user w \<longleftrightarrow> (\<exists>r \<in> set (tw_rows w). live_of (ct_org c) (ct_id c) r \<and> tx_agent r = Some user)"

lemma audit_rows [simp]: "tw_rows (audit_distribution actor i event from to_agent w) = tw_rows w"
  by (simp add: audit_distribution_def)

lemma pin_rows [simp]: "tw_rows (pin_carteira E' c agent w) = tw_rows w"
  by (simp add: pin_carteira_def assign_contact_def split: option.split)

lemma open_owns:
  assumes "open_agent_initiated E acct c user w = (e, w')" "one_active (tw_rows w)" "ac_org acct = ct_org c"
  shows "one_active (tw_rows w')" "e = None \<Longrightarrow> owns c user w'"
  using finalize_keeps [OF assms(1) [unfolded open_agent_initiated_def] assms(2)] assms(3)
  by (auto simp: new_transfer_def owns_def live_of_def live_def)

lemma pass_sound:
  assumes "one_active (tw_rows w)" "ac_org acct = ct_org c"
  shows "ensure_pass E acct c user allow w = PassAgain w' \<Longrightarrow> one_active (tw_rows w')"
    "ensure_pass E acct c user allow w = PassDone e w' \<Longrightarrow>
     one_active (tw_rows w') \<and> (e = None \<longrightarrow> owns c user w' \<or> (allow \<or> can_override E user (ct_org c)) \<and> (\<exists>x. x \<noteq> user \<and> owns c x w'))"
proof -
  obtain x w1 where a: "active_transfer_for E (ct_org c) (ct_id c) w = (x, w1)" by (metis surj_pair)
  note found = active_transfer_found [OF a]
  have w1: "one_active (tw_rows w1)" using found(1) others_one_active assms(1) by simp
  have "(ensure_pass E acct c user allow w = PassAgain w' \<longrightarrow> one_active (tw_rows w'))
    \<and> (ensure_pass E acct c user allow w = PassDone e w' \<longrightarrow>
      one_active (tw_rows w') \<and> (e = None \<longrightarrow> owns c user w' \<or> (allow \<or> can_override E user (ct_org c)) \<and> (\<exists>x. x \<noteq> user \<and> owns c x w')))"
  proof (cases x)
    case None
    obtain e1 w2 where "open_agent_initiated E acct c user w1 = (e1, w2)" by (metis surj_pair)
    with open_owns [OF this w1 assms(2)] show ?thesis
      using a None by (auto simp: ensure_pass_def split: option.splits transfer_error.splits)
  next
    case (Some t)
    have t: "t \<in> set (tw_rows w1)" "live_of (ct_org c) (ct_id c) t" using found(2) Some by blast+
    show ?thesis
    proof (cases "tx_agent t")
      case None
      obtain y t' w2 where cl: "claim_transfer E t user w1 = (y, t', w2)" by (metis prod_cases3)
      note own = claim_owns [OF cl w1 t(1)]
      have "owns c user w2" if "y = Inr True"
        using own(2) [OF that] t(2) by (auto simp: owns_def live_of_def)
      then show ?thesis
        using a Some None cl own(1) by (auto simp: ensure_pass_def owns_def split: sum.splits bool.splits)
    next
      case (Some owner)
      then show ?thesis
        using a \<open>x = Some t\<close> w1 t by (auto simp: ensure_pass_def owns_def)
    qed
  qed
  then show "ensure_pass E acct c user allow w = PassAgain w' \<Longrightarrow> one_active (tw_rows w')"
    "ensure_pass E acct c user allow w = PassDone e w' \<Longrightarrow>
     one_active (tw_rows w') \<and> (e = None \<longrightarrow> owns c user w' \<or> (allow \<or> can_override E user (ct_org c)) \<and> (\<exists>x. x \<noteq> user \<and> owns c x w'))"
    by blast+
qed

lemma ensure_sound:
  assumes "ensure_agent_owns E acct c user allow w = (e, w')" "one_active (tw_rows w)" "ac_org acct = ct_org c"
  shows "one_active (tw_rows w') \<and> (e = None \<longrightarrow> owns c user w' \<or> (allow \<or> can_override E user (ct_org c)) \<and> (\<exists>x. x \<noteq> user \<and> owns c x w'))"
proof (cases "ensure_pass E acct c user allow w")
  case (PassDone e1 w1)
  then show ?thesis using pass_sound(2) [OF assms(2,3) PassDone] assms(1) by (simp add: ensure_agent_owns_def)
next
  case (PassAgain w1)
  note w1 = pass_sound(1) [OF assms(2,3) PassAgain]
  show ?thesis
  proof (cases "ensure_pass E acct c user allow w1")
    case (PassDone e2 w2)
    then show ?thesis
      using pass_sound(2) [OF w1 assms(3) PassDone] assms(1) PassAgain by (simp add: ensure_agent_owns_def)
  next
    case (PassAgain w2)
    then show ?thesis
      using pass_sound(1) [OF w1 assms(3) PassAgain] assms(1) \<open>ensure_pass E acct c user allow w = PassAgain w1\<close>
      by (auto simp: ensure_agent_owns_def)
  qed
qed

lemma has_active_keeps: "has_active E org contact w = (b, w') \<Longrightarrow> one_active (tw_rows w) \<Longrightarrow> one_active (tw_rows w')"
  using others_one_active by (auto simp: has_active_def Let_def)

lemma queue_keeps:
  assumes "transfer_to_queue E acct c source notes reason w = (x, w')" "one_active (tw_rows w)"
  shows "one_active (tw_rows w')"
proof -
  obtain b w1 where h: "has_active E (ac_org acct) (ct_id c) w = (b, w1)" by (metis surj_pair)
  note w1 = has_active_keeps [OF h assms(2)]
  obtain e w2 where f: "save_and_finalize E (new_transfer E acct c source None None notes reason w1) acct c
      (te_settings E (ac_org acct) (ac_name acct)) False w1 = (e, w2)" by (metis surj_pair)
  note w2 = finalize_keeps [OF f w1]
  show ?thesis
    using assms(1) h f w1 w2
    by (auto simp: transfer_to_queue_def Let_def split: bool.splits if_splits option.splits transfer_error.splits)
qed

end

interpretation races: attendance_races "with_row_ops E ops"
proof unfold_locales
  fix w :: tworld assume "one_active (tw_rows w)"
  then show "one_active (tw_rows (te_others (with_row_ops E ops) w))"
    by (simp add: with_row_ops_def fold_row_ops_one_active)
next
  fix w :: tworld show "grows (tw_rows w) (tw_rows (te_others (with_row_ops E ops) w))"
    by (simp add: with_row_ops_def fold_row_ops_grow)
qed

lemma override_with_ops [simp]: "can_override (with_row_ops E ops) user org = can_override E user org"
  by (simp add: can_override_def with_row_ops_def)

section \<open>Properties\<close>

text \<open>C12 (safety).
  A loser of a race never sends: whatever rows other processes insert, claim, move, release or close
  between any two statements, if the gate in front of a send lets an agent through, then that agent
  owns the contact's active attendance at that moment; or another agent does, and the sender may override
  the owner or the caller asked for it (\<open>allowOtherOwner\<close>, which protocol replies set). Nobody passes with
  the contact unattended or unassigned, and the contact never has two active attendances.\<close>

theorem send_gate_sound:
  assumes "ensure_agent_owns (with_row_ops E ops) acct c user allow w = (e, w')"
    and "one_active (tw_rows w)" "ac_org acct = ct_org c"
  shows "one_active (tw_rows w')
    \<and> (e = None \<longrightarrow>
         (\<exists>r \<in> set (tw_rows w'). live_of (ct_org c) (ct_id c) r \<and> tx_agent r = Some user)
       \<or> (allow \<or> can_override E user (ct_org c))
         \<and> (\<exists>r \<in> set (tw_rows w'). live_of (ct_org c) (ct_id c) r \<and> tx_agent r \<notin> {None, Some user}))"
  using races.ensure_sound [OF assms] by (auto simp: races.owns_def)

text \<open>C13 (functional).
  \<open>TransferToQueue\<close> tells the truth about what it did, under any interference: \<open>created\<close> means that
  a row of that id is in the table, active, for that contact, with no agent and no team; \<open>already
  active\<close> that an active attendance of the contact is there; \<open>outside hours\<close>
  that the configured hours were closed and nothing was added. It never sends a message, and the
  table never gets a second active attendance.\<close>

theorem queue_outcome_is_true:
  assumes "transfer_to_queue (with_row_ops E ops) acct c source notes reason w = (Inr out, w')"
    and "one_active (tw_rows w)"
  shows "one_active (tw_rows w') \<and> tw_sent w' = tw_sent w
    \<and> (case out of
         OutCreated i \<Rightarrow> (\<exists>r \<in> set (tw_rows w'). tx_id r = i \<and> live_of (ac_org acct) (ct_id c) r
             \<and> tx_agent r = None \<and> tx_team r = None \<and> tx_source r = source)
       | OutAlreadyActive \<Rightarrow> (\<exists>r \<in> set (tw_rows w'). live_of (ac_org acct) (ct_id c) r)
       | OutOutsideHours \<Rightarrow> closed_now E (te_settings E (ac_org acct) (ac_name acct)) w'
           \<and> tw_rows w' = tw_rows (te_others (with_row_ops E ops) w))"
proof -
  let ?E = "with_row_ops E ops"
  let ?S = "te_settings ?E (ac_org acct) (ac_name acct)"
  have env: "?S = te_settings E (ac_org acct) (ac_name acct)" "closed_now ?E S v = closed_now E S v"
    "tw_sent (te_others ?E v) = tw_sent v" for S v
    by (simp_all add: with_row_ops_def closed_now_def cong: option.case_cong)
  obtain b w1 where h: "has_active ?E (ac_org acct) (ct_id c) w = (b, w1)" by (metis surj_pair)
  have w1: "w1 = te_others ?E w" "b \<Longrightarrow> \<exists>r \<in> set (tw_rows w1). live_of (ac_org acct) (ct_id c) r"
    using h by (auto simp: has_active_def Let_def)
  let ?t = "new_transfer ?E acct c source None None notes reason w1"
  let ?t2 = "start_sla (te_now ?E w1) ?S ?t"
  obtain e w2 where f: "save_and_finalize ?E ?t acct c ?S False w1 = (e, w2)" by (metis surj_pair)
  obtain e' w3 where cr: "create_transfer_row ?E ?t2 w1 = (e', w3)" by (metis surj_pair)
  have src: "tx_source ?t2 = source" by (simp add: start_sla_def new_transfer_def Let_def split: option.split)
  have fin: "e = e'" "tw_rows w2 = tw_rows w3" "tw_sent w2 = tw_sent w3"
    using f cr by (auto simp: save_and_finalize_def Let_def audit_new_transfer_def audit_distribution_def new_transfer_def
        split: option.splits if_splits)
  have row: "tw_sent w3 = tw_sent w1" "e' = None \<Longrightarrow> ?t2 \<in> set (tw_rows w3)"
    "e' = Some AlreadyActive \<Longrightarrow> \<exists>r \<in> set (tw_rows w3). live_of (ac_org acct) (ct_id c) r"
    using cr env(3) by (auto simp: create_transfer_row_def Let_def new_transfer_def simp del: set_map split: if_splits)
  have keep: "one_active (tw_rows w')" by (rule races.queue_keeps [OF assms])
  have sent: "tw_sent w1 = tw_sent w" using w1(1) env(3) by simp
  show ?thesis
  proof (cases "b \<or> closed_now E ?S w1")
    case True
    then show ?thesis
      using assms(1) h w1 env sent keep by (cases b) (auto simp: transfer_to_queue_def Let_def)
  next
    case False
    then have r: "(case e of Some AlreadyActive \<Rightarrow> (Inr OutAlreadyActive, w2) | Some x \<Rightarrow> (Inl x, w2)
        | None \<Rightarrow> (Inr (OutCreated (tx_id ?t)), w2)) = (Inr out, w')"
      using assms(1) h f env by (simp add: transfer_to_queue_def Let_def split: option.splits transfer_error.splits)
    have t2: "live_of (ac_org acct) (ct_id c) ?t2" "tx_agent ?t2 = None" "tx_team ?t2 = None" "tx_id ?t2 = tx_id ?t"
      by (simp_all add: live_of_def live_def new_transfer_def)
    show ?thesis
    proof (cases e)
      case None
      then have "?t2 \<in> set (tw_rows w')" using r fin row(2) by simp
      then show ?thesis using None r keep sent fin row(1) t2 src by (auto intro!: bexI [of _ ?t2])
    next
      case (Some x)
      then show ?thesis using r keep sent fin row by (cases x) auto
    qed
  qed
qed

section \<open>Witnesses\<close>

definition sample_tenv :: tenv where
  "sample_tenv = \<lparr>te_others = (\<lambda>w. w), te_ok = (\<lambda>_. True), te_now = (\<lambda>w. int (tw_tick w)),
     te_fresh = (\<lambda>w. 100 + tw_tick w), te_clock = (\<lambda>_. sample_clock), te_settings = (\<lambda>_ _. None),
     te_eligible = (\<lambda>_ _ _. True), te_assign_team = None, te_can_write_transfers = (\<lambda>_ _. False),
     te_can_view_all = (\<lambda>_ _. False)\<rparr>"

definition sample_contact :: contact where
  "sample_contact = \<lparr>ct_id = 7, ct_org = 1, ct_phone = [], ct_account = ''a'', ct_assigned = None, ct_team = None\<rparr>"

definition sample_account :: account where
  "sample_account = \<lparr>ac_org = 1, ac_name = ''a''\<rparr>"

definition empty_tworld :: tworld where
  "empty_tworld = \<lparr>tw_rows = [], tw_audit = [], tw_assigned = (\<lambda>_. None), tw_team = (\<lambda>_. None),
     tw_cstatus = (\<lambda>_. CNew), tw_chatbot_at = (\<lambda>_. None), tw_reminded = (\<lambda>_. False), tw_sessions_ended = [], tw_sent = [], tw_tick = 0\<rparr>"

lemma empty_one_active: "one_active (tw_rows empty_tworld)"
  by (simp add: one_active_def empty_tworld_def)

theorem send_gate_sound_witness:
  "\<exists>w'. ensure_agent_owns (with_row_ops sample_tenv (\<lambda>_. [])) sample_account sample_contact 5 False empty_tworld = (None, w')
     \<and> (\<exists>r \<in> set (tw_rows w'). tx_agent r = Some 5)"
proof -
  obtain e w' where g: "ensure_agent_owns (with_row_ops sample_tenv (\<lambda>_. [])) sample_account sample_contact 5 False empty_tworld = (e, w')"
    by (metis surj_pair)
  have "fst (ensure_agent_owns (with_row_ops sample_tenv (\<lambda>_. [])) sample_account sample_contact 5 False empty_tworld) = None"
    by code_simp
  then have e: "e = None" using g by simp
  have no: "\<not> can_override sample_tenv 5 (ct_org sample_contact)" by code_simp
  have o: "ac_org sample_account = ct_org sample_contact" by code_simp
  from send_gate_sound [OF g empty_one_active o] show ?thesis using g e no by auto
qed

theorem queue_outcome_is_true_witness:
  "\<exists>i w'. transfer_to_queue (with_row_ops sample_tenv (\<lambda>_. [])) sample_account sample_contact SrcFlow [] [] empty_tworld
       = (Inr (OutCreated i), w')
     \<and> (\<exists>r \<in> set (tw_rows w'). tx_id r = i \<and> tx_agent r = None)"
proof -
  have "(case transfer_to_queue (with_row_ops sample_tenv (\<lambda>_. [])) sample_account sample_contact SrcFlow [] [] empty_tworld
      of (Inr (OutCreated i), w') \<Rightarrow> True | _ \<Rightarrow> False)"
    by code_simp
  then obtain i w' where q: "transfer_to_queue (with_row_ops sample_tenv (\<lambda>_. [])) sample_account sample_contact SrcFlow [] []
      empty_tworld = (Inr (OutCreated i), w')"
    by (auto split: prod.splits sum.splits transfer_outcome.splits)
  from queue_outcome_is_true [OF q empty_one_active] show ?thesis using q by auto
qed

end
