(* ===== verification/Visibility.thy ===== *)
theory Visibility
  imports Transfers
begin

text \<open>
  Who sees a conversation (\<open>internal/handlers/conversation_visibility.go\<close>): the decision
  \<open>authorizeConversation\<close> for one contact, and \<open>scopeVisibleConversations\<close>, the SQL condition every
  listing uses, which has to select exactly the same contacts. A SQL condition is the predicate on a
  contact that its WHERE clause is; a NULL comparison is not true.
\<close>

section \<open>What the two read\<close>

record wa_account =
  wa_name :: string
  wa_org :: uuid
  wa_team :: "uuid option"
  wa_deleted :: bool

record visibility_settings =
  vs_strict :: bool
  vs_away_reassign :: bool

text \<open>
  The permissions are those of one user in one organization; \<open>ve_members\<close> are the pairs (team, user)
  of the memberships, \<open>ve_cache\<close> the cached default team of an account, when there is one.
\<close>

record vis_env =
  ve_settings :: "visibility_settings option"
  ve_contacts_read :: bool
  ve_view_all :: bool
  ve_view_team :: bool
  ve_members :: "(uuid \<times> uuid) list"
  ve_transfers :: "agent_transfer list"
  ve_accounts :: "wa_account list"
  ve_cache :: "uuid \<Rightarrow> string \<Rightarrow> uuid option option"

record access =
  can_view :: bool
  can_interact :: bool

definition both :: "bool \<Rightarrow> access" where
  "both ok = \<lparr>can_view = ok, can_interact = ok\<rparr>"

section \<open>The decision\<close>

definition active_for :: "vis_env \<Rightarrow> uuid \<Rightarrow> uuid \<Rightarrow> agent_transfer option" where
  "active_for V org contact =
     (case sort_key latest_first (filter (live_of org contact) (ve_transfers V)) of [] \<Rightarrow> None | t # _ \<Rightarrow> Some t)"

definition user_in_team :: "vis_env \<Rightarrow> uuid \<Rightarrow> uuid \<Rightarrow> bool" where
  "user_in_team V user team \<longleftrightarrow> (team, user) \<in> set (ve_members V)"

definition can_view_team_member :: "vis_env \<Rightarrow> uuid \<Rightarrow> uuid \<Rightarrow> bool" where
  "can_view_team_member V viewer owner \<longleftrightarrow>
     (\<exists>m \<in> set (ve_members V). snd m = owner \<and> (\<exists>k \<in> set (ve_members V). snd k = viewer \<and> fst k = fst m))"

text \<open>\<open>getAccountDefaultTeamCached\<close>: the cache first, then the row that is not deleted.\<close>

definition account_default_team :: "vis_env \<Rightarrow> uuid \<Rightarrow> string \<Rightarrow> uuid option" where
  "account_default_team V org name =
     (if name = [] then None
      else case ve_cache V org name of
        Some cached \<Rightarrow> cached
      | None \<Rightarrow>
          (case List.find (\<lambda>a. wa_org a = org \<and> wa_name a = name \<and> \<not> wa_deleted a) (ve_accounts V) of
             None \<Rightarrow> None | Some a \<Rightarrow> wa_team a))"

definition user_owns_contact :: "vis_env \<Rightarrow> uuid \<Rightarrow> uuid \<Rightarrow> contact \<Rightarrow> bool \<Rightarrow> bool" where
  "user_owns_contact V user org c owner_wins =
     (if ct_assigned c = Some user
         \<and> (\<not> owner_wins
            \<or> \<not> (\<exists>t \<in> set (ve_transfers V). live_of org (ct_id c) t \<and> tx_agent t \<noteq> None \<and> tx_agent t \<noteq> Some user))
      then True
      else \<exists>t \<in> set (ve_transfers V). live_of org (ct_id c) t \<and> tx_agent t = Some user)"

definition team_opt :: "vis_env \<Rightarrow> uuid \<Rightarrow> uuid option \<Rightarrow> bool" where
  "team_opt V user team = (case team of None \<Rightarrow> False | Some t \<Rightarrow> user_in_team V user t)"

definition authorize_conversation :: "vis_env \<Rightarrow> uuid \<Rightarrow> uuid \<Rightarrow> contact \<Rightarrow> access" where
  "authorize_conversation V user org c =
     (let strict = (case ve_settings V of None \<Rightarrow> False | Some s \<Rightarrow> vs_strict s) in
      if \<not> strict then
        (if ve_contacts_read V then both True
         else both (user_owns_contact V user org c
                (case ve_settings V of None \<Rightarrow> False | Some s \<Rightarrow> vs_away_reassign s)))
      else if ve_view_all V then both True
      else case active_for V org (ct_id c) of
        Some t \<Rightarrow>
          (case tx_agent t of
             Some agent \<Rightarrow> both (agent = user \<or> (ve_view_team V \<and> can_view_team_member V user agent))
           | None \<Rightarrow>
               (case tx_team t of
                  Some team \<Rightarrow> both (user_in_team V user team)
                | None \<Rightarrow> both (team_opt V user (account_default_team V org (ct_account c)))))
      | None \<Rightarrow>
          (case ct_assigned c of
             Some owner \<Rightarrow> both (owner = user \<or> (ve_view_team V \<and> can_view_team_member V user owner))
           | None \<Rightarrow>
               (case (case ct_team c of Some t \<Rightarrow> Some t | None \<Rightarrow> account_default_team V org (ct_account c)) of
                  Some team \<Rightarrow> both (user_in_team V user team)
                | None \<Rightarrow> both False)))"

section \<open>The SQL condition\<close>

text \<open>\<open>id IN (SELECT contact_id FROM agent_transfers WHERE organization_id = ? AND status = 'active' AND p)\<close>\<close>

definition in_transfers :: "vis_env \<Rightarrow> uuid \<Rightarrow> (agent_transfer \<Rightarrow> bool) \<Rightarrow> contact \<Rightarrow> bool" where
  "in_transfers V org p c \<longleftrightarrow>
     ct_id c \<in> set (map tx_contact (filter (\<lambda>t. live t \<and> tx_org t = org \<and> p t) (ve_transfers V)))"

text \<open>\<open>x IN (SELECT ...)\<close> on a nullable column.\<close>

definition sql_in :: "uuid option \<Rightarrow> uuid list \<Rightarrow> bool" where
  "sql_in x xs = (case x of None \<Rightarrow> False | Some y \<Rightarrow> y \<in> set xs)"

definition my_teams :: "vis_env \<Rightarrow> uuid \<Rightarrow> uuid list" where
  "my_teams V user = map fst (filter (\<lambda>m. snd m = user) (ve_members V))"

definition view_team_scope :: "vis_env \<Rightarrow> uuid \<Rightarrow> uuid list" where
  "view_team_scope V user = map snd (filter (\<lambda>m. fst m \<in> set (my_teams V user)) (ve_members V))"

text \<open>The raw EXISTS: it names the table itself, so no soft-delete condition is added to it.\<close>

definition acct_default :: "vis_env \<Rightarrow> uuid \<Rightarrow> contact \<Rightarrow> bool" where
  "acct_default V user c \<longleftrightarrow>
     (\<exists>a \<in> set (ve_accounts V). wa_name a = ct_account c \<and> wa_org a = ct_org c \<and> sql_in (wa_team a) (my_teams V user))"

definition scope_visible :: "vis_env \<Rightarrow> uuid \<Rightarrow> uuid \<Rightarrow> contact \<Rightarrow> bool" where
  "scope_visible V user org c =
     (let strict = (case ve_settings V of None \<Rightarrow> False | Some s \<Rightarrow> vs_strict s);
          mine = in_transfers V org (\<lambda>t. tx_agent t = Some user) in
      if \<not> strict then
        (if ve_contacts_read V then True
         else if (case ve_settings V of None \<Rightarrow> False | Some s \<Rightarrow> vs_away_reassign s)
         then (ct_assigned c = Some user
                 \<and> \<not> in_transfers V org (\<lambda>t. tx_agent t \<noteq> None \<and> tx_agent t \<noteq> Some user) c)
              \<or> mine c
         else ct_assigned c = Some user \<or> mine c)
      else if ve_view_all V then True
      else let active = in_transfers V org (\<lambda>_. True) in
        mine c
        \<or> in_transfers V org (\<lambda>t. tx_agent t = None \<and> sql_in (tx_team t) (my_teams V user)) c
        \<or> (in_transfers V org (\<lambda>t. tx_agent t = None \<and> tx_team t = None) c \<and> acct_default V user c)
        \<or> (\<not> active c \<and> ct_assigned c = Some user)
        \<or> (\<not> active c \<and> ct_assigned c = None \<and> sql_in (ct_team c) (my_teams V user))
        \<or> (\<not> active c \<and> ct_assigned c = None \<and> ct_team c = None \<and> acct_default V user c)
        \<or> (ve_view_team V \<and> in_transfers V org (\<lambda>t. sql_in (tx_agent t) (view_team_scope V user)) c)
        \<or> (ve_view_team V \<and> \<not> active c \<and> sql_in (ct_assigned c) (view_team_scope V user)))"

section \<open>The two are one rule\<close>

lemma in_transfers_iff: "in_transfers V org p c \<longleftrightarrow> (\<exists>t \<in> set (ve_transfers V). live_of org (ct_id c) t \<and> p t)"
  by (force simp: in_transfers_def live_of_def)

lemma my_teams_iff: "team \<in> set (my_teams V user) \<longleftrightarrow> user_in_team V user team"
  by (force simp: my_teams_def user_in_team_def)

lemma sql_in_teams: "sql_in x (my_teams V user) = team_opt V user x"
  by (simp add: sql_in_def team_opt_def my_teams_iff split: option.split)

lemma view_team_scope_iff: "owner \<in> set (view_team_scope V user) \<longleftrightarrow> can_view_team_member V user owner"
  unfolding view_team_scope_def can_view_team_member_def by (force simp: my_teams_def)

lemma sql_in_scope: "sql_in x (view_team_scope V user) = (case x of None \<Rightarrow> False | Some o1 \<Rightarrow> can_view_team_member V user o1)"
  by (simp add: sql_in_def view_team_scope_iff split: option.split)

text \<open>With the unique index, the latest active row of a contact is the only one.\<close>

lemma unique_live:
  assumes "one_active rows" "t \<in> set rows" "r \<in> set rows" "live_of org contact t" "live_of org contact r"
  shows "t = r"
proof -
  have "length (filter (live_of org contact) rows) \<le> 1" using assms(1) by (simp add: one_active_def)
  moreover have "t \<in> set (filter (live_of org contact) rows)" "r \<in> set (filter (live_of org contact) rows)"
    using assms by simp_all
  ultimately show ?thesis
    by (cases "filter (live_of org contact) rows") (auto simp: le_Suc_eq)
qed

lemma active_for_Some:
  assumes "one_active (ve_transfers V)" "active_for V org contact = Some t"
  shows "live_of org contact t" "(\<exists>r \<in> set (ve_transfers V). live_of org contact r \<and> p r) \<longleftrightarrow> p t"
proof -
  obtain ts where "sort_key latest_first (filter (live_of org contact) (ve_transfers V)) = t # ts"
    using assms(2) by (auto simp: active_for_def split: list.splits)
  then have "t \<in> set (sort_key latest_first (filter (live_of org contact) (ve_transfers V)))" by simp
  then have t: "t \<in> set (ve_transfers V)" "live_of org contact t" by auto
  show "live_of org contact t" by (rule t(2))
  show "(\<exists>r \<in> set (ve_transfers V). live_of org contact r \<and> p r) \<longleftrightarrow> p t"
    using unique_live [OF assms(1)] t by metis
qed

lemma active_for_None:
  assumes "active_for V org contact = None"
  shows "\<not> (\<exists>r \<in> set (ve_transfers V). live_of org contact r \<and> p r)"
proof -
  have "sort_key latest_first (filter (live_of org contact) (ve_transfers V)) = []"
    using assms by (auto simp: active_for_def split: list.splits)
  then have "set (sort_key latest_first (filter (live_of org contact) (ve_transfers V))) = {}" by simp
  then show ?thesis by auto
qed

text \<open>
  The accounts as the database keeps them: one row per name, and a cache that was invalidated
  whenever a default team changed.
\<close>

definition accounts_ok :: "vis_env \<Rightarrow> bool" where
  "accounts_ok V \<longleftrightarrow> distinct (map wa_name (ve_accounts V)) \<and> [] \<notin> set (map wa_name (ve_accounts V))
     \<and> (\<forall>org name. case ve_cache V org name of
          None \<Rightarrow> True
        | Some cached \<Rightarrow> cached = (case List.find (\<lambda>a. wa_org a = org \<and> wa_name a = name \<and> \<not> wa_deleted a) (ve_accounts V) of
             None \<Rightarrow> None | Some a \<Rightarrow> wa_team a))"

lemma fresh_cache:
  assumes "accounts_ok V" "ve_cache V org name = Some cached"
  shows "cached = (case List.find (\<lambda>a. wa_org a = org \<and> wa_name a = name \<and> \<not> wa_deleted a) (ve_accounts V) of
             None \<Rightarrow> None | Some a \<Rightarrow> wa_team a)"
proof -
  have "case ve_cache V org name of None \<Rightarrow> True
        | Some cached \<Rightarrow> cached = (case List.find (\<lambda>a. wa_org a = org \<and> wa_name a = name \<and> \<not> wa_deleted a) (ve_accounts V) of
             None \<Rightarrow> None | Some a \<Rightarrow> wa_team a)"
    using assms(1) unfolding accounts_ok_def by blast
  then show ?thesis using assms(2) by simp
qed

lemma default_team_iff:
  assumes "accounts_ok V" "ct_org c = org" "\<forall>a \<in> set (ve_accounts V). wa_name a = ct_account c \<longrightarrow> \<not> wa_deleted a"
  shows "team_opt V user (account_default_team V org (ct_account c)) = acct_default V user c"
proof -
  let ?P = "\<lambda>a. wa_org a = org \<and> wa_name a = ct_account c \<and> \<not> wa_deleted a"
  let ?row = "case List.find ?P (ve_accounts V) of None \<Rightarrow> None | Some a \<Rightarrow> wa_team a"
  have row: "account_default_team V org (ct_account c) = (if ct_account c = [] then None else ?row)"
  proof (cases "ve_cache V org (ct_account c)")
    case (Some cached)
    then have "cached = ?row" using fresh_cache [OF assms(1), of org "ct_account c"] by simp
    then show ?thesis using Some by (simp add: account_default_team_def)
  qed (simp add: account_default_team_def)
  show ?thesis
  proof (cases "List.find ?P (ve_accounts V)")
    case None
    then have "\<not> acct_default V user c"
      using assms(2,3) by (auto simp: acct_default_def find_None_iff)
    then show ?thesis using None row by (simp add: team_opt_def)
  next
    case (Some a)
    then have a: "a \<in> set (ve_accounts V)" "wa_org a = org" "wa_name a = ct_account c"
      by (auto simp: find_Some_iff)
    have only: "b = a" if "b \<in> set (ve_accounts V)" "wa_name b = ct_account c" for b
    proof (rule inj_onD)
      show "inj_on wa_name (set (ve_accounts V))"
        using assms(1) by (simp add: accounts_ok_def distinct_map)
      show "wa_name b = wa_name a" using that(2) a(3) by simp
    qed (rule that(1), rule a(1))
    have "ct_account c \<noteq> []" using assms(1) a by (force simp: accounts_ok_def)
    then have "account_default_team V org (ct_account c) = wa_team a" using row Some by simp
    moreover have "acct_default V user c = sql_in (wa_team a) (my_teams V user)"
      unfolding acct_default_def
    proof
      assume "\<exists>b \<in> set (ve_accounts V). wa_name b = ct_account c \<and> wa_org b = ct_org c
                \<and> sql_in (wa_team b) (my_teams V user)"
      then obtain b where b: "b \<in> set (ve_accounts V)" "wa_name b = ct_account c"
          "sql_in (wa_team b) (my_teams V user)" by (elim bexE conjE) rule
      show "sql_in (wa_team a) (my_teams V user)" using b(3) unfolding only [OF b(1,2)] .
    next
      assume "sql_in (wa_team a) (my_teams V user)"
      then show "\<exists>b \<in> set (ve_accounts V). wa_name b = ct_account c \<and> wa_org b = ct_org c
                \<and> sql_in (wa_team b) (my_teams V user)"
        using a assms(2) by (intro bexI [of _ a]) simp_all
    qed
    ultimately show ?thesis by (simp add: sql_in_teams)
  qed
qed

text \<open>C14 (equivalence).
  The list and the page agree: for every user, setting and permission, a conversation is in the SQL
  scope of the listings exactly when the decision function lets the user see it. This uses the
  unique index (one active attendance per contact), unique account names and a fresh cache, and that
  the contact's account is not a deleted one (see \<open>deleted_account_disagrees\<close>).\<close>

theorem scope_matches_function:
  assumes "one_active (ve_transfers V)" "accounts_ok V" "ct_org c = org"
    and "\<forall>a \<in> set (ve_accounts V). wa_name a = ct_account c \<longrightarrow> \<not> wa_deleted a"
  shows "scope_visible V user org c = can_view (authorize_conversation V user org c)"
proof -
  note default = default_team_iff [OF assms(2-4), of user]
  show ?thesis
  proof (cases "(case ve_settings V of None \<Rightarrow> False | Some s \<Rightarrow> vs_strict s) \<and> \<not> ve_view_all V")
    case False
    then show ?thesis
      by (auto simp: scope_visible_def authorize_conversation_def both_def user_owns_contact_def in_transfers_iff Let_def)
  next
    case strict: True
    show ?thesis
    proof (cases "active_for V org (ct_id c)")
      case (Some t)
      have one: "in_transfers V org p c = p t" for p
        using active_for_Some(2) [OF assms(1) Some] by (simp add: in_transfers_iff)
      show ?thesis
        using strict Some default
        by (cases "tx_agent t"; cases "tx_team t")
           (simp_all add: scope_visible_def authorize_conversation_def both_def one Let_def
             sql_in_teams sql_in_scope team_opt_def)
    next
      case None
      have none: "\<not> in_transfers V org p c" for p
        using active_for_None [OF None] by (simp add: in_transfers_iff)
      show ?thesis
        using strict None default
        by (cases "ct_assigned c"; cases "ct_team c"; cases "account_default_team V org (ct_account c)")
           (simp_all add: scope_visible_def authorize_conversation_def both_def none Let_def
             sql_in_teams sql_in_scope team_opt_def)
    qed
  qed
qed

section \<open>Where they disagree\<close>

text \<open>
  A contact of an account that was deleted (softly) still has the account's default team in the SQL
  condition, which has no \<open>deleted_at IS NULL\<close>, but not in the decision function.
\<close>

definition deleted_account_env :: vis_env where
  "deleted_account_env =
     \<lparr>ve_settings = Some \<lparr>vs_strict = True, vs_away_reassign = False\<rparr>, ve_contacts_read = True,
      ve_view_all = False, ve_view_team = False, ve_members = [(3, 5)], ve_transfers = [],
      ve_accounts = [\<lparr>wa_name = ''a'', wa_org = 1, wa_team = Some 3, wa_deleted = True\<rparr>],
      ve_cache = (\<lambda>_ _. None)\<rparr>"

lemma deleted_account_disagrees:
  "scope_visible deleted_account_env 5 1 sample_contact
   \<and> \<not> can_view (authorize_conversation deleted_account_env 5 1 sample_contact)"
  by code_simp

section \<open>Witness\<close>

definition sample_vis :: vis_env where
  "sample_vis = deleted_account_env\<lparr>ve_accounts := [\<lparr>wa_name = ''a'', wa_org = 1, wa_team = Some 3, wa_deleted = False\<rparr>]\<rparr>"

theorem scope_matches_function_witness: "can_view (authorize_conversation sample_vis 5 1 sample_contact)"
proof -
  have a: "one_active (ve_transfers sample_vis)"
    by (simp add: sample_vis_def deleted_account_env_def one_active_def)
  have b: "accounts_ok sample_vis" by (simp add: accounts_ok_def sample_vis_def deleted_account_env_def)
  have c: "ct_org sample_contact = 1" by (simp add: sample_contact_def)
  have d: "\<forall>x \<in> set (ve_accounts sample_vis). wa_name x = ct_account sample_contact \<longrightarrow> \<not> wa_deleted x"
    by (simp add: sample_vis_def deleted_account_env_def)
  have "scope_visible sample_vis 5 1 sample_contact" by code_simp
  then show ?thesis using scope_matches_function [OF a b c d, of 5] by simp
qed

end
