(* ===== verification/Assignment.thy ===== *)
theory Assignment
  imports Transfers
begin

text \<open>
  Team assignment (\<open>internal/assignment\<close>): who is eligible, the cached team configuration, the
  round-robin under the per-team advisory lock, the load-balanced pick and the two load counters.
  Before each statement other processes may have run (\<open>ae_others\<close>); the advisory lock is the promise
  that none of them is a round-robin of the same team.
\<close>

section \<open>Tables\<close>

datatype strategy = RoundRobin | LoadBalanced | ManualOnly | OtherStrategy string

datatype team_role = RoleManager | RoleAgent

record user =
  us_id :: uuid
  us_available :: bool
  us_active :: bool
  us_deleted :: bool

record team =
  team_id :: uuid
  team_strategy :: strategy
  team_timeout :: int
  team_active :: bool
  team_deleted :: bool

record member =
  tm_id :: uuid
  tm_team :: uuid
  tm_user :: uuid
  tm_role :: team_role
  tm_last :: "time option"
  tm_deleted :: bool

datatype call_transfer_status = CTWaiting | CTConnected | CTCompleted | CTAbandoned | CTNoAnswer

record call_transfer =
  cx_org :: uuid
  cx_agent :: "uuid option"
  cx_status :: call_transfer_status
  cx_created :: time
  cx_deleted :: bool

datatype call_status =
  CSRinging | CSAnswered | CSCompleted | CSMissed | CSRejected | CSFailed | CSTransferring | CSInitiating | CSAccepted

record call_log =
  cl_agent :: "uuid option"
  cl_status :: call_status
  cl_created :: time
  cl_deleted :: bool

record team_config =
  tc_strategy :: strategy
  tc_timeout :: int
  tc_members :: "uuid list"

record aworld =
  aw_users :: "user list"
  aw_teams :: "team list"
  aw_members :: "member list"
  aw_transfers :: "agent_transfer list"
  aw_call_transfers :: "call_transfer list"
  aw_call_logs :: "call_log list"
  aw_cache :: "uuid \<Rightarrow> team_config option"
  aw_now :: time

text \<open>
  \<open>ae_presence\<close> is the injected presence source, \<^const>\<open>None\<close> when none was set; \<open>ae_redis\<close> says
  whether the cache answers.
\<close>

record aenv =
  ae_others :: "aworld \<Rightarrow> aworld"
  ae_ok :: "aworld \<Rightarrow> bool"
  ae_redis :: "aworld \<Rightarrow> bool"
  ae_presence :: "(uuid \<Rightarrow> uuid \<Rightarrow> aworld \<Rightarrow> bool) option"

section \<open>Eligibility\<close>

definition is_connected :: "aenv \<Rightarrow> uuid \<Rightarrow> uuid \<Rightarrow> aworld \<Rightarrow> bool" where
  "is_connected E org u w = (case ae_presence E of None \<Rightarrow> True | Some p \<Rightarrow> p org u w)"

definition filter_eligible :: "aenv \<Rightarrow> uuid \<Rightarrow> uuid list \<Rightarrow> aworld \<Rightarrow> uuid list \<times> aworld" where
  "filter_eligible E org ids w0 =
     (if ids = [] then ([], w0)
      else let w = ae_others E w0;
               eligible = (if ae_ok E w
                 then map us_id (filter (\<lambda>u. us_id u \<in> set ids \<and> us_available u \<and> us_active u \<and> \<not> us_deleted u) (aw_users w))
                 else [])
           in (case ae_presence E of
                 None \<Rightarrow> (eligible, w)
               | Some p \<Rightarrow> (filter (\<lambda>i. p org i w) eligible, w)))"

definition is_agent_eligible :: "aenv \<Rightarrow> uuid \<Rightarrow> uuid \<Rightarrow> aworld \<Rightarrow> bool \<times> aworld" where
  "is_agent_eligible E org u w = (case filter_eligible E org [u] w of (l, w1) \<Rightarrow> (length l = 1, w1))"

datatype agent_state = StateOnline | StateAway | StateOffline

definition agent_state_of :: "bool \<Rightarrow> bool \<Rightarrow> agent_state" where
  "agent_state_of conn available =
     (if \<not> conn then StateOffline else if \<not> available then StateAway else StateOnline)"

definition filter_available :: "aenv \<Rightarrow> uuid \<Rightarrow> uuid list \<Rightarrow> uuid list \<Rightarrow> aworld \<Rightarrow> uuid list \<times> aworld" where
  "filter_available E org members exclude w =
     (if members = [] then ([], w)
      else let candidates = filter (\<lambda>i. i \<notin> set exclude) members in
        if candidates = [] then ([], w) else filter_eligible E org candidates w)"

section \<open>The cached team configuration\<close>

definition load_config :: "uuid \<Rightarrow> aworld \<Rightarrow> team_config option" where
  "load_config i w =
     (case List.find (\<lambda>t. team_id t = i \<and> team_active t \<and> \<not> team_deleted t) (aw_teams w) of
        None \<Rightarrow> None
      | Some t \<Rightarrow> Some \<lparr>tc_strategy = team_strategy t, tc_timeout = team_timeout t,
          tc_members = map tm_user (filter (\<lambda>m. tm_team m = i \<and> tm_role m = RoleAgent \<and> \<not> tm_deleted m) (aw_members w))\<rparr>)"

text \<open>A failed member query leaves the list empty; the configuration is cached all the same.\<close>

definition get_team_config :: "aenv \<Rightarrow> uuid \<Rightarrow> aworld \<Rightarrow> team_config option \<times> aworld" where
  "get_team_config E i w =
     (case (if ae_redis E w then aw_cache w i else None) of
        Some cfg \<Rightarrow> (Some cfg, w)
      | None \<Rightarrow>
          (let w1 = ae_others E w in
           if \<not> ae_ok E w1 then (None, w1)
           else case load_config i w1 of
             None \<Rightarrow> (None, w1)
           | Some c1 \<Rightarrow>
               (let w2 = ae_others E w1;
                    cfg = c1\<lparr>tc_members := (if ae_ok E w2
                      then map tm_user (filter (\<lambda>m. tm_team m = i \<and> tm_role m = RoleAgent \<and> \<not> tm_deleted m) (aw_members w2))
                      else [])\<rparr>
                in (Some cfg, if ae_redis E w2 then w2\<lparr>aw_cache := (aw_cache w2)(i := Some cfg)\<rparr> else w2))))"

definition invalidate_team_cache :: "aenv \<Rightarrow> uuid \<Rightarrow> aworld \<Rightarrow> aworld" where
  "invalidate_team_cache E i w = (if ae_redis E w then w\<lparr>aw_cache := (aw_cache w)(i := None)\<rparr> else w)"

section \<open>Round robin\<close>

text \<open>\<open>ORDER BY last_assigned_at ASC NULLS FIRST, user_id ASC\<close>\<close>

definition rr_key :: "member \<Rightarrow> int list" where
  "rr_key m = (case tm_last m of None \<Rightarrow> [0, int (tm_user m)] | Some t \<Rightarrow> [1, t, int (tm_user m)])"

definition candidates_of :: "uuid \<Rightarrow> uuid list \<Rightarrow> member list \<Rightarrow> member list" where
  "candidates_of team available ms =
     sort_key rr_key (filter (\<lambda>m. tm_team m = team \<and> tm_user m \<in> set available \<and> \<not> tm_deleted m) ms)"

definition stamp :: "uuid \<Rightarrow> time \<Rightarrow> member list \<Rightarrow> member list" where
  "stamp i now ms = map (\<lambda>m. if tm_id m = i \<and> \<not> tm_deleted m then m\<lparr>tm_last := Some now\<rparr> else m) ms"

definition assign_round_robin ::
  "aenv \<Rightarrow> uuid \<Rightarrow> uuid \<Rightarrow> uuid list \<Rightarrow> uuid list \<Rightarrow> aworld \<Rightarrow> uuid option \<times> aworld" where
  "assign_round_robin E team org members exclude w =
     (let w1 = ae_others E w in
      if \<not> ae_ok E w1 then (None, w1)
      else case filter_available E org members exclude w1 of
        ([], w2) \<Rightarrow> (None, w2)
      | (available, w2) \<Rightarrow>
          (let w3 = ae_others E w2 in
           if \<not> ae_ok E w3 then (None, w3)
           else case candidates_of team available (aw_members w3) of
             [] \<Rightarrow> (None, w3)
           | m # _ \<Rightarrow>
               (let w4 = ae_others E w3 in
                if \<not> ae_ok E w4 then (None, w4)
                else (Some (tm_user m), w4\<lparr>aw_members := stamp (tm_id m) (aw_now w4) (aw_members w4)\<rparr>))))"

section \<open>Load balancing\<close>

text \<open>The loop keeps the lowest count, -1 before the first agent; an agent without a count has 0.\<close>

fun pick_lowest :: "(uuid \<Rightarrow> int option) \<Rightarrow> uuid list \<Rightarrow> int \<Rightarrow> uuid option \<Rightarrow> uuid option" where
  "pick_lowest loads [] lowest best = best"
| "pick_lowest loads (u # us) lowest best =
     (let count = (case loads u of None \<Rightarrow> 0 | Some n \<Rightarrow> n) in
      if lowest < 0 \<or> count < lowest then pick_lowest loads us count (Some u)
      else pick_lowest loads us lowest best)"

type_synonym load_counter = "uuid \<Rightarrow> uuid list \<Rightarrow> aworld \<Rightarrow> (uuid \<Rightarrow> int option) \<times> aworld"

definition assign_load_balanced ::
  "aenv \<Rightarrow> uuid \<Rightarrow> uuid list \<Rightarrow> uuid list \<Rightarrow> load_counter \<Rightarrow> aworld \<Rightarrow> uuid option \<times> aworld" where
  "assign_load_balanced E org members exclude counter w =
     (case filter_available E org members exclude w of
        ([], w1) \<Rightarrow> (None, w1)
      | (available, w1) \<Rightarrow>
          (case counter org available w1 of (loads, w2) \<Rightarrow> (pick_lowest loads available (- 1) None, w2)))"

text \<open>\<open>SELECT agent_id, COUNT(*) ... GROUP BY agent_id\<close>: no entry for an agent without rows.\<close>

definition counts :: "uuid list \<Rightarrow> (uuid \<Rightarrow> nat) \<Rightarrow> uuid \<Rightarrow> int option" where
  "counts ids n u = (if u \<in> set ids \<and> n u > 0 then Some (int (n u)) else None)"

definition chat_count :: "uuid \<Rightarrow> aworld \<Rightarrow> uuid \<Rightarrow> nat" where
  "chat_count org w u = length (filter (\<lambda>t. tx_org t = org \<and> tx_agent t = Some u \<and> live t) (aw_transfers w))"

definition call_count :: "uuid \<Rightarrow> aworld \<Rightarrow> uuid \<Rightarrow> nat" where
  "call_count org w u = length (filter (\<lambda>t. cx_org t = org \<and> cx_agent t = Some u \<and> \<not> cx_deleted t
      \<and> (cx_status t = CTWaiting \<or> cx_status t = CTConnected)) (aw_call_transfers w))"

definition chat_load_counter :: "aenv \<Rightarrow> load_counter" where
  "chat_load_counter E org ids w0 =
     (let w = ae_others E w0 in
      (if ae_ok E w then counts ids (chat_count org w) else (\<lambda>_. None), w))"

definition call_load_counter :: "aenv \<Rightarrow> load_counter" where
  "call_load_counter E org ids w0 =
     (let w = ae_others E w0 in
      (if ae_ok E w then counts ids (call_count org w) else (\<lambda>_. None), w))"

definition active_call_max_age :: time where
  "active_call_max_age = 3 * 60 * minute"

definition is_agent_on_active_call :: "aenv \<Rightarrow> uuid \<Rightarrow> aworld \<Rightarrow> bool \<times> aworld" where
  "is_agent_on_active_call E u w =
     (let since = aw_now w - active_call_max_age; w1 = ae_others E w in
      if ae_ok E w1 \<and> (\<exists>t \<in> set (aw_call_transfers w1). cx_agent t = Some u \<and> cx_status t = CTConnected
                         \<and> cx_created t > since \<and> \<not> cx_deleted t)
      then (True, w1)
      else let w2 = ae_others E w1 in
        (ae_ok E w2 \<and> (\<exists>l \<in> set (aw_call_logs w2). cl_agent l = Some u
            \<and> cl_status l \<in> {CSInitiating, CSRinging, CSAnswered} \<and> cl_created l > since \<and> \<not> cl_deleted l), w2))"

section \<open>The dispatch\<close>

definition assign_to_team ::
  "aenv \<Rightarrow> uuid \<Rightarrow> uuid \<Rightarrow> uuid list \<Rightarrow> load_counter \<Rightarrow> aworld \<Rightarrow> uuid option \<times> aworld" where
  "assign_to_team E team org exclude counter w =
     (case get_team_config E team w of
        (None, w1) \<Rightarrow> (None, w1)
      | (Some cfg, w1) \<Rightarrow>
          (case tc_strategy cfg of
             RoundRobin \<Rightarrow> assign_round_robin E team org (tc_members cfg) exclude w1
           | LoadBalanced \<Rightarrow> assign_load_balanced E org (tc_members cfg) exclude counter w1
           | ManualOnly \<Rightarrow> (None, w1)
           | OtherStrategy _ \<Rightarrow> assign_round_robin E team org (tc_members cfg) exclude w1))"

definition get_available_agents :: "aenv \<Rightarrow> uuid \<Rightarrow> uuid \<Rightarrow> uuid list \<Rightarrow> aworld \<Rightarrow> uuid list \<times> aworld" where
  "get_available_agents E team org exclude w =
     (case get_team_config E team w of
        (None, w1) \<Rightarrow> ([], w1)
      | (Some cfg, w1) \<Rightarrow> filter_available E org (tc_members cfg) exclude w1)"

definition resolve_per_agent_timeout :: "int \<Rightarrow> int \<Rightarrow> int \<Rightarrow> int" where
  "resolve_per_agent_timeout of_team unused global_default =
     (if of_team > 0 then of_team else if global_default > 0 then global_default else 15)"

section \<open>Eligibility and the agent state\<close>

definition user_ok :: "aenv \<Rightarrow> uuid \<Rightarrow> aworld \<Rightarrow> uuid \<Rightarrow> bool" where
  "user_ok E org w i \<longleftrightarrow> ae_ok E w \<and> is_connected E org i w
     \<and> (\<exists>u \<in> set (aw_users w). us_id u = i \<and> us_available u \<and> us_active u \<and> \<not> us_deleted u)"

lemma set_filter_eligible:
  "i \<in> set (fst (filter_eligible E org ids w)) \<longleftrightarrow> i \<in> set ids \<and> user_ok E org (ae_others E w) i"
  by (cases "ids = []")
     (force simp: filter_eligible_def user_ok_def is_connected_def Let_def split: option.split)+

lemma set_filter_available:
  "i \<in> set (fst (filter_available E org members exclude w)) \<longleftrightarrow>
     i \<in> set members \<and> i \<notin> set exclude \<and> user_ok E org (ae_others E w) i"
proof (cases "members = [] \<or> filter (\<lambda>i. i \<notin> set exclude) members = []")
  case True
  then show ?thesis by (auto simp: filter_available_def filter_empty_conv Let_def)
next
  case False
  then show ?thesis by (auto simp: filter_available_def set_filter_eligible Let_def)
qed

lemma snd_filter_eligible: "snd (filter_eligible E org ids w) = (if ids = [] then w else ae_others E w)"
  by (simp add: filter_eligible_def Let_def split: option.split)

lemma snd_filter_available:
  "fst (filter_available E org members exclude w) \<noteq> [] \<Longrightarrow>
     snd (filter_available E org members exclude w) = ae_others E w"
  by (auto simp: filter_available_def snd_filter_eligible Let_def split: if_splits)

lemma distinct_filter_eligible:
  "distinct (map us_id (aw_users (ae_others E w))) \<Longrightarrow> distinct (fst (filter_eligible E org ids w))"
  by (auto simp: filter_eligible_def distinct_map_filter Let_def split: option.split)

text \<open>An active, existing user may receive a new attendance exactly when the state the interface shows
  for them is online: connected and not marked away.\<close>

theorem eligible_iff_online:
  assumes "ae_ok E (ae_others E w)" "distinct (map us_id (aw_users (ae_others E w)))"
    and "u \<in> set (aw_users (ae_others E w))" "us_active u" "\<not> us_deleted u"
  shows "fst (is_agent_eligible E org (us_id u) w)
    \<longleftrightarrow> agent_state_of (is_connected E org (us_id u) (ae_others E w)) (us_available u) = StateOnline"
proof -
  let ?w = "ae_others E w" and ?l = "fst (filter_eligible E org [us_id u] w)"
  have one: "length ?l = 1 \<longleftrightarrow> us_id u \<in> set ?l"
  proof
    assume "length ?l = 1"
    then obtain i where i: "?l = [i]" by (metis One_nat_def length_0_conv length_Suc_conv)
    then have "i \<in> set [us_id u]" using set_filter_eligible [of i E org "[us_id u]" w] by simp
    then show "us_id u \<in> set ?l" using i by simp
  next
    assume mem: "us_id u \<in> set ?l"
    have "set ?l \<subseteq> {us_id u}" using set_filter_eligible [of _ E org "[us_id u]" w] by auto
    then have "set ?l = {us_id u}" using mem by blast
    then show "length ?l = 1" using distinct_card [OF distinct_filter_eligible [OF assms(2)], of org "[us_id u]"] by simp
  qed
  have "(\<exists>v \<in> set (aw_users ?w). us_id v = us_id u \<and> us_available v \<and> us_active v \<and> \<not> us_deleted v)
      \<longleftrightarrow> us_available u"
    using assms(3-5) map_fst_eq_fst_unique [OF assms(2)] by metis
  then have "us_id u \<in> set ?l \<longleftrightarrow> is_connected E org (us_id u) ?w \<and> us_available u"
    using assms(1) set_filter_eligible [of "us_id u" E org "[us_id u]" w] by (simp add: user_ok_def)
  then show ?thesis
    using one by (simp add: is_agent_eligible_def agent_state_of_def case_prod_beta)
qed

section \<open>Whoever is picked\<close>

text \<open>The world some statements of other processes later.\<close>

definition later :: "aenv \<Rightarrow> nat \<Rightarrow> aworld \<Rightarrow> aworld" where
  "later E n w = ((ae_others E) ^^ n) w"

lemma later_0 [simp]: "later E 0 w = w"
  and later_Suc: "ae_others E (later E n w) = later E (Suc n) w"
  and later_others: "later E n (ae_others E w) = later E (Suc n) w"
  by (simp_all add: later_def funpow_swap1)

lemma pick_lowest_in: "pick_lowest loads us lowest best = Some u \<Longrightarrow> u \<in> set us \<or> best = Some u"
  by (induction us arbitrary: lowest best) (auto simp: Let_def split: if_splits)

lemma candidates_of_mem:
  "m \<in> set (candidates_of team available ms) \<longleftrightarrow>
     m \<in> set ms \<and> tm_team m = team \<and> tm_user m \<in> set available \<and> \<not> tm_deleted m"
  by (auto simp: candidates_of_def)

lemma round_robin_Some:
  assumes "assign_round_robin E team org members exclude w = (Some u, w')"
  obtains m ms where
    "candidates_of team (fst (filter_available E org members exclude (later E 1 w))) (aw_members (later E 3 w)) = m # ms"
    "u = tm_user m"
    "w' = (later E 4 w)\<lparr>aw_members := stamp (tm_id m) (aw_now (later E 4 w)) (aw_members (later E 4 w))\<rparr>"
proof -
  let ?F = "filter_available E org members exclude (ae_others E w)"
  from assms have ne: "fst ?F \<noteq> []"
    by (auto simp: assign_round_robin_def Let_def split: if_splits prod.splits list.splits)
  have snd: "snd ?F = later E 2 w"
    using snd_filter_available [OF ne] by (simp add: later_def numeral_2_eq_2)
  obtain a as where as: "?F = (a # as, later E 2 w)"
    using ne snd by (metis list.exhaust prod.exhaust_sel)
  have steps: "ae_others E (later E 2 w) = later E 3 w" "ae_others E (later E 3 w) = later E 4 w"
      "ae_others E w = later E 1 w"
    by (simp_all add: later_def numeral_2_eq_2 numeral_3_eq_3 eval_nat_numeral)
  show thesis
  proof (cases "candidates_of team (a # as) (aw_members (later E 3 w))")
    case Nil
    then show ?thesis using assms as steps
      by (simp add: assign_round_robin_def Let_def split: if_splits)
  next
    case (Cons m ms)
    show ?thesis
      by (rule that [of m ms])
         (use assms as steps Cons in \<open>simp_all add: assign_round_robin_def Let_def split: if_splits\<close>)
  qed
qed

lemma round_robin_pick:
  assumes "assign_round_robin E team org members exclude w = (Some u, w')"
  shows "u \<in> set members \<and> u \<notin> set exclude \<and> user_ok E org (later E 2 w) u"
proof -
  obtain m ms where m: "u = tm_user m"
    "candidates_of team (fst (filter_available E org members exclude (later E 1 w))) (aw_members (later E 3 w)) = m # ms"
    using round_robin_Some [OF assms] by metis
  then have "m \<in> set (candidates_of team (fst (filter_available E org members exclude (later E 1 w)))
      (aw_members (later E 3 w)))" by simp
  then have "u \<in> set (fst (filter_available E org members exclude (later E 1 w)))"
    unfolding candidates_of_mem m(1) by blast
  then show ?thesis by (simp add: set_filter_available later_def numeral_2_eq_2)
qed

lemma load_balanced_pick:
  assumes "assign_load_balanced E org members exclude counter w = (Some u, w')"
  shows "u \<in> set members \<and> u \<notin> set exclude \<and> user_ok E org (later E 1 w) u"
proof -
  have "u \<in> set (fst (filter_available E org members exclude w))"
    using assms pick_lowest_in
    by (fastforce simp: assign_load_balanced_def split: prod.splits list.splits)
  then show ?thesis by (simp add: set_filter_available later_def)
qed

text \<open>C15 (safety).
  Whatever the strategy of the team, the clock and the other processes do, an agent the assigner
  returns is a member of the configuration it read, was not excluded by the caller, and was active,
  marked available and connected when eligibility was asked; a manual team never gets one.\<close>

theorem assigned_agent_is_eligible:
  assumes "assign_to_team E team org exclude counter w = (Some u, w')"
  shows "\<exists>cfg w1 n. get_team_config E team w = (Some cfg, w1) \<and> tc_strategy cfg \<noteq> ManualOnly
    \<and> u \<in> set (tc_members cfg) \<and> u \<notin> set exclude \<and> user_ok E org (later E n w1) u"
proof -
  obtain cfg w1 where cfg: "get_team_config E team w = (Some cfg, w1)"
    using assms by (auto simp: assign_to_team_def split: prod.splits option.splits)
  then show ?thesis
    using assms round_robin_pick load_balanced_pick
    by (cases "tc_strategy cfg") (fastforce simp: assign_to_team_def)+
qed

section \<open>Fairness of the round robin\<close>

fun rr_run :: "aenv \<Rightarrow> uuid \<Rightarrow> uuid \<Rightarrow> uuid list \<Rightarrow> uuid list \<Rightarrow> nat \<Rightarrow> aworld \<Rightarrow> uuid option list \<times> aworld" where
  "rr_run E team org members exclude 0 w = ([], w)"
| "rr_run E team org members exclude (Suc n) w =
     (case assign_round_robin E team org members exclude w of
        (pick, w1) \<Rightarrow> (case rr_run E team org members exclude n w1 of (picks, w2) \<Rightarrow> (pick # picks, w2)))"

definition team_rows :: "uuid \<Rightarrow> aworld \<Rightarrow> member list" where
  "team_rows team w = filter (\<lambda>m. tm_team m = team \<and> \<not> tm_deleted m) (aw_members w)"

text \<open>
  A quiet stretch: the database answers, nobody's account, membership or presence changes, and, as
  the advisory lock promises, nobody else stamps a member of this team; the clock goes on.
\<close>

definition quiet :: "aenv \<Rightarrow> uuid \<Rightarrow> uuid \<Rightarrow> bool" where
  "quiet E team org \<longleftrightarrow>
     (\<forall>w. ae_ok E w \<and> aw_users (ae_others E w) = aw_users w
          \<and> team_rows team (ae_others E w) = team_rows team w \<and> aw_now w < aw_now (ae_others E w))
     \<and> (\<forall>i w v. is_connected E org i w = is_connected E org i v)"

text \<open>
  Every agent of \<open>A\<close> has one membership row in the team; those of \<open>P\<close> were stamped after \<open>T\<close>, the
  others not.
\<close>

definition round_state :: "member list \<Rightarrow> uuid set \<Rightarrow> uuid set \<Rightarrow> time \<Rightarrow> bool" where
  "round_state rows A P T \<longleftrightarrow>
     distinct (map tm_id rows)
     \<and> (\<forall>i \<in> A. length (filter (\<lambda>m. tm_user m = i) rows) = 1)
     \<and> (\<forall>m \<in> set rows. tm_user m \<in> A \<longrightarrow>
          (if tm_user m \<in> P then (\<exists>t. tm_last m = Some t \<and> T < t) else (\<forall>t. tm_last m = Some t \<longrightarrow> t \<le> T)))"

definition rr_ready :: "uuid \<Rightarrow> uuid set \<Rightarrow> aworld \<Rightarrow> bool" where
  "rr_ready team A w \<longleftrightarrow> round_state (team_rows team w) A {} (aw_now w)"

lemma one_row_unique:
  assumes "length (filter f rows) = 1" "m \<in> set rows" "r \<in> set rows" "f m" "f r"
  shows "m = r"
proof -
  obtain x where "filter f rows = [x]" using assms(1) by (metis One_nat_def length_0_conv length_Suc_conv)
  moreover have "m \<in> set (filter f rows)" "r \<in> set (filter f rows)" using assms by simp_all
  ultimately show ?thesis by simp
qed

lemma team_rows_stamp:
  "team_rows team (w\<lparr>aw_members := stamp i now ms\<rparr>) = stamp i now (team_rows team (w\<lparr>aw_members := ms\<rparr>))"
  by (induction ms) (simp_all add: team_rows_def stamp_def)

lemma map_stamp [simp]:
  "map tm_id (stamp i now ms) = map tm_id ms"
  "map tm_user (stamp i now ms) = map tm_user ms"
  "length (filter (\<lambda>m. tm_user m = j) (stamp i now ms)) = length (filter (\<lambda>m. tm_user m = j) ms)"
  by (induction ms) (simp_all add: stamp_def)

lemma round_state_stamp:
  assumes "round_state rows A P T" "m \<in> set rows" "\<forall>r \<in> set rows. \<not> tm_deleted r" "tm_user m \<in> A" "T < now"
  shows "round_state (stamp (tm_id m) now rows) A (insert (tm_user m) P) T"
  unfolding round_state_def
proof (intro conjI ballI impI)
  show "distinct (map tm_id (stamp (tm_id m) now rows))" using assms(1) by (simp add: round_state_def)
  show "length (filter (\<lambda>r. tm_user r = i) (stamp (tm_id m) now rows)) = 1" if "i \<in> A" for i
    using assms(1) that by (simp add: round_state_def)
  fix r assume r: "r \<in> set (stamp (tm_id m) now rows)" "tm_user r \<in> A"
  then obtain s where s: "s \<in> set rows" "r = (if tm_id s = tm_id m then s\<lparr>tm_last := Some now\<rparr> else s)"
    using assms(3) by (auto simp: stamp_def)
  have same: "tm_id s = tm_id m \<longleftrightarrow> s = m"
    using assms(1,2) s(1) map_fst_eq_fst_unique [of tm_id rows s m] by (auto simp: round_state_def)
  show "if tm_user r \<in> insert (tm_user m) P then \<exists>t. tm_last r = Some t \<and> T < t
        else \<forall>t. tm_last r = Some t \<longrightarrow> t \<le> T"
  proof (cases "s = m")
    case True
    then show ?thesis using s(2) assms(5) by simp
  next
    case False
    then have "r = s" using s(2) same by simp
    moreover have "tm_user s \<noteq> tm_user m"
    proof
      assume eq: "tm_user s = tm_user m"
      have "length (filter (\<lambda>x. tm_user x = tm_user m) rows) = 1" using assms(1,4) by (simp add: round_state_def)
      then show False using one_row_unique [OF _ s(1) assms(2), of "\<lambda>x. tm_user x = tm_user m"] eq False by simp
    qed
    ultimately show ?thesis using assms(1) s(1) r(2) by (simp add: round_state_def)
  qed
qed

lemma hd_sort_key_least:
  assumes "sort_key f xs = m # ms" "x \<in> set xs"
  shows "f m \<le> f x"
proof -
  have "sorted (f m # map f ms)" using sorted_sort_key [of f xs] assms(1) by simp
  moreover have "x \<in> set (m # ms)" using assms by (metis set_sort)
  ultimately show ?thesis by auto
qed

text \<open>While someone of \<open>A\<close> still waits for a turn, the next pick is one of those.\<close>

lemma next_is_waiting:
  assumes "round_state rows A P T" "candidates_of team available ms = m # rest"
    and "rows = filter (\<lambda>r. tm_team r = team \<and> \<not> tm_deleted r) ms" "set available = A" "i \<in> A" "i \<notin> P"
  shows "tm_user m \<in> A - P" "m \<in> set rows"
proof -
  have m: "m \<in> set (candidates_of team available ms)" using assms(2) by simp
  then show "m \<in> set rows" unfolding candidates_of_mem assms(3) by simp
  have mA: "tm_user m \<in> A" using m assms(4) by (simp add: candidates_of_mem)
  have "length (filter (\<lambda>r. tm_user r = i) rows) = 1" using assms(1,5) by (simp add: round_state_def)
  then have "filter (\<lambda>r. tm_user r = i) rows \<noteq> []" by force
  then obtain r where r: "r \<in> set rows" "tm_user r = i" by (auto simp: filter_empty_conv)
  have "rr_key m \<le> rr_key r"
    using hd_sort_key_least [OF assms(2) [unfolded candidates_of_def], of r] r assms(3-5) by auto
  moreover have "\<forall>t. tm_last r = Some t \<longrightarrow> t \<le> T"
    using assms(1,5,6) r by (simp add: round_state_def)
  moreover have "tm_user m \<in> P \<Longrightarrow> \<exists>t. tm_last m = Some t \<and> T < t"
    using assms(1) mA \<open>m \<in> set rows\<close> by (simp add: round_state_def)
  ultimately show "tm_user m \<in> A - P" using mA
    by (cases "tm_last r") (auto simp: rr_key_def)
qed

definition ready_agents :: "aenv \<Rightarrow> uuid \<Rightarrow> uuid list \<Rightarrow> uuid list \<Rightarrow> aworld \<Rightarrow> uuid set" where
  "ready_agents E org members exclude w = {i \<in> set members. i \<notin> set exclude \<and> user_ok E org w i}"

lemma quiet_later:
  assumes "quiet E team org"
  shows "ae_ok E w" "aw_users (later E n w) = aw_users w" "team_rows team (later E n w) = team_rows team w"
    "aw_now w \<le> aw_now (later E n w)" "n > 0 \<Longrightarrow> aw_now w < aw_now (later E n w)"
proof -
  show "ae_ok E w" using assms by (simp add: quiet_def)
  have step: "aw_users (ae_others E v) = aw_users v" "team_rows team (ae_others E v) = team_rows team v"
      "aw_now v < aw_now (ae_others E v)" for v
    using assms by (simp_all add: quiet_def)
  have "aw_users (later E n w) = aw_users w \<and> team_rows team (later E n w) = team_rows team w
      \<and> aw_now w \<le> aw_now (later E n w) \<and> (n > 0 \<longrightarrow> aw_now w < aw_now (later E n w))"
  proof (induction n)
    case (Suc n)
    then show ?case using step [of "later E n w"] by (simp add: later_Suc [symmetric])
  qed simp
  then show "aw_users (later E n w) = aw_users w" "team_rows team (later E n w) = team_rows team w"
    "aw_now w \<le> aw_now (later E n w)" "n > 0 \<Longrightarrow> aw_now w < aw_now (later E n w)" by simp_all
qed

lemma quiet_user_ok:
  assumes "quiet E team org" "aw_users v = aw_users w"
  shows "user_ok E org v i = user_ok E org w i"
proof -
  have "is_connected E org i v = is_connected E org i w" using assms(1) by (simp add: quiet_def)
  then show ?thesis using assms quiet_later(1) [OF assms(1)] by (simp add: user_ok_def)
qed

lemma quiet_available:
  assumes "quiet E team org"
  shows "set (fst (filter_available E org members exclude (later E n w))) = ready_agents E org members exclude w"
  using quiet_user_ok [OF assms quiet_later(2) [OF assms], of "Suc n" w]
  by (auto simp: set_filter_available ready_agents_def later_Suc)

definition stamps_until :: "member list \<Rightarrow> uuid set \<Rightarrow> time \<Rightarrow> bool" where
  "stamps_until rows A now \<longleftrightarrow> (\<forall>m \<in> set rows. tm_user m \<in> A \<longrightarrow> (\<forall>t. tm_last m = Some t \<longrightarrow> t \<le> now))"

lemma stamps_until_stamp:
  "stamps_until rows A before \<Longrightarrow> before \<le> now \<Longrightarrow> stamps_until (stamp i now rows) A now"
  by (fastforce simp: stamps_until_def stamp_def split: if_splits)

lemma round_state_restart:
  "round_state rows A P T \<Longrightarrow> stamps_until rows A now \<Longrightarrow> round_state rows A {} now"
  by (simp add: round_state_def stamps_until_def)

lemma round_robin_runs:
  assumes "quiet E team org" "filter_available E org members exclude (ae_others E w) = (a # as, later E 2 w)"
    and "candidates_of team (a # as) (aw_members (later E 3 w)) = m # ms"
  shows "assign_round_robin E team org members exclude w =
    (Some (tm_user m),
     (later E 4 w)\<lparr>aw_members := stamp (tm_id m) (aw_now (later E 4 w)) (aw_members (later E 4 w))\<rparr>)"
proof -
  have "ae_others E (later E 2 w) = later E 3 w" "ae_others E (later E 3 w) = later E 4 w"
    by (simp_all add: later_def numeral_2_eq_2 numeral_3_eq_3 eval_nat_numeral)
  then show ?thesis
    using assms(2,3) quiet_later(1) [OF assms(1)] by (simp add: assign_round_robin_def Let_def)
qed

lemma quiet_step:
  assumes q: "quiet E team org" and A: "A = ready_agents E org members exclude w"
    and st: "round_state (team_rows team w) A P T" "T \<le> aw_now w" "stamps_until (team_rows team w) A (aw_now w)"
    and i: "i \<in> A" "i \<notin> P"
  obtains u w' where "assign_round_robin E team org members exclude w = (Some u, w')" "u \<in> A - P"
    "round_state (team_rows team w') A (insert u P) T" "T \<le> aw_now w'"
    "stamps_until (team_rows team w') A (aw_now w')" "aw_users w' = aw_users w"
proof -
  let ?F = "filter_available E org members exclude (ae_others E w)"
  let ?v = "later E 3 w" and ?z = "later E 4 w"
  have F: "set (fst ?F) = A" using quiet_available [OF q, of members exclude 1 w] A by (simp add: later_def)
  then have ne: "fst ?F \<noteq> []" using i(1) by auto
  have snd: "snd ?F = later E 2 w" using snd_filter_available [OF ne] by (simp add: later_def numeral_2_eq_2)
  obtain a as where as: "?F = (a # as, later E 2 w)" using ne snd by (metis list.exhaust prod.exhaust_sel)
  have rows: "team_rows team ?v = team_rows team w" "team_rows team ?z = team_rows team w"
    by (rule quiet_later(3) [OF q])+
  have "length (filter (\<lambda>r. tm_user r = i) (team_rows team w)) = 1" using st(1) i(1) by (simp add: round_state_def)
  then have "filter (\<lambda>r. tm_user r = i) (team_rows team w) \<noteq> []" by force
  then obtain r where "r \<in> set (team_rows team ?v)" "tm_user r = i" by (auto simp: filter_empty_conv rows)
  then have "r \<in> set (candidates_of team (a # as) (aw_members ?v))"
    using F i(1) unfolding candidates_of_mem as by (simp add: team_rows_def)
  then obtain m ms where c: "candidates_of team (a # as) (aw_members ?v) = m # ms"
    by (cases "candidates_of team (a # as) (aw_members ?v)") simp_all
  have setA: "set (a # as) = A" using F as by simp
  have def_rows: "team_rows team w = filter (\<lambda>r. tm_team r = team \<and> \<not> tm_deleted r) (aw_members ?v)"
    using rows(1) by (simp add: team_rows_def)
  have m: "tm_user m \<in> A - P" "m \<in> set (team_rows team w)"
    by (rule next_is_waiting [OF st(1) c def_rows setA i])+
  let ?w' = "?z\<lparr>aw_members := stamp (tm_id m) (aw_now ?z) (aw_members ?z)\<rparr>"
  have rows': "team_rows team ?w' = stamp (tm_id m) (aw_now ?z) (team_rows team w)"
    by (simp add: team_rows_stamp rows(2) [symmetric])
  have now: "aw_now w < aw_now ?z" by (rule quiet_later(5) [OF q]) simp
  show thesis
  proof (rule that [of "tm_user m" ?w'])
    show "assign_round_robin E team org members exclude w = (Some (tm_user m), ?w')"
      by (rule round_robin_runs [OF q as c])
    show "tm_user m \<in> A - P" by (rule m(1))
    show "round_state (team_rows team ?w') A (insert (tm_user m) P) T"
      unfolding rows' using st(1) m now st(2)
      by (intro round_state_stamp) (simp_all add: team_rows_def)
    show "T \<le> aw_now ?w'" using st(2) now by simp
    show "stamps_until (team_rows team ?w') A (aw_now ?w')"
      unfolding rows' using stamps_until_stamp [OF st(3)] now by simp
    show "aw_users ?w' = aw_users w" using quiet_later(2) [OF q] by simp
  qed
qed

lemma quiet_run:
  assumes q: "quiet E team org"
    and "A = ready_agents E org members exclude w"
    and "round_state (team_rows team w) A P T" "T \<le> aw_now w" "stamps_until (team_rows team w) A (aw_now w)"
    and "P \<subseteq> A" "n \<le> card (A - P)"
  shows "\<exists>us w'. rr_run E team org members exclude n w = (map Some us, w') \<and> length us = n \<and> distinct us
    \<and> set us \<subseteq> A - P \<and> (\<exists>Q. round_state (team_rows team w') A Q T) \<and> stamps_until (team_rows team w') A (aw_now w')"
  using assms(2-)
proof (induction n arbitrary: w P)
  case 0
  then show ?case by (intro exI [of _ "[]"] exI [of _ w]) auto
next
  case (Suc n)
  have fin: "finite A" using Suc.prems(1) by (simp add: ready_agents_def)
  have "A - P \<noteq> {}" using Suc.prems(6) by (metis card.empty not_less_eq_eq zero_le)
  then obtain i where i: "i \<in> A" "i \<notin> P" by blast
  obtain u w1 where u: "assign_round_robin E team org members exclude w = (Some u, w1)" "u \<in> A - P"
    "round_state (team_rows team w1) A (insert u P) T" "T \<le> aw_now w1"
    "stamps_until (team_rows team w1) A (aw_now w1)" "aw_users w1 = aw_users w"
    using quiet_step [OF q Suc.prems(1-4) i] by metis
  have "A = ready_agents E org members exclude w1"
    using Suc.prems(1) quiet_user_ok [OF q u(6)] by (simp add: ready_agents_def)
  moreover have "n \<le> card (A - insert u P)"
  proof -
    have "A - insert u P = (A - P) - {u}" by blast
    then show ?thesis using Suc.prems(6) u(2) fin by (simp add: card_Diff_singleton)
  qed
  moreover have "insert u P \<subseteq> A" using u(2) Suc.prems(5) by blast
  ultimately obtain us w' where us: "rr_run E team org members exclude n w1 = (map Some us, w')" "length us = n"
    "distinct us" "set us \<subseteq> A - insert u P" "\<exists>Q. round_state (team_rows team w') A Q T"
    "stamps_until (team_rows team w') A (aw_now w')"
    using Suc.IH [of w1 "insert u P"] u(3-5) by metis
  show ?case
    by (intro exI [of _ "u # us"] exI [of _ w']) (use us u(1,2) in auto)
qed

text \<open>C16 (liveness).
  The round robin is fair: in a quiet stretch with \<open>n\<close> agents available, any \<open>n\<close> consecutive
  assignments give every available agent exactly one attendance, and the table is again in a state
  from which the next \<open>n\<close> are.\<close>

theorem round_robin_fair:
  assumes "quiet E team org" "A = ready_agents E org members exclude w" "rr_ready team A w"
  shows "\<exists>us w'. rr_run E team org members exclude (card A) w = (map Some us, w') \<and> distinct us \<and> set us = A
    \<and> rr_ready team A w'"
proof -
  have st: "round_state (team_rows team w) A {} (aw_now w)" using assms(3) by (simp add: rr_ready_def)
  then have un: "stamps_until (team_rows team w) A (aw_now w)" by (simp add: round_state_def stamps_until_def)
  obtain us w' where us: "rr_run E team org members exclude (card A) w = (map Some us, w')" "length us = card A"
    "distinct us" "set us \<subseteq> A" "\<exists>Q. round_state (team_rows team w') A Q (aw_now w)"
    "stamps_until (team_rows team w') A (aw_now w')"
    using quiet_run [OF assms(1,2) st order_refl un empty_subsetI, of "card A"] by auto
  have "finite A" using assms(2) by (simp add: ready_agents_def)
  then have "set us = A" using us(2-4) card_subset_eq [of A "set us"] distinct_card [of us] by simp
  moreover have "rr_ready team A w'" using us(5,6) round_state_restart by (auto simp: rr_ready_def)
  ultimately show ?thesis using us(1,3) by blast
qed

section \<open>Load\<close>

text \<open>
  What the load-balanced strategy relies on: a counter answers for the agents it is asked about and
  never with a negative number.
\<close>

locale load_count =
  fixes counter :: load_counter
  assumes nonneg: "fst (counter org ids w) u = Some n \<Longrightarrow> 0 \<le> n"
begin

definition load :: "uuid \<Rightarrow> uuid list \<Rightarrow> aworld \<Rightarrow> uuid \<Rightarrow> int" where
  "load org ids w u = (case fst (counter org ids w) u of None \<Rightarrow> 0 | Some n \<Rightarrow> n)"

lemma load_nonneg: "0 \<le> load org ids w u"
  using nonneg [of org ids w u] by (simp add: load_def split: option.split)

text \<open>The loop from a best agent so far.\<close>

lemma lowest_from:
  assumes "pick_lowest (fst (counter org ids w)) us (load org ids w b) (Some b) = Some u"
  shows "u \<in> set (b # us) \<and> (\<forall>v \<in> set (b # us). load org ids w u \<le> load org ids w v)"
  using assms
proof (induction us arbitrary: b)
  case (Cons x us)
  have c: "(case fst (counter org ids w) x of None \<Rightarrow> 0 | Some n \<Rightarrow> n) = load org ids w x" by (simp add: load_def)
  show ?case
  proof (cases "load org ids w x < load org ids w b")
    case True
    then show ?thesis using Cons.IH [of x] Cons.prems by (force simp: c Let_def)
  next
    case False
    then show ?thesis using Cons.IH [of b] Cons.prems load_nonneg [of org ids w b] by (force simp: c Let_def)
  qed
qed simp

lemma lowest_total: "pick_lowest loads us k (Some b) \<noteq> None"
  by (induction us arbitrary: k b) (simp_all add: Let_def)

lemma balanced_least:
  assumes "assign_load_balanced E org members exclude counter w = (Some u, w')"
    and "filter_available E org members exclude w = (available, w1)"
  shows "u \<in> set available \<and> (\<forall>v \<in> set available. load org available w1 u \<le> load org available w1 v)"
proof (cases available)
  case Nil
  then show ?thesis using assms by (simp add: assign_load_balanced_def)
next
  case (Cons a as)
  have "pick_lowest (fst (counter org available w1)) as (load org available w1 a) (Some a) = Some u"
    using assms Cons by (simp add: assign_load_balanced_def load_def Let_def split: prod.splits)
  from lowest_from [OF this] show ?thesis using Cons by simp
qed

lemma balanced_total:
  assumes "filter_available E org members exclude w = (available, w1)" "available \<noteq> []"
  shows "fst (assign_load_balanced E org members exclude counter w) \<noteq> None"
  using assms lowest_total
  by (cases available) (simp_all add: assign_load_balanced_def Let_def split: prod.splits)

end

interpretation chat: load_count "chat_load_counter E" for E
  by unfold_locales (auto simp: chat_load_counter_def counts_def Let_def split: if_splits)

interpretation calls: load_count "call_load_counter E" for E
  by unfold_locales (auto simp: call_load_counter_def counts_def Let_def split: if_splits)

lemma chat_load: "u \<in> set ids \<Longrightarrow> ae_ok E (ae_others E w) \<Longrightarrow> chat.load E org ids w u = int (chat_count org (ae_others E w) u)"
  by (simp add: chat.load_def chat_load_counter_def counts_def Let_def)

lemma call_load: "u \<in> set ids \<Longrightarrow> ae_ok E (ae_others E w) \<Longrightarrow> calls.load E org ids w u = int (call_count org (ae_others E w) u)"
  by (simp add: calls.load_def call_load_counter_def counts_def Let_def)

lemma load_balanced_worlds:
  assumes "assign_load_balanced E org members exclude counter w = (Some u, w')"
  obtains available where "filter_available E org members exclude w = (available, ae_others E w)"
proof -
  have ne: "fst (filter_available E org members exclude w) \<noteq> []"
    using assms by (auto simp: assign_load_balanced_def split: prod.splits list.splits)
  show thesis using that [of "fst (filter_available E org members exclude w)"] snd_filter_available [OF ne]
    by (metis prod.collapse)
qed

text \<open>
  The load-balanced strategy picks an agent who, in the world in which the loads were counted, has
  no more active chats (or waiting and connected calls) than any agent that was available: for both
  counters, the count the code compares is the count of the rows.\<close>

theorem load_balanced_least:
  assumes "ae_ok E (later E 2 w)" "v \<in> set members" "v \<notin> set exclude" "user_ok E org (ae_others E w) v"
  shows "(assign_load_balanced E org members exclude (chat_load_counter E) w = (Some u, w1) \<longrightarrow>
            chat_count org (later E 2 w) u \<le> chat_count org (later E 2 w) v)
       \<and> (assign_load_balanced E org members exclude (call_load_counter E) w = (Some u, w2) \<longrightarrow>
            call_count org (later E 2 w) u \<le> call_count org (later E 2 w) v)"
proof -
  have later: "later E 2 w = ae_others E (ae_others E w)" by (simp add: later_def numeral_2_eq_2)
  have mem: "v \<in> set available" if "filter_available E org members exclude w = (available, ae_others E w)" for available
    using set_filter_available [of v E org members exclude w] assms(2-4) that by simp
  show ?thesis
  proof (intro conjI impI)
    assume a: "assign_load_balanced E org members exclude (chat_load_counter E) w = (Some u, w1)"
    obtain available where f: "filter_available E org members exclude w = (available, ae_others E w)"
      using load_balanced_worlds [OF a] .
    show "chat_count org (later E 2 w) u \<le> chat_count org (later E 2 w) v"
      using chat.balanced_least [OF a f] mem [OF f] assms(1) chat_load [of _ available E "ae_others E w" org]
      by (auto simp: later)
  next
    assume a: "assign_load_balanced E org members exclude (call_load_counter E) w = (Some u, w2)"
    obtain available where f: "filter_available E org members exclude w = (available, ae_others E w)"
      using load_balanced_worlds [OF a] .
    show "call_count org (later E 2 w) u \<le> call_count org (later E 2 w) v"
      using calls.balanced_least [OF a f] mem [OF f] assms(1) call_load [of _ available E "ae_others E w" org]
      by (auto simp: later)
  qed
qed

section \<open>The cache\<close>

text \<open>After an invalidation that reached the cache, the next read is the database's.\<close>

lemma config_after_invalidate:
  assumes "ae_redis E w"
  shows "fst (get_team_config E i (invalidate_team_cache E i w)) =
    (let w1 = ae_others E (w\<lparr>aw_cache := (aw_cache w)(i := None)\<rparr>); w2 = ae_others E w1 in
     if \<not> ae_ok E w1 then None
     else map_option (\<lambda>c. c\<lparr>tc_members := (if ae_ok E w2
       then map tm_user (filter (\<lambda>m. tm_team m = i \<and> tm_role m = RoleAgent \<and> \<not> tm_deleted m) (aw_members w2))
       else [])\<rparr>) (load_config i w1))"
  using assms by (simp add: get_team_config_def invalidate_team_cache_def Let_def split: option.split)

section \<open>Witnesses\<close>

definition sample_aenv :: aenv where
  "sample_aenv = \<lparr>ae_others = (\<lambda>w. w\<lparr>aw_now := aw_now w + 1\<rparr>), ae_ok = (\<lambda>_. True), ae_redis = (\<lambda>_. True),
     ae_presence = Some (\<lambda>_ i _. i \<noteq> 9)\<rparr>"

definition sample_agent :: "uuid \<Rightarrow> user" where
  "sample_agent i = \<lparr>us_id = i, us_available = True, us_active = True, us_deleted = False\<rparr>"

definition sample_member :: "uuid \<Rightarrow> time option \<Rightarrow> member" where
  "sample_member i t = \<lparr>tm_id = 100 + i, tm_team = 3, tm_user = i, tm_role = RoleAgent, tm_last = t, tm_deleted = False\<rparr>"

definition sample_aworld :: aworld where
  "sample_aworld = \<lparr>aw_users = map sample_agent [5, 6, 9],
     aw_teams = [\<lparr>team_id = 3, team_strategy = RoundRobin, team_timeout = 0, team_active = True, team_deleted = False\<rparr>],
     aw_members = [sample_member 5 (Some 7), sample_member 6 None, sample_member 9 None],
     aw_transfers = [], aw_call_transfers = [], aw_call_logs = [], aw_cache = (\<lambda>_. None), aw_now = 10\<rparr>"

theorem eligible_iff_online_witness: "fst (is_agent_eligible sample_aenv 1 5 sample_aworld)"
proof -
  have "fst (is_agent_eligible sample_aenv 1 (us_id (sample_agent 5)) sample_aworld) \<longleftrightarrow>
      agent_state_of (is_connected sample_aenv 1 (us_id (sample_agent 5)) (ae_others sample_aenv sample_aworld))
        (us_available (sample_agent 5)) = StateOnline"
    by (rule eligible_iff_online) (simp_all add: sample_aenv_def sample_aworld_def sample_agent_def)
  then show ?thesis by (simp add: sample_agent_def sample_aenv_def is_connected_def agent_state_of_def)
qed

theorem assigned_agent_is_eligible_witness:
  "\<exists>cfg w1. get_team_config sample_aenv 3 sample_aworld = (Some cfg, w1) \<and> 6 \<in> set (tc_members cfg)"
proof -
  have a: "assign_to_team sample_aenv 3 1 [] (chat_load_counter sample_aenv) sample_aworld
      = (Some 6, snd (assign_to_team sample_aenv 3 1 [] (chat_load_counter sample_aenv) sample_aworld))"
    (is "?l = _")
  proof -
    have "fst ?l = Some 6" by code_simp
    then show ?thesis by (metis prod.collapse)
  qed
  show ?thesis using assigned_agent_is_eligible [OF a] by blast
qed

theorem round_robin_fair_witness:
  "\<exists>us. fst (rr_run sample_aenv 3 1 [5, 6, 9] [] 2 sample_aworld) = map Some us \<and> distinct us \<and> set us = {5, 6}"
proof -
  have q: "quiet sample_aenv 3 1"
    by (simp add: quiet_def sample_aenv_def team_rows_def is_connected_def)
  have A: "{5, 6} = ready_agents sample_aenv 1 [5, 6, 9] [] sample_aworld"
    by (auto simp: ready_agents_def user_ok_def is_connected_def sample_aenv_def sample_aworld_def sample_agent_def)
  have r: "rr_ready 3 {5, 6} sample_aworld"
    by (simp add: rr_ready_def round_state_def team_rows_def sample_aworld_def sample_member_def)
  have two: "card {5, 6 :: uuid} = 2" by simp
  show ?thesis using round_robin_fair [OF q A r] unfolding two by (metis fst_conv)
qed

theorem load_balanced_least_witness:
  "chat_count 1 (later sample_aenv 2 sample_aworld) 5 \<le> chat_count 1 (later sample_aenv 2 sample_aworld) 6"
proof -
  let ?r = "assign_load_balanced sample_aenv 1 [5, 6] [] (chat_load_counter sample_aenv) sample_aworld"
  have "fst ?r = Some 5" by code_simp
  then have a: "?r = (Some 5, snd ?r)" by (metis prod.collapse)
  have "user_ok sample_aenv 1 (ae_others sample_aenv sample_aworld) 6"
    by (simp add: user_ok_def is_connected_def sample_aenv_def sample_aworld_def sample_agent_def)
  moreover have "ae_ok sample_aenv (later sample_aenv 2 sample_aworld)" by (simp add: sample_aenv_def)
  ultimately show ?thesis
    using load_balanced_least [of sample_aenv sample_aworld 6 "[5, 6]" "[]" 1 5] a by auto
qed

end
