(* ===== verification/Flow_Graph.thy ===== *)
theory Flow_Graph
  imports Prelude
begin

text \<open>
  The flow graph the chatbot and the IVR share (\<open>internal/flowgraph/flowgraph.go\<close>): nodes, edges,
  the lookup maps and the resolution of an outcome to the next node; and how the chatbot accepts a
  graph (\<open>internal/handlers/chatbot_graph_types.go\<close>). The type of a node is a parameter, as in the
  code.
\<close>

section \<open>Graphs\<close>

record fedge =
  ed_from :: string
  ed_to :: string
  ed_cond :: string

record 't fnode =
  fn_id :: string
  fn_type :: 't
  fn_label :: string
  fn_config :: jsonb

record 't fgraph =
  fg_version :: int
  fg_nodes :: "'t fnode list"
  fg_edges :: "fedge list"
  fg_entry :: string

text \<open>
  \<open>BuildMaps\<close>: one pass over the nodes, a later node with the same id replacing the earlier one, and
  one over the edges, appended to the list of their source.
\<close>

fun node_map :: "'t fnode list \<Rightarrow> (string \<Rightarrow> 't fnode option) \<Rightarrow> string \<Rightarrow> 't fnode option" where
  "node_map [] m = m"
| "node_map (n # ns) m = node_map ns (m(fn_id n := Some n))"

fun edge_map :: "fedge list \<Rightarrow> (string \<Rightarrow> fedge list) \<Rightarrow> string \<Rightarrow> fedge list" where
  "edge_map [] m = m"
| "edge_map (e # es) m = edge_map es (m(ed_from e := m (ed_from e) @ [e]))"

definition node_of :: "'t fgraph \<Rightarrow> string \<Rightarrow> 't fnode option" where
  "node_of g = node_map (fg_nodes g) (\<lambda>_. None)"

definition outgoing_edges :: "'t fgraph \<Rightarrow> string \<Rightarrow> fedge list" where
  "outgoing_edges g = edge_map (fg_edges g) (\<lambda>_. [])"

fun resolve_from :: "fedge list \<Rightarrow> string \<Rightarrow> string \<Rightarrow> string" where
  "resolve_from [] outcome def = def"
| "resolve_from (e # es) outcome def =
     (if ed_cond e = outcome then ed_to e
      else resolve_from es outcome (if ed_cond e = ''default'' then ed_to e else def))"

definition resolve_edge :: "'t fgraph \<Rightarrow> string \<Rightarrow> string \<Rightarrow> string" where
  "resolve_edge g from outcome = resolve_from (outgoing_edges g from) outcome []"

section \<open>The maps\<close>

lemma find_append: "List.find P (xs @ ys) = (case List.find P xs of Some x \<Rightarrow> Some x | None \<Rightarrow> List.find P ys)"
  by (induction xs) auto

lemma node_map_find:
  "node_map ns m i = (case List.find (\<lambda>n. fn_id n = i) (rev ns) of Some n \<Rightarrow> Some n | None \<Rightarrow> m i)"
proof (induction ns arbitrary: m)
  case (Cons n ns)
  then show ?case by (simp add: find_append split: option.split)
qed simp

lemma node_of_find: "node_of g i = List.find (\<lambda>n. fn_id n = i) (rev (fg_nodes g))"
  by (simp add: node_of_def node_map_find split: option.split)

lemma node_of_Some: "node_of g i = Some n \<Longrightarrow> n \<in> set (fg_nodes g) \<and> fn_id n = i"
  using find_SomeD [of "\<lambda>n. fn_id n = i" "rev (fg_nodes g)" n] by (simp add: node_of_find)

lemma node_of_None: "node_of g i = None \<longleftrightarrow> i \<notin> set (map fn_id (fg_nodes g))"
  by (auto simp: node_of_find find_None_iff)

lemma edge_map_filter: "edge_map es m i = m i @ filter (\<lambda>e. ed_from e = i) es"
  by (induction es arbitrary: m) auto

lemma outgoing_edges_filter: "outgoing_edges g i = filter (\<lambda>e. ed_from e = i) (fg_edges g)"
  by (simp add: outgoing_edges_def edge_map_filter)

section \<open>The next node\<close>

text \<open>The first exact edge; without one, the last default edge (the first, for the outcome default).\<close>

definition next_spec :: "fedge list \<Rightarrow> string \<Rightarrow> string" where
  "next_spec es outcome =
     (case filter (\<lambda>e. ed_cond e = outcome) es of
        e # _ \<Rightarrow> ed_to e
      | [] \<Rightarrow> (case filter (\<lambda>e. ed_cond e = ''default'') es of [] \<Rightarrow> [] | ds \<Rightarrow> ed_to (last ds)))"

lemma resolve_from_spec:
  "resolve_from es outcome def =
     (case filter (\<lambda>e. ed_cond e = outcome) es of
        e # _ \<Rightarrow> ed_to e
      | [] \<Rightarrow> (case filter (\<lambda>e. ed_cond e = ''default'') es of [] \<Rightarrow> def | ds \<Rightarrow> ed_to (last ds)))"
proof (induction es arbitrary: def)
  case (Cons e es)
  then show ?case
    by (cases "filter (\<lambda>e. ed_cond e = ''default'') es") (auto split: list.split)
qed simp

text \<open>
  A graph whose edges all lead to nodes: what \<open>resolve_edge\<close> answers is no node at all or a node.
\<close>

definition closed_graph :: "'t fgraph \<Rightarrow> bool" where
  "closed_graph g \<longleftrightarrow> list_all (\<lambda>e. ed_to e = [] \<or> node_of g (ed_to e) \<noteq> None) (fg_edges g)"

text \<open>
  Through the two lookup maps, the runner's next node is what the edges say: of the edges leaving the
  node in the order of the graph, the first whose condition is the outcome; without one the last
  default edge; without any, none.\<close>

theorem resolve_edge_spec: "resolve_edge g from outcome = next_spec (filter (\<lambda>e. ed_from e = from) (fg_edges g)) outcome"
  by (simp add: resolve_edge_def outgoing_edges_filter resolve_from_spec next_spec_def)

lemma resolve_from_mem: "resolve_from es outcome def = def \<or> (\<exists>e \<in> set es. resolve_from es outcome def = ed_to e)"
proof (induction es arbitrary: def)
  case (Cons e es)
  then show ?case by (cases "ed_cond e = outcome"; cases "ed_cond e = ''default''") fastforce+
qed simp

lemma resolve_edge_closed:
  assumes "closed_graph g"
  shows "resolve_edge g from outcome = [] \<or> node_of g (resolve_edge g from outcome) \<noteq> None"
proof (cases "resolve_edge g from outcome = []")
  case False
  then obtain e where "e \<in> set (outgoing_edges g from)" "resolve_edge g from outcome = ed_to e"
    using resolve_from_mem [of "outgoing_edges g from" outcome "[]"] by (auto simp: resolve_edge_def)
  then show ?thesis
    using assms False by (fastforce simp: outgoing_edges_filter closed_graph_def list_all_iff)
qed simp

section \<open>Accepting a graph\<close>

text \<open>
  \<open>parseChatGraph\<close>: the blob is absent, cannot be decoded, or is a graph; a graph has version 2 and
  an entry node that exists.
\<close>

datatype graph_error = Undecodable string | BadVersion int | NoEntry | EntryMissing string

type_synonym 't graph_blob = "(string + 't fgraph) option"

definition parse_graph :: "'t graph_blob \<Rightarrow> graph_error + 't fgraph option" where
  "parse_graph raw =
     (case raw of
        None \<Rightarrow> Inr None
      | Some (Inl e) \<Rightarrow> Inl (Undecodable e)
      | Some (Inr g) \<Rightarrow>
          if fg_version g \<noteq> 2 then Inl (BadVersion (fg_version g))
          else if fg_entry g = [] then Inl NoEntry
          else if node_of g (fg_entry g) = None then Inl (EntryMissing (fg_entry g))
          else Inr (Some g))"

lemma parse_graph_entry: "parse_graph raw = Inr (Some g) \<Longrightarrow> node_of g (fg_entry g) \<noteq> None"
  by (auto simp: parse_graph_def split: option.splits sum.splits if_splits)

end
