(* ===== verification/Template_Engine.thy ===== *)
theory Template_Engine
  imports Prelude
begin

text \<open>
  The message templates of the chatbot (\<open>internal/handlers/template_engine.go\<close>): \<open>{{variable}}\<close>,
  \<open>{{if c}}...{{else}}...{{endif}}\<close>, \<open>{{for x in xs}}...{{endfor}}\<close>. Each regular expression is the
  matcher at a position that it denotes (they are deterministic: no alternative shares a first
  character with what may follow it), and a search takes the leftmost position. The
  \<open>{{for}}\<close> loop rescans its own output and may not end, so it runs on fuel; the other two
  phases are total.
\<close>

section \<open>Characters and tags\<close>

definition is_ws :: "char \<Rightarrow> bool" where
  "is_ws c \<longleftrightarrow> c \<in> {CHR 0x09, CHR 0x0A, CHR 0x0C, CHR 0x0D, CHR 0x20}"

definition is_alpha :: "char \<Rightarrow> bool" where
  "is_alpha c \<longleftrightarrow> (let b = byte c in (65 \<le> b \<and> b \<le> 90) \<or> (97 \<le> b \<and> b \<le> (122 :: nat)) \<or> b = 95)"

definition is_digit :: "char \<Rightarrow> bool" where
  "is_digit c \<longleftrightarrow> (let b = byte c in 48 \<le> b \<and> b \<le> (57 :: nat))"

definition is_word :: "char \<Rightarrow> bool" where
  "is_word c \<longleftrightarrow> is_alpha c \<or> is_digit c"

abbreviation open_tag :: string where "open_tag \<equiv> ''{{''"
abbreviation close_tag :: string where "close_tag \<equiv> ''}}''"
abbreviation else_tag :: string where "else_tag \<equiv> ''{{else}}''"
abbreviation endif_tag :: string where "endif_tag \<equiv> ''{{endif}}''"
abbreviation endfor_tag :: string where "endfor_tag \<equiv> ''{{endfor}}''"

text \<open>One or more characters of a class, and the rest.\<close>

definition some_of :: "(char \<Rightarrow> bool) \<Rightarrow> string \<Rightarrow> (string \<times> string) option" where
  "some_of P s = (case takeWhile P s of [] \<Rightarrow> None | w \<Rightarrow> Some (w, dropWhile P s))"

lemma some_of_length: "some_of P s = Some (w, r) \<Longrightarrow> w \<noteq> [] \<and> s = w @ r"
  by (auto simp: some_of_def split: list.splits)

text \<open>\<open>\w+(?:\.\w+)*\<close>\<close>

function word_more :: "string \<Rightarrow> string \<times> string" where
  "word_more s =
     (case s of
        [] \<Rightarrow> ([], [])
      | c # r \<Rightarrow>
          if c = CHR ''.'' then
            (case some_of is_word r of
               None \<Rightarrow> ([], s)
             | Some (w, r2) \<Rightarrow> (case word_more r2 of (more, r3) \<Rightarrow> (c # w @ more, r3)))
          else ([], s))"
  by pat_completeness auto
termination
  by (relation "measure length") (auto dest!: some_of_length)

definition word_path :: "string \<Rightarrow> (string \<times> string) option" where
  "word_path s =
     (case some_of is_word s of
        None \<Rightarrow> None
      | Some (w, r) \<Rightarrow> (case word_more r of (more, r2) \<Rightarrow> Some (w @ more, r2)))"

text \<open>\<open>[a-zA-Z_][a-zA-Z0-9_]*(?:\.[a-zA-Z_][a-zA-Z0-9_]*|\[\d+\])*\<close>\<close>

definition ident :: "string \<Rightarrow> (string \<times> string) option" where
  "ident s = (case s of [] \<Rightarrow> None | c # _ \<Rightarrow> if is_alpha c then some_of is_word s else None)"

definition bracketed :: "string \<Rightarrow> (string \<times> string) option" where
  "bracketed s =
     (case some_of is_digit s of
        Some (d, c # r) \<Rightarrow> if c = CHR '']'' then Some (d @ [c], r) else None
      | _ \<Rightarrow> None)"

lemma ident_length: "ident s = Some (w, r) \<Longrightarrow> w \<noteq> [] \<and> s = w @ r"
  by (auto simp: ident_def dest: some_of_length split: list.splits if_splits)

lemma bracketed_length: "bracketed s = Some (w, r) \<Longrightarrow> w \<noteq> [] \<and> s = w @ r"
  by (auto simp: bracketed_def dest!: some_of_length split: option.splits prod.splits list.splits if_splits)

function var_more :: "string \<Rightarrow> string \<times> string" where
  "var_more s =
     (case s of
        [] \<Rightarrow> ([], [])
      | c # r \<Rightarrow>
          (case (if c = CHR ''.'' then ident r else if c = CHR ''['' then bracketed r else None) of
             None \<Rightarrow> ([], s)
           | Some (w, r2) \<Rightarrow> (case var_more r2 of (more, r3) \<Rightarrow> (c # w @ more, r3))))"
  by pat_completeness auto
termination
  by (relation "measure length") (auto dest!: ident_length bracketed_length split: if_splits)

definition var_path :: "string \<Rightarrow> (string \<times> string) option" where
  "var_path s =
     (case ident s of
        None \<Rightarrow> None
      | Some (w, r) \<Rightarrow> (case var_more r of (more, r2) \<Rightarrow> Some (w @ more, r2)))"

lemma var_more_length: "length (snd (var_more s)) \<le> length s"
proof (induction s rule: var_more.induct)
  case (1 s)
  show ?case
  proof (cases s)
    case (Cons c r)
    show ?thesis
    proof (cases "if c = CHR ''.'' then ident r else if c = CHR ''['' then bracketed r else None")
      case (Some wr)
      obtain w r2 where wr: "wr = (w, r2)" by (cases wr)
      have "length r2 \<le> length r"
        using Some wr by (auto dest: ident_length bracketed_length split: if_splits)
      moreover have "length (snd (var_more r2)) \<le> length r2" using 1 [OF Cons Some wr [symmetric]] .
      ultimately show ?thesis using Cons Some wr by (subst var_more.simps) (auto split: prod.split)
    qed (use Cons in \<open>auto simp: var_more.simps\<close>)
  qed (simp add: var_more.simps)
qed

lemma var_path_length: "var_path s = Some (p, r) \<Longrightarrow> length r \<le> length s"
proof -
  assume "var_path s = Some (p, r)"
  then obtain w r1 where "ident s = Some (w, r1)" "r = snd (var_more r1)"
    by (auto simp: var_path_def split: option.splits prod.splits)
  then show ?thesis using var_more_length [of r1] ident_length [of s w r1] by simp
qed

declare word_more.simps [simp del] var_more.simps [simp del]

section \<open>The four patterns\<close>

text \<open>\<open>variablePattern\<close>: the text between the braces, spaces included, and what follows.\<close>

definition match_var :: "string \<Rightarrow> (string \<times> string) option" where
  "match_var s =
     (case strip_prefix open_tag s of
        None \<Rightarrow> None
      | Some r \<Rightarrow>
          (case var_path (dropWhile is_ws r) of
             None \<Rightarrow> None
           | Some (p, r2) \<Rightarrow>
               map_option (\<lambda>r3. (takeWhile is_ws r @ p @ takeWhile is_ws r2, r3))
                 (strip_prefix close_tag (dropWhile is_ws r2))))"

text \<open>
  \<open>ifElsePattern\<close>: the condition (everything after the first space, up to the first brace: the code
  trims it), the body up to the first \<open>{{endif}}\<close>, and what follows.
\<close>

definition match_if :: "string \<Rightarrow> (string \<times> string \<times> string) option" where
  "match_if s =
     (case strip_prefix ''{{if'' s of
        None \<Rightarrow> None
      | Some r \<Rightarrow>
          (case takeWhile (\<lambda>c. c \<noteq> CHR ''}'') r of
             w # c # cs \<Rightarrow>
               if \<not> is_ws w then None
               else (case strip_prefix close_tag (dropWhile (\<lambda>c. c \<noteq> CHR ''}'') r) of
                  None \<Rightarrow> None
                | Some r2 \<Rightarrow> map_option (\<lambda>(body, rest). (c # cs, body, rest)) (find_sub endif_tag r2))
           | _ \<Rightarrow> None))"

text \<open>\<open>forLoopPattern\<close>: the item variable, the path of the list, the body and what follows.\<close>

definition match_for :: "string \<Rightarrow> (string \<times> string \<times> string \<times> string) option" where
  "match_for s =
     (case strip_prefix ''{{for'' s of
        None \<Rightarrow> None
      | Some r1 \<Rightarrow>
     (case some_of is_ws r1 of
        None \<Rightarrow> None
      | Some (_, r2) \<Rightarrow>
     (case some_of is_word r2 of
        None \<Rightarrow> None
      | Some (item, r3) \<Rightarrow>
     (case some_of is_ws r3 of
        None \<Rightarrow> None
      | Some (_, r4) \<Rightarrow>
     (case strip_prefix ''in'' r4 of
        None \<Rightarrow> None
      | Some r5 \<Rightarrow>
     (case some_of is_ws r5 of
        None \<Rightarrow> None
      | Some (_, r6) \<Rightarrow>
     (case word_path r6 of
        None \<Rightarrow> None
      | Some (path, r7) \<Rightarrow>
     (case strip_prefix close_tag r7 of
        None \<Rightarrow> None
      | Some r8 \<Rightarrow> map_option (\<lambda>(body, rest). (item, path, body, rest)) (find_sub endfor_tag r8)))))))))"

text \<open>
  \<open>conditionPattern\<close>: the path, the operator (empty when there is none) and the value; the value
  may not contain a line break.
\<close>

definition operators :: "string list" where
  "operators = [''=='', ''!='', ''>='', ''<='', ''>'', ''<'']"

fun first_operator :: "string list \<Rightarrow> string \<Rightarrow> string \<times> string" where
  "first_operator [] s = ([], s)"
| "first_operator (p # ps) s = (case strip_prefix p s of Some r \<Rightarrow> (p, r) | None \<Rightarrow> first_operator ps s)"

definition match_condition :: "string \<Rightarrow> (string \<times> string \<times> string) option" where
  "match_condition s =
     (case word_path s of
        None \<Rightarrow> None
      | Some (path, r) \<Rightarrow>
          (case first_operator operators (dropWhile is_ws r) of
             (op, r2) \<Rightarrow>
               let v = dropWhile is_ws r2 in if CHR 0x0A \<in> set v then None else Some (path, op, v)))"

section \<open>Values\<close>

text \<open>\<open>splitPath\<close>: \<open>cur\<close> is the field being read; inside brackets everything up to \<open>]\<close> belongs to it.\<close>

fun split_path :: "string \<Rightarrow> bool \<Rightarrow> string \<Rightarrow> string list" where
  "split_path cur inside [] = (if cur = [] then [] else [cur])"
| "split_path cur True (c # cs) =
     (if c = CHR '']'' then split_path (cur @ [c]) False cs else split_path (cur @ [c]) True cs)"
| "split_path cur False (c # cs) =
     (if c = CHR ''.'' then (if cur = [] then split_path [] False cs else cur # split_path [] False cs)
      else if c = CHR ''['' then (if cur = [] then split_path [] False cs else split_path (cur @ [c]) True cs)
      else split_path (cur @ [c]) False cs)"

text \<open>\<open>strconv.Atoi\<close>; out of the range of int64 it is an error, which here is an index as useless.\<close>

definition atoi :: "string \<Rightarrow> int option" where
  "atoi s =
     (let (neg, d) = (case s of
          c # cs \<Rightarrow> if c = CHR ''-'' then (True, cs) else if c = CHR ''+'' then (False, cs) else (False, s)
        | [] \<Rightarrow> (False, []))
      in if d = [] \<or> \<not> list_all is_digit d then None
         else let n = foldl (\<lambda>a c. 10 * a + (int (byte c) - 48)) 0 d in Some (if neg then - n else n))"

text \<open>
  One part of a path: \<^const>\<open>None\<close> is the panic of the slice \<open>part[idx+1 : len(part)-1]\<close> when
  nothing follows the bracket.
\<close>

definition field_of :: "any \<Rightarrow> string \<Rightarrow> any" where
  "field_of v k = (case v of AObj m \<Rightarrow> jget m k | _ \<Rightarrow> ANil)"

definition elem_of :: "any \<Rightarrow> int \<Rightarrow> any" where
  "elem_of v i = (case v of AArr xs \<Rightarrow> if 0 \<le> i \<and> i < int (length xs) then xs ! nat i else ANil | _ \<Rightarrow> ANil)"

definition step_path :: "any \<Rightarrow> string \<Rightarrow> any option" where
  "step_path v part =
     (case find_sub ''['' part of
        None \<Rightarrow> Some (field_of v part)
      | Some (field, index) \<Rightarrow>
          if index = [] then None
          else (case atoi (butlast index) of
                  None \<Rightarrow> Some ANil
                | Some i \<Rightarrow> Some (elem_of (if field = [] then v else field_of v field) i)))"

fun walk_path :: "any \<Rightarrow> string list \<Rightarrow> any option" where
  "walk_path v [] = Some v"
| "walk_path v (p # ps) =
     (if v = ANil then Some ANil
      else case step_path v p of None \<Rightarrow> None | Some u \<Rightarrow> walk_path u ps)"

definition get_nested_value :: "jsonb \<Rightarrow> string \<Rightarrow> any option" where
  "get_nested_value data path = (if path = [] then Some ANil else walk_path (AObj data) (split_path [] False path))"

text \<open>What a template reads; its paths never panic (\<open>template_paths_never_panic\<close>).\<close>

definition nested :: "jsonb \<Rightarrow> string \<Rightarrow> any" where
  "nested data path = (case get_nested_value data path of None \<Rightarrow> ANil | Some v \<Rightarrow> v)"

text \<open>
  The printing and parsing of floating-point numbers and \<open>%v\<close> on composite values are parameters.
  A parsed number is a finite one, an infinity or not a number; \<open>int\<close> values (the loop index) are
  small enough to be exact.
\<close>

datatype float_val = Fin rat | Infinite bool | NotANumber

record formats =
  fm_float :: "rat \<Rightarrow> string"
  fm_any :: "any \<Rightarrow> string"
  fm_parse :: "string \<Rightarrow> float_val option"

fun float_less :: "float_val \<Rightarrow> float_val \<Rightarrow> bool" where
  "float_less (Fin a) (Fin b) = (a < b)"
| "float_less (Fin a) (Infinite neg) = (\<not> neg)"
| "float_less (Infinite neg) (Fin b) = neg"
| "float_less (Infinite neg) (Infinite neg') = (neg \<and> \<not> neg')"
| "float_less _ _ = False"

definition int64_rat :: "rat \<Rightarrow> int option" where
  "int64_rat q = (let i = \<lfloor>q\<rfloor> in if of_int i = q \<and> - (2 ^ 63) \<le> i \<and> i < 2 ^ 63 then Some i else None)"

fun is_truthy :: "any \<Rightarrow> bool" where
  "is_truthy ANil = False"
| "is_truthy (ABool b) = b"
| "is_truthy (AStr s) = (s \<noteq> [] \<and> s \<noteq> ''false'' \<and> s \<noteq> ''0'')"
| "is_truthy (AInt i) = (i \<noteq> 0)"
| "is_truthy (AFloat q) = (q \<noteq> 0)"
| "is_truthy (AArr xs) = (xs \<noteq> [])"
| "is_truthy (AObj m) = (m \<noteq> [])"

fun compare_equal :: "formats \<Rightarrow> any \<Rightarrow> string \<Rightarrow> bool" where
  "compare_equal F ANil t = (t = [] \<or> t = ''null'' \<or> t = ''nil'')"
| "compare_equal F (AStr s) t = (s = t)"
| "compare_equal F (ABool b) t = (show_bool b = t)"
| "compare_equal F (AInt i) t = (show_int i = t)"
| "compare_equal F (AFloat q) t =
     (case int64_rat q of Some i \<Rightarrow> show_int i = t | None \<Rightarrow> fm_any F (AFloat q) = t)"
| "compare_equal F v t = (fm_any F v = t)"

fun number_of :: "formats \<Rightarrow> any \<Rightarrow> float_val option" where
  "number_of F (AInt i) = Some (Fin (of_int i))"
| "number_of F (AFloat q) = Some (Fin q)"
| "number_of F (AStr s) = fm_parse F s"
| "number_of F _ = None"

definition compare_numeric :: "formats \<Rightarrow> any \<Rightarrow> string \<Rightarrow> int" where
  "compare_numeric F v t =
     (case number_of F v of
        None \<Rightarrow> 0
      | Some a \<Rightarrow>
          (case fm_parse F t of
             None \<Rightarrow> 0
           | Some b \<Rightarrow> if float_less a b then - 1 else if float_less b a then 1 else 0))"

fun format_value :: "formats \<Rightarrow> any \<Rightarrow> string" where
  "format_value F ANil = []"
| "format_value F (AStr s) = s"
| "format_value F (AInt i) = show_int i"
| "format_value F (AFloat q) = (case int64_rat q of Some i \<Rightarrow> show_int i | None \<Rightarrow> fm_float F q)"
| "format_value F (ABool b) = show_bool b"
| "format_value F v = fm_any F v"

definition unquote :: "string \<Rightarrow> string" where
  "unquote s =
     (if 2 \<le> length s \<and> (hd s = CHR 0x27 \<and> last s = CHR 0x27 \<or> hd s = CHR 0x22 \<and> last s = CHR 0x22)
      then butlast (tl s) else s)"

definition evaluate_condition :: "formats \<Rightarrow> jsonb \<Rightarrow> string \<Rightarrow> bool" where
  "evaluate_condition F data cond =
     (case match_condition (trim_space cond) of
        None \<Rightarrow> False
      | Some (path, op, rhs) \<Rightarrow>
          (let v = nested data path; t = unquote (trim_space rhs) in
           if op = [] then is_truthy v
           else if op = ''=='' then compare_equal F v t
           else if op = ''!='' then \<not> compare_equal F v t
           else if op = ''>'' then compare_numeric F v t > 0
           else if op = ''<'' then compare_numeric F v t < 0
           else if op = ''>='' then compare_numeric F v t \<ge> 0
           else if op = ''<='' then compare_numeric F v t \<le> 0
           else False))"

section \<open>The three phases\<close>

lemma match_var_shorter: "match_var s = Some (p, r) \<Longrightarrow> length r < length s"
proof -
  assume "match_var s = Some (p, r)"
  then obtain r1 q r2 where s: "s = open_tag @ r1" "var_path (dropWhile is_ws r1) = Some (q, r2)"
      "dropWhile is_ws r2 = close_tag @ r"
    by (auto simp: match_var_def strip_prefix_Some split: option.splits prod.splits)
  have "length r2 \<le> length (dropWhile is_ws r1)" by (rule var_path_length [OF s(2)])
  moreover have "length (dropWhile is_ws r2) \<le> length r2" "length (dropWhile is_ws r1) \<le> length r1"
    by (rule length_dropWhile_le)+
  ultimately show ?thesis using s(1,3) by simp
qed

text \<open>\<open>ReplaceAllStringFunc\<close>: one pass from the left; what was inserted is not looked at again.\<close>

function process_variables :: "formats \<Rightarrow> jsonb \<Rightarrow> string \<Rightarrow> string" where
  "process_variables F data s =
     (case s of
        [] \<Rightarrow> []
      | c # cs \<Rightarrow>
          (case match_var s of
             Some (p, r) \<Rightarrow> format_value F (nested data p) @ process_variables F data r
           | None \<Rightarrow> c # process_variables F data cs))"
  by pat_completeness auto
termination
  by (relation "measure (\<lambda>(_, _, s). length s)") (auto dest!: match_var_shorter)

declare process_variables.simps [simp del]

definition if_parts :: "string \<Rightarrow> string \<times> string" where
  "if_parts body = (case find_sub else_tag body of None \<Rightarrow> (body, []) | Some (a, b) \<Rightarrow> (a, b))"

lemma search_length: "search m s = Some (before, x) \<Longrightarrow> \<exists>rest. m rest = Some x \<and> length s = length before + length rest"
  by (drule search_some) auto

lemma find_sub_Some: "find_sub p s = Some (a, b) \<Longrightarrow> s = a @ p @ b"
  by (drule search_some) (auto simp: strip_prefix_Some)

lemma if_parts_length: "if_parts body = (a, b) \<Longrightarrow> length a \<le> length body \<and> length b \<le> length body"
  by (auto simp: if_parts_def dest: find_sub_Some split: option.splits)

lemma match_if_length:
  assumes "match_if s = Some (cond, body, rest)"
  shows "length body + length rest + 7 \<le> length s"
proof -
  obtain r r2 where r: "s = ''{{if'' @ r" "dropWhile (\<lambda>c. c \<noteq> CHR ''}'') r = close_tag @ r2"
      "find_sub endif_tag r2 = Some (body, rest)"
    using assms
    by (auto simp: match_if_def strip_prefix_Some split: option.splits list.splits if_splits)
  have "length (dropWhile (\<lambda>c. c \<noteq> CHR ''}'') r) \<le> length r" by (rule length_dropWhile_le)
  moreover have "r2 = body @ endif_tag @ rest" by (rule find_sub_Some [OF r(3)])
  ultimately show ?thesis using r(1,2) by simp
qed

function process_conditionals :: "formats \<Rightarrow> jsonb \<Rightarrow> string \<Rightarrow> string" where
  "process_conditionals F data s =
     (case search match_if s of
        None \<Rightarrow> s
      | Some (before, cond, body, rest) \<Rightarrow>
          process_conditionals F data
            (before @ (if evaluate_condition F data (trim_space cond)
                       then fst (if_parts body) else snd (if_parts body)) @ rest))"
  by pat_completeness auto
termination
proof (relation "measure (\<lambda>(_, _, s). length s)")
  fix F :: formats and data s x before y cond z body rest
  assume "search match_if s = Some x" "(before, y) = x" "(cond, z) = y" "(body, rest) = z"
  then have hit: "search match_if s = Some (before, cond, body, rest)" by simp
  obtain q where q: "match_if q = Some (cond, body, rest)" "length s = length before + length q"
    using search_length [OF hit] by (elim exE conjE) (rule that)
  let ?t = "if evaluate_condition F data (trim_space cond) then fst (if_parts body) else snd (if_parts body)"
  have "length ?t \<le> length body"
    using if_parts_length [of body "fst (if_parts body)" "snd (if_parts body)"] by (simp split: if_split)
  then have "length (before @ ?t @ rest) < length s"
    using match_if_length [OF q(1)] q(2) by (simp del: if_image_distrib)
  then show "((F, data, before @ ?t @ rest), F, data, s) \<in> measure (\<lambda>(_, _, s). length s)" by simp
qed simp

declare process_conditionals.simps [simp del]

definition max_loop_iterations :: nat where
  "max_loop_iterations = 50"

definition loop_data :: "jsonb \<Rightarrow> string \<Rightarrow> nat \<Rightarrow> any \<Rightarrow> jsonb" where
  "loop_data data item i x = jput (item @ ''_index'') (AInt (int i)) (jput item x data)"

definition for_items :: "formats \<Rightarrow> jsonb \<Rightarrow> string \<Rightarrow> any list \<Rightarrow> string \<Rightarrow> string" where
  "for_items F data item xs body =
     concat (map (\<lambda>(i, x). let d = loop_data data item i x in
               process_variables F d (process_conditionals F d body))
       (List.enumerate 0 (take max_loop_iterations xs)))"

definition for_output :: "formats \<Rightarrow> jsonb \<Rightarrow> string \<Rightarrow> string \<Rightarrow> string \<Rightarrow> string" where
  "for_output F data item path body =
     (case nested data path of AArr xs \<Rightarrow> for_items F data item xs body | _ \<Rightarrow> [])"

fun process_for_loops :: "nat \<Rightarrow> formats \<Rightarrow> jsonb \<Rightarrow> string \<Rightarrow> string option" where
  "process_for_loops 0 F data s = None"
| "process_for_loops (Suc n) F data s =
     (case search match_for s of
        None \<Rightarrow> Some s
      | Some (before, item, path, body, rest) \<Rightarrow>
          process_for_loops n F data (before @ for_output F data item path body @ rest))"

definition process_template :: "nat \<Rightarrow> formats \<Rightarrow> jsonb \<Rightarrow> string \<Rightarrow> string option" where
  "process_template n F data s =
     map_option (\<lambda>r. process_variables F data (process_conditionals F data r)) (process_for_loops n F data s)"

fun extract_response_mapping :: "jsonb \<Rightarrow> (string \<times> string) list \<Rightarrow> jsonb option" where
  "extract_response_mapping response [] = Some []"
| "extract_response_mapping response ((name, path) # m) =
     (case get_nested_value response path of
        None \<Rightarrow> None
      | Some v \<Rightarrow>
          map_option (\<lambda>r. if v = ANil then r else jput name v r) (extract_response_mapping response m))"

section \<open>The reference semantics\<close>

text \<open>A template as its author means it: conditionals hold no conditionals, loops no loops.\<close>

datatype inline = Lit string | Var string
datatype block = Inline inline | Cond string "inline list" "inline list option"
datatype node = Block block | Loop string string "block list"

fun print_inline :: "inline \<Rightarrow> string" where
  "print_inline (Lit s) = s"
| "print_inline (Var p) = open_tag @ p @ close_tag"

abbreviation print_inlines :: "inline list \<Rightarrow> string" where
  "print_inlines is \<equiv> concat (map print_inline is)"

fun print_block :: "block \<Rightarrow> string" where
  "print_block (Inline i) = print_inline i"
| "print_block (Cond c a b) = ''{{if '' @ c @ close_tag @ print_inlines a
     @ (case b of None \<Rightarrow> [] | Some e \<Rightarrow> else_tag @ print_inlines e) @ endif_tag"

abbreviation print_blocks :: "block list \<Rightarrow> string" where
  "print_blocks bs \<equiv> concat (map print_block bs)"

fun print_node :: "node \<Rightarrow> string" where
  "print_node (Block b) = print_block b"
| "print_node (Loop item path body) =
     ''{{for '' @ item @ '' in '' @ path @ close_tag @ print_blocks body @ endfor_tag"

abbreviation print_nodes :: "node list \<Rightarrow> string" where
  "print_nodes ns \<equiv> concat (map print_node ns)"

fun eval_inline :: "formats \<Rightarrow> jsonb \<Rightarrow> inline \<Rightarrow> string" where
  "eval_inline F data (Lit s) = s"
| "eval_inline F data (Var p) = format_value F (nested data p)"

fun chosen :: "formats \<Rightarrow> jsonb \<Rightarrow> block \<Rightarrow> inline list" where
  "chosen F data (Inline i) = [i]"
| "chosen F data (Cond c a b) =
     (if evaluate_condition F data (trim_space c) then a else case b of None \<Rightarrow> [] | Some e \<Rightarrow> e)"

definition eval_blocks :: "formats \<Rightarrow> jsonb \<Rightarrow> block list \<Rightarrow> string" where
  "eval_blocks F data bs = concat (map (eval_inline F data) (concat (map (chosen F data) bs)))"

fun eval_node :: "formats \<Rightarrow> jsonb \<Rightarrow> node \<Rightarrow> string" where
  "eval_node F data (Block b) = eval_blocks F data [b]"
| "eval_node F data (Loop item path body) =
     (case nested data path of
        AArr xs \<Rightarrow> concat (map (\<lambda>(i, x). eval_blocks F (loop_data data item i x) body)
                      (List.enumerate 0 (take max_loop_iterations xs)))
      | _ \<Rightarrow> [])"

text \<open>Well-formed templates, and data whose text has no opening brace.\<close>

fun inline_ok :: "inline \<Rightarrow> bool" where
  "inline_ok (Lit s) = (CHR ''{'' \<notin> set s)"
| "inline_ok (Var p) = (var_path (p @ close_tag) = Some (p, close_tag) \<and> p \<notin> {''else'', ''endif'', ''endfor''})"

fun block_ok :: "block \<Rightarrow> bool" where
  "block_ok (Inline i) = inline_ok i"
| "block_ok (Cond c a b) =
     (c \<noteq> [] \<and> \<not> is_ws (hd c) \<and> CHR ''{'' \<notin> set c \<and> CHR ''}'' \<notin> set c \<and> list_all inline_ok a
      \<and> (case b of None \<Rightarrow> True | Some e \<Rightarrow> list_all inline_ok e))"

fun node_ok :: "node \<Rightarrow> bool" where
  "node_ok (Block b) = block_ok b"
| "node_ok (Loop item path body) =
     (item \<noteq> [] \<and> list_all is_word item \<and> word_path (path @ close_tag) = Some (path, close_tag)
      \<and> list_all block_ok body)"

lemma size_member: "x \<in> set xs \<Longrightarrow> size (x :: any) \<le> size_list size xs"
  by (induction xs) auto

lemma size_binding: "kv \<in> set m \<Longrightarrow> size (snd kv :: any) \<le> size_list (size_prod (\<lambda>_. 0) size) m"
  by (induction m) auto

function clean :: "formats \<Rightarrow> any \<Rightarrow> bool" where
  "clean F ANil = True"
| "clean F (ABool b) = True"
| "clean F (AInt i) = True"
| "clean F (AFloat q) = (CHR ''{'' \<notin> set (fm_float F q))"
| "clean F (AStr s) = (CHR ''{'' \<notin> set s)"
| "clean F (AArr xs) = ((\<forall>x \<in> set xs. clean F x) \<and> CHR ''{'' \<notin> set (fm_any F (AArr xs)))"
| "clean F (AObj m) = ((\<forall>kv \<in> set m. clean F (snd kv)) \<and> CHR ''{'' \<notin> set (fm_any F (AObj m)))"
  by pat_completeness auto
termination
  by (relation "measure (\<lambda>(_, v). size v)") (auto simp: less_Suc_eq_le dest: size_member size_binding)

section \<open>Locality of the matchers\<close>

text \<open>A class that excludes the closing brace stops at it, whatever follows.\<close>

lemma some_of_local:
  assumes "CHR ''}'' \<in> set z" "\<not> P (CHR ''}'')"
  shows "some_of P (z @ s) = map_option (\<lambda>(w, r). (w, r @ s)) (some_of P z)"
proof -
  have "takeWhile P (z @ s) = takeWhile P z" "dropWhile P (z @ s) = dropWhile P z @ s"
    using assms by (auto simp: takeWhile_append1 dropWhile_append1)
  then show ?thesis by (simp add: some_of_def split: list.split)
qed

lemma some_of_keeps: "some_of P z = Some (w, r) \<Longrightarrow> CHR ''}'' \<in> set z \<Longrightarrow> \<not> P (CHR ''}'') \<Longrightarrow> CHR ''}'' \<in> set r"
  by (auto simp: some_of_def split: list.splits) (metis dropWhile_eq_Nil_conv in_set_conv_decomp set_takeWhileD takeWhile_dropWhile_id Un_iff set_append)

lemma word_brace [simp]: "\<not> is_word (CHR ''}'')" "\<not> is_digit (CHR ''}'')" "\<not> is_ws (CHR ''}'')"
    "\<not> is_word (CHR ''{'')" "\<not> is_ws (CHR ''{'')"
  by (simp_all add: is_word_def is_alpha_def is_digit_def is_ws_def)

lemma ident_local:
  "CHR ''}'' \<in> set z \<Longrightarrow> ident (z @ s) = map_option (\<lambda>(w, r). (w, r @ s)) (ident z)"
  using some_of_local [of z is_word s] by (cases z) (auto simp: ident_def)

lemma ident_keeps: "ident z = Some (w, r) \<Longrightarrow> CHR ''}'' \<in> set z \<Longrightarrow> CHR ''}'' \<in> set r"
  using some_of_keeps [of is_word z w r] by (auto simp: ident_def split: list.splits if_splits)

lemma bracketed_local:
  "CHR ''}'' \<in> set z \<Longrightarrow> bracketed (z @ s) = map_option (\<lambda>(w, r). (w, r @ s)) (bracketed z)"
  using some_of_local [of z is_digit s] some_of_keeps [of is_digit z]
  by (fastforce simp: bracketed_def split: option.splits prod.splits list.splits)

lemma bracketed_keeps: "bracketed z = Some (w, r) \<Longrightarrow> CHR ''}'' \<in> set z \<Longrightarrow> CHR ''}'' \<in> set r"
  using some_of_keeps [of is_digit z]
  by (fastforce simp: bracketed_def split: option.splits prod.splits list.splits if_splits)

lemma var_more_local:
  "CHR ''}'' \<in> set z \<Longrightarrow>
     var_more (z @ s) = (fst (var_more z), snd (var_more z) @ s) \<and> CHR ''}'' \<in> set (snd (var_more z))"
proof (induction z rule: var_more.induct)
  case (1 z)
  then obtain c r where z: "z = c # r" by (cases z) auto
  let ?step = "\<lambda>r. if c = CHR ''.'' then ident r else if c = CHR ''['' then bracketed r else None"
  show ?case
  proof (cases "c = CHR ''.'' \<or> c = CHR ''[''")
    case False
    then show ?thesis using z 1 by (simp add: var_more.simps)
  next
    case True
    then have r: "CHR ''}'' \<in> set r" using z 1(2) by auto
    have loc: "?step (r @ s) = map_option (\<lambda>(w, r). (w, r @ s)) (?step r)"
      using True ident_local [OF r] bracketed_local [OF r] by auto
    show ?thesis
    proof (cases "?step r")
      case None
      then have "var_more z = ([], z)" "var_more (z @ s) = ([], z @ s)"
        using loc z by (simp_all add: var_more.simps)
      then show ?thesis using 1(2) by simp
    next
      case (Some wr)
      obtain w r2 where wr: "wr = (w, r2)" by (cases wr)
      have r2: "CHR ''}'' \<in> set r2"
        using Some wr r by (auto dest: ident_keeps bracketed_keeps split: if_splits)
      have "var_more z = (c # w @ fst (var_more r2), snd (var_more r2))"
        using Some wr z by (subst var_more.simps) (simp split: prod.split)
      moreover have "var_more (z @ s) = (c # w @ fst (var_more (r2 @ s)), snd (var_more (r2 @ s)))"
        using Some loc wr z by (subst var_more.simps) (simp split: prod.split)
      ultimately show ?thesis using 1(1) [OF z Some wr [symmetric] r2] by simp
    qed
  qed
qed

lemma var_path_local:
  assumes "var_path z = Some (p, r)" "CHR ''}'' \<in> set z"
  shows "var_path (z @ s) = Some (p, r @ s)"
proof -
  obtain w r1 where w: "ident z = Some (w, r1)" "p = w @ fst (var_more r1)" "r = snd (var_more r1)"
    using assms(1) by (auto simp: var_path_def split: option.splits prod.splits)
  have "CHR ''}'' \<in> set r1" using ident_keeps [OF w(1) assms(2)] .
  then show ?thesis
    using w ident_local [OF assms(2), of s] var_more_local [of r1 s] by (simp add: var_path_def)
qed

lemma word_more_local:
  "CHR ''}'' \<in> set z \<Longrightarrow>
     word_more (z @ s) = (fst (word_more z), snd (word_more z) @ s) \<and> CHR ''}'' \<in> set (snd (word_more z))"
proof (induction z rule: word_more.induct)
  case (1 z)
  then obtain c r where z: "z = c # r" by (cases z) auto
  show ?case
  proof (cases "c = CHR ''.''")
    case False
    then show ?thesis using z 1 by (simp add: word_more.simps)
  next
    case True
    then have r: "CHR ''}'' \<in> set r" using z 1(2) by auto
    have loc: "some_of is_word (r @ s) = map_option (\<lambda>(w, r). (w, r @ s)) (some_of is_word r)"
      by (rule some_of_local [OF r]) simp
    show ?thesis
    proof (cases "some_of is_word r")
      case None
      then have "word_more z = ([], z)" "word_more (z @ s) = ([], z @ s)"
        using loc z True by (simp_all add: word_more.simps)
      then show ?thesis using 1(2) by simp
    next
      case (Some wr)
      obtain w r2 where wr: "wr = (w, r2)" by (cases wr)
      have r2: "CHR ''}'' \<in> set r2" using some_of_keeps [of is_word r w r2] Some wr r by simp
      have "word_more z = (c # w @ fst (word_more r2), snd (word_more r2))"
        using Some wr z True by (subst word_more.simps) (simp split: prod.split)
      moreover have "word_more (z @ s) = (c # w @ fst (word_more (r2 @ s)), snd (word_more (r2 @ s)))"
        using Some loc wr z True by (subst word_more.simps) (simp split: prod.split)
      ultimately show ?thesis using 1(1) [OF z True Some wr [symmetric] r2] by simp
    qed
  qed
qed

lemma word_path_local:
  assumes "word_path z = Some (p, r)" "CHR ''}'' \<in> set z"
  shows "word_path (z @ s) = Some (p, r @ s)"
proof -
  obtain w r1 where w: "some_of is_word z = Some (w, r1)" "p = w @ fst (word_more r1)" "r = snd (word_more r1)"
    using assms(1) by (auto simp: word_path_def split: option.splits prod.splits)
  have "CHR ''}'' \<in> set r1" using some_of_keeps [OF w(1) assms(2)] by simp
  then show ?thesis
    using w some_of_local [OF assms(2), of is_word s] word_more_local [of r1 s] by (simp add: word_path_def)
qed

text \<open>What a path is made of.\<close>

definition path_char :: "char \<Rightarrow> bool" where
  "path_char c \<longleftrightarrow> is_word c \<or> c \<in> {CHR ''.'', CHR ''['', CHR '']''}"

lemma path_char_not: "path_char c \<Longrightarrow> c \<noteq> CHR ''{'' \<and> c \<noteq> CHR ''}'' \<and> \<not> is_ws c"
  by (auto simp: path_char_def is_ws_def is_word_def is_alpha_def is_digit_def)

lemma some_of_all: "some_of P z = Some (w, r) \<Longrightarrow> list_all P w"
  by (auto simp: some_of_def list_all_iff split: list.splits dest: set_takeWhileD)

lemma ident_chars: "ident z = Some (w, r) \<Longrightarrow> list_all is_word w"
  by (auto simp: ident_def split: list.splits if_splits dest: some_of_all)

lemma var_more_chars: "list_all path_char (fst (var_more z))"
proof (induction z rule: var_more.induct)
  case (1 z)
  show ?case
  proof (cases z)
    case (Cons c r)
    let ?step = "if c = CHR ''.'' then ident r else if c = CHR ''['' then bracketed r else None"
    show ?thesis
    proof (cases ?step)
      case None
      then show ?thesis using Cons by (subst var_more.simps) simp
    next
      case (Some wr)
      obtain w r2 where wr: "wr = (w, r2)" by (cases wr)
      have "list_all path_char (c # w)"
        using Some wr
        by (auto simp: ident_def bracketed_def path_char_def is_word_def list_all_iff
            split: if_splits list.splits option.splits prod.splits dest!: some_of_all)
      then show ?thesis
        using Cons Some wr 1 [OF Cons Some wr [symmetric]] by (subst var_more.simps) (auto split: prod.split)
    qed
  qed (simp add: var_more.simps)
qed

lemma var_path_chars:
  assumes "var_path z = Some (p, r)"
  shows "p \<noteq> [] \<and> list_all path_char p"
proof -
  obtain w r1 where w: "ident z = Some (w, r1)" "p = w @ fst (var_more r1)"
    using assms by (auto simp: var_path_def split: option.splits prod.splits)
  have "list_all path_char w" using ident_chars [OF w(1)] by (auto simp: list_all_iff path_char_def)
  then show ?thesis using w(2) var_more_chars [of r1] ident_length [OF w(1)] by simp
qed

section \<open>What a search passes over\<close>

definition tag_matcher :: "(string \<Rightarrow> 'a option) \<Rightarrow> bool" where
  "tag_matcher m \<longleftrightarrow> (\<forall>s x. m s = Some x \<longrightarrow> (\<exists>r. s = open_tag @ r))"

definition inline_skipping :: "(string \<Rightarrow> 'a option) \<Rightarrow> bool" where
  "inline_skipping m \<longleftrightarrow> tag_matcher m
     \<and> (\<forall>p rest. inline_ok (Var p) \<longrightarrow> m (open_tag @ p @ close_tag @ rest) = None)"

definition block_skipping :: "(string \<Rightarrow> 'a option) \<Rightarrow> bool" where
  "block_skipping m \<longleftrightarrow> inline_skipping m
     \<and> (\<forall>rest. m (''{{if '' @ rest) = None \<and> m (else_tag @ rest) = None \<and> m (endif_tag @ rest) = None)"

lemma no_match_text: "tag_matcher m \<Longrightarrow> CHR ''{'' \<notin> set s \<Longrightarrow> no_match m s rest"
proof (induction s)
  case (Cons c s)
  have "m (c # s @ rest) = None"
    using Cons.prems by (cases "m (c # s @ rest)") (fastforce simp: tag_matcher_def)+
  then show ?case using Cons by (simp add: no_match_Cons)
qed simp

lemma no_match_tag:
  assumes "tag_matcher m" "m (open_tag @ p @ rest) = None" "CHR ''{'' \<notin> set p" "p \<noteq> []"
  shows "no_match m (open_tag @ p) rest"
proof -
  obtain c q where p: "p = c # q" using assms(4) by (cases p) auto
  have "m (CHR ''{'' # p @ rest) = None"
    using assms(1,3) p by (cases "m (CHR ''{'' # p @ rest)") (fastforce simp: tag_matcher_def)+
  then show ?thesis
    using assms(2) no_match_text [OF assms(1,3), of rest] by (simp add: no_match_Cons)
qed

lemma inline_ok_VarD:
  assumes "inline_ok (Var p)"
  shows "p \<noteq> []" "list_all path_char p" "CHR ''{'' \<notin> set p" "CHR ''}'' \<notin> set p" "\<not> is_ws (hd p)"
proof -
  have *: "p \<noteq> [] \<and> list_all path_char p" using assms var_path_chars by auto
  then show "p \<noteq> []" "list_all path_char p" by simp_all
  show "CHR ''{'' \<notin> set p" "CHR ''}'' \<notin> set p" using * path_char_not by (auto simp: list_all_iff)
  show "\<not> is_ws (hd p)" using * path_char_not by (cases p) auto
qed

lemma no_match_inlines:
  assumes "inline_skipping m" "list_all inline_ok is"
  shows "no_match m (print_inlines is) rest"
  using assms(2)
proof (induction "is")
  case (Cons i "is")
  have "no_match m (print_inline i) (print_inlines is @ rest)"
  proof (cases i)
    case (Lit s)
    then show ?thesis using Cons.prems assms(1) by (simp add: no_match_text inline_skipping_def)
  next
    case (Var p)
    then have p: "inline_ok (Var p)" using Cons.prems by simp
    have "no_match m (open_tag @ (p @ close_tag)) (print_inlines is @ rest)"
      using assms(1) p inline_ok_VarD [OF p] by (intro no_match_tag) (auto simp: inline_skipping_def)
    then show ?thesis using Var by simp
  qed
  then show ?case using Cons by (simp add: no_match_append)
qed simp

lemma no_match_block:
  assumes "block_skipping m" "block_ok b"
  shows "no_match m (print_block b) rest"
proof (cases b)
  case (Inline i)
  then show ?thesis using no_match_inlines [of m "[i]" rest] assms by (simp add: block_skipping_def)
next
  case (Cond c a e)
  have tm: "tag_matcher m" and im: "inline_skipping m"
    using assms(1) by (simp_all add: block_skipping_def inline_skipping_def)
  have head: "no_match m (open_tag @ (''if '' @ c @ close_tag)) r" for r
    using assms Cond by (intro no_match_tag [OF tm]) (auto simp: block_skipping_def)
  have els: "no_match m (open_tag @ ''else}}'') r" for r
    using assms by (intro no_match_tag [OF tm]) (auto simp: block_skipping_def)
  have endi: "no_match m (open_tag @ ''endif}}'') r" for r
    using assms by (intro no_match_tag [OF tm]) (auto simp: block_skipping_def)
  have inl: "list_all inline_ok is \<Longrightarrow> no_match m (print_inlines is) r" for "is" r
    by (rule no_match_inlines [OF im])
  have "print_block b = (open_tag @ (''if '' @ c @ close_tag)) @ print_inlines a
      @ (case e of None \<Rightarrow> [] | Some e \<Rightarrow> (open_tag @ ''else}}'') @ print_inlines e) @ (open_tag @ ''endif}}'')"
    using Cond by (simp split: option.split)
  then show ?thesis
    using head els endi inl assms(2) Cond unfolding no_match_append
    by (cases e) (simp_all only: no_match_append option.case block_ok.simps no_match_Nil append_Nil simp_thms)
qed

lemma no_match_blocks:
  "block_skipping m \<Longrightarrow> list_all block_ok bs \<Longrightarrow> no_match m (print_blocks bs) rest"
  by (induction bs) (simp_all add: no_match_append no_match_block)

lemma closing_unique:
  assumes "p @ CHR ''}'' # x = k @ CHR ''}'' # y" "CHR ''}'' \<notin> set p" "CHR ''}'' \<notin> set k"
  shows "p = k"
proof -
  have *: "CHR ''}'' \<notin> set u \<Longrightarrow> takeWhile (\<lambda>c. c \<noteq> CHR ''}'') (u @ CHR ''}'' # v) = u" for u v
    by (induction u) auto
  show ?thesis using arg_cong [OF assms(1), of "takeWhile (\<lambda>c. c \<noteq> CHR ''}'')"] *[OF assms(2)] *[OF assms(3)] by simp
qed

lemma strip_tag_skips:
  assumes "k \<in> {''else'', ''endif'', ''endfor''}"
  shows "inline_skipping (strip_prefix (open_tag @ k @ close_tag))"
  unfolding inline_skipping_def tag_matcher_def
proof (intro conjI allI impI)
  fix p rest assume p: "inline_ok (Var p)"
  have "CHR ''}'' \<notin> set k" using assms by auto
  moreover have "p \<noteq> k" using p assms by auto
  ultimately have "p @ close_tag @ rest \<noteq> (k @ close_tag) @ r" for r
    using closing_unique [of p "CHR ''}'' # rest" k] inline_ok_VarD(4) [OF p] by auto
  then show "strip_prefix (open_tag @ k @ close_tag) (open_tag @ p @ close_tag @ rest) = None"
    by (simp add: strip_prefix_None)
qed (auto simp: strip_prefix_Some)

lemma match_if_skips: "inline_skipping match_if"
  unfolding inline_skipping_def tag_matcher_def
proof (intro conjI allI impI)
  fix s x assume "match_if s = Some x"
  then show "\<exists>r. s = open_tag @ r" by (auto simp: match_if_def strip_prefix_Some split: option.splits)
next
  fix p rest assume p: "inline_ok (Var p)"
  show "match_if (open_tag @ p @ close_tag @ rest) = None"
  proof (cases "strip_prefix ''{{if'' (open_tag @ p @ close_tag @ rest)")
    case (Some r)
    then have eq: "p @ close_tag @ rest = CHR ''i'' # CHR ''f'' # r" by (simp add: strip_prefix_Some)
    then obtain q where q: "p = CHR ''i'' # CHR ''f'' # q" "r = q @ close_tag @ rest"
      by (cases p; cases "tl p") auto
    have "list_all path_char q" "CHR ''}'' \<notin> set q"
      using inline_ok_VarD(2,4) [OF p] q(1) by simp_all
    then have "takeWhile (\<lambda>c. c \<noteq> CHR ''}'') r = q" "list_all (\<lambda>c. \<not> is_ws c) q"
      using q(2) path_char_not by (auto simp: list_all_iff takeWhile_append)
    then show ?thesis using Some by (auto simp: match_if_def split: list.split)
  qed (simp add: match_if_def)
qed

lemma match_for_skips: "block_skipping match_for"
  unfolding block_skipping_def inline_skipping_def tag_matcher_def
proof (intro conjI allI impI)
  fix s x assume "match_for s = Some x"
  then show "\<exists>r. s = open_tag @ r" by (auto simp: match_for_def strip_prefix_Some split: option.splits)
next
  fix p rest assume p: "inline_ok (Var p)"
  show "match_for (open_tag @ p @ close_tag @ rest) = None"
  proof (cases "strip_prefix ''{{for'' (open_tag @ p @ close_tag @ rest)")
    case (Some r)
    then have eq: "p @ close_tag @ rest = CHR ''f'' # CHR ''o'' # CHR ''r'' # r" by (simp add: strip_prefix_Some)
    then obtain q where q: "p = CHR ''f'' # CHR ''o'' # CHR ''r'' # q" "r = q @ close_tag @ rest"
      by (cases p; cases "tl p"; cases "tl (tl p)") auto
    have "list_all path_char q" using inline_ok_VarD(2) [OF p] q(1) by simp
    then have "some_of is_ws r = None"
      using q(2) path_char_not by (cases q) (auto simp: some_of_def)
    then show ?thesis using Some by (simp add: match_for_def)
  qed (simp add: match_for_def)
qed (simp_all add: match_for_def strip_prefix_def)

lemma strip_endfor_skips: "block_skipping (strip_prefix endfor_tag)"
  using strip_tag_skips [of "''endfor''"] by (simp add: block_skipping_def strip_prefix_None)

section \<open>The phases on a printed template\<close>

lemma some_of_exact: "w \<noteq> [] \<Longrightarrow> list_all P w \<Longrightarrow> \<not> P c \<Longrightarrow> some_of P (w @ c # r) = Some (w, c # r)"
  by (cases w) (auto simp: some_of_def list_all_iff takeWhile_append dropWhile_append)

lemma match_if_block:
  assumes "block_ok (Cond c a e)" "no_match (strip_prefix endif_tag) body (endif_tag @ rest)"
  shows "match_if (''{{if '' @ c @ close_tag @ body @ endif_tag @ rest) = Some (c, body, rest)"
proof -
  obtain x y where c: "c = x # y" using assms(1) by (cases c) auto
  have "CHR ''}'' \<notin> set c" using assms(1) by simp
  then have tw: "takeWhile (\<lambda>c. c \<noteq> CHR ''}'') (c @ close_tag @ body @ endif_tag @ rest) = c"
      "dropWhile (\<lambda>c. c \<noteq> CHR ''}'') (c @ close_tag @ body @ endif_tag @ rest) = close_tag @ body @ endif_tag @ rest"
    by (auto simp: takeWhile_append dropWhile_append)
  have "find_sub endif_tag (body @ endif_tag @ rest) = Some (body, rest)"
    by (rule search_hit [OF assms(2)]) (simp add: strip_prefix_Some)
  then show ?thesis
    using tw c by (simp add: match_if_def strip_prefix_def is_ws_def)
qed

lemma if_parts_print:
  assumes "block_ok (Cond c a e)"
  shows "if_parts (print_inlines a @ (case e of None \<Rightarrow> [] | Some e \<Rightarrow> else_tag @ print_inlines e))
    = (print_inlines a, case e of None \<Rightarrow> [] | Some e \<Rightarrow> print_inlines e)"
proof -
  have sk: "inline_skipping (strip_prefix else_tag)" using strip_tag_skips [of "''else''"] by simp
  have nm: "no_match (strip_prefix else_tag) (print_inlines a) rest" for rest
    using no_match_inlines [OF sk] assms by simp
  show ?thesis
  proof (cases e)
    case None
    have "find_sub else_tag (print_inlines a) = None"
      by (rule search_miss [OF nm]) (simp add: strip_prefix_def)
    then show ?thesis using None by (simp add: if_parts_def)
  next
    case (Some e1)
    have "find_sub else_tag (print_inlines a @ (else_tag @ print_inlines e1)) = Some (print_inlines a, print_inlines e1)"
      by (rule search_hit [OF nm]) (simp add: strip_prefix_Some)
    then show ?thesis using Some by (simp add: if_parts_def)
  qed
qed

lemma no_match_if_body:
  assumes "block_ok (Cond c a e)"
  shows "no_match (strip_prefix endif_tag)
    (print_inlines a @ (case e of None \<Rightarrow> [] | Some e \<Rightarrow> else_tag @ print_inlines e)) rest"
proof -
  have sk: "inline_skipping (strip_prefix endif_tag)" using strip_tag_skips [of "''endif''"] by simp
  have els: "no_match (strip_prefix endif_tag) (open_tag @ ''else}}'') r" for r
    using sk by (intro no_match_tag) (auto simp: inline_skipping_def strip_prefix_None)
  have inl: "list_all inline_ok is \<Longrightarrow> no_match (strip_prefix endif_tag) (print_inlines is) r" for "is" r
    by (rule no_match_inlines [OF sk])
  show ?thesis
  proof (cases e)
    case None
    then show ?thesis using assms inl by simp
  next
    case (Some e1)
    have "no_match (strip_prefix endif_tag) (print_inlines a @ (open_tag @ ''else}}'') @ print_inlines e1) rest"
      unfolding no_match_append [of _ _ "_ @ print_inlines e1"] no_match_append [of _ _ "print_inlines e1"]
      using assms Some els inl by (intro conjI) simp_all
    then show ?thesis using Some by simp
  qed
qed

lemma chosen_ok: "block_ok b \<Longrightarrow> list_all inline_ok (chosen F data b)"
  by (cases b) (auto split: option.splits)

lemma conditionals_print:
  "list_all inline_ok is \<Longrightarrow> list_all block_ok bs \<Longrightarrow>
   process_conditionals F data (print_inlines is @ print_blocks bs)
     = print_inlines (is @ concat (map (chosen F data) bs))"
proof (induction bs arbitrary: "is")
  case Nil
  have "search match_if (print_inlines is) = None"
    by (rule search_miss [OF no_match_inlines [OF match_if_skips Nil(1)]]) (simp add: match_if_def strip_prefix_def)
  then show ?case by (simp add: process_conditionals.simps)
next
  case (Cons b bs)
  show ?case
  proof (cases b)
    case (Inline i)
    then show ?thesis using Cons.IH [of "is @ [i]"] Cons.prems by simp
  next
    case (Cond c a e)
    let ?body = "print_inlines a @ (case e of None \<Rightarrow> [] | Some e \<Rightarrow> else_tag @ print_inlines e)"
    have ok: "block_ok (Cond c a e)" using Cons.prems Cond by simp
    have print: "print_blocks (b # bs) = ''{{if '' @ c @ close_tag @ ?body @ endif_tag @ print_blocks bs"
      using Cond by simp
    have hit: "search match_if (print_inlines is @ print_blocks (b # bs))
        = Some (print_inlines is, c, ?body, print_blocks bs)"
      unfolding print
      by (rule search_hit [OF no_match_inlines [OF match_if_skips Cons.prems(1)]
            match_if_block [OF ok no_match_if_body [OF ok]]])
    have pick: "(if evaluate_condition F data (trim_space c) then fst (if_parts ?body) else snd (if_parts ?body))
        = print_inlines (chosen F data b)"
      unfolding if_parts_print [OF ok] using Cond by (simp split: option.split)
    have "process_conditionals F data (print_inlines is @ print_blocks (b # bs))
        = process_conditionals F data (print_inlines (is @ chosen F data b) @ print_blocks bs)"
      by (subst process_conditionals.simps) (simp only: hit option.case prod.case pick, simp)
    then show ?thesis using Cons.IH [of "is @ chosen F data b"] Cons.prems chosen_ok [of b F data] by simp
  qed
qed

lemma match_var_print:
  assumes "inline_ok (Var p)"
  shows "match_var (open_tag @ p @ close_tag @ rest) = Some (p, rest)"
proof -
  have "var_path (p @ close_tag) = Some (p, close_tag)" using assms by simp
  then have "var_path ((p @ close_tag) @ rest) = Some (p, close_tag @ rest)" by (rule var_path_local) simp
  moreover have "takeWhile is_ws (p @ close_tag @ rest) = []" "dropWhile is_ws (p @ close_tag @ rest) = p @ close_tag @ rest"
    using inline_ok_VarD(1,5) [OF assms] by (cases p; simp)+
  ultimately show ?thesis by (simp add: match_var_def strip_prefix_def)
qed

lemma variables_text: "CHR ''{'' \<notin> set s \<Longrightarrow> process_variables F data (s @ r) = s @ process_variables F data r"
proof (induction s)
  case (Cons c s)
  have "match_var (c # s @ r) = None" using Cons.prems by (auto simp: match_var_def strip_prefix_def)
  then show ?case using Cons by (subst process_variables.simps) simp
qed simp

lemma variables_print:
  "list_all inline_ok is \<Longrightarrow> process_variables F data (print_inlines is) = concat (map (eval_inline F data) is)"
proof (induction "is")
  case (Cons i "is")
  show ?case
  proof (cases i)
    case (Lit s)
    then show ?thesis using Cons by (simp add: variables_text)
  next
    case (Var p)
    then have "match_var (print_inlines (i # is)) = Some (p, print_inlines is)"
      using match_var_print [of p "print_inlines is"] Cons.prems by simp
    then show ?thesis using Cons Var by (subst process_variables.simps) simp
  qed
qed (simp add: process_variables.simps)

text \<open>The body of a loop, and what is left once the loops are gone.\<close>

lemma blocks_print:
  assumes "list_all block_ok bs"
  shows "process_variables F data (process_conditionals F data (print_blocks bs)) = eval_blocks F data bs"
proof -
  have "list_all inline_ok (concat (map (chosen F data) bs))"
    using assms chosen_ok by (fastforce simp: list_all_iff)
  then show ?thesis
    using conditionals_print [of "[]" bs F data] assms by (simp add: variables_print eval_blocks_def)
qed

lemma word_path_hd:
  assumes "word_path z = Some (p, r)"
  shows "p \<noteq> [] \<and> is_word (hd p)"
proof -
  obtain w r1 where w: "some_of is_word z = Some (w, r1)" "p = w @ fst (word_more r1)"
    using assms by (auto simp: word_path_def split: option.splits prod.splits)
  then show ?thesis using some_of_all [OF w(1)] some_of_length [OF w(1)] by (cases w) auto
qed

lemma match_for_print:
  assumes "node_ok (Loop item path body)"
  shows "match_for (print_node (Loop item path body) @ rest) = Some (item, path, print_blocks body, rest)"
proof -
  let ?r8 = "print_blocks body @ endfor_tag @ rest"
  have item: "item \<noteq> []" "list_all is_word item" using assms by simp_all
  have wp: "word_path (path @ close_tag) = Some (path, close_tag)" using assms by simp
  have path: "path \<noteq> []" "\<not> is_ws (hd path)"
    using word_path_hd [OF wp] by (auto simp: is_ws_def is_word_def is_alpha_def is_digit_def)
  obtain i1 i2 where i: "item = i1 # i2" using item(1) by (cases item) auto
  obtain p1 p2 where p: "path = p1 # p2" using path(1) by (cases path) auto
  have space: "is_ws (CHR '' '')" "\<not> is_word (CHR '' '')" "\<not> is_ws (CHR ''i'')"
    by (simp_all add: is_ws_def is_word_def is_alpha_def is_digit_def)
  have nws: "\<not> is_ws i1" "\<not> is_ws p1"
    using item(2) i path(2) p by (auto simp: is_ws_def is_word_def is_alpha_def is_digit_def)
  have s1: "some_of is_ws (CHR '' '' # item @ x) = Some ('' '', item @ x)" for x
    using i nws(1) space(1) by (simp add: some_of_def)
  have s2: "some_of is_word (item @ CHR '' '' # x) = Some (item, CHR '' '' # x)" for x
    by (rule some_of_exact [OF item space(2)])
  have s3: "some_of is_ws (CHR '' '' # CHR ''i'' # x) = Some ('' '', CHR ''i'' # x)" for x
    using space by (simp add: some_of_def)
  have s4: "some_of is_ws (CHR '' '' # path @ x) = Some ('' '', path @ x)" for x
    using p nws(2) space(1) by (simp add: some_of_def)
  have s5: "word_path (path @ close_tag @ x) = Some (path, close_tag @ x)" for x
    using word_path_local [OF wp, of x] by simp
  have s6: "find_sub endfor_tag ?r8 = Some (print_blocks body, rest)"
    by (rule search_hit [OF no_match_blocks [OF strip_endfor_skips]]) (use assms in \<open>simp_all add: strip_prefix_Some\<close>)
  show ?thesis
    using s1 s2 s3 s4 s5 s6 by (simp add: match_for_def strip_prefix_def)
qed

section \<open>Clean data\<close>

lemma show_nat_plain: "CHR ''{'' \<notin> set (show_nat n)"
proof (induction n rule: show_nat.induct)
  case (1 n)
  have d: "CHR ''{'' \<noteq> (char_of (48 + k) :: char)" if k: "k < 10" for k :: nat
  proof
    assume eq: "CHR ''{'' = (char_of (48 + k) :: char)"
    have "byte (CHR ''{'') = 48 + k" unfolding eq by (rule byte_char_of) (use k in simp)
    then show False using k by simp
  qed
  show ?case
  proof (cases "n < 10")
    case True
    then show ?thesis using d [of n] by (subst show_nat.simps) simp
  next
    case False
    then show ?thesis using 1 [OF False] d [of "n mod 10"] by (subst show_nat.simps) simp
  qed
qed

definition clean_data :: "formats \<Rightarrow> jsonb \<Rightarrow> bool" where
  "clean_data F data \<longleftrightarrow> (\<forall>kv \<in> set data. clean F (snd kv))"

lemma clean_jget: "\<forall>kv \<in> set m. clean F (snd kv) \<Longrightarrow> clean F (jget m k)"
  by (fastforce simp: jget_def split: option.split dest: map_of_SomeD)

lemma clean_data_jput: "clean_data F m \<Longrightarrow> clean F v \<Longrightarrow> clean_data F (jput k v m)"
  by (induction m) (auto simp: clean_data_def jput_def)

lemma clean_field: "clean F v \<Longrightarrow> clean F (field_of v k)"
  by (cases v) (auto simp: field_of_def intro: clean_jget)

lemma clean_elem: "clean F v \<Longrightarrow> clean F (elem_of v i)"
  by (cases v) (auto simp: elem_of_def)

lemma clean_step: "clean F v \<Longrightarrow> step_path v p = Some u \<Longrightarrow> clean F u"
  by (auto simp: step_path_def intro!: clean_field clean_elem split: option.splits if_splits)

lemma clean_walk: "clean F v \<Longrightarrow> walk_path v ps = Some u \<Longrightarrow> clean F u"
  by (induction v ps rule: walk_path.induct) (auto split: if_splits option.splits dest: clean_step)

lemma clean_first_step:
  assumes "clean_data F data" "step_path (AObj data) p = Some u"
  shows "clean F u"
proof -
  have *: "clean F (field_of (AObj data) k)" for k
    using assms(1) by (auto simp: field_of_def clean_data_def intro: clean_jget)
  show ?thesis
    using assms(2) * clean_elem [OF *] by (auto simp: step_path_def elem_of_def split: option.splits if_splits)
qed

lemma split_path_ne: "cur \<noteq> [] \<Longrightarrow> split_path cur b s \<noteq> []"
  by (induction cur b s rule: split_path.induct) auto

lemma clean_nested:
  assumes "clean_data F data" "p \<noteq> []" "is_word (hd p)"
  shows "clean F (nested data p)"
proof -
  obtain c q where p: "p = c # q" using assms(2) by (cases p) auto
  have "c \<noteq> CHR ''.''" "c \<noteq> CHR ''[''"
    using assms(3) p by (auto simp: is_word_def is_alpha_def is_digit_def)
  then have "split_path [] False p \<noteq> []" using p split_path_ne [of "[c]"] by simp
  then obtain a as where a: "split_path [] False p = a # as" by (cases "split_path [] False p") auto
  have "clean F v" if v: "get_nested_value data p = Some v" for v
  proof -
    obtain u where u: "step_path (AObj data) a = Some u" "walk_path u as = Some v"
      using v a assms(2) by (auto simp: get_nested_value_def split: option.splits)
    show ?thesis by (rule clean_walk [OF clean_first_step [OF assms(1) u(1)] u(2)])
  qed
  then show ?thesis by (simp add: nested_def split: option.split)
qed

lemma format_clean: "clean F v \<Longrightarrow> CHR ''{'' \<notin> set (format_value F v)"
  by (cases v) (auto simp: show_int_def show_nat_plain show_bool_def split: option.split)

lemma inline_hd_word:
  assumes "inline_ok (Var p)"
  shows "is_word (hd p)"
proof -
  obtain w r1 more where w: "ident (p @ close_tag) = Some (w, r1)" "p = w @ more"
    using assms by (auto simp: var_path_def split: option.splits prod.splits)
  then show ?thesis using ident_chars [OF w(1)] ident_length [OF w(1)] by (cases w) auto
qed

lemma eval_inline_clean: "clean_data F data \<Longrightarrow> inline_ok i \<Longrightarrow> CHR ''{'' \<notin> set (eval_inline F data i)"
  by (cases i) (use clean_nested format_clean inline_hd_word inline_ok_VarD(1) in auto)

lemma eval_blocks_clean:
  assumes "clean_data F data" "list_all block_ok bs"
  shows "CHR ''{'' \<notin> set (eval_blocks F data bs)"
proof -
  have "\<forall>i \<in> set (concat (map (chosen F data) bs)). inline_ok i"
    using assms(2) chosen_ok by (fastforce simp: list_all_iff)
  then show ?thesis using eval_inline_clean [OF assms(1)] by (auto simp: eval_blocks_def)
qed

lemma clean_loop_data: "clean_data F data \<Longrightarrow> clean F x \<Longrightarrow> clean_data F (loop_data data item i x)"
  by (simp add: loop_data_def clean_data_jput)

lemma eval_node_clean:
  assumes "clean_data F data" "node_ok n"
  shows "CHR ''{'' \<notin> set (eval_node F data n)"
proof (cases n)
  case (Block b)
  then show ?thesis using eval_blocks_clean [OF assms(1), of "[b]"] assms(2) by simp
next
  case (Loop item path body)
  have "path \<noteq> []" "is_word (hd path)" using assms(2) Loop word_path_hd by auto
  then have *: "clean F (nested data path)" by (intro clean_nested [OF assms(1)])
  show ?thesis
  proof (cases "nested data path")
    case (AArr xs)
    then have "\<forall>x \<in> set xs. clean F x" using * by simp
    then have "\<forall>(i, x) \<in> set (List.enumerate 0 (take max_loop_iterations xs)). clean F x"
      by (auto simp: in_set_enumerate_eq dest: in_set_takeD)
    then show ?thesis
      using Loop AArr assms eval_blocks_clean clean_loop_data by fastforce
  qed (simp_all add: Loop)
qed

section \<open>The engine implements the reference\<close>

fun is_loop :: "node \<Rightarrow> bool" where
  "is_loop (Block b) = False"
| "is_loop (Loop item path body) = True"

fun unroll :: "formats \<Rightarrow> jsonb \<Rightarrow> node \<Rightarrow> block" where
  "unroll F data (Block b) = b"
| "unroll F data (Loop item path body) = Inline (Lit (eval_node F data (Loop item path body)))"

lemma for_output_print:
  "node_ok (Loop item path body) \<Longrightarrow>
   for_output F data item path (print_blocks body) = eval_node F data (Loop item path body)"
  by (simp add: for_output_def for_items_def Let_def blocks_print split: any.split)

lemma loops_print:
  "clean_data F data \<Longrightarrow> list_all block_ok bs \<Longrightarrow> list_all node_ok ns \<Longrightarrow> length (filter is_loop ns) < n \<Longrightarrow>
   process_for_loops n F data (print_blocks bs @ print_nodes ns) = Some (print_blocks (bs @ map (unroll F data) ns))"
proof (induction ns arbitrary: bs n)
  case Nil
  have "search match_for (print_blocks bs) = None"
    by (rule search_miss [OF no_match_blocks [OF match_for_skips Nil(2)]]) (simp add: match_for_def strip_prefix_def)
  then show ?case using Nil by (cases n) auto
next
  case (Cons x ns)
  show ?case
  proof (cases x)
    case (Block b)
    then show ?thesis using Cons.IH [of "bs @ [b]" n] Cons.prems by simp
  next
    case (Loop item path body)
    let ?out = "eval_node F data x"
    have ok: "node_ok (Loop item path body)" using Cons.prems Loop by simp
    obtain k where k: "n = Suc k" using Cons.prems(4) by (cases n) auto
    have hit: "search match_for (print_blocks bs @ print_nodes (x # ns))
        = Some (print_blocks bs, item, path, print_blocks body, print_nodes ns)"
      using search_hit [OF no_match_blocks [OF match_for_skips Cons.prems(2)] match_for_print [OF ok, of "print_nodes ns"]]
      by (simp add: Loop)
    have "process_for_loops n F data (print_blocks bs @ print_nodes (x # ns))
        = process_for_loops k F data (print_blocks (bs @ [Inline (Lit ?out)]) @ print_nodes ns)"
      unfolding k process_for_loops.simps hit using for_output_print [OF ok] Loop by simp
    moreover have "block_ok (Inline (Lit ?out))" using eval_node_clean Cons.prems by simp
    ultimately show ?thesis
      using Cons.IH [of "bs @ [Inline (Lit ?out)]" k] Cons.prems Loop k by simp
  qed
qed

lemma eval_blocks_append: "eval_blocks F data (as @ bs) = eval_blocks F data as @ eval_blocks F data bs"
  by (simp add: eval_blocks_def)

lemma eval_unrolled: "eval_blocks F data (map (unroll F data) ns) = concat (map (eval_node F data) ns)"
proof (induction ns)
  case (Cons x ns)
  have "eval_blocks F data [unroll F data x] = eval_node F data x"
    by (cases x) (simp_all add: eval_blocks_def)
  then show ?case using Cons eval_blocks_append [of F data "[unroll F data x]"] by simp
qed (simp add: eval_blocks_def)

text \<open>C17 (refinement).
  The three rewriting passes implement the meaning a template has for its author: printed from its
  syntax tree (variables, conditionals with or without else, loops over lists holding both) and run
  on data whose text has no opening brace, a template renders to what the reference interpreter
  says, with the loop's item and index bound and at most 50 items, and one pass per loop (and one
  to notice the end) is enough fuel.\<close>

theorem template_matches_reference:
  assumes "clean_data F data" "list_all node_ok ns" "length (filter is_loop ns) < n"
  shows "process_template n F data (print_nodes ns) = Some (concat (map (eval_node F data) ns))"
proof -
  have "list_all block_ok (map (unroll F data) ns)"
    using assms(2)
  proof (induction ns)
    case (Cons x ns)
    then show ?case using eval_node_clean [OF assms(1), of x] by (cases x) auto
  qed simp
  then show ?thesis
    using loops_print [OF assms(1), of "[]" ns n] assms(2,3) blocks_print [of "map (unroll F data) ns" F data]
    by (simp add: process_template_def eval_unrolled)
qed

section \<open>The passes on any text\<close>

text \<open>C18 (termination).
  On any text and data the conditional pass comes to an end with no conditional left, and the result
  is never longer than the text.\<close>

theorem conditionals_are_resolved:
  "search match_if (process_conditionals F data s) = None \<and> length (process_conditionals F data s) \<le> length s"
proof (induction F data s rule: process_conditionals.induct)
  case (1 F data s)
  show ?case
  proof (cases "search match_if s")
    case None
    then show ?thesis by (subst (1 2) process_conditionals.simps) simp
  next
    case (Some hit)
    obtain before cond body rest where hit: "hit = (before, cond, body, rest)" by (cases hit) auto
    let ?t = "if evaluate_condition F data (trim_space cond) then fst (if_parts body) else snd (if_parts body)"
    obtain q where q: "match_if q = Some (cond, body, rest)" "length s = length before + length q"
      using search_length [OF Some [unfolded hit]] by (elim exE conjE) (rule that)
    have "length ?t \<le> length body"
      using if_parts_length [of body "fst (if_parts body)" "snd (if_parts body)"] by (simp split: if_split)
    then have shorter: "length (before @ ?t @ rest) \<le> length s"
      using match_if_length [OF q(1)] q(2) by simp
    have step: "process_conditionals F data s = process_conditionals F data (before @ ?t @ rest)"
      by (subst process_conditionals.simps) (simp only: Some hit option.case prod.case)
    show ?thesis
      using 1 [OF Some hit [symmetric] refl refl] shorter unfolding step by simp
  qed
qed

text \<open>The only path that panics ends in an opening bracket.\<close>

definition part_ok :: "string \<Rightarrow> bool" where
  "part_ok q \<longleftrightarrow> (\<forall>u. q = u @ ''['' \<longrightarrow> CHR ''['' \<in> set u)"

lemma split_path_parts:
  "s = [] \<or> last s \<noteq> CHR ''['' \<Longrightarrow> part_ok cur \<or> (b \<and> s \<noteq> []) \<Longrightarrow>
   b \<longrightarrow> CHR ''['' \<in> set cur \<Longrightarrow> list_all part_ok (split_path cur b s)"
proof (induction cur b s rule: split_path.induct)
  case (2 cur c cs)
  then show ?case by (auto simp: part_ok_def split: if_splits)
next
  case (3 cur c cs)
  have "part_ok (cur @ [c])" if "c \<noteq> CHR ''[''" using that by (simp add: part_ok_def)
  moreover have "part_ok []" by (simp add: part_ok_def)
  ultimately show ?case using 3 by (cases cs) (auto split: if_splits)
qed auto

lemma step_path_panics: "step_path v q = None \<Longrightarrow> \<not> part_ok q"
proof -
  assume "step_path v q = None"
  then obtain u where u: "find_sub ''['' q = Some (u, [])"
    by (auto simp: step_path_def split: option.splits if_splits)
  have q: "q = u @ ''[''" using find_sub_Some [OF u] by simp
  obtain rest where "no_match (strip_prefix ''['') u rest" using search_some [OF u] by blast
  then have "CHR ''['' \<notin> set u"
    by (induction u) (auto simp: no_match_Cons strip_prefix_None)
  then show ?thesis using q by (auto simp: part_ok_def)
qed

lemma walk_path_panics: "list_all part_ok ps \<Longrightarrow> walk_path v ps \<noteq> None"
  by (induction v ps rule: walk_path.induct) (auto split: option.splits dest: step_path_panics)

lemma get_nested_panics:
  assumes "get_nested_value data path = None"
  shows "path \<noteq> [] \<and> last path = CHR ''[''"
proof (rule ccontr)
  assume no: "\<not> ?thesis"
  have "list_all part_ok (split_path [] False path)"
    using no by (intro split_path_parts) (auto simp: part_ok_def)
  from walk_path_panics [OF this, of "AObj data"] show False
    using assms by (simp add: get_nested_value_def split: if_splits)
qed

lemma ident_last: "ident z = Some (w, r) \<Longrightarrow> w \<noteq> [] \<and> last w \<noteq> CHR ''[''"
  using ident_chars [of z w r] ident_length [of z w r]
  by (cases w rule: rev_cases) (auto simp: is_word_def is_alpha_def is_digit_def)

lemma bracketed_last: "bracketed z = Some (w, r) \<Longrightarrow> w \<noteq> [] \<and> last w \<noteq> CHR ''[''"
  by (auto simp: bracketed_def split: option.splits prod.splits list.splits if_splits)

lemma var_path_last:
  assumes "var_path z = Some (p, r)"
  shows "last p \<noteq> CHR ''[''"
proof -
  obtain w r1 where w: "ident z = Some (w, r1)" "p = w @ fst (var_more r1)"
    using assms by (auto simp: var_path_def split: option.splits prod.splits)
  have more: "fst (var_more y) = [] \<or> last (fst (var_more y)) \<noteq> CHR ''[''" for y
  proof (induction y rule: var_more.induct)
    case (1 y)
    show ?case
    proof (cases y)
      case (Cons c r)
      let ?step = "if c = CHR ''.'' then ident r else if c = CHR ''['' then bracketed r else None"
      show ?thesis
      proof (cases ?step)
        case None
        then show ?thesis using Cons by (subst (1) var_more.simps) simp
      next
        case (Some wr)
        obtain w r2 where wr: "wr = (w, r2)" by (cases wr)
        have "w \<noteq> []" "last w \<noteq> CHR ''[''"
          using Some wr
          by (auto split: if_splits dest!: ident_last bracketed_last)
        then show ?thesis
          using Cons Some wr 1 [OF Cons Some wr [symmetric]] by (subst (1 2) var_more.simps) (auto simp: last_append split: prod.split)
      qed
    qed (simp add: var_more.simps)
  qed
  have "w \<noteq> [] \<and> last w \<noteq> CHR ''[''" using ident_last [OF w(1)] by blast
  then show ?thesis using w(2) more [of r1] by (cases "fst (var_more r1) = []") simp_all
qed

lemma takeWhile_last: "takeWhile P s = [] \<or> P (last (takeWhile P s))"
  by (metis last_in_set set_takeWhileD)

lemma match_var_last:
  assumes "match_var s = Some (p, r)"
  shows "p \<noteq> [] \<and> last p \<noteq> CHR ''[''"
proof -
  obtain r1 q r2 where q: "var_path (dropWhile is_ws r1) = Some (q, r2)" "p = takeWhile is_ws r1 @ q @ takeWhile is_ws r2"
    using assms by (auto simp: match_var_def split: option.splits prod.splits)
  have "q \<noteq> []" "last q \<noteq> CHR ''[''" using var_path_chars [OF q(1)] var_path_last [OF q(1)] by simp_all
  moreover have "takeWhile is_ws r2 = [] \<or> is_ws (last (takeWhile is_ws r2))" by (rule takeWhile_last)
  ultimately show ?thesis using q(2) by (auto simp: last_append is_ws_def)
qed

lemma word_more_last: "fst (word_more z) = [] \<or> is_word (last (fst (word_more z)))"
proof (induction z rule: word_more.induct)
  case (1 z)
  show ?case
  proof (cases z)
    case (Cons c r)
    show ?thesis
    proof (cases "c = CHR ''.''")
      case False
      then show ?thesis using Cons by (subst (1 2) word_more.simps) simp
    next
      case dot: True
      show ?thesis
      proof (cases "some_of is_word r")
        case None
        then show ?thesis using Cons dot by (subst (1 2) word_more.simps) simp
      next
        case (Some wr)
        obtain w r2 where w: "wr = (w, r2)" by (cases wr)
        have "w \<noteq> [] \<and> is_word (last w)"
          using some_of_all [of is_word r w r2] some_of_length [of is_word r w r2] Some w
          by (cases w rule: rev_cases) auto
        then show ?thesis
          using Cons dot Some w 1 [OF Cons dot Some w [symmetric]]
          by (subst (1 2) word_more.simps) (auto simp: last_append split: prod.split)
      qed
    qed
  qed (simp add: word_more.simps)
qed

lemma word_path_last:
  assumes "word_path z = Some (p, r)"
  shows "p \<noteq> [] \<and> last p \<noteq> CHR ''[''"
proof -
  obtain w r1 where w: "some_of is_word z = Some (w, r1)" "p = w @ fst (word_more r1)"
    using assms by (auto simp: word_path_def split: option.splits prod.splits)
  have "w \<noteq> [] \<and> is_word (last w)"
    using some_of_all [OF w(1)] some_of_length [OF w(1)] by (cases w rule: rev_cases) auto
  then have "is_word (last p)" "p \<noteq> []" using w(2) word_more_last [of r1] by (auto simp: last_append)
  then show ?thesis by (auto simp: is_word_def is_alpha_def is_digit_def)
qed

text \<open>C19 (error).
  Looking up a path in any data panics only for a path that ends in an opening bracket, and no path
  that the patterns of the template language let through is one: no variable, no loop list and no
  condition of any template text can crash the rendering.\<close>

theorem template_paths_never_panic:
  "(get_nested_value data path = None \<longrightarrow> path \<noteq> [] \<and> last path = CHR ''['')
   \<and> (match_var s = Some (p, r) \<longrightarrow> get_nested_value data p \<noteq> None)
   \<and> (match_for s = Some (item, q, body, rest) \<longrightarrow> get_nested_value data q \<noteq> None)
   \<and> (match_condition s = Some (c, op, rhs) \<longrightarrow> get_nested_value data c \<noteq> None)"
proof (intro conjI impI)
  assume "match_for s = Some (item, q, body, rest)"
  then obtain z r1 where "word_path z = Some (q, r1)"
    by (auto simp: match_for_def split: option.splits prod.splits)
  then show "get_nested_value data q \<noteq> None" using word_path_last get_nested_panics by blast
next
  assume "match_condition s = Some (c, op, rhs)"
  then obtain r1 where "word_path s = Some (c, r1)"
    by (auto simp: match_condition_def Let_def split: option.splits prod.splits if_splits)
  then show "get_nested_value data c \<noteq> None" using word_path_last get_nested_panics by blast
qed (use get_nested_panics match_var_last in blast)+

section \<open>Where the engine surprises\<close>

text \<open>A response mapping is not a template path, and one that ends in a bracket panics.\<close>

lemma mapping_panics: "extract_response_mapping [(''items'', AArr [])] [(''first'', ''items['')] = None"
  by code_simp

text \<open>
  The pattern accepts spaces around a variable, and the lookup then uses the name with the spaces:
  the variable renders empty although it is set.
\<close>

lemma spaced_variable_is_empty: "process_template 1 F [(''name'', AStr ''Ana'')] ''{{ name }}'' = Some []"
proof -
  have v: "match_var ''{{ name }}'' = Some ('' name '', [])" by code_simp
  have n: "nested [(''name'', AStr ''Ana'')] '' name '' = ANil" by code_simp
  have f: "search match_for ''{{ name }}'' = None" and i: "search match_if ''{{ name }}'' = None" by code_simp+
  have "process_variables F [(''name'', AStr ''Ana'')] ''{{ name }}'' = []"
    by (subst process_variables.simps) (simp add: v n, simp add: process_variables.simps)
  moreover have "process_for_loops 1 F [(''name'', AStr ''Ana'')] ''{{ name }}'' = Some ''{{ name }}''"
    by (simp only: One_nat_def process_for_loops.simps f option.case)
  moreover have "process_conditionals F [(''name'', AStr ''Ana'')] ''{{ name }}'' = ''{{ name }}''"
    by (subst process_conditionals.simps) (simp only: i option.case)
  ultimately show ?thesis by (simp only: process_template_def option.map)
qed

text \<open>A variable that is not set counts as equal to every number, so it passes both comparisons.\<close>

lemma unset_passes_at_least: "evaluate_condition F [] ''amount >= 100'' \<and> evaluate_condition F [] ''amount <= 5''"
proof -
  have m: "match_condition (trim_space ''amount >= 100'') = Some (''amount'', ''>='', ''100'')"
      "match_condition (trim_space ''amount <= 5'') = Some (''amount'', ''<='', ''5'')" by code_simp+
  have n: "nested [] ''amount'' = ANil" by code_simp
  show ?thesis by (simp add: evaluate_condition_def m n compare_numeric_def Let_def)
qed

text \<open>
  A loop rescans what it has inserted. A customer's answer that is itself a loop over a list of the
  session, rendered inside a loop, is expanded for ever: no fuel is enough.
\<close>

definition evil :: string where
  "evil = ''{{for i in xs}}{{name}}{{endfor}}''"

definition evil_data :: jsonb where
  "evil_data = [(''name'', AStr evil), (''xs'', AArr [ANil])]"

lemma template_injection_diverges: "process_for_loops n F evil_data evil = None"
proof (induction n)
  case (Suc n)
  have hit: "search match_for evil = Some ([], ''i'', ''xs'', print_blocks [Inline (Var ''name'')], [])"
    by code_simp
  have ok: "node_ok (Loop ''i'' ''xs'' [Inline (Var ''name'')])" by code_simp
  have xs: "nested evil_data ''xs'' = AArr [ANil]" by code_simp
  have name: "nested (loop_data evil_data ''i'' 0 ANil) ''name'' = AStr evil" by code_simp
  have "for_output F evil_data ''i'' ''xs'' (print_blocks [Inline (Var ''name'')]) = evil"
    unfolding for_output_print [OF ok]
    by (simp add: xs name eval_blocks_def max_loop_iterations_def)
  then show ?case using Suc by (simp only: process_for_loops.simps hit option.case prod.case append_Nil append_Nil2)
qed simp

section \<open>Witnesses\<close>

definition sample_formats :: formats where
  "sample_formats = \<lparr>fm_float = (\<lambda>_. ''0.5''), fm_any = (\<lambda>_. ''map[]''), fm_parse = (\<lambda>_. None)\<rparr>"

definition sample_template :: "node list" where
  "sample_template =
     [Block (Inline (Lit ''Hi '')), Block (Inline (Var ''name'')),
      Loop ''x'' ''xs'' [Inline (Lit '',''), Cond ''x'' [Var ''x''] (Some [Lit ''-''])],
      Block (Cond ''name == Ana'' [Lit ''!''] None)]"

definition sample_data :: jsonb where
  "sample_data = [(''name'', AStr ''Ana''), (''xs'', AArr [AStr ''a'', ANil])]"

theorem template_matches_reference_witness:
  "process_template 2 sample_formats sample_data
     ''Hi {{name}}{{for x in xs}},{{if x}}{{x}}{{else}}-{{endif}}{{endfor}}{{if name == Ana}}!{{endif}}''
   = Some ''Hi Ana,a,-!''"
proof -
  have "clean_data sample_formats sample_data"
    by (simp add: clean_data_def sample_data_def sample_formats_def)
  moreover have "list_all node_ok sample_template" by code_simp
  moreover have "length (filter is_loop sample_template) < 2" by (simp add: sample_template_def)
  ultimately have "process_template 2 sample_formats sample_data (print_nodes sample_template)
      = Some (concat (map (eval_node sample_formats sample_data) sample_template))"
    by (rule template_matches_reference)
  moreover have "print_nodes sample_template =
      ''Hi {{name}}{{for x in xs}},{{if x}}{{x}}{{else}}-{{endif}}{{endfor}}{{if name == Ana}}!{{endif}}''"
    by (simp add: sample_template_def)
  moreover have "concat (map (eval_node sample_formats sample_data) sample_template) = ''Hi Ana,a,-!''"
    by code_simp
  ultimately show ?thesis by simp
qed

theorem template_paths_never_panic_witness: "get_nested_value [] ''a[0]'' \<noteq> None"
proof -
  have "match_var ''{{a[0]}}'' = Some (''a[0]'', [])" by code_simp
  then show ?thesis
    using template_paths_never_panic [of "[]" _ "''{{a[0]}}''" "''a[0]''" "[]"] by blast
qed

end
