(* ===== verification/Chat_Runner.thy ===== *)
theory Chat_Runner
  imports Flow_Graph Template_Engine Transfers
begin

text \<open>
  The chatbot's graph runner (\<open>internal/handlers/chatbot_graph_runner.go\<close>, the transfer node of
  \<open>flow_transfer_routing.go\<close>): one run of a session's flow for one inbound message. The state is the
  session, the contact, what is left of the input and what was sent and saved. A run is \<^const>\<open>None\<close>
  when a template it renders never ends (\<open>Template_Engine.template_injection_diverges\<close>).
\<close>

section \<open>Nodes, sessions, state\<close>

datatype chat_type =
  NStart | NMessage | NButtons | NPrompt | NApiCall | NCondition | NTiming | NSetVariable | NAiResponse
  | NTransfer | NWebhook | NGotoFlow | NWhatsAppFlow | NEnd | NOther string

fun type_name :: "chat_type \<Rightarrow> string" where
  "type_name NStart = ''start''" | "type_name NMessage = ''message''" | "type_name NButtons = ''buttons''"
| "type_name NPrompt = ''prompt''" | "type_name NApiCall = ''api_call''" | "type_name NCondition = ''condition''"
| "type_name NTiming = ''timing''" | "type_name NSetVariable = ''set_variable''"
| "type_name NAiResponse = ''ai_response''" | "type_name NTransfer = ''transfer''"
| "type_name NWebhook = ''webhook''" | "type_name NGotoFlow = ''goto_flow''"
| "type_name NWhatsAppFlow = ''whatsapp_flow''" | "type_name NEnd = ''end''" | "type_name (NOther s) = s"

type_synonym chat_node = "chat_type fnode"
type_synonym chat_graph = "chat_type fgraph"

datatype session_status = SActive | SCompleted | SCancelled | STimeout

record chat_session =
  ss_id :: uuid
  ss_account :: string
  ss_phone :: string
  ss_status :: session_status
  ss_flow :: "uuid option"
  ss_step :: string
  ss_retries :: int
  ss_data :: jsonb
  ss_last :: time
  ss_completed :: "time option"

record chat_contact = contact +
  cc_profile :: string
  cc_type :: string
  cc_unit :: "uuid option"
  cc_dept :: "uuid option"
  cc_tags :: "any list"

record chat_flow =
  fl_id :: uuid
  fl_name :: string
  fl_account :: string
  fl_enabled :: bool
  fl_graph :: "chat_type graph_blob"

text \<open>What the customer receives, and the other effects of a node.\<close>

datatype said =
    SayText string
  | SayButtons string "jsonb list"
  | SayForm string string string string string

datatype effect = HttpCall jsonb | OpenOpportunity

record chat_state =
  cs_session :: chat_session
  cs_contact :: chat_contact
  cs_input :: string
  cs_button :: string
  cs_form :: jsonb
  cs_consumed :: bool
  cs_sent :: "said list"
  cs_log :: "(string \<times> string) list"
  cs_effects :: "effect list"
  cs_saved :: "chat_session list"
  cs_tw :: tworld

datatype chat_error =
    BadGraph graph_error
  | NoGraph
  | NodeNotFound string
  | Unimplemented string
  | SendFailed
  | NoButtons string
  | NoPromptBody string
  | GotoLoad
  | GotoNoGraph
  | GotoBadGraph graph_error
  | Runaway
  | SaveFailed

record node_outcome =
  no_outcome :: string
  no_yield :: bool

type_synonym exec_result = "(chat_error + node_outcome) option \<times> chat_state"

section \<open>The environment\<close>

record flow_team =
  ft_id :: uuid
  ft_org :: uuid
  ft_unit :: "uuid option"
  ft_dept :: "uuid option"
  ft_active :: bool
  ft_deleted :: bool

record ai_settings =
  ai_enabled :: bool
  ai_provider :: string
  ai_key :: string

text \<open>
  Sending, saving, the other tables and the libraries: \<open>cv_expr\<close> is the expression library (None an
  error), \<open>cv_regex\<close> the regular expressions (None an invalid one), \<open>cv_http\<close> a configured request
  (None an error, else the body if it decodes and the status), \<open>cv_order\<close> the order in which Go
  happens to range over a map.
\<close>

record cenv =
  cv_formats :: formats
  cv_fuel :: nat
  cv_account :: account
  cv_tenv :: tenv
  cv_send :: "said \<Rightarrow> chat_state \<Rightarrow> bool"
  cv_save :: "chat_state \<Rightarrow> bool"
  cv_db :: "chat_state \<Rightarrow> bool"
  cv_now :: "chat_state \<Rightarrow> time"
  cv_clock :: "chat_state \<Rightarrow> clock"
  cv_uuid :: "string \<Rightarrow> uuid option"
  cv_teams :: "flow_team list"
  cv_unit_name :: "uuid \<Rightarrow> uuid \<Rightarrow> string option"
  cv_dept_name :: "uuid \<Rightarrow> uuid \<Rightarrow> string option"
  cv_expr :: "string \<Rightarrow> jsonb \<Rightarrow> any option"
  cv_regex :: "string \<Rightarrow> (string \<Rightarrow> bool) option"
  cv_secrets :: "jsonb \<Rightarrow> jsonb option"
  cv_http :: "jsonb \<Rightarrow> jsonb \<Rightarrow> chat_state \<Rightarrow> (jsonb option \<times> int) option"
  cv_ai :: "ai_settings option"
  cv_answer :: "string \<Rightarrow> chat_state \<Rightarrow> string option"
  cv_flow :: "uuid \<Rightarrow> chat_state \<Rightarrow> chat_flow option"
  cv_show_uuid :: "uuid \<Rightarrow> string"
  cv_wa_flow :: "string \<Rightarrow> (any list \<times> jsonb) option"
  cv_order :: "jsonb \<Rightarrow> jsonb"

abbreviation render :: "cenv \<Rightarrow> jsonb \<Rightarrow> string \<Rightarrow> string option" where
  "render E data s \<equiv> process_template (cv_fuel E) (cv_formats E) data s"

section \<open>Reading a node's configuration\<close>

fun string_from_config :: "jsonb \<Rightarrow> string list \<Rightarrow> string" where
  "string_from_config cfg [] = []"
| "string_from_config cfg (k # ks) =
     (case jget cfg k of AStr s \<Rightarrow> if s \<noteq> [] then s else string_from_config cfg ks
                       | _ \<Rightarrow> string_from_config cfg ks)"

definition int_from_config :: "jsonb \<Rightarrow> string \<Rightarrow> int \<Rightarrow> int" where
  "int_from_config cfg k def = (case jget cfg k of AFloat q \<Rightarrow> trunc_rat q | AInt i \<Rightarrow> i | _ \<Rightarrow> def)"

definition string_slice_from_config :: "jsonb \<Rightarrow> string \<Rightarrow> string list" where
  "string_slice_from_config cfg k =
     (case jget cfg k of
        AArr xs \<Rightarrow> filter (\<lambda>s. trim_space s \<noteq> []) (List.map_filter as_str xs)
      | _ \<Rightarrow> [])"

definition buttons_from_config :: "jsonb \<Rightarrow> jsonb list" where
  "buttons_from_config cfg = (case jget cfg ''buttons'' of AArr xs \<Rightarrow> List.map_filter as_obj xs | _ \<Rightarrow> [])"

section \<open>Small steps\<close>

abbreviation data_of :: "chat_state \<Rightarrow> jsonb" where
  "data_of st \<equiv> ss_data (cs_session st)"

definition on_session :: "(chat_session \<Rightarrow> chat_session) \<Rightarrow> chat_state \<Rightarrow> chat_state" where
  "on_session f st = st\<lparr>cs_session := f (cs_session st)\<rparr>"

definition set_data :: "string \<Rightarrow> any \<Rightarrow> chat_state \<Rightarrow> chat_state" where
  "set_data k v = on_session (\<lambda>s. s\<lparr>ss_data := jput k v (ss_data s)\<rparr>)"

definition path_of :: "jsonb \<Rightarrow> any list" where
  "path_of data = (case jget data ''__path__'' of AArr xs \<Rightarrow> xs | _ \<Rightarrow> [])"

definition append_path :: "any \<Rightarrow> chat_state \<Rightarrow> chat_state" where
  "append_path entry st = set_data ''__path__'' (AArr (path_of (data_of st) @ [entry])) st"

definition append_chat_path :: "chat_node \<Rightarrow> string \<Rightarrow> chat_state \<Rightarrow> chat_state" where
  "append_chat_path n outcome = append_path
     (AObj [(''node'', AStr (fn_id n)), (''type'', AStr (type_name (fn_type n))),
            (''label'', AStr (fn_label n)), (''outcome'', AStr outcome)])"

definition go :: "string \<Rightarrow> chat_state \<Rightarrow> exec_result" where
  "go outcome st = (Some (Inr \<lparr>no_outcome = outcome, no_yield = False\<rparr>), st)"

definition wait :: "chat_state \<Rightarrow> exec_result" where
  "wait st = (Some (Inr \<lparr>no_outcome = [], no_yield = True\<rparr>), st)"

definition fail :: "chat_error \<Rightarrow> chat_state \<Rightarrow> exec_result" where
  "fail e st = (Some (Inl e), st)"

text \<open>
  Sending and recording it in the session's history; \<open>k\<close> goes on with whether it was sent.
\<close>

definition say :: "cenv \<Rightarrow> said \<Rightarrow> string \<Rightarrow> chat_node \<Rightarrow> (bool \<Rightarrow> chat_state \<Rightarrow> exec_result) \<Rightarrow> chat_state \<Rightarrow> exec_result" where
  "say E what shown n k st =
     (if cv_send E what st
      then k True (st\<lparr>cs_sent := cs_sent st @ [what], cs_log := cs_log st @ [(shown, fn_id n)]\<rparr>)
      else k False st)"

text \<open>Sending a text the node must deliver: an error ends the run.\<close>

definition must_say :: "cenv \<Rightarrow> said \<Rightarrow> string \<Rightarrow> chat_node \<Rightarrow> (chat_state \<Rightarrow> exec_result) \<Rightarrow> chat_state \<Rightarrow> exec_result" where
  "must_say E what shown n k = say E what shown n (\<lambda>sent st. if sent then k st else fail SendFailed st)"

definition rendered :: "cenv \<Rightarrow> string \<Rightarrow> (string \<Rightarrow> chat_state \<Rightarrow> exec_result) \<Rightarrow> chat_state \<Rightarrow> exec_result" where
  "rendered E s k st = (case render E (data_of st) s of None \<Rightarrow> (None, st) | Some t \<Rightarrow> k t st)"

section \<open>Text nodes\<close>

definition exec_message :: "cenv \<Rightarrow> chat_node \<Rightarrow> chat_state \<Rightarrow> exec_result" where
  "exec_message E n st =
     (let text = string_from_config (fn_config n) [''message'', ''text''] in
      if text = [] then go ''default'' st
      else rendered E text (\<lambda>t. must_say E (SayText t) t n (go ''default'')) st)"

definition exec_end :: "cenv \<Rightarrow> chat_node \<Rightarrow> chat_state \<Rightarrow> exec_result" where
  "exec_end E n st =
     (let text = string_from_config (fn_config n) [''message''] in
      if text = [] then go [] st
      else rendered E text (\<lambda>t. must_say E (SayText t) t n (go [])) st)"

section \<open>Buttons\<close>

fun clicked :: "string \<Rightarrow> jsonb list \<Rightarrow> jsonb option" where
  "clicked i [] = None"
| "clicked i (b # bs) = (if str_of (jget b ''id'') = i then Some b else clicked i bs)"

text \<open>The team of the clicked button becomes the conversation's, when it is one of the organization.\<close>

definition set_button_team :: "cenv \<Rightarrow> jsonb \<Rightarrow> chat_state \<Rightarrow> chat_state" where
  "set_button_team E b st =
     (case cv_uuid E (str_of (jget b ''team_id'')) of
        None \<Rightarrow> st
      | Some team \<Rightarrow>
          if str_of (jget b ''team_id'') \<noteq> [] \<and> cv_db E st
             \<and> (\<exists>t \<in> set (cv_teams E). ft_id t = team \<and> ft_org t = ct_org (cs_contact st) \<and> \<not> ft_deleted t)
          then st\<lparr>cs_contact := (cs_contact st)\<lparr>ct_team := Some team\<rparr>\<rparr> else st)"

definition click :: "cenv \<Rightarrow> chat_node \<Rightarrow> chat_state \<Rightarrow> chat_state" where
  "click E n st0 =
     (let st1 = st0\<lparr>cs_consumed := True\<rparr>;
          store_as = string_from_config (fn_config n) [''store_as''];
          st2 = (if store_as = [] then st1
                 else set_data store_as (AStr (if cs_input st1 = [] then cs_button st1 else cs_input st1)) st1)
      in case clicked (cs_button st2) (buttons_from_config (fn_config n)) of
           None \<Rightarrow> st2
         | Some b \<Rightarrow>
             (let st3 = set_button_team E b st2 in
              if bool_of (jget b ''create_opportunity'')
              then st3\<lparr>cs_effects := cs_effects st3 @ [OpenOpportunity]\<rparr> else st3))"

fun render_keys :: "cenv \<Rightarrow> jsonb \<Rightarrow> string list \<Rightarrow> jsonb \<Rightarrow> jsonb option" where
  "render_keys E data [] b = Some b"
| "render_keys E data (k # ks) b =
     (case jget b k of
        AStr s \<Rightarrow>
          if s = [] then render_keys E data ks b
          else (case render E data s of
                  None \<Rightarrow> None
                | Some t \<Rightarrow> render_keys E data ks (jput k (AStr t) b))
      | _ \<Rightarrow> render_keys E data ks b)"

fun render_buttons :: "cenv \<Rightarrow> jsonb \<Rightarrow> jsonb list \<Rightarrow> jsonb list option" where
  "render_buttons E data [] = Some []"
| "render_buttons E data (b # bs) =
     (case render_keys E data [''title'', ''url'', ''phone_number''] b of
        None \<Rightarrow> None
      | Some b1 \<Rightarrow> map_option ((#) b1) (render_buttons E data bs))"

definition exec_buttons :: "cenv \<Rightarrow> chat_node \<Rightarrow> chat_state \<Rightarrow> exec_result" where
  "exec_buttons E n st =
     (if \<not> cs_consumed st \<and> cs_button st \<noteq> []
      then go (''button:'' @ cs_button st) (click E n st)
      else
        let body0 = string_from_config (fn_config n) [''body'', ''message'', ''text''];
            body = (if body0 = [] then fn_label n else body0)
        in rendered E body (\<lambda>t st.
             if buttons_from_config (fn_config n) = [] then fail (NoButtons (fn_id n)) st
             else (case render_buttons E (data_of st) (buttons_from_config (fn_config n)) of
                     None \<Rightarrow> (None, st)
                   | Some bs \<Rightarrow> must_say E (SayButtons t bs) t n wait st)) st)"

section \<open>Prompts\<close>

definition prompt_invalid :: "cenv \<Rightarrow> chat_node \<Rightarrow> chat_state \<Rightarrow> exec_result" where
  "prompt_invalid E n st0 =
     (let st = on_session (\<lambda>s. s\<lparr>ss_retries := ss_retries s + 1\<rparr>) st0 in
      if ss_retries (cs_session st) \<ge> int_from_config (fn_config n) ''max_retries'' 3
      then go ''max_retries'' (on_session (\<lambda>s. s\<lparr>ss_retries := 0\<rparr>) st)
      else let msg0 = string_from_config (fn_config n) [''validation_error''];
               msg = (if msg0 = [] then ''Invalid input. Please try again.'' else msg0)
        in rendered E msg (\<lambda>t. must_say E (SayText t) t n wait) st)"

definition exec_prompt :: "cenv \<Rightarrow> chat_node \<Rightarrow> chat_state \<Rightarrow> exec_result" where
  "exec_prompt E n st =
     (let body = string_from_config (fn_config n) [''body'', ''message'', ''text''] in
      if cs_input st = [] \<or> cs_consumed st
      then (if body = [] then fail (NoPromptBody (fn_id n)) st
            else rendered E body (\<lambda>t. must_say E (SayText t) t n wait) st)
      else
        let st1 = st\<lparr>cs_consumed := True\<rparr>;
            rx = string_from_config (fn_config n) [''validation_regex''];
            invalid = (rx \<noteq> [] \<and> (case cv_regex E rx of None \<Rightarrow> False | Some m \<Rightarrow> \<not> m (cs_input st)))
        in if invalid then prompt_invalid E n st1
           else let store_as = string_from_config (fn_config n) [''store_as''];
                    st2 = (if store_as = [] then st1 else set_data store_as (AStr (cs_input st)) st1)
             in go ''default'' (on_session (\<lambda>s. s\<lparr>ss_retries := 0\<rparr>) st2))"

section \<open>Requests and branches\<close>

definition set_phone :: "chat_state \<Rightarrow> chat_state" where
  "set_phone st = set_data ''phone_number'' (AStr (ss_phone (cs_session st))) st"

definition http_call :: "jsonb \<Rightarrow> chat_state \<Rightarrow> chat_state" where
  "http_call cfg st = st\<lparr>cs_effects := cs_effects st @ [HttpCall cfg]\<rparr>"

text \<open>\<open>maps.Copy(dst, src)\<close>\<close>

definition copy_into :: "jsonb \<Rightarrow> jsonb \<Rightarrow> jsonb" where
  "copy_into src dst = foldr (\<lambda>(k, v) m. jput k v m) src dst"

text \<open>The string entries of the response mapping; a path that panics ends the run as a hang does.\<close>

definition string_entries :: "jsonb \<Rightarrow> (string \<times> string) list" where
  "string_entries m = List.map_filter (\<lambda>(k, v). map_option (Pair k) (as_str v)) m"

definition map_response :: "chat_node \<Rightarrow> jsonb option \<Rightarrow> chat_state \<Rightarrow> chat_state option" where
  "map_response n body st =
     (case (jget (fn_config n) ''response_mapping'', body) of
        (AObj m, Some response) \<Rightarrow>
          if m = [] then Some st
          else map_option (\<lambda>r. on_session (\<lambda>s. s\<lparr>ss_data := copy_into r (ss_data s)\<rparr>) st)
                 (extract_response_mapping response (string_entries m))
      | _ \<Rightarrow> Some st)"

definition exec_api_call :: "cenv \<Rightarrow> chat_node \<Rightarrow> chat_state \<Rightarrow> exec_result" where
  "exec_api_call E n st0 =
     (case cv_secrets E (fn_config n) of
        None \<Rightarrow> go ''http:non2xx'' st0
      | Some cfg \<Rightarrow>
          (let st = http_call cfg (set_phone st0) in
           case cv_http E cfg (data_of st) st of
             None \<Rightarrow> go ''http:non2xx'' st
           | Some (body, status) \<Rightarrow>
               if status < 200 \<or> status \<ge> 300 then go ''http:non2xx'' st
               else (case map_response n body st of
                       None \<Rightarrow> (None, st)
                     | Some st1 \<Rightarrow>
                         (let tmpl = string_from_config (fn_config n) [''message_template''] in
                          if tmpl = [] then go ''http:2xx'' st1
                          else rendered E tmpl (\<lambda>t st.
                                 if t = [] then go ''http:2xx'' st
                                 else say E (SayText t) t n (\<lambda>_. go ''http:2xx'') st) st1))))"

definition exec_webhook :: "cenv \<Rightarrow> chat_node \<Rightarrow> chat_state \<Rightarrow> exec_result" where
  "exec_webhook E n st0 = go ''default'' (http_call (fn_config n) (set_phone st0))"

text \<open>\<open>evaluateConditionExpression\<close>: how the value of an expression counts.\<close>

fun expr_true :: "any \<Rightarrow> bool" where
  "expr_true (ABool b) = b"
| "expr_true ANil = False"
| "expr_true (AStr s) = (s \<noteq> [] \<and> to_lower s \<noteq> ''false'')"
| "expr_true (AFloat q) = (q \<noteq> 0)"
| "expr_true (AInt i) = (i \<noteq> 0)"
| "expr_true _ = True"

definition evaluate_expression :: "cenv \<Rightarrow> string \<Rightarrow> jsonb \<Rightarrow> bool option" where
  "evaluate_expression E e data = map_option expr_true (cv_expr E e data)"

definition exec_condition :: "cenv \<Rightarrow> chat_node \<Rightarrow> chat_state \<Rightarrow> exec_result" where
  "exec_condition E n st =
     (let e = string_from_config (fn_config n) [''expression''] in
      if e = [] then go ''false'' st
      else (case evaluate_expression E e (data_of st) of
              None \<Rightarrow> go ''false'' st
            | Some b \<Rightarrow> go (if b then ''true'' else ''false'') st))"

definition exec_timing :: "cenv \<Rightarrow> chat_node \<Rightarrow> chat_state \<Rightarrow> exec_result" where
  "exec_timing E n st =
     go (evaluate_timing_schedule (cv_clock E st)
           (case jget (fn_config n) ''schedule'' of AArr xs \<Rightarrow> xs | _ \<Rightarrow> [])) st"

fun assign_all :: "cenv \<Rightarrow> jsonb \<Rightarrow> jsonb \<Rightarrow> jsonb option" where
  "assign_all E [] data = Some data"
| "assign_all E ((name, raw) # rest) data =
     (if name = [] then assign_all E rest data
      else case raw of
        AStr tmpl \<Rightarrow>
          (case render E data tmpl of
             None \<Rightarrow> None
           | Some t \<Rightarrow> assign_all E rest (jput name (AStr t) data))
      | _ \<Rightarrow> assign_all E rest (jput name raw data))"

definition exec_set_variable :: "cenv \<Rightarrow> chat_node \<Rightarrow> chat_state \<Rightarrow> exec_result" where
  "exec_set_variable E n st =
     (let assignments = (case jget (fn_config n) ''set'' of AObj m \<Rightarrow> m | _ \<Rightarrow> []) in
      if assignments = [] then go ''default'' st
      else (case assign_all E (cv_order E assignments) (data_of st) of
              None \<Rightarrow> (None, st)
            | Some data \<Rightarrow> go ''default'' (on_session (\<lambda>s. s\<lparr>ss_data := data\<rparr>) st)))"

section \<open>The AI node\<close>

definition ask_ai :: "cenv \<Rightarrow> chat_node \<Rightarrow> string \<Rightarrow> chat_state \<Rightarrow> exec_result" where
  "ask_ai E n message st =
     (case cv_answer E message st of
        None \<Rightarrow> go ''default'' st
      | Some answer \<Rightarrow>
          if answer = [] then go ''default'' st
          else must_say E (SayText answer) answer n (go ''default'') st)"

definition exec_ai_response :: "cenv \<Rightarrow> chat_node \<Rightarrow> chat_state \<Rightarrow> exec_result" where
  "exec_ai_response E n st =
     (case cv_ai E of
        None \<Rightarrow> go ''default'' st
      | Some ai \<Rightarrow>
          if \<not> ai_enabled ai \<or> ai_provider ai = [] \<or> ai_key ai = [] then go ''default'' st
          else let tmpl = string_from_config (fn_config n) [''prompt_template'', ''prompt''] in
            if tmpl = [] then ask_ai E n (cs_input st) st
            else rendered E tmpl (ask_ai E n) st)"

section \<open>The transfer node\<close>

text \<open>The placement of a collaborator: the one active team of the unit and the department.\<close>

definition resolve_placement :: "cenv \<Rightarrow> chat_state \<Rightarrow> uuid \<times> string" where
  "resolve_placement E st =
     (let c = cs_contact st in
      case (cc_unit c, cc_dept c) of
        (Some u, Some d) \<Rightarrow>
          if cc_type c \<noteq> ''colaborador'' then (0, ''no_contact_placement'')
          else if \<not> cv_db E st then (0, ''no_team_for_contact_placement'')
          else (case take 2 (filter (\<lambda>t. ft_org t = ct_org c \<and> ft_unit t = Some u \<and> ft_dept t = Some d
                                        \<and> ft_active t \<and> \<not> ft_deleted t) (cv_teams E)) of
                  [] \<Rightarrow> (0, ''no_team_for_contact_placement'')
                | [t] \<Rightarrow> (ft_id t, ''contact_placement'')
                | _ \<Rightarrow> (0, ''ambiguous_contact_placement''))
      | _ \<Rightarrow> (0, ''no_contact_placement''))"

definition transfer_team :: "cenv \<Rightarrow> uuid \<Rightarrow> string \<Rightarrow> string \<Rightarrow> chat_state \<Rightarrow> chat_state" where
  "transfer_team E team notes reason st =
     st\<lparr>cs_tw := create_transfer_to_team (cv_tenv E) (cv_account E) (contact.truncate (cs_contact st)) team notes
                   SrcFlow reason (cs_tw st)\<rparr>"

definition transfer_queue :: "cenv \<Rightarrow> string \<Rightarrow> chat_state \<Rightarrow> chat_state" where
  "transfer_queue E reason st =
     st\<lparr>cs_tw := create_transfer_to_queue (cv_tenv E) (cv_account E) (contact.truncate (cs_contact st)) SrcFlow
                   reason (cs_tw st)\<rparr>"

definition transfer_to_fallback :: "cenv \<Rightarrow> chat_node \<Rightarrow> string \<Rightarrow> string \<Rightarrow> chat_state \<Rightarrow> chat_state" where
  "transfer_to_fallback E n notes reason st =
     (let fb = string_from_config (fn_config n) [''fallback_team_id''] in
      case (if fb = [] \<or> fb = ''_general'' then None else cv_uuid E fb) of
        Some team \<Rightarrow>
          if cv_db E st \<and> (\<exists>t \<in> set (cv_teams E). ft_id t = team \<and> ft_org t = ct_org (cs_contact st)
                              \<and> ft_active t \<and> \<not> ft_deleted t)
          then transfer_team E team notes reason st else transfer_queue E reason st
      | None \<Rightarrow> transfer_queue E reason st)"

definition route_flow_transfer :: "cenv \<Rightarrow> chat_node \<Rightarrow> string \<Rightarrow> chat_state \<Rightarrow> chat_state" where
  "route_flow_transfer E n notes st =
     (if string_from_config (fn_config n) [''destination''] = ''contact_placement''
      then (case resolve_placement E st of
              (team, reason) \<Rightarrow>
                if reason = ''contact_placement'' then transfer_team E team notes reason st
                else transfer_to_fallback E n notes reason st)
      else let team_id = string_from_config (fn_config n) [''team_id''] in
        (case (if team_id = [] \<or> team_id = ''_general'' then None else cv_uuid E team_id) of
           Some team \<Rightarrow> transfer_team E team notes ''team_fixed'' st
         | None \<Rightarrow> transfer_queue E ''team_fixed'' st))"

text \<open>\<open>addContactTags\<close>: the contact's string tags once each, then the new ones, trimmed.\<close>

fun merge_tags :: "string list \<Rightarrow> string list \<Rightarrow> string list" where
  "merge_tags seen [] = seen"
| "merge_tags seen (t # ts) = (if t \<in> set seen then merge_tags seen ts else merge_tags (seen @ [t]) ts)"

definition add_contact_tags :: "cenv \<Rightarrow> string list \<Rightarrow> chat_state \<Rightarrow> chat_state" where
  "add_contact_tags E tags st =
     (let old = merge_tags [] (List.map_filter as_str (cc_tags (cs_contact st)));
          new = merge_tags old (filter (\<lambda>t. t \<noteq> []) (map trim_space tags))
      in if new = old \<or> \<not> cv_db E st then st
         else st\<lparr>cs_contact := (cs_contact st)\<lparr>cc_tags := map AStr new\<rparr>\<rparr>)"

definition finish_transfer :: "cenv \<Rightarrow> chat_node \<Rightarrow> string \<Rightarrow> chat_state \<Rightarrow> exec_result" where
  "finish_transfer E n notes st =
     (let tags = string_slice_from_config (fn_config n) ''tags'';
          st1 = (if tags = [] then st else add_contact_tags E tags st)
      in wait (on_session (\<lambda>s. s\<lparr>ss_status := SCompleted\<rparr>) (route_flow_transfer E n notes st1)))"

definition transfer_notes :: "cenv \<Rightarrow> chat_node \<Rightarrow> chat_state \<Rightarrow> exec_result" where
  "transfer_notes E n st =
     (let notes = string_from_config (fn_config n) [''notes''] in
      if notes = [] then finish_transfer E n [] st else rendered E notes (finish_transfer E n) st)"

definition exec_transfer :: "cenv \<Rightarrow> chat_node \<Rightarrow> chat_state \<Rightarrow> exec_result" where
  "exec_transfer E n st =
     (let body = string_from_config (fn_config n) [''body'', ''message'', ''text''] in
      if body = [] then transfer_notes E n st
      else rendered E body (\<lambda>t. say E (SayText t) t n (\<lambda>_. transfer_notes E n)) st)"

section \<open>Jumps and forms\<close>

definition goto_entry :: "cenv \<Rightarrow> chat_flow \<Rightarrow> any" where
  "goto_entry E f =
     AObj [(''action'', AStr ''goto_flow''), (''flow'', AStr (fl_name f)), (''flow_id'', AStr (cv_show_uuid E (fl_id f)))]"

definition exec_goto_flow :: "cenv \<Rightarrow> chat_node \<Rightarrow> chat_state \<Rightarrow> exec_result" where
  "exec_goto_flow E n st =
     (let target = string_from_config (fn_config n) [''flow_id''] in
      case (if target = [] then None else cv_uuid E target) of
        None \<Rightarrow> go [] st
      | Some i \<Rightarrow>
          (case cv_flow E i st of
             None \<Rightarrow> go [] st
           | Some f \<Rightarrow>
               if \<not> fl_enabled f \<or> fl_account f \<noteq> ss_account (cs_session st) \<or> fl_graph f = None then go [] st
               else go ''goto'' (on_session (\<lambda>s. s\<lparr>ss_flow := Some (fl_id f)\<rparr>) (append_path (goto_entry E f) st))))"

definition screen_id :: "any list \<Rightarrow> string" where
  "screen_id screens = (case screens of AObj m # _ \<Rightarrow> str_of (jget m ''id'') | _ \<Rightarrow> [])"

definition first_screen :: "cenv \<Rightarrow> string \<Rightarrow> string" where
  "first_screen E i =
     (case cv_wa_flow E i of
        None \<Rightarrow> []
      | Some (screens, json) \<Rightarrow>
          if screen_id screens \<noteq> [] then screen_id screens
          else (case jget json ''screens'' of AArr xs \<Rightarrow> screen_id xs | _ \<Rightarrow> []))"

definition exec_whatsapp_flow :: "cenv \<Rightarrow> chat_node \<Rightarrow> chat_state \<Rightarrow> exec_result" where
  "exec_whatsapp_flow E n st =
     (if \<not> cs_consumed st \<and> cs_form st \<noteq> []
      then go ''default''
        (on_session (\<lambda>s. s\<lparr>ss_data := copy_into (cs_form st) (ss_data s)\<rparr>) (st\<lparr>cs_consumed := True\<rparr>))
      else let i = string_from_config (fn_config n) [''flow_id''] in
        if i = [] then go ''default'' st
        else rendered E (string_from_config (fn_config n) [''body'', ''message'', ''text'']) (\<lambda>body.
             rendered E (string_from_config (fn_config n) [''header'']) (\<lambda>header.
             rendered E (string_from_config (fn_config n) [''cta'']) (\<lambda>cta.
             must_say E (SayForm i header body cta (first_screen E i)) body n wait))) st)"

section \<open>The runner\<close>

fun execute_chat_node :: "cenv \<Rightarrow> chat_node \<Rightarrow> chat_state \<Rightarrow> exec_result" where
  "execute_chat_node E n st =
     (case fn_type n of
        NStart \<Rightarrow> go ''default'' st
      | NMessage \<Rightarrow> exec_message E n st
      | NButtons \<Rightarrow> exec_buttons E n st
      | NPrompt \<Rightarrow> exec_prompt E n st
      | NApiCall \<Rightarrow> exec_api_call E n st
      | NCondition \<Rightarrow> exec_condition E n st
      | NTiming \<Rightarrow> exec_timing E n st
      | NSetVariable \<Rightarrow> exec_set_variable E n st
      | NAiResponse \<Rightarrow> exec_ai_response E n st
      | NTransfer \<Rightarrow> exec_transfer E n st
      | NWebhook \<Rightarrow> exec_webhook E n st
      | NGotoFlow \<Rightarrow> exec_goto_flow E n st
      | NWhatsAppFlow \<Rightarrow> exec_whatsapp_flow E n st
      | NEnd \<Rightarrow> exec_end E n st
      | NOther t \<Rightarrow> fail (Unimplemented t) st)"

text \<open>\<open>persistChatSession\<close>: None when the row was written.\<close>

definition touch :: "time \<Rightarrow> chat_session \<Rightarrow> chat_session" where
  "touch now s =
     (if ss_status s = SCompleted \<and> ss_completed s = None
      then s\<lparr>ss_last := now, ss_completed := Some now\<rparr> else s\<lparr>ss_last := now\<rparr>)"

definition persist :: "cenv \<Rightarrow> chat_state \<Rightarrow> chat_error option \<times> chat_state" where
  "persist E st0 =
     (let st = on_session (touch (cv_now E st0)) st0 in
      if cv_save E st then (None, st\<lparr>cs_saved := cs_saved st @ [cs_session st]\<rparr>) else (Some SaveFailed, st))"

type_synonym run_result = "chat_error option option \<times> chat_state"

text \<open>The two ways a run ends: with an error, whatever the save says, or with the save's.\<close>

definition stop_with :: "cenv \<Rightarrow> chat_error \<Rightarrow> chat_state \<Rightarrow> run_result" where
  "stop_with E e st = (Some (Some e), snd (persist E st))"

definition stop :: "cenv \<Rightarrow> chat_state \<Rightarrow> run_result" where
  "stop E st = (case persist E st of (r, st1) \<Rightarrow> (Some r, st1))"

definition complete :: "chat_state \<Rightarrow> chat_state" where
  "complete = on_session (\<lambda>s. s\<lparr>ss_status := SCompleted\<rparr>)"

definition set_step :: "string \<Rightarrow> chat_state \<Rightarrow> chat_state" where
  "set_step i = on_session (\<lambda>s. s\<lparr>ss_step := i\<rparr>)"

definition skipped :: "cenv \<Rightarrow> chat_node \<Rightarrow> chat_state \<Rightarrow> bool" where
  "skipped E n st \<longleftrightarrow>
     (let e = string_from_config (fn_config n) [''skip_condition''] in
      e \<noteq> [] \<and> evaluate_expression E e (data_of st) = Some True)"

definition max_chat_graph_iterations :: nat where
  "max_chat_graph_iterations = 100"

fun chat_loop ::
  "cenv \<Rightarrow> (chat_node \<Rightarrow> chat_state \<Rightarrow> exec_result) \<Rightarrow> nat \<Rightarrow> uuid \<Rightarrow> chat_graph \<Rightarrow> chat_state \<Rightarrow> run_result" where
  "chat_loop E exec 0 fid g st = stop_with E Runaway st"
| "chat_loop E exec (Suc k) fid g st =
     (case node_of g (ss_step (cs_session st)) of
        None \<Rightarrow> (Some (Some (NodeNotFound (ss_step (cs_session st)))), st)
      | Some n \<Rightarrow>
          if skipped E n st then
            (let st1 = append_chat_path n ''skipped'' st; next = resolve_edge g (fn_id n) ''default'' in
             if next = [] then stop E (complete st1) else chat_loop E exec k fid g (set_step next st1))
          else (case exec n st of
            (None, st1) \<Rightarrow> (None, st1)
          | (Some (Inl e), st1) \<Rightarrow> stop_with E e st1
          | (Some (Inr r), st1) \<Rightarrow>
              (let st2 = append_chat_path n (no_outcome r) st1 in
               if no_yield r then stop E st2
               else (case ss_flow (cs_session st2) of
                 Some target \<Rightarrow>
                   if target \<noteq> fid then
                     (case cv_flow E target st2 of
                        None \<Rightarrow> stop_with E GotoLoad st2
                      | Some f \<Rightarrow>
                          (case parse_graph (fl_graph f) of
                             Inl e \<Rightarrow> stop_with E (GotoBadGraph e) st2
                           | Inr None \<Rightarrow> stop_with E GotoNoGraph st2
                           | Inr (Some g1) \<Rightarrow> chat_loop E exec k (fl_id f) g1 (set_step (fg_entry g1) st2)))
                   else (let next = resolve_edge g (fn_id n) (no_outcome r) in
                         if next = [] then stop E (complete st2) else chat_loop E exec k fid g (set_step next st2))
               | None \<Rightarrow>
                   (let next = resolve_edge g (fn_id n) (no_outcome r) in
                    if next = [] then stop E (complete st2) else chat_loop E exec k fid g (set_step next st2))))))"

text \<open>The built-in variables of the session.\<close>

definition seed_registration :: "cenv \<Rightarrow> chat_contact \<Rightarrow> jsonb \<Rightarrow> jsonb" where
  "seed_registration E c data =
     (let known = (if cc_type c = [] then ''cliente'' else cc_type c);
          name = (\<lambda>look i. case i of None \<Rightarrow> [] | Some j \<Rightarrow> (case look j (ct_org c) of None \<Rightarrow> [] | Some s \<Rightarrow> s));
          colab = cc_type c = ''colaborador''
      in jput ''contact_department'' (AStr (if colab then name (cv_dept_name E) (cc_dept c) else []))
           (jput ''contact_unit'' (AStr (if colab then name (cv_unit_name E) (cc_unit c) else []))
             (jput ''contact_type'' (AStr known) data)))"

definition seed :: "cenv \<Rightarrow> chat_state \<Rightarrow> chat_state" where
  "seed E st =
     on_session (\<lambda>s. s\<lparr>ss_data := seed_registration E (cs_contact st)
         (jput ''contact_name'' (AStr (cc_profile (cs_contact st)))
           (jput ''phone_number'' (AStr (ss_phone s)) (ss_data s)))\<rparr>) st"

definition start :: "chat_graph \<Rightarrow> chat_state \<Rightarrow> chat_state" where
  "start g st =
     (if ss_step (cs_session st) = []
      then (set_step (fg_entry g) st)\<lparr>cs_input := [], cs_button := []\<rparr> else st)"

definition run_chat_graph :: "cenv \<Rightarrow> chat_flow \<Rightarrow> chat_state \<Rightarrow> run_result" where
  "run_chat_graph E f st =
     (case parse_graph (fl_graph f) of
        Inl e \<Rightarrow> (Some (Some (BadGraph e)), st)
      | Inr None \<Rightarrow> (Some (Some NoGraph), st)
      | Inr (Some g) \<Rightarrow>
          chat_loop E (execute_chat_node E) max_chat_graph_iterations (fl_id f) g (start g (seed E st)))"

section \<open>What every executor keeps\<close>

text \<open>The nodes a run may stop at to wait for the customer.\<close>

definition waits :: "chat_node \<Rightarrow> bool" where
  "waits n \<longleftrightarrow> fn_type n \<in> {NButtons, NPrompt, NWhatsAppFlow}"

fun lookup_error :: "chat_error \<Rightarrow> bool" where
  "lookup_error (NodeNotFound i) = True"
| "lookup_error _ = False"

text \<open>At the step and in the flow of \<open>i\<close>, with the rows \<open>sv\<close> saved and at most \<open>B\<close> messages sent.\<close>

datatype spot = Spot (spot_step: string) (spot_flow: "uuid option")

definition st_ok :: "spot \<Rightarrow> chat_session list \<Rightarrow> nat \<Rightarrow> chat_state \<Rightarrow> bool" where
  "st_ok i sv B st \<longleftrightarrow> ss_step (cs_session st) = spot_step i \<and> ss_flow (cs_session st) = spot_flow i \<and> cs_saved st = sv \<and> length (cs_sent st) \<le> B"

text \<open>A jump names another flow, and never asks to stay.\<close>

definition res_ok ::
    "chat_node \<Rightarrow> spot \<Rightarrow> chat_session list \<Rightarrow> nat \<Rightarrow> exec_result \<Rightarrow> bool" where
  "res_ok n i sv B res \<longleftrightarrow>
     (st_ok i sv B (snd res)
      \<or> (\<exists>j r. fst res = Some (Inr r) \<and> \<not> no_yield r \<and> st_ok (Spot (spot_step i) (Some j)) sv B (snd res)))
     \<and> (\<forall>e. fst res = Some (Inl e) \<longrightarrow> \<not> lookup_error e)
     \<and> (\<forall>r. fst res = Some (Inr r) \<longrightarrow> no_yield r \<longrightarrow> waits n \<or> ss_status (cs_session (snd res)) = SCompleted)"

named_theorems exec_rules \<open>rules that carry \<open>res_ok\<close> through the steps of an executor\<close>

lemma st_ok_Suc: "st_ok i sv B st \<Longrightarrow> st_ok i sv (Suc B) st"
  by (simp add: st_ok_def)

lemma ok_go [exec_rules]: "st_ok i sv B st \<Longrightarrow> res_ok n i sv B (go outcome st)"
  and ok_fail [exec_rules]: "st_ok i sv B st \<Longrightarrow> \<not> lookup_error e \<Longrightarrow> res_ok n i sv B (fail e st)"
  and ok_hang [exec_rules]: "st_ok i sv B st \<Longrightarrow> res_ok n i sv B (None, st)"
  and ok_wait: "st_ok i sv B st \<Longrightarrow> waits n \<or> ss_status (cs_session st) = SCompleted \<Longrightarrow> res_ok n i sv B (wait st)"
  by (simp_all add: res_ok_def go_def fail_def wait_def)

lemma ok_jump:
  "st_ok i sv B st \<Longrightarrow> res_ok n i sv B (go outcome (on_session (\<lambda>s. s\<lparr>ss_flow := Some j\<rparr>) st))"
  by (auto simp: res_ok_def go_def st_ok_def on_session_def)

lemma ok_rendered [exec_rules]:
  "st_ok i sv B st \<Longrightarrow> (\<And>t. res_ok n i sv B (k t st)) \<Longrightarrow> res_ok n i sv B (rendered E s k st)"
  by (auto simp: rendered_def ok_hang split: option.split)

lemma ok_say [exec_rules]:
  assumes "st_ok i sv B st" "\<And>b st'. st_ok i sv (Suc B) st' \<Longrightarrow> res_ok n i sv (Suc B) (k b st')"
  shows "res_ok n i sv (Suc B) (say E w s m k st)"
  using assms by (auto simp: say_def st_ok_def)

lemma ok_must_say [exec_rules]:
  assumes "st_ok i sv B st" "\<And>st'. st_ok i sv (Suc B) st' \<Longrightarrow> res_ok n i sv (Suc B) (k st')"
  shows "res_ok n i sv (Suc B) (must_say E w s m k st)"
  unfolding must_say_def by (rule ok_say [OF assms(1)]) (auto intro: assms(2) ok_fail)

text \<open>The steps that touch neither the step nor what was saved and sent.\<close>

lemma st_ok_steps [simp]:
  "st_ok i sv B (set_data k v st) = st_ok i sv B st"
  "st_ok i sv B (append_path a st) = st_ok i sv B st"
  "st_ok i sv B (append_chat_path n outcome st) = st_ok i sv B st"
  "st_ok i sv B (set_phone st) = st_ok i sv B st"
  "st_ok i sv B (http_call cfg st) = st_ok i sv B st"
  "st_ok i sv B (set_button_team E b st) = st_ok i sv B st"
  "st_ok i sv B (transfer_team E team notes reason st) = st_ok i sv B st"
  "st_ok i sv B (transfer_queue E reason st) = st_ok i sv B st"
  "st_ok i sv B (add_contact_tags E tags st) = st_ok i sv B st"
  "st_ok i sv B (st\<lparr>cs_consumed := seen\<rparr>) = st_ok i sv B st"
  "st_ok i sv B (st\<lparr>cs_effects := fx\<rparr>) = st_ok i sv B st"
  by (auto simp: st_ok_def set_data_def on_session_def append_path_def append_chat_path_def set_phone_def http_call_def
      set_button_team_def transfer_team_def transfer_queue_def add_contact_tags_def Let_def split: option.split)

lemma st_ok_session [simp]:
  "(\<And>s. ss_step (f s) = ss_step s) \<Longrightarrow> (\<And>s. ss_flow (f s) = ss_flow s) \<Longrightarrow>
   st_ok i sv B (on_session f st) = st_ok i sv B st"
  by (simp add: st_ok_def on_session_def)

lemma st_ok_fallback [simp]: "st_ok i sv B (transfer_to_fallback E n notes reason st) = st_ok i sv B st"
  by (simp add: transfer_to_fallback_def Let_def split: option.split)

lemma st_ok_route [simp]: "st_ok i sv B (route_flow_transfer E n notes st) = st_ok i sv B st"
  by (simp add: route_flow_transfer_def Let_def split: option.split prod.split)

lemma st_ok_click [simp]: "st_ok i sv B (click E n st) = st_ok i sv B st"
  by (simp add: click_def Let_def split: option.split)

lemma map_response_ok: "map_response n body st = Some st1 \<Longrightarrow> st_ok i sv B st1 = st_ok i sv B st"
  by (auto simp: map_response_def split: any.splits option.splits if_splits)

section \<open>One lemma per executor\<close>

lemma message_ok:
  assumes "st_ok i sv B st"
  shows "res_ok n i sv (Suc B) (exec_message E n st)"
  unfolding exec_message_def Let_def using assms st_ok_Suc [OF assms(1)] by (auto intro!: exec_rules)

lemma end_ok:
  assumes "st_ok i sv B st"
  shows "res_ok n i sv (Suc B) (exec_end E n st)"
  unfolding exec_end_def Let_def using assms st_ok_Suc [OF assms(1)] by (auto intro!: exec_rules)

lemma buttons_ok:
  assumes "st_ok i sv B st" "fn_type n = NButtons"
  shows "res_ok n i sv (Suc B) (exec_buttons E n st)"
  unfolding exec_buttons_def Let_def using assms st_ok_Suc [OF assms(1)]
  by (auto intro!: exec_rules ok_wait simp: waits_def split: option.split)

lemma prompt_invalid_ok:
  assumes "st_ok i sv B st" "fn_type n = NPrompt"
  shows "res_ok n i sv (Suc B) (prompt_invalid E n st)"
  unfolding prompt_invalid_def Let_def using assms st_ok_Suc [OF assms(1)]
  by (auto intro!: exec_rules ok_wait simp: waits_def)

lemma api_call_ok:
  assumes "st_ok i sv B st"
  shows "res_ok n i sv (Suc B) (exec_api_call E n st)"
  unfolding exec_api_call_def Let_def using assms st_ok_Suc [OF assms(1)] map_response_ok
  by (auto intro!: exec_rules split: option.split prod.split)

lemma webhook_ok:
  assumes "st_ok i sv B st"
  shows "res_ok n i sv (Suc B) (exec_webhook E n st)"
  unfolding exec_webhook_def using assms st_ok_Suc [OF assms(1)] by (auto intro!: exec_rules)

lemma condition_ok:
  assumes "st_ok i sv B st"
  shows "res_ok n i sv (Suc B) (exec_condition E n st)"
  unfolding exec_condition_def Let_def using assms st_ok_Suc [OF assms(1)] by (auto intro!: exec_rules split: option.split)

lemma timing_ok:
  assumes "st_ok i sv B st"
  shows "res_ok n i sv (Suc B) (exec_timing E n st)"
  unfolding exec_timing_def using assms st_ok_Suc [OF assms(1)] by (auto intro!: exec_rules)

lemma set_variable_ok:
  assumes "st_ok i sv B st"
  shows "res_ok n i sv (Suc B) (exec_set_variable E n st)"
  unfolding exec_set_variable_def Let_def using assms st_ok_Suc [OF assms(1)] by (auto intro!: exec_rules split: option.split)

lemma ai_response_ok:
  assumes "st_ok i sv B st"
  shows "res_ok n i sv (Suc B) (exec_ai_response E n st)"
  unfolding exec_ai_response_def ask_ai_def Let_def using assms st_ok_Suc [OF assms(1)] by (auto intro!: exec_rules split: option.split)

lemma finish_transfer_ok:
  assumes "st_ok i sv B st"
  shows "res_ok n i sv B (finish_transfer E n notes st)"
  unfolding finish_transfer_def Let_def
  by (rule ok_wait) (use assms in \<open>simp_all, simp add: on_session_def\<close>)

lemma goto_flow_ok:
  assumes "st_ok i sv B st"
  shows "res_ok n i sv (Suc B) (exec_goto_flow E n st)"
  using st_ok_Suc [OF assms(1)] by (simp add: exec_goto_flow_def Let_def ok_go ok_jump split: option.split)

lemma whatsapp_flow_ok:
  assumes "st_ok i sv B st" "fn_type n = NWhatsAppFlow"
  shows "res_ok n i sv (Suc B) (exec_whatsapp_flow E n st)"
  unfolding exec_whatsapp_flow_def Let_def using assms st_ok_Suc [OF assms(1)] by (auto intro!: exec_rules ok_wait simp: waits_def)

lemma transfer_notes_ok:
  assumes "st_ok i sv B st"
  shows "res_ok n i sv B (transfer_notes E n st)"
  unfolding transfer_notes_def Let_def using assms finish_transfer_ok by (auto intro!: exec_rules)

lemma transfer_ok:
  assumes "st_ok i sv B st"
  shows "res_ok n i sv (Suc B) (exec_transfer E n st)"
  unfolding exec_transfer_def Let_def
  using assms st_ok_Suc [OF assms(1)] transfer_notes_ok by (auto intro!: exec_rules)

lemma prompt_ok:
  assumes "st_ok i sv B st" "fn_type n = NPrompt"
  shows "res_ok n i sv (Suc B) (exec_prompt E n st)"
  unfolding exec_prompt_def Let_def using assms st_ok_Suc [OF assms(1)]
  by (auto intro!: exec_rules ok_wait prompt_invalid_ok simp: waits_def)

lemmas executor_ok = message_ok end_ok buttons_ok prompt_ok api_call_ok webhook_ok condition_ok timing_ok
  set_variable_ok ai_response_ok transfer_ok goto_flow_ok whatsapp_flow_ok

lemma execute_ok:
  assumes "st_ok i sv B st"
  shows "res_ok n i sv (Suc B) (execute_chat_node E n st)"
  using assms executor_ok [OF assms] st_ok_Suc [OF assms]
  by (cases "fn_type n") (simp_all add: ok_go ok_fail)

section \<open>What the runner promises\<close>

text \<open>
  The contract of an executor: it does not move the session or save it, says at most one thing, and
  asks to stay only at a node that waits or with the session completed.
\<close>

locale chat_executor =
  fixes exec :: "chat_node \<Rightarrow> chat_state \<Rightarrow> exec_result"
  assumes keeps: "st_ok i sv B st \<Longrightarrow> res_ok n i sv (Suc B) (exec n st)"
begin

lemma exec_step:
  assumes "exec n st = (r, st1)"
  shows "ss_step (cs_session st1) = ss_step (cs_session st)" "cs_saved st1 = cs_saved st"
    "length (cs_sent st1) \<le> Suc (length (cs_sent st))" "r = Some (Inl e) \<Longrightarrow> \<not> lookup_error e"
    "r = Some (Inr outcome) \<Longrightarrow> no_yield outcome \<Longrightarrow> waits n \<or> ss_status (cs_session st1) = SCompleted"
    "ss_flow (cs_session st1) = ss_flow (cs_session st)
     \<or> (\<exists>j out. ss_flow (cs_session st1) = Some j \<and> r = Some (Inr out) \<and> \<not> no_yield out)"
proof -
  have "st_ok (Spot (ss_step (cs_session st)) (ss_flow (cs_session st))) (cs_saved st) (length (cs_sent st)) st"
    by (simp add: st_ok_def)
  from keeps [OF this, of n] show "ss_step (cs_session st1) = ss_step (cs_session st)" "cs_saved st1 = cs_saved st"
    "length (cs_sent st1) \<le> Suc (length (cs_sent st))" "r = Some (Inl e) \<Longrightarrow> \<not> lookup_error e"
    "r = Some (Inr outcome) \<Longrightarrow> no_yield outcome \<Longrightarrow> waits n \<or> ss_status (cs_session st1) = SCompleted"
    "ss_flow (cs_session st1) = ss_flow (cs_session st)
     \<or> (\<exists>j out. ss_flow (cs_session st1) = Some j \<and> r = Some (Inr out) \<and> \<not> no_yield out)"
    using assms by (auto simp: res_ok_def st_ok_def)
qed

end

text \<open>The session's own steps.\<close>

lemma sent_steps [simp]:
  "cs_sent (append_chat_path n outcome st) = cs_sent st" "cs_sent (set_step i st) = cs_sent st"
  "cs_sent (complete st) = cs_sent st"
  "cs_saved (append_chat_path n outcome st) = cs_saved st" "cs_saved (set_step i st) = cs_saved st"
  "cs_saved (complete st) = cs_saved st"
  "ss_step (cs_session (append_chat_path n outcome st)) = ss_step (cs_session st)"
  "ss_step (cs_session (set_step i st)) = i" "ss_step (cs_session (complete st)) = ss_step (cs_session st)"
  "ss_status (cs_session (append_chat_path n outcome st)) = ss_status (cs_session st)"
  "ss_status (cs_session (complete st)) = SCompleted"
  "ss_flow (cs_session (append_chat_path n outcome st)) = ss_flow (cs_session st)"
  "ss_flow (cs_session (set_step i st)) = ss_flow (cs_session st)"
  "ss_flow (cs_session (complete st)) = ss_flow (cs_session st)"
  by (simp_all add: append_chat_path_def append_path_def set_data_def on_session_def set_step_def complete_def)

lemma on_session_sel [simp]:
  "cs_session (on_session f st) = f (cs_session st)" "cs_sent (on_session f st) = cs_sent st"
  "cs_saved (on_session f st) = cs_saved st"
  by (simp_all add: on_session_def)

lemma touch_sel [simp]:
  "ss_step (touch now s) = ss_step s" "ss_flow (touch now s) = ss_flow s" "ss_status (touch now s) = ss_status s"
  "ss_status s = SCompleted \<Longrightarrow> \<exists>t. ss_completed (touch now s) = Some t"
  by (auto simp: touch_def)

lemma persist_keeps:
  "cs_sent (snd (persist E st)) = cs_sent st"
  "ss_step (cs_session (snd (persist E st))) = ss_step (cs_session st)"
  "ss_status (cs_session (snd (persist E st))) = ss_status (cs_session st)"
  "ss_status (cs_session st) = SCompleted \<Longrightarrow> ss_completed (cs_session (snd (persist E st))) \<noteq> None"
  "fst (persist E st) = None \<Longrightarrow> cs_saved (snd (persist E st)) = cs_saved st @ [cs_session (snd (persist E st))]"
  "ss_flow (cs_session (snd (persist E st))) = ss_flow (cs_session st)"
  by (simp_all add: persist_def Let_def split: if_splits)

lemma stop_sent [simp]: "cs_sent (snd (stop E st)) = cs_sent st" "cs_sent (snd (stop_with E e st)) = cs_sent st"
  by (simp_all add: stop_def stop_with_def persist_keeps split: prod.split)
    (metis persist_keeps(1) snd_conv)

text \<open>
  A session that was left in order: saved last, and completed or at a node that waits, of the flow its
  own \<open>CurrentFlowID\<close> names: the one that was run, or the one the database has under that id.
\<close>

definition rests_in :: "cenv \<Rightarrow> chat_flow \<Rightarrow> uuid \<Rightarrow> chat_graph \<Rightarrow> bool" where
  "rests_in E f i g \<longleftrightarrow>
     (\<exists>f1. fl_id f1 = i \<and> (f1 = f \<or> (\<exists>v. cv_flow E i v = Some f1)) \<and> parse_graph (fl_graph f1) = Inr (Some g))"

definition resting :: "cenv \<Rightarrow> chat_flow \<Rightarrow> chat_session list \<Rightarrow> chat_state \<Rightarrow> bool" where
  "resting E f sv st \<longleftrightarrow>
     cs_saved st = sv @ [cs_session st]
     \<and> (ss_status (cs_session st) = SCompleted \<and> ss_completed (cs_session st) \<noteq> None
        \<or> (\<exists>i g n. ss_flow (cs_session st) = Some i \<and> rests_in E f i g
              \<and> node_of g (ss_step (cs_session st)) = Some n \<and> waits n))"

lemma stop_resting:
  assumes "stop E st = (Some None, st')"
    and "ss_status (cs_session st) = SCompleted
      \<or> (node_of g (ss_step (cs_session st)) = Some n \<and> waits n \<and> ss_flow (cs_session st) = Some i \<and> rests_in E f i g)"
  shows "resting E f (cs_saved st) st'"
proof -
  have p: "fst (persist E st) = None" "snd (persist E st) = st'"
    using assms(1) by (auto simp: stop_def split: prod.splits)
  show ?thesis
    using persist_keeps(2-6) [where E = E and st = st] p assms(2) unfolding resting_def by auto
qed

text \<open>A flow is loaded by its id.\<close>

definition flows_by_id :: "cenv \<Rightarrow> bool" where
  "flows_by_id E \<longleftrightarrow> (\<forall>i v f. cv_flow E i v = Some f \<longrightarrow> fl_id f = i)"

text \<open>The environment's flows have closed graphs.\<close>

definition flows_closed :: "cenv \<Rightarrow> bool" where
  "flows_closed E \<longleftrightarrow> (\<forall>i v f g. cv_flow E i v = Some f \<longrightarrow> parse_graph (fl_graph f) = Inr (Some g) \<longrightarrow> closed_graph g)"

definition reports_lookup :: "run_result \<Rightarrow> bool" where
  "reports_lookup r \<longleftrightarrow> (\<exists>i. fst r = Some (Some (NodeNotFound i)))"

lemma stop_no_lookup [simp]:
  "\<not> lookup_error e \<Longrightarrow> \<not> reports_lookup (stop_with E e st)" "\<not> reports_lookup (stop E st)"
  by (auto simp: reports_lookup_def stop_with_def stop_def persist_def Let_def split: prod.splits if_splits)

context chat_executor
begin

lemma loop_sent: "length (cs_sent (snd (chat_loop E exec k fid g st))) \<le> length (cs_sent st) + k"
proof (induction k arbitrary: fid g st)
  case (Suc k)
  show ?case
  proof (cases "node_of g (ss_step (cs_session st))")
    case (Some n)
    show ?thesis
    proof (cases "skipped E n st")
      case True
      then show ?thesis using Some Suc.IH [of fid g "set_step _ (append_chat_path n ''skipped'' st)"]
        by (auto simp: Let_def intro: le_SucI)
    next
      case False
      obtain r st1 where e: "exec n st = (r, st1)" by (cases "exec n st")
      note le = exec_step(3) [OF e]
      have more: "length (cs_sent v) \<le> Suc (length (cs_sent st)) \<Longrightarrow>
          length (cs_sent (snd (chat_loop E exec k fid' g' v))) \<le> Suc (length (cs_sent st) + k)" for fid' g' v
        using Suc.IH [of fid' g' v] by simp
      show ?thesis
        using Some False e le
        by (auto simp: Let_def split: option.split sum.split intro!: more)
    qed
  qed simp
qed simp

lemma loop_resting:
  assumes "chat_loop E exec k fid g st = (Some None, st')" "cs_saved st = sv"
    "ss_flow (cs_session st) = Some fid" "rests_in E f fid g" "flows_by_id E"
  shows "resting E f sv st'"
  using assms(1-4)
proof (induction k arbitrary: fid g st)
  case 0
  then show ?case by (simp add: stop_with_def)
next
  case (Suc k)
  obtain n where n: "node_of g (ss_step (cs_session st)) = Some n"
    using Suc.prems(1) by (auto split: option.splits)
  show ?case
  proof (cases "skipped E n st")
    case True
    then show ?thesis
      using n Suc.prems Suc.IH stop_resting [of E "complete (append_chat_path n ''skipped'' st)" st' g n fid f]
      by (auto simp: Let_def split: if_splits)
  next
    case False
    obtain r st1 where e: "exec n st = (r, st1)" by (cases "exec n st")
    obtain out where r: "r = Some (Inr out)"
      using Suc.prems(1) n False e by (cases r) (auto simp: stop_with_def split: sum.splits)
    let ?st2 = "append_chat_path n (no_outcome out) st1"
    have sv: "cs_saved ?st2 = sv" using exec_step(2) [OF e] Suc.prems(2) by simp
    show ?thesis
    proof (cases "no_yield out")
      case True
      then have "stop E ?st2 = (Some None, st')" using Suc.prems(1) n False e r by simp
      moreover have "ss_flow (cs_session ?st2) = Some fid"
        using exec_step(6) [OF e] r True Suc.prems(3) by auto
      then have "ss_status (cs_session ?st2) = SCompleted
          \<or> (node_of g (ss_step (cs_session ?st2)) = Some n \<and> waits n \<and> ss_flow (cs_session ?st2) = Some fid
             \<and> rests_in E f fid g)"
        using exec_step(5) [OF e r True] exec_step(1) [OF e] n Suc.prems(4) by auto
      ultimately show ?thesis using stop_resting sv by metis
    next
      case no_yield: False
      obtain target where target: "ss_flow (cs_session ?st2) = Some target"
        using exec_step(6) [OF e] Suc.prems(3) by auto
      have completed: "stop E (complete ?st2) = (Some None, st') \<Longrightarrow> resting E f sv st'"
        using stop_resting [of E "complete ?st2" st' g n fid f] sv by simp
      have run: "chat_loop E exec (Suc k) fid g st = (Some None, st')" by (rule Suc.prems(1))
      show ?thesis
      proof (cases "target = fid")
        case True
        let ?next = "resolve_edge g (fn_id n) (no_outcome out)"
        have "(if ?next = [] then stop E (complete ?st2) else chat_loop E exec k fid g (set_step ?next ?st2))
            = (Some None, st')"
          using run n False e r no_yield target True by (simp add: Let_def)
        then show ?thesis
          using completed Suc.IH [of fid g "set_step ?next ?st2"] sv target True Suc.prems(4)
          by (auto split: if_splits)
      next
        case other: False
        obtain f1 g1 where f1: "cv_flow E target ?st2 = Some f1" "parse_graph (fl_graph f1) = Inr (Some g1)"
          "chat_loop E exec k (fl_id f1) g1 (set_step (fg_entry g1) ?st2) = (Some None, st')"
          using run n False e r no_yield target other
          by (auto simp: Let_def stop_with_def split: sum.splits option.splits)
        then have "fl_id f1 = target" using assms(5) by (auto simp: flows_by_id_def)
        moreover have "rests_in E f target g1" using f1 calculation by (auto simp: rests_in_def)
        ultimately show ?thesis
          using Suc.IH [of "fl_id f1" g1 "set_step (fg_entry g1) ?st2"] f1(3) target sv by simp
      qed
    qed
  qed
qed

lemma loop_finds_nodes:
  assumes "flows_closed E" "closed_graph g" "node_of g (ss_step (cs_session st)) \<noteq> None"
  shows "\<not> reports_lookup (chat_loop E exec k fid g st)"
  using assms(2,3)
proof (induction k arbitrary: fid g st)
  case (Suc k)
  obtain n where n: "node_of g (ss_step (cs_session st)) = Some n" using Suc.prems(2) by auto
  have onward: "resolve_edge g (fn_id n) outcome \<noteq> [] \<Longrightarrow>
      \<not> reports_lookup (chat_loop E exec k fid g (set_step (resolve_edge g (fn_id n) outcome) st2))" for outcome st2
    by (rule Suc.IH [OF Suc.prems(1)]) (use resolve_edge_closed [OF Suc.prems(1), of "fn_id n" outcome] in auto)
  show ?case
  proof (cases "skipped E n st")
    case True
    then show ?thesis using n onward by (simp add: Let_def)
  next
    case False
    obtain r st1 where e: "exec n st = (r, st1)" by (cases "exec n st")
    have switch: "cv_flow E target v = Some f \<Longrightarrow> parse_graph (fl_graph f) = Inr (Some g1) \<Longrightarrow>
        \<not> reports_lookup (chat_loop E exec k (fl_id f) g1 (set_step (fg_entry g1) st2))" for target v f g1 st2
      using assms(1) parse_graph_entry by (intro Suc.IH) (auto simp: flows_closed_def)
    show ?thesis
      using n False e onward switch exec_step(4) [OF e]
      by (auto simp: Let_def reports_lookup_def [of "(None, _)"] split: option.split sum.split)
  qed
qed (simp add: stop_with_def reports_lookup_def)

end

interpretation chat: chat_executor "execute_chat_node E" for E
  by unfold_locales (rule execute_ok)

section \<open>One inbound message\<close>

lemma start_step:
  assumes "parse_graph (fl_graph f) = Inr (Some g)"
    and "ss_step (cs_session st) = [] \<or> node_of g (ss_step (cs_session st)) \<noteq> None"
  shows "node_of g (ss_step (cs_session (start g (seed E st)))) \<noteq> None"
  using assms parse_graph_entry by (fastforce simp: start_def seed_def set_step_def)

lemma start_keeps [simp]:
  "cs_sent (start g (seed E st)) = cs_sent st" "cs_saved (start g (seed E st)) = cs_saved st"
  "ss_flow (cs_session (start g (seed E st))) = ss_flow (cs_session st)"
  by (simp_all add: start_def seed_def)

text \<open>
  Whatever the flows (cycles, jumps between flows, skip conditions) and whatever the environment
  answers, one inbound message makes the runner send at most 100 messages of its own.\<close>

theorem run_sends_at_most_100:
  "length (cs_sent (snd (run_chat_graph E f st))) \<le> length (cs_sent st) + 100"
  using chat.loop_sent [of E E max_chat_graph_iterations]
  by (auto simp: run_chat_graph_def max_chat_graph_iterations_def split: sum.split option.split)
     (metis start_keeps(1))

text \<open>C21 (invariant).
  A run on the flow the session is in (its \<open>CurrentFlowID\<close> names it, as in both calls of the
  dispatcher), with flows loaded by their id, that returns without an error has written the session last,
  as it is now, and left it either completed, with its completion time, or at a node that waits for the
  customer (buttons, prompt, WhatsApp form) of the flow its \<open>CurrentFlowID\<close> then names, which is the
  one it started in or the one loaded under that id: the next message finds a node that takes it.\<close>

theorem run_leaves_session_resting:
  assumes "run_chat_graph E f st = (Some None, st')"
    and "ss_flow (cs_session st) = Some (fl_id f)" "flows_by_id E"
  shows "resting E f (cs_saved st) st'"
proof -
  obtain g where g: "parse_graph (fl_graph f) = Inr (Some g)"
    using assms(1) by (auto simp: run_chat_graph_def split: sum.splits option.splits)
  then have "chat_loop E (execute_chat_node E) max_chat_graph_iterations (fl_id f) g (start g (seed E st)) = (Some None, st')"
    using assms(1) by (simp add: run_chat_graph_def)
  moreover have "rests_in E f (fl_id f) g" using g by (auto simp: rests_in_def)
  ultimately show ?thesis using chat.loop_resting assms(2,3) by simp
qed

text \<open>
  When the edges of all flows lead to nodes, a run never fails with a node that is not found: neither
  by an edge, nor by a skipped node, nor by a jump to another flow.\<close>

theorem run_finds_its_nodes:
  assumes "flows_closed E" "parse_graph (fl_graph f) = Inr (Some g)" "closed_graph g"
    and "ss_step (cs_session st) = [] \<or> node_of g (ss_step (cs_session st)) \<noteq> None"
  shows "\<not> reports_lookup (run_chat_graph E f st)"
  using chat.loop_finds_nodes [OF assms(1,3) start_step [OF assms(2,4)]] assms(2)
  by (simp add: run_chat_graph_def)

section \<open>Witnesses\<close>

definition sample_cenv :: cenv where
  "sample_cenv = \<lparr>cv_formats = sample_formats, cv_fuel = 5, cv_account = sample_account, cv_tenv = sample_tenv,
     cv_send = (\<lambda>_ _. True), cv_save = (\<lambda>_. True), cv_db = (\<lambda>_. True), cv_now = (\<lambda>_. 7),
     cv_clock = (\<lambda>_. \<lparr>ck_weekday = 1, ck_hour = 9, ck_minute = 0\<rparr>), cv_uuid = (\<lambda>_. None), cv_teams = [],
     cv_unit_name = (\<lambda>_ _. None), cv_dept_name = (\<lambda>_ _. None), cv_expr = (\<lambda>_ _. None), cv_regex = (\<lambda>_. None),
     cv_secrets = Some, cv_http = (\<lambda>_ _ _. None), cv_ai = None, cv_answer = (\<lambda>_ _. None), cv_flow = (\<lambda>_ _. None),
     cv_show_uuid = show_nat, cv_wa_flow = (\<lambda>_. None), cv_order = id\<rparr>"

definition sample_session :: chat_session where
  "sample_session = \<lparr>ss_id = 1, ss_account = ''a'', ss_phone = ''55'', ss_status = SActive, ss_flow = Some 4, ss_step = [],
     ss_retries = 0, ss_data = [], ss_last = 0, ss_completed = None\<rparr>"

definition sample_chat_state :: chat_state where
  "sample_chat_state = \<lparr>cs_session = sample_session,
     cs_contact = contact.extend sample_contact (chat_contact.fields ''Ana'' [] None None []),
     cs_input = ''oi'', cs_button = [], cs_form = [], cs_consumed = False, cs_sent = [], cs_log = [], cs_effects = [],
     cs_saved = [], cs_tw = empty_tworld\<rparr>"

definition sample_graph :: chat_graph where
  "sample_graph = \<lparr>fg_version = 2,
     fg_nodes = [\<lparr>fn_id = ''s'', fn_type = NStart, fn_label = [], fn_config = []\<rparr>,
                 \<lparr>fn_id = ''p'', fn_type = NPrompt, fn_label = [], fn_config = [(''body'', AStr ''nome'')]\<rparr>],
     fg_edges = [\<lparr>ed_from = ''s'', ed_to = ''p'', ed_cond = ''default''\<rparr>], fg_entry = ''s''\<rparr>"

definition sample_flow :: chat_flow where
  "sample_flow = \<lparr>fl_id = 4, fl_name = ''f'', fl_account = ''a'', fl_enabled = True, fl_graph = Some (Inr sample_graph)\<rparr>"

theorem run_leaves_session_resting_witness:
  "resting sample_cenv sample_flow [] (snd (run_chat_graph sample_cenv sample_flow sample_chat_state))"
proof -
  let ?r = "run_chat_graph sample_cenv sample_flow sample_chat_state"
  have "fst ?r = Some None" by code_simp
  then have r: "?r = (Some None, snd ?r)" by (metis prod.collapse)
  have "ss_flow (cs_session sample_chat_state) = Some (fl_id sample_flow)" "flows_by_id sample_cenv"
    by (simp_all add: sample_chat_state_def sample_session_def sample_flow_def flows_by_id_def sample_cenv_def)
  from run_leaves_session_resting [OF r this] show ?thesis by (simp add: sample_chat_state_def)
qed

theorem run_finds_its_nodes_witness: "\<not> reports_lookup (run_chat_graph sample_cenv sample_flow sample_chat_state)"
proof (rule run_finds_its_nodes [of sample_cenv sample_flow sample_graph])
  show "flows_closed sample_cenv" by (simp add: flows_closed_def sample_cenv_def)
  show "parse_graph (fl_graph sample_flow) = Inr (Some sample_graph)" by code_simp
  show "closed_graph sample_graph" by code_simp
  show "ss_step (cs_session sample_chat_state) = [] \<or> node_of sample_graph (ss_step (cs_session sample_chat_state)) \<noteq> None"
    by (simp add: sample_chat_state_def sample_session_def)
qed

text \<open>
  The set node ranges over a map: with one assignment reading what another sets, the result depends
  on the order Go happens to take.
\<close>

lemma set_variable_depends_on_order:
  "assign_all sample_cenv [(''a'', AStr ''{{b}}''), (''b'', AStr ''x'')] [] = Some [(''a'', AStr []), (''b'', AStr ''x'')]
   \<and> assign_all sample_cenv [(''b'', AStr ''x''), (''a'', AStr ''{{b}}'')] [] = Some [(''b'', AStr ''x''), (''a'', AStr ''x'')]"
  by code_simp

end
