(* ===== verification/Usage_Settlement.thy ===== *)
theory Usage_Settlement
  imports Prelude
begin

text \<open>
  The settlement of the WhatsApp consumption ledger (\<open>internal/usage/compute.go\<close>): a pure function of
  a ledger row, the set of Meta's status events for its message, the price table and the clock. The
  rows and the events are the ones of \<open>internal/models/message_usage.go\<close>. Shown here: the result does
  not depend on the order of the events, settling again changes nothing, and settling along a growing
  set of events ends where one settlement of the whole set ends. A float is the rational it denotes,
  and the rounded product of a quantity and a price is the parameter \<open>fmul\<close>; a time counts from Go's
  zero time.
\<close>

section \<open>The rows of the ledger\<close>

datatype billing_state =
  StatePending | StateAwaiting | StatePriced | StateNotBillable | StateNoRate | StateUnconfirmed
| StateSendFailed | StateFailed

datatype link_state = Linked | Unlinked

datatype actor_type = ActorAgent | ActorAI | ActorFlow | ActorCampaign | ActorSystem | ActorExternalApp | ActorContact

datatype unit_source = UnitFromAgent | UnitFromTeam | UnitNone

text \<open>\<open>usage.Origin\<close>, who and what produced a message; the empty actor type of Go is \<^const>\<open>None\<close>.\<close>

record origin =
  og_actor :: "actor_type option"
  og_user :: "uuid option"
  og_team :: "uuid option"
  og_flow :: "uuid option"
  og_node :: string
  og_campaign :: "uuid option"
  og_occurrence :: "uuid option"
  og_ai_log :: "uuid option"
  og_detail :: string
  og_inferred :: bool

text \<open>A row of \<open>message_usage\<close>, without the reserved \<open>meta_cost\<close> columns and \<open>updated_at\<close>.\<close>

record usage_row =
  mu_id :: uuid
  mu_org :: uuid
  mu_account :: string
  mu_message :: "uuid option"
  mu_wamid :: string
  mu_incoming :: bool
  mu_contact :: "uuid option"
  mu_conversation :: string
  mu_message_type :: string
  mu_country :: string
  mu_template :: string
  mu_template_id :: string
  mu_declared :: string
  mu_origin :: origin
  mu_unit :: "uuid option"
  mu_unit_source :: unit_source
  mu_category :: string
  mu_billable :: "bool option"
  mu_model :: string
  mu_pricing :: jsonb
  mu_history :: "jsonb list"
  mu_diverged :: bool
  mu_quantity :: int
  mu_cost :: "rat option"
  mu_currency :: string
  mu_rate :: "uuid option"
  mu_repriced :: "time option"
  mu_state :: billing_state
  mu_link :: link_state
  mu_sent_at :: time
  mu_settled_at :: "time option"
  mu_created :: time

text \<open>One status event of Meta. Its status is one of sent, delivered, read and failed.\<close>

record pricing_event =
  ev_org :: uuid
  ev_account :: string
  ev_wamid :: string
  ev_status :: string
  ev_at :: time
  ev_received :: time
  ev_has_pricing :: bool
  ev_pricing :: jsonb
  ev_conversation :: jsonb
  ev_country :: string
  ev_error_code :: int
  ev_error_title :: string

record wa_rate =
  wr_id :: uuid
  wr_org :: uuid
  wr_country :: string
  wr_category :: string
  wr_price :: rat
  wr_currency :: string
  wr_from :: int
  wr_to :: "int option"

record pricing =
  pg_billable :: bool
  pg_model :: string
  pg_category :: string

section \<open>The settlement\<close>

definition pricing_from_json :: "jsonb \<Rightarrow> pricing option" where
  "pricing_from_json j =
     (if j = [] then None
      else Some \<lparr> pg_billable = bool_of (jget j ''billable''), pg_model = str_of (jget j ''pricing_model''),
             pg_category = str_of (jget j ''category'') \<rparr>)"

definition pricing_of :: "pricing_event \<Rightarrow> pricing option" where
  "pricing_of e = (if \<not> ev_has_pricing e then None else pricing_from_json (ev_pricing e))"

definition pricing_eq :: "jsonb \<Rightarrow> jsonb \<Rightarrow> bool" where
  "pricing_eq a b \<longleftrightarrow> pricing_from_json a = pricing_from_json b"

text \<open>The document \<open>Compute\<close> stores for a pricing.\<close>

definition pricing_json :: "pricing \<Rightarrow> jsonb" where
  "pricing_json p = [(''billable'', ABool (pg_billable p)), (''pricing_model'', AStr (pg_model p)),
     (''category'', AStr (pg_category p))]"

record settlement =
  se_state :: billing_state
  se_billable :: "bool option"
  se_category :: string
  se_model :: string
  se_conversation :: string
  se_pricing :: jsonb
  se_history :: "jsonb list"
  se_diverged :: bool
  se_cost :: "rat option"
  se_currency :: string
  se_rate :: "uuid option"
  se_repriced :: "time option"

definition settlement_of :: "usage_row \<Rightarrow> settlement" where
  "settlement_of r = \<lparr> se_state = mu_state r, se_billable = mu_billable r, se_category = mu_category r,
     se_model = mu_model r, se_conversation = mu_conversation r, se_pricing = mu_pricing r,
     se_history = mu_history r, se_diverged = mu_diverged r, se_cost = mu_cost r,
     se_currency = mu_currency r, se_rate = mu_rate r, se_repriced = mu_repriced r \<rparr>"

text \<open>The stable sort by event time, then by time of receipt.\<close>

definition event_key :: "pricing_event \<Rightarrow> int list" where
  "event_key e = [ev_at e, ev_received e]"

text \<open>What the loop over the ordered events collects.\<close>

record scan =
  sc_failed :: bool
  sc_delivered :: bool
  sc_latest :: "pricing option"
  sc_conv :: string

definition scan_start :: scan where
  "scan_start = \<lparr> sc_failed = False, sc_delivered = False, sc_latest = None, sc_conv = '''' \<rparr>"

definition scan_event :: "scan \<Rightarrow> pricing_event \<Rightarrow> scan" where
  "scan_event a e =
     (let a = (if ev_status e = ''failed'' then a\<lparr>sc_failed := True\<rparr>
               else if ev_status e = ''delivered'' \<or> ev_status e = ''read'' then a\<lparr>sc_delivered := True\<rparr>
               else a);
          a = (case pricing_of e of Some p \<Rightarrow> a\<lparr>sc_latest := Some p\<rparr> | None \<Rightarrow> a);
          i = str_of (jget (ev_conversation e) ''id'')
      in if i \<noteq> '''' then a\<lparr>sc_conv := i\<rparr> else a)"

definition scan_events :: "pricing_event list \<Rightarrow> scan" where
  "scan_events es = foldl scan_event scan_start (sort_key event_key es)"

definition max_pricing_history :: nat where
  "max_pricing_history = 5"

text \<open>The pricing snapshot. A different one replaces the current and pushes it to the history.\<close>

definition snapshot :: "usage_row \<Rightarrow> time \<Rightarrow> pricing \<Rightarrow> settlement \<Rightarrow> settlement" where
  "snapshot r now p s =
     (let s = (case pricing_from_json (mu_pricing r) of
                 Some old \<Rightarrow> if old \<noteq> p then
                     (let h = mu_history r @ [mu_pricing r] in
                      s\<lparr>se_history := drop (length h - max_pricing_history) h, se_repriced := Some now\<rparr>)
                   else s
               | None \<Rightarrow> s);
          cat = to_lower (pg_category p)
      in s\<lparr>se_pricing := pricing_json p, se_model := pg_model p, se_category := cat,
           se_diverged := (mu_declared r \<noteq> '''' \<and> cat \<noteq> '''' \<and> \<not> equal_fold (mu_declared r) cat)\<rparr>)"

definition repriced_now :: "usage_row \<Rightarrow> pricing option \<Rightarrow> bool" where
  "repriced_now r l \<longleftrightarrow> (case l of None \<Rightarrow> False | Some p \<Rightarrow>
     (case pricing_from_json (mu_pricing r) of None \<Rightarrow> False | Some old \<Rightarrow> old \<noteq> p))"

definition billable_of :: "pricing option \<Rightarrow> bool \<Rightarrow> bool option" where
  "billable_of l failed = (case l of Some p \<Rightarrow> Some (pg_billable p) | None \<Rightarrow> if failed then Some False else None)"

type_synonym rate_fun = "string \<Rightarrow> string \<Rightarrow> time \<Rightarrow> wa_rate option"

text \<open>The switch that decides the state, the cost, the currency and the rate.\<close>

definition bill :: "(int \<Rightarrow> rat \<Rightarrow> rat) \<Rightarrow> rate_fun option \<Rightarrow> time \<Rightarrow> int \<Rightarrow> usage_row \<Rightarrow> scan \<Rightarrow> settlement \<Rightarrow> settlement" where
  "bill fmul rates now wait r a s =
     (let b = billable_of (sc_latest a) (sc_failed a);
          s = s\<lparr>se_billable := b, se_cost := None, se_currency := '''', se_rate := None\<rparr>
      in if sc_failed a \<and> b \<noteq> Some True then s\<lparr>se_state := StateFailed, se_cost := Some 0\<rparr>
         else if b = Some False then s\<lparr>se_state := StateNotBillable, se_cost := Some 0\<rparr>
         else if b = Some True then
           (case (case rates of None \<Rightarrow> None | Some f \<Rightarrow> f (mu_country r) (se_category s) (mu_sent_at r)) of
              None \<Rightarrow> s\<lparr>se_state := StateNoRate\<rparr>
            | Some q \<Rightarrow> s\<lparr>se_state := StatePriced, se_cost := Some (fmul (max (mu_quantity r) 1) (wr_price q)),
                se_currency := wr_currency q, se_rate := Some (wr_id q)\<rparr>)
         else if sc_delivered a then s\<lparr>se_state := StateAwaiting\<rparr>
         else if mu_sent_at r \<noteq> 0 \<and> now - mu_sent_at r \<ge> wait then s\<lparr>se_state := StateUnconfirmed, se_cost := Some 0\<rparr>
         else s\<lparr>se_state := StatePending\<rparr>)"

text \<open>\<open>Compute\<close>; \<open>wait\<close> is the configured \<open>UndeliveredAfter\<close>.\<close>

definition compute :: "(int \<Rightarrow> rat \<Rightarrow> rat) \<Rightarrow> usage_row \<Rightarrow> pricing_event list \<Rightarrow> rate_fun option \<Rightarrow> time \<Rightarrow> int \<Rightarrow> settlement" where
  "compute fmul r es rates now wait =
     (let s = settlement_of r in
      if mu_state r = StateSendFailed then s
      else if mu_incoming r then
        s\<lparr>se_state := StateNotBillable, se_billable := Some False, se_cost := Some 0, se_currency := '''', se_rate := None\<rparr>
      else
        (let a = scan_events es;
             s = (if sc_conv a \<noteq> '''' then s\<lparr>se_conversation := sc_conv a\<rparr> else s);
             s = (case sc_latest a of None \<Rightarrow> s | Some p \<Rightarrow> snapshot r now p s);
             s = bill fmul rates now wait r a s
         in if mu_rate r \<noteq> None \<and> se_rate s \<noteq> None \<and> mu_rate r \<noteq> se_rate s \<and> \<not> repriced_now r (sc_latest a)
            then s\<lparr>se_repriced := Some now\<rparr> else s))"

text \<open>\<open>DiffersFrom\<close>.\<close>

definition differs_from :: "settlement \<Rightarrow> usage_row \<Rightarrow> bool" where
  "differs_from s r \<longleftrightarrow> se_state s \<noteq> mu_state r \<or> se_billable s \<noteq> mu_billable r
     \<or> se_category s \<noteq> mu_category r \<or> se_model s \<noteq> mu_model r
     \<or> se_conversation s \<noteq> mu_conversation r \<or> se_diverged s \<noteq> mu_diverged r
     \<or> se_cost s \<noteq> mu_cost r \<or> se_currency s \<noteq> mu_currency r
     \<or> se_rate s \<noteq> mu_rate r \<or> length (se_history s) \<noteq> length (mu_history r)
     \<or> \<not> pricing_eq (se_pricing s) (mu_pricing r)"

text \<open>The update \<open>settleRow\<close> makes when the settlement differs.\<close>

definition apply_settlement :: "time \<Rightarrow> settlement \<Rightarrow> usage_row \<Rightarrow> usage_row" where
  "apply_settlement now s r = r\<lparr>mu_state := se_state s, mu_billable := se_billable s, mu_category := se_category s,
     mu_model := se_model s, mu_conversation := se_conversation s, mu_pricing := se_pricing s,
     mu_history := se_history s, mu_diverged := se_diverged s, mu_cost := se_cost s,
     mu_currency := se_currency s, mu_rate := se_rate s, mu_repriced := se_repriced s,
     mu_settled_at := (if se_state s \<noteq> StatePending then Some now else None)\<rparr>"

section \<open>What the scan collects\<close>

definition conv_of :: "pricing_event \<Rightarrow> string" where
  "conv_of e = str_of (jget (ev_conversation e) ''id'')"

lemma scan_event_sel [simp]:
  "sc_failed (scan_event a e) \<longleftrightarrow> ev_status e = ''failed'' \<or> sc_failed a"
  "sc_delivered (scan_event a e) \<longleftrightarrow> ev_status e = ''delivered'' \<or> ev_status e = ''read'' \<or> sc_delivered a"
  "sc_latest (scan_event a e) = (case pricing_of e of Some p \<Rightarrow> Some p | None \<Rightarrow> sc_latest a)"
  "sc_conv (scan_event a e) = (if conv_of e \<noteq> '''' then conv_of e else sc_conv a)"
  by (auto simp: scan_event_def conv_of_def Let_def split: option.split)

lemma scan_start_sel [simp]:
  "\<not> sc_failed scan_start" "\<not> sc_delivered scan_start" "sc_latest scan_start = None" "sc_conv scan_start = ''''"
  by (simp_all add: scan_start_def)

lemma foldl_scan_event:
  "sc_failed (foldl scan_event scan_start es) \<longleftrightarrow> (\<exists>e \<in> set es. ev_status e = ''failed'')"
  "sc_delivered (foldl scan_event scan_start es) \<longleftrightarrow> (\<exists>e \<in> set es. ev_status e = ''delivered'' \<or> ev_status e = ''read'')"
  "sc_latest (foldl scan_event scan_start es) = None \<longleftrightarrow> (\<forall>e \<in> set es. pricing_of e = None)"
  "sc_conv (foldl scan_event scan_start es) = '''' \<longleftrightarrow> (\<forall>e \<in> set es. conv_of e = '''')"
  by (induction es rule: rev_induct) (auto split: option.split)

lemma scan_events_iff:
  "sc_failed (scan_events es) \<longleftrightarrow> (\<exists>e \<in> set es. ev_status e = ''failed'')"
  "sc_delivered (scan_events es) \<longleftrightarrow> (\<exists>e \<in> set es. ev_status e = ''delivered'' \<or> ev_status e = ''read'')"
  "sc_latest (scan_events es) = None \<longleftrightarrow> (\<forall>e \<in> set es. pricing_of e = None)"
  "sc_conv (scan_events es) = '''' \<longleftrightarrow> (\<forall>e \<in> set es. conv_of e = '''')"
  by (simp_all add: scan_events_def foldl_scan_event)

text \<open>Events whose order is decided by their times are read in the same order, however stored.\<close>

lemma sort_key_same_set:
  assumes "set xs = set ys" "distinct xs" "distinct ys" "inj_on f (set xs)"
  shows "sort_key f xs = sort_key f ys"
proof (rule map_sorted_distinct_set_unique)
  show "inj_on f (set (sort_key f xs) \<union> set (sort_key f ys))" using assms by simp
  show "distinct (map f (sort_key f xs))" "distinct (map f (sort_key f ys))"
    using assms by (simp_all add: distinct_map)
qed (use assms in simp_all)

lemma scan_events_same_set:
  "set es = set es' \<Longrightarrow> distinct es \<Longrightarrow> distinct es' \<Longrightarrow> inj_on event_key (set es) \<Longrightarrow> scan_events es = scan_events es'"
  by (metis scan_events_def sort_key_same_set)

section \<open>Settling again\<close>

text \<open>The part of a settlement that is billed: all of it but the history of prices and its last change.\<close>

definition billed :: "settlement \<Rightarrow> settlement" where
  "billed s = s\<lparr>se_history := [], se_repriced := None\<rparr>"

lemma pricing_round [simp]: "pricing_from_json (pricing_json p) = Some p"
  by (simp add: pricing_from_json_def pricing_json_def jget_def bool_of_def str_of_def)

lemma settlement_of_sel [simp]:
  "se_state (settlement_of r) = mu_state r" "se_billable (settlement_of r) = mu_billable r"
  "se_category (settlement_of r) = mu_category r" "se_model (settlement_of r) = mu_model r"
  "se_conversation (settlement_of r) = mu_conversation r" "se_pricing (settlement_of r) = mu_pricing r"
  "se_history (settlement_of r) = mu_history r" "se_diverged (settlement_of r) = mu_diverged r"
  "se_cost (settlement_of r) = mu_cost r" "se_currency (settlement_of r) = mu_currency r"
  "se_rate (settlement_of r) = mu_rate r" "se_repriced (settlement_of r) = mu_repriced r"
  by (simp_all add: settlement_of_def)

lemma apply_sel [simp]:
  "mu_state (apply_settlement t s r) = se_state s" "mu_billable (apply_settlement t s r) = se_billable s"
  "mu_category (apply_settlement t s r) = se_category s" "mu_model (apply_settlement t s r) = se_model s"
  "mu_conversation (apply_settlement t s r) = se_conversation s" "mu_pricing (apply_settlement t s r) = se_pricing s"
  "mu_history (apply_settlement t s r) = se_history s" "mu_diverged (apply_settlement t s r) = se_diverged s"
  "mu_cost (apply_settlement t s r) = se_cost s" "mu_currency (apply_settlement t s r) = se_currency s"
  "mu_rate (apply_settlement t s r) = se_rate s" "mu_repriced (apply_settlement t s r) = se_repriced s"
  "mu_id (apply_settlement t s r) = mu_id r" "mu_org (apply_settlement t s r) = mu_org r"
  "mu_account (apply_settlement t s r) = mu_account r" "mu_message (apply_settlement t s r) = mu_message r"
  "mu_wamid (apply_settlement t s r) = mu_wamid r" "mu_incoming (apply_settlement t s r) = mu_incoming r"
  "mu_country (apply_settlement t s r) = mu_country r" "mu_declared (apply_settlement t s r) = mu_declared r"
  "mu_quantity (apply_settlement t s r) = mu_quantity r" "mu_sent_at (apply_settlement t s r) = mu_sent_at r"
  by (simp_all add: apply_settlement_def)

text \<open>
  What reaches the switch of the billing state. \<open>core\<close> is what the switch leaves as it is, without the
  history.
\<close>

definition read_events :: "usage_row \<Rightarrow> time \<Rightarrow> scan \<Rightarrow> settlement" where
  "read_events r now a =
     (let s = settlement_of r;
          s = (if sc_conv a \<noteq> '''' then s\<lparr>se_conversation := sc_conv a\<rparr> else s)
      in case sc_latest a of None \<Rightarrow> s | Some p \<Rightarrow> snapshot r now p s)"

definition core :: "settlement \<Rightarrow> settlement" where
  "core s = s\<lparr>se_state := StatePending, se_billable := None, se_cost := None, se_currency := '''', se_rate := None,
     se_history := [], se_repriced := None\<rparr>"

lemma snapshot_sel [simp]:
  "se_state (snapshot r now p s) = se_state s" "se_billable (snapshot r now p s) = se_billable s"
  "se_category (snapshot r now p s) = to_lower (pg_category p)" "se_model (snapshot r now p s) = pg_model p"
  "se_conversation (snapshot r now p s) = se_conversation s" "se_pricing (snapshot r now p s) = pricing_json p"
  "se_diverged (snapshot r now p s) \<longleftrightarrow> mu_declared r \<noteq> '''' \<and> to_lower (pg_category p) \<noteq> ''''
     \<and> \<not> equal_fold (mu_declared r) (to_lower (pg_category p))"
  by (simp_all add: snapshot_def Let_def split: option.split)

lemma read_events_sel [simp]:
  "se_category (read_events r now a) = (case sc_latest a of None \<Rightarrow> mu_category r | Some p \<Rightarrow> to_lower (pg_category p))"
  "se_model (read_events r now a) = (case sc_latest a of None \<Rightarrow> mu_model r | Some p \<Rightarrow> pg_model p)"
  "se_conversation (read_events r now a) = (if sc_conv a \<noteq> '''' then sc_conv a else mu_conversation r)"
  "se_pricing (read_events r now a) = (case sc_latest a of None \<Rightarrow> mu_pricing r | Some p \<Rightarrow> pricing_json p)"
  "se_diverged (read_events r now a) = (case sc_latest a of None \<Rightarrow> mu_diverged r | Some p \<Rightarrow>
     mu_declared r \<noteq> '''' \<and> to_lower (pg_category p) \<noteq> '''' \<and> \<not> equal_fold (mu_declared r) (to_lower (pg_category p)))"
  by (simp_all add: read_events_def Let_def split: option.split)

lemma core_eqI:
  "se_category s = se_category s' \<Longrightarrow> se_model s = se_model s' \<Longrightarrow> se_conversation s = se_conversation s' \<Longrightarrow>
   se_pricing s = se_pricing s' \<Longrightarrow> se_diverged s = se_diverged s' \<Longrightarrow> core s = core s'"
  by (cases s; cases s') (simp add: core_def)

lemma bill_sel [simp]:
  "se_category (bill fmul rates now wait r a s) = se_category s"
  "se_model (bill fmul rates now wait r a s) = se_model s"
  "se_conversation (bill fmul rates now wait r a s) = se_conversation s"
  "se_pricing (bill fmul rates now wait r a s) = se_pricing s"
  "se_history (bill fmul rates now wait r a s) = se_history s"
  "se_diverged (bill fmul rates now wait r a s) = se_diverged s"
  "se_repriced (bill fmul rates now wait r a s) = se_repriced s"
  by (simp_all add: bill_def Let_def split: option.split)

lemma bill_core:
  assumes "core s = core s'" "mu_country r = mu_country r'" "mu_quantity r = mu_quantity r'" "mu_sent_at r = mu_sent_at r'"
  shows "billed (bill fmul rates now wait r a s) = billed (bill fmul rates now wait r' a s')"
  using assms by (cases s; cases s') (simp add: core_def billed_def bill_def Let_def split: option.split)

lemma billed_repriced [simp]: "billed (s\<lparr>se_repriced := x\<rparr>) = billed s"
  by (simp add: billed_def)

lemma bill_state: "se_state (bill fmul rates now wait r a s) \<noteq> StateSendFailed"
  by (simp add: bill_def Let_def split: option.split)

lemma compute_outgoing:
  assumes "mu_state r \<noteq> StateSendFailed" "\<not> mu_incoming r"
  obtains x where "compute fmul r es rates now wait =
    (bill fmul rates now wait r (scan_events es) (read_events r now (scan_events es)))\<lparr>se_repriced := x\<rparr>"
proof -
  define s where "s = bill fmul rates now wait r (scan_events es) (read_events r now (scan_events es))"
  have "compute fmul r es rates now wait =
    (if mu_rate r \<noteq> None \<and> se_rate s \<noteq> None \<and> mu_rate r \<noteq> se_rate s \<and> \<not> repriced_now r (sc_latest (scan_events es))
     then s\<lparr>se_repriced := Some now\<rparr> else s)"
    using assms by (simp only: compute_def read_events_def Let_def if_False s_def)
  then have "compute fmul r es rates now wait = s\<lparr>se_repriced := Some now\<rparr> \<or> compute fmul r es rates now wait = s\<lparr>se_repriced := se_repriced s\<rparr>"
    by (simp split: if_split)
  then show thesis using that unfolding s_def by blast
qed

lemma billed_compute:
  assumes "mu_state r \<noteq> StateSendFailed" "\<not> mu_incoming r"
  shows "billed (compute fmul r es rates now wait) =
    billed (bill fmul rates now wait r (scan_events es) (read_events r now (scan_events es)))"
  by (rule compute_outgoing [OF assms, of fmul es rates now wait]) (simp only: billed_repriced)

lemma compute_frame:
  "mu_state r = StateSendFailed \<Longrightarrow> compute fmul r es rates now wait = settlement_of r"
  "mu_state r \<noteq> StateSendFailed \<Longrightarrow> mu_incoming r \<Longrightarrow> compute fmul r es rates now wait = (settlement_of r)
     \<lparr>se_state := StateNotBillable, se_billable := Some False, se_cost := Some 0, se_currency := '''', se_rate := None\<rparr>"
  by (simp_all add: compute_def)

lemma compute_sel:
  assumes "mu_state r \<noteq> StateSendFailed" "\<not> mu_incoming r"
  shows "se_category (compute fmul r es rates now wait) = se_category (read_events r now (scan_events es))"
    "se_model (compute fmul r es rates now wait) = se_model (read_events r now (scan_events es))"
    "se_conversation (compute fmul r es rates now wait) = se_conversation (read_events r now (scan_events es))"
    "se_pricing (compute fmul r es rates now wait) = se_pricing (read_events r now (scan_events es))"
    "se_diverged (compute fmul r es rates now wait) = se_diverged (read_events r now (scan_events es))"
    "se_history (compute fmul r es rates now wait) = se_history (read_events r now (scan_events es))"
    "se_state (compute fmul r es rates now wait) \<noteq> StateSendFailed"
  by (rule compute_outgoing [OF assms, of fmul es rates now wait]; simp add: bill_state)+

lemma billed_sel:
  "billed s = billed s' \<Longrightarrow> se_state s = se_state s' \<and> se_billable s = se_billable s' \<and> se_category s = se_category s'
     \<and> se_model s = se_model s' \<and> se_conversation s = se_conversation s' \<and> se_pricing s = se_pricing s'
     \<and> se_diverged s = se_diverged s' \<and> se_cost s = se_cost s' \<and> se_currency s = se_currency s' \<and> se_rate s = se_rate s'"
  by (cases s; cases s') (simp add: billed_def)

text \<open>One earlier settlement, on fewer events, leaves no trace in what a later one bills.\<close>

definition settle_step :: "(int \<Rightarrow> rat \<Rightarrow> rat) \<Rightarrow> int \<Rightarrow> pricing_event list \<times> rate_fun option \<times> time \<Rightarrow> usage_row \<Rightarrow> usage_row" where
  "settle_step fmul wait x r = (case x of (es, rates, now) \<Rightarrow>
     (let s = compute fmul r es rates now wait in if differs_from s r then apply_settlement now s r else r))"

lemma billed_after:
  assumes "r1 = apply_settlement t (compute fmul r es1 rates1 t wait) r" "set es1 \<subseteq> set es"
  shows "billed (compute fmul r1 es rates now wait) = billed (compute fmul r es rates now wait)"
proof (cases "mu_state r = StateSendFailed \<or> mu_incoming r")
  case True
  then show ?thesis unfolding assms(1)
    by (cases "mu_state r = StateSendFailed") (simp_all add: compute_frame billed_def settlement_of_def apply_settlement_def)
next
  case False
  then have r: "mu_state r \<noteq> StateSendFailed" "\<not> mu_incoming r" by auto
  then have r1: "mu_state r1 \<noteq> StateSendFailed" "\<not> mu_incoming r1" unfolding assms(1) by (simp_all add: compute_sel)
  have "sc_latest (scan_events es) = None \<Longrightarrow> sc_latest (scan_events es1) = None"
    "sc_conv (scan_events es) = '''' \<Longrightarrow> sc_conv (scan_events es1) = ''''" using assms(2) by (auto simp: scan_events_iff)
  then have "core (read_events r1 now (scan_events es)) = core (read_events r now (scan_events es))"
    unfolding assms(1) by (intro core_eqI) (simp_all add: compute_sel r split: option.split)
  then show ?thesis unfolding billed_compute [OF r] billed_compute [OF r1]
    by (rule bill_core) (simp_all add: assms(1))
qed

lemma read_events_history:
  "(\<And>p old. sc_latest a = Some p \<Longrightarrow> pricing_from_json (mu_pricing r) = Some old \<Longrightarrow> old = p) \<Longrightarrow>
   se_history (read_events r now a) = mu_history r"
  by (cases "sc_latest a"; cases "pricing_from_json (mu_pricing r)")
    (simp_all add: read_events_def snapshot_def Let_def)

lemma settle_again:
  assumes "r1 = apply_settlement t (compute fmul r es rates now wait) r"
  shows "\<not> differs_from (compute fmul r1 es rates now wait) r1"
proof -
  have b: "billed (compute fmul r1 es rates now wait) = billed (compute fmul r es rates now wait)"
  proof (cases "mu_state r = StateSendFailed \<or> mu_incoming r")
    case True
    then show ?thesis unfolding assms
      by (cases "mu_state r = StateSendFailed") (simp_all add: compute_frame billed_def settlement_of_def apply_settlement_def)
  next
    case False
    then have r: "mu_state r \<noteq> StateSendFailed" "\<not> mu_incoming r" by auto
    then have r1: "mu_state r1 \<noteq> StateSendFailed" "\<not> mu_incoming r1" unfolding assms by (simp_all add: compute_sel)
    have "core (read_events r1 now (scan_events es)) = core (read_events r now (scan_events es))"
      unfolding assms by (intro core_eqI) (simp_all add: compute_sel r split: option.split)
    then show ?thesis unfolding billed_compute [OF r] billed_compute [OF r1]
      by (rule bill_core) (simp_all add: assms)
  qed
  have "se_history (compute fmul r1 es rates now wait) = mu_history r1"
  proof (cases "mu_state r1 = StateSendFailed \<or> mu_incoming r1")
    case True
    then show ?thesis by (cases "mu_state r1 = StateSendFailed") (simp_all add: compute_frame)
  next
    case False
    then have r1: "mu_state r1 \<noteq> StateSendFailed" "\<not> mu_incoming r1" by auto
    then have r: "mu_incoming r = False" "mu_state r \<noteq> StateSendFailed" unfolding assms by (auto simp: compute_frame)
    have "sc_latest (scan_events es) = Some p \<Longrightarrow> pricing_from_json (mu_pricing r1) = Some p" for p
      unfolding assms by (simp add: compute_sel r)
    then show ?thesis unfolding compute_sel(6) [OF r1] by (intro read_events_history) simp
  qed
  with billed_sel [OF b] show ?thesis by (simp add: differs_from_def assms pricing_eq_def)
qed

lemma billed_settle_step:
  "set es1 \<subseteq> set es \<Longrightarrow>
   billed (compute fmul (settle_step fmul wait (es1, rates1, t) r) es rates now wait) = billed (compute fmul r es rates now wait)"
  by (simp add: settle_step_def Let_def) (blast intro: billed_after)

lemma billed_settle_steps:
  "\<forall>x \<in> set xs. set (fst x) \<subseteq> set es \<Longrightarrow>
   billed (compute fmul (fold (settle_step fmul wait) xs r) es rates now wait) = billed (compute fmul r es rates now wait)"
  by (induction xs arbitrary: r) (auto simp: billed_settle_step)

lemma settled_by_step:
  "\<not> differs_from (compute fmul (settle_step fmul wait (es, rates, now) r) es rates now wait) (settle_step fmul wait (es, rates, now) r)"
  by (simp add: settle_step_def Let_def settle_again)

section \<open>The properties\<close>

text \<open>C22 (equivalence).
  The settlement is the convergence its comment promises, for what is billed: after any sequence of
  earlier settlements, each on some of the events, with any price table and clock, one settlement on
  all the events gives the state, the cost, the category and the rest that a single settlement of the
  fresh row gives, whatever the order the events are stored in; and settling once more changes nothing.
  Every event is stored once, and no two events of the message have both the same \<open>event_at\<close> and the same
  \<open>received_at\<close>: the sort of the code compares these two, and leaves events that tie in the order they are
  stored in (\<open>tied_events_follow_storage\<close>).
\<close>
theorem settlement_converges:
  assumes "\<forall>x \<in> set earlier. set (fst x) \<subseteq> set es"
    and "set es = set es'" "distinct es" "distinct es'" "inj_on event_key (set es)"
  shows "billed (compute fmul (fold (settle_step fmul wait) earlier r) es rates now wait) = billed (compute fmul r es' rates now wait)
    \<and> \<not> differs_from (compute fmul (settle_step fmul wait (es, rates, now) r) es rates now wait) (settle_step fmul wait (es, rates, now) r)"
proof
  have "scan_events es = scan_events es'" by (rule scan_events_same_set) (use assms in auto)
  then have "compute fmul r es rates now wait = compute fmul r es' rates now wait" by (simp only: compute_def)
  with billed_settle_steps [OF assms(1)]
  show "billed (compute fmul (fold (settle_step fmul wait) earlier r) es rates now wait) = billed (compute fmul r es' rates now wait)"
    by simp
qed (rule settled_by_step)

text \<open>
  The history of prices and the time of repricing are not part of that: two events whose pricing
  differs leave one entry in the history when they arrive in order and none when the later one arrives
  first, though the comment of \<open>Compute\<close> promises the same result for out-of-order delivery.
\<close>

definition sample_row :: usage_row where
  "sample_row = \<lparr> mu_id = 1, mu_org = 1, mu_account = ''main'', mu_message = Some 5, mu_wamid = ''w1'', mu_incoming = False,
     mu_contact = Some 9, mu_conversation = '''', mu_message_type = ''template'', mu_country = ''55'', mu_template = ''promo'',
     mu_template_id = ''77'', mu_declared = ''UTILITY'',
     mu_origin = \<lparr> og_actor = Some ActorAgent, og_user = Some 3, og_team = None, og_flow = None, og_node = '''',
       og_campaign = None, og_occurrence = None, og_ai_log = None, og_detail = '''', og_inferred = False \<rparr>,
     mu_unit = None, mu_unit_source = UnitNone, mu_category = '''', mu_billable = None, mu_model = '''', mu_pricing = [],
     mu_history = [], mu_diverged = False, mu_quantity = 1, mu_cost = None, mu_currency = '''', mu_rate = None,
     mu_repriced = None, mu_state = StatePending, mu_link = Linked, mu_sent_at = 100, mu_settled_at = None, mu_created = 100 \<rparr>"

definition sample_event :: "string \<Rightarrow> time \<Rightarrow> string \<Rightarrow> pricing_event" where
  "sample_event st t cat = \<lparr> ev_org = 1, ev_account = ''main'', ev_wamid = ''w1'', ev_status = st, ev_at = t, ev_received = t,
     ev_has_pricing = True, ev_pricing = pricing_json \<lparr> pg_billable = True, pg_model = ''PMP'', pg_category = cat \<rparr>,
     ev_conversation = [], ev_country = ''55'', ev_error_code = 0, ev_error_title = '''' \<rparr>"

definition sample_rates :: rate_fun where
  "sample_rates c k t = (if k = ''marketing'' then Some \<lparr> wr_id = 40, wr_org = 1, wr_country = ''55'', wr_category = k,
     wr_price = 1/16, wr_currency = ''USD'', wr_from = 0, wr_to = None \<rparr> else None)"

lemma history_depends_on_arrival:
  "let a = sample_event ''sent'' 110 ''utility''; b = sample_event ''delivered'' 120 ''marketing'';
       settle = settle_step (\<lambda>q p. of_int q * p) 1000
   in length (mu_history (settle ([a, b], None, 130) (settle ([a], None, 125) sample_row))) = 1
      \<and> mu_history (settle ([a, b], None, 130) (settle ([b], None, 125) sample_row)) = []"
  by code_simp

text \<open>Two events that tie in both times are read in the order they are stored in.\<close>

lemma tied_events_follow_storage:
  "let a = sample_event ''sent'' 110 ''utility''; b = sample_event ''sent'' 110 ''marketing'';
       category = (\<lambda>es. se_category (compute (\<lambda>q p. of_int q * p) sample_row es None 130 1000))
   in category [a, b] = ''marketing'' \<and> category [b, a] = ''utility''"
  by code_simp

lemma settlement_converges_witness:
  "let a = sample_event ''sent'' 110 ''utility''; b = sample_event ''delivered'' 120 ''marketing'';
       s = billed (compute (\<lambda>q p. of_int q * p)
             (fold (settle_step (\<lambda>q p. of_int q * p) 1000) [([b], None, 125), ([a], None, 126)] sample_row)
             [b, a] (Some sample_rates) 130 1000)
   in s = billed (compute (\<lambda>q p. of_int q * p) sample_row [a, b] (Some sample_rates) 130 1000)
      \<and> se_state s = StatePriced \<and> se_cost s = Some (1/16) \<and> se_diverged s"
proof -
  define a b where "a = sample_event ''sent'' 110 ''utility''" and "b = sample_event ''delivered'' 120 ''marketing''"
  have ne: "event_key a \<noteq> event_key b" by (simp add: a_def b_def sample_event_def event_key_def)
  have "billed (compute (\<lambda>q p. of_int q * p)
          (fold (settle_step (\<lambda>q p. of_int q * p) 1000) [([b], None, 125), ([a], None, 126)] sample_row)
          [b, a] (Some sample_rates) 130 1000)
      = billed (compute (\<lambda>q p. of_int q * p) sample_row [a, b] (Some sample_rates) 130 1000)"
    by (rule settlement_converges [THEN conjunct1]) (use ne in \<open>auto simp: inj_on_def\<close>)
  moreover have "let s = billed (compute (\<lambda>q p. of_int q * p) sample_row [a, b] (Some sample_rates) 130 1000)
    in se_state s = StatePriced \<and> se_cost s = Some (1/16) \<and> se_diverged s"
    unfolding a_def b_def by code_simp
  ultimately show ?thesis by (simp add: Let_def a_def b_def)
qed

end
