(* ===== verification/Usage_Ledger.thy ===== *)
theory Usage_Ledger
  imports Usage_Settlement
begin

text \<open>
  The consumption ledger (\<open>internal/usage\<close>): one row per message, the append-only events of Meta, the
  price table, and the statements of the recorder (\<open>record.go\<close>, \<open>settle.go\<close>, \<open>rates.go\<close>, \<open>reprice.go\<close>,
  \<open>countries.go\<close>, \<open>recording.go\<close>, and the writes of \<open>integrity.go\<close>). Each operation is one
  transaction; the send path, the webhook and the integrity job run them in any order. Shown here:
  whatever the order, a row that nobody is about to settle says what the events of its message say.
  The unique indexes are part of the inserts; the reads of contacts, users, teams and templates and
  the failure of a statement are parameters; the paging of the integrity job is not modelled.
\<close>

section \<open>Calling codes\<close>

definition digits_between :: "string \<Rightarrow> nat \<Rightarrow> nat \<Rightarrow> string list" where
  "digits_between p a b = map (\<lambda>i. p @ [char_of (48 + i)]) [a..<Suc b]"

definition calling_codes :: "string list" where
  "calling_codes =
     [''1'', ''7''] @
     [''20'', ''27'', ''30'', ''31'', ''32'', ''33'', ''34'', ''36'', ''39'', ''40'', ''41'', ''43'', ''44'', ''45'', ''46'', ''47'', ''48'', ''49'',
      ''51'', ''52'', ''53'', ''54'', ''55'', ''56'', ''57'', ''58'', ''60'', ''61'', ''62'', ''63'', ''64'', ''65'', ''66'',
      ''81'', ''82'', ''84'', ''86'', ''90'', ''91'', ''92'', ''93'', ''94'', ''95'', ''98''] @
     [''211'', ''212'', ''213'', ''216'', ''218'', ''290'', ''291'', ''297'', ''298'', ''299'', ''420'', ''421'', ''423'',
      ''670'', ''672'', ''673'', ''674'', ''675'', ''676'', ''677'', ''678'', ''679'', ''680'', ''681'', ''682'', ''683'', ''685'', ''686'', ''687'',
      ''688'', ''689'', ''690'', ''691'', ''692'',
      ''850'', ''852'', ''853'', ''855'', ''856'', ''880'', ''886'', ''970'', ''971'', ''972'', ''973'', ''974'', ''975'', ''976'', ''977'',
      ''992'', ''993'', ''994'', ''995'', ''996'', ''998'', ''385'', ''386'', ''387'', ''389''] @
     concat (map (\<lambda>p. digits_between p 0 9) [''22'', ''23'', ''24'', ''25'', ''26'']) @
     concat (map (\<lambda>p. digits_between p 0 9) [''35'', ''50'', ''59'', ''96'']) @
     digits_between ''37'' 0 9 @ digits_between ''38'' 0 3"

definition is_digit_byte :: "char \<Rightarrow> bool" where
  "is_digit_byte c \<longleftrightarrow> 48 \<le> byte c \<and> byte c \<le> 57"

definition country_of :: "string \<Rightarrow> string" where
  "country_of phone =
     (let d = take 3 (filter is_digit_byte phone) in
      case find (\<lambda>n. take n d \<in> set calling_codes) [1..<Suc (length d)] of Some n \<Rightarrow> take n d | None \<Rightarrow> '''')"

section \<open>The tables\<close>

type_synonym usage_key = "uuid \<times> string \<times> string"

record ledger =
  ul_rows :: "usage_row list"
  ul_events :: "pricing_event list"
  ul_rates :: "wa_rate list"

definition row_key :: "usage_row \<Rightarrow> usage_key" where
  "row_key r = (mu_org r, mu_account r, mu_wamid r)"

definition event_of :: "pricing_event \<Rightarrow> usage_key" where
  "event_of e = (ev_org e, ev_account e, ev_wamid e)"

definition events_of :: "usage_key \<Rightarrow> ledger \<Rightarrow> pricing_event list" where
  "events_of k d = filter (\<lambda>e. event_of e = k) (ul_events d)"

text \<open>The unique indexes of \<open>message_usage\<close>: its id, the message where it is known, the wamid where it is known.\<close>

definition row_conflict :: "usage_row \<Rightarrow> usage_row \<Rightarrow> bool" where
  "row_conflict r x \<longleftrightarrow> mu_id x = mu_id r \<or> (mu_message r \<noteq> None \<and> mu_message x = mu_message r)
     \<or> (mu_wamid r \<noteq> '''' \<and> row_key x = row_key r)"

section \<open>Recording\<close>

text \<open>The columns of a message the recorder reads.\<close>

record usage_msg =
  um_id :: uuid
  um_org :: uuid
  um_account :: string
  um_wamid :: string
  um_incoming :: bool
  um_contact :: uuid
  um_conversation :: string
  um_type :: string
  um_template :: string
  um_sent_by :: "uuid option"
  um_metadata :: jsonb
  um_failed :: bool
  um_created :: time

text \<open>
  What the operations ask: the switches, the contact (phone and team), the unit of a user and of a
  team, a template's id and category, the id of a new row, the clock, whether the statements
  succeed, and the parser of UUIDs. \<^const>\<open>None\<close> for a row that is not read.
\<close>

record usage_env =
  ue_on :: "uuid \<Rightarrow> bool"
  ue_contact :: "uuid \<Rightarrow> (string \<times> uuid option) option"
  ue_user_unit :: "uuid \<Rightarrow> uuid option option"
  ue_team_unit :: "uuid \<Rightarrow> uuid option option"
  ue_template :: "uuid \<Rightarrow> string \<Rightarrow> string \<Rightarrow> (string \<times> string) option"
  ue_fresh :: uuid
  ue_now :: time
  ue_ok :: bool
  ue_rate_ok :: bool
  ue_parse_uuid :: "string \<Rightarrow> uuid option"

datatype usage_error = UsageDatabase

definition resolve_unit :: "usage_env \<Rightarrow> origin \<Rightarrow> uuid option \<Rightarrow> uuid option \<times> unit_source" where
  "resolve_unit E og contact_team =
     (case (case og_user og of None \<Rightarrow> None | Some u \<Rightarrow> (case ue_user_unit E u of None \<Rightarrow> None | Some x \<Rightarrow> x)) of
        Some x \<Rightarrow> (Some x, UnitFromAgent)
      | None \<Rightarrow>
          (case (case og_team og of None \<Rightarrow> contact_team | Some t \<Rightarrow> Some t) of
             None \<Rightarrow> (None, UnitNone)
           | Some t \<Rightarrow> (case ue_team_unit E t of Some (Some x) \<Rightarrow> (Some x, UnitFromTeam) | _ \<Rightarrow> (None, UnitNone))))"

definition default_origin :: "origin \<Rightarrow> origin" where
  "default_origin og = (if og_actor og = None
     then og\<lparr>og_actor := Some ActorSystem, og_detail := ''unclassified'', og_inferred := True\<rparr> else og)"

definition usage_row_of :: "usage_env \<Rightarrow> usage_msg \<Rightarrow> origin \<Rightarrow> usage_row" where
  "usage_row_of E m og0 =
     (let (phone, contact_team) = (case ue_contact E (um_contact m) of None \<Rightarrow> ('''', None) | Some c \<Rightarrow> c);
          og = default_origin og0;
          (un, us) = resolve_unit E og contact_team;
          (tid, cat) = (if um_template m = '''' then ('''', '''')
             else case ue_template E (um_org m) (um_account m) (um_template m) of None \<Rightarrow> ('''', '''') | Some x \<Rightarrow> x);
          og = (if og_team og = None then og\<lparr>og_team := contact_team\<rparr> else og);
          r = \<lparr> mu_id = ue_fresh E, mu_org = um_org m, mu_account = um_account m, mu_message = Some (um_id m),
                mu_wamid = um_wamid m, mu_incoming = um_incoming m, mu_contact = Some (um_contact m),
                mu_conversation = um_conversation m, mu_message_type = um_type m, mu_country = country_of phone,
                mu_template = um_template m, mu_template_id = tid, mu_declared = cat, mu_origin = og,
                mu_unit = un, mu_unit_source = us, mu_category = '''', mu_billable = None, mu_model = '''',
                mu_pricing = [], mu_history = [], mu_diverged = False, mu_quantity = 1, mu_cost = None,
                mu_currency = '''', mu_rate = None, mu_repriced = None, mu_state = StatePending, mu_link = Linked,
                mu_sent_at = (if um_created m = 0 then ue_now E else um_created m), mu_settled_at = None,
                mu_created = ue_now E \<rparr>
      in if um_incoming m then r\<lparr>mu_state := StateNotBillable, mu_billable := Some False, mu_cost := Some 0\<rparr> else r)"

text \<open>The columns the link of an unlinked row copies from the new row.\<close>

definition link_row :: "usage_row \<Rightarrow> usage_row \<Rightarrow> usage_row" where
  "link_row r x = x\<lparr>mu_message := mu_message r, mu_link := Linked, mu_contact := mu_contact r,
     mu_message_type := mu_message_type r, mu_country := mu_country r, mu_template := mu_template r,
     mu_template_id := mu_template_id r, mu_declared := mu_declared r, mu_origin := mu_origin r,
     mu_unit := mu_unit r, mu_unit_source := mu_unit_source r, mu_incoming := mu_incoming r, mu_sent_at := mu_sent_at r\<rparr>"

definition orphan :: "usage_key \<Rightarrow> usage_row \<Rightarrow> bool" where
  "orphan k x \<longleftrightarrow> row_key x = k \<and> mu_message x = None"

text \<open>\<open>Record\<close>. The insert does nothing on a conflict; then an unlinked row of the wamid is linked.\<close>

definition record_usage :: "usage_env \<Rightarrow> usage_msg option \<Rightarrow> origin \<Rightarrow> ledger \<Rightarrow> usage_error option \<times> ledger" where
  "record_usage E msg og d = (case msg of None \<Rightarrow> (None, d) | Some m \<Rightarrow>
     if \<not> ue_on E (um_org m) then (None, d)
     else if \<not> ue_ok E then (Some UsageDatabase, d)
     else
       (let r = usage_row_of E m og in
        if \<not> (\<exists>x \<in> set (ul_rows d). row_conflict r x) then (None, d\<lparr>ul_rows := ul_rows d @ [r]\<rparr>)
        else if mu_wamid r = '''' then (None, d)
        else if (\<exists>x \<in> set (ul_rows d). orphan (row_key r) x) \<and> (\<exists>x \<in> set (ul_rows d). mu_message x = mu_message r)
          then (Some UsageDatabase, d)
        else (None, d\<lparr>ul_rows := map (\<lambda>x. if orphan (row_key r) x then link_row r x else x) (ul_rows d)\<rparr>)))"

definition mark_send_failed :: "usage_env \<Rightarrow> uuid \<Rightarrow> uuid \<Rightarrow> ledger \<Rightarrow> usage_error option \<times> ledger" where
  "mark_send_failed E org mid d =
     (if \<not> ue_on E org then (None, d)
      else if \<not> ue_ok E then (Some UsageDatabase, d)
      else (None, d\<lparr>ul_rows := map (\<lambda>x. if mu_message x = Some mid \<and> mu_org x = org \<and> mu_wamid x = ''''
              then x\<lparr>mu_state := StateSendFailed, mu_billable := Some False, mu_cost := Some 0, mu_settled_at := Some (ue_now E)\<rparr>
              else x) (ul_rows d)\<rparr>))"

text \<open>The transaction of \<open>AttachWamid\<close>; it rolls back when a statement fails.\<close>

definition attach_tx :: "usage_env \<Rightarrow> uuid \<Rightarrow> uuid \<Rightarrow> string \<Rightarrow> string \<Rightarrow> ledger \<Rightarrow> usage_error option \<times> ledger" where
  "attach_tx E org mid account wamid d =
     (let k = (org, account, wamid) in
      if \<not> ue_ok E then (Some UsageDatabase, d)
      else case find (\<lambda>x. mu_message x = Some mid) (ul_rows d) of
        None \<Rightarrow> (None, d\<lparr>ul_rows := map (\<lambda>x. if orphan k x then x\<lparr>mu_message := Some mid, mu_link := Linked\<rparr> else x) (ul_rows d)\<rparr>)
      | Some own \<Rightarrow>
          if mu_wamid own \<noteq> '''' then (None, d)
          else
            (let rows = filter (\<lambda>x. \<not> orphan k x) (ul_rows d) in
             if \<exists>x \<in> set rows. mu_id x \<noteq> mu_id own \<and> row_key x = (mu_org own, mu_account own, wamid) then (Some UsageDatabase, d)
             else (None, d\<lparr>ul_rows := map (\<lambda>x. if mu_id x = mu_id own then x\<lparr>mu_wamid := wamid\<rparr> else x) rows\<rparr>)))"

section \<open>Events, prices and settling\<close>

record status_event =
  st_org :: uuid
  st_account :: string
  st_wamid :: string
  st_status :: string
  st_at :: time
  st_pricing :: "pricing option"
  st_conv_id :: string
  st_conv_origin :: string
  st_country :: string
  st_error_code :: int
  st_error_title :: string

definition event_row :: "usage_env \<Rightarrow> status_event \<Rightarrow> pricing_event" where
  "event_row E v = \<lparr> ev_org = st_org v, ev_account = st_account v, ev_wamid = st_wamid v, ev_status = st_status v,
     ev_at = st_at v, ev_received = ue_now E, ev_has_pricing = (st_pricing v \<noteq> None),
     ev_pricing = (case st_pricing v of None \<Rightarrow> [] | Some p \<Rightarrow> pricing_json p),
     ev_conversation = (if st_conv_id v \<noteq> '''' \<or> st_conv_origin v \<noteq> ''''
        then [(''id'', AStr (st_conv_id v)), (''origin'', AStr (st_conv_origin v))] else []),
     ev_country = st_country v, ev_error_code = st_error_code v, ev_error_title = st_error_title v \<rparr>"

text \<open>The unique index of the events: wamid, status and event time.\<close>

definition same_event :: "pricing_event \<Rightarrow> pricing_event \<Rightarrow> bool" where
  "same_event a b \<longleftrightarrow> event_of a = event_of b \<and> ev_status a = ev_status b \<and> ev_at a = ev_at b"

definition record_status_event :: "usage_env \<Rightarrow> status_event \<Rightarrow> ledger \<Rightarrow> (bool \<times> usage_error option) \<times> ledger" where
  "record_status_event E v d =
     (if \<not> ue_on E (st_org v) then ((False, None), d)
      else if \<not> ue_ok E then ((False, Some UsageDatabase), d)
      else (let e = event_row E v in
            if \<exists>x \<in> set (ul_events d). same_event x e then ((False, None), d)
            else ((True, None), d\<lparr>ul_events := ul_events d @ [e]\<rparr>)))"

definition day_of :: "time \<Rightarrow> int" where
  "day_of t = t div (86400 * 1000000000)"

text \<open>\<open>LookupRate\<close>: the price of the country before the price of \<open>*\<close>, then the latest start.\<close>

definition rate_rank :: "wa_rate \<Rightarrow> int list" where
  "rate_rank q = [if wr_country q = ''*'' then 1 else 0, - wr_from q]"

definition rate_applies :: "uuid \<Rightarrow> string \<Rightarrow> string \<Rightarrow> int \<Rightarrow> wa_rate \<Rightarrow> bool" where
  "rate_applies org country category day q \<longleftrightarrow> wr_org q = org \<and> wr_category q = category
     \<and> (wr_country q = country \<or> wr_country q = ''*'') \<and> wr_from q \<le> day
     \<and> (case wr_to q of None \<Rightarrow> True | Some t \<Rightarrow> t \<ge> day)"

definition lookup_rate :: "wa_rate list \<Rightarrow> uuid \<Rightarrow> rate_fun" where
  "lookup_rate qs org country category t =
     (case sort_key rate_rank (filter (rate_applies org country category (day_of t)) qs) of [] \<Rightarrow> None | q # _ \<Rightarrow> Some q)"

text \<open>
  \<open>settleRow\<close> on a locked row. A failure to read the price is an error only when the price is read,
  which is when the row is billable; nothing is written then.
\<close>

definition asks_rate :: "usage_row \<Rightarrow> pricing_event list \<Rightarrow> bool" where
  "asks_rate r es \<longleftrightarrow> mu_state r \<noteq> StateSendFailed \<and> \<not> mu_incoming r
     \<and> billable_of (sc_latest (scan_events es)) (sc_failed (scan_events es)) = Some True"

definition settle_row :: "usage_env \<Rightarrow> (int \<Rightarrow> rat \<Rightarrow> rat) \<Rightarrow> int \<Rightarrow> usage_row \<Rightarrow> ledger \<Rightarrow> (bool + usage_error) \<times> ledger" where
  "settle_row E fmul wait r d =
     (let es = events_of (row_key r) d;
          s = compute fmul r es (Some (lookup_rate (ul_rates d) (mu_org r))) (ue_now E) wait
      in if \<not> ue_ok E \<or> (asks_rate r es \<and> \<not> ue_rate_ok E) then (Inr UsageDatabase, d)
         else if \<not> differs_from s r then (Inl False, d)
         else (Inl True, d\<lparr>ul_rows := map (\<lambda>x. if mu_id x = mu_id r then apply_settlement (ue_now E) s x else x) (ul_rows d)\<rparr>))"

definition settle_tx :: "usage_env \<Rightarrow> (int \<Rightarrow> rat \<Rightarrow> rat) \<Rightarrow> int \<Rightarrow> usage_key \<Rightarrow> ledger \<Rightarrow> usage_error option \<times> ledger" where
  "settle_tx E fmul wait k d =
     (if snd (snd k) = '''' \<or> \<not> ue_on E (fst k) then (None, d)
      else if \<not> ue_ok E then (Some UsageDatabase, d)
      else case find (\<lambda>x. row_key x = k) (ul_rows d) of
        None \<Rightarrow> (None, d)
      | Some r \<Rightarrow> (case settle_row E fmul wait r d of (Inl _, d') \<Rightarrow> (None, d') | (Inr e, d') \<Rightarrow> (Some e, d')))"

definition reprice_one :: "usage_env \<Rightarrow> (int \<Rightarrow> rat \<Rightarrow> rat) \<Rightarrow> int \<Rightarrow> uuid \<Rightarrow> uuid \<Rightarrow> ledger \<Rightarrow> (bool + usage_error) \<times> ledger" where
  "reprice_one E fmul wait org i d =
     (if \<not> ue_ok E then (Inr UsageDatabase, d)
      else case find (\<lambda>x. mu_id x = i \<and> mu_org x = org) (ul_rows d) of
        None \<Rightarrow> (Inr UsageDatabase, d)
      | Some r \<Rightarrow> settle_row E fmul wait r d)"

text \<open>
  One write of the integrity job: an unlinked row for a wamid Meta reported on, of which nothing else
  is known. \<open>sweepUnlinked\<close> settles the row it inserted, \<open>recordInferred\<close> the one it recorded, and
  \<open>sweepPending\<close> only settles.
\<close>

definition unlinked_row :: "usage_env \<Rightarrow> usage_key \<Rightarrow> time \<Rightarrow> string \<Rightarrow> usage_row" where
  "unlinked_row E k at0 country = \<lparr> mu_id = ue_fresh E, mu_org = fst k, mu_account = fst (snd k), mu_message = None,
     mu_wamid = snd (snd k), mu_incoming = False, mu_contact = None, mu_conversation = '''', mu_message_type = '''',
     mu_country = country, mu_template = '''', mu_template_id = '''', mu_declared = '''',
     mu_origin = \<lparr> og_actor = Some ActorSystem, og_user = None, og_team = None, og_flow = None, og_node = '''',
       og_campaign = None, og_occurrence = None, og_ai_log = None, og_detail = ''unlinked'', og_inferred = True \<rparr>,
     mu_unit = None, mu_unit_source = UnitNone, mu_category = '''', mu_billable = None, mu_model = '''', mu_pricing = [],
     mu_history = [], mu_diverged = False, mu_quantity = 1, mu_cost = None, mu_currency = '''', mu_rate = None,
     mu_repriced = None, mu_state = StatePending, mu_link = Unlinked, mu_sent_at = at0, mu_settled_at = None,
     mu_created = ue_now E \<rparr>"

definition insert_unlinked :: "usage_env \<Rightarrow> usage_key \<Rightarrow> time \<Rightarrow> string \<Rightarrow> ledger \<Rightarrow> (bool + usage_error) \<times> ledger" where
  "insert_unlinked E k at0 country d =
     (let r = unlinked_row E k at0 country in
      if \<not> ue_ok E then (Inr UsageDatabase, d)
      else if \<exists>x \<in> set (ul_rows d). row_conflict r x then (Inl False, d)
      else (Inl True, d\<lparr>ul_rows := ul_rows d @ [r]\<rparr>))"

text \<open>The guessed origin of \<open>recordInferred\<close>.\<close>

definition no_origin :: origin where
  "no_origin = \<lparr> og_actor = None, og_user = None, og_team = None, og_flow = None, og_node = '''', og_campaign = None,
     og_occurrence = None, og_ai_log = None, og_detail = '''', og_inferred = True \<rparr>"

definition inferred_origin :: "usage_env \<Rightarrow> usage_msg \<Rightarrow> origin" where
  "inferred_origin E m =
     (if um_incoming m then no_origin\<lparr>og_actor := Some ActorContact\<rparr>
      else if um_sent_by m \<noteq> None then no_origin\<lparr>og_actor := Some ActorAgent, og_user := um_sent_by m\<rparr>
      else case (let i = str_of (jget (um_metadata m) ''campaign_id'') in if i = '''' then None else ue_parse_uuid E i) of
        Some c \<Rightarrow> no_origin\<lparr>og_actor := Some ActorCampaign, og_campaign := Some c, og_detail := ''campaign''\<rparr>
      | None \<Rightarrow> no_origin\<lparr>og_actor := Some ActorSystem, og_detail := ''unclassified''\<rparr>)"

definition record_inferred :: "usage_env \<Rightarrow> (int \<Rightarrow> rat \<Rightarrow> rat) \<Rightarrow> int \<Rightarrow> usage_msg \<Rightarrow> ledger \<Rightarrow> usage_error option \<times> ledger" where
  "record_inferred E fmul wait m d =
     (case record_usage E (Some m) (inferred_origin E m) d of
        (Some e, d1) \<Rightarrow> (Some e, d1)
      | (None, d1) \<Rightarrow>
          if \<not> um_incoming m \<and> um_wamid m = '''' \<and> um_failed m then mark_send_failed E (um_org m) (um_id m) d1
          else if um_wamid m \<noteq> '''' then settle_tx E fmul wait (um_org m, um_account m, um_wamid m) d1
          else (None, d1))"

definition attach_wamid :: "usage_env \<Rightarrow> (int \<Rightarrow> rat \<Rightarrow> rat) \<Rightarrow> int \<Rightarrow> uuid \<Rightarrow> uuid \<Rightarrow> string \<Rightarrow> string \<Rightarrow> ledger \<Rightarrow> usage_error option \<times> ledger" where
  "attach_wamid E fmul wait org mid account wamid d =
     (if wamid = '''' \<or> \<not> ue_on E org then (None, d)
      else case attach_tx E org mid account wamid d of
        (Some e, d1) \<Rightarrow> (Some e, d1)
      | (None, d1) \<Rightarrow> settle_tx E fmul wait (org, account, wamid) d1)"

text \<open>\<open>recordStatusUsage\<close> of the webhook, for a known account.\<close>

definition record_status_usage :: "usage_env \<Rightarrow> (int \<Rightarrow> rat \<Rightarrow> rat) \<Rightarrow> int \<Rightarrow> status_event \<Rightarrow> ledger \<Rightarrow> usage_error option \<times> ledger" where
  "record_status_usage E fmul wait v d =
     (if st_status v \<notin> {''sent'', ''delivered'', ''read'', ''failed''} then (None, d)
      else case record_status_event E v d of
        ((inserted, err), d1) \<Rightarrow>
          if err \<noteq> None \<or> \<not> inserted then (err, d1)
          else settle_tx E fmul wait (st_org v, st_account v, st_wamid v) d1)"

section \<open>Any order of the transactions\<close>

text \<open>
  The steps the ledger takes, with the set of keys that some process is about to settle: it recorded an
  event or attached a wamid and its own settlement comes next. A process that stops there leaves its
  key in the set. An incoming message is recorded under its own wamid, on which Meta reports no
  status: that is the documented behaviour the second rule assumes. \<open>home\<close> is the organization and the
  account of each message, which never change. The unlinked row is inserted for a wamid of the events.
\<close>

inductive ledger_step :: "(uuid \<Rightarrow> uuid \<times> string) \<Rightarrow> (int \<Rightarrow> rat \<Rightarrow> rat) \<Rightarrow> int \<Rightarrow>
    ledger \<times> usage_key set \<Rightarrow> ledger \<times> usage_key set \<Rightarrow> bool" for home fmul wait where
  records: "record_usage E (Some m) og d = (None, d') \<Longrightarrow> \<not> um_incoming m \<Longrightarrow> home (um_id m) = (um_org m, um_account m) \<Longrightarrow>
    ledger_step home fmul wait (d, P) (d', if um_wamid m = '''' then P else insert (um_org m, um_account m, um_wamid m) P)"
| receives: "record_usage E (Some m) og d = (None, d') \<Longrightarrow> um_incoming m \<Longrightarrow> home (um_id m) = (um_org m, um_account m) \<Longrightarrow>
    events_of (um_org m, um_account m, um_wamid m) d = [] \<Longrightarrow> ledger_step home fmul wait (d, P) (d', P)"
| refused: "mark_send_failed E org mid d = (None, d') \<Longrightarrow> ledger_step home fmul wait (d, P) (d', P)"
| attaches: "wamid \<noteq> '''' \<Longrightarrow> attach_tx E org mid account wamid d = (None, d') \<Longrightarrow> home mid = (org, account) \<Longrightarrow>
    ledger_step home fmul wait (d, P) (d', insert (org, account, wamid) P)"
| reported: "record_status_event E v d = ((True, None), d') \<Longrightarrow>
    ledger_step home fmul wait (d, P) (d', insert (st_org v, st_account v, st_wamid v) P)"
| settles: "ue_on E (fst k) \<Longrightarrow> settle_tx E fmul wait k d = (None, d') \<Longrightarrow> ledger_step home fmul wait (d, P) (d', P - {k})"
| reprices: "reprice_one E fmul wait org i d = (Inl changed, d') \<Longrightarrow> ledger_step home fmul wait (d, P) (d', P)"
| unlinked: "events_of k d \<noteq> [] \<Longrightarrow> snd (snd k) \<noteq> '''' \<Longrightarrow> insert_unlinked E k at0 country d = (Inl True, d') \<Longrightarrow>
    ledger_step home fmul wait (d, P) (d', insert k P)"
| prices: "ledger_step home fmul wait (d, P) (d\<lparr>ul_rates := qs\<rparr>, P)"

inductive_cases ledger_stepE: "ledger_step home fmul wait (d, P) s'"

inductive ledger_reach :: "(uuid \<Rightarrow> uuid \<times> string) \<Rightarrow> (int \<Rightarrow> rat \<Rightarrow> rat) \<Rightarrow> int \<Rightarrow> ledger \<times> usage_key set \<Rightarrow> bool" for home fmul wait where
  empty: "ledger_reach home fmul wait (\<lparr> ul_rows = [], ul_events = [], ul_rates = rates \<rparr>, {})"
| step: "ledger_reach home fmul wait s \<Longrightarrow> ledger_step home fmul wait s s' \<Longrightarrow> ledger_reach home fmul wait s'"

definition settled :: "(int \<Rightarrow> rat \<Rightarrow> rat) \<Rightarrow> int \<Rightarrow> usage_row \<Rightarrow> pricing_event list \<Rightarrow> bool" where
  "settled fmul wait r es \<longleftrightarrow> (\<exists>rates now. \<not> differs_from (compute fmul r es rates now wait) r)"

definition row_home :: "(uuid \<Rightarrow> uuid \<times> string) \<Rightarrow> ledger \<Rightarrow> usage_row \<Rightarrow> bool" where
  "row_home home d x \<longleftrightarrow>
     (case mu_message x of None \<Rightarrow> events_of (row_key x) d \<noteq> [] | Some m \<Rightarrow> home m = (mu_org x, mu_account x))"

definition one_per_key :: "usage_row list \<Rightarrow> bool" where
  "one_per_key rs \<longleftrightarrow> (\<forall>x \<in> set rs. \<forall>y \<in> set rs. mu_wamid x \<noteq> '''' \<longrightarrow> row_key x = row_key y \<longrightarrow> mu_id x = mu_id y)"

definition rows_ok :: "(uuid \<Rightarrow> uuid \<times> string) \<Rightarrow> ledger \<Rightarrow> bool" where
  "rows_ok home d \<longleftrightarrow> distinct (map mu_id (ul_rows d)) \<and> one_per_key (ul_rows d) \<and> (\<forall>x \<in> set (ul_rows d). row_home home d x)"

definition rows_settled :: "(int \<Rightarrow> rat \<Rightarrow> rat) \<Rightarrow> int \<Rightarrow> ledger \<Rightarrow> usage_key set \<Rightarrow> bool" where
  "rows_settled fmul wait d P \<longleftrightarrow> (\<forall>x \<in> set (ul_rows d). mu_wamid x \<noteq> '''' \<longrightarrow> row_key x \<notin> P \<longrightarrow>
     settled fmul wait x (events_of (row_key x) d))"

lemma events_of_rows [simp]: "events_of k (d\<lparr>ul_rows := rs\<rparr>) = events_of k d"
  by (simp add: events_of_def)

lemma row_home_rows [simp]: "row_home home (d\<lparr>ul_rows := rs\<rparr>) x = row_home home d x"
  by (cases "mu_message x") (simp_all add: row_home_def)

lemma rows_okD:
  assumes "rows_ok home d"
  shows "distinct (map mu_id (ul_rows d))" "one_per_key (ul_rows d)"
    "x \<in> set (ul_rows d) \<Longrightarrow> y \<in> set (ul_rows d) \<Longrightarrow> mu_id x = mu_id y \<Longrightarrow> x = y"
    "x \<in> set (ul_rows d) \<Longrightarrow> row_home home d x"
  using assms by (auto simp: rows_ok_def distinct_map inj_on_def)

lemma rows_okI:
  "distinct (map mu_id rs) \<Longrightarrow> one_per_key rs \<Longrightarrow> \<forall>x \<in> set rs. row_home home d x \<Longrightarrow> rows_ok home (d\<lparr>ul_rows := rs\<rparr>)"
  by (simp add: rows_ok_def)

lemma rows_ok_same_key:
  "rows_ok home d \<Longrightarrow> x \<in> set (ul_rows d) \<Longrightarrow> y \<in> set (ul_rows d) \<Longrightarrow> mu_wamid x \<noteq> '''' \<Longrightarrow> row_key x = row_key y \<Longrightarrow> x = y"
  by (metis one_per_key_def rows_okD(2,3))

lemma one_per_key_map:
  assumes "one_per_key rs" "\<And>x. x \<in> set rs \<Longrightarrow> mu_id (f x) = mu_id x \<and> row_key (f x) = row_key x"
  shows "one_per_key (map f rs)"
proof -
  have "x \<in> set rs \<Longrightarrow> mu_wamid (f x) = mu_wamid x" for x using assms(2) by (simp add: row_key_def)
  with assms show ?thesis by (simp add: one_per_key_def)
qed

text \<open>Updates of rows by a map that keeps the key, and the append of a row without conflict.\<close>

lemma rows_ok_map:
  assumes "rows_ok home d" "\<And>x. x \<in> set (ul_rows d) \<Longrightarrow> mu_id (f x) = mu_id x \<and> row_key (f x) = row_key x"
    "\<And>x. x \<in> set (ul_rows d) \<Longrightarrow> row_home home d x \<Longrightarrow> row_home home d (f x)"
  shows "rows_ok home (d\<lparr>ul_rows := map f (ul_rows d)\<rparr>)"
proof -
  have "map mu_id (map f (ul_rows d)) = map mu_id (ul_rows d)" using assms(2) by simp
  then show ?thesis using assms one_per_key_map [of "ul_rows d" f] by (simp add: rows_ok_def del: map_map)
qed

lemma rows_ok_add:
  assumes "rows_ok home d" "\<not> (\<exists>x \<in> set (ul_rows d). row_conflict r x)" "row_home home d r"
  shows "rows_ok home (d\<lparr>ul_rows := ul_rows d @ [r]\<rparr>)"
proof -
  have c: "x \<in> set (ul_rows d) \<Longrightarrow> mu_id x \<noteq> mu_id r" "x \<in> set (ul_rows d) \<Longrightarrow> mu_wamid r \<noteq> '''' \<Longrightarrow> row_key x \<noteq> row_key r" for x
    using assms(2) by (auto simp: row_conflict_def)
  have "one_per_key (ul_rows d @ [r])" unfolding one_per_key_def
  proof (intro ballI impI)
    fix x y assume "x \<in> set (ul_rows d @ [r])" "y \<in> set (ul_rows d @ [r])" and w: "mu_wamid x \<noteq> ''''" and k: "row_key x = row_key y"
    then have "x \<in> set (ul_rows d) \<or> x = r" "y \<in> set (ul_rows d) \<or> y = r" by auto
    moreover have "mu_wamid y = mu_wamid x" using k by (simp add: row_key_def)
    moreover have "x \<in> set (ul_rows d) \<Longrightarrow> y \<in> set (ul_rows d) \<Longrightarrow> mu_id x = mu_id y"
      using rows_okD(2) [OF assms(1)] w k unfolding one_per_key_def by blast
    moreover have "x \<in> set (ul_rows d) \<Longrightarrow> y = r \<Longrightarrow> False" using c(2) [of x] w k by (auto simp: row_key_def)
    moreover have "y \<in> set (ul_rows d) \<Longrightarrow> x = r \<Longrightarrow> False" using c(2) [of y] w k by (auto simp: row_key_def)
    ultimately show "mu_id x = mu_id y" by blast
  qed
  moreover have "mu_id r \<notin> set (map mu_id (ul_rows d))" using c(1) by (metis in_set_conv_nth length_map nth_map nth_mem)
  ultimately show ?thesis using assms(1,3) by (simp add: rows_ok_def)
qed

lemma rows_settled_map:
  assumes "rows_settled fmul wait d P"
    "\<And>x. x \<in> set (ul_rows d) \<Longrightarrow> row_key (f x) = row_key x"
    "\<And>x. x \<in> set (ul_rows d) \<Longrightarrow> mu_wamid x \<noteq> '''' \<Longrightarrow> row_key x \<notin> P' \<Longrightarrow>
       f x = x \<and> row_key x \<notin> P \<or> settled fmul wait (f x) (events_of (row_key x) d)"
  shows "rows_settled fmul wait (d\<lparr>ul_rows := map f (ul_rows d)\<rparr>) P'"
  unfolding rows_settled_def
proof (intro ballI impI)
  fix y assume "y \<in> set (ul_rows (d\<lparr>ul_rows := map f (ul_rows d)\<rparr>))" and y: "mu_wamid y \<noteq> ''''" "row_key y \<notin> P'"
  then obtain x where x: "x \<in> set (ul_rows d)" "y = f x" by auto
  have k: "row_key y = row_key x" using assms(2) x by simp
  then have "mu_wamid x \<noteq> ''''" using y(1) by (simp add: row_key_def)
  with assms(3) [OF x(1)] y k have "f x = x \<and> row_key x \<notin> P \<or> settled fmul wait (f x) (events_of (row_key x) d)" by simp
  with assms(1) x y k show "settled fmul wait y (events_of (row_key y) (d\<lparr>ul_rows := map f (ul_rows d)\<rparr>))"
    by (auto simp: rows_settled_def)
qed

lemma rows_settled_add:
  "rows_settled fmul wait d P \<Longrightarrow> P \<subseteq> P' \<Longrightarrow>
   mu_wamid r = '''' \<or> row_key r \<in> P' \<or> settled fmul wait r (events_of (row_key r) d) \<Longrightarrow>
   rows_settled fmul wait (d\<lparr>ul_rows := ul_rows d @ [r]\<rparr>) P'"
  by (auto simp: rows_settled_def)

lemma rows_settled_mono: "rows_settled fmul wait d P \<Longrightarrow> P \<subseteq> P' \<Longrightarrow> rows_settled fmul wait d P'"
  by (auto simp: rows_settled_def)

section \<open>Every step keeps the rows settled\<close>

definition ledger_ok :: "(uuid \<Rightarrow> uuid \<times> string) \<Rightarrow> (int \<Rightarrow> rat \<Rightarrow> rat) \<Rightarrow> int \<Rightarrow> ledger \<times> usage_key set \<Rightarrow> bool" where
  "ledger_ok home fmul wait s \<longleftrightarrow> rows_ok home (fst s) \<and> rows_settled fmul wait (fst s) (snd s)"

lemma row_of_sel:
  "mu_message (usage_row_of E m og) = Some (um_id m)" "mu_org (usage_row_of E m og) = um_org m"
  "mu_account (usage_row_of E m og) = um_account m" "mu_wamid (usage_row_of E m og) = um_wamid m"
  "row_key (usage_row_of E m og) = (um_org m, um_account m, um_wamid m)"
  by (simp_all add: usage_row_of_def Let_def row_key_def split: prod.split option.split)

lemma incoming_row_sel:
  assumes "um_incoming m"
  shows "mu_state (usage_row_of E m og) = StateNotBillable" "mu_billable (usage_row_of E m og) = Some False"
    "mu_cost (usage_row_of E m og) = Some 0" "mu_currency (usage_row_of E m og) = ''''" "mu_rate (usage_row_of E m og) = None"
    "mu_incoming (usage_row_of E m og)"
  using assms by (simp_all add: usage_row_of_def Let_def split: prod.split)

lemma incoming_row_settled: "um_incoming m \<Longrightarrow> settled fmul wait (usage_row_of E m og) es"
  by (simp add: settled_def differs_from_def compute_frame incoming_row_sel pricing_eq_def)

lemma link_row_sel [simp]:
  "mu_id (link_row r x) = mu_id x" "row_key (link_row r x) = row_key x" "mu_message (link_row r x) = mu_message r"
  "mu_wamid (link_row r x) = mu_wamid x" "mu_org (link_row r x) = mu_org x" "mu_account (link_row r x) = mu_account x"
  by (simp_all add: link_row_def row_key_def)

text \<open>\<open>record_usage\<close> either leaves the ledger, or appends its row, or links the unlinked row of its wamid.\<close>

lemma record_usage_cases:
  assumes "record_usage E (Some m) og d = (None, d')"
  obtains "d' = d"
  | "\<not> (\<exists>x \<in> set (ul_rows d). row_conflict (usage_row_of E m og) x)" "d' = d\<lparr>ul_rows := ul_rows d @ [usage_row_of E m og]\<rparr>"
  | "um_wamid m \<noteq> ''''"
    "d' = d\<lparr>ul_rows := map (\<lambda>x. if orphan (um_org m, um_account m, um_wamid m) x then link_row (usage_row_of E m og) x else x) (ul_rows d)\<rparr>"
proof (cases "\<exists>x \<in> set (ul_rows d). row_conflict (usage_row_of E m og) x")
  case True
  show thesis
  proof (cases "um_wamid m = ''''")
    case True
    with \<open>\<exists>x \<in> set (ul_rows d). _\<close> assms show thesis
      by (intro that(1)) (simp add: record_usage_def Let_def row_of_sel split: if_splits)
  next
    case False
    have "d' = d \<or> d' = d\<lparr>ul_rows := map (\<lambda>x. if orphan (um_org m, um_account m, um_wamid m) x then link_row (usage_row_of E m og) x else x) (ul_rows d)\<rparr>"
      using assms \<open>\<exists>x \<in> set (ul_rows d). _\<close> False
      by (simp add: record_usage_def Let_def row_of_sel split: if_splits)
    then show thesis using that(1) that(3) [OF False] by blast
  qed
next
  case False
  with assms have "d' = d \<or> d' = d\<lparr>ul_rows := ul_rows d @ [usage_row_of E m og]\<rparr>"
    by (simp add: record_usage_def Let_def split: if_splits)
  then show thesis using that(1) that(2) [OF False] by blast
qed

lemma record_keeps:
  assumes "record_usage E (Some m) og d = (None, d')" "rows_ok home d" "rows_settled fmul wait d P"
    "home (um_id m) = (um_org m, um_account m)" "P \<subseteq> P'"
    "um_wamid m \<noteq> '''' \<Longrightarrow> (um_org m, um_account m, um_wamid m) \<in> P'
       \<or> um_incoming m \<and> events_of (um_org m, um_account m, um_wamid m) d = []"
  shows "rows_ok home d' \<and> rows_settled fmul wait d' P'"
  using assms(1)
proof (cases rule: record_usage_cases)
  case 1
  then show ?thesis using assms(2,3,5) rows_settled_mono by blast
next
  case 2
  show ?thesis unfolding 2(2)
  proof
    show "rows_ok home (d\<lparr>ul_rows := ul_rows d @ [usage_row_of E m og]\<rparr>)"
      by (rule rows_ok_add [OF assms(2) 2(1)]) (simp add: row_home_def row_of_sel assms(4))
    show "rows_settled fmul wait (d\<lparr>ul_rows := ul_rows d @ [usage_row_of E m og]\<rparr>) P'"
      by (rule rows_settled_add [OF assms(3,5)]) (use assms(6) incoming_row_settled in \<open>auto simp: row_of_sel\<close>)
  qed
next
  case 3
  let ?k = "(um_org m, um_account m, um_wamid m)"
  have o: "x \<in> set (ul_rows d) \<Longrightarrow> orphan ?k x \<Longrightarrow> ?k \<in> P'" for x
    using rows_okD(4) [OF assms(2), of x] assms(6) [OF 3(1)] by (auto simp: orphan_def row_home_def)
  show ?thesis unfolding 3(2)
  proof
    show "rows_ok home (d\<lparr>ul_rows := map (\<lambda>x. if orphan ?k x then link_row (usage_row_of E m og) x else x) (ul_rows d)\<rparr>)"
      by (rule rows_ok_map [OF assms(2)]) (auto simp: row_home_def row_of_sel assms(4) orphan_def row_key_def)
    show "rows_settled fmul wait (d\<lparr>ul_rows := map (\<lambda>x. if orphan ?k x then link_row (usage_row_of E m og) x else x) (ul_rows d)\<rparr>) P'"
      by (rule rows_settled_map [OF assms(3)]) (use o assms(5) in \<open>auto simp: orphan_def\<close>)
  qed
qed

lemma refused_keeps:
  assumes "mark_send_failed E org mid d = (None, d')" "rows_ok home d" "rows_settled fmul wait d P"
  shows "rows_ok home d' \<and> rows_settled fmul wait d' P"
proof (cases "d' = d")
  case False
  define f :: "usage_row \<Rightarrow> usage_row" where "f x = (if mu_message x = Some mid \<and> mu_org x = org \<and> mu_wamid x = ''''
    then x\<lparr>mu_state := StateSendFailed, mu_billable := Some False, mu_cost := Some 0, mu_settled_at := Some (ue_now E)\<rparr> else x)" for x
  have d': "d' = d\<lparr>ul_rows := map f (ul_rows d)\<rparr>"
    using assms(1) False by (simp add: mark_send_failed_def f_def [abs_def] split: if_splits)
  show ?thesis unfolding d'
  proof
    show "rows_ok home (d\<lparr>ul_rows := map f (ul_rows d)\<rparr>)"
      by (rule rows_ok_map [OF assms(2)]) (auto simp: f_def row_home_def row_key_def)
    show "rows_settled fmul wait (d\<lparr>ul_rows := map f (ul_rows d)\<rparr>) P"
      by (rule rows_settled_map [OF assms(3)]) (auto simp: f_def row_key_def)
  qed
qed (use assms in simp)

lemma attach_adopts:
  assumes "rows_ok home d" "rows_settled fmul wait d P" "home mid = (org, account)"
  shows "rows_ok home (d\<lparr>ul_rows := map (\<lambda>x. if orphan (org, account, wamid) x
      then x\<lparr>mu_message := Some mid, mu_link := Linked\<rparr> else x) (ul_rows d)\<rparr>)" (is ?ok)
    and "rows_settled fmul wait (d\<lparr>ul_rows := map (\<lambda>x. if orphan (org, account, wamid) x
      then x\<lparr>mu_message := Some mid, mu_link := Linked\<rparr> else x) (ul_rows d)\<rparr>) (insert (org, account, wamid) P)" (is ?settled)
proof -
  show ?ok by (rule rows_ok_map [OF assms(1)]) (auto simp: orphan_def row_home_def row_key_def assms(3))
  show ?settled by (rule rows_settled_map [OF assms(2)]) (auto simp: orphan_def row_key_def)
qed

lemma rows_ok_filter: "rows_ok home d \<Longrightarrow> rows_ok home (d\<lparr>ul_rows := filter P (ul_rows d)\<rparr>)"
  by (auto simp: rows_ok_def one_per_key_def intro: distinct_map_filter)

lemma rows_settled_filter: "rows_settled fmul wait d P \<Longrightarrow> rows_settled fmul wait (d\<lparr>ul_rows := filter Q (ul_rows d)\<rparr>) P"
  by (auto simp: rows_settled_def)

text \<open>A row of its own without a wamid gets one nobody else has.\<close>

lemma set_wamid_keeps:
  assumes "rows_ok home d" "rows_settled fmul wait d P" "own \<in> set (ul_rows d)" "mu_message own \<noteq> None"
    and free: "\<not> (\<exists>x \<in> set (ul_rows d). mu_id x \<noteq> mu_id own \<and> row_key x = (mu_org own, mu_account own, wamid))"
    and P': "P' = insert (mu_org own, mu_account own, wamid) P"
  shows "rows_ok home (d\<lparr>ul_rows := map (\<lambda>x. if mu_id x = mu_id own then x\<lparr>mu_wamid := wamid\<rparr> else x) (ul_rows d)\<rparr>)" (is ?ok)
    and "rows_settled fmul wait (d\<lparr>ul_rows := map (\<lambda>x. if mu_id x = mu_id own then x\<lparr>mu_wamid := wamid\<rparr> else x) (ul_rows d)\<rparr>) P'" (is ?settled)
proof -
  let ?f = "\<lambda>x. if mu_id x = mu_id own then x\<lparr>mu_wamid := wamid\<rparr> else x"
  have own: "x \<in> set (ul_rows d) \<Longrightarrow> mu_id x = mu_id own \<Longrightarrow> x = own" for x
    using rows_okD(3) [OF assms(1) _ assms(3)] by blast
  have eq: "map mu_id (map ?f (ul_rows d)) = map mu_id (ul_rows d)" by simp
  have ids: "distinct (map mu_id (map ?f (ul_rows d)))" unfolding eq by (rule rows_okD(1) [OF assms(1)])
  have keys: "one_per_key (map ?f (ul_rows d))" unfolding one_per_key_def set_map ball_simps
  proof (intro ballI impI)
    fix x y assume x: "x \<in> set (ul_rows d)" and y: "y \<in> set (ul_rows d)" and w: "mu_wamid (?f x) \<noteq> ''''" and k: "row_key (?f x) = row_key (?f y)"
    show "mu_id (?f x) = mu_id (?f y)"
    proof (cases "mu_id x = mu_id own \<or> mu_id y = mu_id own")
      case True
      then show ?thesis using own [OF x] own [OF y] free x y k by (auto simp: row_key_def split: if_splits)
    next
      case False
      then show ?thesis using rows_ok_same_key [OF assms(1) x y] w k by simp
    qed
  qed
  have "row_home home d (?f x)" if "x \<in> set (ul_rows d)" for x
    using own [OF that] rows_okD(4) [OF assms(1) that] assms(4) by (auto simp: row_home_def)
  then have "\<forall>x \<in> set (map ?f (ul_rows d)). row_home home d x" unfolding set_map by blast
  with ids keys show ?ok by (rule rows_okI)
  show ?settled unfolding rows_settled_def
  proof (intro ballI impI)
    fix y assume "y \<in> set (ul_rows (d\<lparr>ul_rows := map ?f (ul_rows d)\<rparr>))" and y: "mu_wamid y \<noteq> ''''" "row_key y \<notin> P'"
    then obtain x where x: "x \<in> set (ul_rows d)" "y = ?f x" by auto
    then have "mu_id x \<noteq> mu_id own" using own [OF x(1)] y(2) by (auto simp: P' row_key_def)
    with x y assms(2) show "settled fmul wait y (events_of (row_key y) (d\<lparr>ul_rows := map ?f (ul_rows d)\<rparr>))"
      by (simp add: rows_settled_def P')
  qed
qed

lemma attach_keeps:
  assumes "attach_tx E org mid account wamid d = (None, d')" "rows_ok home d" "rows_settled fmul wait d P" "home mid = (org, account)"
  shows "rows_ok home d' \<and> rows_settled fmul wait d' (insert (org, account, wamid) P)"
proof (cases "find (\<lambda>x. mu_message x = Some mid) (ul_rows d)")
  case None
  with assms(1) have "d' = d\<lparr>ul_rows := map (\<lambda>x. if orphan (org, account, wamid) x then x\<lparr>mu_message := Some mid, mu_link := Linked\<rparr> else x) (ul_rows d)\<rparr>"
    by (simp add: attach_tx_def Let_def split: if_splits)
  then show ?thesis using attach_adopts [OF assms(2,3,4)] by blast
next
  case (Some own)
  then have own: "own \<in> set (ul_rows d)" "mu_message own = Some mid" by (auto simp: find_Some_iff)
  with rows_okD(4) [OF assms(2) own(1)] assms(4) have home: "mu_org own = org" "mu_account own = account" by (auto simp: row_home_def)
  show ?thesis
  proof (cases "d' = d")
    case True
    then show ?thesis using assms(2,3) rows_settled_mono by blast
  next
    case False
    define d1 where "d1 = d\<lparr>ul_rows := filter (\<lambda>x. \<not> orphan (org, account, wamid) x) (ul_rows d)\<rparr>"
    have free: "\<not> (\<exists>x \<in> set (ul_rows d1). mu_id x \<noteq> mu_id own \<and> row_key x = (mu_org own, mu_account own, wamid))"
      and d': "d' = d1\<lparr>ul_rows := map (\<lambda>x. if mu_id x = mu_id own then x\<lparr>mu_wamid := wamid\<rparr> else x) (ul_rows d1)\<rparr>"
      using assms(1) Some False by (auto simp: attach_tx_def Let_def d1_def split: if_splits)
    have d1: "rows_ok home d1" "rows_settled fmul wait d1 P" "own \<in> set (ul_rows d1)"
      using rows_ok_filter [OF assms(2)] rows_settled_filter [OF assms(3)] own by (auto simp: d1_def orphan_def)
    show ?thesis using set_wamid_keeps [OF d1 _ free] own(2) home unfolding d' by simp
  qed
qed

lemma report_keeps:
  assumes "record_status_event E v d = ((True, None), d')" "rows_ok home d" "rows_settled fmul wait d P"
  shows "rows_ok home d' \<and> rows_settled fmul wait d' (insert (st_org v, st_account v, st_wamid v) P)"
proof -
  let ?k = "(st_org v, st_account v, st_wamid v)"
  have d': "d' = d\<lparr>ul_events := ul_events d @ [event_row E v]\<rparr>"
    using assms(1) by (simp add: record_status_event_def Let_def split: if_splits)
  have k: "event_of (event_row E v) = ?k" by (simp add: event_row_def event_of_def)
  have e: "events_of q d' = events_of q d @ (if q = ?k then [event_row E v] else [])" for q
    by (simp add: d' events_of_def k)
  have "row_home home d x \<Longrightarrow> row_home home d' x" for x
    by (cases "mu_message x") (simp_all add: row_home_def e)
  then show ?thesis using assms(2,3) by (simp add: rows_ok_def rows_settled_def e) (simp add: d')
qed

text \<open>The row \<open>settle_row\<close> worked on is settled afterwards, and the other rows are as before.\<close>

lemma settle_row_keeps:
  assumes "settle_row E fmul wait r d = (Inl b, d')" "r \<in> set (ul_rows d)" "rows_ok home d" "rows_settled fmul wait d P"
  shows "rows_ok home d' \<and> rows_settled fmul wait d' (P - {row_key r})"
proof -
  define s where "s = compute fmul (r :: usage_row) (events_of (row_key r) d) (Some (lookup_rate (ul_rates d) (mu_org r))) (ue_now E) wait"
  have cases: "(\<not> differs_from s r \<and> d' = d) \<or>
    d' = d\<lparr>ul_rows := map (\<lambda>x. if mu_id x = mu_id r then apply_settlement (ue_now E) s x else x) (ul_rows d)\<rparr>"
    using assms(1) by (auto simp: settle_row_def Let_def s_def split: if_splits)
  have own: "x \<in> set (ul_rows d) \<Longrightarrow> mu_id x = mu_id r \<Longrightarrow> x = r" for x
    using rows_okD(3) [OF assms(3) _ assms(2)] by blast
  have same: "x \<in> set (ul_rows d) \<Longrightarrow> mu_wamid x \<noteq> '''' \<Longrightarrow> row_key x = row_key r \<Longrightarrow> x = r" for x
    using rows_ok_same_key [OF assms(3) _ assms(2)] by blast
  from cases show ?thesis
  proof
    assume c: "\<not> differs_from s r \<and> d' = d"
    then have "settled fmul wait r (events_of (row_key r) d)" unfolding settled_def s_def by blast
    with c assms(3,4) same show ?thesis by (auto simp: rows_settled_def)
  next
    assume d': "d' = d\<lparr>ul_rows := map (\<lambda>x. if mu_id x = mu_id r then apply_settlement (ue_now E) s x else x) (ul_rows d)\<rparr>"
    have key: "row_key (apply_settlement t s x) = row_key x" for t and x :: usage_row by (simp add: row_key_def)
    have home: "row_home home d (apply_settlement t s x) = row_home home d x" for t and x :: usage_row
      by (cases "mu_message x") (simp_all add: row_home_def key)
    have now: "settled fmul wait (apply_settlement (ue_now E) s r) (events_of (row_key r) d)"
      unfolding settled_def using settle_again [of "apply_settlement (ue_now E) s r" "ue_now E" fmul] s_def by blast
    show ?thesis unfolding d'
    proof
      show "rows_ok home (d\<lparr>ul_rows := map (\<lambda>x. if mu_id x = mu_id r then apply_settlement (ue_now E) s x else x) (ul_rows d)\<rparr>)"
        by (rule rows_ok_map [OF assms(3)]) (auto simp: key home)
      show "rows_settled fmul wait (d\<lparr>ul_rows := map (\<lambda>x. if mu_id x = mu_id r then apply_settlement (ue_now E) s x else x) (ul_rows d)\<rparr>) (P - {row_key r})"
      proof (rule rows_settled_map [OF assms(4)])
        fix x assume x: "x \<in> set (ul_rows d)"
        show "row_key (if mu_id x = mu_id r then apply_settlement (ue_now E) s x else x) = row_key x" by (simp add: key)
        assume "mu_wamid x \<noteq> ''''" "row_key x \<notin> P - {row_key r}"
        then show "(if mu_id x = mu_id r then apply_settlement (ue_now E) s x else x) = x \<and> row_key x \<notin> P
          \<or> settled fmul wait (if mu_id x = mu_id r then apply_settlement (ue_now E) s x else x) (events_of (row_key x) d)"
          using own [OF x] same [OF x] now by (cases "mu_id x = mu_id r") auto
      qed
    qed
  qed
qed

lemma settle_tx_keeps:
  assumes "settle_tx E fmul wait k d = (None, d')" "ue_on E (fst k)" "rows_ok home d" "rows_settled fmul wait d P"
  shows "rows_ok home d' \<and> rows_settled fmul wait d' (P - {k})"
proof (cases "snd (snd k) = ''''")
  case True
  then have "d' = d" using assms(1) by (simp add: settle_tx_def)
  moreover have "mu_wamid x \<noteq> '''' \<Longrightarrow> row_key x \<noteq> k" for x using True by (auto simp: row_key_def)
  ultimately show ?thesis using assms(3,4) by (auto simp: rows_settled_def)
next
  case False
  show ?thesis
  proof (cases "find (\<lambda>x. row_key x = k) (ul_rows d)")
    case None
    then have "d' = d" using assms(1) by (simp add: settle_tx_def split: if_splits)
    moreover have "x \<in> set (ul_rows d) \<Longrightarrow> row_key x \<noteq> k" for x using None by (auto simp: find_None_iff)
    ultimately show ?thesis using assms(3,4) by (auto simp: rows_settled_def)
  next
    case (Some r)
    then have r: "r \<in> set (ul_rows d)" "row_key r = k" by (auto simp: find_Some_iff)
    obtain b where "settle_row E fmul wait r d = (Inl b, d')"
      using assms(1,2) Some False by (auto simp: settle_tx_def split: if_splits prod.splits sum.splits)
    from settle_row_keeps [OF this r(1) assms(3,4)] r(2) show ?thesis by simp
  qed
qed

lemma reprice_keeps:
  assumes "reprice_one E fmul wait org i d = (Inl b, d')" "rows_ok home d" "rows_settled fmul wait d P"
  shows "rows_ok home d' \<and> rows_settled fmul wait d' P"
proof -
  from assms(1) obtain r where r: "find (\<lambda>x. mu_id x = i \<and> mu_org x = org) (ul_rows d) = Some r"
    and s: "settle_row E fmul wait r d = (Inl b, d')"
    by (auto simp: reprice_one_def split: if_splits option.splits)
  from r have "r \<in> set (ul_rows d)" by (auto simp: find_Some_iff)
  from settle_row_keeps [OF s this assms(2,3)] show ?thesis using rows_settled_mono by blast
qed

lemma unlinked_keeps:
  assumes "insert_unlinked E k at0 country d = (Inl True, d')" "events_of k d \<noteq> []" "rows_ok home d" "rows_settled fmul wait d P"
  shows "rows_ok home d' \<and> rows_settled fmul wait d' (insert k P)"
proof -
  let ?r = "unlinked_row E k at0 country"
  have r: "row_key ?r = k" "mu_message ?r = None" by (simp_all add: unlinked_row_def row_key_def)
  from assms(1) have c: "\<not> (\<exists>x \<in> set (ul_rows d). row_conflict ?r x)" and d': "d' = d\<lparr>ul_rows := ul_rows d @ [?r]\<rparr>"
    by (auto simp: insert_unlinked_def Let_def split: if_splits)
  show ?thesis unfolding d'
  proof
    show "rows_ok home (d\<lparr>ul_rows := ul_rows d @ [?r]\<rparr>)"
      by (rule rows_ok_add [OF assms(3) c]) (simp add: row_home_def r assms(2))
    show "rows_settled fmul wait (d\<lparr>ul_rows := ul_rows d @ [?r]\<rparr>) (insert k P)"
      by (rule rows_settled_add [OF assms(4)]) (simp_all add: r subset_insertI)
  qed
qed

lemma ledger_step_keeps:
  assumes "ledger_step home fmul wait s s'" "ledger_ok home fmul wait s"
  shows "ledger_ok home fmul wait s'"
  using assms
proof cases
  case (records E m og d d' P)
  then show ?thesis using record_keeps [OF records(3), of home fmul wait P] assms(2) by (auto simp: ledger_ok_def)
next
  case (receives E m og d d' P)
  then show ?thesis using record_keeps [OF receives(3), of home fmul wait P P] assms(2) by (auto simp: ledger_ok_def)
next
  case (refused E org mid d d' P)
  then show ?thesis using refused_keeps [OF refused(3)] assms(2) by (auto simp: ledger_ok_def)
next
  case (attaches wamid E org mid account d d' P)
  then show ?thesis using attach_keeps [OF attaches(4)] assms(2) by (auto simp: ledger_ok_def)
next
  case (reported E v d d' P)
  then show ?thesis using report_keeps [OF reported(3)] assms(2) by (auto simp: ledger_ok_def)
next
  case (settles E k d d' P)
  then show ?thesis using settle_tx_keeps [OF settles(4,3)] assms(2) by (auto simp: ledger_ok_def)
next
  case (reprices E org i d b d' P)
  then show ?thesis using reprice_keeps [OF reprices(3)] assms(2) by (auto simp: ledger_ok_def)
next
  case (unlinked k d E at0 country d' P)
  then show ?thesis using unlinked_keeps [OF unlinked(5,3)] assms(2) by (auto simp: ledger_ok_def)
next
  case (prices d P qs)
  have "events_of k (d\<lparr>ul_rates := qs\<rparr>) = events_of k d" for k by (simp add: events_of_def)
  moreover have "row_home home (d\<lparr>ul_rates := qs\<rparr>) x = row_home home d x" for x
    by (cases "mu_message x") (simp_all add: row_home_def events_of_def)
  ultimately show ?thesis using assms(2) unfolding prices by (simp add: ledger_ok_def rows_ok_def rows_settled_def)
qed

lemma ledger_reach_ok: "ledger_reach home fmul wait s \<Longrightarrow> ledger_ok home fmul wait s"
proof (induction rule: ledger_reach.induct)
  case (empty rates)
  show ?case by (simp add: ledger_ok_def rows_ok_def one_per_key_def rows_settled_def)
next
  case (step s s')
  then show ?case by (blast intro: ledger_step_keeps)
qed

section \<open>The properties\<close>

lemma bill_tells:
  "se_billable (bill fmul rates now wait r a s) = billable_of (sc_latest a) (sc_failed a)"
  "se_state (bill fmul rates now wait r a s) \<in> (case sc_latest a of
     Some p \<Rightarrow> if pg_billable p then {StatePriced, StateNoRate} else if sc_failed a then {StateFailed} else {StateNotBillable}
   | None \<Rightarrow> if sc_failed a then {StateFailed} else if sc_delivered a then {StateAwaiting} else {StatePending, StateUnconfirmed})"
  "se_state (bill fmul rates now wait r a s) = StatePriced \<or> se_cost (bill fmul rates now wait r a s) \<in> {None, Some 0}"
  by (auto simp: bill_def billable_of_def Let_def split: option.splits if_splits)

lemma settled_tells:
  assumes "settled fmul wait r es" "\<not> mu_incoming r" "mu_state r \<noteq> StateSendFailed" "a = scan_events es"
  shows "mu_billable r = billable_of (sc_latest a) (sc_failed a)"
    "sc_latest a = Some p \<Longrightarrow> mu_category r = to_lower (pg_category p) \<and> pricing_from_json (mu_pricing r) = Some p"
    "mu_state r \<in> (case sc_latest a of
       Some p \<Rightarrow> if pg_billable p then {StatePriced, StateNoRate} else if sc_failed a then {StateFailed} else {StateNotBillable}
     | None \<Rightarrow> if sc_failed a then {StateFailed} else if sc_delivered a then {StateAwaiting} else {StatePending, StateUnconfirmed})"
    "mu_state r = StatePriced \<or> mu_cost r \<in> {None, Some 0}"
proof -
  obtain rates now where d: "\<not> differs_from (compute fmul r es rates now wait) r" using assms(1) by (auto simp: settled_def)
  obtain x where c: "compute fmul r es rates now wait = (bill fmul rates now wait r a (read_events r now a))\<lparr>se_repriced := x\<rparr>"
    using compute_outgoing [OF assms(3,2), of fmul es rates now wait] assms(4) by metis
  note e = d [unfolded differs_from_def c, simplified]
  have state: "mu_state r = se_state (bill fmul rates now wait r a (read_events r now a))"
    and cost: "mu_cost r = se_cost (bill fmul rates now wait r a (read_events r now a))" using e by simp_all
  show "mu_billable r = billable_of (sc_latest a) (sc_failed a)" using e by (simp add: bill_tells(1))
  show "sc_latest a = Some p \<Longrightarrow> mu_category r = to_lower (pg_category p) \<and> pricing_from_json (mu_pricing r) = Some p"
    using e by (simp add: pricing_eq_def)
  show "mu_state r \<in> (case sc_latest a of
       Some p \<Rightarrow> if pg_billable p then {StatePriced, StateNoRate} else if sc_failed a then {StateFailed} else {StateNotBillable}
     | None \<Rightarrow> if sc_failed a then {StateFailed} else if sc_delivered a then {StateAwaiting} else {StatePending, StateUnconfirmed})"
    unfolding state by (rule bill_tells(2))
  show "mu_state r = StatePriced \<or> mu_cost r \<in> {None, Some 0}"
    unfolding state cost by (rule bill_tells(3))
qed

text \<open>C23 (invariant).
  No status event is lost, however the transactions of the send path, the webhook, the integrity job
  and the repricing interleave, even when the events of a message arrive before its wamid is known:
  a row of an accepted outgoing message that no process is about to settle carries what its events
  say, in its billable flag, its category, its pricing and its state, and it only has a cost other
  than zero when it was priced.
\<close>
theorem no_event_is_lost:
  assumes "ledger_reach home fmul wait (d, P)" "r \<in> set (ul_rows d)" "mu_wamid r \<noteq> ''''" "row_key r \<notin> P"
    "\<not> mu_incoming r" "mu_state r \<noteq> StateSendFailed"
  shows "let a = scan_events (events_of (row_key r) d) in
    (case sc_latest a of
       Some p \<Rightarrow> mu_billable r = Some (pg_billable p) \<and> mu_category r = to_lower (pg_category p)
         \<and> pricing_from_json (mu_pricing r) = Some p
         \<and> mu_state r \<in> (if pg_billable p then {StatePriced, StateNoRate} else if sc_failed a then {StateFailed} else {StateNotBillable})
     | None \<Rightarrow> mu_billable r = (if sc_failed a then Some False else None)
         \<and> mu_state r \<in> (if sc_failed a then {StateFailed} else if sc_delivered a then {StateAwaiting} else {StatePending, StateUnconfirmed}))
    \<and> (mu_cost r \<notin> {None, Some 0} \<longrightarrow> mu_state r = StatePriced)"
proof -
  have "settled fmul wait r (events_of (row_key r) d)"
    using ledger_reach_ok [OF assms(1)] assms(2-4) by (auto simp: ledger_ok_def rows_settled_def)
  from settled_tells [OF this assms(5,6) refl] show ?thesis
    by (cases "sc_latest (scan_events (events_of (row_key r) d))") (auto simp: Let_def billable_of_def)
qed

text \<open>A message whose price is reported before its wamid is known.\<close>

definition sample_usage_env :: usage_env where
  "sample_usage_env = \<lparr> ue_on = (\<lambda>_. True), ue_contact = (\<lambda>_. None), ue_user_unit = (\<lambda>_. None),
     ue_team_unit = (\<lambda>_. None), ue_template = (\<lambda>_ _ _. Some (''77'', ''UTILITY'')), ue_fresh = 1, ue_now = 130,
     ue_ok = True, ue_rate_ok = True, ue_parse_uuid = (\<lambda>_. None) \<rparr>"

definition sample_usage_msg :: usage_msg where
  "sample_usage_msg = \<lparr> um_id = 5, um_org = 1, um_account = ''main'', um_wamid = '''', um_incoming = False, um_contact = 9,
     um_conversation = '''', um_type = ''template'', um_template = ''promo'', um_sent_by = Some 3, um_metadata = [],
     um_failed = False, um_created = 100 \<rparr>"

definition sample_status :: status_event where
  "sample_status = \<lparr> st_org = 1, st_account = ''main'', st_wamid = ''w1'', st_status = ''sent'', st_at = 110,
     st_pricing = Some \<lparr> pg_billable = True, pg_model = ''PMP'', pg_category = ''MARKETING'' \<rparr>,
     st_conv_id = '''', st_conv_origin = '''', st_country = ''55'', st_error_code = 0, st_error_title = '''' \<rparr>"

definition sample_mul :: "int \<Rightarrow> rat \<Rightarrow> rat" where "sample_mul q p = of_int q * p"

definition sample_ledger :: "usage_row list \<Rightarrow> pricing_event list \<Rightarrow> ledger" where
  "sample_ledger rows evs = \<lparr> ul_rows = rows, ul_events = evs, ul_rates = [\<lparr> wr_id = 40, wr_org = 1, wr_country = ''*'',
     wr_category = ''marketing'', wr_price = 1/16, wr_currency = ''USD'', wr_from = 0, wr_to = None \<rparr>] \<rparr>"

definition sample_new :: usage_row where
  "sample_new = sample_row\<lparr>mu_wamid := '''', mu_country := '''', mu_origin := no_origin\<lparr>og_actor := Some ActorSystem,
     og_detail := ''unclassified''\<rparr>, mu_created := 130\<rparr>"

definition sample_attached :: usage_row where
  "sample_attached = sample_new\<lparr>mu_wamid := ''w1''\<rparr>"

definition sample_settled :: usage_row where
  "sample_settled = sample_attached\<lparr>mu_category := ''marketing'', mu_billable := Some True, mu_model := ''PMP'',
     mu_pricing := pricing_json \<lparr> pg_billable = True, pg_model = ''PMP'', pg_category = ''MARKETING'' \<rparr>,
     mu_diverged := True, mu_cost := Some (1/16), mu_currency := ''USD'', mu_rate := Some 40, mu_state := StatePriced,
     mu_settled_at := Some 130\<rparr>"

definition sample_reported :: pricing_event where
  "sample_reported = event_row sample_usage_env sample_status"

lemma sample_ledger_steps:
  "record_usage sample_usage_env (Some sample_usage_msg) no_origin (sample_ledger [] []) = (None, sample_ledger [sample_new] [])"
  "record_status_event sample_usage_env sample_status (sample_ledger [sample_new] []) =
     ((True, None), sample_ledger [sample_new] [sample_reported])"
  "settle_tx sample_usage_env sample_mul 1000 (1, ''main'', ''w1'') (sample_ledger [sample_new] [sample_reported]) =
     (None, sample_ledger [sample_new] [sample_reported])"
  "attach_tx sample_usage_env 1 5 ''main'' ''w1'' (sample_ledger [sample_new] [sample_reported]) =
     (None, sample_ledger [sample_attached] [sample_reported])"
  "settle_tx sample_usage_env sample_mul 1000 (1, ''main'', ''w1'') (sample_ledger [sample_attached] [sample_reported]) =
     (None, sample_ledger [sample_settled] [sample_reported])"
  by code_simp+

lemma no_event_is_lost_witness:
  "ledger_reach (\<lambda>_. (1, ''main'')) sample_mul 1000 (sample_ledger [sample_settled] [sample_reported], {})
     \<and> mu_wamid sample_settled = ''w1'' \<and> mu_billable sample_settled = Some True \<and> mu_cost sample_settled = Some (1/16)"
proof -
  let ?home = "\<lambda>_. (1, ''main'')" and ?k = "(1, ''main'', ''w1'')"
  have "ledger_reach ?home sample_mul 1000 (sample_ledger [] [], {})"
    using ledger_reach.empty by (simp add: sample_ledger_def)
  then have "ledger_reach ?home sample_mul 1000 (sample_ledger [sample_new] [], {})"
    using ledger_step.records [OF sample_ledger_steps(1), of ?home sample_mul 1000 "{}"]
    by (auto simp: sample_usage_msg_def intro: ledger_reach.step)
  then have "ledger_reach ?home sample_mul 1000 (sample_ledger [sample_new] [sample_reported], {?k})"
    using ledger_step.reported [OF sample_ledger_steps(2), of ?home sample_mul 1000 "{}"]
    by (auto simp: sample_status_def intro: ledger_reach.step)
  then have "ledger_reach ?home sample_mul 1000 (sample_ledger [sample_new] [sample_reported], {})"
    using ledger_step.settles [OF _ sample_ledger_steps(3), of ?home "{?k}"]
    by (auto simp: sample_usage_env_def intro: ledger_reach.step)
  then have "ledger_reach ?home sample_mul 1000 (sample_ledger [sample_attached] [sample_reported], {?k})"
    using ledger_step.attaches [OF _ sample_ledger_steps(4), of ?home sample_mul 1000 "{}"]
    by (auto intro: ledger_reach.step)
  then have R: "ledger_reach ?home sample_mul 1000 (sample_ledger [sample_settled] [sample_reported], {})"
    using ledger_step.settles [OF _ sample_ledger_steps(5), of ?home "{?k}"]
    by (auto simp: sample_usage_env_def intro: ledger_reach.step)
  have r: "sample_settled \<in> set (ul_rows (sample_ledger [sample_settled] [sample_reported]))" by (simp add: sample_ledger_def)
  have f: "mu_wamid sample_settled = ''w1''" "\<not> mu_incoming sample_settled" "mu_state sample_settled = StatePriced"
    "mu_cost sample_settled = Some (1/16)"
    by (simp_all add: sample_settled_def sample_attached_def sample_new_def sample_row_def)
  have a: "sc_latest (scan_events (events_of (row_key sample_settled) (sample_ledger [sample_settled] [sample_reported]))) =
      Some \<lparr> pg_billable = True, pg_model = ''PMP'', pg_category = ''MARKETING'' \<rparr>"
    by code_simp
  have "mu_billable sample_settled = Some True"
    using no_event_is_lost [OF R r] f a by (simp add: Let_def)
  with R f show ?thesis by simp
qed

section \<open>What the integrity job settles again\<close>

text \<open>
  The rows \<open>sweepPending\<close> settles again, and the ones \<open>Reprice\<close> does. A row that is already priced is in
  neither: when the settlement after its next pricing event fails, the event stays unread, for the
  webhook does not settle again on a duplicate.
\<close>

definition sweep_picks :: "time \<Rightarrow> int \<Rightarrow> ledger \<Rightarrow> usage_row \<Rightarrow> bool" where
  "sweep_picks now wait d r \<longleftrightarrow> mu_state r = StatePending \<and> mu_wamid r \<noteq> ''''
     \<and> (mu_sent_at r \<le> now - wait
        \<or> (\<exists>e \<in> set (events_of (row_key r) d). ev_status e = ''delivered'' \<or> ev_status e = ''read'' \<or> ev_status e = ''failed''))"

definition reprice_picks :: "uuid \<Rightarrow> usage_row \<Rightarrow> bool" where
  "reprice_picks org r \<longleftrightarrow> mu_org r = org \<and> mu_wamid r \<noteq> ''''
     \<and> (mu_state r = StateNoRate \<or> mu_state r = StateAwaiting \<or> mu_state r = StateUnconfirmed)"

definition late_status :: status_event where
  "late_status = sample_status\<lparr>st_status := ''delivered'', st_at := 120,
     st_pricing := Some \<lparr> pg_billable = False, pg_model = ''PMP'', pg_category = ''SERVICE'' \<rparr>\<rparr>"

lemma stale_price_is_not_swept:
  "let d = snd (record_status_event sample_usage_env late_status (sample_ledger [sample_settled] [sample_reported])); r = sample_settled;
       s = compute sample_mul r (events_of (row_key r) d) None 140 1000
   in mu_state r = StatePriced \<and> se_state s = StateNotBillable
      \<and> \<not> sweep_picks 100000 1000 d r \<and> \<not> reprice_picks 1 r
      \<and> record_status_usage sample_usage_env sample_mul 1000 late_status d = (None, d)"
  by code_simp

section \<open>The switches\<close>

text \<open>
  The server switch is a configuration value, the panel switch of an organization a setting, read
  through a cache that each server instance keeps for fifteen seconds (\<open>recording.go\<close>). The answer of
  \<open>EnabledFor\<close> is what the operations above ask as \<^const>\<open>ue_on\<close>.
\<close>

record recorder =
  rc_server :: bool
  rc_cache :: "uuid \<Rightarrow> (bool \<times> time) option"

definition recording_cache_ttl :: time where
  "recording_cache_ttl = 15 * 1000000000"

definition recording_state :: "jsonb \<Rightarrow> bool" where
  "recording_state settings =
     (case as_obj (jget settings ''whatsapp_usage_recording'') of None \<Rightarrow> True
      | Some raw \<Rightarrow> (case as_bool (jget raw ''enabled'') of Some v \<Rightarrow> v | None \<Rightarrow> True))"

definition remember :: "time \<Rightarrow> uuid \<Rightarrow> bool \<Rightarrow> recorder \<Rightarrow> recorder" where
  "remember now org on r = r\<lparr>rc_cache := (rc_cache r)(org \<mapsto> (on, now + recording_cache_ttl))\<rparr>"

text \<open>\<open>settings\<close> is what the read of the organization gives, \<^const>\<open>None\<close> when it fails.\<close>

definition enabled_for :: "time \<Rightarrow> jsonb option \<Rightarrow> uuid \<Rightarrow> recorder \<Rightarrow> bool \<times> recorder" where
  "enabled_for now settings org r =
     (if \<not> rc_server r then (False, r)
      else case rc_cache r org of
        Some (on, until) \<Rightarrow>
          if now < until then (on, r)
          else (case settings of None \<Rightarrow> (on, r) | Some s \<Rightarrow> (recording_state s, remember now org (recording_state s) r))
      | None \<Rightarrow> (case settings of None \<Rightarrow> (True, r) | Some s \<Rightarrow> (recording_state s, remember now org (recording_state s) r)))"

definition set_recording :: "time \<Rightarrow> bool \<Rightarrow> string \<Rightarrow> uuid \<Rightarrow> bool \<Rightarrow> jsonb \<times> recorder \<Rightarrow> (jsonb \<times> recorder) option" where
  "set_recording now ok stamp org on x = (case x of (settings, r) \<Rightarrow>
     if \<not> ok then None
     else Some (jput ''whatsapp_usage_recording'' (AObj [(''enabled'', ABool on), (''changed_at'', AStr stamp)]) settings,
                remember now org on r))"

text \<open>A flip takes effect at once where it was made, and elsewhere when the cached answer has expired.\<close>

lemma recording_state_flip:
  "recording_state (jput ''whatsapp_usage_recording'' (AObj [(''enabled'', ABool on), (''changed_at'', AStr stamp)]) settings) = on"
  by (simp add: recording_state_def) (simp add: jget_def)

lemma flip_takes_effect:
  assumes "set_recording now True stamp org on (settings, r) = Some (settings', r')"
  shows "fst (enabled_for t (Some settings') org r') \<longleftrightarrow> rc_server r \<and> on"
    and "rc_cache other org = Some (old, until) \<Longrightarrow> until \<le> t \<Longrightarrow>
      fst (enabled_for t (Some settings') org other) \<longleftrightarrow> rc_server other \<and> on"
  using assms
  by (auto simp: set_recording_def enabled_for_def remember_def recording_state_flip split: if_splits)

end
