(* ===== verification/Attendance_Desk.thy ===== *)
theory Attendance_Desk
  imports Transfers
begin

text \<open>
  The desk of the human attendances: what an agent or a supervisor does with one
  (\<open>CreateAgentTransfer\<close>, \<open>AssignAgentTransfer\<close>, \<open>UnassignTransfer\<close>, \<open>PickNextTransfer\<close>,
  \<open>ResumeFromTransfer\<close>, \<open>closeAttendance\<close> of \<open>internal/handlers/agent_transfers.go\<close>, the release of a
  contact in \<open>contact_status.go\<close>) and the redistribution of the attendances of an agent who is away
  (\<open>reassign.go\<close>). A handler is a function of the request, with the statements of other processes
  before each of its own. Broadcasts, webhooks and the body of the answer are left out, as is the sales
  opportunity that follows the contact. \<open>tw_audit\<close> holds the distribution events and the ownership
  history.
\<close>

section \<open>What the handlers ask\<close>

text \<open>
  \<open>dn_contact\<close> is the contact row without the columns the world keeps; \<open>dn_locked\<close> are the rows other
  transactions hold a lock on, which \<open>SKIP LOCKED\<close> passes over.
\<close>

record desk_env =
  dn_t :: tenv
  dn_parse :: "string \<Rightarrow> uuid option"
  dn_contact :: "uuid \<Rightarrow> contact option"
  dn_can_interact :: "uuid \<Rightarrow> uuid \<Rightarrow> contact \<Rightarrow> tworld \<Rightarrow> bool"
  dn_user :: "uuid \<Rightarrow> uuid \<Rightarrow> bool"
  dn_ineligible :: "uuid \<Rightarrow> uuid \<Rightarrow> tworld \<Rightarrow> bool"
  dn_team :: "uuid \<Rightarrow> uuid \<Rightarrow> bool"
  dn_team_active :: "uuid \<Rightarrow> uuid \<Rightarrow> bool"
  dn_can_pickup :: "uuid \<Rightarrow> uuid \<Rightarrow> bool"
  dn_allow_pickup :: "uuid \<Rightarrow> bool option"
  dn_members :: "uuid \<Rightarrow> uuid list"
  dn_locked :: "tworld \<Rightarrow> uuid \<Rightarrow> bool"
  dn_assign_excluding :: "(uuid \<Rightarrow> uuid \<Rightarrow> uuid \<Rightarrow> tworld \<Rightarrow> uuid option) option"
  dn_away_longer :: "uuid \<Rightarrow> uuid \<Rightarrow> tworld \<Rightarrow> bool"
  dn_customer_waiting :: "uuid \<Rightarrow> tworld \<Rightarrow> bool"
  dn_tolerant :: "uuid \<Rightarrow> bool"

datatype desk_answer =
  DeskOk | DeskBadRequest | DeskNotFound | DeskForbidden | DeskConflict | DeskFailed | DeskQueueEmpty

text \<open>A read of a contact in its organization, with the columns of the world.\<close>

definition contact_row :: "desk_env \<Rightarrow> uuid \<Rightarrow> tworld \<Rightarrow> contact option" where
  "contact_row N i w = map_option (\<lambda>c. c\<lparr>ct_assigned := tw_assigned w i, ct_team := tw_team w i\<rparr>) (dn_contact N i)"

definition find_contact :: "desk_env \<Rightarrow> uuid \<Rightarrow> uuid \<Rightarrow> tworld \<Rightarrow> contact option" where
  "find_contact N org i w = (case contact_row N i w of None \<Rightarrow> None | Some c \<Rightarrow> if ct_org c = org then Some c else None)"

text \<open>A statement that reads: the others run first, and it may fail.\<close>

definition reading :: "desk_env \<Rightarrow> (tworld \<Rightarrow> 'a option) \<Rightarrow> tworld \<Rightarrow> 'a option \<times> tworld" where
  "reading N f w0 = (let w = te_others (dn_t N) w0 in (if te_ok (dn_t N) w then f w else None, w))"

definition find_transfer :: "uuid \<Rightarrow> uuid \<Rightarrow> tworld \<Rightarrow> agent_transfer option" where
  "find_transfer org i w = find (\<lambda>t. tx_id t = i \<and> tx_org t = org \<and> \<not> tx_deleted t) (tw_rows w)"

section \<open>Closing\<close>

text \<open>
  \<open>releaseContactTx\<close>: what it clears is decided by the contact it was given, which was read earlier.
\<close>

definition release_contact :: "contact \<Rightarrow> contact_status \<Rightarrow> tworld \<Rightarrow> tworld" where
  "release_contact c status w =
     (let w1 = (if ct_assigned c \<noteq> None then w\<lparr>tw_assigned := (tw_assigned w)(ct_id c := None)\<rparr> else w);
          w2 = (if ct_team c \<noteq> None then w1\<lparr>tw_team := (tw_team w1)(ct_id c := None)\<rparr> else w1)
      in if status = CResolved then w2 else w2\<lparr>tw_cstatus := (tw_cstatus w2)(ct_id c := CResolved)\<rparr>)"

definition clear_tracking :: "uuid \<Rightarrow> tworld \<Rightarrow> tworld" where
  "clear_tracking i w = w\<lparr>tw_chatbot_at := (tw_chatbot_at w)(i := None), tw_reminded := (tw_reminded w)(i := False)\<rparr>"

text \<open>The close and the release are one transaction; the row is found by its id alone.\<close>

definition close_attendance ::
  "desk_env \<Rightarrow> agent_transfer \<Rightarrow> (contact \<times> contact_status) option \<Rightarrow> (agent_transfer \<Rightarrow> agent_transfer) \<Rightarrow> uuid option \<Rightarrow>
   tworld \<Rightarrow> transfer_error option \<times> tworld" where
  "close_attendance N t who upd actor w0 =
     (let w = te_others (dn_t N) w0 in
      if \<not> te_ok (dn_t N) w then (Some DatabaseError, w)
      else
        (let w1 = w\<lparr>tw_rows := map (\<lambda>r. if tx_id r = tx_id t \<and> \<not> tx_deleted r then upd r else r) (tw_rows w)\<rparr>;
             w2 = (case who of None \<Rightarrow> w1 | Some (c, st) \<Rightarrow> clear_tracking (ct_id c) (release_contact c st w1))
         in (None, audit_distribution actor (tx_id t) ''closed'' (tx_agent t) None w2)))"

definition resumed :: "time \<Rightarrow> uuid option \<Rightarrow> agent_transfer \<Rightarrow> agent_transfer" where
  "resumed now by_user r = r\<lparr>tx_status := TResumed, tx_resumed_at := Some now, tx_resumed_by := by_user\<rparr>"

definition resume_from_transfer :: "desk_env \<Rightarrow> uuid \<Rightarrow> uuid \<Rightarrow> uuid \<Rightarrow> tworld \<Rightarrow> desk_answer \<times> tworld" where
  "resume_from_transfer N user org i w =
     (case reading N (find_transfer org i) w of
        (None, w1) \<Rightarrow> (DeskNotFound, w1)
      | (Some t, w1) \<Rightarrow>
          if tx_status t \<noteq> TActive then (DeskBadRequest, w1)
          else case reading N (\<lambda>v. map_option (\<lambda>c. (c, tw_cstatus v (tx_contact t))) (contact_row N (tx_contact t) v)) w1 of (who, w2) \<Rightarrow>
            (case close_attendance N t who (resumed (te_now (dn_t N) w2) (Some user)) (Some user) w2 of
               (Some e, w3) \<Rightarrow> (DeskFailed, w3)
             | (None, w3) \<Rightarrow> (DeskOk, w3)))"

text \<open>\<open>closeActiveAttendanceForContact\<close>, for the resolve action on a loaded contact.\<close>

definition resolve_contact :: "desk_env \<Rightarrow> contact \<times> contact_status \<Rightarrow> uuid option \<Rightarrow> tworld \<Rightarrow> transfer_error option \<times> tworld" where
  "resolve_contact N who actor w0 =
     (let w = te_others (dn_t N) w0; c = fst who in
      if \<not> te_ok (dn_t N) w then (Some DatabaseError, w)
      else case sort_key latest_first (filter (live_of (ct_org c) (ct_id c)) (tw_rows w)) of
        t # _ \<Rightarrow> close_attendance N t (Some who) (resumed (te_now (dn_t N) w) actor) actor w
      | [] \<Rightarrow>
          (let w1 = te_others (dn_t N) w in
           if \<not> te_ok (dn_t N) w1 then (Some DatabaseError, w1) else (None, release_contact c (snd who) w1)))"

section \<open>Creating\<close>

record create_request =
  cq_contact :: uuid
  cq_account :: string
  cq_agent :: "string option"
  cq_team :: "string option"
  cq_notes :: string
  cq_source :: "transfer_source option"

text \<open>An optional id of a request: absent or empty is no id.\<close>

definition given :: "string option \<Rightarrow> string option" where
  "given x = (case x of Some [] \<Rightarrow> None | _ \<Rightarrow> x)"

text \<open>The team of the request, or the answer that refuses it.\<close>

definition wanted_team :: "desk_env \<Rightarrow> uuid \<Rightarrow> string option \<Rightarrow> desk_answer + uuid option" where
  "wanted_team N org x =
     (case given x of None \<Rightarrow> Inr None
      | Some s \<Rightarrow> (case dn_parse N s of None \<Rightarrow> Inl DeskBadRequest
          | Some t \<Rightarrow> if dn_team_active N org t then Inr (Some t) else Inl DeskBadRequest))"

text \<open>An explicitly chosen agent, or the answer that refuses it.\<close>

definition wanted_agent :: "desk_env \<Rightarrow> uuid \<Rightarrow> string \<Rightarrow> tworld \<Rightarrow> desk_answer + uuid" where
  "wanted_agent N org s w =
     (case dn_parse N s of None \<Rightarrow> Inl DeskBadRequest
      | Some u \<Rightarrow> if \<not> dn_user N org u then Inl DeskNotFound
          else if dn_ineligible N org u w then Inl DeskBadRequest else Inr u)"

definition create_agent_transfer :: "desk_env \<Rightarrow> uuid \<Rightarrow> uuid \<Rightarrow> create_request \<Rightarrow> tworld \<Rightarrow> desk_answer \<times> tworld" where
  "create_agent_transfer N user org q w =
     (let E = dn_t N in
      case reading N (find_contact N org (cq_contact q)) w of
        (None, w1) \<Rightarrow> (DeskNotFound, w1)
      | (Some c, w1) \<Rightarrow>
         (case has_active E org (ct_id c) w1 of
            (True, w2) \<Rightarrow> (DeskConflict, w2)
          | (False, w2) \<Rightarrow>
             (let settings = te_settings E org (cq_account q) in
              case wanted_team N org (cq_team q) of
                Inl a \<Rightarrow> (a, w2)
              | Inr team \<Rightarrow>
                 (case (case given (cq_agent q) of
                          Some s \<Rightarrow> (case wanted_agent N org s w2 of Inl a \<Rightarrow> Inl a | Inr u \<Rightarrow> Inr (Some u))
                        | None \<Rightarrow>
                           (case (team, te_assign_team E) of
                              (Some t, Some f) \<Rightarrow> Inr (f t org w2)
                            | _ \<Rightarrow>
                               (case (settings, ct_assigned c) of
                                  (Some s, Some u) \<Rightarrow> Inr (if st_assign_same s \<and> te_eligible E org u w2 then Some u else None)
                                | _ \<Rightarrow> Inr None))) of
                    Inl a \<Rightarrow> (a, w2)
                  | Inr agent \<Rightarrow>
                     (let acct = \<lparr>ac_org = org, ac_name = cq_account q\<rparr>;
                          source = (case cq_source q of None \<Rightarrow> SrcManual | Some s \<Rightarrow> s);
                          t = (new_transfer E acct c source agent team (cq_notes q) [] w2)\<lparr>tx_by_user := Some user\<rparr>
                      in case save_and_finalize E t acct c settings True w2 of
                           (Some AlreadyActive, w3) \<Rightarrow> (DeskConflict, w3)
                         | (Some e, w3) \<Rightarrow> (DeskFailed, w3)
                         | (None, w3) \<Rightarrow> (DeskOk, w3))))))"

section \<open>Assigning and unassigning\<close>

text \<open>\<open>sendTransferConflict\<close>\<close>

definition transfer_conflict :: "uuid \<Rightarrow> uuid \<Rightarrow> tworld \<Rightarrow> desk_answer \<times> tworld" where
  "transfer_conflict user i w = (DeskConflict, audit_distribution (Some user) i ''conflict'' None None w)"

text \<open>
  The agent an assignment asks for. With write permission the absent and the empty agent both mean no
  agent; without it the absent one means the caller, and the empty one means no agent.
\<close>

definition target_agent :: "desk_env \<Rightarrow> uuid \<Rightarrow> uuid \<Rightarrow> bool \<Rightarrow> agent_transfer \<Rightarrow> string option \<Rightarrow> tworld \<Rightarrow> desk_answer + uuid option" where
  "target_agent N user org may_write t x w =
     (case given x of
        Some s \<Rightarrow> if \<not> may_write then Inl DeskForbidden
          else (case wanted_agent N org s w of Inl a \<Rightarrow> Inl a | Inr u \<Rightarrow> Inr (Some u))
      | None \<Rightarrow>
          if x = None \<and> \<not> may_write
          then (if tx_agent t \<noteq> None \<and> tx_agent t \<noteq> Some user then Inl DeskConflict else Inr (Some user))
          else Inr None)"

definition target_team :: "desk_env \<Rightarrow> uuid \<Rightarrow> bool \<Rightarrow> string option \<Rightarrow> desk_answer + uuid option option" where
  "target_team N org may_write x =
     (case x of None \<Rightarrow> Inr None
      | Some s \<Rightarrow> if \<not> may_write then Inl DeskForbidden
          else if s = [] then Inr (Some None)
          else (case dn_parse N s of None \<Rightarrow> Inl DeskBadRequest
            | Some t \<Rightarrow> if dn_team N org t then Inr (Some (Some t)) else Inl DeskBadRequest))"

text \<open>The columns of the update; the pickup is the one of the row that was read.\<close>

definition assigned_row :: "agent_transfer \<Rightarrow> sla \<Rightarrow> uuid option \<Rightarrow> uuid option option \<Rightarrow> agent_transfer \<Rightarrow> agent_transfer" where
  "assigned_row t s target team r =
     (let r1 = r\<lparr>tx_agent := target\<rparr>;
          r2 = (case team of None \<Rightarrow> r1 | Some x \<Rightarrow> r1\<lparr>tx_team := x\<rparr>)
      in if target \<noteq> None \<and> sl_picked_up_at (tx_sla t) = None
         then (let r3 = r2\<lparr>tx_sla := (tx_sla r2)\<lparr>sl_picked_up_at := sl_picked_up_at s\<rparr>\<rparr>
               in if sl_breached s then r3\<lparr>tx_sla := (tx_sla r3)\<lparr>sl_breached := True, sl_breached_at := sl_breached_at s\<rparr>\<rparr> else r3)
         else r2)"

text \<open>The contact is the one loaded with the transfer.\<close>

definition carteira_after :: "tenv \<Rightarrow> uuid \<Rightarrow> contact option \<Rightarrow> uuid option \<Rightarrow> uuid option \<Rightarrow> tworld \<Rightarrow> tworld" where
  "carteira_after E org read previous target w =
     (case read of None \<Rightarrow> w | Some c \<Rightarrow>
      case target of
        Some u \<Rightarrow> (case te_settings E org [] of
            Some s \<Rightarrow> if st_assign_same s \<and> ct_assigned c = None then assign_contact c u w else w
          | None \<Rightarrow> w)
      | None \<Rightarrow> if previous \<noteq> None \<and> ct_assigned c = previous then w\<lparr>tw_assigned := (tw_assigned w)(ct_id c := None)\<rparr> else w)"

definition assign_agent_transfer ::
  "desk_env \<Rightarrow> uuid \<Rightarrow> uuid \<Rightarrow> uuid \<Rightarrow> string option \<Rightarrow> string option \<Rightarrow> tworld \<Rightarrow> desk_answer \<times> tworld" where
  "assign_agent_transfer N user org i agent_arg team_arg w =
     (let E = dn_t N; may_write = te_can_write_transfers E user org in
      case reading N (find_transfer org i) w of
        (None, w1) \<Rightarrow> (DeskNotFound, w1)
      | (Some t, w1) \<Rightarrow>
          if tx_status t \<noteq> TActive then (DeskBadRequest, w1)
          else case reading N (find_contact N org (tx_contact t)) w1 of
            (None, w2) \<Rightarrow> (DeskNotFound, w2)
          | (Some c, w2) \<Rightarrow>
              if \<not> dn_can_interact N user org c w2 then (DeskForbidden, w2)
              else case target_agent N user org may_write t agent_arg w2 of
                Inl DeskConflict \<Rightarrow> transfer_conflict user i w2
              | Inl a \<Rightarrow> (a, w2)
              | Inr target \<Rightarrow>
                 (case target_team N org may_write team_arg of
                    Inl a \<Rightarrow> (a, w2)
                  | Inr team \<Rightarrow>
                     (let s = update_sla_on_pickup (te_now E w2) (tx_sla t) in
                      case move_transfer E (tx_id t) (tx_agent t) (assigned_row t s target team) w2 of
                        (Inl e, w3) \<Rightarrow> (DeskFailed, w3)
                      | (Inr False, w3) \<Rightarrow> transfer_conflict user i w3
                      | (Inr True, w3) \<Rightarrow>
                          (let event = (if target = None then ''released''
                                 else if tx_agent t = None \<and> target = Some user then ''claimed'' else ''assigned'');
                               w4 = audit_distribution (Some user) i event (tx_agent t) target w3
                           in (DeskOk, carteira_after E org (contact_row N (tx_contact t) w1) (tx_agent t) target w4)))))"

definition unassign_transfer :: "desk_env \<Rightarrow> uuid \<Rightarrow> uuid \<Rightarrow> uuid \<Rightarrow> tworld \<Rightarrow> desk_answer \<times> tworld" where
  "unassign_transfer N user org i w =
     (let E = dn_t N in
      if \<not> te_can_write_transfers E user org then (DeskForbidden, w)
      else case reading N (find_transfer org i) w of
        (None, w1) \<Rightarrow> (DeskNotFound, w1)
      | (Some t, w1) \<Rightarrow>
          if tx_status t \<noteq> TActive then (DeskBadRequest, w1)
          else case reading N (find_contact N org (tx_contact t)) w1 of
            (None, w2) \<Rightarrow> (DeskNotFound, w2)
          | (Some c, w2) \<Rightarrow>
              if \<not> dn_can_interact N user org c w2 then (DeskForbidden, w2)
              else (case move_transfer E (tx_id t) (tx_agent t) (\<lambda>r. r\<lparr>tx_agent := None\<rparr>) w2 of
                  (Inl e, w3) \<Rightarrow> (DeskFailed, w3)
                | (Inr False, w3) \<Rightarrow> transfer_conflict user i w3
                | (Inr True, w3) \<Rightarrow>
                    (let w4 = audit_distribution (Some user) i ''released'' (tx_agent t) None w3 in
                     (DeskOk, if tx_agent t \<noteq> None \<and> tw_assigned w4 (tx_contact t) = tx_agent t
                        then w4\<lparr>tw_assigned := (tw_assigned w4)(tx_contact t := None)\<rparr> else w4))))"

section \<open>Picking from the queue\<close>

definition oldest_first :: "agent_transfer \<Rightarrow> int list" where
  "oldest_first t = [tx_at t, int (tx_id t)]"

text \<open>
  The team filter of the query, or the answer that refuses it. A team that is given but does not parse
  adds no condition.
\<close>

definition team_filter :: "desk_env \<Rightarrow> uuid \<Rightarrow> bool \<Rightarrow> string \<Rightarrow> desk_answer + (uuid option \<Rightarrow> bool)" where
  "team_filter N user full s =
     (if s \<noteq> [] then
        (if s = ''general'' then Inr (\<lambda>t. t = None)
         else case dn_parse N s of
           Some i \<Rightarrow> if \<not> full \<and> i \<notin> set (dn_members N user) then Inl DeskForbidden else Inr (\<lambda>t. t = Some i)
         | None \<Rightarrow> Inr (\<lambda>_. True))
      else if \<not> full then Inr (\<lambda>t. case t of None \<Rightarrow> True | Some i \<Rightarrow> i \<in> set (dn_members N user))
      else Inr (\<lambda>_. True))"

definition waiting_for :: "desk_env \<Rightarrow> uuid \<Rightarrow> (uuid option \<Rightarrow> bool) \<Rightarrow> tworld \<Rightarrow> agent_transfer list" where
  "waiting_for N org in_team w =
     sort_key oldest_first (filter (\<lambda>t. tx_org t = org \<and> live t \<and> tx_agent t = None \<and> in_team (tx_team t)
       \<and> \<not> dn_locked N w (tx_id t)) (tw_rows w))"

definition picked_row :: "time \<Rightarrow> uuid \<Rightarrow> agent_transfer \<Rightarrow> agent_transfer" where
  "picked_row now user t = t\<lparr>tx_agent := Some user, tx_by_user := (if tx_by_user t = None then Some user else tx_by_user t),
     tx_sla := update_sla_on_pickup now (tx_sla t)\<rparr>"

text \<open>
  The transaction holds the lock of its row from the read to the commit, so it is one step; when one of
  its writes or the commit fails, nothing of it stays.
\<close>

definition pick_next_transfer :: "desk_env \<Rightarrow> uuid \<Rightarrow> uuid \<Rightarrow> string \<Rightarrow> tworld \<Rightarrow> desk_answer \<times> agent_transfer option \<times> tworld" where
  "pick_next_transfer N user org team_arg w0 =
     (let E = dn_t N; full = te_can_write_transfers E user org in
      if \<not> full \<and> dn_allow_pickup N org = Some False then (DeskForbidden, None, w0)
      else if \<not> full \<and> \<not> dn_can_pickup N user org then (DeskForbidden, None, w0)
      else if \<not> te_eligible E org user w0 then (DeskForbidden, None, w0)
      else case team_filter N user full team_arg of
        Inl a \<Rightarrow> (a, None, w0)
      | Inr in_team \<Rightarrow>
          (let w = te_others E w0 in
           if \<not> te_ok E w then (DeskQueueEmpty, None, w)
           else case waiting_for N org in_team w of
             [] \<Rightarrow> (DeskQueueEmpty, None, w)
           | t # _ \<Rightarrow>
               (let t' = picked_row (te_now E w) user t;
                    w1 = w\<lparr>tw_rows := map (\<lambda>r. if tx_id r = tx_id t then t' else r) (tw_rows w)\<rparr>;
                    w2 = (case te_settings E org [] of
                            Some s \<Rightarrow> if st_assign_same s \<and> dn_contact N (tx_contact t) \<noteq> None \<and> tw_assigned w1 (tx_contact t) = None
                              then w1\<lparr>tw_assigned := (tw_assigned w1)(tx_contact t := Some user)\<rparr> else w1
                          | None \<Rightarrow> w1)
                in if \<not> te_ok E w2 then (DeskFailed, None, w)
                   else (DeskOk, Some t', audit_distribution (Some user) (tx_id t) ''claimed'' None (Some user) w2))))"

section \<open>Redistributing the attendances of an agent who is away\<close>

definition reassign_away_transfer :: "desk_env \<Rightarrow> agent_transfer \<Rightarrow> uuid \<Rightarrow> string \<Rightarrow> tworld \<Rightarrow> bool \<times> tworld" where
  "reassign_away_transfer N t away event w =
     (if tx_agent t \<noteq> Some away then (False, w)
      else
        (let target = (case (tx_team t, dn_assign_excluding N) of (Some team, Some f) \<Rightarrow> f team (tx_org t) away w | _ \<Rightarrow> None)
         in case move_transfer (dn_t N) (tx_id t) (Some away) (\<lambda>r. r\<lparr>tx_agent := target\<rparr>) w of
              (Inr True, w1) \<Rightarrow> (True, audit_distribution None (tx_id t)
                 (if target = None then ''returned_away_timeout'' else event) (Some away) target w1)
            | (_, w1) \<Rightarrow> (False, w1)))"

definition reevaluate_on_customer_reply :: "desk_env \<Rightarrow> uuid \<Rightarrow> uuid \<Rightarrow> tworld \<Rightarrow> tworld" where
  "reevaluate_on_customer_reply N org contact w =
     (if \<not> dn_tolerant N org then w
      else case active_transfer_for (dn_t N) org contact w of
        (None, w1) \<Rightarrow> w1
      | (Some t, w1) \<Rightarrow>
          (case tx_agent t of
             None \<Rightarrow> w1
           | Some u \<Rightarrow>
               if \<not> dn_away_longer N org u w1 \<or> \<not> dn_customer_waiting N (tx_id t) w1 then w1
               else snd (reassign_away_transfer N t u ''reassigned_customer_waiting'' w1)))"

text \<open>One organization of \<open>SweepAway\<close>: the agents away too long, with the attendances waiting for each.\<close>

fun sweep_each :: "desk_env \<Rightarrow> (uuid \<times> uuid) list \<Rightarrow> tworld \<Rightarrow> nat \<times> tworld" where
  "sweep_each N [] w = (0, w)"
| "sweep_each N ((agent, i) # xs) w =
     (case reading N (\<lambda>v. find (\<lambda>t. tx_id t = i \<and> \<not> tx_deleted t) (tw_rows v)) w of
        (None, w1) \<Rightarrow> sweep_each N xs w1
      | (Some t, w1) \<Rightarrow>
          (case reassign_away_transfer N t agent ''reassigned_away_timeout'' w1 of (b, w2) \<Rightarrow>
            (case sweep_each N xs w2 of (n, w3) \<Rightarrow> ((if b then n + 1 else n), w3))))"

section \<open>Nobody loses an attendance to someone who may not take it\<close>

text \<open>
  A row no other process touches. What a handler may do to it is then seen at the end, however the other
  rows change in between.
\<close>

definition only_we_touch :: "tenv \<Rightarrow> agent_transfer \<Rightarrow> bool" where
  "only_we_touch E r \<longleftrightarrow> (\<forall>w. distinct (map tx_id (tw_rows w)) \<longrightarrow> r \<in> set (tw_rows w) \<longrightarrow>
     r \<in> set (tw_rows (te_others E w)) \<and> distinct (map tx_id (tw_rows (te_others E w))))"

definition kept :: "agent_transfer \<Rightarrow> tworld \<Rightarrow> bool" where
  "kept r w \<longleftrightarrow> r \<in> set (tw_rows w) \<and> distinct (map tx_id (tw_rows w))"

lemma kept_update: "kept r (w\<lparr>tw_rows := rs\<rparr>) \<longleftrightarrow> r \<in> set rs \<and> distinct (map tx_id rs)"
  by (simp add: kept_def)

lemma kept_others: "only_we_touch E r \<Longrightarrow> kept r w \<Longrightarrow> kept r (te_others E w)"
  by (auto simp: only_we_touch_def kept_def)

lemma kept_rows [simp]:
  "kept r (w\<lparr>tw_assigned := x\<rparr>) = kept r w" "kept r (audit_distribution actor i event from to_agent w) = kept r w"
  "kept r (w\<lparr>tw_sessions_ended := y\<rparr>) = kept r w"
  by (simp_all add: kept_def audit_distribution_def)

lemma kept_assign [simp]: "kept r (assign_contact c u w) = kept r w"
  by (simp add: assign_contact_def)

lemma kept_reading: "reading N f w = (x, w') \<Longrightarrow> only_we_touch (dn_t N) r \<Longrightarrow> kept r w \<Longrightarrow> kept r w'"
  by (auto simp: reading_def Let_def kept_others)

lemma kept_carteira [simp]: "kept r (carteira_after E org c p t w) = kept r w"
  by (simp add: carteira_after_def split: option.split)

text \<open>A compare-and-set on another owner leaves the row.\<close>

lemma kept_move:
  assumes "move_transfer E i from upd w = (x, w')" "only_we_touch E r" "kept r w" "tx_agent r \<noteq> from" "\<And>q. tx_id (upd q) = tx_id q"
  shows "kept r w'"
proof -
  let ?v = "te_others E w"
  let ?f = "\<lambda>q. if tx_id q = i \<and> live q \<and> tx_agent q = from then upd q else q"
  have v: "kept r ?v" by (rule kept_others [OF assms(2,3)])
  have "map tx_id (map ?f (tw_rows ?v)) = map tx_id (tw_rows ?v)" using assms(5) by simp
  then have "distinct (map tx_id (map ?f (tw_rows ?v)))" using v by (simp only: kept_def)
  moreover have "r \<in> set (map ?f (tw_rows ?v))"
    using v assms(4) by (auto simp: kept_def intro!: image_eqI [of _ _ r])
  ultimately have "kept r (?v\<lparr>tw_rows := map ?f (tw_rows ?v)\<rparr>)" unfolding kept_update by blast
  then show ?thesis using assms(1) v
    by (auto simp: move_transfer_def update_where_def Let_def split: if_splits)
qed

lemma assigned_row_id: "tx_id (assigned_row t s target team q) = tx_id q"
  by (simp add: assigned_row_def Let_def split: option.split)

lemma kept_assign_transfer:
  assumes "assign_agent_transfer N user org i agent_arg team_arg w = (x, w')" "only_we_touch (dn_t N) r" "kept r w"
    "tx_agent r = Some owner" "owner \<noteq> user" "\<not> te_can_write_transfers (dn_t N) user org" "agent_arg \<noteq> Some []"
  shows "kept r w'"
proof -
  obtain y w1 where r1: "reading N (find_transfer org i) w = (y, w1)" by (metis surj_pair)
  have w1: "kept r w1" by (rule kept_reading [OF r1 assms(2,3)])
  show ?thesis
  proof (cases y)
    case None
    then show ?thesis using assms(1) r1 w1 by (simp add: assign_agent_transfer_def Let_def)
  next
    case (Some t)
    obtain z w2 where r2: "reading N (find_contact N org (tx_contact t)) w1 = (z, w2)" by (metis surj_pair)
    have w2: "kept r w2" by (rule kept_reading [OF r2 assms(2) w1])
    have target: "target_agent N user org False t agent_arg w2 = Inr target \<Longrightarrow> tx_agent t \<noteq> tx_agent r" for target
      using assms(4,5,7) by (auto simp: target_agent_def given_def split: option.splits list.splits if_splits)
    define go where "go tg tm = move_transfer (dn_t N) (tx_id t) (tx_agent t)
      (assigned_row t (update_sla_on_pickup (te_now (dn_t N) w2) (tx_sla t)) tg tm) w2" for tg tm
    define m where "m tg tm = fst (go tg tm)" for tg tm
    define w3 where "w3 tg tm = snd (go tg tm)" for tg tm
    have m: "move_transfer (dn_t N) (tx_id t) (tx_agent t) (assigned_row t (update_sla_on_pickup (te_now (dn_t N) w2) (tx_sla t)) tg tm) w2
      = (m tg tm, w3 tg tm)" for tg tm
      by (simp add: m_def w3_def go_def)
    show ?thesis
    proof (cases "target_agent N user org False t agent_arg w2")
      case (Inl a)
      then show ?thesis using assms(1,6) r1 r2 Some w1 w2
        by (auto simp: assign_agent_transfer_def Let_def transfer_conflict_def split: option.splits if_splits desk_answer.splits)
    next
      case (Inr target)
      have "kept r (w3 target tm)" for tm
        by (rule kept_move [OF m assms(2) w2]) (use target Inr in \<open>auto simp: assigned_row_id\<close>)
      then show ?thesis using assms(1,6) r1 r2 Some w1 w2 Inr m
        by (auto simp: assign_agent_transfer_def Let_def transfer_conflict_def split: option.splits if_splits sum.splits bool.splits)
    qed
  qed
qed

lemma kept_pick:
  assumes "pick_next_transfer N user org team_arg w = (x, p, w')" "only_we_touch (dn_t N) r" "kept r w" "tx_agent r = Some owner"
  shows "kept r w'"
proof -
  let ?E = "dn_t N"
  let ?v = "te_others ?E w"
  have v: "kept r ?v" by (rule kept_others [OF assms(2,3)])
  have picked: "kept r (?v\<lparr>tw_rows := map (\<lambda>q. if tx_id q = tx_id t then picked_row (te_now ?E ?v) user t else q) (tw_rows ?v)\<rparr>)"
    if "waiting_for N org in_team ?v = t # ts" for in_team t ts
  proof -
    let ?f = "\<lambda>q. if tx_id q = tx_id t then picked_row (te_now ?E ?v) user t else q"
    have "t \<in> set (waiting_for N org in_team ?v)" using that by simp
    then have t: "t \<in> set (tw_rows ?v)" "tx_agent t = None" by (simp_all add: waiting_for_def)
    have "tx_id r \<noteq> tx_id t"
      using v t assms(4) map_fst_eq_fst_unique [of tx_id "tw_rows ?v" r t] by (auto simp: kept_def)
    then have "r \<in> set (map ?f (tw_rows ?v))" using v by (auto simp: kept_def intro!: image_eqI [of _ _ r])
    moreover have "map tx_id (map ?f (tw_rows ?v)) = map tx_id (tw_rows ?v)" by (simp add: picked_row_def)
    then have "distinct (map tx_id (map ?f (tw_rows ?v)))" using v by (simp only: kept_def)
    ultimately show ?thesis unfolding kept_update by blast
  qed
  show ?thesis
  proof (cases "team_filter N user (te_can_write_transfers ?E user org) team_arg")
    case (Inl a)
    then show ?thesis using assms(1,3) by (simp add: pick_next_transfer_def Let_def split: if_splits)
  next
    case (Inr in_team)
    show ?thesis
    proof (cases "waiting_for N org in_team ?v")
      case Nil
      then show ?thesis using assms(1,3) v Inr by (simp add: pick_next_transfer_def Let_def split: if_splits)
    next
      case (Cons t ts)
      note p = picked [OF Cons]
      show ?thesis using assms(1,3) v Inr Cons p
        by (auto simp: pick_next_transfer_def Let_def split: if_splits option.splits)
    qed
  qed
qed

lemma kept_create_row:
  assumes "create_transfer_row E t w = (e, w')" "only_we_touch E r" "kept r w"
  shows "kept r w'"
proof -
  have v: "kept r (te_others E w)" by (rule kept_others [OF assms(2,3)])
  then show ?thesis using assms(1)
    by (auto simp: create_transfer_row_def Let_def kept_def split: if_splits)
qed

lemma kept_finalize:
  assumes "save_and_finalize E t acct c settings b w = (e, w')" "only_we_touch E r" "kept r w"
  shows "kept r w'"
proof -
  obtain e1 w1 where c: "create_transfer_row E (start_sla (te_now E w) settings t) w = (e1, w1)" by (metis surj_pair)
  have "kept r w1" by (rule kept_create_row [OF c assms(2,3)])
  then show ?thesis using assms(1) c
    by (auto simp: save_and_finalize_def Let_def audit_new_transfer_def split: option.splits if_splits)
qed

lemma kept_create:
  assumes "create_agent_transfer N user org q w = (x, w')" "only_we_touch (dn_t N) r" "kept r w"
  shows "kept r w'"
proof -
  obtain y w1 where r1: "reading N (find_contact N org (cq_contact q)) w = (y, w1)" by (metis surj_pair)
  have w1: "kept r w1" by (rule kept_reading [OF r1 assms(2,3)])
  show ?thesis
  proof (cases y)
    case None
    then show ?thesis using assms(1) r1 w1 by (simp add: create_agent_transfer_def Let_def)
  next
    case (Some c)
    obtain b w2 where h: "has_active (dn_t N) org (ct_id c) w1 = (b, w2)" by (metis surj_pair)
    have w2: "kept r w2" using h kept_others [OF assms(2) w1] by (auto simp: has_active_def Let_def)
    have fin: "kept r w3" if "save_and_finalize (dn_t N) t acct c settings True w2 = (e, w3)" for t acct settings e w3
      by (rule kept_finalize [OF that assms(2) w2])
    show ?thesis using assms(1) r1 h Some w1 w2
      by (auto simp: create_agent_transfer_def Let_def split: bool.splits sum.splits option.splits prod.splits transfer_error.splits
          dest!: fin)
  qed
qed

lemma kept_unassign:
  "unassign_transfer N user org i w = (x, w') \<Longrightarrow> \<not> te_can_write_transfers (dn_t N) user org \<Longrightarrow> kept r w \<Longrightarrow> kept r w'"
  by (simp add: unassign_transfer_def Let_def)

text \<open>C24 (safety).
  An agent without the permission to write transfers takes no attendance away from its owner: whatever
  else happens to other attendances between any two statements, assigning, unassigning, picking from
  the queue and creating an attendance leave the one another agent owns exactly as it was. The one
  request this excludes is an assignment whose agent is the empty string.
\<close>
theorem owner_keeps_the_attendance:
  assumes "r \<in> set (tw_rows w)" "distinct (map tx_id (tw_rows w))" "only_we_touch (dn_t N) r"
    and "tx_agent r = Some owner" "owner \<noteq> user" "\<not> te_can_write_transfers (dn_t N) user org"
  shows "(agent_arg \<noteq> Some [] \<longrightarrow> r \<in> set (tw_rows (snd (assign_agent_transfer N user org i agent_arg team_arg w))))
    \<and> r \<in> set (tw_rows (snd (unassign_transfer N user org i w)))
    \<and> r \<in> set (tw_rows (snd (snd (pick_next_transfer N user org queue w))))
    \<and> r \<in> set (tw_rows (snd (create_agent_transfer N user org q w)))"
proof -
  have k: "kept r w" using assms(1,2) by (simp add: kept_def)
  have "agent_arg \<noteq> Some [] \<Longrightarrow> kept r (snd (assign_agent_transfer N user org i agent_arg team_arg w))"
    using kept_assign_transfer [OF _ assms(3) k assms(4,5,6)] by (metis surjective_pairing)
  moreover have "kept r (snd (unassign_transfer N user org i w))"
    using kept_unassign [OF _ assms(6) k] by (metis surjective_pairing)
  moreover have "kept r (snd (snd (pick_next_transfer N user org queue w)))"
    using kept_pick [OF _ assms(3) k assms(4)] by (metis surjective_pairing)
  moreover have "kept r (snd (create_agent_transfer N user org q w))"
    using kept_create [OF _ assms(3) k] by (metis surjective_pairing)
  ultimately show ?thesis by (simp add: kept_def)
qed

section \<open>Witness, and what the handlers do not check\<close>

text \<open>
  An attendance of agent 9 in team 4, a second one waiting in team 6, and an agent 5 with no permission,
  no team and no access to the conversation.
\<close>

definition sample_owned :: agent_transfer where
  "sample_owned = (new_transfer sample_tenv sample_account sample_contact SrcManual (Some 9) (Some 4) [] [] empty_tworld)"

definition sample_waiting :: agent_transfer where
  "sample_waiting = sample_owned\<lparr>tx_id := 101, tx_contact := 8, tx_agent := None, tx_team := Some 6\<rparr>"

definition sample_desk :: "bool \<Rightarrow> desk_env" where
  "sample_desk access = \<lparr> dn_t = sample_tenv, dn_parse = (\<lambda>s. if s = ''5'' then Some 5 else None),
     dn_contact = (\<lambda>i. if i = 7 \<or> i = 8 then Some (sample_contact\<lparr>ct_id := i\<rparr>) else None),
     dn_can_interact = (\<lambda>_ _ _ _. access), dn_user = (\<lambda>_ _. True), dn_ineligible = (\<lambda>_ _ _. False),
     dn_team = (\<lambda>_ _. True), dn_team_active = (\<lambda>_ _. True), dn_can_pickup = (\<lambda>_ _. True), dn_allow_pickup = (\<lambda>_. None),
     dn_members = (\<lambda>_. []), dn_locked = (\<lambda>_ _. False), dn_assign_excluding = None, dn_away_longer = (\<lambda>_ _ _. False),
     dn_customer_waiting = (\<lambda>_ _. False), dn_tolerant = (\<lambda>_. False) \<rparr>"

definition desk_world :: tworld where
  "desk_world = empty_tworld\<lparr>tw_rows := [sample_owned, sample_waiting], tw_assigned := (\<lambda>i. if i = 7 then Some 9 else None)\<rparr>"

lemma owner_keeps_the_attendance_witness:
  "sample_owned \<in> set (tw_rows (snd (assign_agent_transfer (sample_desk True) 5 1 100 None None desk_world)))
   \<and> sample_owned \<in> set (tw_rows (snd (snd (pick_next_transfer (sample_desk True) 5 1 ''general'' desk_world))))"
proof -
  have "only_we_touch (dn_t (sample_desk True)) sample_owned"
    by (simp add: only_we_touch_def sample_desk_def sample_tenv_def)
  moreover have "sample_owned \<in> set (tw_rows desk_world)" "distinct (map tx_id (tw_rows desk_world))"
    "tx_agent sample_owned = Some 9" "\<not> te_can_write_transfers (dn_t (sample_desk True)) 5 1"
    by (simp add: desk_world_def) (code_simp+)
  ultimately show ?thesis
    using owner_keeps_the_attendance [of sample_owned desk_world "sample_desk True" 9 5 1 None 100 None "''general''"] by simp
qed

text \<open>The empty agent takes the attendance from its owner, with no permission to write transfers.\<close>

lemma empty_agent_unassigns:
  "let (a, w) = assign_agent_transfer (sample_desk True) 5 1 100 (Some '''') None desk_world
   in a = DeskOk \<and> \<not> te_can_write_transfers (dn_t (sample_desk True)) 5 1 \<and> tx_agent (hd (tw_rows w)) = None
      \<and> tw_assigned w 7 = None"
  by code_simp

text \<open>A team that does not parse lets an agent of no team pick from the queue of any team.\<close>

lemma unreadable_team_picks_anywhere:
  "fst (pick_next_transfer (sample_desk True) 5 1 '''' desk_world) = DeskQueueEmpty
   \<and> map_option tx_id (fst (snd (pick_next_transfer (sample_desk True) 5 1 ''x'' desk_world))) = Some 101
   \<and> dn_members (sample_desk True) 5 = []"
  by code_simp

text \<open>Closing an attendance, and creating one for oneself, never ask whether the conversation is visible.\<close>

lemma close_and_create_ignore_visibility:
  "fst (resume_from_transfer (sample_desk False) 5 1 100 desk_world) = DeskOk
   \<and> fst (assign_agent_transfer (sample_desk False) 5 1 100 None None desk_world) = DeskForbidden
   \<and> (let (a, w) = create_agent_transfer (sample_desk False) 5 1
          \<lparr> cq_contact = 7, cq_account = ''a'', cq_agent = Some ''5'', cq_team = None, cq_notes = '''', cq_source = None \<rparr> empty_tworld
      in a = DeskOk \<and> map tx_agent (tw_rows w) = [Some 5])"
  by code_simp

text \<open>
  A close is not conditional on the status it read: when the attendance was closed and another one
  opened in the meantime, a late close takes the new attendance's contact from its agent.
\<close>

definition busy_tenv :: tenv where
  "busy_tenv = with_row_ops sample_tenv (\<lambda>w. if tw_tick w = 2
     then [RowClose 100 False, RowInsert (sample_owned\<lparr>tx_id := 102, tx_agent := Some 6\<rparr>)] else [])"

lemma late_close_frees_the_next_attendance:
  "let (a, w) = resume_from_transfer ((sample_desk True)\<lparr>dn_t := busy_tenv\<rparr>) 5 1 100 desk_world
   in a = DeskOk \<and> map (\<lambda>t. (tx_id t, tx_status t, tx_agent t)) (filter (\<lambda>t. tx_contact t = 7) (tw_rows w))
        = [(100, TResumed, Some 9), (102, TActive, Some 6)]
      \<and> tw_assigned w 7 = None \<and> tw_cstatus w 7 = CResolved"
  by code_simp

end
