(* ===== verification/Presence_Reaper.thy ===== *)
theory Presence_Reaper
  imports Attendance_Desk
begin

text \<open>
  The reaper of \<open>internal/handlers/presence_reaper.go\<close>, which returns the attendances of an agent who
  stays disconnected past the grace period, with the sweep of the agents who are away past their
  organization's tolerance (\<open>away_tolerance.go\<close>). Its state is the disconnect clock, a map the presence
  listener and the sweep share under a mutex; a run is any sequence of the listener's calls and of the
  sweep's visits to an agent, a visit being one step. What the hub answers about a connection is part of each
  event.
\<close>

section \<open>The disconnect clock\<close>

type_synonym agent_key = "uuid \<times> uuid"

type_synonym reaper_clock = "agent_key \<Rightarrow> time option"

definition default_presence_grace :: time where
  "default_presence_grace = 60 * 10 ^ 9"

text \<open>\<open>OfflineReleasePolicy.ShouldRelease\<close>\<close>

definition should_release :: "time \<Rightarrow> time \<Rightarrow> bool" where
  "should_release grace disconnected_for \<longleftrightarrow> disconnected_for \<ge> grace"

definition on_presence_change :: "agent_key \<Rightarrow> bool \<Rightarrow> bool \<Rightarrow> time \<Rightarrow> reaper_clock \<Rightarrow> reaper_clock" where
  "on_presence_change k online up now d =
     (if online then d(k := None)
      else if \<not> up \<and> d k = None then d(k := Some now) else d)"

text \<open>
  The body of the sweep's loop, on an agent with attendances: whether it releases them. \<open>first\<close> and
  \<open>again\<close> are the two looks at the connection.
\<close>

definition visit :: "time \<Rightarrow> time \<Rightarrow> agent_key \<Rightarrow> bool \<Rightarrow> bool \<Rightarrow> reaper_clock \<Rightarrow> bool \<times> reaper_clock" where
  "visit grace now k first again d =
     (if first then (False, d(k := None))
      else
        (let since = (case d k of None \<Rightarrow> now | Some t \<Rightarrow> t); d1 = d(k := Some since)
         in if \<not> should_release grace (now - since) then (False, d1)
            else if again then (False, d1)
            else (True, d1(k := None))))"

definition forget_idle :: "agent_key list \<Rightarrow> reaper_clock \<Rightarrow> reaper_clock" where
  "forget_idle assigned d = (\<lambda>k. if k \<in> set assigned then d k else None)"

text \<open>The whole sweep, with the statements that release.\<close>

fun reap_each :: "tenv \<Rightarrow> time \<Rightarrow> time \<Rightarrow> (agent_key \<Rightarrow> bool) \<Rightarrow> (agent_key \<Rightarrow> bool) \<Rightarrow> agent_key list \<Rightarrow> reaper_clock \<times> tworld \<Rightarrow> nat \<times> reaper_clock \<times> tworld" where
  "reap_each E grace now first again [] (d, w) = (0, d, w)"
| "reap_each E grace now first again (k # ks) (d, w) =
     (case visit grace now k (first k) (again k) d of
        (False, d1) \<Rightarrow> reap_each E grace now first again ks (d1, w)
      | (True, d1) \<Rightarrow>
          (case return_agent_transfers E (snd k) (fst k) ''returned_offline'' w of (n, w1) \<Rightarrow>
            (case reap_each E grace now first again ks (d1, w1) of (m, x) \<Rightarrow> (n + m, x))))"

definition assigned_agents :: "agent_transfer list \<Rightarrow> agent_key list" where
  "assigned_agents rows =
     remdups (concat (map (\<lambda>t. case tx_agent t of Some u \<Rightarrow> if live t then [(tx_org t, u)] else [] | None \<Rightarrow> []) rows))"

definition reaper_sweep :: "tenv \<Rightarrow> time \<Rightarrow> time \<Rightarrow> (agent_key \<Rightarrow> bool) \<Rightarrow> (agent_key \<Rightarrow> bool) \<Rightarrow> reaper_clock \<times> tworld \<Rightarrow> nat \<times> reaper_clock \<times> tworld" where
  "reaper_sweep E grace now first again x =
     (let w = te_others E (snd x) in
      if \<not> te_ok E w then (0, fst x, w)
      else let ks = assigned_agents (tw_rows w) in
        (case reap_each E grace now first again ks (fst x, w) of (n, d, w1) \<Rightarrow> (n, forget_idle ks d, w1)))"

section \<open>The away tolerance\<close>

definition min_away_mins :: int where "min_away_mins = 1"
definition max_away_mins :: int where "max_away_mins = 1440"
definition default_away_mins :: int where "default_away_mins = 10"

definition away_tolerance_duration :: "int \<Rightarrow> time" where
  "away_tolerance_duration mins =
     (if mins < min_away_mins \<or> mins > max_away_mins then default_away_mins else mins) * minute"

lemma away_tolerance_bounds: "minute \<le> away_tolerance_duration mins \<and> away_tolerance_duration mins \<le> 24 * 60 * minute"
  by (simp add: away_tolerance_duration_def min_away_mins_def max_away_mins_def default_away_mins_def minute_def)

record away_log =
  al_org :: uuid
  al_user :: uuid
  al_available :: bool
  al_started :: time
  al_ended :: "time option"

text \<open>
  The agents a sweep of an organization looks at: an open away interval older than the tolerance, still
  marked away, with an active attendance. \<open>waiting\<close> lists an agent's attendances in which the customer waits.
\<close>

definition away_agents :: "away_log list \<Rightarrow> (uuid \<Rightarrow> bool) \<Rightarrow> uuid \<Rightarrow> time \<Rightarrow> agent_transfer list \<Rightarrow> uuid list" where
  "away_agents logs is_available org cutoff rows =
     remdups (map al_user (filter (\<lambda>l. al_org l = org \<and> \<not> al_available l \<and> al_ended l = None \<and> al_started l \<le> cutoff
       \<and> \<not> is_available (al_user l) \<and> (\<exists>t \<in> set rows. tx_agent t = Some (al_user l) \<and> tx_org t = org \<and> live t)) logs))"

definition sweep_away_organization ::
  "desk_env \<Rightarrow> away_log list \<Rightarrow> (uuid \<Rightarrow> bool) \<Rightarrow> (uuid \<Rightarrow> tworld \<Rightarrow> uuid list) \<Rightarrow> uuid \<Rightarrow> int \<Rightarrow> time \<Rightarrow> tworld \<Rightarrow> nat \<times> tworld" where
  "sweep_away_organization N logs is_available waiting org mins now w0 =
     (let w = te_others (dn_t N) w0 in
      if \<not> te_ok (dn_t N) w then (0, w)
      else fold (\<lambda>u (n, v). case sweep_each N (map (Pair u) (waiting u v)) v of (m, v') \<Rightarrow> (n + m, v'))
             (away_agents logs is_available org (now - away_tolerance_duration mins) (tw_rows w)) (0, w))"

section \<open>Runs of the reaper\<close>

datatype reaper_event =
  Presence agent_key bool bool time
| Visit agent_key bool bool time
| Forget "agent_key list" time

fun event_time :: "reaper_event \<Rightarrow> time" where
  "event_time (Presence k online up t) = t"
| "event_time (Visit k first again t) = t"
| "event_time (Forget ks t) = t"

fun clock_step :: "time \<Rightarrow> reaper_event \<Rightarrow> reaper_clock \<Rightarrow> reaper_clock" where
  "clock_step grace (Presence k online up t) d = on_presence_change k online up t d"
| "clock_step grace (Visit k first again t) d = snd (visit grace t k first again d)"
| "clock_step grace (Forget ks t) d = forget_idle ks d"

definition clock_after :: "time \<Rightarrow> reaper_event list \<Rightarrow> reaper_clock" where
  "clock_after grace es = fold (clock_step grace) es (\<lambda>_. None)"

text \<open>The event shows the agent connected, or disconnected.\<close>

fun shows_online :: "agent_key \<Rightarrow> reaper_event \<Rightarrow> bool" where
  "shows_online k (Presence k' online up t) \<longleftrightarrow> k' = k \<and> online"
| "shows_online k (Visit k' first again t) \<longleftrightarrow> k' = k \<and> first"
| "shows_online k (Forget ks t) \<longleftrightarrow> False"

fun shows_offline :: "agent_key \<Rightarrow> reaper_event \<Rightarrow> bool" where
  "shows_offline k (Presence k' online up t) \<longleftrightarrow> k' = k \<and> \<not> online \<and> \<not> up"
| "shows_offline k (Visit k' first again t) \<longleftrightarrow> k' = k \<and> \<not> first"
| "shows_offline k (Forget ks t) \<longleftrightarrow> False"

lemma clock_after_snoc: "clock_after grace (es @ [e]) = clock_step grace e (clock_after grace es)"
  by (simp add: clock_after_def)

text \<open>What the step does to one agent's clock.\<close>

lemma clock_step_cases:
  "clock_step grace e d k = Some t \<Longrightarrow> (d k = Some t \<and> \<not> shows_online k e) \<or> (t = event_time e \<and> shows_offline k e)"
  by (cases e) (auto simp: on_presence_change_def visit_def forget_idle_def Let_def split: if_splits option.splits)

lemma clock_since:
  "clock_after grace es k = Some t \<Longrightarrow>
   \<exists>xs e ys. es = xs @ e # ys \<and> event_time e = t \<and> shows_offline k e \<and> (\<forall>e' \<in> set ys. \<not> shows_online k e')"
proof (induction es arbitrary: t rule: rev_induct)
  case Nil
  then show ?case by (simp add: clock_after_def)
next
  case (snoc e es)
  from clock_step_cases [OF snoc.prems [unfolded clock_after_snoc]] show ?case
  proof
    assume a: "clock_after grace es k = Some t \<and> \<not> shows_online k e"
    with snoc.IH obtain xs e' ys where "es = xs @ e' # ys" "event_time e' = t" "shows_offline k e'"
      "\<forall>e'' \<in> set ys. \<not> shows_online k e''" by blast
    with a have "es @ [e] = xs @ e' # (ys @ [e]) \<and> event_time e' = t \<and> shows_offline k e'
      \<and> (\<forall>e'' \<in> set (ys @ [e]). \<not> shows_online k e'')" by auto
    then show ?thesis by blast
  next
    assume "t = event_time e \<and> shows_offline k e"
    then have "es @ [e] = es @ e # [] \<and> event_time e = t \<and> shows_offline k e \<and> (\<forall>e' \<in> set []. \<not> shows_online k e')"
      by simp
    then show ?thesis by blast
  qed
qed

lemma visit_releases:
  "fst (visit grace now k first again d) \<longleftrightarrow> \<not> first \<and> \<not> again \<and> now - (case d k of None \<Rightarrow> now | Some t \<Rightarrow> t) \<ge> grace"
  by (simp add: visit_def Let_def should_release_def split: option.split)

text \<open>C27 (safety).
  The reaper respects the grace period: however the calls of the presence listener and the visits of the
  sweeps follow one another, a visit releases the attendances of an agent only when an event at least a
  whole grace period earlier showed the agent disconnected, no event after it showed the agent connected,
  and both looks at the connection say it is still down. The times need not be ordered: a sweep works
  with the time of its tick, the listener with the current one.
\<close>
theorem reaper_waits_for_the_grace:
  assumes "0 < grace" and "fst (visit grace now k first again (clock_after grace es))"
  shows "\<not> first \<and> \<not> again \<and> (\<exists>xs e ys. es = xs @ e # ys \<and> shows_offline k e \<and> event_time e \<le> now - grace
     \<and> (\<forall>e' \<in> set ys. \<not> shows_online k e'))"
proof -
  from assms(2) have r: "\<not> first" "\<not> again" "now - (case clock_after grace es k of None \<Rightarrow> now | Some t \<Rightarrow> t) \<ge> grace"
    by (simp_all add: visit_releases)
  then obtain t where t: "clock_after grace es k = Some t" "t \<le> now - grace"
    using assms(1) by (cases "clock_after grace es k") auto
  from clock_since [OF t(1)] t(2) r(1,2) show ?thesis by blast
qed

lemma reaper_waits_for_the_grace_witness:
  "fst (visit 60 170 (1, 5) False False (clock_after 60 [Presence (1, 5) True True 90, Presence (1, 5) False False 100, Visit (1, 5) False False 120]))
   \<and> (\<exists>xs e ys. [Presence (1, 5) True True 90, Presence (1, 5) False False 100, Visit (1, 5) False False 120] = xs @ e # ys
        \<and> shows_offline (1, 5) e \<and> event_time e \<le> 110)"
proof -
  let ?es = "[Presence (1, 5) True True 90, Presence (1, 5) False False 100, Visit (1, 5) False False 120]"
  have v: "fst (visit 60 170 (1, 5) False False (clock_after 60 ?es))" by code_simp
  from reaper_waits_for_the_grace [OF _ v] obtain xs e ys where "?es = xs @ e # ys" "shows_offline (1, 5) e" "event_time e \<le> 170 - 60"
    by auto
  then have "\<exists>xs e ys. ?es = xs @ e # ys \<and> shows_offline (1, 5) e \<and> event_time e \<le> 110" by auto
  with v show ?thesis by blast
qed

text \<open>The sweep releases through visits alone, so what holds of a visit holds of it.\<close>

lemma reap_each_releases:
  "reap_each E grace now first again ks (d, w) = (n, d', w') \<Longrightarrow> n > 0 \<Longrightarrow>
   \<exists>k \<in> set ks. \<exists>d1. fst (visit grace now k (first k) (again k) d1)"
  by (induction ks arbitrary: d w n)
    (auto split: prod.splits bool.splits, (metis fst_conv gr_zeroI)+)

end
