(* ===== verification/SLA_Processor.thy ===== *)
theory SLA_Processor
  imports Attendance_Desk
begin

text \<open>
  The periodic pass of \<open>internal/handlers/sla_processor.go\<close>: for each organization it closes the expired
  attendances, escalates, marks breaches, reminds or closes chatbot conversations whose customer went
  silent, closes idle attendances, and marks the breaches of occurrences and sales opportunities. A
  pass reads a list of rows and then handles one after the other; before every statement other
  processes may run. Broadcasts (with the notification of an escalation) and the log are left out.
\<close>

section \<open>What the passes ask\<close>

text \<open>
  \<open>sv_last_incoming\<close> is the latest message of the customer, \<open>sv_responded\<close> whether an agent sent one after
  an instant, \<open>sv_last_message\<close> the column of a contact that is not deleted, \<open>sv_send\<close> whether the send
  pipeline accepts a text.
\<close>

record sla_env =
  sv_desk :: desk_env
  sv_contacts :: "uuid \<Rightarrow> tworld \<Rightarrow> uuid list"
  sv_last_incoming :: "uuid \<Rightarrow> tworld \<Rightarrow> time option"
  sv_responded :: "uuid \<Rightarrow> uuid \<Rightarrow> time \<Rightarrow> tworld \<Rightarrow> bool"
  sv_last_message :: "uuid \<Rightarrow> tworld \<Rightarrow> time option"
  sv_account :: "uuid \<Rightarrow> string \<Rightarrow> tworld \<Rightarrow> bool"
  sv_send :: "contact \<Rightarrow> string \<Rightarrow> tworld \<Rightarrow> bool"

record tick_settings =
  ts_org :: uuid
  ts_sla :: sla_settings
  ts_close_message :: string
  ts_warning :: string
  ts_reminder_enabled :: bool
  ts_reminder_minutes :: int
  ts_reminder_message :: string
  ts_idle_minutes :: int
  ts_idle_message :: string
  ts_close_idle :: bool
  ts_occurrences :: bool
  ts_sales :: bool

record occurrence =
  oc_id :: uuid
  oc_org :: uuid
  oc_sla :: sla
  oc_closed :: "time option"
  oc_deleted :: bool

datatype sales_stage = Potencial | AbrirOrcamento | Direcionada
datatype sales_status = Aberta | Convertida | Perdida | Cancelada

record sales_opportunity =
  so_id :: uuid
  so_org :: uuid
  so_stage :: sales_stage
  so_status :: sales_status
  so_stage_at :: time
  so_breached :: bool
  so_breached_at :: "time option"
  so_deleted :: bool

record sla_world =
  sw_world :: tworld
  sw_occurrences :: "occurrence list"
  sw_sales :: "sales_opportunity list"

section \<open>Messages and single statements\<close>

definition send_text :: "sla_env \<Rightarrow> contact \<Rightarrow> string \<Rightarrow> tworld \<Rightarrow> bool \<times> tworld" where
  "send_text P c m w0 =
     (let w = te_others (dn_t (sv_desk P)) w0 in
      if sv_send P c m w then (True, w\<lparr>tw_sent := tw_sent w @ [(ct_id c, m)]\<rparr>) else (False, w))"

definition resolve_account :: "sla_env \<Rightarrow> uuid \<Rightarrow> string \<Rightarrow> tworld \<Rightarrow> unit option \<times> tworld" where
  "resolve_account P org name = reading (sv_desk P) (\<lambda>v. if sv_account P org name v then Some () else None)"

definition send_sla_text :: "sla_env \<Rightarrow> agent_transfer \<Rightarrow> string \<Rightarrow> tworld \<Rightarrow> tworld" where
  "send_sla_text P t m w =
     (case resolve_account P (tx_org t) (tx_account t) w of
        (None, w1) \<Rightarrow> w1
      | (Some _, w1) \<Rightarrow>
          (case reading (sv_desk P) (contact_row (sv_desk P) (tx_contact t)) w1 of
             (None, w2) \<Rightarrow> w2
           | (Some c, w2) \<Rightarrow> snd (send_text P c m w2)))"

text \<open>\<open>DB.Model(&transfer).Updates\<close>: by the id alone.\<close>

definition update_by_id :: "tenv \<Rightarrow> uuid \<Rightarrow> (agent_transfer \<Rightarrow> agent_transfer) \<Rightarrow> tworld \<Rightarrow> bool \<times> tworld" where
  "update_by_id E i upd w0 =
     (let w = te_others E w0 in
      if \<not> te_ok E w then (False, w)
      else (True, w\<lparr>tw_rows := map (\<lambda>r. if tx_id r = i \<and> \<not> tx_deleted r then upd r else r) (tw_rows w)\<rparr>))"

definition customer_last_spoke :: "sla_env \<Rightarrow> agent_transfer \<Rightarrow> tworld \<Rightarrow> time \<times> tworld" where
  "customer_last_spoke P t w0 =
     (let w = te_others (dn_t (sv_desk P)) w0 in
      (case if te_ok (dn_t (sv_desk P)) w then sv_last_incoming P (tx_contact t) w else None of
         None \<Rightarrow> tx_at t
       | Some x \<Rightarrow> if x < tx_at t then tx_at t else x, w))"

definition agent_responded :: "sla_env \<Rightarrow> agent_transfer \<Rightarrow> time \<Rightarrow> tworld \<Rightarrow> bool \<times> tworld" where
  "agent_responded P t since w0 =
     (case tx_agent t of
        None \<Rightarrow> (False, w0)
      | Some u \<Rightarrow> (let w = te_others (dn_t (sv_desk P)) w0
                  in (te_ok (dn_t (sv_desk P)) w \<and> sv_responded P (tx_contact t) u since w, w)))"

text \<open>\<open>UpdateSLAOnFirstResponse\<close> on the row that was read, and the write that follows it.\<close>

definition first_response :: "time \<Rightarrow> sla \<Rightarrow> sla" where
  "first_response now s = (if sl_first_response_at s \<noteq> None then s else s\<lparr>sl_first_response_at := Some now\<rparr>)"

definition note_first_response :: "sla_env \<Rightarrow> agent_transfer \<Rightarrow> tworld \<Rightarrow> tworld" where
  "note_first_response P t w =
     (let E = dn_t (sv_desk P); s = first_response (te_now E w) (tx_sla t) in
      if sl_first_response_at s \<noteq> None
      then snd (update_by_id E (tx_id t) (\<lambda>r. r\<lparr>tx_sla := (tx_sla r)\<lparr>sl_first_response_at := sl_first_response_at s\<rparr>\<rparr>) w)
      else w)"

section \<open>Expired attendances\<close>

definition hours :: "int \<Rightarrow> time" where "hours h = h * (60 * minute)"

definition expired_note :: string where
  "expired_note = CHR 0x0A # ''[Auto-closed: No agent response within SLA]''"

definition idle_note :: string where
  "idle_note = CHR 0x0A # ''[Auto-closed: no interaction within the inactivity window]''"

definition expired_row :: "time \<Rightarrow> string \<Rightarrow> agent_transfer \<Rightarrow> agent_transfer" where
  "expired_row now notes r = r\<lparr>tx_status := TExpired, tx_resumed_at := Some now, tx_notes := notes\<rparr>"

text \<open>Both automatic closes load the contact and release it with the close.\<close>

definition auto_close :: "sla_env \<Rightarrow> time \<Rightarrow> string \<Rightarrow> agent_transfer \<Rightarrow> tworld \<Rightarrow> bool \<times> tworld" where
  "auto_close P now note t w =
     (let N = sv_desk P in
      case reading N (\<lambda>v. map_option (\<lambda>c. (c, tw_cstatus v (tx_contact t))) (contact_row N (tx_contact t) v)) w of (who, w1) \<Rightarrow>
        (case close_attendance N t who (expired_row now (tx_notes t @ note)) None w1 of
           (Some e, w2) \<Rightarrow> (False, w2) | (None, w2) \<Rightarrow> (True, w2)))"

definition is_expired :: "uuid \<Rightarrow> time \<Rightarrow> agent_transfer \<Rightarrow> bool" where
  "is_expired org now t \<longleftrightarrow> tx_org t = org \<and> live t \<and> (case sl_expires_at (tx_sla t) of Some e \<Rightarrow> e < now | None \<Rightarrow> False)"

definition expire_one :: "sla_env \<Rightarrow> tick_settings \<Rightarrow> time \<Rightarrow> agent_transfer \<Rightarrow> tworld \<Rightarrow> tworld" where
  "expire_one P S now t w =
     (let h = hours (sc_auto_close_hours (ts_sla S)); E = dn_t (sv_desk P) in
      case (case sl_expires_at (tx_sla t) of None \<Rightarrow> (False, w) | Some e \<Rightarrow> agent_responded P t (e - h) w) of
        (True, w1) \<Rightarrow>
          note_first_response P t (snd (update_by_id E (tx_id t) (\<lambda>r. r\<lparr>tx_sla := (tx_sla r)\<lparr>sl_expires_at := Some (now + h)\<rparr>\<rparr>) w1))
      | (False, w1) \<Rightarrow>
          (let w2 = (if ts_close_message S \<noteq> [] then send_sla_text P t (ts_close_message S) w1 else w1)
           in snd (auto_close P now expired_note t w2)))"

text \<open>A pass: the rows of one query, then each of them.\<close>

definition pass_over ::
  "sla_env \<Rightarrow> (tworld \<Rightarrow> agent_transfer \<Rightarrow> bool) \<Rightarrow> (agent_transfer \<Rightarrow> tworld \<Rightarrow> tworld) \<Rightarrow> tworld \<Rightarrow> tworld" where
  "pass_over P sel f w =
     (case reading (sv_desk P) (\<lambda>v. Some (filter (sel v) (tw_rows v))) w of
        (None, w1) \<Rightarrow> w1
      | (Some ts, w1) \<Rightarrow> fold f ts w1)"

definition auto_close_expired :: "sla_env \<Rightarrow> tick_settings \<Rightarrow> time \<Rightarrow> tworld \<Rightarrow> tworld" where
  "auto_close_expired P S now = pass_over P (\<lambda>v. is_expired (ts_org S) now) (expire_one P S now)"

section \<open>Escalation and breach\<close>

definition may_escalate :: "uuid \<Rightarrow> time \<Rightarrow> agent_transfer \<Rightarrow> bool" where
  "may_escalate org now t \<longleftrightarrow> tx_org t = org \<and> live t
     \<and> (case sl_escalation_at (tx_sla t) of Some e \<Rightarrow> e < now | None \<Rightarrow> False) \<and> sl_level (tx_sla t) < 2"

definition past_response :: "time \<Rightarrow> sla \<Rightarrow> bool" where
  "past_response now s \<longleftrightarrow> (case sl_response_deadline s of Some d \<Rightarrow> d < now | None \<Rightarrow> False)"

definition breach :: "time \<Rightarrow> sla \<Rightarrow> sla" where
  "breach now s = s\<lparr>sl_breached := True, sl_breached_at := Some now\<rparr>"

text \<open>The new level and the breach are computed from the row that was read.\<close>

definition escalated :: "time \<Rightarrow> sla \<Rightarrow> sla \<Rightarrow> sla" where
  "escalated now read s =
     (let s1 = s\<lparr>sl_level := sl_level read + 1, sl_escalated_at := Some now\<rparr>
      in if \<not> sl_breached read \<and> past_response now read then breach now s1 else s1)"

definition escalate_one :: "sla_env \<Rightarrow> tick_settings \<Rightarrow> time \<Rightarrow> agent_transfer \<Rightarrow> tworld \<Rightarrow> tworld" where
  "escalate_one P S now t w =
     (let E = dn_t (sv_desk P) in
      case customer_last_spoke P t w of (since, w1) \<Rightarrow>
        (case agent_responded P t since w1 of
           (True, w2) \<Rightarrow>
             note_first_response P t (snd (update_by_id E (tx_id t)
               (\<lambda>r. r\<lparr>tx_sla := (tx_sla r)\<lparr>sl_escalation_at := Some (now + sc_escalation_minutes (ts_sla S) * minute)\<rparr>\<rparr>) w2))
         | (False, w2) \<Rightarrow>
             (case update_by_id E (tx_id t) (\<lambda>r. r\<lparr>tx_sla := escalated now (tx_sla t) (tx_sla r)\<rparr>) w2 of
                (False, w3) \<Rightarrow> w3
              | (True, w3) \<Rightarrow>
                  if sl_level (tx_sla t) + 1 = 1 \<and> ts_warning S \<noteq> [] then send_sla_text P t (ts_warning S) w3 else w3)))"

definition escalate_transfers :: "sla_env \<Rightarrow> tick_settings \<Rightarrow> time \<Rightarrow> tworld \<Rightarrow> tworld" where
  "escalate_transfers P S now = pass_over P (\<lambda>v. may_escalate (ts_org S) now) (escalate_one P S now)"

definition unpicked_late :: "uuid \<Rightarrow> time \<Rightarrow> agent_transfer \<Rightarrow> bool" where
  "unpicked_late org now t \<longleftrightarrow> tx_org t = org \<and> live t \<and> \<not> sl_breached (tx_sla t) \<and> past_response now (tx_sla t) \<and> tx_agent t = None"

definition mark_sla_breached :: "sla_env \<Rightarrow> tick_settings \<Rightarrow> time \<Rightarrow> tworld \<Rightarrow> tworld" where
  "mark_sla_breached P S now w0 =
     (let E = dn_t (sv_desk P); w = te_others E w0 in
      if \<not> te_ok E w then w
      else w\<lparr>tw_rows := map (\<lambda>t. if unpicked_late (ts_org S) now t then t\<lparr>tx_sla := breach now (tx_sla t)\<rparr> else t) (tw_rows w)\<rparr>)"

section \<open>Customers who went silent\<close>

definition send_reminder :: "sla_env \<Rightarrow> tick_settings \<Rightarrow> contact \<Rightarrow> tworld \<Rightarrow> tworld" where
  "send_reminder P S c w =
     (if ts_reminder_message S = [] then w
      else case resolve_account P (ct_org c) (ct_account c) w of
        (None, w1) \<Rightarrow> w1
      | (Some _, w1) \<Rightarrow>
          (case send_text P c (ts_reminder_message S) w1 of
             (False, w2) \<Rightarrow> w2
           | (True, w2) \<Rightarrow>
               (let v = te_others (dn_t (sv_desk P)) w2 in
                if te_ok (dn_t (sv_desk P)) v then v\<lparr>tw_reminded := (tw_reminded v)(ct_id c := True)\<rparr> else v)))"

definition close_chatbot_session :: "sla_env \<Rightarrow> tick_settings \<Rightarrow> contact \<Rightarrow> tworld \<Rightarrow> tworld" where
  "close_chatbot_session P S c w =
     (let w3 = (if ts_idle_message S = [] then w
                else case resolve_account P (ct_org c) (ct_account c) w of
                  (None, w1) \<Rightarrow> w1 | (Some _, w1) \<Rightarrow> snd (send_text P c (ts_idle_message S) w1));
          v = te_others (dn_t (sv_desk P)) w3
      in if te_ok (dn_t (sv_desk P)) v then clear_tracking (ct_id c) v else v)"

text \<open>A contact is handled as the query returned it: when the chatbot last wrote, and whether it reminded.\<close>

definition silent_one :: "sla_env \<Rightarrow> tick_settings \<Rightarrow> time \<Rightarrow> contact \<times> time \<times> bool \<Rightarrow> tworld \<Rightarrow> tworld" where
  "silent_one P S now x w =
     (case x of (c, wrote, reminded) \<Rightarrow>
       (case has_active (dn_t (sv_desk P)) (ts_org S) (ct_id c) w of
          (True, w1) \<Rightarrow> w1
        | (False, w1) \<Rightarrow>
            if ts_idle_minutes S > 0 \<and> now - wrote \<ge> ts_idle_minutes S * minute then close_chatbot_session P S c w1
            else if ts_reminder_minutes S > 0 \<and> \<not> reminded \<and> now - wrote \<ge> ts_reminder_minutes S * minute
            then send_reminder P S c w1 else w1))"

definition waiting_chats :: "sla_env \<Rightarrow> uuid \<Rightarrow> tworld \<Rightarrow> (contact \<times> time \<times> bool) list" where
  "waiting_chats P org v =
     concat (map (\<lambda>i. case (find_contact (sv_desk P) org i v, tw_chatbot_at v i) of
                        (Some c, Some at0) \<Rightarrow> [(c, at0, tw_reminded v i)] | _ \<Rightarrow> []) (sv_contacts P org v))"

definition process_client_inactivity :: "sla_env \<Rightarrow> tick_settings \<Rightarrow> time \<Rightarrow> tworld \<Rightarrow> tworld" where
  "process_client_inactivity P S now w =
     (case reading (sv_desk P) (\<lambda>v. Some (waiting_chats P (ts_org S) v)) w of
        (None, w1) \<Rightarrow> w1
      | (Some xs, w1) \<Rightarrow> fold (silent_one P S now) xs w1)"

section \<open>Idle attendances\<close>

definition is_idle :: "sla_env \<Rightarrow> uuid \<Rightarrow> time \<Rightarrow> tworld \<Rightarrow> agent_transfer \<Rightarrow> bool" where
  "is_idle P org limit v t \<longleftrightarrow> tx_org t = org \<and> live t \<and> tx_at t < limit
     \<and> (case sl_picked_up_at (tx_sla t) of None \<Rightarrow> True | Some p \<Rightarrow> p < limit)
     \<and> (case sv_last_message P (tx_contact t) v of None \<Rightarrow> False | Some m \<Rightarrow> m < limit)"

definition idle_one :: "sla_env \<Rightarrow> tick_settings \<Rightarrow> time \<Rightarrow> agent_transfer \<Rightarrow> tworld \<Rightarrow> tworld" where
  "idle_one P S now t w =
     (case auto_close P now idle_note t w of
        (False, w1) \<Rightarrow> w1
      | (True, w1) \<Rightarrow> if ts_idle_message S \<noteq> [] then send_sla_text P t (ts_idle_message S) w1 else w1)"

definition idle_limit :: "tick_settings \<Rightarrow> time \<Rightarrow> time" where
  "idle_limit S now = now - ts_idle_minutes S * minute"

definition close_inactive :: "sla_env \<Rightarrow> tick_settings \<Rightarrow> time \<Rightarrow> tworld \<Rightarrow> tworld" where
  "close_inactive P S now w =
     (if ts_idle_minutes S \<le> 0 then w
      else pass_over P (is_idle P (ts_org S) (idle_limit S now)) (idle_one P S now) w)"

section \<open>Occurrences and sales opportunities\<close>

definition late_response :: "uuid \<Rightarrow> time \<Rightarrow> occurrence \<Rightarrow> bool" where
  "late_response org now c \<longleftrightarrow> \<not> oc_deleted c \<and> oc_org c = org \<and> past_response now (oc_sla c)
     \<and> sl_first_response_at (oc_sla c) = None \<and> \<not> sl_breached (oc_sla c)"

definition late_resolution :: "uuid \<Rightarrow> time \<Rightarrow> occurrence \<Rightarrow> bool" where
  "late_resolution org now c \<longleftrightarrow> \<not> oc_deleted c \<and> oc_org c = org
     \<and> (case sl_resolution_deadline (oc_sla c) of Some d \<Rightarrow> d < now | None \<Rightarrow> False)
     \<and> oc_closed c = None \<and> \<not> sl_breached (oc_sla c)"

definition mark_where :: "(occurrence \<Rightarrow> bool) \<Rightarrow> time \<Rightarrow> occurrence list \<Rightarrow> occurrence list" where
  "mark_where hit now = map (\<lambda>c. if hit c then c\<lparr>oc_sla := breach now (oc_sla c)\<rparr> else c)"

text \<open>Two statements; the second runs also when the first fails.\<close>

definition process_occurrence_sla :: "tenv \<Rightarrow> uuid \<Rightarrow> time \<Rightarrow> sla_world \<Rightarrow> sla_world" where
  "process_occurrence_sla E org now s =
     (let w1 = te_others E (sw_world s); w2 = te_others E w1;
          cs1 = (if te_ok E w1 then mark_where (late_response org now) now (sw_occurrences s) else sw_occurrences s);
          cs2 = (if te_ok E w2 then mark_where (late_resolution org now) now cs1 else cs1)
      in s\<lparr>sw_world := w2, sw_occurrences := cs2\<rparr>)"

definition stuck_sale :: "uuid \<Rightarrow> time \<Rightarrow> sales_opportunity \<Rightarrow> bool" where
  "stuck_sale org limit x \<longleftrightarrow> \<not> so_deleted x \<and> so_org x = org \<and> so_stage x = Direcionada \<and> so_status x = Aberta
     \<and> so_stage_at x < limit \<and> \<not> so_breached x"

definition process_sales_sla :: "tenv \<Rightarrow> uuid \<Rightarrow> time \<Rightarrow> sla_world \<Rightarrow> sla_world" where
  "process_sales_sla E org now s =
     (let w = te_others E (sw_world s) in
      s\<lparr>sw_world := w,
        sw_sales := (if te_ok E w
          then map (\<lambda>x. if stuck_sale org (now - hours (7 * 24)) x then x\<lparr>so_breached := True, so_breached_at := Some now\<rparr> else x) (sw_sales s)
          else sw_sales s)\<rparr>)"

section \<open>The tick\<close>

definition process_organization_sla :: "sla_env \<Rightarrow> time \<Rightarrow> tick_settings \<Rightarrow> sla_world \<Rightarrow> sla_world" where
  "process_organization_sla P now S s =
     (let x = ts_sla S; w = sw_world s;
          w1 = (if sc_enabled x \<and> sc_auto_close_hours x > 0 then auto_close_expired P S now w else w);
          w2 = (if sc_enabled x \<and> sc_escalation_minutes x > 0 then escalate_transfers P S now w1 else w1);
          w3 = (if sc_enabled x \<and> sc_response_minutes x > 0 then mark_sla_breached P S now w2 else w2);
          w4 = (if sc_enabled x \<and> ts_reminder_enabled S then process_client_inactivity P S now w3 else w3);
          w5 = (if ts_close_idle S then close_inactive P S now w4 else w4);
          s1 = s\<lparr>sw_world := w5\<rparr>;
          s2 = (if ts_occurrences S then process_occurrence_sla (dn_t (sv_desk P)) (ts_org S) now s1 else s1)
      in if ts_sales S then process_sales_sla (dn_t (sv_desk P)) (ts_org S) now s2 else s2)"

text \<open>The settings the cache returns; none when they cannot be read.\<close>

definition process_stale_transfers :: "sla_env \<Rightarrow> time \<Rightarrow> tick_settings list option \<Rightarrow> sla_world \<Rightarrow> sla_world" where
  "process_stale_transfers P now settings s =
     (case settings of None \<Rightarrow> s | Some ss \<Rightarrow> fold (process_organization_sla P now) ss s)"

section \<open>What a tick may do to an attendance\<close>

definition only_we_write :: "tenv \<Rightarrow> uuid \<Rightarrow> bool" where
  "only_we_write E i \<longleftrightarrow> (\<forall>q. tx_id q = i \<longrightarrow> only_we_touch E q)"

abbreviation alone :: "sla_env \<Rightarrow> agent_transfer \<Rightarrow> bool" where
  "alone P q \<equiv> only_we_write (dn_t (sv_desk P)) (tx_id q)"

lemma kept_alone: "only_we_write E (tx_id q) \<Longrightarrow> kept q w \<Longrightarrow> kept q (te_others E w)"
  by (auto simp: only_we_write_def intro: kept_others)

lemma kept_read: "reading N f w = (x, w') \<Longrightarrow> only_we_write (dn_t N) (tx_id q) \<Longrightarrow> kept q w \<Longrightarrow> kept q w'"
  by (auto simp: only_we_write_def intro: kept_reading)

lemma kept_map:
  assumes "kept q v" "\<And>r. tx_id (upd r) = tx_id r"
  shows "kept (if hit q then upd q else q) (v\<lparr>tw_rows := map (\<lambda>r. if hit r then upd r else r) (tw_rows v)\<rparr>)"
proof -
  let ?f = "\<lambda>r. if hit r then upd r else r"
  have "map tx_id (map ?f (tw_rows v)) = map tx_id (tw_rows v)" using assms(2) by simp
  then have "distinct (map tx_id (map ?f (tw_rows v)))" using assms(1) by (simp only: kept_def)
  moreover have "?f q \<in> set (map ?f (tw_rows v))" using assms(1) unfolding kept_def set_map by (intro imageI) simp
  ultimately show ?thesis unfolding kept_update by blast
qed

lemma kept_contact_columns [simp]:
  "kept q (release_contact c st w) = kept q w" "kept q (clear_tracking i w) = kept q w"
  "kept q (w\<lparr>tw_sent := x\<rparr>) = kept q w" "kept q (w\<lparr>tw_reminded := y\<rparr>) = kept q w"
  by (simp_all add: release_contact_def clear_tracking_def kept_def Let_def)

lemma kept_send_text: "alone P q \<Longrightarrow> kept q w \<Longrightarrow> kept q (snd (send_text P c m w))"
  by (simp add: send_text_def Let_def kept_alone)

lemma kept_account: "resolve_account P org name w = (x, w') \<Longrightarrow> alone P q \<Longrightarrow> kept q w \<Longrightarrow> kept q w'"
  by (simp add: resolve_account_def kept_read)

lemma kept_sla_text: "alone P q \<Longrightarrow> kept q w \<Longrightarrow> kept q (send_sla_text P t m w)"
  by (auto simp: send_sla_text_def split: prod.split option.split intro!: kept_send_text dest: kept_account kept_read)

lemma kept_responded: "agent_responded P t since w = (b, w') \<Longrightarrow> alone P q \<Longrightarrow> kept q w \<Longrightarrow> kept q w'"
  by (auto simp: agent_responded_def Let_def kept_alone split: option.splits)

lemma kept_spoke: "customer_last_spoke P t w = (x, w') \<Longrightarrow> alone P q \<Longrightarrow> kept q w \<Longrightarrow> kept q w'"
  by (auto simp: customer_last_spoke_def Let_def kept_alone)

lemma kept_update_by_id:
  assumes "update_by_id E i upd w = (b, w')" "only_we_write E (tx_id q)" "kept q w" "\<And>r. tx_id (upd r) = tx_id r"
  shows "kept (if b \<and> tx_id q = i \<and> \<not> tx_deleted q then upd q else q) w'"
  using assms(1) kept_alone [OF assms(2,3)]
    kept_map [OF kept_alone [OF assms(2,3)] assms(4), of "\<lambda>r. tx_id r = i \<and> \<not> tx_deleted r"]
  by (auto simp: update_by_id_def Let_def split: if_splits)

lemma expired_row_id [simp]: "tx_id (expired_row now notes r) = tx_id r"
  by (simp add: expired_row_def)

lemma kept_close:
  assumes "close_attendance N t who upd actor w = (e, w')" "only_we_write (dn_t N) (tx_id q)" "kept q w"
    "\<And>r. tx_id (upd r) = tx_id r"
  shows "kept (if e = None \<and> tx_id q = tx_id t \<and> \<not> tx_deleted q then upd q else q) w'"
  using assms(1) kept_alone [OF assms(2,3)]
    kept_map [OF kept_alone [OF assms(2,3)] assms(4), of "\<lambda>r. tx_id r = tx_id t \<and> \<not> tx_deleted r"]
  by (auto simp: close_attendance_def Let_def split: if_splits option.splits)

lemma kept_auto_close:
  assumes "auto_close P now note t w = (b, w')" "alone P q" "kept q w"
  shows "kept (if b \<and> tx_id q = tx_id t \<and> \<not> tx_deleted q then expired_row now (tx_notes t @ note) q else q) w'"
proof -
  let ?N = "sv_desk P"
  obtain who w1 where r: "reading ?N (\<lambda>v. map_option (\<lambda>c. (c, tw_cstatus v (tx_contact t))) (contact_row ?N (tx_contact t) v)) w = (who, w1)"
    by (metis surj_pair)
  obtain e w2 where c: "close_attendance ?N t who (expired_row now (tx_notes t @ note)) None w1 = (e, w2)" by (metis surj_pair)
  have "w' = w2" "b \<longleftrightarrow> e = None" using assms(1) r c by (auto simp: auto_close_def split: option.splits)
  then show ?thesis using kept_close [OF c assms(2) kept_read [OF r assms(2,3)]] by simp
qed

lemma auto_close_succeeds: "(\<And>v. te_ok (dn_t (sv_desk P)) v) \<Longrightarrow> fst (auto_close P now note t w)"
  by (simp add: auto_close_def close_attendance_def Let_def split: prod.split option.split)

text \<open>A pass handles each row of its list by itself.\<close>

locale row_pass =
  fixes P :: sla_env and f :: "agent_transfer \<Rightarrow> tworld \<Rightarrow> tworld" and step :: "agent_transfer \<Rightarrow> agent_transfer \<Rightarrow> bool"
  assumes other: "alone P q \<Longrightarrow> tx_id t \<noteq> tx_id q \<Longrightarrow> kept q w \<Longrightarrow> kept q (f t w)"
    and own: "alone P q \<Longrightarrow> kept q w \<Longrightarrow> \<exists>q'. tx_id q' = tx_id q \<and> step q q' \<and> kept q' (f q w)"
begin

lemma fold_other: "alone P q \<Longrightarrow> \<forall>t \<in> set ts. tx_id t \<noteq> tx_id q \<Longrightarrow> kept q w \<Longrightarrow> kept q (fold f ts w)"
  by (induction ts arbitrary: w) (auto intro: other)

lemma fold_own:
  assumes "alone P q" "distinct (map tx_id ts)" "q \<in> set ts" "kept q w"
  shows "\<exists>q'. tx_id q' = tx_id q \<and> step q q' \<and> kept q' (fold f ts w)"
proof -
  obtain xs ys where ts: "ts = xs @ q # ys" using assms(3) by (meson split_list)
  have apart: "\<forall>t \<in> set xs. tx_id t \<noteq> tx_id q" "\<forall>t \<in> set ys. tx_id t \<noteq> tx_id q"
    using assms(2) unfolding ts by (auto simp: image_iff)
  obtain q' where q': "tx_id q' = tx_id q" "step q q'" "kept q' (f q (fold f xs w))"
    using own [OF assms(1) fold_other [OF assms(1) apart(1) assms(4)]] by blast
  have "kept q' (fold f ys (f q (fold f xs w)))"
    using fold_other [of q' ys] assms(1) apart(2) q' by simp
  then show ?thesis using q' by (auto simp: ts)
qed

lemma pass_row:
  assumes "alone P q" "kept q w"
  shows "\<exists>q'. tx_id q' = tx_id q \<and> kept q' (pass_over P sel f w)
    \<and> (q' = q \<and> \<not> (\<forall>v. te_ok (dn_t (sv_desk P)) v \<and> sel v q) \<or> (\<exists>v. sel v q) \<and> step q q')"
proof -
  obtain x v where r: "reading (sv_desk P) (\<lambda>v. Some (filter (sel v) (tw_rows v))) w = (x, v)" by (metis surj_pair)
  have v: "kept q v" by (rule kept_read [OF r assms])
  show ?thesis
  proof (cases x)
    case None
    then have "\<not> te_ok (dn_t (sv_desk P)) v" using r by (auto simp: reading_def Let_def split: if_splits)
    then show ?thesis using None r v by (auto simp: pass_over_def)
  next
    case (Some ts)
    then have ts: "ts = filter (sel v) (tw_rows v)" using r by (auto simp: reading_def Let_def split: if_splits)
    then have p: "pass_over P sel f w = fold f ts v" using r Some by (simp add: pass_over_def)
    have d: "distinct (map tx_id ts)" using v by (simp add: ts kept_def distinct_map_filter)
    show ?thesis
    proof (cases "sel v q")
      case True
      then have "q \<in> set ts" using v by (simp add: ts kept_def)
      from fold_own [OF assms(1) d this v] show ?thesis using True p by metis
    next
      case False
      have "\<forall>t \<in> set ts. tx_id t \<noteq> tx_id q"
        using v False map_fst_eq_fst_unique [of tx_id "tw_rows v" _ q] unfolding ts kept_def by fastforce
      from fold_other [OF assms(1) this v] show ?thesis using False p by metis
    qed
  qed
qed

end

section \<open>The passes, row by row\<close>

lemma kept_first_response:
  assumes "alone P q" "kept q w"
  shows "\<exists>y. kept (q\<lparr>tx_sla := (tx_sla q)\<lparr>sl_first_response_at := y\<rparr>\<rparr>) (note_first_response P t w)"
    and "tx_id t \<noteq> tx_id q \<Longrightarrow> kept q (note_first_response P t w)"
proof -
  let ?E = "dn_t (sv_desk P)"
  let ?y = "sl_first_response_at (first_response (te_now ?E w) (tx_sla t))"
  let ?upd = "\<lambda>r. r\<lparr>tx_sla := (tx_sla r)\<lparr>sl_first_response_at := ?y\<rparr>\<rparr>"
  have same: "q\<lparr>tx_sla := (tx_sla q)\<lparr>sl_first_response_at := sl_first_response_at (tx_sla q)\<rparr>\<rparr> = q" by simp
  obtain b w1 where u: "update_by_id ?E (tx_id t) ?upd w = (b, w1)" by (metis surj_pair)
  note k = kept_update_by_id [OF u assms]
  have n: "note_first_response P t w = (if ?y \<noteq> None then w1 else w)"
    by (simp add: note_first_response_def Let_def u)
  show "\<exists>y. kept (q\<lparr>tx_sla := (tx_sla q)\<lparr>sl_first_response_at := y\<rparr>\<rparr>) (note_first_response P t w)"
  proof (cases "?y = None \<or> \<not> (b \<and> tx_id q = tx_id t \<and> \<not> tx_deleted q)")
    case True
    then have "kept q (note_first_response P t w)" using k n assms(2) by auto
    then show ?thesis using same by metis
  next
    case False
    then have "kept (?upd q) (note_first_response P t w)" using k n by auto
    then show ?thesis by blast
  qed
  show "kept q (note_first_response P t w)" if "tx_id t \<noteq> tx_id q"
    using k n assms(2) that by auto
qed

text \<open>An extension: a new deadline \<open>set\<close> writes, then the first response.\<close>

lemma kept_extension:
  assumes "alone P q" "kept q w" "\<And>r. tx_id (upd r) = tx_id r"
  shows "\<exists>q'. (q' = q \<or> q' = upd q) \<and> (\<exists>y. kept (q'\<lparr>tx_sla := (tx_sla q')\<lparr>sl_first_response_at := y\<rparr>\<rparr>)
           (note_first_response P t (snd (update_by_id (dn_t (sv_desk P)) (tx_id t) upd w))))"
    and "tx_id t \<noteq> tx_id q \<Longrightarrow> kept q (note_first_response P t (snd (update_by_id (dn_t (sv_desk P)) (tx_id t) upd w)))"
proof -
  obtain b w1 where u: "update_by_id (dn_t (sv_desk P)) (tx_id t) upd w = (b, w1)" by (metis surj_pair)
  note k = kept_update_by_id [OF u assms]
  let ?q = "if b \<and> tx_id q = tx_id t \<and> \<not> tx_deleted q then upd q else q"
  have "tx_id ?q = tx_id q" using assms(3) by simp
  then have "alone P ?q" using assms(1) by (simp only:)
  from kept_first_response(1) [OF this k, of t]
  show "\<exists>q'. (q' = q \<or> q' = upd q) \<and> (\<exists>y. kept (q'\<lparr>tx_sla := (tx_sla q')\<lparr>sl_first_response_at := y\<rparr>\<rparr>)
      (note_first_response P t (snd (update_by_id (dn_t (sv_desk P)) (tx_id t) upd w))))"
    using u by (intro exI [of _ ?q]) auto
  show "kept q (note_first_response P t (snd (update_by_id (dn_t (sv_desk P)) (tx_id t) upd w)))" if "tx_id t \<noteq> tx_id q"
  proof -
    have "kept q w1" using k that by auto
    then show ?thesis using kept_first_response(2) [OF assms(1) _ that] u by simp
  qed
qed

definition unanswered :: "sla_env \<Rightarrow> tick_settings \<Rightarrow> agent_transfer \<Rightarrow> bool" where
  "unanswered P S q \<longleftrightarrow> (\<forall>e. sl_expires_at (tx_sla q) = Some e \<longrightarrow>
     (\<exists>v. \<not> fst (agent_responded P q (e - hours (sc_auto_close_hours (ts_sla S))) v)))"

definition never_answered :: "sla_env \<Rightarrow> tick_settings \<Rightarrow> agent_transfer \<Rightarrow> bool" where
  "never_answered P S q \<longleftrightarrow> (\<forall>e v. sl_expires_at (tx_sla q) = Some e \<longrightarrow>
     \<not> fst (agent_responded P q (e - hours (sc_auto_close_hours (ts_sla S))) v))"

definition db_up :: "sla_env \<Rightarrow> bool" where
  "db_up P \<longleftrightarrow> (\<forall>v. te_ok (dn_t (sv_desk P)) v)"

definition expire_step :: "sla_env \<Rightarrow> tick_settings \<Rightarrow> time \<Rightarrow> agent_transfer \<Rightarrow> agent_transfer \<Rightarrow> bool" where
  "expire_step P S now q q' \<longleftrightarrow>
     (q' = expired_row now (tx_notes q @ expired_note) q \<and> unanswered P S q)
     \<or> ((\<exists>x y. q' = q\<lparr>tx_sla := (tx_sla q)\<lparr>sl_expires_at := x, sl_first_response_at := y\<rparr>\<rparr>)
        \<and> (tx_deleted q \<or> \<not> db_up P \<or> \<not> never_answered P S q))"

lemma expire_one_cases:
  obtains (extended) w1 e where "sl_expires_at (tx_sla t) = Some e"
      "agent_responded P t (e - hours (sc_auto_close_hours (ts_sla S))) w = (True, w1)"
      "expire_one P S now t w = note_first_response P t (snd (update_by_id (dn_t (sv_desk P)) (tx_id t)
         (\<lambda>r. r\<lparr>tx_sla := (tx_sla r)\<lparr>sl_expires_at := Some (now + hours (sc_auto_close_hours (ts_sla S)))\<rparr>\<rparr>) w1))"
  | (closed) w1 where "w1 = w \<and> sl_expires_at (tx_sla t) = None \<or>
        (\<exists>e. sl_expires_at (tx_sla t) = Some e \<and> agent_responded P t (e - hours (sc_auto_close_hours (ts_sla S))) w = (False, w1))"
      "expire_one P S now t w = snd (auto_close P now expired_note t
         (if ts_close_message S \<noteq> [] then send_sla_text P t (ts_close_message S) w1 else w1))"
proof (cases "sl_expires_at (tx_sla t)")
  case None
  then show ?thesis by (intro closed [of w]) (simp_all add: expire_one_def Let_def)
next
  case (Some e)
  obtain b w1 where a: "agent_responded P t (e - hours (sc_auto_close_hours (ts_sla S))) w = (b, w1)" by (metis surj_pair)
  show ?thesis
  proof (cases b)
    case True
    with Some a show ?thesis by (intro extended [of e w1]) (simp_all add: expire_one_def Let_def)
  next
    case False
    with Some a show ?thesis by (intro closed [of w1]) (simp_all add: expire_one_def Let_def)
  qed
qed

lemma expire_own:
  assumes "alone P q" "kept q w"
  shows "\<exists>q'. tx_id q' = tx_id q \<and> expire_step P S now q q' \<and> kept q' (expire_one P S now q w)"
proof (cases rule: expire_one_cases [of q P S w now])
  case (extended w1 e)
  let ?upd = "\<lambda>r. r\<lparr>tx_sla := (tx_sla r)\<lparr>sl_expires_at := Some (now + hours (sc_auto_close_hours (ts_sla S)))\<rparr>\<rparr>"
  have "kept q w1" by (rule kept_responded [OF extended(2) assms])
  then obtain q' y where q': "q' = q \<or> q' = ?upd q"
    "kept (q'\<lparr>tx_sla := (tx_sla q')\<lparr>sl_first_response_at := y\<rparr>\<rparr>) (expire_one P S now q w)"
    using kept_extension(1) [OF assms(1), of w1 ?upd q] extended(3) by auto
  let ?r = "q\<lparr>tx_sla := (tx_sla q)\<lparr>sl_expires_at := sl_expires_at (tx_sla q'), sl_first_response_at := y\<rparr>\<rparr>"
  have "q'\<lparr>tx_sla := (tx_sla q')\<lparr>sl_first_response_at := y\<rparr>\<rparr> = ?r" using q'(1) by auto
  then have "kept ?r (expire_one P S now q w)" using q'(2) by simp
  moreover have "\<not> never_answered P S q" using extended(1,2) unfolding never_answered_def by (metis fst_conv)
  ultimately show ?thesis unfolding expire_step_def by (intro exI [of _ ?r]) auto
next
  case (closed w1)
  let ?w = "if ts_close_message S \<noteq> [] then send_sla_text P q (ts_close_message S) w1 else w1"
  have "kept q w1" using closed(1) kept_responded [OF _ assms] assms(2) by blast
  then have "kept q ?w" by (simp add: kept_sla_text assms(1))
  moreover obtain b w2 where c: "auto_close P now expired_note q ?w = (b, w2)" by (metis surj_pair)
  ultimately have k: "kept (if b \<and> \<not> tx_deleted q then expired_row now (tx_notes q @ expired_note) q else q) (expire_one P S now q w)"
    using kept_auto_close [OF c assms(1)] closed(2) by simp
  have "unanswered P S q" using closed(1) unfolding unanswered_def by (metis fst_conv option.distinct(1) option.inject)
  moreover have "b \<or> \<not> db_up P" using auto_close_succeeds [of P] c unfolding db_up_def by (metis fst_conv)
  moreover have "q = q\<lparr>tx_sla := (tx_sla q)\<lparr>sl_expires_at := sl_expires_at (tx_sla q), sl_first_response_at := sl_first_response_at (tx_sla q)\<rparr>\<rparr>"
    by simp
  ultimately have "expire_step P S now q (if b \<and> \<not> tx_deleted q then expired_row now (tx_notes q @ expired_note) q else q)"
    unfolding expire_step_def by metis
  then show ?thesis using k by (intro exI conjI) (auto split: if_splits)
qed

lemma expire_other:
  assumes "alone P q" "tx_id t \<noteq> tx_id q" "kept q w"
  shows "kept q (expire_one P S now t w)"
proof (cases rule: expire_one_cases [of t P S w now])
  case (extended w1 e)
  then show ?thesis using kept_extension(2) [OF assms(1) kept_responded [OF extended(2) assms(1,3)] _ assms(2)] by simp
next
  case (closed w1)
  let ?w = "if ts_close_message S \<noteq> [] then send_sla_text P t (ts_close_message S) w1 else w1"
  have "kept q w1" using closed(1) kept_responded [OF _ assms(1,3)] assms(3) by blast
  then have "kept q ?w" by (simp add: kept_sla_text assms(1))
  moreover obtain b w2 where c: "auto_close P now expired_note t ?w = (b, w2)" by (metis surj_pair)
  ultimately show ?thesis using kept_auto_close [OF c assms(1)] closed(2) assms(2) by auto
qed

interpretation expire: row_pass P "expire_one P S now" "expire_step P S now" for P S now
  by unfold_locales (blast intro: expire_other, rule expire_own)

definition escalate_step :: "sla_env \<Rightarrow> time \<Rightarrow> agent_transfer \<Rightarrow> agent_transfer \<Rightarrow> bool" where
  "escalate_step P now q q' \<longleftrightarrow>
     q' = q\<lparr>tx_sla := escalated now (tx_sla q) (tx_sla q)\<rparr> \<and> (\<exists>since v. \<not> fst (agent_responded P q since v))
     \<or> (\<exists>x y. q' = q\<lparr>tx_sla := (tx_sla q)\<lparr>sl_escalation_at := x, sl_first_response_at := y\<rparr>\<rparr>)"

lemma escalate_one_cases:
  obtains (extended) since w1 w2 where "customer_last_spoke P t w = (since, w1)" "agent_responded P t since w1 = (True, w2)"
      "escalate_one P S now t w = note_first_response P t (snd (update_by_id (dn_t (sv_desk P)) (tx_id t)
         (\<lambda>r. r\<lparr>tx_sla := (tx_sla r)\<lparr>sl_escalation_at := Some (now + sc_escalation_minutes (ts_sla S) * minute)\<rparr>\<rparr>) w2))"
  | (raised) since w1 w2 b w3 where "customer_last_spoke P t w = (since, w1)" "agent_responded P t since w1 = (False, w2)"
      "update_by_id (dn_t (sv_desk P)) (tx_id t) (\<lambda>r. r\<lparr>tx_sla := escalated now (tx_sla t) (tx_sla r)\<rparr>) w2 = (b, w3)"
      "escalate_one P S now t w = (if b \<and> sl_level (tx_sla t) + 1 = 1 \<and> ts_warning S \<noteq> [] then send_sla_text P t (ts_warning S) w3 else w3)"
proof -
  obtain since w1 where s: "customer_last_spoke P t w = (since, w1)" by (metis surj_pair)
  obtain a w2 where a: "agent_responded P t since w1 = (a, w2)" by (metis surj_pair)
  obtain b w3 where u: "update_by_id (dn_t (sv_desk P)) (tx_id t) (\<lambda>r. r\<lparr>tx_sla := escalated now (tx_sla t) (tx_sla r)\<rparr>) w2 = (b, w3)"
    by (metis surj_pair)
  show ?thesis
  proof (cases a)
    case True
    then show ?thesis using s a by (intro extended [of since w1 w2]) (simp_all add: escalate_one_def Let_def)
  next
    case False
    then show ?thesis using s a u by (intro raised [of since w1 w2 b w3]) (cases b; simp add: escalate_one_def Let_def)+
  qed
qed

lemma escalate_own:
  assumes "alone P q" "kept q w"
  shows "\<exists>q'. tx_id q' = tx_id q \<and> escalate_step P now q q' \<and> kept q' (escalate_one P S now q w)"
proof (cases rule: escalate_one_cases [of P q w S now])
  case (extended since w1 w2)
  let ?upd = "\<lambda>r. r\<lparr>tx_sla := (tx_sla r)\<lparr>sl_escalation_at := Some (now + sc_escalation_minutes (ts_sla S) * minute)\<rparr>\<rparr>"
  have "kept q w2" by (rule kept_responded [OF extended(2) assms(1) kept_spoke [OF extended(1) assms]])
  then obtain q' y where q': "q' = q \<or> q' = ?upd q"
    "kept (q'\<lparr>tx_sla := (tx_sla q')\<lparr>sl_first_response_at := y\<rparr>\<rparr>) (escalate_one P S now q w)"
    using kept_extension(1) [OF assms(1), of w2 ?upd q] extended(3) by auto
  let ?r = "q\<lparr>tx_sla := (tx_sla q)\<lparr>sl_escalation_at := sl_escalation_at (tx_sla q'), sl_first_response_at := y\<rparr>\<rparr>"
  have "q'\<lparr>tx_sla := (tx_sla q')\<lparr>sl_first_response_at := y\<rparr>\<rparr> = ?r" using q'(1) by auto
  then have "kept ?r (escalate_one P S now q w)" using q'(2) by simp
  then show ?thesis unfolding escalate_step_def by (intro exI [of _ ?r]) auto
next
  case (raised since w1 w2 b w3)
  define r where "r = (if b \<and> \<not> tx_deleted q then q\<lparr>tx_sla := escalated now (tx_sla q) (tx_sla q)\<rparr> else q)"
  have "kept q w2" by (rule kept_responded [OF raised(2) assms(1) kept_spoke [OF raised(1) assms]])
  from kept_update_by_id [OF raised(3) assms(1) this] have k: "kept r w3" by (simp add: r_def)
  have i: "tx_id r = tx_id q" by (simp add: r_def)
  then have "alone P r" using assms(1) by simp
  then have k: "kept r (escalate_one P S now q w)" using k raised(4) by (simp add: kept_sla_text)
  have "\<not> fst (agent_responded P q since w1)" using raised(2) by simp
  moreover have "q = q\<lparr>tx_sla := (tx_sla q)\<lparr>sl_escalation_at := sl_escalation_at (tx_sla q), sl_first_response_at := sl_first_response_at (tx_sla q)\<rparr>\<rparr>"
    by simp
  ultimately have "escalate_step P now q r" unfolding escalate_step_def r_def by metis
  then show ?thesis using i k by blast
qed

lemma escalate_other:
  assumes "alone P q" "tx_id t \<noteq> tx_id q" "kept q w"
  shows "kept q (escalate_one P S now t w)"
proof (cases rule: escalate_one_cases [of P t w S now])
  case (extended since w1 w2)
  have "kept q w2" by (rule kept_responded [OF extended(2) assms(1) kept_spoke [OF extended(1) assms(1,3)]])
  then show ?thesis using kept_extension(2) [OF assms(1) _ _ assms(2)] extended(3) by simp
next
  case (raised since w1 w2 b w3)
  have "kept q w2" by (rule kept_responded [OF raised(2) assms(1) kept_spoke [OF raised(1) assms(1,3)]])
  from kept_update_by_id [OF raised(3) assms(1) this] have "kept q w3" using assms(2) by auto
  then show ?thesis using raised(4) by (simp add: kept_sla_text assms(1))
qed

interpretation escalate: row_pass P "escalate_one P S now" "escalate_step P now" for P S now
  by unfold_locales (blast intro: escalate_other, rule escalate_own)

definition idle_step :: "sla_env \<Rightarrow> time \<Rightarrow> agent_transfer \<Rightarrow> agent_transfer \<Rightarrow> bool" where
  "idle_step P now q q' \<longleftrightarrow>
     q' = expired_row now (tx_notes q @ idle_note) q \<or> q' = q \<and> (tx_deleted q \<or> \<not> db_up P)"

lemma kept_idle:
  assumes "alone P q" "kept q w"
  shows "tx_id t \<noteq> tx_id q \<Longrightarrow> kept q (idle_one P S now t w)"
    and "\<exists>q'. tx_id q' = tx_id q \<and> idle_step P now q q' \<and> kept q' (idle_one P S now q w)"
proof -
  obtain b w1 where c: "auto_close P now idle_note t w = (b, w1)" by (metis surj_pair)
  show "kept q (idle_one P S now t w)" if "tx_id t \<noteq> tx_id q"
    using kept_auto_close [OF c assms] that c by (cases b) (auto simp: idle_one_def kept_sla_text assms(1))
next
  obtain b w1 where c: "auto_close P now idle_note q w = (b, w1)" by (metis surj_pair)
  define r where "r = (if b \<and> \<not> tx_deleted q then expired_row now (tx_notes q @ idle_note) q else q)"
  have k: "kept r w1" using kept_auto_close [OF c assms] by (simp add: r_def)
  have i: "tx_id r = tx_id q" by (simp add: r_def)
  then have "alone P r" using assms(1) by simp
  then have "kept r (idle_one P S now q w)" using k c by (cases b) (simp_all add: idle_one_def kept_sla_text)
  moreover have "b \<or> \<not> db_up P" using auto_close_succeeds [of P] c unfolding db_up_def by (metis fst_conv)
  then have "idle_step P now q r" by (auto simp: idle_step_def r_def)
  ultimately show "\<exists>q'. tx_id q' = tx_id q \<and> idle_step P now q q' \<and> kept q' (idle_one P S now q w)" using i by blast
qed

interpretation idle: row_pass P "idle_one P S now" "idle_step P now" for P S now
  by unfold_locales (blast intro: kept_idle(1), rule kept_idle(2))

lemma kept_mark_breached:
  assumes "alone P q" "kept q w"
  shows "kept q (mark_sla_breached P S now w) \<or>
    unpicked_late (ts_org S) now q \<and> kept (q\<lparr>tx_sla := breach now (tx_sla q)\<rparr>) (mark_sla_breached P S now w)"
  using kept_alone [OF assms] kept_map [OF kept_alone [OF assms], of "\<lambda>t. t\<lparr>tx_sla := breach now (tx_sla t)\<rparr>" "unpicked_late (ts_org S) now"]
  by (auto simp: mark_sla_breached_def Let_def split: if_splits)

lemma kept_close_chatbot: "alone P q \<Longrightarrow> kept q w \<Longrightarrow> kept q (close_chatbot_session P S c w)"
  by (auto simp: close_chatbot_session_def Let_def kept_alone kept_send_text split: prod.split option.split dest: kept_account)

lemma kept_reminder:
  assumes "alone P q" "kept q w"
  shows "kept q (send_reminder P S c w)"
proof -
  obtain x w1 where a: "resolve_account P (ct_org c) (ct_account c) w = (x, w1)" by (metis surj_pair)
  obtain b w2 where s: "send_text P c (ts_reminder_message S) w1 = (b, w2)" by (metis surj_pair)
  have w1: "kept q w1" by (rule kept_account [OF a assms])
  have "kept q w2" using kept_send_text [OF assms(1) w1] s by (metis snd_conv)
  then show ?thesis using w1 assms a s
    by (cases b) (auto simp: send_reminder_def Let_def kept_alone split: option.split)
qed

lemma kept_silent:
  assumes "alone P q" "kept q w"
  shows "kept q (silent_one P S now x w)"
proof -
  obtain c wrote reminded where x: "x = (c, wrote, reminded)" by (metis prod_cases3)
  obtain b w1 where h: "has_active (dn_t (sv_desk P)) (ts_org S) (ct_id c) w = (b, w1)" by (metis surj_pair)
  then have "kept q w1" using kept_alone [OF assms] by (auto simp: has_active_def Let_def)
  then show ?thesis using assms(1) h
    by (cases b) (simp_all add: silent_one_def x kept_close_chatbot kept_reminder)
qed

lemma kept_client_inactivity:
  assumes "alone P q" "kept q w"
  shows "kept q (process_client_inactivity P S now w)"
proof -
  have "kept q (fold (silent_one P S now) xs v)" if "kept q v" for xs v
    using that by (induction xs arbitrary: v) (auto intro: kept_silent [OF assms(1)])
  then show ?thesis using assms
    by (auto simp: process_client_inactivity_def split: prod.split option.split dest: kept_read)
qed

section \<open>The tick keeps to the deadlines\<close>

text \<open>What no pass changes.\<close>

definition core :: "agent_transfer \<Rightarrow> uuid \<times> uuid \<times> uuid \<times> uuid option \<times> uuid option \<times> time \<times> bool \<times> time option \<times> time option" where
  "core q = (tx_id q, tx_org q, tx_contact q, tx_agent q, tx_team q, tx_at q, tx_deleted q,
     sl_picked_up_at (tx_sla q), sl_response_deadline (tx_sla q))"

definition expiry_due :: "sla_env \<Rightarrow> tick_settings \<Rightarrow> time \<Rightarrow> agent_transfer \<Rightarrow> bool" where
  "expiry_due P S now r \<longleftrightarrow> sc_enabled (ts_sla S) \<and> sc_auto_close_hours (ts_sla S) > 0
     \<and> tx_org r = ts_org S \<and> live r \<and> (\<exists>e. sl_expires_at (tx_sla r) = Some e \<and> e < now)"

lemma expiry_due_iff:
  "expiry_due P S now r \<longleftrightarrow> sc_enabled (ts_sla S) \<and> sc_auto_close_hours (ts_sla S) > 0 \<and> is_expired (ts_org S) now r"
  by (auto simp: expiry_due_def is_expired_def split: option.splits)

definition idle_due :: "sla_env \<Rightarrow> tick_settings \<Rightarrow> time \<Rightarrow> agent_transfer \<Rightarrow> bool" where
  "idle_due P S now r \<longleftrightarrow> ts_close_idle S \<and> ts_idle_minutes S > 0 \<and> tx_org r = ts_org S \<and> live r
     \<and> tx_at r < now - ts_idle_minutes S * minute \<and> (\<forall>p. sl_picked_up_at (tx_sla r) = Some p \<longrightarrow> p < now - ts_idle_minutes S * minute)
     \<and> (\<exists>v m. sv_last_message P (tx_contact r) v = Some m \<and> m < now - ts_idle_minutes S * minute)"

definition escalation_due :: "tick_settings \<Rightarrow> time \<Rightarrow> agent_transfer \<Rightarrow> bool" where
  "escalation_due S now r \<longleftrightarrow> tx_org r = ts_org S \<and> live r \<and> sl_level (tx_sla r) < 2
     \<and> (\<exists>e. sl_escalation_at (tx_sla r) = Some e \<and> e < now)"

lemma escalation_due_iff: "may_escalate (ts_org S) now r \<longleftrightarrow> escalation_due S now r"
  by (auto simp: may_escalate_def escalation_due_def split: option.splits)

definition response_late :: "time \<Rightarrow> agent_transfer \<Rightarrow> bool" where
  "response_late now r \<longleftrightarrow> live r \<and> (\<exists>d. sl_response_deadline (tx_sla r) = Some d \<and> d < now)"

lemma response_late_iff: "past_response now (tx_sla r) \<and> live r \<longleftrightarrow> response_late now r"
  by (auto simp: past_response_def response_late_def split: option.splits)

lemma after_expire:
  assumes "alone P r" "kept r w"
  shows "\<exists>r1. kept r1 (if sc_enabled (ts_sla S) \<and> sc_auto_close_hours (ts_sla S) > 0 then auto_close_expired P S now w else w)
    \<and> core r1 = core r \<and> sl_level (tx_sla r1) = sl_level (tx_sla r) \<and> sl_breached (tx_sla r1) = sl_breached (tx_sla r)
    \<and> sl_escalation_at (tx_sla r1) = sl_escalation_at (tx_sla r)
    \<and> (tx_status r1 = tx_status r \<or> tx_status r1 = TExpired \<and> expiry_due P S now r \<and> unanswered P S r)
    \<and> (db_up P \<and> expiry_due P S now r \<and> never_answered P S r \<longrightarrow> tx_status r1 = TExpired)"
proof (cases "sc_enabled (ts_sla S) \<and> sc_auto_close_hours (ts_sla S) > 0")
  case True
  obtain r1 where r1: "kept r1 (auto_close_expired P S now w)"
      "r1 = r \<and> \<not> (\<forall>v. te_ok (dn_t (sv_desk P)) v \<and> is_expired (ts_org S) now r) \<or> is_expired (ts_org S) now r \<and> expire_step P S now r r1"
    using expire.pass_row [OF assms, of "\<lambda>v. is_expired (ts_org S) now" S now] unfolding auto_close_expired_def by blast
  then show ?thesis using True
    by (intro exI [of _ r1]) (auto simp: core_def expiry_due_def expire_step_def expired_row_def db_up_def is_expired_def live_def split: option.splits)
next
  case False
  then show ?thesis using assms by (auto simp: expiry_due_def)
qed

lemma after_escalate:
  assumes "alone P r" "kept r w"
  shows "\<exists>r1. kept r1 (if sc_enabled (ts_sla S) \<and> sc_escalation_minutes (ts_sla S) > 0 then escalate_transfers P S now w else w)
    \<and> core r1 = core r \<and> tx_status r1 = tx_status r
    \<and> (sl_level (tx_sla r1) = sl_level (tx_sla r) \<or> sl_level (tx_sla r1) = sl_level (tx_sla r) + 1 \<and> may_escalate (ts_org S) now r)
    \<and> (sl_breached (tx_sla r1) \<longrightarrow> sl_breached (tx_sla r) \<or> past_response now (tx_sla r) \<and> live r)"
proof (cases "sc_enabled (ts_sla S) \<and> sc_escalation_minutes (ts_sla S) > 0")
  case True
  obtain r1 where r1: "kept r1 (escalate_transfers P S now w)"
      "r1 = r \<or> may_escalate (ts_org S) now r \<and> escalate_step P now r r1"
    using escalate.pass_row [OF assms, of "\<lambda>v. may_escalate (ts_org S) now" S now] unfolding escalate_transfers_def by blast
  then show ?thesis using True
    by (intro exI [of _ r1])
      (auto simp: core_def escalate_step_def escalated_def breach_def Let_def may_escalate_def split: if_splits)
next
  case False
  then show ?thesis using assms by auto
qed

lemma after_breach:
  assumes "alone P r" "kept r w"
  shows "\<exists>r1. kept r1 (if sc_enabled (ts_sla S) \<and> sc_response_minutes (ts_sla S) > 0 then mark_sla_breached P S now w else w)
    \<and> core r1 = core r \<and> tx_status r1 = tx_status r \<and> sl_level (tx_sla r1) = sl_level (tx_sla r)
    \<and> (sl_breached (tx_sla r1) \<longrightarrow> sl_breached (tx_sla r) \<or> past_response now (tx_sla r) \<and> live r)"
  using kept_mark_breached [OF assms, of S now] assms(2)
  by (cases "sc_enabled (ts_sla S) \<and> sc_response_minutes (ts_sla S) > 0")
    (auto simp: core_def breach_def unpicked_late_def)

lemma after_idle:
  assumes "alone P r" "kept r w"
  shows "\<exists>r1. kept r1 (if ts_close_idle S then close_inactive P S now w else w)
    \<and> core r1 = core r \<and> sl_level (tx_sla r1) = sl_level (tx_sla r) \<and> sl_breached (tx_sla r1) = sl_breached (tx_sla r)
    \<and> (tx_status r1 = tx_status r \<or> tx_status r1 = TExpired \<and> idle_due P S now r)"
proof (cases "ts_close_idle S \<and> ts_idle_minutes S > 0")
  case True
  obtain r1 where r1: "kept r1 (close_inactive P S now w)"
      "r1 = r \<or> (\<exists>v. is_idle P (ts_org S) (idle_limit S now) v r) \<and> idle_step P now r r1"
    using idle.pass_row [OF assms, of "is_idle P (ts_org S) (idle_limit S now)" S now] True by (auto simp: close_inactive_def)
  then show ?thesis using True
    by (intro exI [of _ r1]) (auto simp: core_def idle_step_def expired_row_def idle_due_def is_idle_def idle_limit_def split: option.splits)
next
  case False
  then show ?thesis using assms(2) by (auto simp: close_inactive_def)
qed

lemma core_id: "core a = core b \<Longrightarrow> tx_id a = tx_id b"
  by (simp add: core_def)

lemma core_live: "core a = core b \<Longrightarrow> tx_status a = tx_status b \<Longrightarrow> live a = live b"
  by (simp add: core_def live_def)

lemma core_late: "core a = core b \<Longrightarrow> past_response now (tx_sla a) = past_response now (tx_sla b)"
  by (simp add: core_def past_response_def)

lemma core_escalate: "core a = core b \<Longrightarrow> tx_status a = tx_status b \<Longrightarrow> sl_level (tx_sla a) = sl_level (tx_sla b) \<Longrightarrow>
    sl_escalation_at (tx_sla a) = sl_escalation_at (tx_sla b) \<Longrightarrow> may_escalate org now a = may_escalate org now b"
  by (simp add: core_def may_escalate_def live_def)

lemma core_idle: "core a = core b \<Longrightarrow> tx_status a = tx_status b \<Longrightarrow> idle_due P S now a = idle_due P S now b"
  by (simp add: core_def idle_due_def live_def)

lemma expired_not_live: "tx_status a = TExpired \<Longrightarrow> \<not> live a"
  by (simp add: live_def)

text \<open>The row after each pass of the tick.\<close>

lemma tick_stages:
  assumes "alone P r" "kept r (sw_world s)"
  obtains r1 r2 r3 q where
    "core r1 = core r" "sl_level (tx_sla r1) = sl_level (tx_sla r)" "sl_breached (tx_sla r1) = sl_breached (tx_sla r)"
    "sl_escalation_at (tx_sla r1) = sl_escalation_at (tx_sla r)"
    "tx_status r1 = tx_status r \<or> tx_status r1 = TExpired \<and> expiry_due P S now r \<and> unanswered P S r"
    "db_up P \<and> expiry_due P S now r \<and> never_answered P S r \<longrightarrow> tx_status r1 = TExpired"
    "core r2 = core r1" "tx_status r2 = tx_status r1"
    "sl_level (tx_sla r2) = sl_level (tx_sla r1) \<or> sl_level (tx_sla r2) = sl_level (tx_sla r1) + 1 \<and> may_escalate (ts_org S) now r1"
    "sl_breached (tx_sla r2) \<longrightarrow> sl_breached (tx_sla r1) \<or> past_response now (tx_sla r1) \<and> live r1"
    "core r3 = core r2" "tx_status r3 = tx_status r2" "sl_level (tx_sla r3) = sl_level (tx_sla r2)"
    "sl_breached (tx_sla r3) \<longrightarrow> sl_breached (tx_sla r2) \<or> past_response now (tx_sla r2) \<and> live r2"
    "core q = core r3" "sl_level (tx_sla q) = sl_level (tx_sla r3)" "sl_breached (tx_sla q) = sl_breached (tx_sla r3)"
    "tx_status q = tx_status r3 \<or> tx_status q = TExpired \<and> idle_due P S now r3"
    "kept q (sw_world (process_organization_sla P now S s))"
proof -
  define w1 where "w1 = (if sc_enabled (ts_sla S) \<and> sc_auto_close_hours (ts_sla S) > 0 then auto_close_expired P S now (sw_world s) else sw_world s)"
  define w2 where "w2 = (if sc_enabled (ts_sla S) \<and> sc_escalation_minutes (ts_sla S) > 0 then escalate_transfers P S now w1 else w1)"
  define w3 where "w3 = (if sc_enabled (ts_sla S) \<and> sc_response_minutes (ts_sla S) > 0 then mark_sla_breached P S now w2 else w2)"
  define w4 where "w4 = (if sc_enabled (ts_sla S) \<and> ts_reminder_enabled S then process_client_inactivity P S now w3 else w3)"
  define w5 where "w5 = (if ts_close_idle S then close_inactive P S now w4 else w4)"
  note w = w1_def w2_def w3_def w4_def w5_def
  from after_expire [OF assms, of S now] obtain r1 where r1: "kept r1 w1" "core r1 = core r"
    "sl_level (tx_sla r1) = sl_level (tx_sla r)" "sl_breached (tx_sla r1) = sl_breached (tx_sla r)"
    "sl_escalation_at (tx_sla r1) = sl_escalation_at (tx_sla r)"
    "tx_status r1 = tx_status r \<or> tx_status r1 = TExpired \<and> expiry_due P S now r \<and> unanswered P S r"
    "db_up P \<and> expiry_due P S now r \<and> never_answered P S r \<longrightarrow> tx_status r1 = TExpired" unfolding w(1) by blast
  have a1: "alone P r1" using assms(1) core_id [OF r1(2)] by simp
  from after_escalate [OF a1 r1(1), of S now] obtain r2 where r2: "kept r2 w2" "core r2 = core r1" "tx_status r2 = tx_status r1"
    "sl_level (tx_sla r2) = sl_level (tx_sla r1) \<or> sl_level (tx_sla r2) = sl_level (tx_sla r1) + 1 \<and> may_escalate (ts_org S) now r1"
    "sl_breached (tx_sla r2) \<longrightarrow> sl_breached (tx_sla r1) \<or> past_response now (tx_sla r1) \<and> live r1" unfolding w(2) by blast
  have a2: "alone P r2" using a1 core_id [OF r2(2)] by simp
  from after_breach [OF a2 r2(1), of S now] obtain r3 where r3: "kept r3 w3" "core r3 = core r2" "tx_status r3 = tx_status r2"
    "sl_level (tx_sla r3) = sl_level (tx_sla r2)"
    "sl_breached (tx_sla r3) \<longrightarrow> sl_breached (tx_sla r2) \<or> past_response now (tx_sla r2) \<and> live r2" unfolding w(3) by blast
  have a3: "alone P r3" using a2 core_id [OF r3(2)] by simp
  have "kept r3 w4" using r3(1) kept_client_inactivity [OF a3 r3(1)] w(4) by simp
  from after_idle [OF a3 this, of S now] obtain q where q: "kept q w5" "core q = core r3"
    "sl_level (tx_sla q) = sl_level (tx_sla r3)" "sl_breached (tx_sla q) = sl_breached (tx_sla r3)"
    "tx_status q = tx_status r3 \<or> tx_status q = TExpired \<and> idle_due P S now r3" unfolding w(5) by blast
  have "alone P q" using a3 core_id [OF q(2)] by simp
  with q(1) have "kept q (sw_world (process_organization_sla P now S s))"
    by (auto simp: process_organization_sla_def process_occurrence_sla_def process_sales_sla_def Let_def w kept_alone)
  then show ?thesis by (rule that [OF r1(2-7) r2(2-5) r3(2-5) q(2-5)])
qed

text \<open>C20 (safety).
  Whatever other processes do to other attendances between any two statements, a tick of the SLA
  processor treats an attendance by its own deadlines: it never changes its agent or team; it closes it
  only when its expiry has passed with no answer of its agent found, or when the attendance, its pickup
  and the contact's last message are all older than the idle limit; it raises the escalation by at most
  one, from a level below two and past the escalation time; it marks a breach only past the response
  deadline. And when the database answers, an expired attendance whose agent never answers is closed by
  that very tick.
\<close>
theorem tick_respects_deadlines:
  assumes "r \<in> set (tw_rows (sw_world s))" "distinct (map tx_id (tw_rows (sw_world s)))"
    and "only_we_write (dn_t (sv_desk P)) (tx_id r)"
  shows "\<exists>q \<in> set (tw_rows (sw_world (process_organization_sla P now S s))).
    tx_id q = tx_id r \<and> tx_agent q = tx_agent r \<and> tx_team q = tx_team r
    \<and> (tx_status q = tx_status r \<or> tx_status q = TExpired
        \<and> (expiry_due P S now r \<and> unanswered P S r \<or> idle_due P S now r))
    \<and> (sl_level (tx_sla q) = sl_level (tx_sla r)
        \<or> sl_level (tx_sla q) = sl_level (tx_sla r) + 1 \<and> escalation_due S now r)
    \<and> (sl_breached (tx_sla q) \<longrightarrow> sl_breached (tx_sla r) \<or> response_late now r)
    \<and> (db_up P \<and> expiry_due P S now r \<and> never_answered P S r \<longrightarrow> tx_status q = TExpired)"
proof -
  have "kept r (sw_world s)" using assms(1,2) by (simp add: kept_def)
  then obtain r1 r2 r3 q where r1: "core r1 = core r" "sl_level (tx_sla r1) = sl_level (tx_sla r)" "sl_breached (tx_sla r1) = sl_breached (tx_sla r)"
      "sl_escalation_at (tx_sla r1) = sl_escalation_at (tx_sla r)"
      "tx_status r1 = tx_status r \<or> tx_status r1 = TExpired \<and> expiry_due P S now r \<and> unanswered P S r"
      "db_up P \<and> expiry_due P S now r \<and> never_answered P S r \<longrightarrow> tx_status r1 = TExpired"
    and r2: "core r2 = core r1" "tx_status r2 = tx_status r1"
      "sl_level (tx_sla r2) = sl_level (tx_sla r1) \<or> sl_level (tx_sla r2) = sl_level (tx_sla r1) + 1 \<and> may_escalate (ts_org S) now r1"
      "sl_breached (tx_sla r2) \<longrightarrow> sl_breached (tx_sla r1) \<or> past_response now (tx_sla r1) \<and> live r1"
    and r3: "core r3 = core r2" "tx_status r3 = tx_status r2" "sl_level (tx_sla r3) = sl_level (tx_sla r2)"
      "sl_breached (tx_sla r3) \<longrightarrow> sl_breached (tx_sla r2) \<or> past_response now (tx_sla r2) \<and> live r2"
    and q: "core q = core r3" "sl_level (tx_sla q) = sl_level (tx_sla r3)" "sl_breached (tx_sla q) = sl_breached (tx_sla r3)"
      "tx_status q = tx_status r3 \<or> tx_status q = TExpired \<and> idle_due P S now r3"
      "kept q (sw_world (process_organization_sla P now S s))"
    by (rule tick_stages [OF assms(3)])
  have c: "core r2 = core r" "core r3 = core r" "core q = core r" using r1(1) r2(1) r3(1) q(1) by simp_all
  have open1: "tx_status r1 = tx_status r" if "live r1" using that expired_not_live r1(5) by blast
  have level: "sl_level (tx_sla q) = sl_level (tx_sla r) \<or> sl_level (tx_sla q) = sl_level (tx_sla r) + 1 \<and> may_escalate (ts_org S) now r"
    using q(2) r3(3) r2(3) r1(2) core_escalate [OF r1(1) open1 r1(2,4)] by (auto simp: may_escalate_def)
  have "live r1 \<Longrightarrow> live r" using core_live [OF r1(1)] open1 by blast
  then have breached: "sl_breached (tx_sla q) \<longrightarrow> sl_breached (tx_sla r) \<or> past_response now (tx_sla r) \<and> live r"
    using q(3) r3(4) r2(4) r1(3) core_late [OF r1(1)] core_late [OF c(1)] core_live [OF r2(1,2)] by auto
  have "tx_status r3 = tx_status r \<Longrightarrow> idle_due P S now r3 = idle_due P S now r" by (rule core_idle [OF c(2)])
  then have status: "tx_status q = tx_status r \<or> tx_status q = TExpired \<and> (expiry_due P S now r \<and> unanswered P S r \<or> idle_due P S now r)"
    using q(4) r3(2) r2(2) r1(5) by metis
  have "db_up P \<and> expiry_due P S now r \<and> never_answered P S r \<longrightarrow> tx_status q = TExpired"
    using r1(6) r2(2) r3(2) q(4) by metis
  moreover have "tx_id q = tx_id r" "tx_agent q = tx_agent r" "tx_team q = tx_team r" using c(3) by (simp_all add: core_def)
  ultimately show ?thesis using level breached status q(5) unfolding kept_def escalation_due_iff response_late_iff by blast
qed

text \<open>An attendance past its expiry, its escalation time and its response deadline, on a quiet database.\<close>

definition sample_late :: agent_transfer where
  "sample_late = sample_owned\<lparr>tx_sla := (tx_sla sample_owned)\<lparr>sl_expires_at := Some 10, sl_escalation_at := Some 10, sl_response_deadline := Some 10\<rparr>\<rparr>"

definition sample_sla_env :: sla_env where
  "sample_sla_env = \<lparr> sv_desk = sample_desk True, sv_contacts = (\<lambda>_ _. [7]), sv_last_incoming = (\<lambda>_ _. Some 5),
     sv_responded = (\<lambda>_ _ _ _. False), sv_last_message = (\<lambda>_ _. Some 5), sv_account = (\<lambda>_ _ _. True), sv_send = (\<lambda>_ _ _. True) \<rparr>"

definition sample_tick :: "int \<Rightarrow> int \<Rightarrow> tick_settings" where
  "sample_tick close_hours idle = \<lparr> ts_org = 1,
     ts_sla = \<lparr> sc_enabled = True, sc_response_minutes = 15, sc_resolution_minutes = 60, sc_escalation_minutes = 30, sc_auto_close_hours = close_hours \<rparr>,
     ts_close_message = ''bye'', ts_warning = ''soon'', ts_reminder_enabled = True, ts_reminder_minutes = 0, ts_reminder_message = [],
     ts_idle_minutes = idle, ts_idle_message = ''closed'', ts_close_idle = False, ts_occurrences = False, ts_sales = False \<rparr>"

definition late_world :: sla_world where
  "late_world = \<lparr> sw_world = empty_tworld\<lparr>tw_rows := [sample_late, sample_waiting]\<rparr>, sw_occurrences = [], sw_sales = [] \<rparr>"

lemma tick_respects_deadlines_witness:
  "\<exists>q \<in> set (tw_rows (sw_world (process_organization_sla sample_sla_env (30 * minute) (sample_tick 24 0) late_world))).
     tx_id q = 100 \<and> tx_agent q = Some 9 \<and> tx_status q = TExpired"
proof -
  let ?w = "tw_rows (sw_world late_world)"
  have "sample_late \<in> set ?w" by (simp add: late_world_def)
  moreover have "distinct (map tx_id ?w)" by code_simp
  moreover have "only_we_write (dn_t (sv_desk sample_sla_env)) (tx_id sample_late)"
    by (simp add: only_we_write_def only_we_touch_def sample_sla_env_def sample_desk_def sample_tenv_def)
  moreover have "db_up sample_sla_env" by (simp add: db_up_def sample_sla_env_def sample_desk_def sample_tenv_def)
  moreover have "expiry_due sample_sla_env (sample_tick 24 0) (30 * minute) sample_late" unfolding expiry_due_iff by code_simp
  moreover have "never_answered sample_sla_env (sample_tick 24 0) sample_late"
    by (simp add: never_answered_def agent_responded_def sample_sla_env_def Let_def split: option.split)
  moreover have "tx_id sample_late = 100" "tx_agent sample_late = Some 9" by code_simp+
  ultimately show ?thesis using tick_respects_deadlines [of sample_late late_world sample_sla_env "30 * minute" "sample_tick 24 0"] by metis
qed

text \<open>An escalation leaves the escalation time where it is: the next tick, a minute later, makes it critical.\<close>

lemma critical_one_tick_later:
  "let tick = (\<lambda>n. process_organization_sla sample_sla_env (n * minute) (sample_tick 0 0));
       levels = (\<lambda>s. map (sl_level \<circ> tx_sla) (filter (\<lambda>t. tx_id t = 100) (tw_rows (sw_world s))))
   in levels (tick 30 late_world) = [1] \<and> levels (tick 31 (tick 30 late_world)) = [2]"
  by code_simp

text \<open>The chatbot session of a silent customer is announced closed, and stays as it was.\<close>

lemma silent_customer_keeps_the_session:
  "let w = process_client_inactivity sample_sla_env (sample_tick 0 60) (60 * minute) (empty_tworld\<lparr>tw_chatbot_at := (\<lambda>_. Some 0)\<rparr>)
   in tw_sent w = [(7, ''closed'')] \<and> tw_chatbot_at w 7 = None \<and> tw_sessions_ended w = []"
  by code_simp

end
