(* ===== verification/Ivr_Runner.thy ===== *)
theory Ivr_Runner
  imports Flow_Graph Business_Hours "HOL-Library.Word" "HOL-Library.Sublist"
begin

text \<open>
  The telephone menus: the digits of a call (\<open>internal/calling/dtmf.go\<close>), the end of a call session
  (\<open>session.go\<close>) and the runner that walks an IVR flow while the call is answered (\<open>ivr.go\<close>,
  \<open>http_callback.go\<close>). What the caller does, the audio player, the HTTP service, the agents and the clock
  are parameters, asked at successive moments (\<open>is_tick\<close>) of the call. The loop of the code has no bound:
  it runs on fuel here, and a run says whether the fuel was enough. RTP sequence numbers, the player
  objects and the log are left out. The digits are decoded from the bytes a track gives; the runner's own
  part of that is abstracted into what the caller does.
\<close>

section \<open>Digits\<close>

unbundle bit_operations_syntax

definition dtmf_digit :: "8 word \<Rightarrow> char option" where
  "dtmf_digit e =
     (if e \<le> 9 then Some (char_of (48 + unat e)) else if e = 10 then Some CHR ''*'' else if e = 11 then Some CHR ''#'' else None)"

text \<open>A packet is its event and its end bit; the state is the last packet, at first an impossible one.\<close>

type_synonym packet = "8 word \<times> bool"

definition decode_dtmf_event :: "packet \<Rightarrow> packet \<Rightarrow> char option" where
  "decode_dtmf_event prev p =
     (if snd p \<and> (fst prev \<noteq> fst p \<or> \<not> snd prev) then dtmf_digit (fst p) else None)"

definition no_packet :: packet where "no_packet = (0xFF, False)"

text \<open>The buffer of a session holds 32 digits; a digit that finds it full is dropped.\<close>

definition send_dtmf_digit :: "string \<Rightarrow> char \<Rightarrow> string" where
  "send_dtmf_digit buffer d = (if length buffer < 32 then buffer @ [d] else buffer)"

text \<open>
  The first two bytes of a payload of at least four: the event, and the end bit on top of the second byte.
  The reader of a track goes on with the bytes each read gives, while the menus take digits from the buffer
  (\<open>DigitTaken\<close>; on an empty buffer they wait), or discard them. The reader ends when a read fails: that is
  the end of the list of events. \<open>tr_taken\<close> are the digits that left the buffer.
\<close>

definition telephone_event :: "8 word list \<Rightarrow> packet option" where
  "telephone_event bs = (if length bs < 4 then None else Some (bs ! 0, bs ! 1 AND 0x80 \<noteq> 0))"

datatype 'a track_event = TrackRead 'a | DigitTaken

record dtmf_track =
  tr_last :: packet
  tr_buffer :: string
  tr_taken :: string

definition read_payload :: "8 word list \<Rightarrow> dtmf_track \<Rightarrow> dtmf_track" where
  "read_payload bs t =
     (case telephone_event bs of
        None \<Rightarrow> t
      | Some p \<Rightarrow>
          (case decode_dtmf_event (tr_last t) p of
             None \<Rightarrow> t\<lparr>tr_last := p\<rparr>
           | Some d \<Rightarrow> t\<lparr>tr_last := p, tr_buffer := send_dtmf_digit (tr_buffer t) d\<rparr>))"

definition take_digit :: "dtmf_track \<Rightarrow> dtmf_track" where
  "take_digit t = (case tr_buffer t of [] \<Rightarrow> t | d # ds \<Rightarrow> t\<lparr>tr_buffer := ds, tr_taken := tr_taken t @ [d]\<rparr>)"

fun track_step :: "8 word list track_event \<Rightarrow> dtmf_track \<Rightarrow> dtmf_track" where
  "track_step (TrackRead bs) t = read_payload bs t"
| "track_step DigitTaken t = take_digit t"

definition new_track :: dtmf_track where
  "new_track = \<lparr>tr_last = no_packet, tr_buffer = [], tr_taken = []\<rparr>"

definition handle_dtmf_track :: "8 word list track_event list \<Rightarrow> dtmf_track" where
  "handle_dtmf_track evs = fold track_step evs new_track"

text \<open>On a track the events share with the audio, a packet of the audio's own payload type is passed over.\<close>

fun audio_step :: "8 word \<Rightarrow> (8 word \<times> 8 word list) track_event \<Rightarrow> dtmf_track \<Rightarrow> dtmf_track" where
  "audio_step audio_pt (TrackRead (pt, payload)) t = (if pt \<noteq> audio_pt then read_payload payload t else t)"
| "audio_step audio_pt DigitTaken t = take_digit t"

definition consume_audio_with_dtmf :: "8 word \<Rightarrow> (8 word \<times> 8 word list) track_event list \<Rightarrow> dtmf_track" where
  "consume_audio_with_dtmf audio_pt evs = fold (audio_step audio_pt) evs new_track"

section \<open>The end of a call\<close>

datatype call_status =
  CallRinging | CallAnswered | CallCompleted | CallMissed | CallRejected | CallFailed | CallTransferring | CallInitiating | CallAccepted

datatype call_transfer_status = XWaiting | XConnected | XCompleted | XAbandoned | XNoAnswer

text \<open>
  \<open>cs_listed\<close>: the session is in the manager's map, its resources are not yet released. \<open>cs_waiter\<close> is the
  IVR loop that waits for a transfer: nobody waits, one waits, or it was sent an outcome (an empty one when
  the channel was closed).
\<close>

datatype waiter = NoWaiter | WaitsForTransfer | Told string

record call_session =
  cs_status :: call_status
  cs_transfer_id :: uuid
  cs_transfer :: "call_transfer_status option"
  cs_waiter :: waiter
  cs_listed :: bool

definition release_session :: "call_session \<Rightarrow> call_session" where
  "release_session s = s\<lparr>cs_listed := False,
     cs_waiter := (case cs_waiter s of WaitsForTransfer \<Rightarrow> Told [] | x \<Rightarrow> x)\<rparr>"

text \<open>\<open>cleanupSession\<close> and \<open>HandleCallerHangupDuringTransfer\<close> call each other, at most once.\<close>

definition cleanup_idle :: "call_session \<Rightarrow> call_session" where
  "cleanup_idle s = (if cs_listed s then release_session s else s)"

definition hangup_during_transfer :: "call_session \<Rightarrow> call_session" where
  "hangup_during_transfer s =
     (if cs_transfer_id s = 0 \<or> cs_transfer s \<noteq> Some XWaiting then s
      else (let s1 = s\<lparr>cs_transfer := Some XAbandoned\<rparr> in
        if cs_waiter s = WaitsForTransfer then s1\<lparr>cs_waiter := Told ''abandoned''\<rparr> else cleanup_idle s1))"

definition cleanup_session :: "call_session \<Rightarrow> call_session" where
  "cleanup_session s =
     (if \<not> cs_listed s then s else if cs_transfer s = Some XWaiting then hangup_during_transfer s else release_session s)"

definition end_call :: "call_session \<Rightarrow> call_session" where
  "end_call s =
     (if cs_listed s \<and> cs_transfer s = Some XWaiting then hangup_during_transfer s else cleanup_session s)"

text \<open>\<open>HandleCallEvent\<close>; \<open>end_transfer\<close> is the manager's \<open>EndTransfer\<close>, for a connected one.\<close>

definition handle_call_event :: "(call_session \<Rightarrow> call_session) \<Rightarrow> string \<Rightarrow> call_session \<Rightarrow> call_session" where
  "handle_call_event end_transfer event s =
     (if \<not> cs_listed s then s
      else if event \<in> {''in_call'', ''connect''} then s\<lparr>cs_status := CallAnswered\<rparr>
      else if event \<in> {''ended'', ''terminate'', ''missed'', ''unanswered''} then
        (case cs_transfer s of
           Some XWaiting \<Rightarrow> hangup_during_transfer s
         | Some XConnected \<Rightarrow> end_transfer s
         | _ \<Rightarrow> cleanup_session (s\<lparr>cs_status := CallCompleted\<rparr>))
      else s)"

section \<open>Flows and the state of a run\<close>

datatype ivr_type = IGreeting | IMenu | IGather | IHttpCallback | ITransfer | IGotoFlow | ITiming | IHangup | IOther string

fun ivr_type_name :: "ivr_type \<Rightarrow> string" where
  "ivr_type_name IGreeting = ''greeting''"
| "ivr_type_name IMenu = ''menu''"
| "ivr_type_name IGather = ''gather''"
| "ivr_type_name IHttpCallback = ''http_callback''"
| "ivr_type_name ITransfer = ''transfer''"
| "ivr_type_name IGotoFlow = ''goto_flow''"
| "ivr_type_name ITiming = ''timing''"
| "ivr_type_name IHangup = ''hangup''"
| "ivr_type_name (IOther s) = s"

type_synonym ivr_node = "ivr_type fnode"
type_synonym ivr_graph = "ivr_type fgraph"

record ivr_flow =
  if_id :: uuid
  if_name :: string
  if_active :: bool
  if_menu :: "ivr_type graph_blob"

text \<open>An entry of the path is a small JSON object of strings, written with its keys in this order.\<close>

type_synonym ivr_entry = "(string \<times> string) list"

record http_request =
  hr_url :: string
  hr_method :: string
  hr_headers :: "(string \<times> string) list"
  hr_body :: string

text \<open>
  \<open>is_flow\<close> is the flow of the session, \<open>is_saved\<close> and \<open>is_log_flow\<close> columns of the call log,
  \<open>is_requests\<close>, \<open>is_transfers\<close> and \<open>is_hangups\<close> what the run did outside.
\<close>

record ivr_state =
  is_flow :: "ivr_flow option"
  is_vars :: "(string \<times> string) list"
  is_path :: "ivr_entry list"
  is_tick :: nat
  is_saved :: "ivr_entry list option"
  is_log_flow :: "uuid option"
  is_requests :: "http_request list"
  is_transfers :: "string list"
  is_hangups :: nat

text \<open>What a wait for a digit ends with: a digit, the timeout, or the closing of the channel.\<close>

datatype heard = Pressed char | Silence | Closed

text \<open>
  \<open>ie_prompt\<close>: the audio of a prompt that can be interrupted was interrupted, or played to its end.
  \<open>ie_order\<close> is the order in which Go visits a map; \<open>ie_transfer\<close> what a waiting run is told.
\<close>

record ivr_env =
  ie_answered :: "nat \<Rightarrow> bool"
  ie_heard :: "nat \<Rightarrow> heard"
  ie_prompt :: "nat \<Rightarrow> heard option"
  ie_audio :: bool
  ie_http :: "http_request \<Rightarrow> nat \<Rightarrow> (int \<times> string) option"
  ie_order :: "(string \<times> string) list \<Rightarrow> (string \<times> string) list"
  ie_clock :: "nat \<Rightarrow> clock"
  ie_transfer :: "nat \<Rightarrow> string"
  ie_parse :: "string \<Rightarrow> uuid option"
  ie_flow :: "uuid \<Rightarrow> ivr_flow option"
  ie_log_ok :: "nat \<Rightarrow> bool"
  ie_logged :: bool
  ie_phone :: string
  ie_call :: string

definition later :: "ivr_state \<Rightarrow> ivr_state" where
  "later st = st\<lparr>is_tick := Suc (is_tick st)\<rparr>"

definition set_var :: "string \<Rightarrow> string \<Rightarrow> ivr_state \<Rightarrow> ivr_state" where
  "set_var k v st = st\<lparr>is_vars := AList.update k v (is_vars st)\<rparr>"

definition add_path :: "ivr_entry \<Rightarrow> ivr_state \<Rightarrow> ivr_state" where
  "add_path e st = st\<lparr>is_path := is_path st @ [e]\<rparr>"

definition save_ivr_path :: "ivr_env \<Rightarrow> ivr_state \<Rightarrow> ivr_state" where
  "save_ivr_path E st =
     (if is_path st = [] \<or> \<not> ie_logged E \<or> \<not> ie_log_ok E (is_tick st) then later st
      else (later st)\<lparr>is_saved := Some (is_path st)\<rparr>)"

section \<open>Reading a node\<close>

definition get_config_int :: "jsonb \<Rightarrow> string \<Rightarrow> int \<Rightarrow> int" where
  "get_config_int cfg k def = (case jget cfg k of AFloat q \<Rightarrow> trunc_rat q | AInt i \<Rightarrow> i | _ \<Rightarrow> def)"

text \<open>\<open>strings.ReplaceAll\<close> of a pattern that is not empty; \<open>k\<close> characters are still to be skipped.\<close>

fun replace_from :: "string \<Rightarrow> string \<Rightarrow> nat \<Rightarrow> string \<Rightarrow> string" where
  "replace_from p new k [] = []"
| "replace_from p new (Suc k) (c # cs) = replace_from p new k cs"
| "replace_from p new 0 (c # cs) =
     (if take (length p) (c # cs) = p then new @ replace_from p new (length p - 1) cs else c # replace_from p new 0 cs)"

definition interpolate_template :: "ivr_env \<Rightarrow> string \<Rightarrow> (string \<times> string) list \<Rightarrow> string" where
  "interpolate_template E tpl vars =
     fold (\<lambda>(k, v) s. replace_from (''{{'' @ k @ ''}}'') v 0 s) (ie_order E vars) tpl"

definition audio_of :: "ivr_env \<Rightarrow> ivr_node \<Rightarrow> bool" where
  "audio_of E n \<longleftrightarrow> str_of (jget (fn_config n) ''audio_file'') \<noteq> [] \<and> ie_audio E"

section \<open>The nodes\<close>

definition execute_greeting :: "ivr_env \<Rightarrow> ivr_node \<Rightarrow> ivr_state \<Rightarrow> string \<times> ivr_state" where
  "execute_greeting E n st = (''default'', if audio_of E n then later st else st)"

text \<open>One prompt of a menu: the audio, interrupted or not, then the wait.\<close>

definition ask_digit :: "ivr_env \<Rightarrow> bool \<Rightarrow> ivr_state \<Rightarrow> char option \<times> ivr_state" where
  "ask_digit E prompt st =
     (let listen = (\<lambda>s. (case ie_heard E (is_tick s) of Pressed d \<Rightarrow> Some d | _ \<Rightarrow> None, later s)) in
      if \<not> prompt then listen st
      else (case ie_prompt E (is_tick st) of
              None \<Rightarrow> listen (later st)
            | Some (Pressed d) \<Rightarrow> (Some d, later st)
            | Some _ \<Rightarrow> (None, later st)))"

fun menu_attempts :: "ivr_env \<Rightarrow> ivr_node \<Rightarrow> string list \<Rightarrow> nat \<Rightarrow> ivr_state \<Rightarrow> string \<times> ivr_state" where
  "menu_attempts E n valid 0 st = (''max_retries'', st)"
| "menu_attempts E n valid (Suc k) st =
     (case ask_digit E (audio_of E n) st of
        (None, st1) \<Rightarrow> menu_attempts E n valid k st1
      | (Some d, st1) \<Rightarrow>
          if valid = [] \<or> [d] \<in> set valid
          then (''digit:'' @ [d], set_var ''last_menu_digit'' [d] (set_var (''menu_'' @ fn_id n) [d] st1))
          else menu_attempts E n valid k st1)"

definition menu_digits :: "ivr_node \<Rightarrow> string list" where
  "menu_digits n = (case jget (fn_config n) ''options'' of AObj m \<Rightarrow> map fst m | _ \<Rightarrow> [])"

definition execute_menu :: "ivr_env \<Rightarrow> ivr_node \<Rightarrow> ivr_state \<Rightarrow> string \<times> ivr_state" where
  "execute_menu E n st = menu_attempts E n (menu_digits n) (nat (get_config_int (fn_config n) ''max_retries'' 3)) st"

text \<open>Digits until the maximum, the terminator, the deadline or the end of the call.\<close>

fun collect_dtmf :: "ivr_env \<Rightarrow> nat \<Rightarrow> string \<Rightarrow> string \<Rightarrow> ivr_state \<Rightarrow> string \<times> ivr_state" where
  "collect_dtmf E 0 stop acc st = (acc, st)"
| "collect_dtmf E (Suc k) stop acc st =
     (case ie_heard E (is_tick st) of
        Pressed d \<Rightarrow> if [d] = stop then (acc, later st) else collect_dtmf E k stop (acc @ [d]) (later st)
      | _ \<Rightarrow> (acc, later st))"

fun gather_attempts :: "ivr_env \<Rightarrow> nat \<Rightarrow> string \<Rightarrow> string \<Rightarrow> nat \<Rightarrow> ivr_state \<Rightarrow> string \<times> ivr_state" where
  "gather_attempts E limit stop store 0 st = (''max_retries'', st)"
| "gather_attempts E limit stop store (Suc k) st =
     (case collect_dtmf E limit stop [] st of (digits, st1) \<Rightarrow>
        if digits \<noteq> [] then (''default'', if store \<noteq> [] then set_var store digits st1 else st1)
        else gather_attempts E limit stop store k st1)"

definition execute_gather :: "ivr_env \<Rightarrow> ivr_node \<Rightarrow> ivr_state \<Rightarrow> string \<times> ivr_state" where
  "execute_gather E n st =
     (let c = fn_config n; t = str_of (jget c ''terminator'') in
      gather_attempts E (nat (get_config_int c ''max_digits'' 10)) (if t = [] then ''#'' else t) (str_of (jget c ''store_as''))
        (nat (get_config_int c ''max_retries'' 3)) (if audio_of E n then later st else st))"

definition callback_request :: "ivr_env \<Rightarrow> ivr_node \<Rightarrow> ivr_state \<Rightarrow> http_request" where
  "callback_request E n st =
     (let c = fn_config n; m = str_of (jget c ''method''); i = (\<lambda>s. interpolate_template E s (is_vars st)) in
      \<lparr> hr_url = i (str_of (jget c ''url'')), hr_method = (if m = [] then ''GET'' else m),
        hr_headers = (case jget c ''headers'' of
            AObj h \<Rightarrow> List.map_filter (\<lambda>(k, v). map_option (\<lambda>s. (k, i s)) (as_str v)) h | _ \<Rightarrow> []),
        hr_body = i (str_of (jget c ''body_template'')) \<rparr>)"

definition execute_http_callback :: "ivr_env \<Rightarrow> ivr_node \<Rightarrow> ivr_state \<Rightarrow> string \<times> ivr_state" where
  "execute_http_callback E n st =
     (let r = callback_request E n st; st1 = (later st)\<lparr>is_requests := is_requests st @ [r]\<rparr> in
      case ie_http E r (is_tick st) of
        None \<Rightarrow> (''http:non2xx'', st1)
      | Some (code, body) \<Rightarrow>
          (let store = str_of (jget (fn_config n) ''response_store_as'');
               st2 = (if store \<noteq> [] then set_var store body st1 else st1)
           in (if 200 \<le> code \<and> code < 300 then ''http:2xx'' else ''http:non2xx'', st2)))"

definition execute_timing :: "ivr_env \<Rightarrow> ivr_node \<Rightarrow> ivr_state \<Rightarrow> string \<times> ivr_state" where
  "execute_timing E n st =
     (evaluate_timing_schedule (ie_clock E (is_tick st)) (case jget (fn_config n) ''schedule'' of AArr xs \<Rightarrow> xs | _ \<Rightarrow> []), later st)"

text \<open>The empty outcome is the terminal transfer, of a node without edges.\<close>

definition execute_transfer :: "ivr_env \<Rightarrow> ivr_graph \<Rightarrow> ivr_node \<Rightarrow> ivr_state \<Rightarrow> string \<times> ivr_state" where
  "execute_transfer E g n st =
     (let team = str_of (jget (fn_config n) ''team_id''); st1 = save_ivr_path E st;
          st2 = st1\<lparr>is_transfers := is_transfers st1 @ [team]\<rparr>
      in if outgoing_edges g (fn_id n) = [] then ([], st2)
         else let o1 = ie_transfer E (is_tick st2) in (if o1 = [] then ''completed'' else o1, later st2))"

definition execute_hangup :: "ivr_env \<Rightarrow> ivr_node \<Rightarrow> ivr_state \<Rightarrow> ivr_state" where
  "execute_hangup E n st =
     (let st1 = save_ivr_path E (if audio_of E n then later st else st) in st1\<lparr>is_hangups := Suc (is_hangups st1)\<rparr>)"

text \<open>\<open>executeGotoFlow\<close> up to the jump: the flow to run next, if any.\<close>

definition goto_target :: "ivr_env \<Rightarrow> ivr_node \<Rightarrow> ivr_flow option" where
  "goto_target E n =
     (let s = str_of (jget (fn_config n) ''flow_id'') in
      if s = [] then None
      else (case ie_parse E s of None \<Rightarrow> None
        | Some i \<Rightarrow> (case ie_flow E i of None \<Rightarrow> None | Some f \<Rightarrow> if if_active f then Some f else None)))"

definition goto_entry :: "ivr_flow \<Rightarrow> ivr_entry" where
  "goto_entry f = [(''action'', ''goto_flow''), (''flow'', if_name f)]"

definition execute_goto_flow :: "ivr_env \<Rightarrow> ivr_node \<Rightarrow> ivr_state \<Rightarrow> ivr_flow option \<times> ivr_state" where
  "execute_goto_flow E n st =
     (case goto_target E n of
        None \<Rightarrow> (None, save_ivr_path E st)
      | Some f \<Rightarrow> (Some f, (save_ivr_path E (add_path (goto_entry f) st))\<lparr>is_flow := Some f, is_log_flow := Some (if_id f)\<rparr>))"

section \<open>The loop\<close>

definition node_entry :: "ivr_node \<Rightarrow> ivr_entry" where
  "node_entry n = [(''node'', fn_id n), (''type'', ivr_type_name (fn_type n)), (''label'', fn_label n)]"

text \<open>The label of the chosen option of a menu, when the outcome is a digit.\<close>

definition digit_entry :: "ivr_node \<Rightarrow> string \<Rightarrow> ivr_entry" where
  "digit_entry n o1 =
     (case (if fn_type n = IMenu then strip_prefix ''digit:'' o1 else None) of
        None \<Rightarrow> []
      | Some d \<Rightarrow> (''digit'', d) #
          (case jget (fn_config n) ''options'' of
             AObj m \<Rightarrow> (case jget m d of
                 AObj x \<Rightarrow> (case jget x ''label'' of AStr l \<Rightarrow> [(''option_label'', l)] | _ \<Rightarrow> [])
               | _ \<Rightarrow> [])
           | _ \<Rightarrow> []))"

definition step_entry :: "ivr_node \<Rightarrow> string \<Rightarrow> ivr_entry" where
  "step_entry n o1 = node_entry n @ digit_entry n o1 @ (if o1 \<noteq> [] then [(''outcome'', o1)] else [])"

text \<open>
  What one node leads to: the end of the run with its path saved (\<open>break\<close>), the end of the run as it is
  (\<open>return\<close>), the next node, or another flow.
\<close>

datatype ivr_next = Break ivr_state | Return ivr_state | Continue string ivr_state | Jump ivr_state

definition after_node :: "ivr_graph \<Rightarrow> ivr_node \<Rightarrow> string \<times> ivr_state \<Rightarrow> ivr_next" where
  "after_node g n x =
     (case x of (o1, st) \<Rightarrow>
       (let st1 = add_path (step_entry n o1) st; next_id = resolve_edge g (fn_id n) o1 in
        if next_id = [] then Break st1 else Continue next_id st1))"

definition execute_node :: "ivr_env \<Rightarrow> ivr_graph \<Rightarrow> ivr_node \<Rightarrow> ivr_state \<Rightarrow> ivr_next" where
  "execute_node E g n st =
     (case fn_type n of
        IGreeting \<Rightarrow> after_node g n (execute_greeting E n st)
      | IMenu \<Rightarrow> after_node g n (execute_menu E n st)
      | IGather \<Rightarrow> after_node g n (execute_gather E n st)
      | IHttpCallback \<Rightarrow> after_node g n (execute_http_callback E n st)
      | ITransfer \<Rightarrow>
          (case execute_transfer E g n (add_path (node_entry n) st) of
             (o1, st1) \<Rightarrow> if o1 = [] then Return st1 else after_node g n (o1, st1))
      | IGotoFlow \<Rightarrow>
          (case execute_goto_flow E n (add_path (node_entry n) st) of
             (None, st1) \<Rightarrow> Return st1 | (Some f, st1) \<Rightarrow> Jump st1)
      | ITiming \<Rightarrow> after_node g n (execute_timing E n st)
      | IHangup \<Rightarrow> Return (execute_hangup E n (add_path (node_entry n) st))
      | IOther _ \<Rightarrow> Return st)"

definition flow_start :: "ivr_flow \<Rightarrow> ivr_entry" where
  "flow_start f = [(''action'', ''flow_start''), (''flow'', if_name f)]"

text \<open>The graph of a flow, when \<open>runIVRFlow\<close> accepts it.\<close>

definition flow_graph :: "ivr_flow \<Rightarrow> ivr_graph option" where
  "flow_graph f =
     (case if_menu f of
        Some (Inr g) \<Rightarrow> if fg_version g \<noteq> 2 \<or> fg_entry g = [] then None else Some g
      | _ \<Rightarrow> None)"

text \<open>The context of a run: fresh variables, and the path the call log holds.\<close>

definition open_flow :: "ivr_env \<Rightarrow> ivr_flow \<Rightarrow> ivr_state \<Rightarrow> ivr_state" where
  "open_flow E f st =
     (let old = (if ie_log_ok E (is_tick st) then (case is_saved st of None \<Rightarrow> [] | Some p \<Rightarrow> p) else []) in
      (later st)\<lparr>is_vars := [(''caller_phone'', ie_phone E), (''call_id'', ie_call E)],
         is_path := (if old = [] then [flow_start f] else old)\<rparr>)"

text \<open>\<open>runIVRFlow\<close> up to its loop: the graph to walk, when the session has a flow that is accepted.\<close>

definition enter_flow :: "ivr_env \<Rightarrow> ivr_state \<Rightarrow> (ivr_graph \<times> ivr_state) option" where
  "enter_flow E st =
     (case is_flow st of
        None \<Rightarrow> None
      | Some f \<Rightarrow> (case flow_graph f of None \<Rightarrow> None | Some g \<Rightarrow> Some (g, open_flow E f st)))"

text \<open>
  A read of the call log that fails is taken for an empty path: after a goto the path starts anew in the
  flow that was jumped to, and the next save overwrites the steps that led there.
\<close>

lemma failed_read_restarts_the_path:
  assumes "\<not> ie_log_ok E (is_tick st)"
  shows "is_path (open_flow E f st) = [flow_start f]"
  by (simp add: open_flow_def assms later_def)

text \<open>
  The loop; a jump runs \<open>runIVRFlow\<close> again, as the last thing it does. The Boolean tells that the run
  ended, rather than the fuel.
\<close>

fun execute_node_loop :: "nat \<Rightarrow> ivr_env \<Rightarrow> ivr_graph \<Rightarrow> string \<Rightarrow> ivr_state \<Rightarrow> bool \<times> ivr_state" where
  "execute_node_loop 0 E g cur st = (False, st)"
| "execute_node_loop (Suc k) E g cur st =
     (if \<not> ie_answered E (is_tick st) then (True, save_ivr_path E st)
      else case node_of g cur of
        None \<Rightarrow> (True, save_ivr_path E st)
      | Some n \<Rightarrow>
          (case execute_node E g n st of
             Break st1 \<Rightarrow> (True, save_ivr_path E st1)
           | Return st1 \<Rightarrow> (True, st1)
           | Continue next_id st1 \<Rightarrow> execute_node_loop k E g next_id st1
           | Jump st1 \<Rightarrow>
               (case enter_flow E st1 of
                  None \<Rightarrow> (True, st1)
                | Some (g1, st2) \<Rightarrow> execute_node_loop k E g1 (fg_entry g1) st2)))"

definition run_ivr_flow :: "nat \<Rightarrow> ivr_env \<Rightarrow> ivr_state \<Rightarrow> bool \<times> ivr_state" where
  "run_ivr_flow k E st =
     (case enter_flow E st of None \<Rightarrow> (True, st) | Some (g, st1) \<Rightarrow> execute_node_loop k E g (fg_entry g) st1)"

section \<open>Digits arrive once\<close>

text \<open>A press of a key: packets without the end bit, then packets with it.\<close>

fun press :: "8 word \<times> nat \<times> nat \<Rightarrow> packet list" where
  "press (n, a, b) = replicate a (n, False) @ replicate b (n, True)"

text \<open>Packets may be lost or repeated, as long as one press can be told from the one before.\<close>

fun distinguishable :: "8 word \<Rightarrow> (8 word \<times> nat \<times> nat) list \<Rightarrow> bool" where
  "distinguishable prev [] \<longleftrightarrow> True"
| "distinguishable prev ((n, a, b) # ps) \<longleftrightarrow> n \<le> 11 \<and> b \<ge> 1 \<and> (a \<ge> 1 \<or> n \<noteq> prev) \<and> distinguishable n ps"

text \<open>The digits of a list of packets, were there no buffer.\<close>

fun decoded :: "packet \<Rightarrow> packet list \<Rightarrow> string" where
  "decoded prev [] = []"
| "decoded prev (p # ps) =
     (case decode_dtmf_event prev p of None \<Rightarrow> decoded p ps | Some d \<Rightarrow> d # decoded p ps)"

lemma decoded_snoc: "decoded prev (ps @ [p]) = decoded prev ps @ (case decode_dtmf_event (last (prev # ps)) p of None \<Rightarrow> [] | Some d \<Rightarrow> [d])"
  by (induction ps arbitrary: prev) (auto split: option.splits)

lemma track_starts: "decoded p (replicate a (n, False) @ ps) = decoded (if a = 0 then p else (n, False)) ps"
  by (induction a arbitrary: p) (simp_all add: decode_dtmf_event_def)

lemma track_ends: "decoded (n, True) (replicate b (n, True) @ ps) = decoded (n, True) ps"
  by (induction b) (simp_all add: decode_dtmf_event_def)

lemma keys_have_digits: "n \<le> 11 \<Longrightarrow> dtmf_digit n \<noteq> None"
proof -
  assume "n \<le> 11"
  then have "unat n \<le> 11" by (simp add: word_le_nat_alt)
  then have "unat n \<le> 9 \<or> unat n = unat (10 :: 8 word) \<or> unat n = unat (11 :: 8 word)" by auto
  then have "n \<le> 9 \<or> n = 10 \<or> n = 11" by (simp add: word_le_nat_alt word_unat_eq_iff)
  then show ?thesis by (auto simp: dtmf_digit_def)
qed

lemma track_press:
  assumes "n \<le> 11" "b \<ge> 1" "a \<ge> 1 \<or> n \<noteq> fst p"
  shows "decoded p (press (n, a, b) @ ps) = the (dtmf_digit n) # decoded (n, True) ps"
proof -
  obtain b' where b: "b = Suc b'" using assms(2) by (cases b) simp_all
  obtain d where d: "dtmf_digit n = Some d" using keys_have_digits [OF assms(1)] by blast
  have "decode_dtmf_event (if a = 0 then p else (n, False)) (n, True) = Some d"
    using assms(3) d by (auto simp: decode_dtmf_event_def)
  then show ?thesis by (simp add: track_starts b track_ends d)
qed

lemma track_presses:
  "distinguishable (fst p) ps \<Longrightarrow> decoded p (concat (map press ps)) = map (\<lambda>x. the (dtmf_digit (fst x))) ps"
proof (induction ps arbitrary: p)
  case (Cons x ps)
  obtain n a b where x: "x = (n, a, b)" by (metis prod_cases3)
  from Cons show ?case by (simp add: x track_press del: press.simps)
qed simp

text \<open>The packets a track has read, and that no read but an idle one found the buffer full.\<close>

fun read_packet :: "8 word list track_event \<Rightarrow> packet option" where
  "read_packet (TrackRead bs) = telephone_event bs"
| "read_packet DigitTaken = None"

definition packets_read :: "8 word list track_event list \<Rightarrow> packet list" where
  "packets_read evs = List.map_filter read_packet evs"

definition never_full :: "8 word list track_event list \<Rightarrow> bool" where
  "never_full evs \<longleftrightarrow> list_all (\<lambda>n. length (tr_buffer (handle_dtmf_track (take n evs))) < 32) [0..<length evs]"

lemma packets_read_snoc: "packets_read (evs @ [e]) = packets_read evs @ (case read_packet e of None \<Rightarrow> [] | Some p \<Rightarrow> [p])"
  by (cases "read_packet e") (simp_all add: packets_read_def List.map_filter_def)

lemma handle_dtmf_track_snoc: "handle_dtmf_track (evs @ [e]) = track_step e (handle_dtmf_track evs)"
  by (simp add: handle_dtmf_track_def)

lemma never_full_snoc: "never_full (evs @ [e]) \<longleftrightarrow> never_full evs \<and> length (tr_buffer (handle_dtmf_track evs)) < 32"
  by (auto simp: never_full_def list_all_iff)

lemma last_cons_snoc: "last (x # xs @ [p]) = p"
  by simp

lemma take_digit_keeps:
  "tr_taken (take_digit t) @ tr_buffer (take_digit t) = tr_taken t @ tr_buffer t" "tr_last (take_digit t) = tr_last t"
  by (simp_all add: take_digit_def split: list.splits)

lemma track_decodes:
  fixes evs defines "t \<equiv> handle_dtmf_track evs" and "ds \<equiv> decoded no_packet (packets_read evs)"
  shows "tr_last t = last (no_packet # packets_read evs) \<and> subseq (tr_taken t @ tr_buffer t) ds
    \<and> (length ds \<le> 32 \<or> never_full evs \<longrightarrow> tr_taken t @ tr_buffer t = ds)"
  unfolding t_def ds_def
proof (induction evs rule: rev_induct)
  case Nil
  show ?case by (simp add: handle_dtmf_track_def new_track_def packets_read_def List.map_filter_def)
next
  case (snoc e evs)
  let ?t = "handle_dtmf_track evs" and ?ds = "decoded no_packet (packets_read evs)"
  show ?case
  proof (cases "read_packet e")
    case None
    then have "tr_last (track_step e ?t) = tr_last ?t \<and>
      tr_taken (track_step e ?t) @ tr_buffer (track_step e ?t) = tr_taken ?t @ tr_buffer ?t"
      by (cases e) (simp_all add: take_digit_keeps read_payload_def)
    with None snoc show ?thesis
      unfolding handle_dtmf_track_snoc packets_read_snoc never_full_snoc by auto
  next
    case (Some p)
    then obtain bs where e: "e = TrackRead bs" "telephone_event bs = Some p" by (cases e) simp_all
    have last: "tr_last ?t = last (no_packet # packets_read evs)" using snoc by blast
    show ?thesis
    proof (cases "decode_dtmf_event (tr_last ?t) p")
      case None
      with Some e last snoc show ?thesis
        unfolding handle_dtmf_track_snoc packets_read_snoc never_full_snoc decoded_snoc
        by (auto simp: read_payload_def decoded_snoc last_cons_snoc simp del: last.simps)
    next
      case (Some d)
      have step: "track_step e ?t = ?t\<lparr>tr_last := p, tr_buffer := send_dtmf_digit (tr_buffer ?t) d\<rparr>"
        using e Some by (simp add: read_payload_def)
      have pk: "packets_read (evs @ [e]) = packets_read evs @ [p]" using e by (simp add: packets_read_snoc)
      have ds: "decoded no_packet (packets_read evs @ [p]) = ?ds @ [d]" unfolding decoded_snoc using Some last by simp
      have sub: "subseq (tr_taken ?t @ tr_buffer ?t) ?ds" using snoc by blast
      have "tr_taken ?t @ tr_buffer ?t = ?ds \<and> length (tr_buffer ?t) < 32"
        if "length (?ds @ [d]) \<le> 32 \<or> never_full (evs @ [e])"
      proof -
        have eq: "tr_taken ?t @ tr_buffer ?t = ?ds" using snoc that by (auto simp: never_full_snoc)
        moreover have "length (tr_buffer ?t) \<le> length ?ds" unfolding eq [symmetric] by simp
        ultimately show ?thesis using that by (auto simp: never_full_snoc)
      qed
      moreover have "subseq (tr_taken ?t @ tr_buffer ?t @ [d]) (?ds @ [d])"
        using list_emb_append_mono [OF sub subseq_order.order_refl] by simp
      moreover have "subseq (tr_taken ?t @ tr_buffer ?t) (?ds @ [d])"
        using sub by (rule list_emb_prefix)
      ultimately show ?thesis
        unfolding handle_dtmf_track_snoc step pk ds by (auto simp: send_dtmf_digit_def last_cons_snoc simp del: last.simps)
    qed
  qed
qed

text \<open>On a shared track the audio packets change nothing.\<close>

fun beside_audio :: "8 word \<Rightarrow> (8 word \<times> 8 word list) track_event \<Rightarrow> 8 word list track_event option" where
  "beside_audio audio_pt (TrackRead (pt, payload)) = (if pt \<noteq> audio_pt then Some (TrackRead payload) else None)"
| "beside_audio audio_pt DigitTaken = Some DigitTaken"

lemma shared_track: "consume_audio_with_dtmf audio_pt evs = handle_dtmf_track (List.map_filter (beside_audio audio_pt) evs)"
proof -
  have "fold (audio_step audio_pt) evs t = fold track_step (List.map_filter (beside_audio audio_pt) evs) t" for t
    by (induction evs arbitrary: t rule: list.induct)
      (auto simp: List.map_filter_simps split: option.splits elim!: beside_audio.elims)
  then show ?thesis by (simp add: consume_audio_with_dtmf_def handle_dtmf_track_def)
qed

text \<open>The payload of RFC 4733, and that the two bytes the code reads of it are its event and its end bit.\<close>

definition event_payload :: "8 word \<Rightarrow> bool \<Rightarrow> 8 word \<Rightarrow> 8 word \<Rightarrow> 8 word \<Rightarrow> 8 word list" where
  "event_payload event end_bit volume d1 d2 = [event, (if end_bit then 0x80 else 0) OR (volume AND 0x3F), d1, d2]"

lemma volume_keeps_the_end_bit: "((0x80 OR (v AND 0x3F)) AND 0x80 :: 8 word) = 0x80" "((v AND 0x3F) AND 0x80 :: 8 word) = 0"
  by (simp_all add: and.assoc bit.conj_disj_distrib2 bit.conj_disj_distrib)

lemma payload_gives_its_event: "telephone_event (event_payload event end_bit volume d1 d2) = Some (event, end_bit)"
  by (simp add: telephone_event_def event_payload_def volume_keeps_the_end_bit)

text \<open>
  Read with the header of RTP still on it, a packet is no event: the version of RTP, two, is in the top two
  bits of the first byte, so its event is above every key. A track that gives whole packets, as the audio
  bridge reads its own (\<open>bridge.go\<close>), would give no digit here.
\<close>

lemma packets_with_headers_give_no_digit:
  assumes "\<forall>bs. TrackRead bs \<in> set evs \<longrightarrow> bs \<noteq> [] \<and> 0x80 \<le> hd bs"
  shows "tr_taken (handle_dtmf_track evs) = [] \<and> tr_buffer (handle_dtmf_track evs) = []"
  using assms
proof (induction evs rule: rev_induct)
  case (snoc e evs)
  then have ih: "tr_taken (handle_dtmf_track evs) = []" "tr_buffer (handle_dtmf_track evs) = []" by simp_all
  show ?case
  proof (cases e)
    case (TrackRead bs)
    with snoc.prems have bs: "bs \<noteq> []" "0x80 \<le> hd bs" by auto
    then have "\<not> hd bs \<le> 9" "hd bs \<noteq> 10" "hd bs \<noteq> 11" by (auto simp: word_le_nat_alt)
    then have "dtmf_digit (bs ! 0) = None" using bs(1) by (simp add: dtmf_digit_def hd_conv_nth)
    with ih TrackRead show ?thesis
      by (auto simp: handle_dtmf_track_snoc read_payload_def telephone_event_def decode_dtmf_event_def split: option.splits)
  qed (use ih in \<open>simp add: handle_dtmf_track_snoc take_digit_def\<close>)
qed (simp add: handle_dtmf_track_def new_track_def)



section \<open>The path is a walk through the flows\<close>

text \<open>What each kind of node can answer.\<close>

definition legal_outcome :: "ivr_node \<Rightarrow> string \<Rightarrow> bool" where
  "legal_outcome n o1 \<longleftrightarrow>
     (case fn_type n of
        IGreeting \<Rightarrow> o1 = ''default''
      | IMenu \<Rightarrow> o1 = ''max_retries'' \<or> (\<exists>d. o1 = ''digit:'' @ [d] \<and> (menu_digits n = [] \<or> [d] \<in> set (menu_digits n)))
      | IGather \<Rightarrow> o1 = ''default'' \<or> o1 = ''max_retries''
      | IHttpCallback \<Rightarrow> o1 = ''http:2xx'' \<or> o1 = ''http:non2xx''
      | ITiming \<Rightarrow> o1 = ''in_hours'' \<or> o1 = ''out_of_hours''
      | ITransfer \<Rightarrow> o1 \<noteq> []
      | _ \<Rightarrow> False)"

text \<open>
  A list of entries walks the graph from a node: an entry names the node, its type and its label; with an
  outcome the walk goes on where the edges lead, without one the node is entered again (the first entry of
  a transfer) or the run ends.
\<close>

fun walk :: "ivr_graph \<Rightarrow> string \<Rightarrow> ivr_entry list \<Rightarrow> bool" where
  "walk g cur [] \<longleftrightarrow> True"
| "walk g cur (e # es) \<longleftrightarrow>
     (case node_of g cur of
        None \<Rightarrow> False
      | Some n \<Rightarrow> take 3 e = node_entry n \<and>
          (case map_of e ''outcome'' of
             None \<Rightarrow> fn_type n \<in> {ITransfer, IGotoFlow, IHangup} \<and> walk g cur es
           | Some o1 \<Rightarrow> legal_outcome n o1 \<and> walk g (resolve_edge g cur o1) es))"

fun walk_end :: "ivr_graph \<Rightarrow> string \<Rightarrow> ivr_entry list \<Rightarrow> string" where
  "walk_end g cur [] = cur"
| "walk_end g cur (e # es) =
     walk_end g (case map_of e ''outcome'' of None \<Rightarrow> cur | Some o1 \<Rightarrow> resolve_edge g cur o1) es"

lemma walk_append: "walk g cur (xs @ ys) \<longleftrightarrow> walk g cur xs \<and> walk g (walk_end g cur xs) ys"
  by (induction xs arbitrary: cur) (auto split: option.split)

lemma walk_end_append: "walk_end g cur (xs @ ys) = walk_end g (walk_end g cur xs) ys"
  by (induction xs arbitrary: cur) simp_all

text \<open>From flow to flow, over the jumps.\<close>

inductive journey :: "ivr_env \<Rightarrow> ivr_flow \<Rightarrow> ivr_entry list \<Rightarrow> bool" for E where
  nowhere: "journey E f []"
| within_flow: "flow_graph f = Some g \<Longrightarrow> walk g (fg_entry g) es \<Longrightarrow> journey E f es"
| jump: "flow_graph f = Some g \<Longrightarrow> walk g (fg_entry g) (es @ [node_entry n]) \<Longrightarrow> fn_type n = IGotoFlow \<Longrightarrow>
    goto_target E n = Some f' \<Longrightarrow> journey E f' es' \<Longrightarrow> journey E f (es @ [node_entry n, goto_entry f'] @ es')"

lemma menu_attempts_outcome:
  "fst (menu_attempts E n valid k st) = ''max_retries''
   \<or> (\<exists>d. fst (menu_attempts E n valid k st) = ''digit:'' @ [d] \<and> (valid = [] \<or> [d] \<in> set valid))"
  by (induction k arbitrary: st) (auto split: prod.split option.split)

lemma gather_attempts_outcome: "fst (gather_attempts E l stop store k st) \<in> {''default'', ''max_retries''}"
  by (induction k arbitrary: st) (auto split: prod.split)

lemma timing_outcome: "evaluate_timing_schedule c s \<in> {''in_hours'', ''out_of_hours''}"
proof -
  have "timing_entries d m s \<in> {''in_hours'', ''out_of_hours''}" for d m
    by (induction s) (auto split: option.split)
  then show ?thesis by (simp add: evaluate_timing_schedule_def)
qed

text \<open>The nodes write variables, requests and the saved path, never the path or the flow.\<close>

definition same_run :: "ivr_state \<Rightarrow> ivr_state \<Rightarrow> bool" where
  "same_run st st' \<longleftrightarrow> is_path st' = is_path st \<and> is_saved st' = is_saved st \<and> is_flow st' = is_flow st"

lemma same_run_refl [simp]: "same_run st st"
  by (simp add: same_run_def)

lemma same_run_small [simp]:
  "same_run st (later s) = same_run st s" "same_run st (set_var k v s) = same_run st s"
  "same_run st (s\<lparr>is_requests := x\<rparr>) = same_run st s"
  by (simp_all add: same_run_def later_def set_var_def)

lemma same_run_menu: "same_run st s \<Longrightarrow> same_run st (snd (menu_attempts E n valid k s))"
  by (induction k arbitrary: s) (auto simp: ask_digit_def Let_def split: prod.splits option.splits heard.splits if_splits)

lemma same_run_collect: "same_run st s \<Longrightarrow> same_run st (snd (collect_dtmf E k stop acc s))"
  by (induction k arbitrary: s acc) (auto split: heard.split)

lemma same_run_gather: "same_run st s \<Longrightarrow> same_run st (snd (gather_attempts E l stop store k s))"
proof (induction k arbitrary: s)
  case (Suc k)
  then show ?case using same_run_collect [OF Suc.prems, of E l stop "[]"] by (auto split: prod.split)
qed simp

lemma same_run_http: "same_run st (snd (execute_http_callback E n st))"
  by (simp add: execute_http_callback_def Let_def split: option.split prod.split)

text \<open>An ordinary node: a legal outcome, and the run as it was.\<close>

definition ordinary :: "ivr_node \<Rightarrow> ivr_state \<Rightarrow> string \<times> ivr_state \<Rightarrow> bool" where
  "ordinary n st x \<longleftrightarrow> legal_outcome n (fst x) \<and> same_run st (snd x)"

lemma ordinary_nodes:
  "fn_type n = IGreeting \<Longrightarrow> ordinary n st (execute_greeting E n st)"
  "fn_type n = IMenu \<Longrightarrow> ordinary n st (execute_menu E n st)"
  "fn_type n = IGather \<Longrightarrow> ordinary n st (execute_gather E n st)"
  "fn_type n = IHttpCallback \<Longrightarrow> ordinary n st (execute_http_callback E n st)"
  "fn_type n = ITiming \<Longrightarrow> ordinary n st (execute_timing E n st)"
  subgoal by (simp add: ordinary_def legal_outcome_def execute_greeting_def)
  subgoal using menu_attempts_outcome [of E n "menu_digits n" "nat (get_config_int (fn_config n) ''max_retries'' 3)" st]
    by (simp add: ordinary_def legal_outcome_def execute_menu_def same_run_menu)
  subgoal using gather_attempts_outcome by (auto simp: ordinary_def legal_outcome_def execute_gather_def Let_def same_run_gather)
  subgoal using same_run_http [of st E n]
    by (simp add: ordinary_def legal_outcome_def) (simp add: execute_http_callback_def Let_def split: option.split prod.split)
  subgoal using timing_outcome by (auto simp: ordinary_def legal_outcome_def execute_timing_def)
  done

definition log_works :: "ivr_env \<Rightarrow> bool" where
  "log_works E \<longleftrightarrow> ie_logged E \<and> (\<forall>t. ie_log_ok E t)"

text \<open>What the call log holds: what it held, or the path so far of a journey through the flow.\<close>

definition saved_well :: "ivr_env \<Rightarrow> ivr_flow \<Rightarrow> ivr_entry list \<Rightarrow> ivr_entry list option \<Rightarrow> ivr_state \<Rightarrow> bool" where
  "saved_well E f pre old st \<longleftrightarrow> is_saved st = old \<or> (\<exists>zs. is_saved st = Some (pre @ zs) \<and> journey E f zs)"

text \<open>The run stands at a node, the entries it wrote since the flow began lead there.\<close>

definition stands :: "ivr_env \<Rightarrow> ivr_flow \<Rightarrow> ivr_graph \<Rightarrow> ivr_entry list \<Rightarrow> ivr_entry list option \<Rightarrow> string \<Rightarrow> ivr_state \<Rightarrow> bool" where
  "stands E f g pre old cur st \<longleftrightarrow>
     (\<exists>es. is_path st = pre @ es \<and> walk g (fg_entry g) es \<and> walk_end g (fg_entry g) es = cur) \<and> saved_well E f pre old st"

lemma step_entry_sel:
  "take 3 (step_entry n o1) = node_entry n" "map_of (step_entry n o1) ''outcome'' = (if o1 = [] then None else Some o1)"
  "take 3 (node_entry n) = node_entry n" "map_of (node_entry n) ''outcome'' = None"
  by (simp_all add: step_entry_def node_entry_def digit_entry_def split: option.split any.split)

lemma stands_run: "stands E f g pre old cur st \<Longrightarrow> same_run st st' \<Longrightarrow> stands E f g pre old cur st'"
  by (simp add: stands_def same_run_def saved_well_def)

lemma saved_well_cong: "is_saved st' = is_saved st \<Longrightarrow> saved_well E f pre old st \<Longrightarrow> saved_well E f pre old st'"
  by (simp add: saved_well_def)

text \<open>An entry with an outcome moves along an edge, an entry without one stays.\<close>

lemma stands_step:
  assumes "stands E f g pre old cur st" "node_of g cur = Some n" "legal_outcome n o1" "o1 \<noteq> []"
  shows "stands E f g pre old (resolve_edge g cur o1) (add_path (step_entry n o1) st)"
proof -
  obtain es where "is_path st = pre @ es" "walk g (fg_entry g) es" "walk_end g (fg_entry g) es = cur"
    using assms(1) by (auto simp: stands_def)
  then show ?thesis using assms
    by (auto simp: stands_def add_path_def saved_well_def walk_append walk_end_append step_entry_sel intro!: exI [of _ "es @ [step_entry n o1]"])
qed

lemma stands_stay:
  assumes "stands E f g pre old cur st" "node_of g cur = Some n" "fn_type n \<in> {ITransfer, IGotoFlow, IHangup}"
  shows "stands E f g pre old cur (add_path (node_entry n) st)"
proof -
  obtain es where "is_path st = pre @ es" "walk g (fg_entry g) es" "walk_end g (fg_entry g) es = cur"
    using assms(1) by (auto simp: stands_def)
  then show ?thesis using assms
    by (auto simp: stands_def add_path_def saved_well_def walk_append walk_end_append step_entry_sel intro!: exI [of _ "es @ [node_entry n]"])
qed

lemma stands_saves:
  assumes "stands E f g pre old cur st" "flow_graph f = Some g"
  shows "stands E f g pre old cur (save_ivr_path E st)"
  using assms within_flow [OF assms(2)] by (auto simp: stands_def saved_well_def save_ivr_path_def later_def)

lemma save_path_sel [simp]:
  "is_path (save_ivr_path E st) = is_path st" "is_flow (save_ivr_path E st) = is_flow st"
  by (simp_all add: save_ivr_path_def later_def)

lemma saves_path: "log_works E \<Longrightarrow> is_path st \<noteq> [] \<Longrightarrow> is_saved (save_ivr_path E st) = Some (is_path st)"
  by (simp add: save_ivr_path_def log_works_def)

lemma legal_not_empty: "legal_outcome n o1 \<Longrightarrow> o1 \<noteq> []"
  by (auto simp: legal_outcome_def split: ivr_type.splits)

text \<open>What one node leaves.\<close>

definition node_leaves :: "ivr_env \<Rightarrow> ivr_flow \<Rightarrow> ivr_graph \<Rightarrow> ivr_entry list \<Rightarrow> ivr_entry list option \<Rightarrow> ivr_node \<Rightarrow> ivr_next \<Rightarrow> bool" where
  "node_leaves E f g pre old n x \<longleftrightarrow>
     (case x of
        Break st1 \<Rightarrow> (\<exists>cur. stands E f g pre old cur st1) \<and> is_path st1 \<noteq> []
      | Return st1 \<Rightarrow> saved_well E f pre old st1 \<and> ((\<forall>s. fn_type n \<noteq> IOther s) \<longrightarrow> is_saved st1 = Some (is_path st1))
      | Continue cur st1 \<Rightarrow> stands E f g pre old cur st1
      | Jump st1 \<Rightarrow> (\<exists>es f'. walk g (fg_entry g) (es @ [node_entry n]) \<and> fn_type n = IGotoFlow \<and> goto_target E n = Some f'
          \<and> is_flow st1 = Some f' \<and> is_path st1 = pre @ es @ [node_entry n, goto_entry f'] \<and> is_saved st1 = Some (is_path st1)))"

lemma after_ordinary:
  assumes "stands E f g pre old cur st" "node_of g cur = Some n" "ordinary n st x"
  shows "node_leaves E f g pre old n (after_node g n x)"
proof -
  obtain o1 st1 where x: "x = (o1, st1)" by (metis surj_pair)
  have o1: "legal_outcome n o1" "same_run st st1" using assms(3) x by (simp_all add: ordinary_def)
  have "stands E f g pre old (resolve_edge g cur o1) (add_path (step_entry n o1) st1)"
    by (rule stands_step [OF stands_run [OF assms(1) o1(2)] assms(2) o1(1) legal_not_empty [OF o1(1)]])
  moreover have "fn_id n = cur" using node_of_Some [OF assms(2)] by simp
  ultimately show ?thesis by (auto simp: node_leaves_def after_node_def x Let_def add_path_def)
qed

lemma transfer_leaves:
  assumes "stands E f g pre old cur st" "node_of g cur = Some n" "fn_type n = ITransfer" "flow_graph f = Some g" "log_works E"
  shows "node_leaves E f g pre old n (execute_node E g n st)"
proof -
  let ?s = "add_path (node_entry n) st"
  obtain o1 st1 where x: "execute_transfer E g n ?s = (o1, st1)" by (metis surj_pair)
  have s: "stands E f g pre old cur (save_ivr_path E ?s)"
    using stands_saves [OF stands_stay [OF assms(1,2)] assms(4)] assms(3) by simp
  have r: "same_run (save_ivr_path E ?s) st1"
    using x by (auto simp: execute_transfer_def Let_def same_run_def later_def split: if_splits)
  show ?thesis
  proof (cases "o1 = []")
    case True
    have "is_saved st1 = Some (is_path st1)" using r saves_path [OF assms(5), of ?s] by (simp add: same_run_def add_path_def)
    then show ?thesis using True x assms(3) stands_run [OF s r] by (simp add: execute_node_def node_leaves_def stands_def)
  next
    case False
    then have "legal_outcome n o1" using assms(3) by (simp add: legal_outcome_def)
    then have "ordinary n (save_ivr_path E ?s) (o1, st1)" using r by (simp add: ordinary_def)
    from after_ordinary [OF s assms(2) this] show ?thesis using False x assms(3) by (simp add: execute_node_def)
  qed
qed

lemma goto_leaves:
  assumes "stands E f g pre old cur st" "node_of g cur = Some n" "fn_type n = IGotoFlow" "flow_graph f = Some g" "log_works E"
  shows "node_leaves E f g pre old n (execute_node E g n st)"
proof -
  let ?s = "add_path (node_entry n) st"
  have s: "stands E f g pre old cur ?s" using stands_stay [OF assms(1,2)] assms(3) by simp
  obtain es where es: "is_path st = pre @ es" "walk g (fg_entry g) es" "walk_end g (fg_entry g) es = cur"
    using assms(1) by (auto simp: stands_def)
  show ?thesis
  proof (cases "goto_target E n")
    case None
    have "is_saved (save_ivr_path E ?s) = Some (is_path ?s)" by (rule saves_path [OF assms(5)]) (simp add: add_path_def)
    then show ?thesis using None assms(3) stands_saves [OF s assms(4)]
      by (simp add: execute_node_def execute_goto_flow_def node_leaves_def stands_def)
  next
    case (Some f')
    let ?t = "add_path (goto_entry f') ?s"
    have "is_saved (save_ivr_path E ?t) = Some (is_path ?t)" by (rule saves_path [OF assms(5)]) (simp add: add_path_def)
    moreover have "walk g (fg_entry g) (es @ [node_entry n])"
      using es assms(2,3) by (simp add: walk_append step_entry_sel)
    ultimately show ?thesis using Some assms(3) es
      by (auto simp: execute_node_def execute_goto_flow_def node_leaves_def add_path_def)
  qed
qed

lemma hangup_leaves:
  assumes "stands E f g pre old cur st" "node_of g cur = Some n" "fn_type n = IHangup" "flow_graph f = Some g" "log_works E"
  shows "node_leaves E f g pre old n (execute_node E g n st)"
proof -
  let ?s = "add_path (node_entry n) st"
  let ?t = "if audio_of E n then later ?s else ?s"
  have "stands E f g pre old cur ?s" using stands_stay [OF assms(1,2)] assms(3) by simp
  then have "stands E f g pre old cur ?t" by (rule stands_run) simp
  from stands_saves [OF this assms(4)] have "saved_well E f pre old (save_ivr_path E ?t)" by (simp add: stands_def)
  moreover have "is_saved (save_ivr_path E ?t) = Some (is_path ?t)" by (rule saves_path [OF assms(5)]) (simp add: add_path_def later_def)
  ultimately show ?thesis using assms(3)
    by (simp add: execute_node_def execute_hangup_def node_leaves_def Let_def saved_well_def)
qed

lemma execute_node_leaves:
  assumes "stands E f g pre old cur st" "node_of g cur = Some n" "flow_graph f = Some g" "log_works E"
  shows "node_leaves E f g pre old n (execute_node E g n st)"
proof (cases "fn_type n")
  case (IOther s)
  then show ?thesis using assms(1) by (simp add: execute_node_def node_leaves_def stands_def)
qed (use assms after_ordinary [OF assms(1,2)] ordinary_nodes transfer_leaves goto_leaves hangup_leaves in \<open>auto simp: execute_node_def\<close>)

text \<open>Every flow a run can reach has nodes of the known types only.\<close>

definition known_nodes :: "ivr_flow \<Rightarrow> bool" where
  "known_nodes f \<longleftrightarrow> (case flow_graph f of None \<Rightarrow> True | Some g \<Rightarrow> list_all (\<lambda>n. \<forall>s. fn_type n \<noteq> IOther s) (fg_nodes g))"

definition all_known :: "ivr_env \<Rightarrow> bool" where
  "all_known E \<longleftrightarrow> (\<forall>i f. ie_flow E i = Some f \<longrightarrow> known_nodes f)"

definition run_keeps :: "ivr_env \<Rightarrow> ivr_flow \<Rightarrow> ivr_entry list \<Rightarrow> ivr_entry list option \<Rightarrow> bool \<Rightarrow> bool \<times> ivr_state \<Rightarrow> bool" where
  "run_keeps E f pre old opened x \<longleftrightarrow>
     saved_well E f pre old (snd x)
     \<and> (fst x \<and> known_nodes f \<and> all_known E \<and> opened \<longrightarrow> is_saved (snd x) = Some (is_path (snd x)))"

lemma run_keeps_saved:
  assumes "stands E f g pre old cur st" "flow_graph f = Some g" "log_works E" "is_path st \<noteq> []"
  shows "run_keeps E f pre old opened (True, save_ivr_path E st)"
  using stands_saves [OF assms(1,2)] saves_path [OF assms(3,4)] by (simp add: run_keeps_def stands_def)

lemma goto_known: "goto_target E n = Some f \<Longrightarrow> all_known E \<Longrightarrow> known_nodes f"
  by (auto simp: goto_target_def all_known_def Let_def split: if_splits option.splits)

lemma run_keeps_jump:
  assumes "flow_graph f = Some g" "walk g (fg_entry g) (es @ [node_entry n])" "fn_type n = IGotoFlow" "goto_target E n = Some f'"
    and "run_keeps E f' (pre @ es @ [node_entry n, goto_entry f']) (Some (pre @ es @ [node_entry n, goto_entry f'])) True x"
  shows "run_keeps E f pre old True x"
proof -
  have "\<exists>zs. is_saved (snd x) = Some (pre @ es @ [node_entry n, goto_entry f'] @ zs) \<and> journey E f' zs"
    using assms(5) nowhere [of E f'] by (auto simp: run_keeps_def saved_well_def)
  then have "saved_well E f pre old (snd x)"
    using jump [OF assms(1-4)] unfolding saved_well_def by fastforce
  then show ?thesis using assms(5) goto_known [OF assms(4)] by (auto simp: run_keeps_def)
qed

lemma node_known:
  assumes "node_of g cur = Some n" "known_nodes f" "flow_graph f = Some g"
  shows "\<forall>s. fn_type n \<noteq> IOther s"
  using assms node_of_Some [OF assms(1)] by (auto simp: known_nodes_def list_all_iff)

lemma open_flow_stands:
  assumes "flow_graph f = Some g" "log_works E" "is_saved st = Some pre \<and> pre \<noteq> [] \<or> is_saved st = None \<and> pre = [flow_start f]"
  shows "stands E f g pre (is_saved st) (fg_entry g) (open_flow E f st)"
  using assms(2,3) by (auto simp: stands_def saved_well_def open_flow_def Let_def later_def log_works_def intro: exI [of _ "[]"])

lemma loop_keeps:
  "flow_graph f = Some g \<Longrightarrow> log_works E \<Longrightarrow> stands E f g pre old cur st \<Longrightarrow> pre \<noteq> [] \<Longrightarrow>
     run_keeps E f pre old True (execute_node_loop k E g cur st)"
proof (induction k E g cur st arbitrary: f pre old rule: execute_node_loop.induct)
  case (1 E g cur st)
  then show ?case by (simp add: run_keeps_def stands_def)
next
  case (2 k E g cur st)
  have path: "is_path st \<noteq> []" using 2(5,6) by (auto simp: stands_def)
  note saved = run_keeps_saved [OF 2(5,3,4) path]
  show ?case
  proof (cases "\<not> ie_answered E (is_tick st) \<or> node_of g cur = None")
    case True
    then show ?thesis using saved by (auto split: option.split)
  next
    case False
    then obtain n where n: "ie_answered E (is_tick st)" "node_of g cur = Some n" by auto
    note leaves = execute_node_leaves [OF 2(5) n(2) 2(3,4)]
    show ?thesis
    proof (cases "execute_node E g n st")
      case (Break st1)
      then show ?thesis using n leaves run_keeps_saved [OF _ 2(3,4)] by (auto simp: node_leaves_def)
    next
      case (Return st1)
      then show ?thesis using n leaves node_known [OF n(2) _ 2(3)] by (auto simp: node_leaves_def run_keeps_def)
    next
      case (Continue next_id st1)
      then show ?thesis using n leaves 2(1) [OF _ n(2) Continue 2(3,4) _ 2(6)] by (auto simp: node_leaves_def)
    next
      case (Jump st1)
      then obtain es f' where j: "walk g (fg_entry g) (es @ [node_entry n])" "fn_type n = IGotoFlow" "goto_target E n = Some f'"
          "is_flow st1 = Some f'" "is_path st1 = pre @ es @ [node_entry n, goto_entry f']" "is_saved st1 = Some (is_path st1)"
        using leaves by (auto simp: node_leaves_def)
      have there: "run_keeps E f' (is_path st1) (is_saved st1) True (execute_node_loop (Suc k) E g cur st)"
      proof (cases "flow_graph f'")
        case None
        then show ?thesis using n Jump j(4,6) by (simp add: enter_flow_def run_keeps_def saved_well_def)
      next
        case (Some g')
        have e: "enter_flow E st1 = Some (g', open_flow E f' st1)" using Some j(4) by (simp add: enter_flow_def)
        have "stands E f' g' (is_path st1) (is_saved st1) (fg_entry g') (open_flow E f' st1)"
          by (rule open_flow_stands [OF Some 2(4)]) (simp add: j(5,6))
        then show ?thesis using 2(2) [OF _ n(2) Jump e refl Some 2(4)] n Jump e j(5) by simp
      qed
      then show ?thesis using run_keeps_jump [OF 2(3) j(1-3)] j(5,6) by (simp del: execute_node_loop.simps)
    qed
  qed
qed

text \<open>C25 (invariant).
  The path the call log ends up with is a journey: it begins with the start of the flow, its entries walk
  the graph of the flow (each names a node that exists, gives an outcome that kind of node has, and the
  next entry is the node the edges lead to), and where it changes flow the last entries are a goto node
  and the active flow it names, whose graph the path then walks. The call has a log, which holds no path at
  the start and whose every read and write succeeds (\<open>log_works\<close>; \<open>failed_read_restarts_the_path\<close> shows what
  a failed read does). The caller, the agents, the audio and the HTTP service behave as they like. And when
  the run ends by itself, in flows of known node types, nothing of the path is missing.
\<close>
theorem ivr_path_is_a_journey:
  assumes "run_ivr_flow k E st = (ended, st')" "is_flow st = Some f" "flow_graph f \<noteq> None" "is_saved st = None" "log_works E"
  shows "(is_saved st' = None \<or> (\<exists>zs. is_saved st' = Some (flow_start f # zs) \<and> journey E f zs))
    \<and> (ended \<and> known_nodes f \<and> all_known E \<longrightarrow> is_saved st' = Some (is_path st'))"
proof -
  obtain g where g: "flow_graph f = Some g" using assms(3) by blast
  have "stands E f g [flow_start f] None (fg_entry g) (open_flow E f st)"
    using open_flow_stands [OF g assms(5), of st "[flow_start f]"] assms(4) by simp
  from loop_keeps [OF g assms(5) this, of k] show ?thesis
    using assms(1,2) g by (simp add: run_ivr_flow_def enter_flow_def run_keeps_def saved_well_def)
qed

section \<open>A call, and calls that do not end\<close>

definition sample_node :: "string \<Rightarrow> ivr_type \<Rightarrow> jsonb \<Rightarrow> ivr_node" where
  "sample_node i t c = \<lparr> fn_id = i, fn_type = t, fn_label = [], fn_config = c \<rparr>"

definition edge :: "string \<Rightarrow> string \<Rightarrow> string \<Rightarrow> fedge" where
  "edge a b c = \<lparr> ed_from = a, ed_to = b, ed_cond = c \<rparr>"

definition sample_graph_of :: "ivr_node list \<Rightarrow> fedge list \<Rightarrow> string \<Rightarrow> ivr_graph" where
  "sample_graph_of ns es entry = \<lparr> fg_version = 2, fg_nodes = ns, fg_edges = es, fg_entry = entry \<rparr>"

definition welcome_flow :: ivr_flow where
  "welcome_flow = \<lparr> if_id = 1, if_name = ''welcome'', if_active = True, if_menu = Some (Inr (sample_graph_of
     [sample_node ''a'' IGreeting [], sample_node ''b'' IMenu [(''options'', AObj [(''1'', AObj [(''label'', AStr ''sales'')])])],
      sample_node ''c'' IGotoFlow [(''flow_id'', AStr ''2'')]]
     [edge ''a'' ''b'' ''default'', edge ''b'' ''c'' ''digit:1''] ''a'')) \<rparr>"

definition goodbye_flow :: ivr_flow where
  "goodbye_flow = \<lparr> if_id = 2, if_name = ''goodbye'', if_active = True,
     if_menu = Some (Inr (sample_graph_of [sample_node ''x'' IHangup []] [] ''x'')) \<rparr>"

definition sample_ivr_env :: "(nat \<Rightarrow> heard) \<Rightarrow> ivr_env" where
  "sample_ivr_env heard_at = \<lparr> ie_answered = (\<lambda>_. True), ie_heard = heard_at, ie_prompt = (\<lambda>_. None), ie_audio = False,
     ie_http = (\<lambda>_ _. None), ie_order = (\<lambda>xs. xs), ie_clock = (\<lambda>_. sample_clock), ie_transfer = (\<lambda>_. []),
     ie_parse = (\<lambda>s. if s = ''2'' then Some 2 else None), ie_flow = (\<lambda>i. if i = 2 then Some goodbye_flow else None),
     ie_log_ok = (\<lambda>_. True), ie_logged = True, ie_phone = ''55'', ie_call = ''c1'' \<rparr>"

definition fresh_call :: "ivr_flow \<Rightarrow> ivr_state" where
  "fresh_call f = \<lparr> is_flow = Some f, is_vars = [], is_path = [], is_tick = 0, is_saved = None, is_log_flow = None,
     is_requests = [], is_transfers = [], is_hangups = 0 \<rparr>"

lemma ivr_path_is_a_journey_witness:
  "\<exists>st' zs. run_ivr_flow 9 (sample_ivr_env (\<lambda>_. Pressed CHR ''1'')) (fresh_call welcome_flow) = (True, st')
     \<and> is_hangups st' = 1 \<and> is_saved st' = Some (flow_start welcome_flow # zs) \<and> length zs = 5
     \<and> journey (sample_ivr_env (\<lambda>_. Pressed CHR ''1'')) welcome_flow zs"
proof -
  let ?E = "sample_ivr_env (\<lambda>_. Pressed CHR ''1'')"
  let ?r = "run_ivr_flow 9 ?E (fresh_call welcome_flow)"
  have ends: "fst ?r \<and> is_hangups (snd ?r) = 1 \<and> map_option length (is_saved (snd ?r)) = Some 6" by code_simp
  obtain b st' where r: "?r = (b, st')" by (metis surj_pair)
  have "flow_graph welcome_flow \<noteq> None" by code_simp
  moreover have "log_works ?E" by (simp add: log_works_def sample_ivr_env_def)
  ultimately have "is_saved st' = None \<or> (\<exists>zs. is_saved st' = Some (flow_start welcome_flow # zs) \<and> journey ?E welcome_flow zs)"
    using ivr_path_is_a_journey [OF r] by (simp add: fresh_call_def)
  then show ?thesis using ends r by auto
qed

text \<open>Ending a call releases the session and leaves its status: a run that goes on still finds it answered.\<close>

lemma ended_call_keeps_its_status: "cs_status (end_call s) = cs_status s"
  by (simp add: end_call_def cleanup_session_def hangup_during_transfer_def cleanup_idle_def release_session_def Let_def)

lemma ended_call_is_released:
  "cs_waiter s \<noteq> WaitsForTransfer \<Longrightarrow> cs_transfer_id s \<noteq> 0 \<or> cs_transfer s \<noteq> Some XWaiting \<Longrightarrow> \<not> cs_listed (end_call s)"
  by (auto simp: end_call_def cleanup_session_def hangup_during_transfer_def cleanup_idle_def release_session_def Let_def)

text \<open>A menu that sends a silent caller back to itself, as long as the status says answered.\<close>

definition again_graph :: ivr_graph where
  "again_graph = sample_graph_of [sample_node ''m'' IMenu []] [edge ''m'' ''m'' ''max_retries''] ''m''"

lemma silent_menu_gives_up: "fst (menu_attempts (sample_ivr_env (\<lambda>_. Silence)) n valid k st) = ''max_retries''"
  by (induction k arbitrary: st) (simp_all add: ask_digit_def sample_ivr_env_def audio_of_def Let_def)

lemma silent_menu_never_ends: "\<not> fst (execute_node_loop k (sample_ivr_env (\<lambda>_. Silence)) again_graph ''m'' st)"
proof (induction k arbitrary: st)
  case (Suc k)
  let ?E = "sample_ivr_env (\<lambda>_. Silence)"
  let ?n = "sample_node ''m'' IMenu []"
  have n: "node_of again_graph ''m'' = Some ?n" by (simp add: again_graph_def sample_graph_of_def node_of_def sample_node_def)
  have e: "resolve_edge again_graph ''m'' ''max_retries'' = ''m''" by code_simp
  obtain o1 st1 where m: "execute_menu ?E ?n st = (o1, st1)" by (metis surj_pair)
  then have "o1 = ''max_retries''" using silent_menu_gives_up [of ?n] by (metis execute_menu_def fst_conv)
  then have "execute_node ?E again_graph ?n st = Continue ''m'' (add_path (step_entry ?n o1) st1)"
    using m e by (simp add: execute_node_def after_node_def sample_node_def Let_def)
  moreover have "ie_answered ?E (is_tick st)" by (simp add: sample_ivr_env_def)
  ultimately show ?case using Suc n by simp
qed simp

text \<open>A single attempt that times out answers like exhausted attempts.\<close>

lemma menu_never_answers_timeout: "fst (execute_menu E n st) \<noteq> ''timeout''"
  using menu_attempts_outcome [of E n "menu_digits n" "nat (get_config_int (fn_config n) ''max_retries'' 3)" st]
  by (auto simp: execute_menu_def)

end
