(* ===== verification/Knowledge_Text.thy ===== *)
theory Knowledge_Text
  imports Prelude "HOL-Library.Sublist"
begin

text \<open>
  The text side of the knowledge base: \<open>internal/knowledge/normalize.go\<close> (\<open>NormalizeText\<close>) and
  \<open>internal/knowledge/chunk.go\<close> (\<open>Chunk\<close>, \<open>splitText\<close>, \<open>breakLong\<close>, \<open>overlapTail\<close>,
  \<open>ParseMarkdown\<close>).

  All of this code works on the code points of a string (\<open>range s\<close>, \<open>[]rune(s)\<close>,
  \<open>strings.Map\<close>, \<open>utf8.RuneCountInString\<close>), so a text is the list of its code points, an
  invalid byte being U+FFFD, as those functions read it.
\<close>

section \<open>Code points\<close>

type_synonym rune = nat
type_synonym runes = "rune list"

abbreviation lf :: rune where "lf \<equiv> 10"
abbreviation sp :: rune where "sp \<equiv> 32"

text \<open>A literal of the source.\<close>

definition runes_of :: "string \<Rightarrow> runes" where
  "runes_of s = map of_char s"

text \<open>\<open>unicode.IsSpace\<close> and \<open>unicode.IsControl\<close>.\<close>

definition rune_space :: "rune \<Rightarrow> bool" where
  "rune_space r \<longleftrightarrow> (9 \<le> r \<and> r \<le> 13) \<or> r = 32 \<or> r = 133 \<or> r = 160 \<or> r = 5760
     \<or> (8192 \<le> r \<and> r \<le> 8202) \<or> r = 8232 \<or> r = 8233 \<or> r = 8239 \<or> r = 8287 \<or> r = 12288"

definition rune_control :: "rune \<Rightarrow> bool" where
  "rune_control r \<longleftrightarrow> r < 32 \<or> (127 \<le> r \<and> r \<le> 159)"

abbreviation rune_solid :: "rune \<Rightarrow> bool" where
  "rune_solid r \<equiv> \<not> rune_space r"

lemma rune_space_simps [simp]: "rune_space 10" "rune_space 32" "\<not> rune_space 35" "\<not> rune_space 34" "\<not> rune_space 45"
  by (simp_all add: rune_space_def)

text \<open>\<open>strings.TrimSpace\<close> and \<open>strings.Fields\<close>.\<close>

definition trim_by :: "('a \<Rightarrow> bool) \<Rightarrow> 'a list \<Rightarrow> 'a list" where
  "trim_by P s = rev (dropWhile P (rev (dropWhile P s)))"

abbreviation trim :: "runes \<Rightarrow> runes" where
  "trim \<equiv> trim_by rune_space"

lemma length_dropWhile_Suc [termination_simp]: "length (dropWhile P xs) < Suc (length xs)"
  by (simp add: length_dropWhile_le less_Suc_eq_le)

fun words_of :: "runes \<Rightarrow> runes list" where
  "words_of [] = []"
| "words_of (c # cs) =
     (if rune_space c then words_of cs
      else (c # takeWhile rune_solid cs) # words_of (dropWhile rune_solid cs))"

section \<open>\<open>NormalizeText\<close>\<close>

text \<open>Line ends become LF; then \<open>strings.Map\<close> turns tabs and no-break spaces into spaces and
  drops control characters, the byte-order mark and the zero-width space.\<close>

fun unix_crlf :: "runes \<Rightarrow> runes" where
  "unix_crlf [] = []"
| "unix_crlf [c] = [c]"
| "unix_crlf (c # d # s) = (if c = 13 \<and> d = 10 then 10 # unix_crlf s else c # unix_crlf (d # s))"

definition map_rune :: "rune \<Rightarrow> rune option" where
  "map_rune r =
     (if r = lf then Some r
      else if r = 9 \<or> r = 160 then Some sp
      else if rune_control r \<or> r = 65279 \<or> r = 8203 then None
      else Some r)"

definition clean_runes :: "runes \<Rightarrow> runes" where
  "clean_runes s = List.map_filter map_rune (map (\<lambda>r. if r = 13 then lf else r) (unix_crlf s))"

text \<open>The loop over the lines: spaces collapse, a blank line is kept only once and never first.\<close>

fun keep_lines :: "bool \<Rightarrow> bool \<Rightarrow> runes list \<Rightarrow> runes list" where
  "keep_lines started blank [] = []"
| "keep_lines started blank (l # ls) =
     (let w = join [sp] (words_of l) in
      if w = [] then
        (if blank \<or> \<not> started then keep_lines started blank ls else w # keep_lines True True ls)
      else w # keep_lines True False ls)"

definition normalize_text :: "runes \<Rightarrow> runes" where
  "normalize_text s = trim (join [lf] (keep_lines False False (split_char lf (clean_runes s))))"

section \<open>\<open>Chunk\<close>\<close>

definition chunk_max :: nat where "chunk_max = 1000"
definition chunk_overlap :: nat where "chunk_overlap = 100"
definition chunk_min :: nat where "chunk_min = 40"

record section_t =
  sec_heading :: runes
  sec_text :: runes

record piece =
  pc_index :: nat
  pc_heading :: runes
  pc_content :: runes

text \<open>A loop that counts \<open>i\<close> down from \<open>hi - 1\<close> while it is above \<open>lo\<close> and stops at the first hit.\<close>

fun scan_down :: "(nat \<Rightarrow> bool) \<Rightarrow> nat \<Rightarrow> nat \<Rightarrow> nat option" where
  "scan_down P lo 0 = None"
| "scan_down P lo (Suc i) = (if i \<le> lo then None else if P i then Some i else scan_down P lo i)"

definition last_boundary :: "runes \<Rightarrow> nat" where
  "last_boundary r =
     (case scan_down (\<lambda>i. r ! i \<in> {46, 33, 63} \<and> i + 1 < length r \<and> r ! (i + 1) = sp)
             (length r div 2) (length r) of
        Some i \<Rightarrow> i + 1
      | None \<Rightarrow> (case scan_down (\<lambda>i. r ! i = sp) 0 (length r) of Some i \<Rightarrow> i | None \<Rightarrow> length r))"

definition cut_point :: "nat \<Rightarrow> runes \<Rightarrow> nat" where
  "cut_point mx r =
     (let cut = last_boundary (take mx r) in
      if cut = mx then mx + length (takeWhile (\<lambda>c. c \<noteq> sp) (drop mx r)) else cut)"

text \<open>
  \<open>breakLong\<close>. A \<open>max\<close> of 0 would make the Go loop run for ever on some lines; the only caller
  passes 898, and the model treats 0 as "no limit".
\<close>

lemma length_trim_by: "length (trim_by P s) \<le> length s"
  by (metis trim_by_def length_dropWhile_le length_rev le_trans)

function break_long :: "nat \<Rightarrow> runes \<Rightarrow> runes list" where
  "break_long mx r =
     (if mx = 0 \<or> length r \<le> mx then (if r = [] then [] else [r])
      else let cut = cut_point mx r in
        trim (take cut r) # break_long mx (trim (drop cut r)))"
  by pat_completeness auto

lemma scan_down_Some: "scan_down P lo hi = Some i \<Longrightarrow> P i \<and> lo < i \<and> i < hi"
  by (induction hi) (auto split: if_splits)

lemma scan_down_None: "scan_down P lo hi = None \<Longrightarrow> lo < i \<Longrightarrow> i < hi \<Longrightarrow> \<not> P i"
  by (induction hi) (auto split: if_splits simp: less_Suc_eq)

lemma last_boundary_pos: "r \<noteq> [] \<Longrightarrow> 0 < last_boundary r"
  by (auto simp: last_boundary_def split: option.splits dest: scan_down_Some)

lemma last_boundary_le: "last_boundary r \<le> length r"
  by (auto simp: last_boundary_def split: option.splits dest: scan_down_Some)

lemma cut_point_pos: "mx \<noteq> 0 \<Longrightarrow> mx < length r \<Longrightarrow> 0 < cut_point mx r"
proof -
  assume "mx \<noteq> 0" "mx < length r"
  then have "take mx r \<noteq> []" by (cases r) auto
  then show ?thesis using last_boundary_pos \<open>mx \<noteq> 0\<close> by (simp add: cut_point_def Let_def)
qed

termination break_long
proof (relation "measure (length o snd)", simp)
  fix mx :: nat and r :: runes and cut
  assume "\<not> (mx = 0 \<or> length r \<le> mx)" and "cut = cut_point mx r"
  then have "0 < cut" "r \<noteq> []" using cut_point_pos by auto
  then have "length (drop cut r) < length r" by simp
  then show "((mx, trim (drop cut r)), (mx, r)) \<in> measure (length o snd)"
    using length_trim_by [of rune_space "drop cut r"] by simp
qed

declare break_long.simps [simp del]

definition overlap_tail :: "runes \<Rightarrow> runes" where
  "overlap_tail prev =
     (if length prev \<le> chunk_overlap then []
      else let tail = drop (length prev - chunk_overlap) prev in
        trim (case dropWhile (\<lambda>c. c \<noteq> sp \<and> c \<noteq> lf) tail of [] \<Rightarrow> tail | _ # rest \<Rightarrow> rest))"

text \<open>The loop of \<open>splitText\<close> over the units; \<open>cur\<close> is the string builder.\<close>

definition add_unit :: "runes \<Rightarrow> runes \<Rightarrow> runes" where
  "add_unit cur u = (if cur \<noteq> [] then cur @ [lf] else cur) @ u"

fun pack_units :: "runes \<Rightarrow> runes list \<Rightarrow> runes list" where
  "pack_units cur [] = (if cur = [] then [] else [cur])"
| "pack_units cur (u # us) =
     (if cur \<noteq> [] \<and> length cur + 1 + length u > chunk_max
      then cur # pack_units (add_unit (overlap_tail cur) u) us
      else pack_units (add_unit cur u) us)"

definition units_of :: "runes \<Rightarrow> runes list" where
  "units_of text = concat (map (break_long (chunk_max - chunk_overlap - 2)) (split_char lf text))"

definition split_text :: "runes \<Rightarrow> runes list" where
  "split_text text = (if length text \<le> chunk_max then [text] else pack_units [] (units_of text))"

text \<open>\<open>Chunk\<close>: the pieces are numbered through all sections (\<open>Index: len(out)\<close>).\<close>

definition chunk_contents :: "section_t list \<Rightarrow> (runes \<times> runes) list" where
  "chunk_contents secs =
     concat (map (\<lambda>s. let text = normalize_text (sec_text s) in
                      if length text < 1 then []
                      else map (Pair (sec_heading s)) (split_text text)) secs)"

definition chunk :: "section_t list \<Rightarrow> piece list" where
  "chunk secs =
     map (\<lambda>(i, h, c). \<lparr>pc_index = i, pc_heading = h, pc_content = c\<rparr>) (enumerate 0 (chunk_contents secs))"

section \<open>Words\<close>

lemma split_lines_no_sep: "l \<in> set (split_char d s) \<Longrightarrow> d \<notin> set l"
  by (induction s arbitrary: l) (auto split: list.splits if_splits)

lemma split_char_set: "l \<in> set (split_char d s) \<Longrightarrow> set l \<subseteq> set s"
proof (induction s arbitrary: l)
  case (Cons c cs)
  then show ?case by (cases "split_char d cs") (fastforce split: if_splits)+
qed simp

lemma trim_by_Nil [simp]: "trim_by P [] = []"
  by (simp add: trim_by_def)

lemma trim_by_split: "\<exists>a b. s = a @ trim_by P s @ b \<and> (\<forall>x \<in> set a \<union> set b. P x)"
proof -
  let ?t = "dropWhile P s"
  have "rev ?t = takeWhile P (rev ?t) @ dropWhile P (rev ?t)" by simp
  then have "?t = trim_by P s @ rev (takeWhile P (rev ?t))"
    by (metis rev_append rev_rev_ident trim_by_def)
  then have "s = takeWhile P s @ trim_by P s @ rev (takeWhile P (rev ?t))"
    by (metis takeWhile_dropWhile_id)
  then show ?thesis using set_takeWhileD by (metis UnE set_rev)
qed

lemma set_trim_by: "set (trim_by P s) \<subseteq> set s"
  using trim_by_split [of s P] by (metis Un_upper2 le_sup_iff set_append)

lemma trim_by_id: "s = [] \<or> \<not> P (hd s) \<and> \<not> P (last s) \<Longrightarrow> trim_by P s = s"
proof (cases "s = []")
  case False
  assume "s = [] \<or> \<not> P (hd s) \<and> \<not> P (last s)"
  then have "dropWhile P s = s" "dropWhile P (rev s) = rev s"
    using False by (simp_all add: dropWhile_eq_self_iff hd_rev)
  then show ?thesis by (simp add: trim_by_def)
qed simp

lemma trim_by_ends: "trim_by P s \<noteq> [] \<Longrightarrow> \<not> P (hd (trim_by P s)) \<and> \<not> P (last (trim_by P s))"
proof -
  assume ne: "trim_by P s \<noteq> []"
  let ?t = "dropWhile P s"
  have r: "rev (trim_by P s) = dropWhile P (rev ?t)" by (simp add: trim_by_def)
  have "\<not> P (hd (dropWhile P (rev ?t)))" using ne r by (metis hd_dropWhile rev_is_Nil_conv)
  then have 1: "\<not> P (last (trim_by P s))" using r by (metis hd_rev)
  have "?t = trim_by P s @ rev (takeWhile P (rev ?t))"
    by (metis rev_append rev_rev_ident takeWhile_dropWhile_id trim_by_def)
  then have "hd ?t = hd (trim_by P s)" "?t \<noteq> []" using ne by (metis hd_append2, metis append_is_Nil_conv)
  then show ?thesis using 1 hd_dropWhile by metis
qed

lemma takeWhile_all: "\<forall>x \<in> set xs. P x \<Longrightarrow> takeWhile P xs = xs"
  by simp

lemma dropWhile_all: "\<forall>x \<in> set xs. P x \<Longrightarrow> dropWhile P xs = []"
  by simp

lemma words_of_spaces: "\<forall>x \<in> set a. rune_space x \<Longrightarrow> words_of (a @ s) = words_of s"
  by (induction a) auto

lemma words_of_all_spaces: "\<forall>x \<in> set a. rune_space x \<Longrightarrow> words_of a = []"
  using words_of_spaces [of a "[]"] by simp

lemma words_of_append_space: "rune_space c \<Longrightarrow> words_of (a @ c # b) = words_of a @ words_of (c # b)"
proof (induction a rule: words_of.induct)
  case (2 x xs)
  show ?case
  proof (cases "rune_space x")
    case False
    show ?thesis
    proof (cases "\<forall>y \<in> set xs. rune_solid y")
      case True
      then show ?thesis using False 2(3)
        by (simp add: takeWhile_append2 dropWhile_append2 takeWhile_all dropWhile_all)
    next
      case False': False
      then obtain y where y: "y \<in> set xs" "rune_space y" by auto
      then show ?thesis using False 2 by (simp add: takeWhile_append1 [OF y(1)] dropWhile_append1 [OF y(1)])
    qed
  qed (use 2 in simp)
qed simp

lemma words_of_append_spaces: "\<forall>x \<in> set b. rune_space x \<Longrightarrow> words_of (a @ b) = words_of a"
  using words_of_all_spaces by (cases b) (simp_all add: words_of_append_space del: words_of.simps)

lemma words_of_trim [simp]: "words_of (trim s) = words_of s"
  using trim_by_split [of s rune_space] words_of_spaces words_of_append_spaces by (metis UnCI append.assoc)

lemma words_of_solid:
  assumes "w \<noteq> []" "\<forall>x \<in> set w. rune_solid x"
  shows "words_of w = [w]"
proof (cases w)
  case (Cons c cs)
  then show ?thesis using assms(2) by (simp add: takeWhile_all dropWhile_all)
qed (use assms(1) in simp)

lemma words_of_mem: "w \<in> set (words_of s) \<Longrightarrow> w \<noteq> [] \<and> (\<forall>x \<in> set w. rune_solid x \<and> x \<in> set s)"
proof (induction s rule: words_of.induct)
  case (2 c cs)
  show ?case
  proof (cases "rune_space c")
    case False
    then consider "w = c # takeWhile rune_solid cs" | "w \<in> set (words_of (dropWhile rune_solid cs))"
      using "2.prems" by auto
    then show ?thesis
    proof cases
      case 1
      then show ?thesis using False by (auto dest: set_takeWhileD)
    next
      case 2
      then have "w \<noteq> [] \<and> (\<forall>x \<in> set w. rune_solid x \<and> x \<in> set (dropWhile rune_solid cs))"
        by (rule "2.IH"(2) [OF False])
      then show ?thesis using set_dropWhileD [of _ rune_solid cs] by auto
    qed
  qed (use "2.IH"(1) "2.prems" in auto)
qed simp

lemma words_of_join_space: "\<forall>w \<in> set ws. w \<noteq> [] \<and> (\<forall>x \<in> set w. rune_solid x) \<Longrightarrow> words_of (join [sp] ws) = ws"
proof (induction "[sp] :: runes" ws rule: join.induct)
  case (3 x y xs)
  then have "words_of (x @ sp # join [sp] (y # xs)) = [x] @ words_of (join [sp] (y # xs))"
    by (subst words_of_append_space) (simp_all add: words_of_solid)
  then show ?case using 3 by simp
qed (auto simp: words_of_solid)

lemma words_of_lines: "words_of (join [lf] ls) = concat (map words_of ls)"
proof (induction "[lf] :: runes" ls rule: join.induct)
  case (3 x y xs)
  then show ?case using words_of_append_space [of lf x "join [lf] (y # xs)"] by simp
qed auto

lemma words_of_split_lines: "concat (map words_of (split_char lf s)) = words_of s"
  by (metis words_of_lines join_split_char)


section \<open>What \<open>NormalizeText\<close> promises\<close>

text \<open>A neat line: its words separated by single spaces, nothing at its ends.\<close>

definition neat :: "runes \<Rightarrow> bool" where
  "neat l \<longleftrightarrow> join [sp] (words_of l) = l"

fun no_double :: "bool \<Rightarrow> runes list \<Rightarrow> bool" where
  "no_double b [] \<longleftrightarrow> True"
| "no_double b (l # ls) \<longleftrightarrow> \<not> (b \<and> l = []) \<and> no_double (l = []) ls"

text \<open>
  The normal form: no control characters, every line neat, at most one blank line in a row, none
  first or last.
\<close>

definition is_normal :: "runes \<Rightarrow> bool" where
  "is_normal t \<longleftrightarrow>
     (\<forall>r \<in> set t. map_rune r = Some r) \<and>
     (t = [] \<or>
      (let ls = split_char lf t in
         (\<forall>l \<in> set ls. neat l) \<and> no_double True ls \<and> last ls \<noteq> []))"

lemma join_set: "set (join d ws) \<subseteq> set d \<union> \<Union> (set ` set ws)"
  by (induction d ws rule: join.induct) auto

lemma join_snoc: "ls \<noteq> [] \<Longrightarrow> join d (ls @ [l]) = join d ls @ d @ l"
  by (induction d ls rule: join.induct) auto

lemma join_hd: "ls \<noteq> [] \<Longrightarrow> hd ls \<noteq> [] \<Longrightarrow> hd (join d ls) = hd (hd ls) \<and> join d ls \<noteq> []"
  by (induction d ls rule: join.induct) auto

lemma join_last: "ls \<noteq> [] \<Longrightarrow> last ls \<noteq> [] \<Longrightarrow> last (join d ls) = last (last ls)"
proof (cases ls rule: rev_cases)
  case (snoc ks l)
  assume "last ls \<noteq> []"
  then show ?thesis using snoc by (cases "ks = []") (simp_all add: join_snoc)
qed simp

lemma split_char_join: "ls \<noteq> [] \<Longrightarrow> \<forall>l \<in> set ls. d \<notin> set l \<Longrightarrow> split_char d (join [d] ls) = ls"
  by (induction "[d]" ls rule: join.induct) (auto simp: split_char_append split_char_single)

lemma neat_words [simp]: "neat (join [sp] (words_of l))"
  unfolding neat_def using words_of_join_space words_of_mem by metis

lemma neat_ends:
  assumes "neat l" "l \<noteq> []" shows "rune_solid (hd l) \<and> rune_solid (last l)"
proof -
  let ?ws = "words_of l"
  have ws: "?ws \<noteq> []" "\<forall>w \<in> set ?ws. w \<noteq> [] \<and> (\<forall>x \<in> set w. rune_solid x)"
    using assms words_of_mem by (auto simp: neat_def)
  then have "hd ?ws \<noteq> []" "last ?ws \<noteq> []" by auto
  then have "hd l = hd (hd ?ws)" "last l = last (last ?ws)"
    using join_hd [of ?ws "[sp]"] join_last [of ?ws "[sp]"] ws(1) assms(1) unfolding neat_def by metis+
  then show ?thesis using ws \<open>hd ?ws \<noteq> []\<close> \<open>last ?ws \<noteq> []\<close> by (metis hd_in_set last_in_set)
qed

lemma neat_trim: "neat l \<Longrightarrow> trim l = l"
  using neat_ends trim_by_id by metis

lemma neat_spaces: "neat l \<Longrightarrow> x \<in> set l \<Longrightarrow> rune_space x \<Longrightarrow> x = sp"
  using join_set [of "[sp]" "words_of l"] words_of_mem [of _ l] unfolding neat_def by fastforce

lemma neat_no_lf: "neat l \<Longrightarrow> lf \<notin> set l"
  using neat_spaces [of l lf] by auto

lemma keep_lines_no_double: "no_double (blank \<or> \<not> started) (keep_lines started blank ls)"
proof (induction ls arbitrary: started blank)
  case (Cons l ls)
  show ?case
    using Cons [of blank started] Cons [of True True] Cons [of False True]
    by (cases started; cases blank) (simp_all add: Let_def)
qed simp

lemma keep_lines_mem: "l \<in> set (keep_lines started blank ls) \<Longrightarrow> \<exists>k \<in> set ls. l = join [sp] (words_of k)"
  by (induction ls arbitrary: started blank) (auto simp: Let_def split: if_splits)

lemma keep_lines_id:
  "\<forall>l \<in> set ls. neat l \<Longrightarrow> no_double (blank \<or> \<not> started) ls \<Longrightarrow> keep_lines started blank ls = ls"
proof (induction ls arbitrary: started blank)
  case (Cons l ls)
  then have "join [sp] (words_of l) = l" by (simp add: neat_def)
  then show ?case using Cons.IH [of True True] Cons.IH [of False True] Cons.prems
    by (cases "l = []") (auto simp: Let_def)
qed simp

lemma keep_lines_words: "concat (map words_of (keep_lines started blank ls)) = concat (map words_of ls)"
proof (induction ls arbitrary: started blank)
  case (Cons l ls)
  have "words_of (join [sp] (words_of l)) = words_of l" using words_of_join_space words_of_mem by metis
  moreover have "join [sp] (words_of l) = [] \<Longrightarrow> words_of l = []" using calculation by (metis words_of.simps(1))
  ultimately show ?case using Cons by (auto simp: Let_def)
qed simp

lemma map_rune_idem: "map_rune r = Some q \<Longrightarrow> map_rune q = Some q"
  by (auto simp: map_rune_def rune_control_def split: if_splits)

lemma unix_crlf_id: "13 \<notin> set t \<Longrightarrow> unix_crlf t = t"
  by (induction t rule: unix_crlf.induct) auto

lemma map_filter_id: "\<forall>r \<in> set t. f r = Some r \<Longrightarrow> List.map_filter f t = t"
  by (induction t) (auto simp: map_filter_simps)

lemma clean_runes_id: "\<forall>r \<in> set t. map_rune r = Some r \<Longrightarrow> clean_runes t = t"
proof -
  assume t: "\<forall>r \<in> set t. map_rune r = Some r"
  have "map_rune 13 = None" by (simp add: map_rune_def rune_control_def)
  then have n: "13 \<notin> set t" using t by force
  then have "map (\<lambda>r. if r = 13 then lf else r) t = t" by (induction t) auto
  then show ?thesis using t n by (simp add: clean_runes_def unix_crlf_id map_filter_id)
qed

lemma clean_runes_clean: "r \<in> set (clean_runes s) \<Longrightarrow> map_rune r = Some r"
  using map_rune_idem by (auto simp: clean_runes_def List.map_filter_def)


lemma trim_by_snoc: "x \<noteq> [] \<Longrightarrow> \<not> P (hd x) \<Longrightarrow> \<not> P (last x) \<Longrightarrow> P c \<Longrightarrow> trim_by P (x @ [c]) = x"
proof -
  assume x: "x \<noteq> []" "\<not> P (hd x)" "\<not> P (last x)" "P c"
  then have "dropWhile P (x @ [c]) = x @ [c]" "dropWhile P (rev x) = rev x"
    by (simp_all add: dropWhile_eq_self_iff hd_rev)
  then show ?thesis using x(4) by (simp add: trim_by_def)
qed

lemma no_double_butlast: "no_double b (ks @ [l]) \<Longrightarrow> no_double b ks"
  by (induction ks arbitrary: b) auto

lemma no_double_last: "no_double b (ks @ [[]]) \<Longrightarrow> ks \<noteq> [] \<Longrightarrow> last ks \<noteq> []"
  by (induction ks arbitrary: b) auto

lemma neat_join_ends:
  assumes "ls \<noteq> []" "\<forall>l \<in> set ls. neat l" "hd ls \<noteq> []" "last ls \<noteq> []"
  shows "join [lf] ls \<noteq> [] \<and> rune_solid (hd (join [lf] ls)) \<and> rune_solid (last (join [lf] ls))"
  using assms join_hd [of ls "[lf]"] join_last [of ls "[lf]"] neat_ends by (metis hd_in_set last_in_set)

text \<open>Trimming the joined lines drops at most one blank line, the last.\<close>

lemma trim_lines:
  assumes ls: "\<forall>l \<in> set ls. neat l" "no_double True ls"
  shows "\<exists>ks. trim (join [lf] ls) = join [lf] ks \<and> set ks \<subseteq> set ls \<and> no_double True ks
              \<and> (ks \<noteq> [] \<longrightarrow> last ks \<noteq> [])"
proof (cases ls rule: rev_cases)
  case (snoc ks l)
  have "ls \<noteq> []" using snoc by simp
  then have hd: "hd ls \<noteq> []" using ls(2) by (cases ls) auto
  show ?thesis
  proof (cases "l = []")
    case False
    then have "trim (join [lf] ls) = join [lf] ls"
      using neat_join_ends [of ls] ls(1) hd snoc by (intro trim_by_id) auto
    then show ?thesis using ls(2) snoc False by (intro exI [of _ ls]) auto
  next
    case True
    then have ks: "ks \<noteq> []" "hd ks \<noteq> []" using hd snoc by (cases ks; simp)+
    then have last: "last ks \<noteq> []" using no_double_last [of True ks] ls(2) snoc True by simp
    have "trim (join [lf] ks @ [lf]) = join [lf] ks"
      using neat_join_ends [of ks] ks last ls(1) snoc by (intro trim_by_snoc) auto
    then have "trim (join [lf] ls) = join [lf] ks" using snoc True ks by (simp add: join_snoc)
    then show ?thesis using last no_double_butlast [of True ks] ls(2) snoc by (intro exI [of _ ks]) auto
  qed
qed (intro exI [of _ "[]"], simp)

lemma normal_lines:
  assumes "\<forall>l \<in> set ks. neat l" "no_double True ks" "ks \<noteq> [] \<longrightarrow> last ks \<noteq> []"
    "\<forall>l \<in> set ks. \<forall>r \<in> set l. map_rune r = Some r"
  shows "is_normal (join [lf] ks)"
proof (cases "ks = []")
  case False
  have "map_rune lf = Some lf" by (simp add: map_rune_def)
  then have "\<forall>r \<in> set (join [lf] ks). map_rune r = Some r"
    using join_set [of "[lf]" ks] assms(4) by fastforce
  then show ?thesis
    using assms False split_char_join [of ks lf] neat_no_lf by (simp add: is_normal_def Let_def)
qed (simp add: is_normal_def)

lemma normalize_normal: "is_normal (normalize_text s)"
proof -
  define ls where "ls = keep_lines False False (split_char lf (clean_runes s))"
  have mem: "\<exists>k \<in> set (split_char lf (clean_runes s)). l = join [sp] (words_of k)" if "l \<in> set ls" for l
    using keep_lines_mem that unfolding ls_def by blast
  have chars: "map_rune r = Some r" if l: "l \<in> set ls" and r: "r \<in> set l" for l r
  proof -
    obtain k where k: "k \<in> set (split_char lf (clean_runes s))" "l = join [sp] (words_of k)" using mem [OF l] by blast
    have "map_rune sp = Some sp" by (simp add: map_rune_def rune_control_def)
    moreover have "set k \<subseteq> set (clean_runes s)"
      by (rule split_char_set [OF k(1)])
    ultimately show ?thesis
      using r k(2) join_set [of "[sp]" "words_of k"] words_of_mem [of _ k] clean_runes_clean by fastforce
  qed
  have "\<forall>l \<in> set ls. neat l" using mem neat_words by metis
  moreover have "no_double True ls" using keep_lines_no_double [of False False] unfolding ls_def by simp
  ultimately obtain ks where "trim (join [lf] ls) = join [lf] ks" "set ks \<subseteq> set ls" "no_double True ks"
      "ks \<noteq> [] \<longrightarrow> last ks \<noteq> []"
    using trim_lines by blast
  then show ?thesis
    using normal_lines [of ks] \<open>\<forall>l \<in> set ls. neat l\<close> chars unfolding normalize_text_def ls_def by auto
qed

lemma normalize_fixed: "is_normal t \<Longrightarrow> normalize_text t = t"
proof (cases "t = []")
  case False
  assume t: "is_normal t"
  let ?ls = "split_char lf t"
  have "clean_runes t = t" using t clean_runes_id by (simp add: is_normal_def)
  moreover have ls: "\<forall>l \<in> set ?ls. neat l" "no_double True ?ls" "last ?ls \<noteq> []"
    using t False by (simp_all add: is_normal_def Let_def)
  then have "keep_lines False False ?ls = ?ls" by (simp add: keep_lines_id)
  moreover have "hd ?ls \<noteq> []" using ls(2) by (cases ?ls) auto
  then have "trim t = t"
    using neat_join_ends [of ?ls] ls join_split_char [of lf t] by (intro trim_by_id) auto
  ultimately show ?thesis by (simp add: normalize_text_def join_split_char)
qed (simp add: normalize_text_def clean_runes_def List.map_filter_def)

text \<open>
  \<open>NormalizeText\<close> gives the normal form, leaves exactly the texts already in it
  as they are, and loses no word of what \<open>strings.Map\<close> kept: the words of the result are the words
  of the cleaned text, in order.
\<close>

theorem normalize_text_normal_form:
  "is_normal (normalize_text s) \<and> (normalize_text t = t \<longleftrightarrow> is_normal t)
   \<and> words_of (normalize_text s) = words_of (clean_runes s)"
proof (intro conjI iffI)
  show "is_normal t" if "normalize_text t = t" using normalize_normal [of t] that by simp
  show "words_of (normalize_text s) = words_of (clean_runes s)"
    by (simp add: normalize_text_def words_of_lines keep_lines_words words_of_split_lines)
qed (auto intro: normalize_normal normalize_fixed)


section \<open>What \<open>Chunk\<close> promises\<close>

lemma last_boundary_cases:
  "last_boundary r = length r \<and> (\<forall>i. 0 < i \<and> i < length r \<longrightarrow> r ! i \<noteq> sp)
   \<or> last_boundary r < length r \<and> r ! last_boundary r = sp"
proof -
  define s where "s = scan_down (\<lambda>i. r ! i \<in> {46, 33, 63} \<and> i + 1 < length r \<and> r ! (i + 1) = sp) (length r div 2) (length r)"
  define q where "q = scan_down (\<lambda>i. r ! i = sp) 0 (length r)"
  have b: "last_boundary r = (case s of Some i \<Rightarrow> i + 1 | None \<Rightarrow> (case q of Some i \<Rightarrow> i | None \<Rightarrow> length r))"
    unfolding last_boundary_def s_def q_def by (rule refl)
  show ?thesis
  proof (cases s)
    case (Some i)
    then show ?thesis using b scan_down_Some [OF Some [unfolded s_def]] by simp
  next
    case None
    show ?thesis
    proof (cases q)
      case (Some i)
      then show ?thesis using b \<open>s = None\<close> scan_down_Some [OF Some [unfolded q_def]] by simp
    next
      case q: None
      then have "\<forall>i. 0 < i \<and> i < length r \<longrightarrow> r ! i \<noteq> sp" using scan_down_None [OF q [unfolded q_def]] by blast
      then show ?thesis using b \<open>s = None\<close> q by simp
    qed
  qed
qed

lemma cut_point_boundary:
  assumes "mx \<noteq> 0" "mx < length r"
  shows "cut_point mx r \<le> length r \<and> (cut_point mx r = length r \<or> r ! cut_point mx r = sp)
    \<and> (mx < cut_point mx r \<longrightarrow> (\<forall>i. 0 < i \<and> i < cut_point mx r \<longrightarrow> r ! i \<noteq> sp))"
proof -
  define b where "b = last_boundary (take mx r)"
  define n where "n = length (takeWhile (\<lambda>c. c \<noteq> sp) (drop mx r))"
  have cut: "cut_point mx r = (if b = mx then mx + n else b)"
    by (simp add: cut_point_def b_def n_def Let_def)
  have lt: "length (take mx r) = mx" using assms(2) by simp
  show ?thesis
  proof (cases "b = mx")
    case False
    then have "b < mx" "take mx r ! b = sp" using last_boundary_cases [of "take mx r"] lt by (auto simp: b_def)
    then show ?thesis using cut False assms(2) by simp
  next
    case True
    have no: "\<forall>i. 0 < i \<and> i < mx \<longrightarrow> r ! i \<noteq> sp"
      using True last_boundary_cases [of "take mx r"] lt by (auto simp: b_def)
    have n: "n \<le> length r - mx" unfolding n_def by (metis length_drop length_takeWhile_le)
    have "n < length (drop mx r) \<Longrightarrow> drop mx r ! n = sp"
      using nth_length_takeWhile [of "\<lambda>c. c \<noteq> sp" "drop mx r"] unfolding n_def by blast
    then have "n = length r - mx \<or> r ! (mx + n) = sp" using n assms(2) by (cases "n < length (drop mx r)") auto
    then have at: "mx + n = length r \<or> r ! (mx + n) = sp" using assms(2) by auto
    have run: "r ! (mx + j) \<noteq> sp" if "j < n" for j
    proof -
      have "drop mx r ! j = takeWhile (\<lambda>c. c \<noteq> sp) (drop mx r) ! j" using that unfolding n_def by (simp add: takeWhile_nth)
      moreover have "takeWhile (\<lambda>c. c \<noteq> sp) (drop mx r) ! j \<noteq> sp"
        using set_takeWhileD [OF nth_mem [OF that [unfolded n_def]]] by blast
      ultimately show ?thesis using assms(2) by simp
    qed
    have "r ! i \<noteq> sp" if "0 < i" "i < mx + n" for i
      using no run [of "i - mx"] that by (cases "i < mx") auto
    then show ?thesis using cut True n at assms(2) by auto
  qed
qed

text \<open>A line is cut only at a space, so its words go to the parts, each in one of them.\<close>

lemma words_at_cut:
  assumes "k \<le> length r" "k = length r \<or> rune_space (r ! k)"
  shows "words_of (take k r) @ words_of (drop k r) = words_of r"
proof (cases "k = length r")
  case False
  then have "drop k r = r ! k # drop (Suc k) r" "rune_space (r ! k)"
    using assms by (simp_all add: Cons_nth_drop_Suc)
  then show ?thesis using words_of_append_space [of "r ! k" "take k r" "drop (Suc k) r"] by (metis append_take_drop_id)
qed simp

lemma break_long_words: "concat (map words_of (break_long mx r)) = words_of r"
proof (induction mx r rule: break_long.induct)
  case (1 mx r)
  show ?case
  proof (cases "mx = 0 \<or> length r \<le> mx")
    case False
    define k where "k = cut_point mx r"
    have "words_of (take k r) @ words_of (drop k r) = words_of r"
      using words_at_cut cut_point_boundary [of mx r] False unfolding k_def by fastforce
    then show ?thesis
      using 1 [OF False] False break_long.simps [of mx r] by (simp add: k_def Let_def)
  qed (simp add: break_long.simps)
qed

text \<open>A part is no longer than the limit unless it is a single word.\<close>

lemma break_long_length:
  "\<forall>x \<in> set r. rune_space x \<longrightarrow> x = sp \<Longrightarrow> trim r = r \<Longrightarrow> mx \<noteq> 0 \<Longrightarrow> u \<in> set (break_long mx r)
   \<Longrightarrow> length u \<le> mx \<or> u \<in> set (words_of r)"
proof (induction mx r rule: break_long.induct)
  case (1 mx r)
  show ?case
  proof (cases "length r \<le> mx")
    case True
    then show ?thesis using "1.prems" by (auto simp: break_long.simps split: if_splits)
  next
    case False
    define k where "k = cut_point mx r"
    have k: "k \<le> length r" "k = length r \<or> r ! k = sp" "0 < k"
      "mx < k \<longrightarrow> (\<forall>i. 0 < i \<and> i < k \<longrightarrow> r ! i \<noteq> sp)"
      using cut_point_boundary [of mx r] cut_point_pos [of mx r] False "1.prems"(3) unfolding k_def by auto
    have w: "words_of (take k r) @ words_of (drop k r) = words_of r"
      using words_at_cut [of k r] k(1,2) by fastforce
    have "u = trim (take k r) \<or> u \<in> set (break_long mx (trim (drop k r)))"
      using "1.prems"(3,4) False break_long.simps [of mx r] by (simp add: k_def Let_def)
    then show ?thesis
    proof
      assume u: "u = trim (take k r)"
      show ?thesis
      proof (cases "k \<le> mx")
        case True
        then show ?thesis using u length_trim_by [of rune_space "take k r"] by simp
      next
        case long: False
        have "rune_solid (hd r)" using trim_by_ends [of rune_space r] "1.prems"(2) False by fastforce
        have "rune_solid (take k r ! i)" if i: "i < length (take k r)" for i
        proof (cases i)
          case 0
          then show ?thesis using \<open>rune_solid (hd r)\<close> k(3) False by (cases r) auto
        next
          case (Suc j)
          then have "r ! i \<noteq> sp" "r ! i \<in> set r" using k(4) long i by simp_all
          then show ?thesis using i "1.prems"(1) by auto
        qed
        then have solid: "\<forall>x \<in> set (take k r). rune_solid x" by (metis in_set_conv_nth)
        have ne: "take k r \<noteq> []" using k(1,3) by (cases r) auto
        then have "words_of (take k r) = [take k r]" using words_of_solid solid by blast
        moreover have "trim (take k r) = take k r"
          using solid hd_in_set [OF ne] last_in_set [OF ne] by (intro trim_by_id disjI2) simp
        ultimately show ?thesis using u w by (metis append_Cons list.set_intros(1))
      qed
    next
      assume u: "u \<in> set (break_long mx (trim (drop k r)))"
      have sub: "\<forall>x \<in> set (trim (drop k r)). rune_space x \<longrightarrow> x = sp"
        using "1.prems"(1) set_trim_by [of rune_space "drop k r"] set_drop_subset [of k r] by (meson in_mono)
      have "trim (trim (drop k r)) = trim (drop k r)"
        using trim_by_ends [of rune_space "drop k r"] by (intro trim_by_id) blast
      then have "length u \<le> mx \<or> u \<in> set (words_of (trim (drop k r)))"
        using "1.IH" [of k] False "1.prems"(3) sub u unfolding k_def by blast
      then show ?thesis using w by (metis UnI2 words_of_trim set_append)
    qed
  qed
qed

text \<open>The length of the longest word of a text.\<close>

definition longest_word :: "runes \<Rightarrow> nat" where
  "longest_word t = foldr (\<lambda>w n. max (length w) n) (words_of t) 0"

lemma longest_word_ge: "w \<in> set (words_of t) \<Longrightarrow> length w \<le> longest_word t"
proof -
  have "w \<in> set ws \<Longrightarrow> length w \<le> foldr (\<lambda>w n. max (length w) n) ws 0" for w and ws :: "runes list"
    by (induction ws) auto
  then show "w \<in> set (words_of t) \<Longrightarrow> length w \<le> longest_word t" unfolding longest_word_def by blast
qed


text \<open>The units of a normal text: as long as the limit, or one word.\<close>

lemma units_words: "concat (map words_of (units_of t)) = words_of t"
proof -
  have "concat (map words_of (concat (map (break_long mx) ls))) = concat (map words_of ls)" for mx ls
    by (induction ls) (simp_all add: break_long_words)
  then show ?thesis by (simp add: units_of_def words_of_split_lines)
qed

lemma units_length:
  assumes "is_normal t" "u \<in> set (units_of t)"
  shows "length u \<le> max (chunk_max - chunk_overlap - 2) (longest_word t)"
proof -
  obtain l where l: "l \<in> set (split_char lf t)" "u \<in> set (break_long (chunk_max - chunk_overlap - 2) l)"
    using assms(2) unfolding units_of_def by auto
  then have "neat l" using assms(1) by (cases "t = []") (auto simp: is_normal_def Let_def neat_def)
  then have "length u \<le> chunk_max - chunk_overlap - 2 \<or> u \<in> set (words_of l)"
    using break_long_length [OF _ _ _ l(2)] neat_spaces neat_trim by (simp add: chunk_max_def chunk_overlap_def)
  moreover have "set (words_of l) \<subseteq> set (words_of t)"
    using l(1) unfolding words_of_split_lines [of t, symmetric] by auto
  ultimately show ?thesis using longest_word_ge by fastforce
qed

lemma overlap_tail_length: "length (overlap_tail prev) \<le> chunk_overlap"
proof -
  define rest where "rest tail = (case dropWhile (\<lambda>c. c \<noteq> sp \<and> c \<noteq> lf) tail of [] \<Rightarrow> tail | _ # rest \<Rightarrow> rest)"
    for tail :: runes
  have rest: "length (rest tail) \<le> length tail" for tail
    using length_dropWhile_le [of "\<lambda>c. c \<noteq> sp \<and> c \<noteq> lf" tail] by (auto simp: rest_def split: list.split)
  show ?thesis
  proof (cases "length prev \<le> chunk_overlap")
    case False
    have "length (trim (rest (drop (length prev - chunk_overlap) prev))) \<le> length (drop (length prev - chunk_overlap) prev)"
      by (rule le_trans [OF length_trim_by rest])
    also have "\<dots> = chunk_overlap" using False by simp
    finally have "length (trim (rest (drop (length prev - chunk_overlap) prev))) \<le> chunk_overlap" .
    then show ?thesis using False unfolding overlap_tail_def rest_def Let_def by (simp del: dropWhile.simps)
  qed (simp add: overlap_tail_def)
qed

lemma pack_units_length:
  assumes "\<forall>u \<in> set us. length u \<le> B" "chunk_max \<le> M" "chunk_overlap + 1 + B \<le> M" "length cur \<le> M"
    "c \<in> set (pack_units cur us)"
  shows "length c \<le> M \<and> c \<noteq> []"
  using assms
proof (induction cur us rule: pack_units.induct)
  case (2 cur u us)
  have add: "length (add_unit x u) \<le> M" if "length x \<le> chunk_overlap \<or> length x + 1 + length u \<le> chunk_max \<or> x = []" for x
    using that "2.prems"(1-3) by (auto simp: add_unit_def)
  show ?case
  proof (cases "cur \<noteq> [] \<and> length cur + 1 + length u > chunk_max")
    case True
    then show ?thesis
      using 2 add [of "overlap_tail cur"] overlap_tail_length [of cur] by auto
  next
    case False
    then have "length (add_unit cur u) \<le> M" using add [of cur] by linarith
    then show ?thesis using "2.IH"(2) [OF False] "2.prems" False by auto
  qed
qed (auto split: if_splits)

lemma add_unit_words: "words_of (add_unit cur u) = words_of cur @ words_of u"
  using words_of_append_space [of lf cur u] by (cases cur) (simp_all add: add_unit_def)

lemma pack_units_words:
  "subseq (words_of cur @ concat (map words_of us)) (concat (map words_of (pack_units cur us)))"
proof (induction cur us rule: pack_units.induct)
  case (2 cur u us)
  show ?case
  proof (cases "cur \<noteq> [] \<and> length cur + 1 + length u > chunk_max")
    case True
    have "subseq (words_of u @ concat (map words_of us))
            (words_of (add_unit (overlap_tail cur) u) @ concat (map words_of us))"
      by (simp add: add_unit_words list_emb_append2)
    also have "subseq \<dots> (concat (map words_of (pack_units (add_unit (overlap_tail cur) u) us)))"
      using "2.IH"(1) [OF True] .
    finally show ?thesis using True by (simp add: list_emb_append_mono)
  next
    case False
    then show ?thesis using "2.IH"(2) [OF False] by (auto simp: add_unit_words)
  qed
qed auto

lemma split_text_words: "subseq (words_of t) (concat (map words_of (split_text t)))"
  using pack_units_words [of "[]" "units_of t"] by (simp add: split_text_def units_words)

lemma split_text_length:
  assumes "is_normal t" "t \<noteq> []" "c \<in> set (split_text t)"
  shows "c \<noteq> [] \<and> length c \<le> max chunk_max (chunk_overlap + 1 + longest_word t)"
proof (cases "length t \<le> chunk_max")
  case False
  then show ?thesis
    using pack_units_length [of "units_of t" "max (chunk_max - chunk_overlap - 2) (longest_word t)"
        "max chunk_max (chunk_overlap + 1 + longest_word t)" "[]" c] units_length assms
    by (auto simp: split_text_def chunk_max_def chunk_overlap_def)
qed (use assms in \<open>auto simp: split_text_def\<close>)

lemma chunk_pieces:
  "map (\<lambda>p. (pc_heading p, pc_content p)) (chunk secs) = chunk_contents secs"
  "map pc_index (chunk secs) = [0..<length (chunk_contents secs)]"
proof -
  have fst_snd: "map snd (enumerate 0 xs) = xs" "map fst (enumerate 0 xs) = [0..<length xs]" for xs :: "(runes \<times> runes) list"
    by (simp_all add: map_snd_enumerate map_fst_enumerate)
  have "map (\<lambda>p. (pc_heading p, pc_content p)) (chunk secs) = map snd (enumerate 0 (chunk_contents secs))"
    "map pc_index (chunk secs) = map fst (enumerate 0 (chunk_contents secs))"
    by (simp_all add: chunk_def case_prod_beta comp_def)
  then show "map (\<lambda>p. (pc_heading p, pc_content p)) (chunk secs) = chunk_contents secs"
    "map pc_index (chunk secs) = [0..<length (chunk_contents secs)]"
    unfolding fst_snd .
qed

lemma chunks_bounded:
  "map pc_index (chunk secs) = [0..<length (chunk secs)] \<and>
   (\<forall>p \<in> set (chunk secs). \<exists>s \<in> set secs.
      pc_heading p = sec_heading s \<and> pc_content p \<noteq> [] \<and>
      length (pc_content p) \<le> max 1000 (101 + longest_word (normalize_text (sec_text s))))"
proof (intro conjI ballI)
  show "map pc_index (chunk secs) = [0..<length (chunk secs)]"
    using chunk_pieces(2) by (metis length_map chunk_pieces(1))
  fix p assume "p \<in> set (chunk secs)"
  then have "(pc_heading p, pc_content p) \<in> set (chunk_contents secs)"
    by (metis (no_types, lifting) chunk_pieces(1) image_eqI list.set_map)
  then obtain s where s: "s \<in> set secs" "normalize_text (sec_text s) \<noteq> []" "pc_heading p = sec_heading s"
      "pc_content p \<in> set (split_text (normalize_text (sec_text s)))"
    by (auto simp: chunk_contents_def Let_def split: if_splits)
  then show "\<exists>s \<in> set secs. pc_heading p = sec_heading s \<and> pc_content p \<noteq> [] \<and>
      length (pc_content p) \<le> max 1000 (101 + longest_word (normalize_text (sec_text s)))"
    using split_text_length [OF normalize_normal s(2,4)] by (auto simp: chunk_max_def chunk_overlap_def)
qed

lemma chunks_keep_every_word:
  "subseq (concat (map (\<lambda>s. words_of (clean_runes (sec_text s))) secs))
          (concat (map (\<lambda>p. words_of (pc_content p)) (chunk secs)))"
proof -
  have "subseq (concat (map (\<lambda>s. words_of (clean_runes (sec_text s))) secs))
          (concat (map (\<lambda>c. words_of (snd c)) (chunk_contents secs)))"
  proof (induction secs)
    case (Cons s secs)
    let ?t = "normalize_text (sec_text s)"
    have "words_of ?t = words_of (clean_runes (sec_text s))" 
      by (simp add: normalize_text_def words_of_lines keep_lines_words words_of_split_lines)
    then have "subseq (words_of (clean_runes (sec_text s)))
        (concat (map (\<lambda>c. words_of (snd c)) (if length ?t < 1 then [] else map (Pair (sec_heading s)) (split_text ?t))))"
      using split_text_words [of ?t] by (auto simp: comp_def Suc_le_eq)
    then show ?case using Cons by (simp add: chunk_contents_def Let_def list_emb_append_mono)
  qed (simp add: chunk_contents_def)
  also have "map (\<lambda>c. words_of (snd c)) (chunk_contents secs) = map (\<lambda>p. words_of (pc_content p)) (chunk secs)"
    by (simp add: comp_def flip: chunk_pieces(1))
  finally show ?thesis .
qed

text \<open>
  What cleaning does to the words, said without its steps. The invisible characters are deleted: the
  control characters other than tab, line feed and carriage return, the byte-order mark and the zero-width
  space. Everything else stays, and a tab, a line end or any space is still a space between words.
\<close>

definition invisible :: "rune \<Rightarrow> bool" where
  "invisible r \<longleftrightarrow> (rune_control r \<and> r \<notin> {9, 10, 13}) \<or> r = 65279 \<or> r = 8203"

abbreviation visible_text :: "runes \<Rightarrow> runes" where
  "visible_text s \<equiv> filter (\<lambda>r. \<not> invisible r) s"

lemma words_of_respaced:
  assumes "\<And>r. rune_space (g r) = rune_space r" "\<And>r. rune_solid r \<Longrightarrow> g r = r"
  shows "words_of (map g s) = words_of s"
proof (induction s rule: words_of.induct)
  case (2 c cs)
  have same: "takeWhile rune_solid (map g cs) = takeWhile rune_solid cs" for cs
    by (induction cs) (simp_all add: assms)
  have rest: "dropWhile rune_solid (map g cs) = map g (dropWhile rune_solid cs)" for cs
    by (induction cs) (simp_all add: assms)
  show ?case using 2 by (simp add: assms same rest)
qed simp

lemma words_of_unix_crlf: "words_of (p @ visible_text (unix_crlf s)) = words_of (p @ visible_text s)"
proof (induction s arbitrary: p rule: unix_crlf.induct)
  case (3 c d s)
  show ?case
  proof (cases "c = 13 \<and> d = 10")
    case True
    have "rune_space 13" by (simp add: rune_space_def)
    moreover have "\<not> invisible 13" "\<not> invisible 10" by (simp_all add: invisible_def)
    ultimately show ?thesis
      using True "3.IH"(1) [OF True, of "[]"] words_of_append_space [of 10 p] words_of_append_space [of 13 p] by simp
  next
    case False
    then have step: "unix_crlf (c # d # s) = c # unix_crlf (d # s)" by simp
    show ?thesis
      unfolding step filter.simps(2) [of _ c]
      using "3.IH"(2) [OF False, of "p @ [c]"] "3.IH"(2) [OF False, of p] by (cases "invisible c") simp_all
  qed
qed simp_all

lemma words_of_clean_runes: "words_of (clean_runes s) = words_of (visible_text s)"
proof -
  define g where "g = (\<lambda>r :: rune. if r = 13 then lf else if r = 9 \<or> r = 160 then sp else r)"
  have "map_rune (if r = 13 then lf else r) = (if invisible r then None else Some (g r))" for r
    by (auto simp: map_rune_def invisible_def g_def rune_control_def)
  then have "clean_runes s = map g (visible_text (unix_crlf s))"
    by (simp add: clean_runes_def List.map_filter_def comp_def filter_map)
  moreover have "rune_space (g r) = rune_space r" "rune_solid r \<Longrightarrow> g r = r" for r
    by (auto simp: g_def rune_space_def)
  ultimately have "words_of (clean_runes s) = words_of (visible_text (unix_crlf s))"
    using words_of_respaced [of g] by metis
  then show ?thesis using words_of_unix_crlf [of "[]" s] by simp
qed

text \<open>C30 (bounds). Chunking is bounded and loses no word. Every chunk has text, carries the heading of its
  section, and has at most 1000 characters, unless the section has a word of more than 899 characters: a
  word is never cut, so the chunk is then at most that word, a line break and the 100 characters of
  overlap. The chunks are numbered 0, 1, 2, \<open>\<dots>\<close> through the whole document. And the words of all
  sections, in order, are a subsequence of the words of the chunks, in order: the words as they are read
  once the invisible characters of the text are deleted (control characters other than tab and line ends,
  the byte-order mark, the zero-width space), which is what the code deletes. So two words with only such a
  character between them, a form feed say, are one word (\<open>form_feed_glues_words\<close>).
\<close>

theorem chunks_fit_and_keep_every_word:
  "(\<forall>p \<in> set (chunk secs). \<exists>s \<in> set secs.
      pc_heading p = sec_heading s \<and> pc_content p \<noteq> [] \<and>
      length (pc_content p) \<le> max 1000 (101 + longest_word (normalize_text (sec_text s))))
   \<and> map pc_index (chunk secs) = [0..<length (chunk secs)]
   \<and> subseq (concat (map (\<lambda>s. words_of (visible_text (sec_text s))) secs))
            (concat (map (\<lambda>p. words_of (pc_content p)) (chunk secs)))"
  using chunks_bounded [of secs] chunks_keep_every_word [of secs] unfolding words_of_clean_runes by blast

text \<open>
  The comment of \<open>overlapTail\<close> says the overlap starts at a word boundary. It does when the last
  100 characters hold a space or a line break; otherwise it starts inside the last word, and the
  next chunk opens with a fragment.
\<close>

lemma overlap_starts_inside_a_word: "overlap_tail (replicate 150 97) = replicate 100 97"
proof -
  have "rune_solid 97" by (simp add: rune_space_def)
  then have "trim (replicate 100 97) = replicate 100 97" by (intro trim_by_id) simp
  moreover have "dropWhile (\<lambda>c. c \<noteq> sp \<and> c \<noteq> lf) (replicate 100 97) = []" by simp
  ultimately show ?thesis by (simp add: overlap_tail_def chunk_overlap_def Let_def)
qed

text \<open>A form feed between two words, as a text exported from paged documents has, glues them.\<close>

lemma form_feed_glues_words: "normalize_text [97, 12, 98] = [97, 98]"
  by (simp add: normalize_text_def clean_runes_def List.map_filter_def map_rune_def rune_control_def
      trim_by_def rune_space_def)


text \<open>Two words of 700 letters: two chunks, none above 1000 characters.\<close>

definition two_long_words :: runes where
  "two_long_words = replicate 700 97 @ [sp] @ replicate 700 98"

lemma two_long_words: "words_of two_long_words = [replicate 700 97, replicate 700 98]" "is_normal two_long_words"
proof -
  have solid: "\<forall>x \<in> set (replicate 700 (97 :: rune)). rune_solid x" "\<forall>x \<in> set (replicate 700 (98 :: rune)). rune_solid x"
    by (simp_all add: rune_space_def)
  have ne: "replicate 700 (97 :: rune) \<noteq> []" "replicate 700 (98 :: rune) \<noteq> []" by simp_all
  show w: "words_of two_long_words = [replicate 700 97, replicate 700 98]"
    unfolding two_long_words_def
    using words_of_append_space [of sp "replicate 700 97" "replicate 700 98"]
      words_of_solid [OF ne(1) solid(1)] words_of_solid [OF ne(2) solid(2)]
    by simp
  have "lf \<notin> set two_long_words" by (simp add: two_long_words_def)
  then have "split_char lf two_long_words = [two_long_words]" by (rule split_char_single)
  moreover have "neat two_long_words" by (simp add: neat_def w) (simp add: two_long_words_def)
  moreover have "\<forall>r \<in> set two_long_words. map_rune r = Some r"
    by (auto simp: two_long_words_def map_rune_def rune_control_def)
  ultimately show "is_normal two_long_words" by (simp add: is_normal_def)
qed

lemma chunks_fit_and_keep_every_word_witness:
  "list_all (\<lambda>p. length (pc_content p) \<le> 1000) (chunk [\<lparr>sec_heading = [], sec_text = two_long_words\<rparr>])"
proof -
  have "longest_word (normalize_text two_long_words) = 700"
    by (simp add: normalize_fixed [OF two_long_words(2)] longest_word_def two_long_words(1))
  then show ?thesis using chunks_fit_and_keep_every_word [of "[\<lparr>sec_heading = [], sec_text = two_long_words\<rparr>]"]
    by (simp add: list_all_iff)
qed

end
