(* ===== verification/Knowledge_Markdown.thy ===== *)
theory Knowledge_Markdown
  imports Knowledge_Text
begin

text \<open>
  \<open>ParseMarkdown\<close> of \<open>internal/knowledge/chunk.go\<close>: Markdown to titled sections, and
  \<open>SectionsFor\<close> of \<open>store.go\<close>, which picks the parser of a document. The three regular
  expressions are written as the matchers they are: \<open>mdHeading\<close>
  (\<open>#\<close> one to six times, spaces, the title, closing \<open>#\<close>s), \<open>mdLink\<close> (an optional \<open>!\<close>, \<open>[text](url)\<close>)
  and \<open>mdEmph\<close> (\<open>**\<close>, \<open>__\<close>, \<open>*\<close> and the backquote).
\<close>

section \<open>The regular expressions\<close>

definition ascii_space :: "rune \<Rightarrow> bool" where
  "ascii_space r \<longleftrightarrow> r \<in> {9, 10, 12, 13, 32}"

definition drop_end :: "(rune \<Rightarrow> bool) \<Rightarrow> runes \<Rightarrow> runes" where
  "drop_end P s = rev (dropWhile P (rev s))"

text \<open>The lazy title stops where only spaces, \<open>#\<close>s and spaces are left.\<close>

definition match_heading :: "runes \<Rightarrow> (nat \<times> runes) option" where
  "match_heading line =
     (let n = length (takeWhile (\<lambda>c. c = 35) line); rest = drop n line in
      if 1 \<le> n \<and> n \<le> 6 \<and> rest \<noteq> [] \<and> ascii_space (hd rest)
      then Some (n, drop_end ascii_space (drop_end (\<lambda>c. c = 35) (drop_end ascii_space (dropWhile ascii_space rest))))
      else None)"

definition link_open :: "runes \<Rightarrow> runes option" where
  "link_open s =
     (case s of
        c # d # cs \<Rightarrow> if c = 33 \<and> d = 91 then Some cs else if c = 91 then Some (d # cs) else None
      | [c] \<Rightarrow> if c = 91 then Some [] else None
      | [] \<Rightarrow> None)"

definition match_link :: "runes \<Rightarrow> (runes \<times> runes) option" where
  "match_link s =
     (case link_open s of
        None \<Rightarrow> None
      | Some b \<Rightarrow>
          (case dropWhile (\<lambda>c. c \<noteq> 93) b of
             _ # p # url \<Rightarrow>
               if p = 40 then
                 (case dropWhile (\<lambda>c. c \<noteq> 41) url of
                    _ # rest \<Rightarrow> Some (takeWhile (\<lambda>c. c \<noteq> 93) b, rest)
                  | [] \<Rightarrow> None)
               else None
           | _ \<Rightarrow> None))"

lemma match_link_shorter: "match_link s = Some (t, rest) \<Longrightarrow> length rest < length s"
proof -
  assume m: "match_link s = Some (t, rest)"
  then obtain b where b: "link_open s = Some b" by (auto simp: match_link_def split: option.splits)
  then have "length b < length s" by (auto simp: link_open_def split: list.splits if_splits)
  moreover obtain x p url y where
    "dropWhile (\<lambda>c. c \<noteq> 93) b = x # p # url" "dropWhile (\<lambda>c. c \<noteq> 41) url = y # rest"
    using m b by (auto simp: match_link_def split: list.splits if_splits)
  then have "length rest < length b"
    using length_dropWhile_le [of "\<lambda>c. c \<noteq> 93" b] length_dropWhile_le [of "\<lambda>c. c \<noteq> 41" url] by simp
  ultimately show ?thesis by simp
qed

text \<open>\<open>ReplaceAllString\<close>: the leftmost match, then the rest after it.\<close>

function replace_links :: "runes \<Rightarrow> runes" where
  "replace_links s =
     (case match_link s of
        Some (t, rest) \<Rightarrow> t @ replace_links rest
      | None \<Rightarrow> (case s of [] \<Rightarrow> [] | c # cs \<Rightarrow> c # replace_links cs))"
  by pat_completeness auto
termination by (relation "measure length") (auto dest: match_link_shorter)

declare replace_links.simps [simp del]

fun strip_emph :: "runes \<Rightarrow> runes" where
  "strip_emph [] = []"
| "strip_emph [c] = (if c = 42 \<or> c = 96 then [] else [c])"
| "strip_emph (c # d # s) =
     (if c = 42 \<or> c = 96 then strip_emph (d # s)
      else if c = 95 \<and> d = 95 then strip_emph s
      else c # strip_emph (d # s))"

definition clean_inline :: "runes \<Rightarrow> runes" where
  "clean_inline s = trim (strip_emph (replace_links s))"

section \<open>\<open>ParseMarkdown\<close>\<close>

definition join_trail :: "runes list \<Rightarrow> runes \<Rightarrow> runes" where
  "join_trail trail fallback =
     (let parts = filter (\<lambda>t. t \<noteq> []) trail in
      if parts = [] then fallback else join (runes_of '' > '') parts)"

record md =
  md_secs :: "section_t list"
  md_trail :: "runes list"
  md_buf :: "runes list"
  md_cur :: runes
  md_fence :: bool

definition md_flush :: "md \<Rightarrow> md" where
  "md_flush m =
     (let t = trim (join [lf] (md_buf m)) in
      m\<lparr>md_buf := [],
        md_secs := md_secs m @ (if t = [] then [] else [\<lparr>sec_heading = md_cur m, sec_text = t\<rparr>])\<rparr>)"

text \<open>The trail is cut, or padded with empty titles, to one less than the level.\<close>

definition new_trail :: "nat \<Rightarrow> runes \<Rightarrow> runes list \<Rightarrow> runes list" where
  "new_trail level title trail =
     (let kept = take (level - 1) trail in
      kept @ replicate (level - 1 - length kept) [] @ [clean_inline title])"

definition is_fence :: "runes \<Rightarrow> bool" where
  "is_fence line \<longleftrightarrow> take 3 (trim line) = [96, 96, 96]"

definition md_line :: "runes \<Rightarrow> md \<Rightarrow> runes \<Rightarrow> md" where
  "md_line fallback m line =
     (if is_fence line then m\<lparr>md_fence := \<not> md_fence m\<rparr>
      else case match_heading line of
        Some (level, title) \<Rightarrow>
          if md_fence m then m\<lparr>md_buf := md_buf m @ [clean_inline line]\<rparr>
          else let m' = md_flush m; tr = new_trail level title (md_trail m') in
            m'\<lparr>md_trail := tr, md_cur := join_trail tr fallback\<rparr>
      | None \<Rightarrow> m\<lparr>md_buf := md_buf m @ [clean_inline line]\<rparr>)"

definition md_start :: "runes \<Rightarrow> md" where
  "md_start fallback = \<lparr>md_secs = [], md_trail = [], md_buf = [], md_cur = fallback, md_fence = False\<rparr>"

definition parse_markdown :: "runes \<Rightarrow> runes \<Rightarrow> section_t list" where
  "parse_markdown src fallback =
     md_secs (md_flush (foldl (md_line fallback) (md_start fallback) (split_char lf (normalize_text src))))"

text \<open>\<open>SectionsFor\<close>: only Markdown has a structure of its own.\<close>

definition sections_for :: "string \<Rightarrow> runes \<Rightarrow> runes \<Rightarrow> section_t list" where
  "sections_for src title body =
     (if src = ''markdown'' then parse_markdown body title
      else [\<lparr>sec_heading = title, sec_text = body\<rparr>])"

section \<open>No line is lost\<close>

text \<open>The lines that are text: not a fence mark, and not a heading outside a fence.\<close>

fun body_lines :: "bool \<Rightarrow> runes list \<Rightarrow> runes list" where
  "body_lines fence [] = []"
| "body_lines fence (l # ls) =
     (if is_fence l then body_lines (\<not> fence) ls
      else if match_heading l \<noteq> None \<and> \<not> fence then body_lines fence ls
      else l # body_lines fence ls)"

definition md_words :: "md \<Rightarrow> runes list" where
  "md_words m = concat (map (words_of o sec_text) (md_secs m)) @ concat (map words_of (md_buf m))"

lemma md_flush_words: "md_words (md_flush m) = md_words m"
proof -
  have "words_of (trim (join [lf] (md_buf m))) = concat (map words_of (md_buf m))"
    by (simp add: words_of_lines)
  moreover have "trim (join [lf] (md_buf m)) = [] \<Longrightarrow> concat (map words_of (md_buf m)) = []"
    using calculation by (metis words_of.simps(1))
  ultimately show ?thesis by (auto simp: md_words_def md_flush_def Let_def)
qed

lemma md_line_words:
  "md_words (md_line fb m l) = md_words m @ concat (map (words_of o clean_inline) (body_lines (md_fence m) [l]))"
  "md_fence (md_line fb m l) = (if is_fence l then \<not> md_fence m else md_fence m)"
  using md_flush_words [of m]
  by (auto simp: md_line_def md_words_def Let_def md_flush_def split: option.split)

lemma body_lines_Cons:
  "body_lines fence (l # ls) = body_lines fence [l] @ body_lines (if is_fence l then \<not> fence else fence) ls"
  by simp

lemma md_lines_words:
  "md_words (foldl (md_line fb) m ls) = md_words m @ concat (map (words_of o clean_inline) (body_lines (md_fence m) ls))"
proof (induction ls arbitrary: m)
  case (Cons l ls)
  show ?case
    using Cons.IH [of "md_line fb m l"] md_line_words [of fb m l] body_lines_Cons [of "md_fence m" l ls]
    by (simp add: comp_def del: body_lines.simps)
qed simp

text \<open>The sections' text is the text lines with their markup removed.\<close>

lemma markdown_keeps_text_lines:
  "concat (map (words_of o sec_text) (parse_markdown src fb)) =
   concat (map (words_of o clean_inline) (body_lines False (split_char lf (normalize_text src))))"
proof -
  let ?m = "foldl (md_line fb) (md_start fb) (split_char lf (normalize_text src))"
  have "md_words (md_flush ?m) = concat (map (words_of o sec_text) (parse_markdown src fb))"
    by (simp add: parse_markdown_def md_words_def md_flush_def Let_def)
  then show ?thesis using md_flush_words [of ?m] md_lines_words [of fb "md_start fb"]
    by (simp add: md_start_def md_words_def)
qed

text \<open>The trail is as deep as the last heading, and at most six deep.\<close>

lemma new_trail_length: "1 \<le> level \<Longrightarrow> length (new_trail level title trail) = level"
  by (auto simp: new_trail_def Let_def)

lemma match_heading_level: "match_heading l = Some (n, t) \<Longrightarrow> 1 \<le> n \<and> n \<le> 6"
  by (auto simp: match_heading_def Let_def split: if_splits)

lemma heading_keeps_ancestors:
  "1 \<le> level \<Longrightarrow> level \<le> length trail + 1 \<Longrightarrow> take (level - 1) (new_trail level title trail) = take (level - 1) trail"
  by (simp add: new_trail_def Let_def)

definition md_ok :: "runes \<Rightarrow> md \<Rightarrow> bool" where
  "md_ok fb m \<longleftrightarrow> length (md_trail m) \<le> 6 \<and> md_cur m = join_trail (md_trail m) fb
     \<and> (\<forall>s \<in> set (md_secs m). sec_text s \<noteq> [] \<and> trim (sec_text s) = sec_text s)"

lemma md_flush_ok: "md_ok fb m \<Longrightarrow> md_ok fb (md_flush m)"
  using trim_by_ends [of rune_space] trim_by_id [of _ rune_space] by (auto simp: md_ok_def md_flush_def Let_def)

lemma md_line_ok: "md_ok fb m \<Longrightarrow> md_ok fb (md_line fb m l)"
proof (cases "match_heading l")
  case (Some p)
  assume "md_ok fb m"
  moreover obtain n t where "p = (n, t)" by (cases p)
  ultimately show ?thesis
    using Some match_heading_level [of l n t] new_trail_length [of n t] md_flush_ok [of fb m]
    by (auto simp: md_line_def md_ok_def Let_def)
qed (auto simp: md_line_def md_ok_def)

lemma markdown_sections_have_text:
  "s \<in> set (parse_markdown src fb) \<Longrightarrow> sec_text s \<noteq> [] \<and> trim (sec_text s) = sec_text s"
proof -
  have "md_ok fb (foldl (md_line fb) m ls)" if "md_ok fb m" for m ls
    using that by (induction ls arbitrary: m) (simp_all add: md_line_ok)
  moreover have "md_ok fb (md_start fb)" by (simp add: md_ok_def md_start_def join_trail_def)
  ultimately show "s \<in> set (parse_markdown src fb) \<Longrightarrow> ?thesis"
    using md_flush_ok unfolding parse_markdown_def md_ok_def by blast
qed

end
