(* ===== verification/Knowledge_Query.thy ===== *)
theory Knowledge_Query
  imports Knowledge_Markdown
begin

text \<open>
  How the knowledge base reads a text for search: \<open>FoldForSearch\<close> (\<open>normalize.go\<close>), the stop words and
  \<open>SearchForm\<close> (\<open>stopwords.go\<close>), and \<open>PlainTerms\<close> and \<open>ComposeQuery\<close> (\<open>plain.go\<close>).

  The Unicode tables are an argument: the canonical decomposition of \<open>golang.org/x/text/unicode/norm\<close>
  and, from the \<open>unicode\<close> package, the nonspacing marks, the lower-case mapping, letters and digits.
\<close>

section \<open>Folding\<close>

record unicode_tables =
  u_nfd :: "runes \<Rightarrow> runes"
  u_mark :: "rune \<Rightarrow> bool"
  u_lower :: "rune \<Rightarrow> rune"
  u_letter :: "rune \<Rightarrow> bool"
  u_digit :: "rune \<Rightarrow> bool"

definition fold_for_search :: "unicode_tables \<Rightarrow> runes \<Rightarrow> runes" where
  "fold_for_search U s =
     join [sp] (words_of (map (u_lower U) (filter (\<lambda>r. \<not> u_mark U r) (u_nfd U s))))"

definition word_rune :: "unicode_tables \<Rightarrow> rune \<Rightarrow> bool" where
  "word_rune U r \<longleftrightarrow> u_letter U r \<or> u_digit U r \<or> r = 95"

section \<open>Stop words\<close>

text \<open>The Portuguese stop words with an accent, as code points, and those without.\<close>

definition accented_stopwords :: "runes list" where
  "accented_stopwords =
    [[224], [224, 115], [97, 116, 233], [233, 114, 97, 109, 111, 115], [101, 115, 116, 225],
     [101, 115, 116, 227, 111], [101, 115, 116, 225, 118, 97, 109, 111, 115],
     [101, 115, 116, 105, 118, 233, 114, 97, 109, 111, 115],
     [101, 115, 116, 105, 118, 233, 115, 115, 101, 109, 111, 115],
     [102, 244, 114, 97, 109, 111, 115], [102, 244, 115, 115, 101, 109, 111, 115], [104, 225],
     [104, 227, 111], [104, 111, 117, 118, 101, 114, 225],
     [104, 111, 117, 118, 233, 114, 97, 109, 111, 115], [104, 111, 117, 118, 101, 114, 227, 111],
     [104, 111, 117, 118, 101, 114, 237, 97, 109, 111, 115],
     [104, 111, 117, 118, 233, 115, 115, 101, 109, 111, 115], [106, 225], [110, 227, 111],
     [110, 243, 115], [115, 227, 111], [115, 101, 114, 225], [115, 101, 114, 227, 111],
     [115, 101, 114, 237, 97, 109, 111, 115], [115, 243], [116, 97, 109, 98, 233, 109],
     [116, 233, 109], [116, 101, 114, 225], [116, 101, 114, 227, 111],
     [116, 101, 114, 237, 97, 109, 111, 115], [116, 237, 110, 104, 97, 109, 111, 115],
     [116, 105, 118, 233, 114, 97, 109, 111, 115],
     [116, 105, 118, 233, 115, 115, 101, 109, 111, 115], [118, 111, 99, 234],
     [118, 111, 99, 234, 115]]"

definition unaccented_stopwords :: "runes list" where
  "unaccented_stopwords = words_of (runes_of
    ''a ao aos aquela aquelas aquele aqueles aquilo as com como da das de dela delas dele deles
      depois do dos e ela elas ele eles em entre era eram essa essas esse esses esta estamos
      estas estava estavam este esteja estejam estejamos estes esteve estive estivemos estiver
      estivera estiveram estiverem estivermos estivesse estivessem estou eu foi fomos for fora
      foram forem formos fosse fossem fui haja hajam hajamos havemos hei houve houvemos houver
      houvera houveram houverei houverem houveremos houveria houveriam houvermos houvesse
      houvessem isso isto lhe lhes mais mas me mesmo meu meus minha minhas muito na nas nem no
      nos nossa nossas nosso nossos num numa o os ou para pela pelas pelo pelos por qual quando
      que quem se seja sejam sejamos sem serei seremos seria seriam seu seus somos sou sua suas
      te tem temos tenha tenham tenhamos tenho terei teremos teria teriam teu teus teve tinha
      tinham tive tivemos tiver tivera tiveram tiverem tivermos tivesse tivessem tu tua tuas um
      uma vos'')"

definition folded_stop :: "unicode_tables \<Rightarrow> runes \<Rightarrow> bool" where
  "folded_stop U w \<longleftrightarrow> w \<in> set (map (fold_for_search U) accented_stopwords)"

definition plain_stop :: "unicode_tables \<Rightarrow> runes \<Rightarrow> bool" where
  "plain_stop U w \<longleftrightarrow> folded_stop U w \<or> w \<in> set (map (fold_for_search U) unaccented_stopwords)"

section \<open>\<open>SearchForm\<close>\<close>

text \<open>
  \<open>dropStopwords\<close>: \<open>before\<close> is the text already read, last character first, for the look back at
  a hyphen.
\<close>

definition in_compound :: "unicode_tables \<Rightarrow> runes \<Rightarrow> runes \<Rightarrow> bool" where
  "in_compound U before rest \<longleftrightarrow>
     (case before of h # p # _ \<Rightarrow> h = 45 \<and> word_rune U p | _ \<Rightarrow> False) \<or>
     (case rest of h # n # _ \<Rightarrow> h = 45 \<and> word_rune U n | _ \<Rightarrow> False)"

function drop_stop :: "unicode_tables \<Rightarrow> runes \<Rightarrow> runes \<Rightarrow> runes" where
  "drop_stop U before [] = []"
| "drop_stop U before (c # cs) =
     (if \<not> word_rune U c then c # drop_stop U (c # before) cs
      else let w = c # takeWhile (word_rune U) cs; rest = dropWhile (word_rune U) cs in
        (if in_compound U before rest \<or> \<not> folded_stop U w then w else []) @ drop_stop U (rev w @ before) rest)"
  by pat_completeness auto
termination by (relation "measure (\<lambda>(U, b, s). length s)") (auto simp: length_dropWhile_le less_Suc_eq_le)

definition drop_stopwords :: "unicode_tables \<Rightarrow> runes \<Rightarrow> runes" where
  "drop_stopwords U term = drop_stop U [] term"

definition has_word_rune :: "unicode_tables \<Rightarrow> runes \<Rightarrow> bool" where
  "has_word_rune U s \<longleftrightarrow> list_ex (word_rune U) s"

definition term_item :: "unicode_tables \<Rightarrow> bool \<Rightarrow> runes \<Rightarrow> runes list" where
  "term_item U neg term =
     (let t = drop_stopwords U term in
      if \<not> has_word_rune U t then [] else [if neg then 45 # t else t])"

definition phrase_item :: "unicode_tables \<Rightarrow> bool \<Rightarrow> runes \<Rightarrow> runes list" where
  "phrase_item U neg content =
     (let ws = filter (has_word_rune U) (map (drop_stopwords U) (words_of content)) in
      if ws = [] then [] else [(if neg then [45] else []) @ [34] @ join [sp] ws @ [34]])"

definition term_char :: "rune \<Rightarrow> bool" where
  "term_char c \<longleftrightarrow> rune_solid c \<and> c \<noteq> 34"

text \<open>The loop of \<open>SearchForm\<close> over the folded text.\<close>

function search_items :: "unicode_tables \<Rightarrow> runes \<Rightarrow> runes list" where
  "search_items U [] = []"
| "search_items U (c # cs) =
     (if rune_space c then search_items U cs
      else if c = 34 then
        (if 34 \<in> set cs
         then phrase_item U False (takeWhile (\<lambda>d. d \<noteq> 34) cs) @ search_items U (tl (dropWhile (\<lambda>d. d \<noteq> 34) cs))
         else search_items U cs)
      else if c = 45 \<and> cs \<noteq> [] \<and> (hd cs = 34 \<or> word_rune U (hd cs)) then
        (if hd cs = 34 then
           (if 34 \<in> set (tl cs)
            then phrase_item U True (takeWhile (\<lambda>d. d \<noteq> 34) (tl cs))
                   @ search_items U (tl (dropWhile (\<lambda>d. d \<noteq> 34) (tl cs)))
            else search_items U (tl cs))
         else term_item U True (takeWhile term_char cs) @ search_items U (dropWhile term_char cs))
      else if c = 45 then search_items U cs
      else term_item U False (c # takeWhile term_char cs) @ search_items U (dropWhile term_char cs))"
  by pat_completeness auto

lemma length_tl_Suc: "length (tl xs) < Suc (length xs)"
  by simp

lemma length_tl_dropWhile: "length (tl (dropWhile P xs)) < Suc (length xs)"
  using length_dropWhile_le [of P xs] by simp

lemma length_tl_dropWhile_tl: "length (tl (dropWhile P (tl xs))) < Suc (length xs)"
  using length_dropWhile_le [of P "tl xs"] by simp

termination search_items
  by (relation "measure (\<lambda>(U, s). length s)")
    (auto simp: length_dropWhile_Suc length_tl_dropWhile length_tl_dropWhile_tl length_tl_Suc simp del: length_tl)

definition or_word :: runes where
  "or_word = runes_of ''or''"

definition join_step :: "runes list \<Rightarrow> runes \<Rightarrow> runes list" where
  "join_step out it = (if it = or_word \<and> (out = [] \<or> last out = or_word) then out else out @ [it])"

definition join_items :: "runes list \<Rightarrow> runes list" where
  "join_items items = rev (dropWhile (\<lambda>it. it = or_word) (rev (foldl join_step [] items)))"

definition search_form :: "unicode_tables \<Rightarrow> runes \<Rightarrow> runes" where
  "search_form U s = join [sp] (join_items (search_items U (fold_for_search U s)))"

section \<open>\<open>PlainTerms\<close> and \<open>ComposeQuery\<close>\<close>

definition max_plain_terms :: nat where "max_plain_terms = 12"
definition max_query_runes :: nat where "max_query_runes = 500"
definition short_query :: nat where "short_query = 3"

text \<open>The token that starts at a word character: word characters, and hyphens before one.\<close>

fun take_token :: "unicode_tables \<Rightarrow> runes \<Rightarrow> runes" where
  "take_token U [] = []"
| "take_token U (c # cs) =
     (if word_rune U c \<or> (c = 45 \<and> cs \<noteq> [] \<and> word_rune U (hd cs)) then c # take_token U cs else [])"

definition skip_token :: "unicode_tables \<Rightarrow> runes list \<Rightarrow> runes \<Rightarrow> bool" where
  "skip_token U terms tok \<longleftrightarrow>
     length tok < 2 \<or> tok = or_word \<or> (45 \<notin> set tok \<and> plain_stop U tok) \<or> tok \<in> set terms"

function plain_loop :: "unicode_tables \<Rightarrow> runes list \<Rightarrow> runes \<Rightarrow> runes list" where
  "plain_loop U terms rs =
     (if rs = [] \<or> length terms \<ge> max_plain_terms then terms
      else if \<not> word_rune U (hd rs) then plain_loop U terms (tl rs)
      else let tok = take_token U rs in
        plain_loop U (if skip_token U terms tok then terms else terms @ [tok]) (drop (length tok) rs))"
  by pat_completeness auto

lemma take_token_pos: "rs \<noteq> [] \<Longrightarrow> word_rune U (hd rs) \<Longrightarrow> take_token U rs \<noteq> []"
  by (cases rs) auto

termination plain_loop
  by (relation "measure (\<lambda>(U, t, s). length s)") (auto simp: take_token_pos)

declare plain_loop.simps [simp del]

definition plain_terms :: "unicode_tables \<Rightarrow> runes \<Rightarrow> runes list" where
  "plain_terms U s = plain_loop U [] (fold_for_search U s)"

definition compose_query :: "unicode_tables \<Rightarrow> runes \<Rightarrow> runes \<Rightarrow> runes" where
  "compose_query U current previous =
     (let text = trim current; prev = trim previous;
          text' = (if prev \<noteq> [] \<and> length (plain_terms U text) < short_query
                   then trim (text @ [sp] @ prev) else text) in
      if length text' > max_query_runes then trim (take max_query_runes text') else text')"

section \<open>A customer's text is never syntax\<close>

text \<open>
  A plain term as the query sees it: at least two characters, word characters with hyphens only
  between two of them, not the operator \<open>or\<close>, and no stop word unless it is a compound.
\<close>

fun hyphens_inside :: "unicode_tables \<Rightarrow> rune \<Rightarrow> runes \<Rightarrow> bool" where
  "hyphens_inside U p [] \<longleftrightarrow> word_rune U p"
| "hyphens_inside U p (c # cs) \<longleftrightarrow> (word_rune U p \<or> (p = 45 \<and> word_rune U c)) \<and> hyphens_inside U c cs"

definition plain_term :: "unicode_tables \<Rightarrow> runes \<Rightarrow> bool" where
  "plain_term U t \<longleftrightarrow> 2 \<le> length t \<and> word_rune U (hd t) \<and> hyphens_inside U (hd t) (tl t) \<and> t \<noteq> or_word
     \<and> (plain_stop U t \<longrightarrow> 45 \<in> set t)"

lemma take_token_inside:
  "word_rune U c \<or> (c = 45 \<and> cs \<noteq> [] \<and> word_rune U (hd cs)) \<Longrightarrow> hyphens_inside U c (take_token U cs)"
proof (induction cs arbitrary: c)
  case (Cons d ds)
  then show ?case by auto
qed simp

lemma plain_loop_terms:
  "list_all (plain_term U) terms \<Longrightarrow> distinct terms \<Longrightarrow> length terms \<le> max_plain_terms \<Longrightarrow>
   list_all (plain_term U) (plain_loop U terms rs) \<and> distinct (plain_loop U terms rs)
   \<and> length (plain_loop U terms rs) \<le> max_plain_terms"
proof (induction U terms rs rule: plain_loop.induct)
  case (1 U terms rs)
  show ?case
  proof (cases "rs = [] \<or> length terms \<ge> max_plain_terms")
    case False
    note go = this
    show ?thesis
    proof (cases "word_rune U (hd rs)")
      case True
      define tok where "tok = take_token U rs"
      have "tok = hd rs # take_token U (tl rs)" using go True by (cases rs) (auto simp: tok_def)
      moreover have "hyphens_inside U (hd rs) (take_token U (tl rs))" by (rule take_token_inside) (simp add: True)
      ultimately have "\<not> skip_token U terms tok \<Longrightarrow> plain_term U tok \<and> tok \<notin> set terms"
        using True by (auto simp: skip_token_def plain_term_def Suc_le_eq)
      then show ?thesis
        using "1.IH"(2) [OF go, of tok] True go "1.prems" plain_loop.simps [of U terms rs]
        by (auto simp: tok_def Let_def)
    next
      case False
      then show ?thesis using "1.IH"(1) [OF go] go "1.prems" plain_loop.simps [of U terms rs] by simp
    qed
  qed (use "1.prems" plain_loop.simps [of U terms rs] in simp)
qed

text \<open>
  Whatever a customer types, \<open>PlainTerms\<close> gives at most 12 different terms, none of
  which is search syntax: a term starts and ends with a word character, a hyphen in it stands
  between two of them (so it is no exclusion), it has no quote and no space, it is not the word
  \<open>or\<close>, and it is a stop word only when it is a compound.
\<close>

theorem plain_terms_are_never_syntax:
  "length (plain_terms U s) \<le> 12 \<and> distinct (plain_terms U s) \<and> (\<forall>t \<in> set (plain_terms U s). plain_term U t)"
  using plain_loop_terms [of U "[]" "fold_for_search U s"]
  by (simp add: plain_terms_def max_plain_terms_def list_all_iff)

lemma compose_query_bound: "length (compose_query U current previous) \<le> 500"
proof -
  have "length (trim (take 500 x)) \<le> 500" for x :: runes
    by (rule le_trans [OF length_trim_by]) simp
  then show ?thesis by (simp add: compose_query_def Let_def max_query_runes_def)
qed

text \<open>\<open>joinItems\<close> leaves no operator without an operand on both sides.\<close>

fun or_ok :: "bool \<Rightarrow> runes list \<Rightarrow> bool" where
  "or_ok start [] \<longleftrightarrow> True"
| "or_ok start (it # its) \<longleftrightarrow> \<not> (start \<and> it = or_word) \<and> or_ok (it = or_word) its"

lemma or_ok_snoc:
  "or_ok b (xs @ [x]) \<longleftrightarrow> or_ok b xs \<and> (x = or_word \<longrightarrow> (if xs = [] then \<not> b else last xs \<noteq> or_word))"
  by (induction xs arbitrary: b) auto

lemma or_ok_prefix: "or_ok b (xs @ ys) \<Longrightarrow> or_ok b xs"
  by (induction xs arbitrary: b) auto

lemma join_items_ok: "or_ok True (join_items items) \<and> (join_items items \<noteq> [] \<longrightarrow> last (join_items items) \<noteq> or_word)"
proof -
  define out where "out = foldl join_step [] items"
  have "or_ok True (foldl join_step acc items)" if "or_ok True acc" for acc
    using that by (induction items arbitrary: acc) (auto simp: join_step_def or_ok_snoc)
  then have "or_ok True out" unfolding out_def by simp
  moreover have "out = join_items items @ rev (takeWhile (\<lambda>it. it = or_word) (rev out))"
    unfolding join_items_def out_def by (metis rev_append rev_rev_ident takeWhile_dropWhile_id)
  ultimately have "or_ok True (join_items items)" by (metis or_ok_prefix)
  moreover have "last (join_items items) \<noteq> or_word" if "join_items items \<noteq> []"
    using that hd_dropWhile [of "\<lambda>it. it = or_word" "rev out"]
    by (simp add: join_items_def out_def last_rev)
  ultimately show ?thesis by blast
qed

text \<open>Every item \<open>SearchForm\<close> keeps has a word character: no lone operator or empty phrase.\<close>

lemma term_item_word: "t \<in> set (term_item U neg w) \<Longrightarrow> has_word_rune U t"
  by (auto simp: term_item_def Let_def has_word_rune_def split: if_splits)

lemma join_has_word: "ws \<noteq> [] \<Longrightarrow> list_all (has_word_rune U) ws \<Longrightarrow> has_word_rune U (join [sp] ws)"
  by (induction "[sp] :: runes" ws rule: join.induct) (auto simp: has_word_rune_def)

lemma phrase_item_word: "t \<in> set (phrase_item U neg w) \<Longrightarrow> has_word_rune U t"
  using join_has_word [of "filter (has_word_rune U) (map (drop_stopwords U) (words_of w))" U]
  by (auto simp: phrase_item_def Let_def has_word_rune_def list_all_iff split: if_splits)

lemma search_items_word: "t \<in> set (search_items U s) \<Longrightarrow> has_word_rune U t"
  by (induction U s rule: search_items.induct)
    (auto simp: Let_def dest: term_item_word phrase_item_word split: if_splits)

end
