(* ===== verification/Knowledge_Store.thy ===== *)
theory Knowledge_Store
  imports Knowledge_Query
begin

text \<open>
  The tables of the knowledge base and what writes them: \<open>internal/knowledge/store.go\<close> (\<open>Save\<close>,
  \<open>rebuildChunks\<close>, \<open>Reindex\<close>, \<open>ReindexOrg\<close>, \<open>ApplyScope\<close>, \<open>SetArchivedState\<close>, \<open>Remove\<close>) and
  \<open>internal/knowledge/manuals.go\<close> (\<open>ImportManuals\<close>, \<open>upsertByOrigin\<close>, \<open>archiveOrphans\<close>), over the
  rows of \<open>internal/models/knowledge.go\<close>.

  A transaction runs to its end or leaves the state as it was; \<^emph>\<open>faults\<close> are what the database does
  to the next transactions: nothing, a failure, or a concurrent import that commits between the read
  and the insert of \<open>upsertOnce\<close>. The row locks make the transactions on one document run one
  after the other, which is how the model runs them.
\<close>

section \<open>The rows\<close>

record kdoc =
  kd_id :: uuid
  kd_org :: uuid
  kd_unit :: "uuid option"
  kd_dept :: "uuid option"
  kd_vis :: string
  kd_src :: string
  kd_title :: runes
  kd_origin :: runes
  kd_body :: runes
  kd_hash :: nat
  kd_status :: string
  kd_archived_by :: string
  kd_created :: time
  kd_updated :: time
  kd_deleted :: bool

record kchunk =
  kc_id :: uuid
  kc_doc :: uuid
  kc_org :: uuid
  kc_unit :: "uuid option"
  kc_dept :: "uuid option"
  kc_vis :: string
  kc_status :: string
  kc_index :: nat
  kc_heading :: runes
  kc_content :: runes
  kc_search_heading :: runes
  kc_search_text :: runes
  kc_version :: nat

record manual_doc =
  m_title :: runes
  m_anchor :: runes
  m_text :: runes

datatype fault = Fine | Broken | Raced "uuid option" "uuid option" manual_doc

record kb =
  kb_docs :: "kdoc list"
  kb_chunks :: "kchunk list"
  kb_fresh :: uuid
  kb_now :: time
  kb_faults :: "fault list"

text \<open>What the model takes as given: the Unicode tables and SHA-256 (as a number).\<close>

record kenv =
  ke_unicode :: unicode_tables
  ke_sha :: "runes \<Rightarrow> nat"

datatype kb_error = NotFound | Conflict string | BadRequest string | UniqueViolation | DbError

definition active :: string where "active = ''active''"
definition archived :: string where "archived = ''archived''"
definition by_user :: string where "by_user = ''user''"
definition by_import :: string where "by_import = ''import''"
definition manual_html :: string where "manual_html = ''manual_html''"

lemma status_names [simp]:
  "active \<noteq> []" "archived \<noteq> []" "[] \<noteq> active" "[] \<noteq> archived" "active \<noteq> archived" "archived \<noteq> active" "by_user \<noteq> []" "by_import \<noteq> []" "[] \<noteq> by_user" "[] \<noteq> by_import"
  "by_user \<noteq> by_import" "by_import \<noteq> by_user" "manual_html \<noteq> ''markdown''"
  by (simp_all add: active_def archived_def by_user_def by_import_def manual_html_def)

definition index_version :: nat where "index_version = 2"

section \<open>Transactions\<close>

definition transaction :: "(kb \<Rightarrow> kb_error + ('a \<times> kb)) \<Rightarrow> kb \<Rightarrow> (kb_error + 'a) \<times> kb" where
  "transaction body s =
     (let s0 = s\<lparr>kb_faults := tl (kb_faults s)\<rparr> in
      if kb_faults s \<noteq> [] \<and> hd (kb_faults s) = Broken then (Inl DbError, s0)
      else case body s0 of Inl e \<Rightarrow> (Inl e, s0) | Inr (x, s1) \<Rightarrow> (Inr x, s1))"

text \<open>\<open>Lock\<close>: the live row of the organization, or \<open>ErrRecordNotFound\<close>.\<close>

definition kd_live :: "kdoc \<Rightarrow> bool" where
  "kd_live d \<longleftrightarrow> \<not> kd_deleted d"

definition lock_doc :: "uuid \<Rightarrow> uuid \<Rightarrow> kb \<Rightarrow> kdoc option" where
  "lock_doc org i s = find (\<lambda>d. kd_id d = i \<and> kd_org d = org \<and> kd_live d) (kb_docs s)"

section \<open>\<open>Save\<close>\<close>

definition visibility_for :: "uuid option \<Rightarrow> uuid option \<Rightarrow> string" where
  "visibility_for unit dept =
     (if dept \<noteq> None then ''department'' else if unit \<noteq> None then ''unit'' else ''organization'')"

definition content_hash :: "kenv \<Rightarrow> runes \<Rightarrow> runes \<Rightarrow> nat" where
  "content_hash E title body = ke_sha E (title @ 0 # body)"

text \<open>The columns the database bounds: \<open>title\<close> and \<open>origin\<close> are \<open>varchar(500)\<close>.\<close>

definition row_fits :: "kdoc \<Rightarrow> bool" where
  "row_fits d \<longleftrightarrow> length (kd_title d) \<le> 500 \<and> length (kd_origin d) \<le> 500"

definition same_origin :: "kdoc \<Rightarrow> kdoc \<Rightarrow> bool" where
  "same_origin d x \<longleftrightarrow> kd_live x \<and> kd_org x = kd_org d \<and> kd_origin x = kd_origin d \<and> kd_origin d \<noteq> []"

text \<open>\<open>tx.Save\<close>: an insert for the zero id, under the unique index on organization and origin; an
  update of the row otherwise.\<close>

definition store_doc :: "kdoc \<Rightarrow> kb \<Rightarrow> kb_error + (kdoc \<times> kb)" where
  "store_doc d s =
     (if \<not> row_fits d then Inl DbError
      else if kd_id d = 0 then
        (if list_ex (same_origin d) (kb_docs s) then Inl UniqueViolation
         else let d' = d\<lparr>kd_id := kb_fresh s, kd_created := kb_now s, kd_updated := kb_now s\<rparr> in
           Inr (d', s\<lparr>kb_docs := kb_docs s @ [d'], kb_fresh := kb_fresh s + 1\<rparr>))
      else let d' = d\<lparr>kd_updated := kb_now s\<rparr> in
        Inr (d', s\<lparr>kb_docs := map (\<lambda>x. if kd_id x = kd_id d then d' else x) (kb_docs s)\<rparr>))"

definition new_chunk :: "kenv \<Rightarrow> kdoc \<Rightarrow> uuid \<Rightarrow> piece \<Rightarrow> kchunk" where
  "new_chunk E d i p =
     \<lparr>kc_id = i, kc_doc = kd_id d, kc_org = kd_org d, kc_unit = kd_unit d, kc_dept = kd_dept d,
      kc_vis = kd_vis d, kc_status = kd_status d, kc_index = pc_index p, kc_heading = pc_heading p,
      kc_content = pc_content p, kc_search_heading = search_form (ke_unicode E) (pc_heading p),
      kc_search_text = search_form (ke_unicode E) (pc_content p), kc_version = index_version\<rparr>"

definition rebuild_chunks :: "kenv \<Rightarrow> kdoc \<Rightarrow> section_t list \<Rightarrow> kb \<Rightarrow> kb" where
  "rebuild_chunks E d secs s =
     (let pieces = chunk secs in
      s\<lparr>kb_chunks := filter (\<lambda>c. kc_doc c \<noteq> kd_id d) (kb_chunks s)
          @ map (\<lambda>(i, p). new_chunk E d i p) (enumerate (kb_fresh s) pieces),
        kb_fresh := kb_fresh s + length pieces\<rparr>)"

definition save_doc :: "kenv \<Rightarrow> kdoc \<Rightarrow> section_t list \<Rightarrow> kb \<Rightarrow> kb_error + (kdoc \<times> kb)" where
  "save_doc E d secs s =
     (let body = normalize_text (kd_body d);
          d1 = d\<lparr>kd_body := body, kd_vis := visibility_for (kd_unit d) (kd_dept d),
                 kd_hash := content_hash E (kd_title d) body,
                 kd_status := (if kd_status d = [] then active else kd_status d)\<rparr> in
      case store_doc d1 s of
        Inl e \<Rightarrow> Inl e
      | Inr (d2, s1) \<Rightarrow> Inr (d2, rebuild_chunks E d2 secs s1))"

text \<open>\<open>Reindex\<close> builds the chunks from the stored row.\<close>

definition reindex_doc :: "kenv \<Rightarrow> kdoc \<Rightarrow> kb \<Rightarrow> nat \<times> kb" where
  "reindex_doc E d s =
     (let s1 = rebuild_chunks E d (sections_for (kd_src d) (kd_title d) (kd_body d)) s in
      (length (filter (\<lambda>c. kc_doc c = kd_id d) (kb_chunks s1)), s1))"

text \<open>\<open>ApplyScope\<close> copies scope and status to the chunks.\<close>

definition rescope_chunk :: "kdoc \<Rightarrow> kchunk \<Rightarrow> kchunk" where
  "rescope_chunk d c =
     (if kc_doc c = kd_id d
      then c\<lparr>kc_unit := kd_unit d, kc_dept := kd_dept d, kc_vis := kd_vis d, kc_status := kd_status d\<rparr>
      else c)"

definition apply_scope :: "kdoc \<Rightarrow> kb \<Rightarrow> kb_error + (kdoc \<times> kb)" where
  "apply_scope d s =
     (case store_doc (d\<lparr>kd_vis := visibility_for (kd_unit d) (kd_dept d)\<rparr>) s of
        Inl e \<Rightarrow> Inl e
      | Inr (d2, s1) \<Rightarrow> Inr (d2, s1\<lparr>kb_chunks := map (rescope_chunk d2) (kb_chunks s1)\<rparr>))"

definition set_archived_state :: "kdoc \<Rightarrow> string \<Rightarrow> string \<Rightarrow> kdoc" where
  "set_archived_state d status by =
     (let d1 = (if status = archived \<and> kd_status d \<noteq> archived then d\<lparr>kd_archived_by := by\<rparr>
                else if status = active \<and> kd_status d = archived then d\<lparr>kd_archived_by := []\<rparr>
                else d) in
      if status \<noteq> [] then d1\<lparr>kd_status := status\<rparr> else d1)"

definition remove_doc :: "kdoc \<Rightarrow> kb \<Rightarrow> kb" where
  "remove_doc d s =
     s\<lparr>kb_chunks := filter (\<lambda>c. kc_doc c \<noteq> kd_id d) (kb_chunks s),
       kb_docs := map (\<lambda>x. if kd_id x = kd_id d then x\<lparr>kd_deleted := True\<rparr> else x) (kb_docs s)\<rparr>"

section \<open>Reindexing an organization\<close>

definition stale_chunk :: "kchunk \<Rightarrow> bool" where
  "stale_chunk c \<longleftrightarrow> kc_version c < index_version"

record index_status =
  is_documents :: nat
  is_chunks :: nat
  is_stale :: nat

definition kb_status :: "uuid \<Rightarrow> kb \<Rightarrow> index_status" where
  "kb_status org s =
     \<lparr>is_documents = length (filter (\<lambda>d. kd_org d = org \<and> kd_live d) (kb_docs s)),
      is_chunks = length (filter (\<lambda>c. kc_org c = org) (kb_chunks s)),
      is_stale = length (filter (\<lambda>c. kc_org c = org \<and> stale_chunk c) (kb_chunks s))\<rparr>"

record reindex_result =
  rr_documents :: nat
  rr_chunks :: nat
  rr_skipped :: nat

definition reindex_targets :: "uuid \<Rightarrow> bool \<Rightarrow> kb \<Rightarrow> uuid list" where
  "reindex_targets org only_stale s =
     map kd_id (sort_key kd_created (sort_key kd_id (filter (\<lambda>d. kd_org d = org \<and> kd_live d
        \<and> (only_stale \<longrightarrow> list_ex (\<lambda>c. kc_doc c = kd_id d \<and> kc_org c = org \<and> stale_chunk c) (kb_chunks s)))
        (kb_docs s))))"

text \<open>One document: \<^const>\<open>None\<close> when it has no stale chunk left, else its number of chunks.\<close>

definition reindex_one :: "kenv \<Rightarrow> uuid \<Rightarrow> bool \<Rightarrow> uuid \<Rightarrow> kb \<Rightarrow> (kb_error + nat option) \<times> kb" where
  "reindex_one E org only_stale i =
     transaction (\<lambda>s.
       case lock_doc org i s of
         None \<Rightarrow> Inl NotFound
       | Some d \<Rightarrow>
           if only_stale \<and> \<not> list_ex (\<lambda>c. kc_doc c = i \<and> stale_chunk c) (kb_chunks s) then Inr (None, s)
           else let (n, s1) = reindex_doc E d s in Inr (Some n, s1))"

fun reindex_loop ::
  "kenv \<Rightarrow> uuid \<Rightarrow> bool \<Rightarrow> uuid list \<Rightarrow> reindex_result \<Rightarrow> kb \<Rightarrow> (reindex_result \<times> kb_error option) \<times> kb" where
  "reindex_loop E org only_stale [] res s = ((res, None), s)"
| "reindex_loop E org only_stale (i # is) res s =
     (case reindex_one E org only_stale i s of
        (Inr (Some n), s1) \<Rightarrow>
          reindex_loop E org only_stale is
            (res\<lparr>rr_documents := rr_documents res + 1, rr_chunks := rr_chunks res + n\<rparr>) s1
      | (Inr None, s1) \<Rightarrow> reindex_loop E org only_stale is (res\<lparr>rr_skipped := rr_skipped res + 1\<rparr>) s1
      | (Inl e, s1) \<Rightarrow>
          if e = NotFound then reindex_loop E org only_stale is (res\<lparr>rr_skipped := rr_skipped res + 1\<rparr>) s1
          else ((res, Some e), s1))"

text \<open>The result, and the stale chunks that remain when the loop ended well.\<close>

definition reindex_org :: "kenv \<Rightarrow> uuid \<Rightarrow> bool \<Rightarrow> kb \<Rightarrow> (reindex_result \<times> (kb_error + nat)) \<times> kb" where
  "reindex_org E org only_stale s =
     (case reindex_loop E org only_stale (reindex_targets org only_stale s)
             \<lparr>rr_documents = 0, rr_chunks = 0, rr_skipped = 0\<rparr> s of
        ((res, Some e), s1) \<Rightarrow> ((res, Inl e), s1)
      | ((res, None), s1) \<Rightarrow> ((res, Inr (is_stale (kb_status org s1))), s1))"

section \<open>Importing the manuals\<close>

datatype import_act = Unchanged | Created | Updated | Reactivated

definition with_act :: "'a \<Rightarrow> kb_error + (kdoc \<times> kb) \<Rightarrow> kb_error + ('a \<times> kb)" where
  "with_act act r = (case r of Inl e \<Rightarrow> Inl e | Inr (_, s) \<Rightarrow> Inr (act, s))"

lemma with_act_Inr: "with_act act r = Inr (a, s) \<longleftrightarrow> a = act \<and> (\<exists>d. r = Inr (d, s))"
  by (auto simp: with_act_def split: sum.splits)

definition manual_row :: "uuid \<Rightarrow> uuid option \<Rightarrow> uuid option \<Rightarrow> runes \<Rightarrow> runes \<Rightarrow> runes \<Rightarrow> kdoc" where
  "manual_row org unit dept origin title body =
     \<lparr>kd_id = 0, kd_org = org, kd_unit = unit, kd_dept = dept, kd_vis = [], kd_src = manual_html,
      kd_title = title, kd_origin = origin, kd_body = body, kd_hash = 0, kd_status = [],
      kd_archived_by = [], kd_created = 0, kd_updated = 0, kd_deleted = False\<rparr>"

definition find_origin :: "uuid \<Rightarrow> runes \<Rightarrow> kb \<Rightarrow> kdoc option" where
  "find_origin org origin s = find (\<lambda>d. kd_org d = org \<and> kd_origin d = origin \<and> kd_live d) (kb_docs s)"

definition upsert_body ::
  "kenv \<Rightarrow> uuid \<Rightarrow> uuid option \<Rightarrow> uuid option \<Rightarrow> runes \<Rightarrow> manual_doc \<Rightarrow> bool \<Rightarrow> kb \<Rightarrow> kb_error + (import_act \<times> kb)" where
  "upsert_body E org unit dept origin m dry s =
     (let body = normalize_text (m_text m);
          hash = content_hash E (m_title m) body;
          secs = sections_for manual_html (m_title m) body in
      case find_origin org origin s of
        Some doc \<Rightarrow>
          (let changed = (kd_hash doc \<noteq> hash);
               reactivate = (kd_status doc = archived \<and> kd_archived_by doc = by_import);
               act = (if reactivate then Reactivated else if changed then Updated else Unchanged);
               doc1 = (if reactivate then set_archived_state doc active by_import else doc) in
           if dry \<or> act = Unchanged then Inr (act, s)
           else if changed then with_act act (save_doc E (doc1\<lparr>kd_title := m_title m, kd_body := body\<rparr>) secs s)
           else with_act act (apply_scope doc1 s))
      | None \<Rightarrow>
          if dry then Inr (Created, s)
          else with_act Created (save_doc E (manual_row org unit dept origin (m_title m) body) secs s))"

text \<open>
  \<open>upsertOnce\<close>. When a concurrent import (this same code, with its own unit, department and text)
  commits between the read and the insert, the insert meets the unique index.
\<close>

definition upsert_once ::
  "kenv \<Rightarrow> uuid \<Rightarrow> uuid option \<Rightarrow> uuid option \<Rightarrow> runes \<Rightarrow> manual_doc \<Rightarrow> bool \<Rightarrow> kb \<Rightarrow> (kb_error + import_act) \<times> kb" where
  "upsert_once E org unit dept origin m dry s =
     (case (kb_faults s, find_origin org origin s, dry) of
        (Raced unit' dept' m' # fs, None, False) \<Rightarrow>
          (case upsert_body E org unit' dept' origin m' False (s\<lparr>kb_faults := fs\<rparr>) of
             Inr (_, s1) \<Rightarrow> (Inl UniqueViolation, s1)
           | Inl e \<Rightarrow> (Inl e, s\<lparr>kb_faults := fs\<rparr>))
      | _ \<Rightarrow> transaction (upsert_body E org unit dept origin m dry) s)"

definition upsert_by_origin ::
  "kenv \<Rightarrow> uuid \<Rightarrow> uuid option \<Rightarrow> uuid option \<Rightarrow> runes \<Rightarrow> manual_doc \<Rightarrow> bool \<Rightarrow> kb \<Rightarrow> (kb_error + import_act) \<times> kb" where
  "upsert_by_origin E org unit dept origin m dry s =
     (case upsert_once E org unit dept origin m dry s of
        (Inl UniqueViolation, s1) \<Rightarrow> upsert_once E org unit dept origin m dry s1
      | r \<Rightarrow> r)"

definition manual_prefix :: "runes \<Rightarrow> runes" where
  "manual_prefix file = runes_of ''manual/'' @ file @ [35]"

definition archive_body :: "uuid \<Rightarrow> uuid \<Rightarrow> kb \<Rightarrow> kb_error + (unit \<times> kb)" where
  "archive_body org i s =
     (case lock_doc org i s of
        None \<Rightarrow> Inl NotFound
      | Some d \<Rightarrow>
          if kd_status d \<noteq> active then Inr ((), s)
          else with_act () (apply_scope (set_archived_state d archived by_import) s))"

definition archive_one :: "uuid \<Rightarrow> uuid \<Rightarrow> kb \<Rightarrow> (kb_error + unit) \<times> kb" where
  "archive_one org i = transaction (archive_body org i)"

fun archive_loop ::
  "uuid \<Rightarrow> runes list \<Rightarrow> bool \<Rightarrow> kdoc list \<Rightarrow> runes list \<Rightarrow> kb \<Rightarrow> (runes list \<times> kb_error option) \<times> kb" where
  "archive_loop org seen dry [] done s = ((done, None), s)"
| "archive_loop org seen dry (d # ds) done s =
     (if kd_origin d \<in> set seen then archive_loop org seen dry ds done s
      else if dry then archive_loop org seen dry ds (done @ [kd_origin d]) s
      else case archive_one org (kd_id d) s of
        (r, s1) \<Rightarrow>
          (case r of
             Inl e \<Rightarrow> if e = NotFound then archive_loop org seen dry ds (done @ [kd_origin d]) s1
                      else ((done, Some e), s1)
           | Inr _ \<Rightarrow> archive_loop org seen dry ds (done @ [kd_origin d]) s1))"

definition orphans_of :: "uuid \<Rightarrow> runes \<Rightarrow> kb \<Rightarrow> kdoc list" where
  "orphans_of org file s =
     filter (\<lambda>d. kd_org d = org \<and> kd_src d = manual_html \<and> kd_status d = active \<and> kd_live d
       \<and> take (length (manual_prefix file)) (kd_origin d) = manual_prefix file) (kb_docs s)"

definition archive_orphans ::
  "uuid \<Rightarrow> runes \<Rightarrow> runes list \<Rightarrow> bool \<Rightarrow> kb \<Rightarrow> (runes list \<times> kb_error option) \<times> kb" where
  "archive_orphans org file seen dry s = archive_loop org seen dry (orphans_of org file s) [] s"

record import_result =
  ir_created :: nat
  ir_updated :: nat
  ir_unchanged :: nat
  ir_reactivated :: nat
  ir_archived :: "runes list"
  ir_failed :: "runes list"

datatype import_error = NoFiles | AtOrigin runes kb_error | AtFile runes kb_error | FilesFailed "runes list"

definition count_act :: "import_act \<Rightarrow> import_result \<Rightarrow> import_result" where
  "count_act act r =
     (case act of
        Created \<Rightarrow> r\<lparr>ir_created := ir_created r + 1\<rparr>
      | Updated \<Rightarrow> r\<lparr>ir_updated := ir_updated r + 1\<rparr>
      | Reactivated \<Rightarrow> r\<lparr>ir_reactivated := ir_reactivated r + 1\<rparr>
      | Unchanged \<Rightarrow> r\<lparr>ir_unchanged := ir_unchanged r + 1\<rparr>)"

fun import_docs ::
  "kenv \<Rightarrow> uuid \<Rightarrow> uuid option \<Rightarrow> uuid option \<Rightarrow> runes \<Rightarrow> bool \<Rightarrow> manual_doc list \<Rightarrow> import_result \<Rightarrow> kb
   \<Rightarrow> (import_result \<times> import_error option) \<times> kb" where
  "import_docs E org unit dept file dry [] res s = ((res, None), s)"
| "import_docs E org unit dept file dry (m # ms) res s =
     (let origin = manual_prefix file @ m_anchor m in
      case upsert_by_origin E org unit dept origin m dry s of
        (Inl e, s1) \<Rightarrow> ((res, Some (AtOrigin origin e)), s1)
      | (Inr act, s1) \<Rightarrow> import_docs E org unit dept file dry ms (count_act act res) s1)"

text \<open>A file that could not be read, or has no section, is \<^const>\<open>None\<close> or empty: nothing is archived.\<close>

fun import_files ::
  "kenv \<Rightarrow> uuid \<Rightarrow> uuid option \<Rightarrow> uuid option \<Rightarrow> bool \<Rightarrow> (runes \<times> manual_doc list option) list \<Rightarrow> import_result \<Rightarrow> kb
   \<Rightarrow> (import_result \<times> import_error option) \<times> kb" where
  "import_files E org unit dept dry [] res s =
     ((res, if ir_failed res \<noteq> [] then Some (FilesFailed (ir_failed res)) else None), s)"
| "import_files E org unit dept dry ((file, docs) # fs) res s =
     (case docs of
        None \<Rightarrow> import_files E org unit dept dry fs (res\<lparr>ir_failed := ir_failed res @ [file]\<rparr>) s
      | Some ms \<Rightarrow>
          if ms = [] then import_files E org unit dept dry fs (res\<lparr>ir_failed := ir_failed res @ [file]\<rparr>) s
          else case import_docs E org unit dept file dry ms res s of
            ((res1, Some e), s1) \<Rightarrow> ((res1, Some e), s1)
          | ((res1, None), s1) \<Rightarrow>
              (case archive_orphans org file (map (\<lambda>m. manual_prefix file @ m_anchor m) ms) dry s1 of
                 ((_, Some e), s2) \<Rightarrow> ((res1, Some (AtFile file e)), s2)
               | ((gone, None), s2) \<Rightarrow>
                   import_files E org unit dept dry fs (res1\<lparr>ir_archived := ir_archived res1 @ gone\<rparr>) s2))"

definition import_manuals ::
  "kenv \<Rightarrow> uuid \<Rightarrow> uuid option \<Rightarrow> uuid option \<Rightarrow> (runes \<times> manual_doc list option) list \<Rightarrow> bool \<Rightarrow> kb
   \<Rightarrow> (import_result \<times> import_error option) \<times> kb" where
  "import_manuals E org unit dept files dry s =
     (let res = \<lparr>ir_created = 0, ir_updated = 0, ir_unchanged = 0, ir_reactivated = 0, ir_archived = [], ir_failed = []\<rparr> in
      if files = [] then ((res, Some NoFiles), s)
      else import_files E org unit dept dry (sort_key fst files) res s)"


section \<open>The invariant of the tables\<close>

text \<open>A chunk carries the organization, scope, visibility and status of its document.\<close>

definition carries :: "kdoc \<Rightarrow> kchunk \<Rightarrow> bool" where
  "carries d c \<longleftrightarrow> kc_doc c = kd_id d \<and> kc_org c = kd_org d \<and> kc_unit c = kd_unit d \<and> kc_dept c = kd_dept d
     \<and> kc_vis c = kd_vis d \<and> kc_status c = kd_status d"

definition good_status :: "kdoc \<Rightarrow> bool" where
  "good_status d \<longleftrightarrow> kd_status d \<in> {[], active, archived} \<and> (kd_status d = archived \<longleftrightarrow> kd_archived_by d \<noteq> [])"

definition doc_ok :: "kenv \<Rightarrow> kdoc \<Rightarrow> bool" where
  "doc_ok E d \<longleftrightarrow> is_normal (kd_body d) \<and> kd_vis d = visibility_for (kd_unit d) (kd_dept d)
     \<and> kd_hash d = content_hash E (kd_title d) (kd_body d) \<and> kd_status d \<noteq> [] \<and> good_status d
     \<and> (kd_origin d \<noteq> [] \<longrightarrow> kd_src d = manual_html)"

definition doc_texts :: "kdoc \<Rightarrow> (nat \<times> runes \<times> runes) list" where
  "doc_texts d = map (\<lambda>p. (pc_index p, pc_heading p, pc_content p))
                   (chunk (sections_for (kd_src d) (kd_title d) (kd_body d)))"

definition chunk_texts :: "uuid \<Rightarrow> kb \<Rightarrow> (nat \<times> runes \<times> runes) list" where
  "chunk_texts i s = map (\<lambda>c. (kc_index c, kc_heading c, kc_content c)) (filter (\<lambda>c. kc_doc c = i) (kb_chunks s))"

definition origin_keys :: "kdoc list \<Rightarrow> (uuid \<times> runes) list" where
  "origin_keys ds = map (\<lambda>d. (kd_org d, kd_origin d)) (filter (\<lambda>d. kd_live d \<and> kd_origin d \<noteq> []) ds)"

definition rows_sound :: "kenv \<Rightarrow> kb \<Rightarrow> bool" where
  "rows_sound E s \<longleftrightarrow>
     0 < kb_fresh s \<and> distinct (map kd_id (kb_docs s)) \<and> (\<forall>d \<in> set (kb_docs s). 0 < kd_id d \<and> kd_id d < kb_fresh s \<and> doc_ok E d)
     \<and> distinct (map kc_id (kb_chunks s)) \<and> (\<forall>c \<in> set (kb_chunks s). kc_id c < kb_fresh s)
     \<and> distinct (origin_keys (kb_docs s))"

text \<open>
  Every chunk belongs to a live document, carries its scope and status, and the chunks of a document
  are the pieces of its stored text; \<open>but i\<close> leaves out the document that is being rewritten.
\<close>

definition index_sound :: "uuid set \<Rightarrow> kb \<Rightarrow> bool" where
  "index_sound but s \<longleftrightarrow>
     (\<forall>c \<in> set (kb_chunks s). kc_doc c \<notin> but \<longrightarrow> (\<exists>d \<in> set (kb_docs s). kd_live d \<and> carries d c))
     \<and> (\<forall>d \<in> set (kb_docs s). kd_live d \<and> kd_id d \<notin> but \<longrightarrow> chunk_texts (kd_id d) s = doc_texts d)"

definition kb_ok :: "kenv \<Rightarrow> kb \<Rightarrow> bool" where
  "kb_ok E s \<longleftrightarrow> rows_sound E s \<and> index_sound {} s"

lemma kb_ok_rowsD: "kb_ok E s \<Longrightarrow> rows_sound E s"
  by (simp add: kb_ok_def)

lemma kb_ok_faults [simp]: "kb_ok E (s\<lparr>kb_faults := fs\<rparr>) = kb_ok E s"
  by (simp add: kb_ok_def rows_sound_def index_sound_def chunk_texts_def)

lemma kb_ok_now [simp]: "kb_ok E (s\<lparr>kb_now := t\<rparr>) = kb_ok E s"
  by (simp add: kb_ok_def rows_sound_def index_sound_def chunk_texts_def)

lemma unique_doc: "rows_sound E s \<Longrightarrow> d \<in> set (kb_docs s) \<Longrightarrow> x \<in> set (kb_docs s) \<Longrightarrow> kd_id d = kd_id x \<Longrightarrow> d = x"
  using map_fst_eq_fst_unique [of kd_id "kb_docs s" d x] by (simp add: rows_sound_def)

lemma find_mem: "find P xs = Some x \<Longrightarrow> x \<in> set xs \<and> P x"
  by (induction xs) (auto split: if_splits)

lemma lock_doc_SomeD: "lock_doc org i s = Some d \<Longrightarrow> d \<in> set (kb_docs s) \<and> kd_id d = i \<and> kd_org d = org \<and> kd_live d"
  unfolding lock_doc_def by (drule find_mem) auto

lemma find_origin_SomeD:
  "find_origin org origin s = Some d \<Longrightarrow> d \<in> set (kb_docs s) \<and> kd_org d = org \<and> kd_origin d = origin \<and> kd_live d"
  unfolding find_origin_def by (drule find_mem) auto

lemma good_status_set_archived:
  "good_status d \<Longrightarrow> status \<in> {[], active, archived} \<Longrightarrow> by \<noteq> [] \<Longrightarrow> good_status (set_archived_state d status by)"
  by (auto simp: good_status_def set_archived_state_def Let_def)

lemma set_archived_sel [simp]:
  "kd_id (set_archived_state d st by) = kd_id d" "kd_org (set_archived_state d st by) = kd_org d"
  "kd_unit (set_archived_state d st by) = kd_unit d" "kd_dept (set_archived_state d st by) = kd_dept d"
  "kd_src (set_archived_state d st by) = kd_src d" "kd_title (set_archived_state d st by) = kd_title d"
  "kd_origin (set_archived_state d st by) = kd_origin d" "kd_body (set_archived_state d st by) = kd_body d"
  "kd_hash (set_archived_state d st by) = kd_hash d" "kd_deleted (set_archived_state d st by) = kd_deleted d"
  "kd_vis (set_archived_state d st by) = kd_vis d" "kd_live (set_archived_state d st by) = kd_live d"
  "kd_status (set_archived_state d st by) = (if st = [] then kd_status d else st)"
  by (auto simp: set_archived_state_def Let_def kd_live_def)

text \<open>Storing a row: a new one, or the live row with the same id, organization and origin.\<close>

definition may_store :: "kdoc \<Rightarrow> kb \<Rightarrow> bool" where
  "may_store d s \<longleftrightarrow> kd_live d \<and>
     (kd_id d = 0 \<or> (\<exists>x \<in> set (kb_docs s). kd_live x \<and> kd_id x = kd_id d \<and> kd_org x = kd_org d \<and> kd_origin x = kd_origin d))"

lemma origin_keys_map:
  "\<forall>x \<in> set ds. kd_org (f x) = kd_org x \<and> kd_origin (f x) = kd_origin x \<and> kd_live (f x) = kd_live x
   \<Longrightarrow> origin_keys (map f ds) = origin_keys ds"
  by (induction ds) (auto simp: origin_keys_def)

lemma store_doc_sound:
  assumes ok: "kb_ok E s" and d: "doc_ok E d" "may_store d s" and st: "store_doc d s = Inr (d', s')"
  shows "rows_sound E s' \<and> index_sound {kd_id d'} s' \<and> d' \<in> set (kb_docs s') \<and> kd_live d' \<and> doc_ok E d'
    \<and> kb_chunks s' = kb_chunks s \<and> doc_texts d' = doc_texts d"
proof (cases "kd_id d = 0")
  case True
  define e where "e = d\<lparr>kd_id := kb_fresh s, kd_created := kb_now s, kd_updated := kb_now s\<rparr>"
  have free: "\<not> list_ex (same_origin d) (kb_docs s)" "d' = e"
    "s' = s\<lparr>kb_docs := kb_docs s @ [e], kb_fresh := kb_fresh s + 1\<rparr>"
    using st True by (auto simp: store_doc_def e_def Let_def split: if_splits)
  have e: "kd_live e" "doc_ok E e" "kd_id e = kb_fresh s" "doc_texts e = doc_texts d"
    using d by (auto simp: may_store_def kd_live_def doc_ok_def good_status_def e_def doc_texts_def)
  have new: "kd_id x \<noteq> kb_fresh s" if "x \<in> set (kb_docs s)" for x
    using ok that by (auto simp: kb_ok_def rows_sound_def)
  have keys: "(kd_org e, kd_origin e) \<notin> set (origin_keys (kb_docs s))" if "kd_origin e \<noteq> []"
    using free(1) that by (auto simp: origin_keys_def same_origin_def list_ex_iff e_def)
  have old: "chunk_texts i s' = chunk_texts i s" for i using free(3) by (simp add: chunk_texts_def)
  have "rows_sound E s'"
    using ok new e keys free(3) by (auto simp: kb_ok_def rows_sound_def origin_keys_def less_Suc_eq)
  moreover have "index_sound {kd_id d'} s'"
    using ok free(2,3) e old by (auto simp: kb_ok_def index_sound_def)
  ultimately show ?thesis using free e by auto
next
  case False
  define e where "e = d\<lparr>kd_updated := kb_now s\<rparr>"
  have e: "kd_live e" "doc_ok E e" "kd_id e = kd_id d" "doc_texts e = doc_texts d" "kd_org e = kd_org d"
    "kd_origin e = kd_origin d" "d' = e"
    "s' = s\<lparr>kb_docs := map (\<lambda>x. if kd_id x = kd_id d then e else x) (kb_docs s)\<rparr>"
    using d st False
    by (auto simp: may_store_def kd_live_def doc_ok_def good_status_def e_def doc_texts_def store_doc_def Let_def split: if_splits)
  obtain x where x: "x \<in> set (kb_docs s)" "kd_live x" "kd_id x = kd_id d" "kd_org x = kd_org d" "kd_origin x = kd_origin d"
    using d(2) False by (auto simp: may_store_def)
  have same: "y = x" if "y \<in> set (kb_docs s)" "kd_id y = kd_id d" for y
    using unique_doc [OF kb_ok_rowsD [OF ok], of y x] x that by simp
  have ids: "map kd_id (kb_docs s') = map kd_id (kb_docs s)" using e by (auto simp: comp_def)
  have keys: "origin_keys (kb_docs s') = origin_keys (kb_docs s)"
  proof -
    have "kd_org (if kd_id y = kd_id d then e else y) = kd_org y \<and> kd_origin (if kd_id y = kd_id d then e else y) = kd_origin y
        \<and> kd_live (if kd_id y = kd_id d then e else y) = kd_live y" if "y \<in> set (kb_docs s)" for y
    proof (cases "kd_id y = kd_id d")
      case True
      then have "y = x" by (rule same [OF that])
      then show ?thesis using e x by simp
    qed simp
    then show ?thesis using origin_keys_map e(8) by simp
  qed
  have old: "chunk_texts i s' = chunk_texts i s" for i using e(8) by (simp add: chunk_texts_def)
  have "rows_sound E s'"
    using ok e x(1,3) unfolding kb_ok_def rows_sound_def ids keys by auto
  moreover have "index_sound {kd_id d'} s'"
    unfolding index_sound_def
  proof (intro conjI ballI impI)
    fix c assume "c \<in> set (kb_chunks s')" "kc_doc c \<notin> {kd_id d'}"
    moreover then obtain y where "y \<in> set (kb_docs s)" "kd_live y" "carries y c"
      using ok e(8) by (auto simp: kb_ok_def index_sound_def)
    ultimately show "\<exists>y \<in> set (kb_docs s'). kd_live y \<and> carries y c"
      using e by (intro bexI [of _ y]) (auto simp: carries_def)
  next
    fix y assume "y \<in> set (kb_docs s')" "kd_live y \<and> kd_id y \<notin> {kd_id d'}"
    then show "chunk_texts (kd_id y) s' = doc_texts y"
      using ok e old by (auto simp: kb_ok_def index_sound_def)
  qed
  ultimately show ?thesis using e x by force
qed


text \<open>Rebuilding the chunks of a stored document, and giving them its scope.\<close>

lemma enumerate_ids: "map fst (enumerate n xs) = [n..<n + length xs]"
  by (simp add: map_fst_enumerate)

lemma rebuild_sound:
  assumes rows: "rows_sound E s" and idx: "index_sound {kd_id d} s" and d: "d \<in> set (kb_docs s)" "kd_live d"
    and secs: "chunk secs = chunk (sections_for (kd_src d) (kd_title d) (kd_body d))"
  shows "kb_ok E (rebuild_chunks E d secs s)"
proof -
  define new where "new = map (\<lambda>(i, p). new_chunk E d i p) (enumerate (kb_fresh s) (chunk secs))"
  let ?s = "rebuild_chunks E d secs s"
  have s: "kb_docs ?s = kb_docs s" "kb_fresh ?s = kb_fresh s + length (chunk secs)"
    "kb_chunks ?s = filter (\<lambda>c. kc_doc c \<noteq> kd_id d) (kb_chunks s) @ new"
    by (simp_all add: rebuild_chunks_def Let_def new_def)
  have ids: "map kc_id new = [kb_fresh s..<kb_fresh s + length (chunk secs)]"
    by (simp add: new_def comp_def case_prod_beta new_chunk_def enumerate_ids)
  have new: "carries d c" if "c \<in> set new" for c
    using that by (auto simp: new_def carries_def new_chunk_def)
  have "map (\<lambda>c. (kc_index c, kc_heading c, kc_content c)) new
      = map (\<lambda>p. (pc_index p, pc_heading p, pc_content p)) (map snd (enumerate (kb_fresh s) (chunk secs)))"
    by (simp add: new_def new_chunk_def case_prod_beta comp_def del: map_snd_enumerate)
  then have texts: "map (\<lambda>c. (kc_index c, kc_heading c, kc_content c)) new = doc_texts d"
    unfolding map_snd_enumerate doc_texts_def secs .
  have all: "filter (\<lambda>c. kc_doc c = kd_id d) new = new"
    using new by (simp add: filter_id_conv carries_def)
  have none: "filter (\<lambda>c. kc_doc c = i) new = []" if "i \<noteq> kd_id d" for i
    using new that by (auto simp: filter_empty_conv carries_def)
  have "rows_sound E ?s"
  proof -
    have lt: "kc_id c < kb_fresh s + length (chunk secs)" if "c \<in> set (kb_chunks ?s)" for c
    proof (cases "c \<in> set new")
      case True
      then have "kc_id c \<in> set (map kc_id new)" by simp
      then show ?thesis unfolding ids by simp
    next
      case False
      then show ?thesis using that rows s(3) by (fastforce simp: rows_sound_def)
    qed
    have "distinct (map kc_id (filter (\<lambda>c. kc_doc c \<noteq> kd_id d) (kb_chunks s)))"
      using rows by (simp add: rows_sound_def distinct_map_filter)
    moreover have "set (map kc_id (filter (\<lambda>c. kc_doc c \<noteq> kd_id d) (kb_chunks s))) \<inter> set (map kc_id new) = {}"
      using rows unfolding ids by (fastforce simp: rows_sound_def)
    ultimately have "distinct (map kc_id (kb_chunks ?s))"
      using s(3) ids by (simp del: set_map)
    then show ?thesis using rows lt unfolding rows_sound_def s(1,2) by auto
  qed
  moreover have "index_sound {} ?s"
    unfolding index_sound_def s(1)
  proof (intro conjI ballI impI)
    fix c assume "c \<in> set (kb_chunks ?s)"
    then show "\<exists>x \<in> set (kb_docs s). kd_live x \<and> carries x c"
      using idx new d by (auto simp: s(3) index_sound_def)
  next
    fix x assume x: "x \<in> set (kb_docs s)" "kd_live x \<and> kd_id x \<notin> {}"
    show "chunk_texts (kd_id x) ?s = doc_texts x"
    proof (cases "kd_id x = kd_id d")
      case True
      then have "x = d" by (rule unique_doc [OF rows x(1) d(1)])
      then show ?thesis using all texts by (simp add: chunk_texts_def s(3))
    next
      case False
      then have "filter (\<lambda>c. kc_doc c = kd_id x) (kb_chunks ?s) = filter (\<lambda>c. kc_doc c = kd_id x) (kb_chunks s)"
        using none by (auto simp: s(3) intro: filter_cong)
      then show ?thesis using idx x False by (simp add: chunk_texts_def index_sound_def)
    qed
  qed
  ultimately show ?thesis by (simp add: kb_ok_def)
qed

lemma rescope_sound:
  assumes rows: "rows_sound E s" and idx: "index_sound {kd_id d} s" and d: "d \<in> set (kb_docs s)" "kd_live d"
    and own: "\<forall>c \<in> set (kb_chunks s). kc_doc c = kd_id d \<longrightarrow> kc_org c = kd_org d"
    and texts: "chunk_texts (kd_id d) s = doc_texts d"
  shows "kb_ok E (s\<lparr>kb_chunks := map (rescope_chunk d) (kb_chunks s)\<rparr>)"
proof -
  let ?s = "s\<lparr>kb_chunks := map (rescope_chunk d) (kb_chunks s)\<rparr>"
  have sel: "kc_id (rescope_chunk d c) = kc_id c" "kc_doc (rescope_chunk d c) = kc_doc c"
    "kc_index (rescope_chunk d c) = kc_index c" "kc_heading (rescope_chunk d c) = kc_heading c"
    "kc_content (rescope_chunk d c) = kc_content c" for c
    by (simp_all add: rescope_chunk_def)
  have same: "chunk_texts i ?s = chunk_texts i s" for i
    by (simp add: chunk_texts_def filter_map comp_def sel)
  have "rows_sound E ?s" using rows by (simp add: rows_sound_def comp_def sel)
  moreover have "\<exists>x \<in> set (kb_docs s). kd_live x \<and> carries x c" if c: "c \<in> set (kb_chunks ?s)" for c
  proof -
    obtain b where b: "b \<in> set (kb_chunks s)" "c = rescope_chunk d b" using c by auto
    show ?thesis
    proof (cases "kc_doc b = kd_id d")
      case True
      then have "carries d c" using b own by (auto simp: carries_def rescope_chunk_def)
      then show ?thesis using d by blast
    next
      case False
      then show ?thesis using b idx by (auto simp: index_sound_def rescope_chunk_def)
    qed
  qed
  moreover have "chunk_texts (kd_id x) ?s = doc_texts x" if x: "x \<in> set (kb_docs s)" "kd_live x" for x
  proof (cases "kd_id x = kd_id d")
    case True
    then have "x = d" by (rule unique_doc [OF rows x(1) d(1)])
    then show ?thesis using texts same by simp
  next
    case False
    then show ?thesis using idx x same by (simp add: index_sound_def)
  qed
  ultimately show ?thesis by (simp add: kb_ok_def index_sound_def)
qed


text \<open>The operations keep the invariant.\<close>

lemma chunk_normal_text: "chunk_contents [\<lparr>sec_heading = h, sec_text = normalize_text t\<rparr>] = chunk_contents [\<lparr>sec_heading = h, sec_text = t\<rparr>]"
  using normalize_fixed [OF normalize_normal [of t]] by (simp add: chunk_contents_def Let_def)

lemma sections_normal: "chunk (sections_for src title (normalize_text b)) = chunk (sections_for src title b)"
  using normalize_fixed [OF normalize_normal [of b]] chunk_normal_text [of title b]
  by (simp add: sections_for_def parse_markdown_def chunk_def)

lemma save_doc_keeps:
  assumes ok: "kb_ok E s" and d: "may_store d s" "good_status d" "kd_origin d \<noteq> [] \<longrightarrow> kd_src d = manual_html" and sv: "save_doc E d secs s = Inr (d', s')"
    and secs: "chunk secs = chunk (sections_for (kd_src d) (kd_title d) (kd_body d))"
  shows "kb_ok E s'"
proof -
  define e where "e = d\<lparr>kd_body := normalize_text (kd_body d), kd_vis := visibility_for (kd_unit d) (kd_dept d),
    kd_hash := content_hash E (kd_title d) (normalize_text (kd_body d)),
    kd_status := (if kd_status d = [] then active else kd_status d)\<rparr>"
  obtain s1 where s1: "store_doc e s = Inr (d', s1)" "s' = rebuild_chunks E d' secs s1"
    using sv by (auto simp: save_doc_def Let_def e_def split: sum.splits)
  have e: "doc_ok E e" "may_store e s" "chunk secs = chunk (sections_for (kd_src e) (kd_title e) (kd_body e))"
    using d secs sections_normal normalize_normal
    by (auto simp: doc_ok_def good_status_def may_store_def kd_live_def e_def)
  have st: "rows_sound E s1" "index_sound {kd_id d'} s1" "d' \<in> set (kb_docs s1)" "kd_live d'"
    using store_doc_sound [OF ok e(1,2) s1(1)] by auto
  have "kd_src d' = kd_src e \<and> kd_title d' = kd_title e \<and> kd_body d' = kd_body e"
    using s1(1) by (auto simp: store_doc_def Let_def split: if_splits)
  then show ?thesis using rebuild_sound [OF st] e(3) s1(2) by simp
qed

lemma apply_scope_keeps:
  assumes ok: "kb_ok E s" and x: "x \<in> set (kb_docs s)" "kd_live x" "kd_id d = kd_id x" "kd_org d = kd_org x"
    "kd_origin d = kd_origin x" "kd_src d = kd_src x" "kd_title d = kd_title x" "kd_body d = kd_body x"
    "kd_hash d = kd_hash x" "kd_live d"
    and d: "good_status d" "kd_status d \<noteq> []" and ap: "apply_scope d s = Inr (d', s')"
  shows "kb_ok E s'"
proof -
  define e where "e = d\<lparr>kd_vis := visibility_for (kd_unit d) (kd_dept d)\<rparr>"
  obtain s1 where s1: "store_doc e s = Inr (d', s1)" "s' = s1\<lparr>kb_chunks := map (rescope_chunk d') (kb_chunks s1)\<rparr>"
    using ap by (auto simp: apply_scope_def e_def split: sum.splits)
  have "doc_ok E x" using ok x(1) by (auto simp: kb_ok_def rows_sound_def)
  then have e: "doc_ok E e" "may_store e s"
    using d x by (auto simp: doc_ok_def good_status_def may_store_def kd_live_def e_def)
  have nz: "kd_id e \<noteq> 0" using ok x(1,3) by (auto simp: kb_ok_def rows_sound_def e_def)
  have st: "rows_sound E s1" "index_sound {kd_id d'} s1" "d' \<in> set (kb_docs s1)" "kd_live d'"
    "kb_chunks s1 = kb_chunks s" "doc_texts d' = doc_texts e"
    using store_doc_sound [OF ok e s1(1)] by auto
  have d': "kd_id d' = kd_id x" "kd_org d' = kd_org x" using s1(1) nz x by (auto simp: store_doc_def e_def Let_def split: if_splits)
  have "doc_texts d' = doc_texts x" using st(6) x by (simp add: doc_texts_def e_def)
  moreover have "chunk_texts (kd_id x) s = doc_texts x" using ok x by (simp add: kb_ok_def index_sound_def)
  ultimately have "chunk_texts (kd_id d') s1 = doc_texts d'" using st(5) d' by (simp add: chunk_texts_def)
  moreover have "kc_org c = kd_org d'" if c: "c \<in> set (kb_chunks s1)" "kc_doc c = kd_id d'" for c
  proof -
    obtain y where y: "y \<in> set (kb_docs s)" "carries y c" using ok c st(5) by (auto simp: kb_ok_def index_sound_def)
    then have "kd_id y = kd_id x" using c(2) d'(1) unfolding carries_def by metis
    then have "y = x" by (rule unique_doc [OF kb_ok_rowsD [OF ok] y(1) x(1)])
    then show ?thesis using y d' by (simp add: carries_def)
  qed
  ultimately show ?thesis using rescope_sound [OF st(1-4)] s1(2) by simp
qed

lemma origin_keys_deleted:
  "origin_keys (map (\<lambda>x. if P x then x\<lparr>kd_deleted := True\<rparr> else x) xs) =
   map (\<lambda>d. (kd_org d, kd_origin d)) (filter (\<lambda>x. \<not> P x) (filter (\<lambda>d. kd_live d \<and> kd_origin d \<noteq> []) xs))"
proof (induction xs)
  case (Cons x xs)
  then show ?case by (cases "P x") (simp_all add: origin_keys_def kd_live_def)
qed (simp add: origin_keys_def)

lemma remove_doc_keeps:
  assumes ok: "kb_ok E s" and d: "d \<in> set (kb_docs s)" shows "kb_ok E (remove_doc d s)"
proof -
  let ?f = "\<lambda>x. if kd_id x = kd_id d then x\<lparr>kd_deleted := True\<rparr> else x"
  have docs: "kb_docs (remove_doc d s) = map ?f (kb_docs s)"
    and chunks: "kb_chunks (remove_doc d s) = filter (\<lambda>c. kc_doc c \<noteq> kd_id d) (kb_chunks s)"
    and fresh: "kb_fresh (remove_doc d s) = kb_fresh s"
    by (simp_all add: remove_doc_def)
  have ids: "map kd_id (map ?f (kb_docs s)) = map kd_id (kb_docs s)" by simp
  have keys: "distinct (origin_keys xs) \<Longrightarrow> distinct (origin_keys (map ?f xs))" for xs
    unfolding origin_keys_deleted by (rule distinct_map_filter) (simp add: origin_keys_def)
  have "rows_sound E (remove_doc d s)"
    using ok keys unfolding kb_ok_def rows_sound_def docs chunks fresh ids
    by (auto simp: distinct_map_filter doc_ok_def good_status_def)
  moreover have "index_sound {} (remove_doc d s)"
  proof -
    have "\<exists>x \<in> set (map ?f (kb_docs s)). kd_live x \<and> carries x c" if c: "c \<in> set (kb_chunks s)" "kc_doc c \<noteq> kd_id d" for c
    proof -
      obtain y where y: "y \<in> set (kb_docs s)" "kd_live y" "carries y c" using ok c by (auto simp: kb_ok_def index_sound_def)
      then have "kd_id y \<noteq> kd_id d" using c by (auto simp: carries_def)
      then show ?thesis using y by (intro bexI [of _ y]) (auto intro!: image_eqI [of _ _ y])
    qed
    moreover have "chunk_texts (kd_id x) (remove_doc d s) = doc_texts x" if x: "x \<in> set (map ?f (kb_docs s))" "kd_live x" for x
    proof -
      have "kd_id x \<noteq> kd_id d" "x \<in> set (kb_docs s)" using x by (auto simp: kd_live_def split: if_splits)
      then have "filter (\<lambda>c. kc_doc c = kd_id x) (kb_chunks (remove_doc d s)) = filter (\<lambda>c. kc_doc c = kd_id x) (kb_chunks s)"
        unfolding chunks by (auto simp: intro: filter_cong)
      then show ?thesis using ok x(2) \<open>x \<in> set (kb_docs s)\<close> by (simp add: chunk_texts_def kb_ok_def index_sound_def)
    qed
    ultimately show ?thesis unfolding index_sound_def docs chunks by auto
  qed
  ultimately show ?thesis by (simp add: kb_ok_def)
qed

lemma reindex_doc_keeps:
  assumes "kb_ok E s" "d \<in> set (kb_docs s)" "kd_live d" shows "kb_ok E (snd (reindex_doc E d s))"
  using rebuild_sound [of E s d] assms by (auto simp: reindex_doc_def Let_def kb_ok_def index_sound_def)

text \<open>A transaction keeps what its body keeps.\<close>

lemma transaction_keeps:
  assumes "\<And>s x s'. P s \<Longrightarrow> body s = Inr (x, s') \<Longrightarrow> P s'" "\<And>s fs. P s \<Longrightarrow> P (s\<lparr>kb_faults := fs\<rparr>)" "P s"
  shows "P (snd (transaction body s))"
proof -
  define s0 where "s0 = s\<lparr>kb_faults := tl (kb_faults s)\<rparr>"
  have "P s0" unfolding s0_def by (rule assms(2) [OF assms(3)])
  then show ?thesis
    using assms(1) [OF \<open>P s0\<close>] unfolding transaction_def Let_def s0_def [symmetric]
    by (cases "body s0") auto
qed


lemma reindex_one_keeps: "kb_ok E s \<Longrightarrow> kb_ok E (snd (reindex_one E org stale i s))"
  unfolding reindex_one_def
  by (rule transaction_keeps)
    (auto split: option.splits if_splits prod.splits dest!: lock_doc_SomeD dest: reindex_doc_keeps simp: prod_eq_iff)

lemma reindex_loop_keeps: "kb_ok E s \<Longrightarrow> kb_ok E (snd (reindex_loop E org stale is res s))"
proof (induction "is" arbitrary: res s)
  case (Cons i "is")
  then show ?case using reindex_one_keeps [of E s org stale i]
    by (auto split: prod.split sum.split option.split)
qed simp

lemma reindex_org_keeps: "kb_ok E s \<Longrightarrow> kb_ok E (snd (reindex_org E org stale s))"
proof -
  assume "kb_ok E s"
  then have "kb_ok E (snd (reindex_loop E org stale (reindex_targets org stale s)
      \<lparr>rr_documents = 0, rr_chunks = 0, rr_skipped = 0\<rparr> s))" by (rule reindex_loop_keeps)
  then show ?thesis by (auto simp: reindex_org_def split: prod.split option.split)
qed

lemma upsert_body_keeps:
  assumes ok: "kb_ok E s" and new: "origin \<noteq> []" and up: "upsert_body E org unit dept origin m dry s = Inr (act, s')"
  shows "kb_ok E s'"
proof (cases "find_origin org origin s")
  case None
  let ?row = "manual_row org unit dept origin (m_title m) (normalize_text (m_text m))"
  show ?thesis
  proof (cases dry)
    case False
    then obtain d where "save_doc E ?row (sections_for manual_html (m_title m) (normalize_text (m_text m))) s = Inr (d, s')"
      using up None by (auto simp: upsert_body_def Let_def with_act_Inr)
    moreover have "may_store ?row s" "good_status ?row"
      by (simp_all add: manual_row_def may_store_def kd_live_def good_status_def)
    moreover have "kd_origin ?row \<noteq> [] \<longrightarrow> kd_src ?row = manual_html" by (simp add: manual_row_def)
    ultimately show ?thesis using save_doc_keeps [OF ok] by (fastforce simp: manual_row_def)
  qed (use up None ok in \<open>simp add: upsert_body_def Let_def\<close>)
next
  case (Some x)
  note x = find_origin_SomeD [OF Some]
  define y where "y = (if kd_status x = archived \<and> kd_archived_by x = by_import then set_archived_state x active by_import else x)"
  have "doc_ok E x" using ok x by (auto simp: kb_ok_def rows_sound_def)
  then have y: "good_status y" "kd_status y \<noteq> []"
    unfolding y_def using good_status_set_archived [of x active by_import] by (auto simp: doc_ok_def)
  have sel: "kd_id y = kd_id x" "kd_org y = kd_org x" "kd_origin y = kd_origin x" "kd_src y = kd_src x"
    "kd_title y = kd_title x" "kd_body y = kd_body x" "kd_hash y = kd_hash x" "kd_live y = kd_live x"
    by (auto simp: y_def)
  let ?z = "y\<lparr>kd_title := m_title m, kd_body := normalize_text (m_text m)\<rparr>"
  consider "s' = s"
    | d where "save_doc E ?z (sections_for manual_html (m_title m) (normalize_text (m_text m))) s = Inr (d, s')"
    | d where "apply_scope y s = Inr (d, s')"
    using up Some unfolding upsert_body_def Let_def y_def by (auto simp: with_act_Inr split: if_splits)
  then show ?thesis
  proof cases
    case 2
    have "may_store ?z s" "good_status ?z" using x sel y by (auto simp: may_store_def good_status_def kd_live_def)
    moreover have "kd_src ?z = manual_html" using \<open>doc_ok E x\<close> x sel new by (simp add: doc_ok_def)
    ultimately show ?thesis using save_doc_keeps [OF ok _ _ _ 2] by simp
  next
    case 3
    then show ?thesis using apply_scope_keeps [OF ok, of x y d s'] x sel y by simp
  qed (use ok in simp)
qed

lemma archive_body_keeps:
  assumes ok: "kb_ok E s" and b: "archive_body org i s = Inr (x, s')" shows "kb_ok E s'"
proof -
  obtain d where d: "lock_doc org i s = Some d" using b by (auto simp: archive_body_def split: option.splits)
  note row = lock_doc_SomeD [OF d]
  have "doc_ok E d" using ok row by (auto simp: kb_ok_def rows_sound_def)
  show ?thesis
  proof (cases "kd_status d = active")
    case True
    then obtain e where "apply_scope (set_archived_state d archived by_import) s = Inr (e, s')"
      using b d by (auto simp: archive_body_def with_act_Inr)
    then show ?thesis
      using apply_scope_keeps [OF ok, of d "set_archived_state d archived by_import" e s'] row
        good_status_set_archived [of d archived by_import] \<open>doc_ok E d\<close>
      by (simp add: doc_ok_def)
  qed (use b d ok in \<open>auto simp: archive_body_def\<close>)
qed

section \<open>What an import may do\<close>

text \<open>
  An import is a sequence of transactions of two kinds. A relation between states that both kinds,
  and the bookkeeping of faults, satisfy holds between the states before and after the whole run,
  whether it ends well or stops at an error.
\<close>

lemma manual_prefix_ne [simp]: "manual_prefix name \<noteq> []"
  by (simp add: manual_prefix_def)

locale import_run =
  fixes E :: kenv and org :: uuid and dry :: bool and R :: "kb \<Rightarrow> kb \<Rightarrow> bool"
  assumes R_refl: "R s s"
    and R_trans: "R s t \<Longrightarrow> R t u \<Longrightarrow> R s u"
    and R_faults: "R s (s\<lparr>kb_faults := fs\<rparr>)"
    and R_upsert: "origin \<noteq> [] \<Longrightarrow> upsert_body E org unit dept origin m dry s = Inr (act, s') \<Longrightarrow> R s s'"
    and R_archive: "\<not> dry \<Longrightarrow> archive_body org i s = Inr (x, s') \<Longrightarrow> R s s'"
begin

lemma transaction_rel:
  assumes "\<And>s x s'. body s = Inr (x, s') \<Longrightarrow> R s s'" shows "R s (snd (transaction body s))"
proof -
  define s0 where "s0 = s\<lparr>kb_faults := tl (kb_faults s)\<rparr>"
  have "R s s0" unfolding s0_def by (rule R_faults)
  then show ?thesis
    using assms [of s0] R_trans unfolding transaction_def Let_def s0_def [symmetric]
    by (cases "body s0") auto
qed

lemma upsert_once_rel: "origin \<noteq> [] \<Longrightarrow> R s (snd (upsert_once E org unit dept origin m dry s))"
proof -
  assume new: "origin \<noteq> []"
  have tx: "R s (snd (transaction (upsert_body E org unit dept origin m dry) s))"
    by (rule transaction_rel) (rule R_upsert [OF new])
  show ?thesis
  proof (cases "\<exists>u d m' fs. kb_faults s = Raced u d m' # fs \<and> find_origin org origin s = None \<and> \<not> dry")
    case True
    then obtain u d m' fs where r: "kb_faults s = Raced u d m' # fs" "find_origin org origin s = None" "\<not> dry" by blast
    then have "R (s\<lparr>kb_faults := fs\<rparr>) s'" if "upsert_body E org u d origin m' False (s\<lparr>kb_faults := fs\<rparr>) = Inr (act, s')" for act s'
      using R_upsert [OF new] that by simp
    then show ?thesis
      using R_faults R_trans [OF R_faults] r by (auto simp: upsert_once_def split: sum.split)
  next
    case False
    then have "upsert_once E org unit dept origin m dry s = transaction (upsert_body E org unit dept origin m dry) s"
      by (auto simp: upsert_once_def split: list.splits fault.splits option.splits bool.splits)
    then show ?thesis using tx by simp
  qed
qed

lemma upsert_by_origin_rel: "origin \<noteq> [] \<Longrightarrow> R s (snd (upsert_by_origin E org unit dept origin m dry s))"
proof -
  assume new: "origin \<noteq> []"
  obtain r s1 where u: "upsert_once E org unit dept origin m dry s = (r, s1)" by (metis prod.exhaust)
  have "R s s1" using upsert_once_rel [OF new, of s unit dept m] u by simp
  then show ?thesis using R_trans [OF _ upsert_once_rel [OF new]] u
    by (auto simp: upsert_by_origin_def split: sum.split kb_error.split)
qed

lemma import_docs_rel: "R s (snd (import_docs E org unit dept name dry ms res s))"
proof (induction ms arbitrary: res s)
  case (Cons m ms)
  obtain r s1 where u: "upsert_by_origin E org unit dept (manual_prefix name @ m_anchor m) m dry s = (r, s1)"
    by (metis prod.exhaust)
  then have "R s s1"
    using upsert_by_origin_rel [of "manual_prefix name @ m_anchor m" s unit dept m] by simp
  then show ?case using R_trans [OF _ Cons.IH] u by (auto simp: Let_def split: sum.split)
qed (simp add: R_refl)

lemma archive_loop_rel: "R s (snd (archive_loop org seen dry ds gone s))"
proof (induction ds arbitrary: gone s)
  case (Cons d ds)
  show ?case
  proof (cases "kd_origin d \<in> set seen \<or> dry")
    case False
    obtain r s1 where a: "archive_one org (kd_id d) s = (r, s1)" by (metis prod.exhaust)
    have "R s (snd (archive_one org (kd_id d) s))"
      unfolding archive_one_def by (rule transaction_rel) (use R_archive False in blast)
    then have "R s s1" using a by simp
    then show ?thesis using R_trans [OF _ Cons.IH] False a by (auto split: sum.split)
  qed (use Cons.IH in auto)
qed (simp add: R_refl)

lemma import_files_rel: "R s (snd (import_files E org unit dept dry fs res s))"
proof (induction fs arbitrary: res s)
  case (Cons f fs)
  obtain name docs where f: "f = (name, docs)" by (cases f)
  show ?case
  proof (cases "docs = None \<or> docs = Some []")
    case False
    then obtain ms where ms: "docs = Some ms" "ms \<noteq> []" by auto
    obtain res1 e s1 where i: "import_docs E org unit dept name dry ms res s = ((res1, e), s1)" by (metis prod.exhaust)
    obtain gone e2 s2 where a: "archive_orphans org name (map (\<lambda>m. manual_prefix name @ m_anchor m) ms) dry s1 = ((gone, e2), s2)"
      by (metis prod.exhaust)
    have "R s s1" using import_docs_rel [of s unit dept name ms res] i by simp
    moreover have "R s1 s2" using archive_loop_rel a unfolding archive_orphans_def by (metis snd_conv)
    ultimately show ?thesis using R_trans Cons.IH ms f i a by (simp split: option.split)
  qed (use Cons f in auto)
qed (simp add: R_refl)

lemma import_rel_run: "R s (snd (import_manuals E org unit dept files dry s))"
  by (simp add: import_manuals_def Let_def import_files_rel R_refl)

end

interpretation import_keeps: import_run E org dry "\<lambda>s s'. kb_ok E s \<longrightarrow> kb_ok E s'" for E org dry
  by unfold_locales (auto intro: upsert_body_keeps archive_body_keeps)

text \<open>
  What an import may change of a row: never its scope, source or origin; a decision to archive
  it that a person took stays, and none is made in a person's name.
\<close>

definition import_change :: "kdoc \<Rightarrow> kdoc \<Rightarrow> bool" where
  "import_change d d' \<longleftrightarrow>
     kd_id d' = kd_id d \<and> kd_org d' = kd_org d \<and> kd_unit d' = kd_unit d \<and> kd_dept d' = kd_dept d
     \<and> kd_src d' = kd_src d \<and> kd_origin d' = kd_origin d \<and> kd_deleted d' = kd_deleted d
     \<and> (kd_archived_by d' = kd_archived_by d \<and> kd_status d' = kd_status d
         \<or> kd_archived_by d \<noteq> by_user \<and> kd_archived_by d' \<noteq> by_user)"

definition docs_follow :: "kb \<Rightarrow> kb \<Rightarrow> bool" where
  "docs_follow s s' \<longleftrightarrow> (\<forall>d \<in> set (kb_docs s). \<exists>d' \<in> set (kb_docs s'). import_change d d')"

lemma import_change_refl [simp]: "import_change d d"
  by (simp add: import_change_def)

lemma import_change_trans: "import_change a b \<Longrightarrow> import_change b c \<Longrightarrow> import_change a c"
  by (auto simp: import_change_def)

lemma docs_follow_mono: "set (kb_docs s) \<subseteq> set (kb_docs s') \<Longrightarrow> docs_follow s s'"
  unfolding docs_follow_def using import_change_refl by blast

lemma docs_follow_trans: "docs_follow s t \<Longrightarrow> docs_follow t u \<Longrightarrow> docs_follow s u"
  unfolding docs_follow_def by (meson import_change_trans)

lemma store_doc_follow:
  assumes "kb_ok E s" "store_doc d s = Inr (d', s')" "kd_id d = 0 \<or> (\<exists>x \<in> set (kb_docs s). kd_id x = kd_id d \<and> import_change x d)"
  shows "docs_follow s s'"
proof (cases "kd_id d = 0")
  case True
  then show ?thesis using assms(2) by (intro docs_follow_mono) (auto simp: store_doc_def Let_def split: if_splits)
next
  case False
  then obtain x where x: "x \<in> set (kb_docs s)" "kd_id x = kd_id d" "import_change x d" using assms(3) by auto
  have s': "kb_docs s' = map (\<lambda>y. if kd_id y = kd_id d then d\<lparr>kd_updated := kb_now s\<rparr> else y) (kb_docs s)"
    using assms(2) False by (auto simp: store_doc_def Let_def split: if_splits)
  have "import_change y (d\<lparr>kd_updated := kb_now s\<rparr>)" if "y \<in> set (kb_docs s)" "kd_id y = kd_id d" for y
  proof -
    have "y = x" by (rule unique_doc [OF kb_ok_rowsD [OF assms(1)] that(1) x(1)]) (simp add: x that)
    then show ?thesis using x(3) by (simp add: import_change_def)
  qed
  then have "import_change y (if kd_id y = kd_id d then d\<lparr>kd_updated := kb_now s\<rparr> else y)" if "y \<in> set (kb_docs s)" for y
    using that by simp
  then show ?thesis unfolding docs_follow_def s' by (metis (no_types, lifting) imageI list.set_map)
qed

lemma save_doc_follow:
  assumes "kb_ok E s" "save_doc E d secs s = Inr (d', s')" "kd_status d \<noteq> [] \<or> kd_id d = 0"
    "kd_id d = 0 \<or> (\<exists>x \<in> set (kb_docs s). kd_id x = kd_id d \<and> import_change x d)"
  shows "docs_follow s s'"
proof -
  define e where "e = d\<lparr>kd_body := normalize_text (kd_body d), kd_vis := visibility_for (kd_unit d) (kd_dept d),
    kd_hash := content_hash E (kd_title d) (normalize_text (kd_body d)),
    kd_status := (if kd_status d = [] then active else kd_status d)\<rparr>"
  obtain s1 where s1: "store_doc e s = Inr (d', s1)" "s' = rebuild_chunks E d' secs s1"
    using assms(2) by (auto simp: save_doc_def Let_def e_def split: sum.splits)
  have "kd_id e = 0 \<or> (\<exists>x \<in> set (kb_docs s). kd_id x = kd_id e \<and> import_change x e)"
    using assms(3,4) by (auto simp: e_def import_change_def)
  then have "docs_follow s s1" using store_doc_follow [OF assms(1) s1(1)] by blast
  then show ?thesis using s1(2) by (simp add: docs_follow_def rebuild_chunks_def Let_def)
qed

lemma apply_scope_follow:
  assumes "kb_ok E s" "apply_scope d s = Inr (d', s')" "x \<in> set (kb_docs s)" "kd_id x = kd_id d" "import_change x d"
  shows "docs_follow s s'"
proof -
  obtain s1 where s1: "store_doc (d\<lparr>kd_vis := visibility_for (kd_unit d) (kd_dept d)\<rparr>) s = Inr (d', s1)"
      "s' = s1\<lparr>kb_chunks := map (rescope_chunk d') (kb_chunks s1)\<rparr>"
    using assms(2) by (auto simp: apply_scope_def split: sum.splits)
  then show ?thesis
    using store_doc_follow [OF assms(1) s1(1)] assms(3-5) by (fastforce simp: import_change_def docs_follow_def)
qed

lemma upsert_body_follow:
  assumes ok: "kb_ok E s" and up: "upsert_body E org unit dept origin m dry s = Inr (act, s')"
  shows "docs_follow s s'"
proof (cases "find_origin org origin s")
  case None
  then have "s' = s \<or> (\<exists>d. save_doc E (manual_row org unit dept origin (m_title m) (normalize_text (m_text m)))
      (sections_for manual_html (m_title m) (normalize_text (m_text m))) s = Inr (d, s'))"
    using up by (auto simp: upsert_body_def Let_def with_act_Inr split: if_splits)
  then show ?thesis
  proof
    assume "\<exists>d. save_doc E (manual_row org unit dept origin (m_title m) (normalize_text (m_text m)))
      (sections_for manual_html (m_title m) (normalize_text (m_text m))) s = Inr (d, s')"
    then obtain d where d: "save_doc E (manual_row org unit dept origin (m_title m) (normalize_text (m_text m)))
      (sections_for manual_html (m_title m) (normalize_text (m_text m))) s = Inr (d, s')" by blast
    show ?thesis by (rule save_doc_follow [OF ok d]) (simp_all add: manual_row_def)
  qed (simp add: docs_follow_mono)
next
  case (Some x)
  note x = find_origin_SomeD [OF Some]
  define y where "y = (if kd_status x = archived \<and> kd_archived_by x = by_import then set_archived_state x active by_import else x)"
  have st: "kd_status x \<noteq> []" using ok x by (auto simp: kb_ok_def rows_sound_def doc_ok_def)
  have y: "import_change x y" "kd_id y = kd_id x" "kd_status y \<noteq> []"
    using st x by (auto simp: y_def import_change_def set_archived_state_def)
  let ?z = "y\<lparr>kd_title := m_title m, kd_body := normalize_text (m_text m)\<rparr>"
  have z: "import_change x ?z" using y(1) by (simp add: import_change_def)
  consider "s' = s"
    | d where "save_doc E ?z (sections_for manual_html (m_title m) (normalize_text (m_text m))) s = Inr (d, s')"
    | d where "apply_scope y s = Inr (d, s')"
    using up Some unfolding upsert_body_def Let_def y_def by (auto simp: with_act_Inr split: if_splits)
  then show ?thesis
  proof cases
    case 2
    then show ?thesis using save_doc_follow [OF ok 2] x y z by auto
  next
    case 3
    then show ?thesis using apply_scope_follow [OF ok 3] x y by auto
  qed (simp add: docs_follow_mono)
qed

lemma archive_body_follow:
  assumes ok: "kb_ok E s" and b: "archive_body org i s = Inr (x, s')" shows "docs_follow s s'"
proof -
  obtain d where d: "lock_doc org i s = Some d" using b by (auto simp: archive_body_def split: option.splits)
  note row = lock_doc_SomeD [OF d]
  have ok_d: "good_status d" using ok row by (auto simp: kb_ok_def rows_sound_def doc_ok_def)
  show ?thesis
  proof (cases "kd_status d = active")
    case True
    then obtain e where e: "apply_scope (set_archived_state d archived by_import) s = Inr (e, s')"
      using b d by (auto simp: archive_body_def with_act_Inr)
    have "kd_archived_by d = []" using ok_d True by (simp add: good_status_def)
    then have "import_change d (set_archived_state d archived by_import)"
      using True by (auto simp: import_change_def set_archived_state_def by_user_def by_import_def)
    then show ?thesis using apply_scope_follow [OF ok e] row by auto
  qed (use b d in \<open>auto simp: archive_body_def docs_follow_mono\<close>)
qed

interpretation import_follows: import_run E org dry "\<lambda>s s'. kb_ok E s \<longrightarrow> kb_ok E s' \<and> docs_follow s s'" for E org dry
proof unfold_locales
  show "kb_ok E s \<longrightarrow> kb_ok E s \<and> docs_follow s s" for s by (simp add: docs_follow_mono)
  show "kb_ok E s \<longrightarrow> kb_ok E u \<and> docs_follow s u"
    if "kb_ok E s \<longrightarrow> kb_ok E t \<and> docs_follow s t" "kb_ok E t \<longrightarrow> kb_ok E u \<and> docs_follow t u" for s t u
    using that docs_follow_trans by blast
  show "kb_ok E s \<longrightarrow> kb_ok E (s\<lparr>kb_faults := fs\<rparr>) \<and> docs_follow s (s\<lparr>kb_faults := fs\<rparr>)" for s fs
    by (simp add: docs_follow_mono)
qed (auto intro: upsert_body_keeps archive_body_keeps upsert_body_follow archive_body_follow)

interpretation dry_import: import_run E org True "\<lambda>s s'. kb_docs s' = kb_docs s \<and> kb_chunks s' = kb_chunks s" for E org
  by unfold_locales (auto simp: upsert_body_def Let_def split: option.splits)

text \<open>
  An import, whether it ends well, stops at a database error or races with another
  import, keeps the tables consistent and leaves people's decisions alone: every document is still
  there with its scope, source and origin, and one archived by a person stays archived by that
  person. A dry run writes nothing.
\<close>

theorem import_respects_people:
  assumes "kb_ok E s" "d \<in> set (kb_docs s)"
  shows "kb_ok E (snd (import_manuals E org unit dept files dry s))
    \<and> (\<exists>d' \<in> set (kb_docs (snd (import_manuals E org unit dept files dry s))).
         import_change d d' \<and> (kd_archived_by d = by_user \<longrightarrow> kd_status d' = archived))
    \<and> (dry \<longrightarrow> kb_docs (snd (import_manuals E org unit dept files dry s)) = kb_docs s
           \<and> kb_chunks (snd (import_manuals E org unit dept files dry s)) = kb_chunks s)"
proof -
  let ?s = "snd (import_manuals E org unit dept files dry s)"
  have "kb_ok E ?s \<and> docs_follow s ?s"
    using import_follows.import_rel_run [where s = s and E = E and org = org and unit = unit and dept = dept and files = files and dry = dry] assms(1) by blast
  moreover have "kd_archived_by d = by_user \<Longrightarrow> kd_status d = archived"
    using assms by (auto simp: kb_ok_def rows_sound_def doc_ok_def good_status_def)
  ultimately show ?thesis
    using assms(2) dry_import.import_rel_run [where s = s and E = E and org = org and unit = unit and dept = dept and files = files] by (fastforce simp: docs_follow_def import_change_def)
qed

section \<open>A concrete base\<close>

text \<open>Tables for lower-case ASCII text, and a digest.\<close>

definition ascii_tables :: unicode_tables where
  "ascii_tables = \<lparr>u_nfd = (\<lambda>s. s), u_mark = (\<lambda>r. False), u_lower = (\<lambda>r. if 65 \<le> r \<and> r \<le> 90 then r + 32 else r),
     u_letter = (\<lambda>r. (97 \<le> r \<and> r \<le> 122) \<or> (65 \<le> r \<and> r \<le> 90)), u_digit = (\<lambda>r. 48 \<le> r \<and> r \<le> 57)\<rparr>"

definition sample_env :: kenv where
  "sample_env = \<lparr>ke_unicode = ascii_tables, ke_sha = (\<lambda>s. foldl (\<lambda>h r. h * 131 + r) 7 s)\<rparr>"

text \<open>One manual section, archived by a person.\<close>

definition sample_manual :: kdoc where
  "sample_manual = \<lparr>kd_id = 1, kd_org = 7, kd_unit = Some 3, kd_dept = None, kd_vis = ''unit'',
     kd_src = manual_html, kd_title = [65], kd_origin = manual_prefix [103] @ [97], kd_body = [97, 98],
     kd_hash = content_hash sample_env [65] [97, 98], kd_status = archived, kd_archived_by = by_user,
     kd_created = 0, kd_updated = 0, kd_deleted = False\<rparr>"

definition sample_kb :: kb where
  "sample_kb = \<lparr>kb_docs = [sample_manual],
     kb_chunks = [new_chunk sample_env sample_manual 2 \<lparr>pc_index = 0, pc_heading = [65], pc_content = [97, 98]\<rparr>],
     kb_fresh = 3, kb_now = 100, kb_faults = []\<rparr>"

lemma sample_texts: "is_normal [97, 98]" "chunk [\<lparr>sec_heading = [65], sec_text = [97, 98]\<rparr>] = [\<lparr>pc_index = 0, pc_heading = [65], pc_content = [97, 98]\<rparr>]"
proof -
  show n: "is_normal [97, 98]"
    by (simp add: is_normal_def map_rune_def rune_control_def rune_space_def neat_def)
  show "chunk [\<lparr>sec_heading = [65], sec_text = [97, 98]\<rparr>] = [\<lparr>pc_index = 0, pc_heading = [65], pc_content = [97, 98]\<rparr>]"
    by (simp add: chunk_def chunk_contents_def Let_def normalize_fixed [OF n] split_text_def chunk_max_def)
qed

lemma sample_kb_ok: "kb_ok sample_env sample_kb"
proof -
  have "doc_ok sample_env sample_manual"
    by (simp add: doc_ok_def sample_manual_def sample_texts visibility_for_def good_status_def)
  moreover have "doc_texts sample_manual = [(0, [65], [97, 98])]"
    by (simp add: doc_texts_def sample_manual_def sections_for_def sample_texts)
  ultimately show ?thesis
    by (simp add: kb_ok_def rows_sound_def index_sound_def sample_kb_def chunk_texts_def carries_def new_chunk_def
        sample_manual_def kd_live_def origin_keys_def)
qed

text \<open>The HTML of the section changed; the import brings the new text and leaves it archived.\<close>

lemma import_respects_people_witness:
  "\<exists>d' \<in> set (kb_docs (snd (import_manuals sample_env 7 None None
        [([103], Some [\<lparr>m_title = [66], m_anchor = [97], m_text = [99]\<rparr>])] False sample_kb))).
     import_change sample_manual d' \<and> kd_status d' = archived"
  using import_respects_people [OF sample_kb_ok, of sample_manual 7 None None
      "[([103], Some [\<lparr>m_title = [66], m_anchor = [97], m_text = [99]\<rparr>])]" False]
  by (auto simp: sample_kb_def sample_manual_def)

end
