(* ===== verification/Knowledge_Api.thy ===== *)
theory Knowledge_Api
  imports Knowledge_Search
begin

text \<open>
  The HTTP side of the knowledge base: \<open>internal/handlers/knowledge.go\<close> and
  \<open>knowledge_scopes.go\<close>. Each handler is a function from the request and the tables to the reply and
  the tables; together with the importer and the reindexer they are the steps of the base, and every
  base they reach keeps the invariant of \<open>Knowledge_Store\<close>.

  Who the caller is (the session or API key), the role's permissions and the units and departments of
  the organization are arguments. The audit log the handlers append to is left out.
\<close>

section \<open>The caller\<close>

record kcaller =
  cl_org :: uuid
  cl_user :: uuid
  cl_perms :: "(string \<times> string) list"
  cl_place :: "(uuid option \<times> uuid option) option"

record place =
  pl_id :: uuid
  pl_org :: uuid
  pl_name :: runes
  pl_active :: bool

record directory =
  dr_units :: "place list"
  dr_depts :: "place list"

datatype 'a reply = Refused nat string | Reply 'a

fun on_reply :: "'a reply \<Rightarrow> ('a \<Rightarrow> 'b reply) \<Rightarrow> 'b reply" where
  "on_reply (Refused n m) f = Refused n m"
| "on_reply (Reply x) f = f x"

lemma on_reply_Reply: "on_reply r f = Reply y \<longleftrightarrow> (\<exists>x. r = Reply x \<and> f x = Reply y)"
  by (cases r) auto

definition knowledge :: string where "knowledge = ''knowledge''"

definition has_perm :: "kcaller \<Rightarrow> string \<Rightarrow> string \<Rightarrow> bool" where
  "has_perm c resource action \<longleftrightarrow> (resource, action) \<in> set (cl_perms c)"

definition require_auth :: "kcaller option \<Rightarrow> string \<Rightarrow> string \<Rightarrow> kcaller reply" where
  "require_auth caller resource action =
     (case caller of
        None \<Rightarrow> Refused 401 ''Unauthorized''
      | Some c \<Rightarrow> if has_perm c resource action then Reply c else Refused 403 ''Insufficient permissions'')"

record access =
  ac_unit :: "uuid option"
  ac_dept :: "uuid option"
  ac_admin :: bool
  ac_chooses :: bool

text \<open>\<open>knowledgeCapabilities\<close>: administration, and the right to choose a context.\<close>

definition capabilities :: "kcaller \<Rightarrow> bool \<times> bool" where
  "capabilities c =
     (let admin = has_perm c knowledge ''write'' in
      (admin, admin \<or> has_perm c ''conversations'' ''view_all''))"

definition place_exists :: "place list \<Rightarrow> uuid \<Rightarrow> uuid option \<Rightarrow> bool" where
  "place_exists ps org i = (case i of None \<Rightarrow> True | Some x \<Rightarrow> list_ex (\<lambda>p. pl_id p = x \<and> pl_org p = org) ps)"

definition scope_targets_exist :: "directory \<Rightarrow> uuid \<Rightarrow> uuid option \<Rightarrow> uuid option \<Rightarrow> bool" where
  "scope_targets_exist D org unit dept \<longleftrightarrow> place_exists (dr_units D) org unit \<and> place_exists (dr_depts D) org dept"

text \<open>\<open>ValidateImportTarget\<close>: the import and reindex commands check their arguments first.\<close>

definition import_target_ok :: "uuid list \<Rightarrow> directory \<Rightarrow> uuid \<Rightarrow> uuid option \<Rightarrow> uuid option \<Rightarrow> bool" where
  "import_target_ok orgs D org unit dept \<longleftrightarrow> org \<in> set orgs \<and> scope_targets_exist D org unit dept"

text \<open>An optional id of the query string: absent, malformed, or an id.\<close>

datatype query_id = Absent | Malformed | Given uuid

fun given :: "query_id \<Rightarrow> uuid option" where
  "given (Given i) = Some i"
| "given _ = None"

definition same_uuid :: "uuid option \<Rightarrow> uuid option \<Rightarrow> bool" where
  "same_uuid a b \<longleftrightarrow> a \<noteq> None \<and> b \<noteq> None \<and> a = b"

definition resolve_access :: "directory \<Rightarrow> kcaller \<Rightarrow> query_id \<Rightarrow> query_id \<Rightarrow> access reply" where
  "resolve_access D c unit dept =
     (let (admin, chooses) = capabilities c; u = given unit; d = given dept in
      if unit = Malformed \<or> dept = Malformed then Refused 400 ''Invalid unit_id or department_id''
      else if chooses then
        (if \<not> scope_targets_exist D (cl_org c) u d then Refused 400 ''Unknown unit or department''
         else Reply \<lparr>ac_unit = u, ac_dept = d, ac_admin = admin, ac_chooses = chooses\<rparr>)
      else case cl_place c of
        None \<Rightarrow> Refused 500 ''Failed to load user''
      | Some (own_unit, own_dept) \<Rightarrow>
          if (u \<noteq> None \<and> \<not> same_uuid u own_unit) \<or> (d \<noteq> None \<and> \<not> same_uuid d own_dept)
          then Refused 403 ''Insufficient permissions for this unit or department''
          else Reply \<lparr>ac_unit = own_unit, ac_dept = own_dept, ac_admin = admin, ac_chooses = chooses\<rparr>)"

text \<open>\<open>restrict\<close> and \<open>scopeEligible\<close>, as the condition on a row.\<close>

definition readable :: "access \<Rightarrow> kdoc \<Rightarrow> bool" where
  "readable a d \<longleftrightarrow> ac_admin a \<or>
     (in_scope (kd_unit d) (ac_unit a) \<and> in_scope (kd_dept d) (ac_dept a) \<and> kd_status d = active)"

section \<open>Reading\<close>

definition search_knowledge ::
  "directory \<Rightarrow> retriever \<Rightarrow> kcaller option \<Rightarrow> query_id \<Rightarrow> query_id \<Rightarrow> runes \<Rightarrow> nat \<Rightarrow> hit list reply" where
  "search_knowledge D r caller unit dept q limit =
     on_reply (require_auth caller knowledge ''read'') (\<lambda>c.
     on_reply (resolve_access D c unit dept) (\<lambda>a.
       case service_search r \<lparr>kq_org = cl_org c, kq_text = q, kq_unit = ac_unit a, kq_dept = ac_dept a,
                              kq_limit = int limit, kq_strategy = Strict\<rparr> of
         Inl EmptyQuery \<Rightarrow> Refused 400 ''q is required''
       | Inl SearchFailed \<Rightarrow> Refused 500 ''Search failed''
       | Inr hits \<Rightarrow> Reply hits))"

text \<open>\<open>ILIKE\<close>: \<open>%\<close> is any text, \<open>_\<close> any character, a backslash quotes the next one.\<close>

fun ilike :: "(rune \<Rightarrow> rune) \<Rightarrow> runes \<Rightarrow> runes \<Rightarrow> bool" where
  "ilike low [] s \<longleftrightarrow> s = []"
| "ilike low (p # ps) s \<longleftrightarrow>
     (if p = 37 then list_ex (\<lambda>k. ilike low ps (drop k s)) [0..<Suc (length s)]
      else if p = 95 then s \<noteq> [] \<and> ilike low ps (tl s)
      else if p = 92 \<and> ps \<noteq> [] then s \<noteq> [] \<and> low (hd s) = low (hd ps) \<and> ilike low (tl ps) (tl s)
      else s \<noteq> [] \<and> low (hd s) = low p \<and> ilike low ps (tl s))"

definition page_of :: "int \<Rightarrow> int \<Rightarrow> 'a list \<Rightarrow> 'a list" where
  "page_of page limit xs =
     (let p = (if page < 1 then 1 else page); l = (if limit < 1 \<or> limit > 100 then 50 else limit) in
      take (nat l) (drop (nat ((p - 1) * l)) xs))"

record list_query =
  lq_unit :: query_id
  lq_dept :: query_id
  lq_status :: string
  lq_src :: string
  lq_search :: runes
  lq_updated_first :: bool
  lq_page :: int
  lq_limit :: int

definition listed :: "kenv \<Rightarrow> access \<Rightarrow> list_query \<Rightarrow> kdoc \<Rightarrow> bool" where
  "listed E a q d \<longleftrightarrow>
     (if ac_admin a
      then (ac_unit a \<noteq> None \<longrightarrow> kd_unit d = ac_unit a) \<and> (ac_dept a \<noteq> None \<longrightarrow> kd_dept d = ac_dept a)
           \<and> (lq_status q \<noteq> [] \<longrightarrow> kd_status d = lq_status q)
      else readable a d)
     \<and> (lq_src q \<noteq> [] \<longrightarrow> kd_src d = lq_src q)
     \<and> (trim (lq_search q) \<noteq> [] \<longrightarrow> ilike (u_lower (ke_unicode E)) ([37] @ trim (lq_search q) @ [37]) (kd_title d))"

text \<open>The rows of the page, without their bodies, and the total.\<close>

definition list_documents ::
  "kenv \<Rightarrow> directory \<Rightarrow> kcaller option \<Rightarrow> list_query \<Rightarrow> kb \<Rightarrow> (kdoc list \<times> nat) reply" where
  "list_documents E D caller q s =
     on_reply (require_auth caller knowledge ''read'') (\<lambda>c.
     on_reply (resolve_access D c (lq_unit q) (lq_dept q)) (\<lambda>a.
       let rows = filter (\<lambda>d. kd_org d = cl_org c \<and> kd_live d \<and> listed E a q d) (kb_docs s);
           by_title = sort_key kd_title rows;
           ordered = (if lq_updated_first q then sort_key (\<lambda>d. - kd_updated d) by_title else by_title) in
       Reply (map (\<lambda>d. d\<lparr>kd_body := []\<rparr>) (page_of (lq_page q) (lq_limit q) ordered), length rows)))"

definition find_readable ::
  "directory \<Rightarrow> kcaller option \<Rightarrow> query_id \<Rightarrow> query_id \<Rightarrow> query_id \<Rightarrow> kb \<Rightarrow> (kdoc \<times> access) reply" where
  "find_readable D caller unit dept path s =
     on_reply (require_auth caller knowledge ''read'') (\<lambda>c.
     on_reply (resolve_access D c unit dept) (\<lambda>a.
       case given path of
         None \<Rightarrow> Refused 400 ''Invalid document ID''
       | Some i \<Rightarrow>
           (case find (\<lambda>d. kd_id d = i \<and> kd_org d = cl_org c \<and> kd_live d \<and> readable a d) (kb_docs s) of
              None \<Rightarrow> Refused 404 ''Document not found''
            | Some d \<Rightarrow> Reply (d, a))))"

definition get_document where
  "get_document D caller unit dept path s = on_reply (find_readable D caller unit dept path s) (\<lambda>(d, a). Reply d)"

definition list_chunks where
  "list_chunks D caller unit dept path s =
     on_reply (find_readable D caller unit dept path s) (\<lambda>(d, a).
       Reply (map (\<lambda>c. (kc_id c, kc_index c, kc_heading c, kc_content c, length (kc_content c), kc_version c))
                (sort_key kc_index (filter (\<lambda>c. kc_doc c = kd_id d) (kb_chunks s)))))"

section \<open>Writing\<close>

text \<open>A unit or department id of the body remembers whether its key was there.\<close>

record scope_id =
  sc_set :: bool
  sc_id :: "uuid option"

record doc_request =
  rq_title :: runes
  rq_body :: runes
  rq_src :: string
  rq_unit :: scope_id
  rq_dept :: scope_id
  rq_status :: string
  rq_expected :: "time option"

definition api_sources :: "string list" where
  "api_sources = [''faq'', ''article'', ''process'', ''text'', ''markdown'']"

definition max_body :: nat where "max_body = 200000"

definition needs_scope :: string where
  "needs_scope = ''unit_id and department_id must be present on update (a UUID or null); PUT replaces the whole scope''"

definition bad_status :: "string \<Rightarrow> bool" where
  "bad_status st \<longleftrightarrow> st \<noteq> [] \<and> st \<noteq> active \<and> st \<noteq> archived"

definition validate_request :: "directory \<Rightarrow> uuid \<Rightarrow> doc_request \<Rightarrow> bool \<Rightarrow> string + doc_request" where
  "validate_request D org req0 create =
     (let req = req0\<lparr>rq_title := trim (rq_title req0)\<rparr> in
      if \<not> create \<and> (\<not> sc_set (rq_unit req) \<or> \<not> sc_set (rq_dept req)) then Inl needs_scope
      else if rq_title req = [] then Inl ''title is required''
      else if length (rq_title req) > 500 then Inl ''title is too long''
      else if trim (rq_body req) = [] then Inl ''body is required''
      else if length (rq_body req) > max_body then Inl ''body is too long''
      else if (create \<or> rq_src req \<noteq> []) \<and> rq_src req \<notin> set api_sources then Inl ''invalid source_type''
      else if bad_status (rq_status req) then Inl ''invalid status''
      else if \<not> scope_targets_exist D org (sc_id (rq_unit req)) (sc_id (rq_dept req)) then Inl ''unknown unit or department''
      else Inr req)"

definition validate_manual :: "directory \<Rightarrow> uuid \<Rightarrow> doc_request \<Rightarrow> kdoc \<Rightarrow> kb_error option" where
  "validate_manual D org req d =
     (if \<not> sc_set (rq_unit req) \<or> \<not> sc_set (rq_dept req) then Some (BadRequest needs_scope)
      else if bad_status (rq_status req) then Some (BadRequest ''invalid status'')
      else if \<not> scope_targets_exist D org (sc_id (rq_unit req)) (sc_id (rq_dept req))
        then Some (BadRequest ''unknown unit or department'')
      else if (rq_title req \<noteq> [] \<and> trim (rq_title req) \<noteq> kd_title d)
           \<or> (rq_body req \<noteq> [] \<and> normalize_text (rq_body req) \<noteq> kd_body d)
           \<or> (rq_src req \<noteq> [] \<and> rq_src req \<noteq> kd_src d)
        then Some (Conflict ''manual_html content is managed by the importer: change the HTML and import again; only scope and status can be edited here'')
      else None)"

text \<open>\<open>sendKnowledgeError\<close>.\<close>

definition refuse :: "kb_error \<Rightarrow> string \<Rightarrow> 'a reply" where
  "refuse e what =
     (case e of
        BadRequest m \<Rightarrow> Refused 400 m
      | Conflict m \<Rightarrow> Refused 409 m
      | NotFound \<Rightarrow> Refused 404 ''Document not found''
      | UniqueViolation \<Rightarrow> Refused 409 ''The document was changed concurrently, retry''
      | DbError \<Rightarrow> Refused 500 (''Failed to '' @ what))"

text \<open>A handler that ran its transaction.\<close>

definition answered :: "string \<Rightarrow> (kb_error + 'a) \<times> kb \<Rightarrow> 'a reply \<times> kb" where
  "answered what r = (case fst r of Inl e \<Rightarrow> refuse e what | Inr x \<Rightarrow> Reply x, snd r)"

definition created_row :: "kcaller \<Rightarrow> doc_request \<Rightarrow> kdoc" where
  "created_row c req =
     set_archived_state
       \<lparr>kd_id = 0, kd_org = cl_org c, kd_unit = sc_id (rq_unit req), kd_dept = sc_id (rq_dept req), kd_vis = [],
        kd_src = rq_src req, kd_title = rq_title req, kd_origin = [], kd_body = rq_body req, kd_hash = 0,
        kd_status = [], kd_archived_by = [], kd_created = 0, kd_updated = 0, kd_deleted = False\<rparr>
       (rq_status req) by_user"

definition create_document ::
  "kenv \<Rightarrow> directory \<Rightarrow> kcaller option \<Rightarrow> doc_request option \<Rightarrow> kb \<Rightarrow> kdoc reply \<times> kb" where
  "create_document E D caller body s =
     (case require_auth caller knowledge ''write'' of
        Refused n m \<Rightarrow> (Refused n m, s)
      | Reply c \<Rightarrow>
          (case body of
             None \<Rightarrow> (Refused 400 ''Invalid request body'', s)
           | Some req0 \<Rightarrow>
               (case validate_request D (cl_org c) req0 True of
                  Inl msg \<Rightarrow> (Refused 400 msg, s)
                | Inr req \<Rightarrow>
                    let d = created_row c req in
                    (case transaction (save_doc E d (sections_for (kd_src d) (kd_title d) (rq_body req))) s of
                       (Inl _, s1) \<Rightarrow> (Refused 500 ''Failed to create document'', s1)
                     | (Inr d1, s1) \<Rightarrow> (Reply d1, s1)))))"

text \<open>The optimistic check compares microseconds.\<close>

definition changed_since :: "doc_request \<Rightarrow> kdoc \<Rightarrow> bool" where
  "changed_since req d \<longleftrightarrow> (case rq_expected req of None \<Rightarrow> False | Some t \<Rightarrow> t div 1000 \<noteq> kd_updated d div 1000)"

definition update_body :: "kenv \<Rightarrow> directory \<Rightarrow> kcaller \<Rightarrow> uuid \<Rightarrow> doc_request \<Rightarrow> kb \<Rightarrow> kb_error + (kdoc \<times> kb)" where
  "update_body E D c i req s =
     (case lock_doc (cl_org c) i s of
        None \<Rightarrow> Inl NotFound
      | Some d \<Rightarrow>
          if changed_since req d then Inl (Conflict ''The document was changed by someone else; reload it before saving'')
          else if kd_src d = manual_html then
            (case validate_manual D (cl_org c) req d of
               Some e \<Rightarrow> Inl e
             | None \<Rightarrow>
                 apply_scope (set_archived_state
                   (d\<lparr>kd_unit := sc_id (rq_unit req), kd_dept := sc_id (rq_dept req)\<rparr>) (rq_status req) by_user) s)
          else
            (case validate_request D (cl_org c) req False of
               Inl msg \<Rightarrow> Inl (BadRequest msg)
             | Inr req1 \<Rightarrow>
                 let d1 = (set_archived_state
                       (d\<lparr>kd_unit := sc_id (rq_unit req1), kd_dept := sc_id (rq_dept req1)\<rparr>) (rq_status req1) by_user)
                       \<lparr>kd_title := rq_title req1, kd_body := rq_body req1,
                        kd_src := (if rq_src req1 \<noteq> [] then rq_src req1 else kd_src d)\<rparr> in
                 save_doc E d1 (sections_for (kd_src d1) (kd_title d1) (rq_body req1)) s))"

definition with_id ::
  "kcaller option \<Rightarrow> query_id \<Rightarrow> (kcaller \<Rightarrow> uuid \<Rightarrow> kb \<Rightarrow> 'a reply \<times> kb) \<Rightarrow> kb \<Rightarrow> 'a reply \<times> kb" where
  "with_id caller path f s =
     (case require_auth caller knowledge ''write'' of
        Refused n m \<Rightarrow> (Refused n m, s)
      | Reply c \<Rightarrow> (case given path of None \<Rightarrow> (Refused 400 ''Invalid document ID'', s) | Some i \<Rightarrow> f c i s))"

definition update_document ::
  "kenv \<Rightarrow> directory \<Rightarrow> kcaller option \<Rightarrow> query_id \<Rightarrow> doc_request option \<Rightarrow> kb \<Rightarrow> kdoc reply \<times> kb" where
  "update_document E D caller path body =
     with_id caller path (\<lambda>c i s.
       case body of
         None \<Rightarrow> (Refused 400 ''Invalid request body'', s)
       | Some req \<Rightarrow> answered ''update document'' (transaction (update_body E D c i req) s))"

definition delete_body :: "kcaller \<Rightarrow> uuid \<Rightarrow> kb \<Rightarrow> kb_error + (unit \<times> kb)" where
  "delete_body c i s =
     (case lock_doc (cl_org c) i s of None \<Rightarrow> Inl NotFound | Some d \<Rightarrow> Inr ((), remove_doc d s))"

definition delete_document :: "kcaller option \<Rightarrow> query_id \<Rightarrow> kb \<Rightarrow> unit reply \<times> kb" where
  "delete_document caller path =
     with_id caller path (\<lambda>c i s. answered ''delete document'' (transaction (delete_body c i) s))"

definition reindex_body :: "kenv \<Rightarrow> kcaller \<Rightarrow> uuid \<Rightarrow> kb \<Rightarrow> kb_error + (nat \<times> kb)" where
  "reindex_body E c i s =
     (case lock_doc (cl_org c) i s of None \<Rightarrow> Inl NotFound | Some d \<Rightarrow> Inr (reindex_doc E d s))"

definition reindex_document :: "kenv \<Rightarrow> kcaller option \<Rightarrow> query_id \<Rightarrow> kb \<Rightarrow> nat reply \<times> kb" where
  "reindex_document E caller path =
     with_id caller path (\<lambda>c i s. answered ''reindex document'' (transaction (reindex_body E c i) s))"

text \<open>\<open>only_stale\<close>: absent and \<open>true\<close> mean stale documents only.\<close>

definition reindex_knowledge ::
  "kenv \<Rightarrow> kcaller option \<Rightarrow> string \<Rightarrow> kb \<Rightarrow> (reindex_result \<times> nat) reply \<times> kb" where
  "reindex_knowledge E caller only s =
     (case require_auth caller knowledge ''write'' of
        Refused n m \<Rightarrow> (Refused n m, s)
      | Reply c \<Rightarrow>
          if only \<notin> {[], ''true'', ''false''} then (Refused 400 ''only_stale must be true or false'', s)
          else (case reindex_org E (cl_org c) (only \<noteq> ''false'') s of
                  ((res, Inl _), s1) \<Rightarrow> (Refused 500 ''Failed to reindex'', s1)
                | ((res, Inr left), s1) \<Rightarrow> (Reply (res, left), s1)))"

definition index_status_of :: "kcaller option \<Rightarrow> kb \<Rightarrow> index_status reply" where
  "index_status_of caller s =
     on_reply (require_auth caller knowledge ''write'') (\<lambda>c. Reply (kb_status (cl_org c) s))"

text \<open>\<open>KnowledgeScopes\<close>: the units and departments the caller may pick, or only their own.\<close>

definition scope_items :: "kcaller \<Rightarrow> bool \<Rightarrow> uuid option \<Rightarrow> place list \<Rightarrow> (uuid \<times> runes \<times> bool) list" where
  "scope_items c chooses own ps =
     map (\<lambda>p. (pl_id p, pl_name p, pl_active p))
       (sort_key pl_name (filter (\<lambda>p. pl_org p = cl_org c \<and> (chooses \<or> own = Some (pl_id p))) ps))"

definition knowledge_scopes where
  "knowledge_scopes D caller =
     on_reply (require_auth caller knowledge ''read'') (\<lambda>c.
       let chooses = snd (capabilities c) in
       case cl_place c of
         None \<Rightarrow> Refused 500 ''Failed to load user''
       | Some (own_unit, own_dept) \<Rightarrow>
           Reply (chooses, scope_items c chooses own_unit (dr_units D), scope_items c chooses own_dept (dr_depts D),
                  own_unit, own_dept))"


section \<open>The steps of the base\<close>

text \<open>Time passes, the database fails when it will, requests and imports come in any order.\<close>

inductive kb_step :: "kenv \<Rightarrow> kb \<Rightarrow> kb \<Rightarrow> bool" for E :: kenv where
  step_time: "kb_step E s (s\<lparr>kb_now := t\<rparr>)"
| step_faults: "kb_step E s (s\<lparr>kb_faults := fs\<rparr>)"
| step_create: "kb_step E s (snd (create_document E D caller body s))"
| step_update: "kb_step E s (snd (update_document E D caller path body s))"
| step_delete: "kb_step E s (snd (delete_document caller path s))"
| step_reindex: "kb_step E s (snd (reindex_document E caller path s))"
| step_reindex_all: "kb_step E s (snd (reindex_knowledge E caller only s))"
| step_import: "kb_step E s (snd (import_manuals E org unit dept files dry s))"

definition new_kb :: kb where
  "new_kb = \<lparr>kb_docs = [], kb_chunks = [], kb_fresh = 1, kb_now = 0, kb_faults = []\<rparr>"

inductive kb_reach :: "kenv \<Rightarrow> kb \<Rightarrow> bool" for E :: kenv where
  reach_new: "kb_reach E new_kb"
| reach_step: "kb_reach E s \<Longrightarrow> kb_step E s s' \<Longrightarrow> kb_reach E s'"

inductive_cases kb_stepE: "kb_step E s s'"

lemma transaction_ok:
  "(\<And>s x s'. kb_ok E s \<Longrightarrow> body s = Inr (x, s') \<Longrightarrow> kb_ok E s') \<Longrightarrow> kb_ok E s \<Longrightarrow> kb_ok E (snd (transaction body s))"
  by (rule transaction_keeps [where P = "kb_ok E"]) auto

lemma answered_snd [simp]: "snd (answered what r) = snd r"
  by (simp add: answered_def)

lemma with_id_keeps: "kb_ok E s \<Longrightarrow> (\<And>c i. kb_ok E (snd (f c i s))) \<Longrightarrow> kb_ok E (snd (with_id caller path f s))"
  by (auto simp: with_id_def split: reply.split option.split)

lemma validated:
  "validate_request D org req0 create = Inr req \<Longrightarrow>
     \<not> bad_status (rq_status req) \<and> (rq_src req \<in> set api_sources \<or> rq_src req = [] \<and> \<not> create)
     \<and> rq_title req = trim (rq_title req0) \<and> rq_body req = rq_body req0"
  by (auto simp: validate_request_def Let_def split: if_splits)

lemma good_bad_status: "\<not> bad_status st \<longleftrightarrow> st \<in> {[], active, archived}"
  by (auto simp: bad_status_def)

lemma create_document_keeps: "kb_ok E s \<Longrightarrow> kb_ok E (snd (create_document E D caller body s))"
proof -
  assume ok: "kb_ok E s"
  have "kb_ok E (snd (transaction (save_doc E (created_row c req)
      (sections_for (kd_src (created_row c req)) (kd_title (created_row c req)) (rq_body req))) s))"
    if v: "validate_request D (cl_org c) req0 True = Inr req" for c req0 req
  proof (rule transaction_ok [OF _ ok])
    fix s x s'
    assume s: "kb_ok E s" and sv: "save_doc E (created_row c req)
      (sections_for (kd_src (created_row c req)) (kd_title (created_row c req)) (rq_body req)) s = Inr (x, s')"
    have "may_store (created_row c req) s" "kd_origin (created_row c req) = []" "kd_body (created_row c req) = rq_body req"
      by (simp_all add: created_row_def may_store_def kd_live_def)
    moreover have "good_status (created_row c req)"
      unfolding created_row_def
      by (rule good_status_set_archived) (use validated [OF v] in \<open>auto simp: good_status_def good_bad_status\<close>)
    ultimately show "kb_ok E s'" using save_doc_keeps [OF s _ _ _ sv] by simp
  qed
  then show ?thesis using ok
    by (auto simp: create_document_def Let_def split: reply.split option.split sum.split prod.split) (metis snd_conv)+
qed

lemma update_keeps_body:
  assumes ok: "kb_ok E s" and up: "update_body E D c i req s = Inr (x, s')" shows "kb_ok E s'"
proof -
  obtain d where d: "lock_doc (cl_org c) i s = Some d" using up by (auto simp: update_body_def split: option.splits)
  note row = lock_doc_SomeD [OF d]
  have dok: "doc_ok E d" using ok row by (auto simp: kb_ok_def rows_sound_def)
  have fresh: "\<not> changed_since req d" using up d by (auto simp: update_body_def)
  show ?thesis
  proof (cases "kd_src d = manual_html")
    case True
    define e where "e = set_archived_state (d\<lparr>kd_unit := sc_id (rq_unit req), kd_dept := sc_id (rq_dept req)\<rparr>) (rq_status req) by_user"
    have v: "validate_manual D (cl_org c) req d = None" "apply_scope e s = Inr (x, s')"
      using up d fresh True by (auto simp: update_body_def e_def split: option.splits)
    have "\<not> bad_status (rq_status req)" using v(1) by (auto simp: validate_manual_def split: if_splits)
    then have "good_status e" unfolding e_def
      by (intro good_status_set_archived) (use dok in \<open>auto simp: good_bad_status doc_ok_def good_status_def\<close>)
    moreover have "kd_status e \<noteq> []" using dok by (simp add: e_def doc_ok_def)
    ultimately show ?thesis
      using row by (intro apply_scope_keeps [OF ok _ _ _ _ _ _ _ _ _ _ _ _ v(2)]) (auto simp: e_def kd_live_def)
  next
    case False
    obtain r where r: "validate_request D (cl_org c) req False = Inr r"
      using up d fresh False by (auto simp: update_body_def split: sum.splits)
    define e0 where "e0 = set_archived_state (d\<lparr>kd_unit := sc_id (rq_unit r), kd_dept := sc_id (rq_dept r)\<rparr>) (rq_status r) by_user"
    define e where "e = e0\<lparr>kd_title := rq_title r, kd_body := rq_body r,
      kd_src := (if rq_src r \<noteq> [] then rq_src r else kd_src d)\<rparr>"
    have sv: "save_doc E e (sections_for (kd_src e) (kd_title e) (rq_body r)) s = Inr (x, s')"
      using up d fresh False r by (simp add: update_body_def e_def e0_def Let_def)
    have "good_status e0" unfolding e0_def
      by (rule good_status_set_archived) (use validated [OF r] dok in \<open>auto simp: good_bad_status doc_ok_def good_status_def\<close>)
    then have "good_status e" by (auto simp: e_def good_status_def)
    moreover have "may_store e s"
      unfolding may_store_def using row by (auto simp: e_def e0_def kd_live_def intro!: bexI [of _ d])
    moreover have "kd_origin e = []" using dok False by (auto simp: e_def e0_def doc_ok_def)
    ultimately show ?thesis using save_doc_keeps [OF ok _ _ _ sv] by (simp add: e_def)
  qed
qed

lemma kb_step_keeps: "kb_step E s s' \<Longrightarrow> kb_ok E s \<Longrightarrow> kb_ok E s'"
proof (induction rule: kb_step.induct)
  case (step_update s D caller path body)
  have "kb_ok E (snd (transaction (update_body E D c i req) s))" for c i req
    by (rule transaction_ok [OF update_keeps_body step_update])
  then show ?case unfolding update_document_def
    by (intro with_id_keeps [OF step_update]) (simp add: step_update split: option.split)
next
  case (step_delete s caller path)
  have "kb_ok E s'" if "kb_ok E s" "delete_body c i s = Inr (x, s')" for c i s x s'
    using that remove_doc_keeps lock_doc_SomeD by (fastforce simp: delete_body_def split: option.splits)
  then have "kb_ok E (snd (transaction (delete_body c i) s))" for c i
    by (rule transaction_ok [OF _ step_delete])
  then show ?case unfolding delete_document_def
    by (intro with_id_keeps [OF step_delete]) simp
next
  case (step_reindex s caller path)
  have "kb_ok E s'" if "kb_ok E s" "reindex_body E c i s = Inr (x, s')" for c i s x s'
    using that reindex_doc_keeps by (fastforce simp: reindex_body_def split: option.splits dest: lock_doc_SomeD)
  then have "kb_ok E (snd (transaction (reindex_body E c i) s))" for c i
    by (rule transaction_ok [OF _ step_reindex])
  then show ?case unfolding reindex_document_def
    by (intro with_id_keeps [OF step_reindex]) simp
next
  case (step_reindex_all s caller only)
  have "kb_ok E (snd (reindex_org E org only_stale s))" for org only_stale by (rule reindex_org_keeps [OF step_reindex_all])
  then show ?case using step_reindex_all
    by (auto simp: reindex_knowledge_def split: reply.split prod.split sum.split) (metis snd_conv)+
next
  case (step_import s org unit dept files dry)
  then show ?case using import_keeps.import_rel_run [where s = s and E = E and org = org and unit = unit and dept = dept
      and files = files and dry = dry] by blast
qed (auto intro: create_document_keeps)

text \<open>C28 (invariant). Through any sequence of requests, imports, reindexings and database failures, each
  chunk belongs to a live document and carries that document's organization, unit, department,
  visibility and status; and the chunks of each live document are exactly the pieces of its stored text, in order.
\<close>

theorem chunks_follow_their_document:
  assumes "kb_reach E s"
  shows "(\<forall>c \<in> set (kb_chunks s). \<exists>d \<in> set (kb_docs s). kd_live d \<and> carries d c)
    \<and> (\<forall>d \<in> set (kb_docs s). kd_live d \<longrightarrow> chunk_texts (kd_id d) s = doc_texts d)"
proof -
  have "kb_ok E s" using assms
  proof (induction rule: kb_reach.induct)
    case reach_new
    show ?case by (simp add: kb_ok_def rows_sound_def index_sound_def new_kb_def origin_keys_def)
  next
    case (reach_step s s')
    then show ?case using kb_step_keeps by blast
  qed
  then show ?thesis by (simp add: kb_ok_def index_sound_def)
qed

text \<open>
  A caller reads a document only with the permission to read, only of the own
  organization, and never a deleted one; one who may not write reads only active documents whose unit
  and department are unrestricted or those of the context; and one who may not choose the
  context has the own unit and department as the context.
\<close>

theorem readers_stay_in_their_scope:
  assumes "find_readable D (Some c) unit dept path s = Reply (d, a)"
  shows "d \<in> set (kb_docs s) \<and> kd_live d \<and> kd_org d = cl_org c \<and> has_perm c knowledge ''read''
    \<and> (\<not> has_perm c knowledge ''write'' \<longrightarrow>
         kd_status d = active \<and> in_scope (kd_unit d) (ac_unit a) \<and> in_scope (kd_dept d) (ac_dept a))
    \<and> (\<not> has_perm c knowledge ''write'' \<and> \<not> has_perm c ''conversations'' ''view_all'' \<longrightarrow>
         cl_place c = Some (ac_unit a, ac_dept a))"
proof -
  have acc: "resolve_access D c unit dept = Reply a" "has_perm c knowledge ''read''"
    using assms by (auto simp: find_readable_def on_reply_Reply require_auth_def split: if_splits option.splits)
  obtain i where "find (\<lambda>d. kd_id d = i \<and> kd_org d = cl_org c \<and> kd_live d \<and> readable a d) (kb_docs s) = Some d"
    using assms acc by (auto simp: find_readable_def on_reply_Reply require_auth_def split: option.splits if_splits)
  from find_mem [OF this] have d: "d \<in> set (kb_docs s)" "kd_org d = cl_org c" "kd_live d" "readable a d" by auto
  have "ac_admin a = has_perm c knowledge ''write''"
    using acc(1) by (auto simp: resolve_access_def capabilities_def Let_def split: if_splits option.splits)
  moreover have "cl_place c = Some (ac_unit a, ac_dept a)"
    if "\<not> has_perm c knowledge ''write''" "\<not> has_perm c ''conversations'' ''view_all''"
    using acc(1) that by (auto simp: resolve_access_def capabilities_def Let_def split: if_splits option.splits)
  ultimately show ?thesis using d acc(2) by (auto simp: readable_def)
qed


section \<open>Concrete requests\<close>

definition sample_caller :: kcaller where
  "sample_caller = \<lparr>cl_org = 7, cl_user = 1, cl_perms = [(knowledge, ''read''), (knowledge, ''write'')], cl_place = Some (Some 3, None)\<rparr>"

definition sample_reader :: kcaller where
  "sample_reader = \<lparr>cl_org = 7, cl_user = 2, cl_perms = [(knowledge, ''read'')], cl_place = Some (Some 3, None)\<rparr>"

definition sample_request :: doc_request where
  "sample_request = \<lparr>rq_title = [65], rq_body = [97, 98], rq_src = ''article'', rq_unit = \<lparr>sc_set = True, sc_id = None\<rparr>,
     rq_dept = \<lparr>sc_set = True, sc_id = None\<rparr>, rq_status = [], rq_expected = None\<rparr>"

definition no_places :: directory where
  "no_places = \<lparr>dr_units = [], dr_depts = []\<rparr>"

definition sample_base :: kb where
  "sample_base = snd (create_document sample_env no_places (Some sample_caller) (Some sample_request) new_kb)"

lemma sample_title: "trim [65] = [65]" "trim [97, 98] = [97, 98]"
  by (simp_all add: trim_by_def rune_space_def)

lemma sample_base_docs:
  "kb_docs sample_base =
     [\<lparr>kd_id = 1, kd_org = 7, kd_unit = None, kd_dept = None, kd_vis = ''organization'', kd_src = ''article'',
       kd_title = [65], kd_origin = [], kd_body = [97, 98], kd_hash = content_hash sample_env [65] [97, 98],
       kd_status = active, kd_archived_by = [], kd_created = 0, kd_updated = 0, kd_deleted = False\<rparr>]"
  by (simp add: sample_base_def create_document_def require_auth_def has_perm_def sample_caller_def sample_request_def
      validate_request_def sample_title api_sources_def bad_status_def scope_targets_exist_def place_exists_def
      created_row_def set_archived_state_def transaction_def new_kb_def save_doc_def normalize_fixed sample_texts(1)
      store_doc_def row_fits_def rebuild_chunks_def Let_def visibility_for_def max_body_def)

lemma sample_base_reach: "kb_reach sample_env sample_base"
  unfolding sample_base_def by (rule reach_step [OF reach_new step_create])

lemma chunks_follow_their_document_witness:
  "chunk_texts 1 sample_base = [(0, [65], [97, 98])]"
  using chunks_follow_their_document [OF sample_base_reach]
  by (simp add: sample_base_docs kd_live_def doc_texts_def sections_for_def sample_texts(2))

lemma readers_stay_in_their_scope_witness:
  "\<exists>d a. find_readable no_places (Some sample_reader) Absent Absent (Given 1) sample_base = Reply (d, a)
     \<and> kd_org d = 7 \<and> kd_status d = active \<and> ac_unit a = Some 3"
proof -
  have "\<exists>d a. find_readable no_places (Some sample_reader) Absent Absent (Given 1) sample_base = Reply (d, a)"
    by (simp add: find_readable_def require_auth_def has_perm_def sample_reader_def resolve_access_def capabilities_def
        knowledge_def sample_base_docs readable_def in_scope_def kd_live_def Let_def)
  then obtain d a where r: "find_readable no_places (Some sample_reader) Absent Absent (Given 1) sample_base = Reply (d, a)"
    by blast
  then show ?thesis
    using readers_stay_in_their_scope [OF r]
    by (auto simp: sample_reader_def has_perm_def knowledge_def)
qed

text \<open>A customer of that organization asks about it.\<close>

definition any_fts :: fts where
  "any_fts = \<lparr>ft_match = (\<lambda>q c. True), ft_rank = (\<lambda>q c. 1), ft_fails = (\<lambda>q. False)\<rparr>"

lemma sample_base_ok: "kb_ok sample_env sample_base"
  using create_document_keeps [of sample_env new_kb no_places "Some sample_caller" "Some sample_request"]
  unfolding sample_base_def
  by (simp add: kb_ok_def rows_sound_def index_sound_def new_kb_def origin_keys_def)


definition sample_question :: runes where
  "sample_question = [97, 98, 45, 99]"

lemma sample_terms: "plain_terms ascii_tables sample_question = [sample_question]"
proof -
  have f: "fold_for_search ascii_tables sample_question = sample_question"
    by (simp add: fold_for_search_def ascii_tables_def sample_question_def rune_space_def)
  have t: "take_token ascii_tables sample_question = sample_question"
    by (simp add: sample_question_def word_rune_def ascii_tables_def)
  have "\<not> skip_token ascii_tables [] sample_question"
    by (simp add: skip_token_def sample_question_def or_word_def runes_of_def)
  then have "plain_loop ascii_tables [] sample_question = plain_loop ascii_tables [sample_question] []"
    using t plain_loop.simps [of ascii_tables "[]" sample_question]
    by (simp add: max_plain_terms_def Let_def) (simp add: sample_question_def word_rune_def ascii_tables_def)
  then show ?thesis by (simp add: plain_terms_def f plain_loop.simps)
qed

lemma plain_terms_are_never_syntax_witness: "plain_term ascii_tables sample_question \<and> 45 \<in> set sample_question"
  using plain_terms_are_never_syntax [of ascii_tables sample_question] by (simp add: sample_terms) (simp add: sample_question_def)

lemma sample_base_chunks:
  "kb_chunks sample_base = [new_chunk sample_env (hd (kb_docs sample_base)) 2 \<lparr>pc_index = 0, pc_heading = [65], pc_content = [97, 98]\<rparr>]"
  unfolding sample_base_docs
  by (simp add: sample_base_def create_document_def require_auth_def has_perm_def sample_caller_def sample_request_def
      validate_request_def sample_title api_sources_def bad_status_def scope_targets_exist_def place_exists_def
      created_row_def set_archived_state_def transaction_def new_kb_def save_doc_def normalize_fixed sample_texts
      store_doc_def row_fits_def rebuild_chunks_def Let_def visibility_for_def max_body_def sections_for_def numeral_2_eq_2)

lemma sample_block:
  "bl_sources (build_knowledge_block ascii_tables (Some (lexical_retrieve ascii_tables any_fts sample_base)) 7 None sample_question)
     = [\<lparr>so_doc = 1, so_title = [65], so_origin = [], so_score = 1\<rparr>]"
proof -
  have q: "trim sample_question = sample_question" "sample_question \<noteq> []" "length sample_question = 4"
    by (simp_all add: sample_question_def trim_by_def rune_space_def)
  let ?q = "\<lparr>kq_org = 7, kq_text = sample_question, kq_unit = None, kq_dept = None, kq_limit = 12, kq_strategy = Relaxed\<rparr>"
  have "lexical_retrieve ascii_tables any_fts sample_base ?q
      = Inr [\<lparr>ht_doc = 1, ht_chunk = 2, ht_title = [65], ht_heading = [65], ht_content = [97, 98], ht_score = 1,
              ht_src = ''article'', ht_origin = [], ht_anchor = []\<rparr>]"
    by (simp add: lexical_retrieve_def sample_terms relaxed_retrieve_def lexical_run_def any_fts_def lexical_rows_def
        sample_base_chunks sample_base_docs new_chunk_def in_scope_def kd_live_def lexical_order_def hit_of_def anchor_of_def)
  moreover have "knowledge_query ascii_tables 7 None sample_question = ?q\<lparr>kq_limit := 0\<rparr>"
    by (simp add: knowledge_query_def compose_query_def q Let_def max_query_runes_def)
  ultimately show ?thesis
    by (simp add: build_knowledge_block_def assemble_def service_search_def prepare_query_def Let_def q max_chunks_def
        max_limit_def max_query_len_def max_per_doc_def per_doc_def max_chars_def fit_content_def sample_title
        block_of_def make_entry_def)
qed

lemma knowledge_block_stays_in_scope_witness:
  "\<exists>es d i heading content.
     build_knowledge_block ascii_tables (Some (lexical_retrieve ascii_tables any_fts sample_base)) 7 None sample_question = block_of es
     \<and> es \<noteq> [] \<and> d \<in> set (kb_docs sample_base) \<and> kd_live d \<and> kd_org d = 7 \<and> kd_status d = active \<and> kd_unit d = None
     \<and> so_doc (en_source (hd es)) = kd_id d \<and> (i, heading, content) \<in> set (doc_texts d) \<and> quotes (en_content (hd es)) content"
proof -
  let ?b = "build_knowledge_block ascii_tables (Some (lexical_retrieve ascii_tables any_fts sample_base)) 7 None sample_question"
  obtain es where es: "?b = block_of es"
    "\<forall>e \<in> set es. \<exists>d \<in> set (kb_docs sample_base). \<exists>i heading content.
       kd_live d \<and> kd_org d = 7 \<and> kd_status d = active
       \<and> (kd_unit d = None \<or> (\<exists>v c. None = Some v \<and> sv_contact v = Some c \<and> kd_unit d = fst c))
       \<and> (kd_dept d = None \<or> (\<exists>v c. None = Some v \<and> sv_contact v = Some c \<and> kd_dept d = snd c))
       \<and> so_doc (en_source e) = kd_id d \<and> so_title (en_source e) = kd_title d \<and> so_origin (en_source e) = kd_origin d
       \<and> (i, heading, content) \<in> set (doc_texts d) \<and> quotes (en_content e) content
       \<and> en_label e \<in> {kd_title d, kd_title d @ [sp, 8212, sp] @ heading}"
    using knowledge_block_stays_in_scope [OF sample_base_ok, of "Some (lexical_retrieve ascii_tables any_fts sample_base)"
        ascii_tables any_fts 7 None sample_question]
    by blast
  have ne: "es \<noteq> []" using sample_block es(1) by (auto simp: block_of_def empty_block_def)
  then obtain d i heading content where "d \<in> set (kb_docs sample_base)" "kd_live d" "kd_org d = 7" "kd_status d = active"
    "kd_unit d = None" "so_doc (en_source (hd es)) = kd_id d" "(i, heading, content) \<in> set (doc_texts d)"
    "quotes (en_content (hd es)) content"
    using es(2) [rule_format, OF hd_in_set [OF ne]] by auto
  then show ?thesis using es(1) ne by blast
qed

end
