(* ===== verification/Knowledge_Html.thy ===== *)
theory Knowledge_Html
  imports Knowledge_Store
begin

text \<open>
  \<open>internal/knowledge/html.go\<close>: an HTML manual to one document per \<open>h2\<close> or \<open>h3\<close> section. The parse
  tree of \<open>golang.org/x/net/html\<close> is the argument; \<open>Branch\<close> stands for the nodes the walk only passes
  through (the document itself, a doctype, a comment).
\<close>

section \<open>The parse tree\<close>

datatype html =
    Text runes
  | Elem string "(string \<times> runes) list" "html list"
  | Branch "html list"

definition skip_tags :: "string list" where
  "skip_tags = [''script'', ''style'', ''img'', ''svg'', ''head'', ''nav'', ''noscript'', ''iframe'', ''button'', ''template'']"

definition block_tags :: "string list" where
  "block_tags = [''p'', ''div'', ''section'', ''article'', ''ul'', ''ol'', ''li'', ''tr'', ''table'', ''pre'',
     ''blockquote'', ''br'', ''dl'', ''dt'', ''dd'', ''header'', ''footer'', ''main'', ''h1'', ''h2'', ''h3'', ''h4'']"

text \<open>\<open>attr\<close>: the first attribute of the name, or the empty string.\<close>

definition attr_of :: "(string \<times> runes) list \<Rightarrow> string \<Rightarrow> runes" where
  "attr_of attrs key = (case map_of attrs key of Some v \<Rightarrow> v | None \<Rightarrow> [])"

fun inner_text :: "html \<Rightarrow> runes" where
  "inner_text (Text t) = t @ [sp]"
| "inner_text (Elem tag attrs kids) = (if tag \<in> set skip_tags then [] else concat (map inner_text kids))"
| "inner_text (Branch kids) = concat (map inner_text kids)"

section \<open>Anchors\<close>

text \<open>\<open>[^a-z0-9]+\<close> becomes a hyphen; then hyphens are trimmed.\<close>

definition slug_char :: "rune \<Rightarrow> bool" where
  "slug_char r \<longleftrightarrow> (97 \<le> r \<and> r \<le> 122) \<or> (48 \<le> r \<and> r \<le> 57)"

fun hyphenate :: "runes \<Rightarrow> runes" where
  "hyphenate [] = []"
| "hyphenate (c # cs) =
     (if slug_char c then c # hyphenate cs
      else 45 # hyphenate (dropWhile (\<lambda>d. \<not> slug_char d) cs))"

abbreviation trim_hyphens :: "runes \<Rightarrow> runes" where
  "trim_hyphens \<equiv> trim_by (\<lambda>r. r = 45)"

definition slug_of :: "unicode_tables \<Rightarrow> runes \<Rightarrow> runes" where
  "slug_of U title =
     (let s = trim_hyphens (hyphenate (fold_for_search U title));
          s1 = (if length s > 60 then trim_hyphens (take 60 s) else s) in
      if s1 = [] then runes_of ''secao'' else s1)"

text \<open>
  The unbounded count of \<open>pickAnchor\<close> stops at the latest after as many numbers as there are anchors in
  use, plus one.
\<close>

definition numbered :: "runes \<Rightarrow> nat \<Rightarrow> runes" where
  "numbered base n = base @ [45] @ runes_of (show_nat n)"

fun count_free :: "runes \<Rightarrow> runes list \<Rightarrow> nat \<Rightarrow> nat \<Rightarrow> runes" where
  "count_free base used n 0 = numbered base n"
| "count_free base used n (Suc fuel) =
     (if numbered base n \<notin> set used then numbered base n else count_free base used (n + 1) fuel)"

definition first_free :: "runes list \<Rightarrow> runes list \<Rightarrow> runes option" where
  "first_free used candidates = find (\<lambda>c. c \<noteq> [] \<and> c \<notin> set used) candidates"

definition pick_anchor :: "unicode_tables \<Rightarrow> runes list \<Rightarrow> runes \<Rightarrow> runes \<Rightarrow> runes \<Rightarrow> runes" where
  "pick_anchor U used own ancestor title =
     (case first_free used [own, ancestor, slug_of U title] of
        Some c \<Rightarrow> c
      | None \<Rightarrow> count_free (if own \<noteq> [] then own else slug_of U title) used 2 (length used))"

section \<open>The walk\<close>

record walker =
  wk_docs :: "manual_doc list"
  wk_title :: runes
  wk_anchor :: runes
  wk_buf :: runes
  wk_used :: "runes list"

definition introduction :: runes where
  "introduction = runes_of ''Introdu'' @ [231, 227, 111]"

definition close_section :: "unicode_tables \<Rightarrow> walker \<Rightarrow> walker" where
  "close_section U w =
     (let text = normalize_text (wk_buf w) in
      if wk_title w = [] \<and> text = [] then w\<lparr>wk_buf := []\<rparr>
      else let picked = pick_anchor U (wk_used w) [] [] (runes_of ''introducao'');
               anchor = (if wk_anchor w = [] then picked else wk_anchor w) in
        w\<lparr>wk_buf := [],
          wk_used := (if wk_anchor w = [] then wk_used w @ [picked] else wk_used w),
          wk_docs := wk_docs w @ [\<lparr>m_title = (if wk_title w = [] then introduction else wk_title w),
                                   m_anchor = anchor, m_text = text\<rparr>]\<rparr>)"

definition open_section :: "unicode_tables \<Rightarrow> runes \<Rightarrow> runes \<Rightarrow> runes \<Rightarrow> walker \<Rightarrow> walker" where
  "open_section U own ctx heading w =
     (let w1 = close_section U w; title = normalize_text heading;
          a = pick_anchor U (wk_used w1) own ctx title in
      w1\<lparr>wk_title := title, wk_anchor := a, wk_used := wk_used w1 @ [a]\<rparr>)"

definition write_buf :: "runes \<Rightarrow> walker \<Rightarrow> walker" where
  "write_buf t w = w\<lparr>wk_buf := wk_buf w @ t\<rparr>"

fun walk :: "unicode_tables \<Rightarrow> runes \<Rightarrow> html \<Rightarrow> walker \<Rightarrow> walker" where
  "walk U ctx (Text t) w = write_buf t w"
| "walk U ctx (Elem tag attrs kids) w =
     (if tag \<in> set skip_tags then w
      else if tag = ''h2'' \<or> tag = ''h3'' then
        open_section U (attr_of attrs ''id'') ctx (inner_text (Elem tag attrs kids)) w
      else let ctx1 = (if attr_of attrs ''id'' \<noteq> [] then attr_of attrs ''id'' else ctx);
               edge = (if tag \<in> set block_tags then [lf] else []);
               bar = (if tag = ''td'' \<or> tag = ''th'' then runes_of '' | '' else []) in
        write_buf bar (write_buf edge (foldl (\<lambda>w k. walk U ctx1 k w) (write_buf edge w) kids)))"
| "walk U ctx (Branch kids) w = foldl (\<lambda>w k. walk U ctx k w) w kids"

definition parse_manual_html :: "unicode_tables \<Rightarrow> html \<Rightarrow> manual_doc list" where
  "parse_manual_html U tree =
     filter (\<lambda>d. length (m_text d) \<ge> chunk_min)
       (wk_docs (close_section U (walk U [] tree
          \<lparr>wk_docs = [], wk_title = [], wk_anchor = [], wk_buf = [], wk_used = []\<rparr>)))"

section \<open>Anchors are never shared\<close>

text \<open>The decimal numerals are different for different numbers.\<close>

definition digits_value :: "string \<Rightarrow> nat" where
  "digits_value s = foldl (\<lambda>a c. 10 * a + (byte c - 48)) 0 s"

lemma digits_value_show: "digits_value (show_nat n) = n"
proof (induction n rule: less_induct)
  case (less n)
  show ?case
  proof (cases "n < 10")
    case True
    then show ?thesis by (simp add: digits_value_def show_nat.simps [of n] byte_char_of)
  next
    case False
    then have "digits_value (show_nat (n div 10)) = n div 10" by (intro less) simp
    then show ?thesis using False byte_char_of [of "48 + n mod 10"]
      by (simp add: digits_value_def show_nat.simps [of n])
  qed
qed

lemma numbered_inj: "numbered base m = numbered base n \<Longrightarrow> m = n"
proof -
  assume "numbered base m = numbered base n"
  then have "map of_char (show_nat m) = (map of_char (show_nat n) :: nat list)" by (simp add: numbered_def runes_of_def)
  moreover have "inj (of_char :: char \<Rightarrow> nat)" by (rule injI) simp
  ultimately have "show_nat m = show_nat n" by (simp add: inj_map_eq_map)
  then show ?thesis by (metis digits_value_show)
qed

lemma count_free_new:
  assumes "card (set used - numbered base ` {m..<n}) \<le> fuel" "numbered base ` {m..<n} \<subseteq> set used" "m \<le> n"
  shows "count_free base used n fuel \<notin> set used"
  using assms
proof (induction fuel arbitrary: n)
  case 0
  then have "set used = numbered base ` {m..<n}" by auto
  then have "numbered base n \<notin> set used" using numbered_inj by fastforce
  then show ?case by simp
next
  case (Suc fuel)
  show ?case
  proof (cases "numbered base n \<in> set used")
    case True
    let ?A = "set used - numbered base ` {m..<n}"
    have "numbered base n \<in> ?A" using True numbered_inj by fastforce
    then have "card (?A - {numbered base n}) < card ?A" by (intro card_Diff1_less) auto
    moreover have "set used - numbered base ` {m..<n + 1} = ?A - {numbered base n}"
      using Suc.prems(3) by (auto simp: atLeastLessThanSuc)
    ultimately have "card (set used - numbered base ` {m..<n + 1}) \<le> fuel" using Suc.prems(1) by simp
    then show ?thesis using Suc.IH [of "n + 1"] Suc.prems(2,3) True by (auto simp: atLeastLessThanSuc)
  qed simp
qed

lemma slug_of_ne: "slug_of U title \<noteq> []"
  by (simp add: slug_of_def Let_def runes_of_def)

lemma pick_anchor_new: "pick_anchor U used own ancestor title \<notin> set used \<and> pick_anchor U used own ancestor title \<noteq> []"
proof (cases "first_free used [own, ancestor, slug_of U title]")
  case None
  define base where "base = (if own \<noteq> [] then own else slug_of U title)"
  have "count_free base used 2 (length used) \<notin> set used"
    by (rule count_free_new [of _ _ 2]) (simp_all add: card_length)
  moreover have "count_free base used k f \<noteq> []" for k f
    by (induction base used k f rule: count_free.induct) (simp_all add: numbered_def)
  ultimately show ?thesis using None by (simp add: pick_anchor_def base_def)
next
  case (Some c)
  have "c \<noteq> [] \<and> c \<notin> set used" using find_mem [OF Some [unfolded first_free_def]] by blast
  then show ?thesis using Some by (simp add: pick_anchor_def)
qed

text \<open>The anchors given are in use, the documents' are different, and the open one is not theirs yet.\<close>

definition walker_ok :: "walker \<Rightarrow> bool" where
  "walker_ok w \<longleftrightarrow> set (map m_anchor (wk_docs w)) \<subseteq> set (wk_used w) \<and> distinct (map m_anchor (wk_docs w))
     \<and> [] \<notin> set (wk_used w) \<and> (wk_anchor w = [] \<or> wk_anchor w \<in> set (wk_used w) \<and> wk_anchor w \<notin> set (map m_anchor (wk_docs w)))"

text \<open>Closing a section may give its anchor to a document; a new anchor must follow before the next.\<close>

definition walker_closed :: "walker \<Rightarrow> bool" where
  "walker_closed w \<longleftrightarrow> set (map m_anchor (wk_docs w)) \<subseteq> set (wk_used w) \<and> distinct (map m_anchor (wk_docs w)) \<and> [] \<notin> set (wk_used w)"

lemma close_section_ok: "walker_ok w \<Longrightarrow> walker_closed (close_section U w)"
  using pick_anchor_new [of U "wk_used w" "[]" "[]" "runes_of ''introducao''"]
  by (auto simp: walker_ok_def walker_closed_def close_section_def Let_def)

lemma open_section_ok: "walker_ok w \<Longrightarrow> walker_ok (open_section U own ctx heading w)"
  using close_section_ok [of w U] pick_anchor_new [of U "wk_used (close_section U w)" own ctx "normalize_text heading"]
  by (auto simp: walker_ok_def walker_closed_def open_section_def Let_def)

lemma write_buf_ok [simp]: "walker_ok (write_buf t w) = walker_ok w"
  by (simp add: walker_ok_def write_buf_def)

lemma walk_list_ok:
  "walker_ok w \<Longrightarrow> (\<And>k w1. k \<in> set ks \<Longrightarrow> walker_ok w1 \<Longrightarrow> walker_ok (walk U c k w1)) \<Longrightarrow>
   walker_ok (foldl (\<lambda>w k. walk U c k w) w ks)"
  by (induction ks arbitrary: w) auto

lemma walk_ok: "walker_ok w \<Longrightarrow> walker_ok (walk U ctx n w)"
proof (induction n arbitrary: ctx w)
  case (Elem tag attrs kids)
  show ?case
  proof (cases "tag \<in> set skip_tags \<or> tag = ''h2'' \<or> tag = ''h3''")
    case True
    then have "walk U ctx (Elem tag attrs kids) w = w
        \<or> walk U ctx (Elem tag attrs kids) w = open_section U (attr_of attrs ''id'') ctx (inner_text (Elem tag attrs kids)) w"
      unfolding walk.simps by (cases "tag \<in> set skip_tags") (simp_all only: if_True if_False simp_thms)
    then show ?thesis using Elem.prems open_section_ok by metis
  next
    case False
    define c where "c = (if attr_of attrs ''id'' \<noteq> [] then attr_of attrs ''id'' else ctx)"
    define edge where "edge = (if tag \<in> set block_tags then [lf] else [])"
    define bar where "bar = (if tag = ''td'' \<or> tag = ''th'' then runes_of '' | '' else [])"
    have "walk U ctx (Elem tag attrs kids) w
        = write_buf bar (write_buf edge (foldl (\<lambda>w k. walk U c k w) (write_buf edge w) kids))"
      unfolding walk.simps Let_def c_def edge_def bar_def using False by (simp only: de_Morgan_disj if_False simp_thms)
    moreover have "walker_ok (foldl (\<lambda>w k. walk U c k w) (write_buf edge w) kids)"
      by (rule walk_list_ok) (use Elem in auto)
    ultimately show ?thesis by (simp only: write_buf_ok)
  qed
next
  case (Branch kids)
  have "walker_ok (foldl (\<lambda>w k. walk U ctx k w) w kids)"
    by (rule walk_list_ok) (use Branch in auto)
  then show ?case by simp
qed simp

text \<open>
  The sections of a manual have different, nonempty anchors, whatever ids and headings
  the HTML repeats: so their origins differ, and no section of a file overwrites another at import. Each
  has at least 40 characters of text.
\<close>

theorem manual_anchors_differ:
  "distinct (map (\<lambda>m. manual_prefix name @ m_anchor m) (parse_manual_html U tree))
   \<and> [] \<notin> set (map m_anchor (parse_manual_html U tree))
   \<and> list_all (\<lambda>m. 40 \<le> length (m_text m)) (parse_manual_html U tree)"
proof -
  let ?start = "\<lparr>wk_docs = [], wk_title = [], wk_anchor = [], wk_buf = [], wk_used = []\<rparr>"
  have "walker_ok ?start" by (simp add: walker_ok_def)
  then have ok: "walker_closed (close_section U (walk U [] tree ?start))" (is "walker_closed ?w")
    by (intro close_section_ok walk_ok)
  then have "distinct (map m_anchor (parse_manual_html U tree))" "[] \<notin> set (map m_anchor (parse_manual_html U tree))"
    by (auto simp: walker_closed_def parse_manual_html_def distinct_map_filter)
  moreover have "distinct (map (\<lambda>m. manual_prefix name @ m_anchor m) ms) = distinct (map m_anchor ms)" for ms
    by (induction ms) auto
  ultimately show ?thesis by (auto simp: parse_manual_html_def list_all_iff chunk_min_def)
qed

end
