(* ===== verification/Contact_Identity.thy ===== *)
theory Contact_Identity
  imports Prelude
begin

text \<open>
  Who a phone number is (\<open>internal/contactutil\<close>): the digits-only form and the Brazilian
  country code, the two spellings of a Brazilian mobile, the set of stored spellings a lookup
  matches, the find-or-create every inbound and outbound path uses, the check digits of a
  CPF or CNPJ, and the merge of the rows that turn out to be one subscriber.
\<close>

section \<open>Phone numbers\<close>

definition phone_digit :: "char \<Rightarrow> bool" where
  [go_defs]: "phone_digit c \<longleftrightarrow> 48 \<le> byte c \<and> byte c \<le> 57"

definition normalize_phone :: "string \<Rightarrow> string" where
  "normalize_phone phone = filter phone_digit phone"

definition brazilian_ddds :: "string list" where
  "brazilian_ddds =
    [''11'', ''12'', ''13'', ''14'', ''15'', ''16'', ''17'', ''18'', ''19'', ''21'', ''22'', ''24'',
     ''27'', ''28'', ''31'', ''32'', ''33'', ''34'', ''35'', ''37'', ''38'', ''41'', ''42'', ''43'',
     ''44'', ''45'', ''46'', ''47'', ''48'', ''49'', ''51'', ''53'', ''54'', ''55'', ''61'', ''62'',
     ''63'', ''64'', ''65'', ''66'', ''67'', ''68'', ''69'', ''71'', ''73'', ''74'', ''75'', ''77'',
     ''79'', ''81'', ''82'', ''83'', ''84'', ''85'', ''86'', ''87'', ''88'', ''89'', ''91'', ''92'',
     ''93'', ''94'', ''95'', ''96'', ''97'', ''98'', ''99'']"

text \<open>
  The country code goes in front of a bare Brazilian number: ten digits, or eleven with the
  mobile's 9 after the area code. The list above is searched as text, with a blank on each side
  of the two digits, so membership is the same test.
\<close>

definition canonical_phone :: "string \<Rightarrow> string" where
  "canonical_phone phone =
     (let n = normalize_phone phone in
      if (length n = 10 \<or> length n = 11 \<and> n ! 2 = CHR ''9'')
         \<and> take 2 n \<noteq> ''55'' \<and> take 2 n \<in> set brazilian_ddds
      then ''55'' @ n else n)"

definition brazilian_mobile_alternate :: "string \<Rightarrow> string" where
  "brazilian_mobile_alternate n =
     (if take 2 n \<noteq> ''55'' then ''''
      else if length n = 13 then
        (if n ! 4 = CHR ''9'' then take 4 n @ drop 5 n else '''')
      else if length n = 12 then
        (if byte CHR ''6'' \<le> byte (n ! 4) \<and> byte (n ! 4) \<le> byte CHR ''9''
         then take 4 n @ ''9'' @ drop 4 n else '''')
      else '''')"

definition with_country_code :: "string \<Rightarrow> bool" where
  "with_country_code i \<longleftrightarrow> take 2 i = ''55'' \<and> (length i = 12 \<or> length i = 13)"

definition phone_identities :: "string \<Rightarrow> string list" where
  "phone_identities phone =
     (let normalized = canonical_phone phone;
          alt = brazilian_mobile_alternate normalized;
          ids = normalized # (if alt \<noteq> '''' then [alt] else [])
      in ids @ map (drop 2) (filter with_country_code ids))"

definition phone_match_set :: "string \<Rightarrow> string list" where
  "phone_match_set phone = concat (map (\<lambda>i. [i, ''+'' @ i]) (phone_identities phone))"

subsection \<open>What the spellings promise\<close>

lemma normalize_phone_idem [simp]: "normalize_phone (normalize_phone s) = normalize_phone s"
  by (simp add: normalize_phone_def)

lemma normalize_phone_digits: "\<forall>c \<in> set s. phone_digit c \<Longrightarrow> normalize_phone s = s"
  by (simp add: normalize_phone_def)

lemma set_normalize_phone: "c \<in> set (normalize_phone s) \<Longrightarrow> phone_digit c"
  by (simp add: normalize_phone_def)

lemma normalize_phone_cong: "normalize_phone (s @ t) = normalize_phone s @ normalize_phone t"
  by (simp add: normalize_phone_def)

lemma set_canonical_phone: "c \<in> set (canonical_phone s) \<Longrightarrow> phone_digit c"
  by (auto simp: canonical_phone_def Let_def phone_digit_def split: if_splits
      dest: set_normalize_phone)

text \<open>The canonical form is a fixed point: storing it and looking it up again changes nothing.\<close>

lemma canonical_phone_idem [simp]: "canonical_phone (canonical_phone s) = canonical_phone s"
proof -
  have "normalize_phone (canonical_phone s) = canonical_phone s"
    using set_canonical_phone by (intro normalize_phone_digits) blast
  then show ?thesis
    by (auto simp: canonical_phone_def Let_def split: if_splits)
qed

lemma phone_identities_canonical [simp]:
  "phone_identities (canonical_phone s) = phone_identities s"
  by (simp add: phone_identities_def)

lemma canonical_in_identities [simp]: "canonical_phone s \<in> set (phone_identities s)"
  by (simp add: phone_identities_def Let_def)

lemma identities_digits: "i \<in> set (phone_identities s) \<Longrightarrow> c \<in> set i \<Longrightarrow> phone_digit c"
proof -
  assume i: "i \<in> set (phone_identities s)" and c: "c \<in> set i"
  have alt: "phone_digit d" if "d \<in> set (brazilian_mobile_alternate (canonical_phone s))" for d
    using that set_canonical_phone [of d s]
    by (auto simp: brazilian_mobile_alternate_def phone_digit_def split: if_splits
        dest: in_set_takeD in_set_dropD)
  from i c show "phone_digit c"
    using set_canonical_phone [of c s] alt
    by (auto simp: phone_identities_def Let_def split: if_splits dest: in_set_dropD)
qed


text \<open>Two spellings of one canonical number are among the identities of each other.\<close>

lemma same_canonical_identity:
  assumes "canonical_phone a = canonical_phone b"
  shows "normalize_phone a \<in> set (phone_identities b)"
proof (cases "canonical_phone a = normalize_phone a")
  case True
  then show ?thesis using canonical_in_identities [of b] assms by simp
next
  case False
  then have c: "canonical_phone a = ''55'' @ normalize_phone a"
      "length (normalize_phone a) = 10 \<or> length (normalize_phone a) = 11"
    by (auto simp: canonical_phone_def Let_def split: if_splits)
  then have "with_country_code (canonical_phone b)" "drop 2 (canonical_phone b) = normalize_phone a"
    by (auto simp: with_country_code_def assms [symmetric])
  then show ?thesis
    by (auto simp: phone_identities_def Let_def)
qed

text \<open>The four spellings of a Brazilian mobile: with and without country code, with and without the ninth digit.\<close>

definition mobile_spellings :: "string \<Rightarrow> string \<Rightarrow> string list" where
  "mobile_spellings ddd sub =
    [''55'' @ ddd @ ''9'' @ sub, ''55'' @ ddd @ sub, ddd @ ''9'' @ sub, ddd @ sub]"

definition mobile_subscriber :: "string \<Rightarrow> string \<Rightarrow> bool" where
  "mobile_subscriber ddd sub \<longleftrightarrow>
     ddd \<in> set brazilian_ddds \<and> ddd \<noteq> ''55'' \<and> length sub = 8 \<and> list_all phone_digit sub
     \<and> byte CHR ''6'' \<le> byte (hd sub)"

lemma brazilian_ddds_length: "d \<in> set brazilian_ddds \<Longrightarrow> length d = 2"
proof -
  have "list_all (\<lambda>d. length d = 2) brazilian_ddds" by (simp add: brazilian_ddds_def)
  then show "d \<in> set brazilian_ddds \<Longrightarrow> length d = 2" by (simp add: list_all_iff)
qed

lemma length_8E:
  assumes "length s = 8"
  obtains a b c d e f g h where "s = [a, b, c, d, e, f, g, h]"
  using assms by (auto simp: length_Suc_conv eval_nat_numeral)

lemma length_2E:
  assumes "length s = 2"
  obtains a b where "s = [a, b]"
  using assms by (auto simp: length_Suc_conv eval_nat_numeral)

lemma mobile_spellings_canonical:
  assumes "mobile_subscriber ddd sub" "normalize_phone s \<in> set (mobile_spellings ddd sub)"
  shows "canonical_phone s = ''55'' @ ddd @ ''9'' @ sub \<or> canonical_phone s = ''55'' @ ddd @ sub"
proof -
  obtain a b where d: "ddd = [a, b]"
    using assms(1) by (metis mobile_subscriber_def brazilian_ddds_length length_2E)
  have "length sub = 8" using assms(1) by (simp add: mobile_subscriber_def)
  then show ?thesis
    using assms by (auto simp: mobile_spellings_def canonical_phone_def mobile_subscriber_def d)
qed

lemma one_subscriber_one_identity:
  assumes "mobile_subscriber ddd sub" "normalize_phone s \<in> set (mobile_spellings ddd sub)"
  shows "set (phone_identities s) = set (mobile_spellings ddd sub)"
proof -
  obtain a b where d: "ddd = [a, b]"
    using assms(1) by (metis mobile_subscriber_def brazilian_ddds_length length_2E)
  have len: "length sub = 8" and six: "byte CHR ''6'' \<le> byte (hd sub)"
    and digits: "list_all phone_digit sub"
    using assms(1) by (simp_all add: mobile_subscriber_def)
  obtain x xs where sub: "sub = x # xs" using len by (cases sub) auto
  have x: "byte CHR ''6'' \<le> byte x" "byte x \<le> byte CHR ''9''"
    using six digits by (simp_all add: sub phone_digit_def)
  from mobile_spellings_canonical [OF assms] show ?thesis
    using x len
    by (auto simp: phone_identities_def brazilian_mobile_alternate_def mobile_spellings_def
        with_country_code_def d sub)
qed


section \<open>CPF and CNPJ\<close>

definition digit_of :: "char \<Rightarrow> nat" where
  [go_defs]: "digit_of c = byte c - 48"

definition weighted_sum :: "string \<Rightarrow> nat list \<Rightarrow> nat" where
  "weighted_sum digits weights = sum_list (map2 (\<lambda>c w. digit_of c * w) digits weights)"

definition mod11 :: "string \<Rightarrow> nat list \<Rightarrow> char" where
  "mod11 digits weights =
     (let r = weighted_sum digits weights mod 11 in
      if 2 \<le> r then char_of (48 + 11 - r) else CHR ''0'')"

definition valid_cpf :: "string \<Rightarrow> bool" where
  "valid_cpf c =
     (if length c \<noteq> 11 \<or> count_list c (c ! 0) = 11 then False
      else c ! 9 = mod11 c [10, 9, 8, 7, 6, 5, 4, 3, 2]
           \<and> c ! 10 = mod11 c [11, 10, 9, 8, 7, 6, 5, 4, 3, 2])"

definition valid_cnpj :: "string \<Rightarrow> bool" where
  "valid_cnpj c =
     (if length c \<noteq> 14 \<or> count_list c (c ! 0) = 14 then False
      else c ! 12 = mod11 c [5, 4, 3, 2, 9, 8, 7, 6, 5, 4, 3, 2]
           \<and> c ! 13 = mod11 c [6, 5, 4, 3, 2, 9, 8, 7, 6, 5, 4, 3, 2])"

text \<open>\<^const>\<open>None\<close> is \<open>ErrInvalidDocumento\<close>; the empty document is allowed.\<close>

definition normalize_documento :: "string \<Rightarrow> string option" where
  "normalize_documento raw =
     (let digits = normalize_phone raw in
      if length digits = 0 then Some ''''
      else if length digits = 11 then (if valid_cpf digits then Some digits else None)
      else if length digits = 14 then (if valid_cnpj digits then Some digits else None)
      else None)"

lemma mod11_digit: "phone_digit (mod11 digits weights)"
proof -
  have "phone_digit (char_of (59 - r))" if "2 \<le> r" "r < 11" for r :: nat
  proof -
    have "49 \<le> 59 - r" "59 - r \<le> 57" using that by arith+
    then show ?thesis by (simp add: phone_digit_def byte_char_of)
  qed
  then show ?thesis
    by (simp add: mod11_def Let_def phone_digit_def)
qed

lemma mod11_take: "length ws \<le> n \<Longrightarrow> mod11 (take n digits) ws = mod11 digits ws"
proof -
  assume "length ws \<le> n"
  then have "zip (take n digits) ws = zip digits ws"
    using take_zip [of n digits ws] by simp
  then show ?thesis by (simp add: mod11_def weighted_sum_def)
qed

lemma valid_cpf_digits:
  assumes "valid_cpf c"
  shows "c = take 9 c @ [mod11 (take 9 c) [10, 9, 8, 7, 6, 5, 4, 3, 2],
                         mod11 (take 10 c) [11, 10, 9, 8, 7, 6, 5, 4, 3, 2]]"
    "take 10 c = take 9 c @ [mod11 (take 9 c) [10, 9, 8, 7, 6, 5, 4, 3, 2]]"
proof -
  have len: "length c = 11"
    and nine: "c ! 9 = mod11 (take 9 c) [10, 9, 8, 7, 6, 5, 4, 3, 2]"
    and ten: "c ! 10 = mod11 (take 10 c) [11, 10, 9, 8, 7, 6, 5, 4, 3, 2]"
    using assms by (simp_all add: valid_cpf_def mod11_take split: if_splits)
  show 10: "take 10 c = take 9 c @ [mod11 (take 9 c) [10, 9, 8, 7, 6, 5, 4, 3, 2]]"
    using take_Suc_conv_app_nth [of 9 c] len by (simp add: nine)
  have "c = take 10 c @ [c ! 10]"
    using take_Suc_conv_app_nth [of 10 c] len by simp
  then show "c = take 9 c @ [mod11 (take 9 c) [10, 9, 8, 7, 6, 5, 4, 3, 2],
                         mod11 (take 10 c) [11, 10, 9, 8, 7, 6, 5, 4, 3, 2]]"
    by (metis 10 append_assoc append_Cons append_Nil ten)
qed

text \<open>The last two digits follow from the others: a body of nine digits has at most one CPF.\<close>

lemma cpf_check_digits_unique:
  assumes "valid_cpf c" "valid_cpf d" "take 9 c = take 9 d"
  shows "c = d"
  using valid_cpf_digits [OF assms(1)] valid_cpf_digits [OF assms(2)] assms(3) by metis

text \<open>What is stored is digits only and normalises to itself, so a mask never makes a second document.\<close>

lemma normalize_documento_stable:
  assumes "normalize_documento raw = Some d"
  shows "normalize_documento d = Some d" "d = normalize_phone raw"
  using assms by (auto simp: normalize_documento_def Let_def normalize_phone_def split: if_splits)

lemma normalize_documento_mask:
  assumes "normalize_phone a = normalize_phone b"
  shows "normalize_documento a = normalize_documento b"
  using assms by (simp add: normalize_documento_def)


section \<open>Finding and creating the row of a subscriber\<close>

text \<open>A row of the contacts table; soft-deleted rows stay in it with \<open>row_deleted\<close> set.\<close>

record crow =
  row_id :: string
  row_org :: string
  row_phone :: string
  row_profile :: string
  row_assigned :: "string option"
  row_created :: int
  row_deleted :: bool

text \<open>\<open>idx_contacts_org_phone\<close>: one row per organisation and number, deleted rows included.\<close>

definition phone_index :: "crow list \<Rightarrow> bool" where
  "phone_index rows \<longleftrightarrow> distinct (map (\<lambda>r. (row_org r, row_phone r)) rows)"

definition update_row :: "string \<Rightarrow> (crow \<Rightarrow> crow) \<Rightarrow> crow list \<Rightarrow> crow list" where
  "update_row i f rows = map (\<lambda>r. if row_id r = i then f r else r) rows"

text \<open>\<open>Order("created_at ASC").First\<close>, the primary key deciding between equal times.\<close>

definition older :: "crow \<Rightarrow> crow \<Rightarrow> bool" where
  "older a b \<longleftrightarrow> row_created a < row_created b \<or> row_created a = row_created b \<and> row_id a \<le> row_id b"

fun oldest :: "crow list \<Rightarrow> crow option" where
  "oldest [] = None"
| "oldest (r # rows) =
     (case oldest rows of None \<Rightarrow> Some r | Some s \<Rightarrow> Some (if older r s then r else s))"

definition matches_phone :: "string \<Rightarrow> string \<Rightarrow> crow \<Rightarrow> bool" where
  "matches_phone org phone r \<longleftrightarrow> row_org r = org \<and> row_phone r \<in> set (phone_match_set phone)"

datatype identity_error = RecordNotFound | DatabaseFailed

text \<open>\<open>ok\<close> says whether the database answers the query; a query that fails is an error of its own.\<close>

definition contact_by_phone :: "bool \<Rightarrow> crow list \<Rightarrow> string \<Rightarrow> string \<Rightarrow> identity_error + crow" where
  "contact_by_phone ok rows org phone =
     (if \<not> ok then Inl DatabaseFailed
      else case oldest (filter (matches_phone org phone) rows) of
        None \<Rightarrow> Inl RecordNotFound
      | Some r \<Rightarrow> Inr r)"

definition find_contact_unscoped ::
    "bool \<Rightarrow> crow list \<Rightarrow> string \<Rightarrow> string \<Rightarrow> identity_error + crow" where
  "find_contact_unscoped ok rows org phone = contact_by_phone ok rows org phone"

text \<open>\<open>FindContact\<close> reads live rows only, and answers every error with the same one.\<close>

definition find_contact :: "bool \<Rightarrow> crow list \<Rightarrow> string \<Rightarrow> string \<Rightarrow> identity_error + crow" where
  "find_contact ok rows org phone =
     (if \<not> ok then Inl RecordNotFound
      else case oldest (filter (\<lambda>r. \<not> row_deleted r \<and> matches_phone org phone r) rows) of
        None \<Rightarrow> Inl RecordNotFound
      | Some r \<Rightarrow> Inr r)"

text \<open>
  What the database and the other goroutines do during one call: whether each statement is
  carried out, and the table the second look-up finds when the row could not be inserted.
\<close>

record identity_env =
  read_ok :: bool
  restore_ok :: bool
  profile_ok :: bool
  meanwhile :: "crow list \<Rightarrow> crow list"
  create_ok :: bool
  reread_ok :: bool
  fresh_id :: string
  clock_now :: int

definition restore_row :: "bool \<Rightarrow> crow \<Rightarrow> crow list \<Rightarrow> crow list" where
  "restore_row ok r rows =
     (if row_deleted r \<and> ok then update_row (row_id r) (row_deleted_update (\<lambda>_. False)) rows else rows)"

text \<open>The profile name is written to live rows only: a row whose restore failed keeps its name.\<close>

definition rename_row :: "bool \<Rightarrow> string \<Rightarrow> crow \<Rightarrow> crow list \<Rightarrow> crow list" where
  "rename_row ok name r rows =
     (if name \<noteq> '''' \<and> row_profile r \<noteq> name \<and> ok
      then update_row (row_id r)
             (\<lambda>x. if row_deleted x then x else x\<lparr>row_profile := name\<rparr>) rows
      else rows)"

definition new_row :: "identity_env \<Rightarrow> string \<Rightarrow> string \<Rightarrow> string \<Rightarrow> crow" where
  "new_row env org phone name =
     \<lparr>row_id = fresh_id env, row_org = org, row_phone = canonical_phone phone, row_profile = name,
      row_assigned = None, row_created = clock_now env, row_deleted = False\<rparr>"

definition get_or_create_contact ::
    "identity_env \<Rightarrow> crow list \<Rightarrow> string \<Rightarrow> string \<Rightarrow> string
     \<Rightarrow> (identity_error + crow \<times> bool) \<times> crow list" where
  "get_or_create_contact env rows org phone name =
     (case contact_by_phone (read_ok env) rows org phone of
        Inr r \<Rightarrow>
          (Inr (r\<lparr>row_deleted := False,
                  row_profile := (if name \<noteq> '''' then name else row_profile r)\<rparr>, False),
           rename_row (profile_ok env) name r (restore_row (restore_ok env) r rows))
      | Inl _ \<Rightarrow>
          let rows' = meanwhile env rows; r = new_row env org phone name in
          if create_ok env \<and> phone_index (rows' @ [r]) then (Inr (r, True), rows' @ [r])
          else
            (case contact_by_phone (reread_ok env) rows' org phone of
               Inr raced \<Rightarrow>
                 (Inr (raced\<lparr>row_deleted := False\<rparr>, False), restore_row (restore_ok env) raced rows')
             | Inl _ \<Rightarrow> (Inl DatabaseFailed, rows')))"


subsection \<open>A known subscriber never gets a second row\<close>

lemma older_linear: "older a b \<or> older b a"
  by (auto simp: older_def)

lemma older_trans: "older a b \<Longrightarrow> older b c \<Longrightarrow> older a c"
  by (auto simp: older_def)

lemma older_refl [simp]: "older a a"
  by (simp add: older_def)

lemma oldest_None [simp]: "oldest rows = None \<longleftrightarrow> rows = []"
  by (cases rows) (auto split: option.splits)

lemma oldest_Some: "oldest rows = Some r \<Longrightarrow> r \<in> set rows \<and> (\<forall>s \<in> set rows. older r s)"
proof (induction rows arbitrary: r)
  case (Cons x rows)
  show ?case
  proof (cases "oldest rows")
    case None
    then show ?thesis using Cons.prems by simp
  next
    case (Some s)
    then have "s \<in> set rows" "\<forall>t \<in> set rows. older s t" using Cons.IH by auto
    then show ?thesis
      using Cons.prems Some older_linear [of x s] older_trans [of x s] by (auto split: if_splits)
  qed
qed simp

lemma contact_by_phone_cases:
  "contact_by_phone ok rows org phone = Inr r \<longleftrightarrow>
     ok \<and> oldest (filter (matches_phone org phone) rows) = Some r"
  "contact_by_phone True rows org phone = Inl e \<longleftrightarrow>
     e = RecordNotFound \<and> filter (matches_phone org phone) rows = []"
  by (auto simp: contact_by_phone_def split: option.splits if_splits)

lemma contact_by_phone_found:
  assumes "contact_by_phone ok rows org phone = Inr r"
  shows "r \<in> set rows" "matches_phone org phone r"
    "\<And>s. s \<in> set rows \<Longrightarrow> matches_phone org phone s \<Longrightarrow> older r s"
  using assms oldest_Some [of "filter (matches_phone org phone) rows" r]
  by (auto simp: contact_by_phone_cases(1))

lemma update_row_keys:
  assumes "\<And>r. row_id (f r) = row_id r" "\<And>r. row_org (f r) = row_org r"
    "\<And>r. row_phone (f r) = row_phone r"
  shows "map row_id (update_row i f rows) = map row_id rows"
    "phone_index (update_row i f rows) = phone_index rows"
proof -
  show "map row_id (update_row i f rows) = map row_id rows"
    using assms by (simp add: update_row_def)
  have "map (\<lambda>r. (row_org r, row_phone r)) (update_row i f rows)
      = map (\<lambda>r. (row_org r, row_phone r)) rows"
    using assms by (simp add: update_row_def)
  then show "phone_index (update_row i f rows) = phone_index rows"
    by (simp add: phone_index_def)
qed

lemma restore_row_keys [simp]:
  "map row_id (restore_row ok r rows) = map row_id rows"
  "phone_index (restore_row ok r rows) = phone_index rows"
  by (simp_all add: restore_row_def update_row_keys)

lemma rename_row_keys [simp]:
  "map row_id (rename_row ok name r rows) = map row_id rows"
  "phone_index (rename_row ok name r rows) = phone_index rows"
  by (simp_all add: rename_row_def update_row_keys)

text \<open>The unique index holds after every call, whatever the other goroutines insert under it.\<close>

lemma get_or_create_keeps_index:
  assumes "phone_index rows" "phone_index (meanwhile env rows)"
  shows "phone_index (snd (get_or_create_contact env rows org phone name))"
  using assms by (auto simp: get_or_create_contact_def Let_def split: sum.splits)

lemma known_subscriber_keeps_one_row:
  assumes "read_ok env" "s \<in> set rows" "matches_phone org phone s"
  shows "\<exists>r. fst (get_or_create_contact env rows org phone name) = Inr (r, False)
    \<and> row_id r \<in> row_id ` set rows \<and> \<not> row_deleted r
    \<and> older r s
    \<and> map row_id (snd (get_or_create_contact env rows org phone name)) = map row_id rows"
proof -
  have "filter (matches_phone org phone) rows \<noteq> []"
    using assms(2,3) by (auto simp: filter_empty_conv)
  then obtain r where r: "contact_by_phone (read_ok env) rows org phone = Inr r"
    using assms(1) by (cases "oldest (filter (matches_phone org phone) rows)")
      (auto simp: contact_by_phone_def)
  moreover have "older (r\<lparr>row_deleted := False,
      row_profile := (if name \<noteq> '''' then name else row_profile r)\<rparr>) s"
    using contact_by_phone_found(3) [OF r assms(2,3)] by (simp add: older_def)
  ultimately show ?thesis
    using contact_by_phone_found(1) [OF r] by (simp add: get_or_create_contact_def)
qed

text \<open>A row is created only when no stored spelling matched, and then under the canonical number.\<close>

lemma created_contact_is_new:
  assumes "get_or_create_contact env rows org phone name = (Inr (r, True), rows')" "read_ok env"
  shows "\<forall>s \<in> set rows. \<not> matches_phone org phone s" "row_phone r = canonical_phone phone"
    "rows' = meanwhile env rows @ [r]" "phone_index rows'"
  using assms
  by (auto simp: get_or_create_contact_def Let_def new_row_def contact_by_phone_cases
      filter_empty_conv split: sum.splits if_splits)


subsection \<open>A Brazilian mobile over a sequence of calls\<close>

record identity_call =
  call_env :: identity_env
  call_phone :: string
  call_name :: string

fun serve_calls :: "string \<Rightarrow> identity_call list \<Rightarrow> crow list \<Rightarrow> crow list" where
  "serve_calls org [] rows = rows"
| "serve_calls org (c # cs) rows =
     serve_calls org cs
       (snd (get_or_create_contact (call_env c) rows org (call_phone c) (call_name c)))"

text \<open>The reads succeed and no other goroutine writes between the look-up and the insert.\<close>

definition undisturbed :: "identity_env \<Rightarrow> bool" where
  "undisturbed env \<longleftrightarrow> read_ok env \<and> meanwhile env = (\<lambda>rows. rows)"

text \<open>Stored numbers are digits, with or without the legacy plus sign.\<close>

definition stored_plainly :: "crow \<Rightarrow> bool" where
  "stored_plainly r \<longleftrightarrow>
     row_phone r = normalize_phone (row_phone r) \<or> row_phone r = ''+'' @ normalize_phone (row_phone r)"

definition rows_of_mobile :: "string \<Rightarrow> string \<Rightarrow> string \<Rightarrow> crow list \<Rightarrow> crow list" where
  "rows_of_mobile org ddd sub rows =
     filter (\<lambda>r. row_org r = org \<and> normalize_phone (row_phone r) \<in> set (mobile_spellings ddd sub)) rows"

lemma normalize_canonical [simp]: "normalize_phone (canonical_phone s) = canonical_phone s"
  using set_canonical_phone by (intro normalize_phone_digits) blast

lemma new_row_stored_plainly: "stored_plainly (new_row env org phone name)"
  by (simp add: stored_plainly_def new_row_def)

lemma stored_spelling_matches:
  assumes "mobile_subscriber ddd sub" "normalize_phone phone \<in> set (mobile_spellings ddd sub)"
    and "stored_plainly r" "row_org r = org"
    and "normalize_phone (row_phone r) \<in> set (mobile_spellings ddd sub)"
  shows "matches_phone org phone r"
proof -
  have "normalize_phone (row_phone r) \<in> set (phone_identities phone)"
    using one_subscriber_one_identity [OF assms(1,2)] assms(5) by blast
  then have "row_phone r \<in> set (phone_match_set phone)"
    using assms(3) unfolding stored_plainly_def phone_match_set_def by auto
  then show ?thesis using assms(4) by (simp add: matches_phone_def)
qed

lemma update_row_mobile:
  assumes "\<And>r. row_org (f r) = row_org r" "\<And>r. row_phone (f r) = row_phone r"
  shows "length (rows_of_mobile org ddd sub (update_row i f rows)) = length (rows_of_mobile org ddd sub rows)"
    "list_all stored_plainly rows \<Longrightarrow> list_all stored_plainly (update_row i f rows)"
  using assms by (induction rows) (auto simp: rows_of_mobile_def update_row_def stored_plainly_def)

lemma restore_rename_mobile [simp]:
  "length (rows_of_mobile org ddd sub (restore_row ok r rows)) = length (rows_of_mobile org ddd sub rows)"
  "length (rows_of_mobile org ddd sub (rename_row ok name r rows)) = length (rows_of_mobile org ddd sub rows)"
  "list_all stored_plainly rows \<Longrightarrow> list_all stored_plainly (restore_row ok r rows)"
  "list_all stored_plainly rows \<Longrightarrow> list_all stored_plainly (rename_row ok name r rows)"
  by (simp_all add: restore_row_def rename_row_def update_row_mobile)

text \<open>A canonical number spells the mobile only when the number it came from did.\<close>

lemma spelling_of_canonical:
  assumes "mobile_subscriber ddd sub" "canonical_phone s \<in> set (mobile_spellings ddd sub)"
  shows "normalize_phone s \<in> set (mobile_spellings ddd sub)"
proof -
  have "length ddd = 2" "length sub = 8"
    using assms(1) by (simp_all add: mobile_subscriber_def brazilian_ddds_length)
  then show ?thesis
    using assms(2)
    by (auto simp: canonical_phone_def Let_def mobile_spellings_def split: if_splits
        dest: arg_cong [where f = length])
qed

lemma call_keeps_one_mobile_row:
  assumes "mobile_subscriber ddd sub" "undisturbed env"
    and "list_all stored_plainly rows" "length (rows_of_mobile org ddd sub rows) \<le> 1"
  shows "list_all stored_plainly (snd (get_or_create_contact env rows org' phone name))"
    "length (rows_of_mobile org ddd sub (snd (get_or_create_contact env rows org' phone name))) \<le> 1"
proof -
  have "rows_of_mobile org ddd sub rows = []"
    if none: "\<forall>r \<in> set rows. \<not> matches_phone org phone r"
      and is_mobile: "canonical_phone phone \<in> set (mobile_spellings ddd sub)"
  proof -
    have "normalize_phone phone \<in> set (mobile_spellings ddd sub)"
      by (rule spelling_of_canonical [OF assms(1) is_mobile])
    then show ?thesis
      using none stored_spelling_matches [OF assms(1)] assms(3)
      by (auto simp: rows_of_mobile_def filter_empty_conv list_all_iff)
  qed
  then have fresh: "length (rows_of_mobile org ddd sub (rows @ [new_row env org' phone name])) \<le> 1"
    if "\<forall>r \<in> set rows. \<not> matches_phone org' phone r"
    using that assms(4) by (auto simp: rows_of_mobile_def new_row_def)
  show "length (rows_of_mobile org ddd sub (snd (get_or_create_contact env rows org' phone name))) \<le> 1"
    using assms(2,4) fresh
    by (auto simp: get_or_create_contact_def Let_def undisturbed_def contact_by_phone_cases
        filter_empty_conv split: sum.splits)
  show "list_all stored_plainly (snd (get_or_create_contact env rows org' phone name))"
    using assms(2,3) new_row_stored_plainly
    by (auto simp: get_or_create_contact_def Let_def undisturbed_def split: sum.splits)
qed



subsection \<open>Where the identities reach too far, and where a call can split a subscriber\<close>

text \<open>
  Dropping the ninth digit does not look at the digit behind it.  A mobile of the range 9 3xxx has
  the landline 3xxx of the same city among its identities, so the two are one contact.
\<close>

lemma mobile_and_landline_share_an_identity:
  "''551131234567'' \<in> set (phone_identities ''5511931234567'')"
  "''5511931234567'' \<notin> set (phone_identities ''551131234567'')"
  by code_simp+

text \<open>
  A failed look-up is taken for ``no such contact''.  With the mobile stored in one spelling and
  asked for in the other, the unique index does not object and the subscriber gets a second row.
\<close>

definition first_row :: crow where
  "first_row = \<lparr>row_id = ''a'', row_org = ''o'', row_phone = ''5571991234567'', row_profile = ''Ana'',
     row_assigned = Some ''u'', row_created = 1, row_deleted = False\<rparr>"

definition calm_env :: identity_env where
  "calm_env = \<lparr>read_ok = True, restore_ok = True, profile_ok = True, meanwhile = (\<lambda>rows. rows),
     create_ok = True, reread_ok = True, fresh_id = ''b'', clock_now = 2\<rparr>"

lemma failed_read_splits_the_subscriber:
  "matches_phone ''o'' ''557191234567'' first_row"
  "length (snd (get_or_create_contact (calm_env\<lparr>read_ok := False\<rparr>) [first_row] ''o'' ''557191234567'' ''Ana'')) = 2"
  by code_simp+

text \<open>
  The same split without any failure: the canonical form keeps the number of digits it was given,
  so two goroutines that create the two spellings at once do not collide on the index.
\<close>

lemma racing_spellings_split_the_subscriber:
  "length (snd (get_or_create_contact (calm_env\<lparr>meanwhile := (\<lambda>rows. rows @ [first_row])\<rparr>)
      [] ''o'' ''557191234567'' ''Ana'')) = 2"
  by code_simp

text \<open>
  A mobile of area code 55, stored in full and then typed without the country code: \<open>CanonicalPhone\<close> leaves a
  number that starts with 55 alone, so the second spelling has no identity but itself.
\<close>

lemma ddd_55_is_split:
  "length (serve_calls ''o''
     [\<lparr>call_env = calm_env, call_phone = ''5555991234567'', call_name = ''Ana''\<rparr>,
      \<lparr>call_env = calm_env, call_phone = ''55991234567'', call_name = ''Ana''\<rparr>] []) = 2"
  by code_simp


lemma one_subscriber_one_identity_witness:
  "set (phone_identities ''+55 (71) 9123-4567'') = set (mobile_spellings ''71'' ''91234567'')"
proof (rule one_subscriber_one_identity)
  show "mobile_subscriber ''71'' ''91234567''" by code_simp
  show "normalize_phone ''+55 (71) 9123-4567'' \<in> set (mobile_spellings ''71'' ''91234567'')"
    by code_simp
qed

end
