(* ===== verification/Contact_Merge.thy ===== *)
theory Contact_Merge
  imports Contact_Identity
begin

text \<open>
  The merge of duplicate contacts (\<open>internal/contactutil/merge.go\<close>): the union-find over the
  contacts that share a phone identity, the groups read off it, and the transaction that folds a
  group into its oldest row.  The grouping is proved to be the connected components of the
  relation ``shares an identity'', and the fold to leave one live row per subscriber with every
  child row pointing at it.
\<close>

section \<open>The union-find of the merge\<close>

text \<open>
  \<open>find\<close> with path halving: the parent of \<open>i\<close> becomes its grandparent and the search goes on
  there.  \<^const>\<open>None\<close> stands for an index out of range and for a search that never ends; neither
  happens (\<open>find_root_total\<close> below).
\<close>

partial_function (option) find_root :: "nat list \<Rightarrow> nat \<Rightarrow> (nat list \<times> nat) option" where
  "find_root p i =
     (if length p \<le> i \<or> length p \<le> p ! i then None
      else if p ! i = i then Some (p, i)
      else find_root (p[i := p ! (p ! i)]) (p ! (p ! i)))"

declare find_root.simps [code]

text \<open>The smaller index, the older contact, stays the root.\<close>

definition link_roots :: "nat list \<Rightarrow> nat \<Rightarrow> nat \<Rightarrow> nat list" where
  "link_roots p ri rj = (if ri < rj then p[rj := ri] else p[ri := rj])"

type_synonym union_state = "nat list \<times> (string \<rightharpoonup> nat)"

definition join_identity :: "nat \<Rightarrow> string \<Rightarrow> union_state \<Rightarrow> union_state option" where
  "join_identity i ident st =
     (case st of (p, owner) \<Rightarrow>
        case owner ident of
          None \<Rightarrow> Some (p, owner(ident \<mapsto> i))
        | Some j \<Rightarrow>
            (case find_root p i of
               None \<Rightarrow> None
             | Some (p1, ri) \<Rightarrow>
                 (case find_root p1 j of
                    None \<Rightarrow> None
                  | Some (p2, rj) \<Rightarrow>
                      Some (if ri \<noteq> rj then link_roots p2 ri rj else p2, owner))))"

fun join_identities :: "nat \<Rightarrow> string list \<Rightarrow> union_state \<Rightarrow> union_state option" where
  "join_identities i [] st = Some st"
| "join_identities i (ident # idents) st =
     (case join_identity i ident st of None \<Rightarrow> None | Some st' \<Rightarrow> join_identities i idents st')"

fun join_contacts :: "nat \<Rightarrow> string list \<Rightarrow> union_state \<Rightarrow> union_state option" where
  "join_contacts i [] st = Some st"
| "join_contacts i (phone # phones) st =
     (case join_identities i (phone_identities phone) st of
        None \<Rightarrow> None
      | Some st' \<Rightarrow> join_contacts (Suc i) phones st')"

text \<open>The second pass: \<open>groups[find(i)] = append(groups[find(i)], i)\<close> for every contact in turn.\<close>

fun collect_groups :: "nat list \<Rightarrow> nat list \<Rightarrow> (nat \<Rightarrow> nat list) \<Rightarrow> (nat \<Rightarrow> nat list) option" where
  "collect_groups p [] groups = Some groups"
| "collect_groups p (i # is) groups =
     (case find_root p i of
        None \<Rightarrow> None
      | Some (p', r) \<Rightarrow> collect_groups p' is (groups(r := groups r @ [i])))"

text \<open>
  The groups of more than one contact, in the order of their roots (\<open>sort.Ints\<close>): the keys of
  the map are indices of \<open>phones\<close>.
\<close>

definition duplicate_groups :: "string list \<Rightarrow> nat list list option" where
  "duplicate_groups phones =
     (let n = length phones in
      case join_contacts 0 phones ([0..<n], \<lambda>_. None) of
        None \<Rightarrow> None
      | Some (p, _) \<Rightarrow>
          (case collect_groups p [0..<n] (\<lambda>_. []) of
             None \<Rightarrow> None
           | Some groups \<Rightarrow> Some (filter (\<lambda>m. 1 < length m) (map groups [0..<n]))))"

subsection \<open>The forest\<close>

definition forest :: "nat list \<Rightarrow> bool" where
  "forest p \<longleftrightarrow> (\<forall>i < length p. p ! i \<le> i)"

text \<open>The reference: follow the parents until they stop going down.\<close>

function root_of :: "nat list \<Rightarrow> nat \<Rightarrow> nat" where
  "root_of p i = (if i < length p \<and> p ! i < i then root_of p (p ! i) else i)"
  by auto
termination by (relation "measure snd") auto

declare root_of.simps [simp del]

lemma forestD: "forest p \<Longrightarrow> i < length p \<Longrightarrow> p ! i \<le> i"
  by (simp add: forest_def)

lemma root_of_le: "root_of p i \<le> i"
  by (induction p i rule: root_of.induct) (subst root_of.simps, auto)

lemma root_of_parent: "forest p \<Longrightarrow> i < length p \<Longrightarrow> root_of p (p ! i) = root_of p i"
  by (metis forestD le_neq_implies_less root_of.simps)

lemma root_of_root: "root_of p (root_of p i) = root_of p i"
proof (induction p i rule: root_of.induct)
  case (1 p i)
  show ?case
  proof (cases "i < length p \<and> p ! i < i")
    case True
    then have "root_of p i = root_of p (p ! i)" by (subst root_of.simps) simp
    then show ?thesis using 1 True by simp
  next
    case False
    then have "root_of p i = i" by (subst root_of.simps) (rule if_not_P)
    then show ?thesis by simp
  qed
qed

lemma root_of_fixed: "p ! i = i \<Longrightarrow> root_of p i = i"
  by (simp add: root_of.simps)

lemma root_of_self: "forest p \<Longrightarrow> i < length p \<Longrightarrow> root_of p i = i \<longleftrightarrow> p ! i = i"
  by (metis forestD le_neq_implies_less linorder_not_less root_of.simps root_of_le)

text \<open>Changing a parent to another node of the same tree further down changes no root.\<close>

lemma root_of_update:
  assumes "forest p" "i < length p" "j \<le> i" "root_of p j = root_of p i" "j = i \<longleftrightarrow> p ! i = i"
  shows "root_of (p[i := j]) k = root_of p k"
proof (induction k rule: less_induct)
  case (less k)
  show ?case
  proof (cases "k = i \<and> p ! i \<noteq> i")
    case True
    then have "root_of (p[i := j]) k = root_of (p[i := j]) j"
      using assms root_of.simps [of "p[i := j]" k] by simp
    also have "\<dots> = root_of p j" using less.IH [of j] True assms(3,5) by simp
    finally show ?thesis using True assms(4) by simp
  next
    case False
    show ?thesis
    proof (cases "k = i")
      case True
      then show ?thesis using False assms by (simp add: root_of.simps)
    next
      case False
      then have "p[i := j] ! k = p ! k" by simp
      then show ?thesis
        using less.IH [of "p ! k"] by (simp add: root_of.simps [of _ k])
    qed
  qed
qed

lemma forest_update: "forest p \<Longrightarrow> j \<le> i \<Longrightarrow> forest (p[i := j])"
  unfolding forest_def by (metis length_list_update nth_list_update_eq nth_list_update_neq)

text \<open>
  \<open>find\<close> ends on every forest, returns the root, and halves the path without changing what any
  node is rooted at.
\<close>

lemma find_root_total:
  assumes "forest p" "i < length p"
  shows "\<exists>p'. find_root p i = Some (p', root_of p i) \<and> forest p' \<and> length p' = length p
    \<and> root_of p' = root_of p"
  using assms
proof (induction i arbitrary: p rule: less_induct)
  case (less i)
  have down: "p ! i \<le> i" by (rule forestD [OF less.prems])
  show ?case
  proof (cases "p ! i = i")
    case True
    then show ?thesis
      using less.prems by (subst find_root.simps) (simp add: root_of_fixed)
  next
    case False
    define g where "g = p ! (p ! i)"
    let ?q = "p[i := g]"
    have lt: "p ! i < i" using down False by simp
    then have g: "g \<le> p ! i" "g < i"
      using forestD [OF less.prems(1), of "p ! i"] less.prems(2) by (auto simp: g_def)
    have root: "root_of p g = root_of p i"
      unfolding g_def using root_of_parent [OF less.prems(1)] lt less.prems(2)
      by (metis order.strict_trans)
    have q: "forest ?q" "length ?q = length p" "root_of ?q = root_of p"
      using forest_update [OF less.prems(1)] root_of_update [OF less.prems(1,2), of g] g root False
      by auto
    obtain p' where "find_root ?q g = Some (p', root_of ?q g)" "forest p'" "length p' = length ?q"
      "root_of p' = root_of ?q"
      using less.IH [OF g(2) q(1)] g(2) less.prems(2) by auto
    moreover have "find_root p i = find_root ?q g"
      using less.prems(2) lt False by (subst find_root.simps) (simp add: g_def)
    ultimately show ?thesis using q root by auto
  qed
qed

lemma link_roots_root:
  assumes "forest p" "ri < length p" "rj < length p" "root_of p ri = ri" "root_of p rj = rj" "ri \<noteq> rj"
  shows "forest (link_roots p ri rj)" "length (link_roots p ri rj) = length p"
    "root_of (link_roots p ri rj) k =
       (if root_of p k = max ri rj then min ri rj else root_of p k)"
proof -
  define hi lo where "hi = max ri rj" and "lo = min ri rj"
  have link: "link_roots p ri rj = p[hi := lo]"
    using assms(6) by (auto simp: link_roots_def hi_def lo_def max_def min_def)
  have hl: "hi < length p" "lo < hi" "root_of p hi = hi" "root_of p lo = lo"
    using assms by (auto simp: hi_def lo_def max_def min_def)
  show "forest (link_roots p ri rj)" "length (link_roots p ri rj) = length p"
    using forest_update [OF assms(1)] hl by (auto simp: link)
  have lo_root: "root_of (p[hi := lo]) k = root_of p k" if "k < hi" for k
    using that
  proof (induction k rule: less_induct)
    case (less k)
    show ?case
      using less.IH [of "p ! k"] less.prems by (simp add: root_of.simps [of _ k])
  qed
  have "root_of (p[hi := lo]) k = (if root_of p k = hi then lo else root_of p k)"
  proof (induction k rule: less_induct)
    case (less k)
    show ?case
    proof (cases "k = hi")
      case True
      have "root_of (p[hi := lo]) hi = root_of (p[hi := lo]) lo"
        using hl by (subst root_of.simps) simp
      then show ?thesis using True hl lo_root [OF hl(2)] by simp
    next
      case False
      show ?thesis
      proof (cases "k < length p \<and> p ! k < k")
        case True
        then show ?thesis
          using less.IH [of "p ! k"] False by (simp add: root_of.simps [of _ k])
      next
        case out: False
        then have "root_of p k = k" "root_of (p[hi := lo]) k = k"
          using False by (subst root_of.simps, auto)+
        then show ?thesis using False by simp
      qed
    qed
  qed
  then show "root_of (link_roots p ri rj) k =
       (if root_of p k = max ri rj then min ri rj else root_of p k)"
    by (simp add: link hi_def lo_def)
qed

subsection \<open>The groups are the connected components\<close>

text \<open>
  \<open>ev\<close> is the set of pairs (contact, identity) the loop has seen; two contacts are linked when
  they have an identity in common.
\<close>

definition linked :: "(nat \<times> string) set \<Rightarrow> (nat \<times> nat) set" where
  "linked ev = {(i, j). \<exists>ident. (i, ident) \<in> ev \<and> (j, ident) \<in> ev}"

lemma linked_sym: "sym (linked ev)"
  by (auto simp: linked_def sym_def)

lemma linked_mono: "ev \<subseteq> ev' \<Longrightarrow> linked ev \<subseteq> linked ev'"
  by (auto simp: linked_def)

definition union_inv :: "nat \<Rightarrow> (nat \<times> string) set \<Rightarrow> union_state \<Rightarrow> bool" where
  "union_inv n ev st \<longleftrightarrow>
     (case st of (p, owner) \<Rightarrow>
        forest p \<and> length p = n \<and> (\<forall>(i, ident) \<in> ev. i < n)
        \<and> (\<forall>ident j. owner ident = Some j \<longrightarrow> (j, ident) \<in> ev)
        \<and> (\<forall>(i, ident) \<in> ev. \<exists>j. owner ident = Some j \<and> root_of p j = root_of p i)
        \<and> (\<forall>i j. root_of p i = root_of p j \<longrightarrow> (i, j) \<in> (linked ev)\<^sup>*))"

lemma union_inv_start: "union_inv n {} ([0..<n], \<lambda>_. None)"
proof -
  have "root_of [0..<n] i = i" for i
    by (cases "i < n") (simp_all add: root_of.simps [of _ i])
  then show ?thesis by (simp add: union_inv_def forest_def)
qed

lemma join_identity_inv:
  assumes "union_inv n ev st" "i < n"
  shows "\<exists>st'. join_identity i ident st = Some st' \<and> union_inv n (insert (i, ident) ev) st'"
proof -
  obtain p owner where st: "st = (p, owner)" by (cases st)
  let ?ev = "insert (i, ident) ev"
  have p: "forest p" "length p = n" and below: "\<forall>(i, ident) \<in> ev. i < n"
    and own: "\<And>t j. owner t = Some j \<Longrightarrow> (j, t) \<in> ev"
    and all: "\<forall>(i, t) \<in> ev. \<exists>j. owner t = Some j \<and> root_of p j = root_of p i"
    and sound: "\<And>i j. root_of p i = root_of p j \<Longrightarrow> (i, j) \<in> (linked ev)\<^sup>*"
    using assms(1) by (auto simp: union_inv_def st)
  have grow: "(linked ev)\<^sup>* \<subseteq> (linked ?ev)\<^sup>*" by (intro rtrancl_mono linked_mono) auto
  show ?thesis
  proof (cases "owner ident")
    case None
    then have none: "\<And>j. (j, ident) \<notin> ev" using all by fastforce
    have "union_inv n ?ev (p, owner(ident \<mapsto> i))"
      using p below own all none sound grow assms(2) by (auto simp: union_inv_def)
    then show ?thesis by (simp add: st join_identity_def None)
  next
    case (Some j)
    then have j: "(j, ident) \<in> ev" "j < n" using own [OF Some] below by auto
    obtain p1 where p1: "find_root p i = Some (p1, root_of p i)" "forest p1" "length p1 = n" "root_of p1 = root_of p"
      using find_root_total [OF p(1)] p(2) assms(2) by auto
    obtain p2 where p2: "find_root p1 j = Some (p2, root_of p j)" "forest p2" "length p2 = n" "root_of p2 = root_of p"
      using find_root_total [OF p1(2), of j] p1(3,4) j(2) by auto
    let ?ri = "root_of p i" and ?rj = "root_of p j"
    let ?q = "if ?ri \<noteq> ?rj then link_roots p2 ?ri ?rj else p2"
    have bound: "?ri < n" "?rj < n"
      using root_of_le [of p i] root_of_le [of p j] assms(2) j(2) by auto
    have q: "forest ?q" "length ?q = n"
      and root_q: "\<And>k. root_of ?q k = (if ?ri \<noteq> ?rj \<and> root_of p k = max ?ri ?rj then min ?ri ?rj else root_of p k)"
      using link_roots_root [of p2 ?ri ?rj] p2 bound root_of_root by auto
    have same: "root_of ?q i = root_of ?q j" by (auto simp: root_q max_def min_def)
    have step: "(i, j) \<in> (linked ?ev)\<^sup>*" "(j, i) \<in> (linked ?ev)\<^sup>*"
      using j(1) by (auto simp: linked_def intro!: r_into_rtrancl)
    have "(a, b) \<in> (linked ?ev)\<^sup>*" if "root_of ?q a = root_of ?q b" for a b
    proof -
      have old: "root_of p a = root_of p b \<or> root_of p a = ?ri \<and> root_of p b = ?rj
          \<or> root_of p a = ?rj \<and> root_of p b = ?ri"
        using that by (auto simp: root_q max_def min_def split: if_splits)
      have via: "(x, y) \<in> (linked ?ev)\<^sup>*" if "root_of p x = root_of p y" for x y
        using sound [OF that] grow by blast
      from old show ?thesis
        using via [of a b] via [of a i] via [of j b] via [of a j] via [of i b] step
        by (metis rtrancl_trans)
    qed
    moreover have "\<forall>(k, t) \<in> ?ev. \<exists>m. owner t = Some m \<and> root_of ?q m = root_of ?q k"
    proof -
      have "\<exists>m. owner t = Some m \<and> root_of ?q m = root_of ?q k" if kt: "(k, t) \<in> ev" for k t
      proof -
        obtain m where "owner t = Some m" "root_of p m = root_of p k" using all kt by fastforce
        then show ?thesis by (simp add: root_q)
      qed
      then show ?thesis using same Some by auto
    qed
    ultimately have "union_inv n ?ev (?q, owner)"
      using q below own assms(2) unfolding union_inv_def by fastforce
    then show ?thesis by (simp add: st join_identity_def Some p1(1) p2(1))
  qed
qed


definition seen :: "nat \<Rightarrow> string list \<Rightarrow> (nat \<times> string) set" where
  "seen i phones = {(i + k, ident) | k ident. k < length phones \<and> ident \<in> set (phone_identities (phones ! k))}"

lemma seen_Cons: "seen i (phone # phones) = Pair i ` set (phone_identities phone) \<union> seen (Suc i) phones"
proof -
  have "(a, t) \<in> seen i (phone # phones)
      \<longleftrightarrow> (a, t) \<in> Pair i ` set (phone_identities phone) \<union> seen (Suc i) phones" for a t
  proof -
    have "(a, t) \<in> seen i (phone # phones)
        \<longleftrightarrow> (\<exists>k. a = i + k \<and> k < Suc (length phones) \<and> t \<in> set (phone_identities ((phone # phones) ! k)))"
      by (auto simp: seen_def)
    also have "\<dots> \<longleftrightarrow> a = i \<and> t \<in> set (phone_identities phone)
        \<or> (\<exists>k. a = i + Suc k \<and> k < length phones \<and> t \<in> set (phone_identities (phones ! k)))"
      using less_Suc_eq_0_disj by auto
    also have "\<dots> \<longleftrightarrow> (a, t) \<in> Pair i ` set (phone_identities phone) \<union> seen (Suc i) phones"
      by (auto simp: seen_def)
    finally show ?thesis .
  qed
  then show ?thesis by (intro set_eqI) (metis surj_pair)
qed

lemma join_identities_inv:
  "union_inv n ev st \<Longrightarrow> i < n \<Longrightarrow>
   \<exists>st'. join_identities i idents st = Some st' \<and> union_inv n (Pair i ` set idents \<union> ev) st'"
proof (induction idents arbitrary: ev st)
  case (Cons t idents)
  obtain st1 where 1: "join_identity i t st = Some st1" "union_inv n (insert (i, t) ev) st1"
    using join_identity_inv [OF Cons.prems] by blast
  show ?case using Cons.IH [OF 1(2) Cons.prems(2)] 1(1) by simp
qed simp

lemma join_contacts_inv:
  "union_inv n ev st \<Longrightarrow> i + length phones \<le> n \<Longrightarrow>
   \<exists>st'. join_contacts i phones st = Some st' \<and> union_inv n (seen i phones \<union> ev) st'"
proof (induction phones arbitrary: i ev st)
  case Nil
  then show ?case by (simp add: seen_def)
next
  case (Cons phone phones)
  have "i < n" using Cons.prems(2) by simp
  then obtain st1 where 1: "join_identities i (phone_identities phone) st = Some st1"
      "union_inv n (Pair i ` set (phone_identities phone) \<union> ev) st1"
    using join_identities_inv [OF Cons.prems(1)] by blast
  show ?case using Cons.IH [OF 1(2), of "Suc i"] Cons.prems(2) 1(1) by (simp add: seen_Cons ac_simps)
qed

lemma collect_groups_total:
  "forest p \<Longrightarrow> list_all (\<lambda>i. i < length p) is \<Longrightarrow>
   \<exists>gs. collect_groups p is groups = Some gs
     \<and> (\<forall>r. gs r = groups r @ filter (\<lambda>i. root_of p i = r) is)"
proof (induction "is" arbitrary: p groups)
  case (Cons i "is")
  obtain p' where p': "find_root p i = Some (p', root_of p i)" "forest p'" "length p' = length p"
      "root_of p' = root_of p"
    using find_root_total [OF Cons.prems(1), of i] Cons.prems(2) by auto
  have "list_all (\<lambda>i. i < length p') is" using Cons.prems(2) p'(3) by simp
  then obtain gs where gs: "collect_groups p' is (groups(root_of p i := groups (root_of p i) @ [i])) = Some gs"
      "\<forall>r. gs r = (groups(root_of p i := groups (root_of p i) @ [i])) r @ filter (\<lambda>i. root_of p' i = r) is"
    using Cons.IH [OF p'(2)] by blast
  then show ?case
    by (intro exI [of _ gs]) (auto simp: p'(1,4))
qed simp

text \<open>Two contacts are the same subscriber when a chain of shared identities leads from one to the other.\<close>

definition share :: "string list \<Rightarrow> (nat \<times> nat) set" where
  "share phones = {(i, j). i < length phones \<and> j < length phones
     \<and> set (phone_identities (phones ! i)) \<inter> set (phone_identities (phones ! j)) \<noteq> {}}"

definition component :: "string list \<Rightarrow> nat \<Rightarrow> nat list" where
  "component phones r = filter (\<lambda>j. (r, j) \<in> (share phones)\<^sup>*) [0..<length phones]"

lemma linked_seen: "linked (seen 0 phones) = share phones"
  by (auto simp: linked_def seen_def share_def)

lemma union_inv_components:
  assumes "union_inv n ev (p, owner)"
  shows "root_of p i = root_of p j \<longleftrightarrow> (i, j) \<in> (linked ev)\<^sup>*"
proof
  show "root_of p i = root_of p j \<Longrightarrow> (i, j) \<in> (linked ev)\<^sup>*"
    using assms by (simp add: union_inv_def)
  assume "(i, j) \<in> (linked ev)\<^sup>*"
  then show "root_of p i = root_of p j"
  proof induction
    case (step y z)
    then obtain t where t: "(y, t) \<in> ev" "(z, t) \<in> ev" by (auto simp: linked_def)
    have all: "\<forall>(i, t) \<in> ev. \<exists>j. owner t = Some j \<and> root_of p j = root_of p i"
      using assms by (simp add: union_inv_def)
    have "root_of p y = root_of p z"
      using bspec [OF all t(1)] bspec [OF all t(2)] by auto
    then show ?case using step.IH by simp
  qed simp
qed

lemma hd_filter_upt:
  assumes "r < n" "P r" "\<And>i. i < n \<Longrightarrow> P i \<Longrightarrow> r \<le> i"
  shows "hd (filter P [0..<n]) = r"
proof -
  let ?xs = "filter P [0..<n]"
  have r: "r \<in> set ?xs" using assms(1,2) by simp
  then obtain x xs where xs: "?xs = x # xs" by (cases ?xs) auto
  have "sorted ?xs" by (simp add: sorted_wrt_filter)
  then have "x \<le> r" using r xs by auto
  moreover have "x \<in> set ?xs" by (simp add: xs)
  then have "r \<le> x" using assms(3) [of x] by auto
  ultimately show ?thesis by (simp add: xs)
qed

text \<open>C32 (equivalence). The union-find of the merge computes what its comment says: the groups are
  exactly the connected components, with more than one contact, of the relation ``shares a phone
  identity''; each is listed from its oldest contact on, and the search always ends.\<close>

theorem merge_groups_are_components:
  "duplicate_groups phones =
     Some (filter (\<lambda>g. 1 < length g)
       (map (component phones)
         (filter (\<lambda>r. hd (component phones r) = r) [0..<length phones])))"
proof -
  let ?n = "length phones"
  obtain p owner where st: "join_contacts 0 phones ([0..<?n], \<lambda>_. None) = Some (p, owner)"
      "union_inv ?n (seen 0 phones) (p, owner)"
    using join_contacts_inv [OF union_inv_start, of 0 phones ?n] by auto
  then have p: "forest p" "length p = ?n" by (auto simp: union_inv_def)
  have comp: "root_of p i = root_of p j \<longleftrightarrow> (i, j) \<in> (share phones)\<^sup>*" for i j
    using union_inv_components [OF st(2)] by (simp add: linked_seen)
  obtain gs where gs: "collect_groups p [0..<?n] (\<lambda>_. []) = Some gs"
      "\<And>r. gs r = filter (\<lambda>i. root_of p i = r) [0..<?n]"
    using collect_groups_total [OF p(1), of "[0..<?n]" "\<lambda>_. []"] p(2) by (auto simp: list_all_iff)
  have member: "component phones r = filter (\<lambda>j. root_of p j = root_of p r) [0..<?n]" for r
    by (simp add: component_def comp [symmetric]) (metis)
  have head: "hd (component phones r) = root_of p r" if "r < ?n" for r
    unfolding member
    by (rule hd_filter_upt)
      (use that root_of_le [of p] root_of_root [of p r] in \<open>auto intro: le_less_trans dest: sym\<close>)
  have group: "gs r = (if root_of p r = r then component phones r else [])" for r
    using root_of_root [of p] by (auto simp: gs(2) member filter_empty_conv)
  have "filter (\<lambda>g. 1 < length g) (map gs rs)
      = filter (\<lambda>g. 1 < length g) (map (component phones) (filter (\<lambda>r. root_of p r = r) rs))" for rs
    by (induction rs) (auto simp: group)
  moreover have "filter (\<lambda>r. root_of p r = r) [0..<?n] = filter (\<lambda>r. hd (component phones r) = r) [0..<?n]"
    by (intro filter_cong) (auto simp: head)
  ultimately show ?thesis
    by (simp add: duplicate_groups_def Let_def st(1) gs(1))
qed


section \<open>Folding a group into its oldest row\<close>

text \<open>A row of a table with a \<open>contact_id\<close> column: the column's name and the contact it points at.\<close>

record child_row =
  child_col :: string
  child_of :: "string option"

record merge_db =
  m_contacts :: "crow list"
  m_children :: "child_row list"

text \<open>
  The columns the information schema lists, and the statements the database refuses: a constraint
  of a child table, or a failure on the contacts table (the unique index is checked by the model).
\<close>

record merge_env =
  contact_columns :: "string list"
  child_error :: "string \<Rightarrow> child_row list \<Rightarrow> string option"
  contacts_error :: "crow list \<Rightarrow> string option"

record row_updates =
  upd_phone :: "string option"
  upd_profile :: "string option"
  upd_assigned :: "string option"

definition repoint :: "string \<Rightarrow> string \<Rightarrow> string list \<Rightarrow> child_row \<Rightarrow> child_row" where
  "repoint col keep dups c =
     (if child_col c = col \<and> (\<exists>i \<in> set dups. child_of c = Some i)
      then c\<lparr>child_of := Some keep\<rparr> else c)"

definition rows_affected :: "string \<Rightarrow> string list \<Rightarrow> child_row list \<Rightarrow> int" where
  "rows_affected col dups cs =
     int (length (filter (\<lambda>c. child_col c = col \<and> (\<exists>i \<in> set dups. child_of c = Some i)) cs))"

fun move_children ::
    "merge_env \<Rightarrow> string \<Rightarrow> string list \<Rightarrow> string list \<Rightarrow> int \<times> child_row list
     \<Rightarrow> string + int \<times> child_row list" where
  "move_children env keep dups [] (moved, cs) = Inr (moved, cs)"
| "move_children env keep dups (col # cols) (moved, cs) =
     (let cs' = map (repoint col keep dups) cs in
      case child_error env col cs' of
        Some e \<Rightarrow> Inl (col @ '': '' @ e)
      | None \<Rightarrow> move_children env keep dups cols (moved + rows_affected col dups cs, cs'))"

definition write_contacts :: "merge_env \<Rightarrow> crow list \<Rightarrow> string + crow list" where
  "write_contacts env rows =
     (case contacts_error env rows of
        Some e \<Rightarrow> Inl e
      | None \<Rightarrow> if phone_index rows then Inr rows else Inl ''duplicate key value'')"

definition retire_number :: "crow \<Rightarrow> crow" where
  "retire_number r = r\<lparr>row_phone := row_phone r @ ''#merged-'' @ take 8 (row_id r)\<rparr>"

text \<open>The survivor takes the first profile name and the first owner of its duplicates when it has none.\<close>

definition fill_from :: "crow \<Rightarrow> crow \<times> row_updates \<Rightarrow> crow \<times> row_updates" where
  "fill_from d ku =
     (case ku of (keep, u) \<Rightarrow>
        let (keep1, u1) =
              (if row_profile keep = '''' \<and> row_profile d \<noteq> ''''
               then (keep\<lparr>row_profile := row_profile d\<rparr>, u\<lparr>upd_profile := Some (row_profile d)\<rparr>)
               else (keep, u))
        in if row_assigned keep1 = None \<and> row_assigned d \<noteq> None
           then (keep1\<lparr>row_assigned := row_assigned d\<rparr>, u1\<lparr>upd_assigned := row_assigned d\<rparr>)
           else (keep1, u1))"

definition survivor_updates :: "crow \<Rightarrow> crow list \<Rightarrow> row_updates" where
  "survivor_updates keep dup_rows =
     (let p = canonical_phone (row_phone keep);
          u = \<lparr>upd_phone = (if p \<noteq> row_phone keep then Some p else None),
               upd_profile = None, upd_assigned = None\<rparr>
      in snd (fold fill_from dup_rows (keep, u)))"

definition no_updates :: "row_updates \<Rightarrow> bool" where
  "no_updates u \<longleftrightarrow> upd_phone u = None \<and> upd_profile u = None \<and> upd_assigned u = None"

definition apply_updates :: "row_updates \<Rightarrow> crow \<Rightarrow> crow" where
  "apply_updates u r =
     (if row_deleted r then r
      else r\<lparr>row_phone := (case upd_phone u of None \<Rightarrow> row_phone r | Some p \<Rightarrow> p),
             row_profile := (case upd_profile u of None \<Rightarrow> row_profile r | Some n \<Rightarrow> n),
             row_assigned := (case upd_assigned u of None \<Rightarrow> row_assigned r | Some a \<Rightarrow> Some a)\<rparr>)"

text \<open>One transaction: an error of any statement leaves the database as it was.\<close>

definition merge_group ::
    "merge_env \<Rightarrow> crow \<Rightarrow> crow list \<Rightarrow> merge_db \<Rightarrow> string + int \<times> merge_db" where
  "merge_group env keep dup_rows db =
     (let dups = map row_id dup_rows in
      case move_children env (row_id keep) dups (contact_columns env) (0, m_children db) of
        Inl e \<Rightarrow> Inl e
      | Inr (moved, cs) \<Rightarrow>
          (case write_contacts env
                  (map (\<lambda>r. if row_id r \<in> set dups then retire_number r else r) (m_contacts db)) of
             Inl e \<Rightarrow> Inl e
           | Inr rows1 \<Rightarrow>
               let u = survivor_updates keep dup_rows in
               (case (if no_updates u then Inr rows1
                      else write_contacts env (update_row (row_id keep) (apply_updates u) rows1)) of
                  Inl e \<Rightarrow> Inl e
                | Inr rows2 \<Rightarrow>
                    (case write_contacts env
                            (map (\<lambda>r. if row_id r \<in> set dups then r\<lparr>row_deleted := True\<rparr> else r) rows2) of
                       Inl e \<Rightarrow> Inl e
                     | Inr rows3 \<Rightarrow> Inr (moved, db\<lparr>m_contacts := rows3, m_children := cs\<rparr>)))))"

section \<open>The whole run\<close>

record merge_report =
  rep_groups :: int
  rep_duplicates :: int
  rep_moved :: int
  rep_skipped :: "string list"

definition skipped_line :: "crow \<Rightarrow> string \<Rightarrow> string" where
  "skipped_line keep err = row_phone keep @ '' ('' @ row_id keep @ ''): '' @ err"

fun merge_groups ::
    "merge_env \<Rightarrow> bool \<Rightarrow> crow list \<Rightarrow> nat list list \<Rightarrow> merge_report \<times> merge_db
     \<Rightarrow> merge_report \<times> merge_db" where
  "merge_groups env apply_it rows [] st = st"
| "merge_groups env apply_it rows (members # groups) (rep, db) =
     (let keep = rows ! hd members;
          dup_rows = map ((!) rows) (tl members);
          rep1 = rep\<lparr>rep_groups := rep_groups rep + 1,
                     rep_duplicates := rep_duplicates rep + int (length dup_rows)\<rparr>
      in if \<not> apply_it then merge_groups env apply_it rows groups (rep1, db)
         else case merge_group env keep dup_rows db of
           Inl e \<Rightarrow>
             merge_groups env apply_it rows groups
               (rep1\<lparr>rep_duplicates := rep_duplicates rep1 - int (length dup_rows),
                     rep_skipped := rep_skipped rep1 @ [skipped_line keep e]\<rparr>, db)
         | Inr (moved, db') \<Rightarrow>
             merge_groups env apply_it rows groups
               (rep1\<lparr>rep_moved := rep_moved rep1 + moved\<rparr>, db'))"

datatype merge_error = ContactsUnread | ColumnsUnread | GroupingFailed

text \<open>
  The rows come ordered by creation; rows of one instant come in the table's order.
  \<open>GroupingFailed\<close> stands for a grouping that panics or never ends.
\<close>

definition contacts_of :: "string \<Rightarrow> crow list \<Rightarrow> crow list" where
  "contacts_of org rows = sort_key row_created (filter (\<lambda>r. row_org r = org \<and> \<not> row_deleted r) rows)"

definition merge_duplicate_contacts ::
    "merge_env \<Rightarrow> bool \<Rightarrow> bool \<Rightarrow> string \<Rightarrow> bool \<Rightarrow> merge_db \<Rightarrow> merge_error + merge_report \<times> merge_db" where
  "merge_duplicate_contacts env contacts_ok columns_ok org apply_it db =
     (let rows = contacts_of org (m_contacts db) in
      if \<not> contacts_ok then Inl ContactsUnread
      else case duplicate_groups (map row_phone rows) of
        None \<Rightarrow> Inl GroupingFailed
      | Some groups \<Rightarrow>
          if \<not> columns_ok then Inl ColumnsUnread
          else Inr (merge_groups env apply_it rows groups
                 (\<lparr>rep_groups = 0, rep_duplicates = 0, rep_moved = 0, rep_skipped = []\<rparr>, db)))"


subsection \<open>What one group does to the tables\<close>

text \<open>
  \<open>same_row gone a b\<close>: row \<open>b\<close> is what a run that has folded the rows \<open>gone\<close> made of row \<open>a\<close>.
  A folded row is soft-deleted; any other keeps its state and its subscriber.
\<close>

definition same_row :: "string set \<Rightarrow> crow \<Rightarrow> crow \<Rightarrow> bool" where
  "same_row gone a b \<longleftrightarrow>
     row_id b = row_id a \<and> row_org b = row_org a \<and> row_created b = row_created a
     \<and> (if row_id a \<in> gone then row_deleted b
        else row_deleted b = row_deleted a \<and> phone_identities (row_phone b) = phone_identities (row_phone a))"

lemma write_contacts_ok: "write_contacts env rows = Inr rows' \<Longrightarrow> rows' = rows \<and> phone_index rows"
  by (auto simp: write_contacts_def split: option.splits if_splits)

lemma upd_phone_fold: "upd_phone (snd (fold fill_from ds (k, u))) = upd_phone u"
proof (induction ds arbitrary: k u)
  case (Cons d ds)
  obtain k' u' where f: "fill_from d (k, u) = (k', u')" by (cases "fill_from d (k, u)")
  then have "upd_phone u' = upd_phone u"
    by (auto simp: fill_from_def Let_def split: if_splits prod.splits)
  then show ?case using Cons f by simp
qed simp

lemma survivor_updates_phone:
  "upd_phone (survivor_updates keep ds) = Some p \<Longrightarrow> p = canonical_phone (row_phone keep)"
  by (auto simp: survivor_updates_def Let_def upd_phone_fold split: if_splits)

lemma merge_group_rows:
  assumes "merge_group env keep ds db = Inr (moved, db')"
  shows "m_contacts db' =
      map (\<lambda>r. let r1 = (if row_id r \<in> row_id ` set ds then retire_number r else r);
                   r2 = (if row_id r = row_id keep \<and> \<not> no_updates (survivor_updates keep ds)
                         then apply_updates (survivor_updates keep ds) r1 else r1)
               in if row_id r \<in> row_id ` set ds then r2\<lparr>row_deleted := True\<rparr> else r2) (m_contacts db)"
    "phone_index (m_contacts db')"
    "move_children env (row_id keep) (map row_id ds) (contact_columns env) (0, m_children db)
       = Inr (moved, m_children db')"
proof -
  have ids: "row_id (retire_number r) = row_id r" "row_id (apply_updates u r) = row_id r" for r u
    by (simp_all add: retire_number_def apply_updates_def)
  note steps = assms [unfolded merge_group_def Let_def]
  show "m_contacts db' =
      map (\<lambda>r. let r1 = (if row_id r \<in> row_id ` set ds then retire_number r else r);
                   r2 = (if row_id r = row_id keep \<and> \<not> no_updates (survivor_updates keep ds)
                         then apply_updates (survivor_updates keep ds) r1 else r1)
               in if row_id r \<in> row_id ` set ds then r2\<lparr>row_deleted := True\<rparr> else r2) (m_contacts db)"
    using steps by (auto simp: update_row_def ids split: sum.splits prod.splits if_splits dest!: write_contacts_ok)
  show "phone_index (m_contacts db')"
    "move_children env (row_id keep) (map row_id ds) (contact_columns env) (0, m_children db)
       = Inr (moved, m_children db')"
    using steps by (auto split: sum.splits prod.splits if_splits dest!: write_contacts_ok)
qed

lemma merge_group_same_rows:
  assumes "merge_group env keep ds db = Inr (moved, db')"
    and "list_all2 (same_row gone) rows0 (m_contacts db)"
    and "keep \<in> set rows0" "distinct (map row_id rows0)"
    and "row_id keep \<notin> row_id ` set ds"
  shows "list_all2 (same_row (gone \<union> row_id ` set ds)) rows0 (m_contacts db')"
proof -
  have keep: "r = keep" if "r \<in> set rows0" "row_id r = row_id keep" for r
    using assms(3,4) that by (metis distinct_map inj_onD)
  let ?u = "survivor_updates keep ds"
  have "list_all2 (\<lambda>a b. a \<in> set rows0 \<and> same_row gone a b) rows0 (m_contacts db)"
    using assms(2) by (auto simp: list_all2_conv_all_nth)
  then show ?thesis
    unfolding merge_group_rows(1) [OF assms(1)] list_all2_map2
  proof (rule list_all2_mono)
    fix a b
    assume ab: "a \<in> set rows0 \<and> same_row gone a b"
    then have id: "row_id b = row_id a" by (simp add: same_row_def)
    show "same_row (gone \<union> row_id ` set ds) a
       (let r1 = (if row_id b \<in> row_id ` set ds then retire_number b else b);
            r2 = (if row_id b = row_id keep \<and> \<not> no_updates ?u then apply_updates ?u r1 else r1)
        in if row_id b \<in> row_id ` set ds then r2\<lparr>row_deleted := True\<rparr> else r2)"
    proof (cases "row_id a \<in> row_id ` set ds")
      case True
      then have "row_id a \<noteq> row_id keep" using assms(5) by metis
      then show ?thesis using True ab by (auto simp: same_row_def id retire_number_def)
    next
      case False
      show ?thesis
      proof (cases "row_id a = row_id keep")
        case True
        then have a: "a = keep" using keep ab by blast
        then show ?thesis
          using False ab by (auto simp: same_row_def id apply_updates_def
              dest: survivor_updates_phone split: option.splits)
      next
        case not_keep: False
        then show ?thesis using False ab by (auto simp: same_row_def id)
      qed
    qed
  qed
qed


lemma move_children_ok:
  assumes "move_children env keep dups cols (m, cs) = Inr (m', cs')" "keep \<notin> set dups"
  shows "cs' = map (\<lambda>c. if child_col c \<in> set cols \<and> (\<exists>i \<in> set dups. child_of c = Some i)
                        then c\<lparr>child_of := Some keep\<rparr> else c) cs"
  using assms(1)
proof (induction cols arbitrary: m cs)
  case (Cons col cols)
  let ?cs = "map (repoint col keep dups) cs"
  from Cons.prems obtain m2 where "move_children env keep dups cols (m2, ?cs) = Inr (m', cs')"
    by (auto simp: Let_def split: option.splits)
  from Cons.IH [OF this] show ?case
    using assms(2) by (auto simp: repoint_def)
qed simp

lemma move_children_moved:
  assumes "move_children env keep dups cols (m, cs) = Inr (m', cs')" "keep \<notin> set dups" "distinct cols"
  shows "m' = m + int (length (filter (\<lambda>c. child_col c \<in> set cols \<and> (\<exists>i \<in> set dups. child_of c = Some i)) cs))"
  using assms(1,3)
proof (induction cols arbitrary: m cs)
  case (Cons col cols)
  let ?cs = "map (repoint col keep dups) cs"
  let ?on = "\<lambda>c. \<exists>i \<in> set dups. child_of c = Some i"
  have step: "move_children env keep dups cols (m + rows_affected col dups cs, ?cs) = Inr (m', cs')"
    using Cons.prems(1) by (auto simp: Let_def split: option.splits)
  have "length (filter (\<lambda>c. child_col c \<in> set cols \<and> ?on c) ?cs)
      = length (filter (\<lambda>c. child_col c \<in> set cols \<and> ?on c) cs)"
    using Cons.prems(2) assms(2) by (induction cs) (auto simp: repoint_def)
  moreover have "length (filter (\<lambda>c. child_col c \<in> set (col # cols) \<and> ?on c) cs)
      = length (filter (\<lambda>c. child_col c = col \<and> ?on c) cs)
        + length (filter (\<lambda>c. child_col c \<in> set cols \<and> ?on c) cs)"
    using Cons.prems(2) by (induction cs) auto
  ultimately show ?case
    using Cons.IH [OF step] Cons.prems(2) by (simp add: rows_affected_def)
qed simp

subsection \<open>What a run does\<close>

definition group_ids :: "crow list \<Rightarrow> nat list \<Rightarrow> string set" where
  "group_ids rows members = row_id ` set (map ((!) rows) (tl members))"

text \<open>Where a contact's rows go: to the head of the group whose tail it is in.\<close>

fun survivor :: "crow list \<Rightarrow> nat list list \<Rightarrow> string \<Rightarrow> string" where
  "survivor rows [] i = i"
| "survivor rows (g # gs) i =
     survivor rows gs (if i \<in> group_ids rows g then row_id (rows ! hd g) else i)"

definition group_of :: "crow list \<Rightarrow> nat list \<Rightarrow> bool" where
  "group_of rows g \<longleftrightarrow> g \<noteq> [] \<and> distinct g \<and> list_all (\<lambda>i. i < length rows) g"

definition retarget :: "string list \<Rightarrow> (string \<Rightarrow> string) \<Rightarrow> child_row \<Rightarrow> child_row" where
  "retarget cols to c =
     (if child_col c \<in> set cols then c\<lparr>child_of := map_option to (child_of c)\<rparr> else c)"

lemma group_head_outside:
  assumes "distinct (map row_id rows)" "group_of rows g"
  shows "row_id (rows ! hd g) \<notin> row_id ` set (map ((!) rows) (tl g))"
proof
  assume "row_id (rows ! hd g) \<in> row_id ` set (map ((!) rows) (tl g))"
  then obtain k where k: "k \<in> set (tl g)" "row_id (rows ! hd g) = row_id (rows ! k)" by auto
  obtain h t where g: "g = h # t" using assms(2) by (cases g) (auto simp: group_of_def)
  have "h < length rows" "k < length rows" "h \<noteq> k"
    using assms(2) k(1) by (auto simp: g group_of_def list_all_iff)
  then show False
    using k(2) assms(1) by (auto simp: g distinct_conv_nth)
qed

lemma skipped_grows:
  "length (rep_skipped rep) \<le> length (rep_skipped (fst (merge_groups env b rows groups (rep, db))))"
proof (induction groups arbitrary: rep db)
  case (Cons g groups)
  let ?keep = "rows ! hd g" and ?ds = "map ((!) rows) (tl g)"
  show ?case
  proof (cases b)
    case True
    show ?thesis
    proof (cases "merge_group env ?keep ?ds db")
      case (Inl e)
      show ?thesis
        using True Inl Cons.IH [of "rep\<lparr>rep_groups := rep_groups rep + 1,
            rep_duplicates := rep_duplicates rep,
            rep_skipped := rep_skipped rep @ [skipped_line ?keep e]\<rparr>" db]
        by (simp add: Let_def)
    next
      case (Inr md)
      obtain moved db1 where "md = (moved, db1)" by (cases md)
      then show ?thesis
        using True Inr Cons.IH [of "rep\<lparr>rep_groups := rep_groups rep + 1,
            rep_duplicates := rep_duplicates rep + int (length ?ds),
            rep_moved := rep_moved rep + moved\<rparr>" db1]
        by (simp add: Let_def)
    qed
  next
    case False
    then show ?thesis
      using Cons.IH [of "rep\<lparr>rep_groups := rep_groups rep + 1,
          rep_duplicates := rep_duplicates rep + int (length ?ds)\<rparr>" db]
      by (simp add: Let_def)
  qed
qed simp

lemma merge_groups_effect:
  assumes "merge_groups env True rows groups (rep, db) = (rep', db')"
    and "list_all2 (same_row gone) rows0 (m_contacts db)"
    and "set rows \<subseteq> set rows0" "distinct (map row_id rows0)" "distinct (map row_id rows)"
    and "list_all (group_of rows) groups"
  shows "\<exists>more. more \<subseteq> \<Union> (group_ids rows ` set groups)
    \<and> list_all2 (same_row (gone \<union> more)) rows0 (m_contacts db')
    \<and> (rep_skipped rep' = rep_skipped rep \<longrightarrow>
         more = \<Union> (group_ids rows ` set groups)
         \<and> m_children db' = map (retarget (contact_columns env) (survivor rows groups)) (m_children db))"
  using assms(1,2,6)
proof (induction groups arbitrary: rep db gone)
  case Nil
  then show ?case by (auto simp: retarget_def intro!: map_idI [symmetric] simp: option.map_id0 [unfolded id_def])
next
  case (Cons g groups)
  let ?keep = "rows ! hd g" and ?ds = "map ((!) rows) (tl g)"
  have g: "group_of rows g" and gs: "list_all (group_of rows) groups" using Cons.prems(3) by auto
  have ids: "row_id ` set ?ds = group_ids rows g" by (simp only: group_ids_def)
  have out: "row_id ?keep \<notin> row_id ` set ?ds" by (rule group_head_outside [OF assms(5) g])
  have keep: "?keep \<in> set rows0"
    using g assms(3) by (cases g) (auto simp: group_of_def)
  show ?case
  proof (cases "merge_group env ?keep ?ds db")
    case (Inl e)
    then obtain rep1 where rep1: "merge_groups env True rows groups (rep1, db) = (rep', db')"
        "rep_skipped rep1 = rep_skipped rep @ [skipped_line ?keep e]"
      using Cons.prems(1) by (simp add: Let_def)
    have "length (rep_skipped rep1) \<le> length (rep_skipped rep')"
      using skipped_grows [of rep1 env True rows groups db] rep1(1) by simp
    then have "rep_skipped rep' \<noteq> rep_skipped rep" using rep1(2) by auto
    then show ?thesis using Cons.IH [OF rep1(1) Cons.prems(2) gs] by auto
  next
    case (Inr md)
    then obtain moved db1 where md: "merge_group env ?keep ?ds db = Inr (moved, db1)" by (cases md) auto
    then obtain rep1 where rep1: "merge_groups env True rows groups (rep1, db1) = (rep', db')"
        "rep_skipped rep1 = rep_skipped rep"
      using Cons.prems(1) by (simp add: Let_def)
    have rows1: "list_all2 (same_row (gone \<union> group_ids rows g)) rows0 (m_contacts db1)"
      using merge_group_same_rows [OF md Cons.prems(2) keep assms(4) out] by (simp only: ids)
    obtain more where more: "more \<subseteq> \<Union> (group_ids rows ` set groups)"
        "list_all2 (same_row (gone \<union> group_ids rows g \<union> more)) rows0 (m_contacts db')"
        "rep_skipped rep' = rep_skipped rep1 \<longrightarrow>
         more = \<Union> (group_ids rows ` set groups)
         \<and> m_children db' = map (retarget (contact_columns env) (survivor rows groups)) (m_children db1)"
      using Cons.IH [OF rep1(1) rows1 gs] by blast
    have kids: "m_children db1 = map (retarget (contact_columns env)
        (\<lambda>i. if i \<in> group_ids rows g then row_id ?keep else i)) (m_children db)"
    proof -
      have dups: "set (map row_id ?ds) = group_ids rows g" by (simp only: set_map group_ids_def)
      have point: "(if child_col c \<in> set cols \<and> (\<exists>i \<in> group_ids rows g. child_of c = Some i)
           then c\<lparr>child_of := Some k\<rparr> else c)
          = retarget cols (\<lambda>i. if i \<in> group_ids rows g then k else i) c" for c k cols
        by (cases "child_of c") (auto simp: retarget_def)
      show ?thesis
        using move_children_ok [OF merge_group_rows(3) [OF md]] out
        unfolding dups ids point by blast
    qed
    show ?thesis
      by (rule exI [of _ "group_ids rows g \<union> more"])
        (use more rep1(2) in \<open>auto simp: ac_simps kids retarget_def option.map_comp o_def\<close>)
  qed
qed


subsection \<open>One live row per subscriber\<close>

lemma component_self: "k < length phones \<Longrightarrow> k \<in> set (component phones k)"
  by (simp add: component_def)

lemma share_sym: "(i, j) \<in> (share phones)\<^sup>* \<Longrightarrow> (j, i) \<in> (share phones)\<^sup>*"
proof -
  have "sym (share phones)" by (auto simp: sym_def share_def)
  then show "(i, j) \<in> (share phones)\<^sup>* \<Longrightarrow> (j, i) \<in> (share phones)\<^sup>*"
    by (metis sym_rtrancl symD)
qed

lemma component_eq: "j \<in> set (component phones i) \<Longrightarrow> component phones j = component phones i"
proof -
  assume "j \<in> set (component phones i)"
  then have ij: "(i, j) \<in> (share phones)\<^sup>*" by (simp add: component_def)
  have "(j, k) \<in> (share phones)\<^sup>* \<longleftrightarrow> (i, k) \<in> (share phones)\<^sup>*" for k
    using ij share_sym by (metis rtrancl_trans)
  then show ?thesis by (simp add: component_def)
qed

lemma group_is_component:
  assumes "duplicate_groups phones = Some groups" "g \<in> set groups" "k \<in> set g"
  shows "g = component phones k" "k < length phones"
  using assms component_eq by (auto simp: merge_groups_are_components) (auto simp: component_def)

lemma components_are_groups:
  assumes "duplicate_groups phones = Some groups" "j \<in> set (component phones i)" "i < length phones" "j \<noteq> i"
  shows "component phones i \<in> set groups"
proof -
  let ?g = "component phones i"
  have i: "i \<in> set ?g" by (rule component_self [OF assms(3)])
  then have "?g \<noteq> []" by auto
  then have hd: "hd ?g \<in> set ?g" by simp
  then have "component phones (hd ?g) = ?g" by (rule component_eq)
  moreover have "hd ?g < length phones" using hd by (simp add: component_def)
  moreover have "1 < length ?g"
    using i assms(2,4) by (cases ?g rule: remdups_adj.cases) auto
  ultimately show ?thesis
    using assms(1) by (auto simp: merge_groups_are_components image_iff intro!: exI [of _ "hd ?g"])
qed

lemma groups_of_rows:
  assumes "duplicate_groups (map row_phone rows) = Some groups"
  shows "list_all (group_of rows) groups"
  using assms by (auto simp: list_all_iff group_of_def merge_groups_are_components component_def)

lemma in_group_ids:
  assumes "distinct (map row_id rows)" "group_of rows g" "k < length rows"
  shows "row_id (rows ! k) \<in> group_ids rows g \<longleftrightarrow> k \<in> set (tl g)"
proof -
  have "j < length rows" if "j \<in> set (tl g)" for j
    using assms(2) that by (cases g) (auto simp: group_of_def list_all_iff)
  then have "row_id (rows ! k) = row_id (rows ! j) \<longleftrightarrow> k = j" if "j \<in> set (tl g)" for j
    using assms(1,3) that nth_eq_iff_index_eq [of "map row_id rows" k j] by simp
  then show ?thesis by (auto simp: group_ids_def)
qed

lemma survivor_is_head:
  assumes "distinct (map row_id rows)" "list_all (group_of rows) groups"
    and "\<And>g g' i. g \<in> set groups \<Longrightarrow> g' \<in> set groups \<Longrightarrow> i \<in> set g \<Longrightarrow> i \<in> set g' \<Longrightarrow> g = g'"
    and "k < length rows"
  shows "(\<forall>g \<in> set groups. k \<in> set g \<longrightarrow> survivor rows groups (row_id (rows ! k)) = row_id (rows ! hd g))
    \<and> ((\<forall>g \<in> set groups. k \<notin> set g) \<longrightarrow> survivor rows groups (row_id (rows ! k)) = row_id (rows ! k))"
  using assms(2-4)
proof (induction groups arbitrary: k)
  case (Cons g gs)
  have g: "group_of rows g" using Cons.prems(1) by simp
  then have hd: "hd g \<in> set g" "hd g < length rows" by (cases g; auto simp: group_of_def)+
  have same: "\<And>g g' i. g \<in> set gs \<Longrightarrow> g' \<in> set gs \<Longrightarrow> i \<in> set g \<Longrightarrow> i \<in> set g' \<Longrightarrow> g = g'"
    by (rule Cons.prems(2)) auto
  have IH: "(\<forall>g \<in> set gs. k \<in> set g \<longrightarrow> survivor rows gs (row_id (rows ! k)) = row_id (rows ! hd g))
    \<and> ((\<forall>g \<in> set gs. k \<notin> set g) \<longrightarrow> survivor rows gs (row_id (rows ! k)) = row_id (rows ! k))"
    if "k < length rows" for k
    using Cons.IH [OF _ same that] Cons.prems(1) by simp
  show ?case
  proof (cases "k \<in> set g")
    case True
    have step: "survivor rows (g # gs) (row_id (rows ! k)) = survivor rows gs (row_id (rows ! hd g))"
      using True g in_group_ids [OF assms(1) g Cons.prems(3)]
      by (cases g) (auto simp: group_of_def)
    have "survivor rows gs (row_id (rows ! hd g)) = row_id (rows ! hd g)"
    proof (cases "\<exists>g' \<in> set gs. hd g \<in> set g'")
      case inner: True
      then obtain g' where g': "g' \<in> set gs" "hd g \<in> set g'" by blast
      then have "g' = g" using Cons.prems(2) [of g' g "hd g"] hd by auto
      then show ?thesis using IH [OF hd(2)] g' by blast
    next
      case False
      then show ?thesis using IH [OF hd(2)] by blast
    qed
    moreover have "g' = g" if "g' \<in> set (g # gs)" "k \<in> set g'" for g'
      using Cons.prems(2) [of g' g k] that True by auto
    ultimately show ?thesis using step True by auto
  next
    case False
    then have "k \<notin> set (tl g)" by (cases g) auto
    then have "survivor rows (g # gs) (row_id (rows ! k)) = survivor rows gs (row_id (rows ! k))"
      using in_group_ids [OF assms(1) g Cons.prems(3)] by simp
    then show ?thesis using IH [OF Cons.prems(3)] False by auto
  qed
qed simp


text \<open>A live row of the organisation and the position it has in the list the run reads.\<close>

lemma contacts_of_iff: "r \<in> set (contacts_of org rows) \<longleftrightarrow> r \<in> set rows \<and> row_org r = org \<and> \<not> row_deleted r"
  by (auto simp: contacts_of_def)

lemma contacts_of_distinct:
  "distinct (map row_id rows) \<Longrightarrow> distinct (map row_id (contacts_of org rows))"
  by (simp add: contacts_of_def distinct_map inj_on_def)

lemma same_row_start: "list_all2 (same_row {}) rows rows"
  by (simp add: list_all2_same same_row_def)

lemma merge_run:
  assumes "merge_duplicate_contacts env True True org True db = Inr (rep, db')"
    and "distinct (map row_id (m_contacts db))" "rep_skipped rep = []"
  obtains groups where
    "duplicate_groups (map row_phone (contacts_of org (m_contacts db))) = Some groups"
    "list_all2 (same_row (\<Union> (group_ids (contacts_of org (m_contacts db)) ` set groups)))
       (m_contacts db) (m_contacts db')"
    "m_children db' = map (retarget (contact_columns env)
       (survivor (contacts_of org (m_contacts db)) groups)) (m_children db)"
proof -
  let ?rows = "contacts_of org (m_contacts db)"
  obtain groups where g: "duplicate_groups (map row_phone ?rows) = Some groups"
    by (simp add: merge_groups_are_components)
  let ?rep = "\<lparr>rep_groups = 0, rep_duplicates = 0, rep_moved = 0, rep_skipped = []\<rparr>"
  have run: "merge_groups env True ?rows groups (?rep, db) = (rep, db')"
    using assms(1) g by (simp add: merge_duplicate_contacts_def Let_def)
  have sub: "set ?rows \<subseteq> set (m_contacts db)" by (auto simp: contacts_of_iff)
  show ?thesis
    using that [OF g] merge_groups_effect [OF run same_row_start sub assms(2)
        contacts_of_distinct [OF assms(2)] groups_of_rows [OF g]] assms(3)
    by auto
qed

text \<open>Where a contact ends: at the first row of its component.\<close>

definition survivor_row :: "string \<Rightarrow> crow list \<Rightarrow> nat \<Rightarrow> crow" where
  "survivor_row org rows k =
     contacts_of org rows ! hd (component (map row_phone (contacts_of org rows)) k)"

lemma survivor_of_contact:
  assumes "duplicate_groups (map row_phone (contacts_of org rows)) = Some groups"
    and "distinct (map row_id rows)" "k < length (contacts_of org rows)"
  shows "survivor (contacts_of org rows) groups (row_id (contacts_of org rows ! k))
       = row_id (survivor_row org rows k)"
proof -
  let ?rs = "contacts_of org rows" and ?phones = "map row_phone (contacts_of org rows)"
  have unique: "g = g'" if "g \<in> set groups" "g' \<in> set groups" "i \<in> set g" "i \<in> set g'" for g g' i
    using group_is_component(1) [OF assms(1)] that by metis
  have head: "(\<forall>g \<in> set groups. k \<in> set g \<longrightarrow> survivor ?rs groups (row_id (?rs ! k)) = row_id (?rs ! hd g))
    \<and> ((\<forall>g \<in> set groups. k \<notin> set g) \<longrightarrow> survivor ?rs groups (row_id (?rs ! k)) = row_id (?rs ! k))"
    by (rule survivor_is_head [OF contacts_of_distinct [OF assms(2)] groups_of_rows [OF assms(1)] _ assms(3)])
      (rule unique)
  show ?thesis
  proof (cases "\<exists>g \<in> set groups. k \<in> set g")
    case True
    then obtain g where g: "g \<in> set groups" "k \<in> set g" by blast
    then have "survivor ?rs groups (row_id (?rs ! k)) = row_id (?rs ! hd g)"
      using head by blast
    then show ?thesis
      using group_is_component(1) [OF assms(1) g] by (simp add: survivor_row_def)
  next
    case False
    have k: "k \<in> set (component ?phones k)" using assms(3) by (intro component_self) simp
    have alone: "j = k" if "j \<in> set (component ?phones k)" for j
    proof (rule ccontr)
      assume "j \<noteq> k"
      then have "component ?phones k \<in> set groups"
        using components_are_groups [OF assms(1) that] assms(3) by simp
      then show False using False k by blast
    qed
    have "hd (component ?phones k) = k"
      using alone [of "hd (component ?phones k)"] k by (cases "component ?phones k") auto
    moreover have "survivor ?rs groups (row_id (?rs ! k)) = row_id (?rs ! k)"
      using head False by blast
    ultimately show ?thesis by (simp add: survivor_row_def)
  qed
qed

lemma gone_rows:
  assumes "duplicate_groups (map row_phone (contacts_of org rows)) = Some groups"
    and "distinct (map row_id rows)" "k < length (contacts_of org rows)"
  shows "row_id (contacts_of org rows ! k) \<in> \<Union> (group_ids (contacts_of org rows) ` set groups)
     \<longleftrightarrow> hd (component (map row_phone (contacts_of org rows)) k) \<noteq> k"
proof -
  let ?rs = "contacts_of org rows" and ?phones = "map row_phone (contacts_of org rows)"
  have k: "k \<in> set (component ?phones k)" using assms(3) by (intro component_self) simp
  have in_tail: "row_id (?rs ! k) \<in> group_ids ?rs g \<longleftrightarrow> k \<in> set (tl g)" if "g \<in> set groups" for g
    using in_group_ids [OF contacts_of_distinct [OF assms(2)] _ assms(3)] groups_of_rows [OF assms(1)] that
    by (simp add: list_all_iff)
  have tail: "k \<in> set (tl g) \<longleftrightarrow> k \<noteq> hd g" if "g \<in> set groups" "k \<in> set g" for g
    using groups_of_rows [OF assms(1)] that by (cases g) (auto simp: list_all_iff group_of_def)
  show ?thesis
  proof
    assume "row_id (?rs ! k) \<in> \<Union> (group_ids ?rs ` set groups)"
    then obtain g where g: "g \<in> set groups" "k \<in> set (tl g)" using in_tail by blast
    then have kg: "k \<in> set g" by (metis list.sel(2) list.set_sel(2))
    then have "g = component ?phones k" using group_is_component(1) [OF assms(1) g(1)] by simp
    then show "hd (component ?phones k) \<noteq> k" using tail [OF g(1) kg] g(2) by auto
  next
    assume ne: "hd (component ?phones k) \<noteq> k"
    have "component ?phones k \<noteq> []" using k by auto
    then have g: "component ?phones k \<in> set groups"
      using components_are_groups [OF assms(1) _ _ ne] assms(3) by simp
    have "k \<in> set (tl (component ?phones k))" using tail [OF g k] ne by simp
    then have "row_id (?rs ! k) \<in> group_ids ?rs (component ?phones k)"
      unfolding in_tail [OF g] .
    then show "row_id (?rs ! k) \<in> \<Union> (group_ids ?rs ` set groups)"
      by (intro UN_I [OF g])
  qed
qed


lemma list_all2_back: "list_all2 P xs ys \<Longrightarrow> y \<in> set ys \<Longrightarrow> \<exists>x \<in> set xs. P x y"
  by (metis in_set_conv_nth list_all2_conv_all_nth)

lemma list_all2_forth: "list_all2 P xs ys \<Longrightarrow> x \<in> set xs \<Longrightarrow> \<exists>y \<in> set ys. P x y"
  by (metis in_set_conv_nth list_all2_conv_all_nth)

definition live_row :: "string \<Rightarrow> crow list \<Rightarrow> crow \<Rightarrow> bool" where
  "live_row org rows r \<longleftrightarrow> r \<in> set rows \<and> row_org r = org \<and> \<not> row_deleted r"

definition one_row_each :: "string \<Rightarrow> crow list \<Rightarrow> bool" where
  "one_row_each org rows \<longleftrightarrow>
     (\<forall>a b. live_row org rows a \<and> live_row org rows b
        \<and> set (phone_identities (row_phone a)) \<inter> set (phone_identities (row_phone b)) \<noteq> {}
        \<longrightarrow> row_id a = row_id b)"

text \<open>A child row keeps its column, and one that pointed at a live contact points at a live one.\<close>

definition child_kept :: "string \<Rightarrow> string list \<Rightarrow> crow list \<Rightarrow> crow list \<Rightarrow> child_row \<Rightarrow> child_row \<Rightarrow> bool" where
  "child_kept org cols before after c c' \<longleftrightarrow>
     child_col c' = child_col c
     \<and> (child_col c \<notin> set cols \<longrightarrow> c' = c)
     \<and> (\<forall>r. child_col c \<in> set cols \<and> live_row org before r \<and> child_of c = Some (row_id r)
           \<longrightarrow> (\<exists>s. live_row org after s \<and> child_of c' = Some (row_id s)))"

text \<open>C31 (invariant). A run that skips no group leaves at most one live row per subscriber: no two
  live rows of the organisation share a phone identity. No child row is lost or left behind on the
  way: the child tables keep their rows, and what pointed at a live contact points at one that is
  still live, in every column the schema lists.\<close>

theorem merge_leaves_one_row_per_subscriber:
  assumes "merge_duplicate_contacts env True True org True db = Inr (rep, db')"
    and "distinct (map row_id (m_contacts db))" "rep_skipped rep = []"
  shows "one_row_each org (m_contacts db')
    \<and> list_all2 (child_kept org (contact_columns env) (m_contacts db) (m_contacts db'))
        (m_children db) (m_children db')"
proof -
  let ?rs = "contacts_of org (m_contacts db)"
  let ?phones = "map row_phone ?rs"
  obtain groups where g: "duplicate_groups (map row_phone ?rs) = Some groups"
    and rows: "list_all2 (same_row (\<Union> (group_ids ?rs ` set groups))) (m_contacts db) (m_contacts db')"
    and kids: "m_children db' = map (retarget (contact_columns env) (survivor ?rs groups)) (m_children db)"
    using merge_run [OF assms] by blast
  let ?gone = "\<Union> (group_ids ?rs ` set groups)"
  note gone = gone_rows [OF g assms(2)]
  have origin: "\<exists>k. k < length ?rs \<and> row_id r = row_id (?rs ! k) \<and> hd (component ?phones k) = k
      \<and> phone_identities (row_phone r) = phone_identities (row_phone (?rs ! k))"
    if r: "live_row org (m_contacts db') r" for r
  proof -
    obtain a where a: "a \<in> set (m_contacts db)" "same_row ?gone a r"
      using list_all2_back [OF rows] r unfolding live_row_def by blast
    then have keep: "row_id a \<notin> ?gone" and "a \<in> set ?rs"
      using r unfolding live_row_def same_row_def contacts_of_iff by metis+
    then obtain k where k: "k < length ?rs" "a = ?rs ! k" by (metis in_set_conv_nth)
    show ?thesis
      using a(2) k keep gone [OF k(1)] unfolding same_row_def by metis
  qed
  have "one_row_each org (m_contacts db')"
    unfolding one_row_each_def
  proof (intro allI impI)
    fix a b
    assume ab: "live_row org (m_contacts db') a \<and> live_row org (m_contacts db') b
        \<and> set (phone_identities (row_phone a)) \<inter> set (phone_identities (row_phone b)) \<noteq> {}"
    obtain k where k: "k < length ?rs" "row_id a = row_id (?rs ! k)" "hd (component ?phones k) = k"
        "phone_identities (row_phone a) = phone_identities (row_phone (?rs ! k))"
      using origin ab by blast
    obtain l where l: "l < length ?rs" "row_id b = row_id (?rs ! l)" "hd (component ?phones l) = l"
        "phone_identities (row_phone b) = phone_identities (row_phone (?rs ! l))"
      using origin ab by blast
    have "(k, l) \<in> share ?phones" using ab k l by (simp add: share_def)
    then have "component ?phones l = component ?phones k"
      using l(1) by (intro component_eq) (auto simp: component_def)
    then show "row_id a = row_id b" using k(2,3) l(2,3) by metis
  qed
  moreover have "child_kept org (contact_columns env) (m_contacts db) (m_contacts db') c
      (retarget (contact_columns env) (survivor ?rs groups) c)" for c
  proof -
    have "\<exists>s. live_row org (m_contacts db') s \<and> survivor ?rs groups (row_id r) = row_id s"
      if "live_row org (m_contacts db) r" for r
    proof -
      have "r \<in> set ?rs" using that by (simp add: live_row_def contacts_of_iff)
      then obtain k where k: "k < length ?rs" "r = ?rs ! k" by (metis in_set_conv_nth)
      define h where "h = hd (component ?phones k)"
      have "component ?phones k \<noteq> []" using component_self [of k ?phones] k(1) by auto
      then have h: "h \<in> set (component ?phones k)" by (simp add: h_def)
      then have hl: "h < length ?rs" by (simp add: component_def)
      have hh: "hd (component ?phones h) = h" using component_eq [OF h] by (simp add: h_def)
      have "?rs ! h \<in> set ?rs" using hl by simp
      then have live: "live_row org (m_contacts db) (?rs ! h)"
        unfolding contacts_of_iff live_row_def by blast
      then obtain s where s: "s \<in> set (m_contacts db')" "same_row ?gone (?rs ! h) s"
        using list_all2_forth [OF rows] unfolding live_row_def by blast
      have "live_row org (m_contacts db') s"
        using s live gone [OF hl] hh unfolding same_row_def live_row_def by metis
      moreover have "survivor ?rs groups (row_id r) = row_id s"
        using survivor_of_contact [OF g assms(2) k(1)] s(2) k(2)
        unfolding survivor_row_def same_row_def h_def [symmetric] by metis
      ultimately show ?thesis by blast
    qed
    then show ?thesis by (auto simp: child_kept_def retarget_def)
  qed
  ultimately show ?thesis
    by (simp add: kids list_all2_map2 list_all2_same)
qed


text \<open>
  Two rows of one subscriber, the inbound copy with the message, fold into the row the agent
  created.
\<close>

definition sample_contacts :: merge_db where
  "sample_contacts =
    \<lparr>m_contacts =
       [\<lparr>row_id = ''a'', row_org = ''o'', row_phone = ''+5571991234567'', row_profile = '''',
         row_assigned = None, row_created = 1, row_deleted = False\<rparr>,
        \<lparr>row_id = ''b'', row_org = ''o'', row_phone = ''557191234567'', row_profile = ''Ana'',
         row_assigned = Some ''u'', row_created = 2, row_deleted = False\<rparr>],
     m_children = [\<lparr>child_col = ''messages.contact_id'', child_of = Some ''b''\<rparr>]\<rparr>"

definition open_merge :: merge_env where
  "open_merge = \<lparr>contact_columns = [''messages.contact_id''],
     child_error = (\<lambda>_ _. None), contacts_error = (\<lambda>_. None)\<rparr>"

definition sample_merged :: merge_db where
  "sample_merged =
    \<lparr>m_contacts =
       [\<lparr>row_id = ''a'', row_org = ''o'', row_phone = ''5571991234567'', row_profile = ''Ana'',
         row_assigned = Some ''u'', row_created = 1, row_deleted = False\<rparr>,
        \<lparr>row_id = ''b'', row_org = ''o'', row_phone = ''557191234567#merged-b'', row_profile = ''Ana'',
         row_assigned = Some ''u'', row_created = 2, row_deleted = True\<rparr>],
     m_children = [\<lparr>child_col = ''messages.contact_id'', child_of = Some ''a''\<rparr>]\<rparr>"

lemma sample_rows: "contacts_of ''o'' (m_contacts sample_contacts) = m_contacts sample_contacts"
  by (simp add: contacts_of_def sample_contacts_def)

lemma sample_groups: "duplicate_groups (map row_phone (m_contacts sample_contacts)) = Some [[0, 1]]"
  by code_simp

lemma sample_group_merged:
  "merge_group open_merge (m_contacts sample_contacts ! 0) [m_contacts sample_contacts ! 1] sample_contacts
     = Inr (1, sample_merged)"
  by code_simp

lemma sample_merge:
  "merge_duplicate_contacts open_merge True True ''o'' True sample_contacts =
     Inr (\<lparr>rep_groups = 1, rep_duplicates = 1, rep_moved = 1, rep_skipped = []\<rparr>, sample_merged)"
  unfolding merge_duplicate_contacts_def Let_def sample_rows sample_groups
  by (simp add: sample_group_merged [simplified])

lemma merge_leaves_one_row_per_subscriber_witness:
  "one_row_each ''o'' (m_contacts sample_merged) \<and> list_all2
     (child_kept ''o'' (contact_columns open_merge) (m_contacts sample_contacts) (m_contacts sample_merged))
     (m_children sample_contacts) (m_children sample_merged)"
  using merge_leaves_one_row_per_subscriber [OF sample_merge]
  by (simp add: sample_contacts_def)


subsection \<open>Groups that are left alone\<close>

text \<open>A dry run writes nothing and reports every group; a skipped group leaves the tables as they were.\<close>

lemma dry_run_writes_nothing:
  "merge_groups env False rows groups (rep, db) =
     (rep\<lparr>rep_groups := rep_groups rep + int (length groups),
          rep_duplicates := rep_duplicates rep + int (sum_list (map (\<lambda>g. length (tl g)) groups))\<rparr>, db)"
  by (induction groups arbitrary: rep) (simp_all add: Let_def)

lemma skipped_group_changes_nothing:
  assumes "merge_group env (rows ! hd g) (map ((!) rows) (tl g)) db = Inl e"
  shows "merge_groups env True rows [g] (rep, db) =
     (rep\<lparr>rep_groups := rep_groups rep + 1,
          rep_skipped := rep_skipped rep @ [skipped_line (rows ! hd g) e]\<rparr>, db)"
  using assms by (simp add: Let_def)

lemma merge_groups_keep_index:
  "phone_index (m_contacts db) \<Longrightarrow>
   phone_index (m_contacts (snd (merge_groups env b rows groups (rep, db))))"
proof (induction groups arbitrary: rep db)
  case (Cons g groups)
  then show ?case
    using merge_group_rows(2)
    by (auto simp: Let_def split: sum.splits prod.splits)
qed simp

text \<open>
  A number is retired only on the rows that are folded.  A soft-deleted row that already holds the
  canonical number is not among them, so the survivor cannot take the number and the whole group
  is skipped, whatever the run is repeated for.
\<close>

definition shadowed_contacts :: merge_db where
  "shadowed_contacts =
     sample_contacts\<lparr>m_contacts :=
       \<lparr>row_id = ''z'', row_org = ''o'', row_phone = ''5571991234567'', row_profile = '''',
         row_assigned = None, row_created = 0, row_deleted = True\<rparr> # m_contacts sample_contacts\<rparr>"

lemma deleted_row_blocks_the_merge:
  "merge_group open_merge (m_contacts sample_contacts ! 0) [m_contacts sample_contacts ! 1] shadowed_contacts
     = Inl ''duplicate key value''"
  by code_simp

end
