(* ===== verification/Template_Params.thy ===== *)
theory Template_Params
  imports Prelude
begin

text \<open>
  The parameters of a message template (\<open>internal/templateutil\<close>): the names a text declares, their
  values in order, the substitution that renders the text of a message, and the components of a
  send request (\<open>pkg/whatsapp/message.go\<close>).
\<close>

section \<open>Names\<close>

text \<open>\<open>ParameterPattern\<close> at the front of a text: two braces, text without a closing brace, two braces.\<close>

definition match_param :: "string \<Rightarrow> (string \<times> string) option" where
  "match_param s =
     (if take 2 s = ''{{'' then
        let name = takeWhile (\<lambda>c. c \<noteq> CHR ''}'') (drop 2 s);
            rest = dropWhile (\<lambda>c. c \<noteq> CHR ''}'') (drop 2 s)
        in if name \<noteq> [] \<and> take 2 rest = ''}}'' then Some (name, drop 2 rest) else None
      else None)"

lemma match_param_shorter: "match_param s = Some (name, rest) \<Longrightarrow> length rest < length s"
proof -
  assume m: "match_param s = Some (name, rest)"
  then have s: "take 2 s = ''{{''" and rest: "rest = drop 2 (dropWhile (\<lambda>c. c \<noteq> CHR ''}'') (drop 2 s))"
    by (auto simp: match_param_def Let_def split: if_splits)
  have "2 \<le> length s" using arg_cong [OF s, of length] by (simp add: min_def split: if_splits)
  then show ?thesis
    using rest length_dropWhile_le [of "\<lambda>c. c \<noteq> CHR ''}''" "drop 2 s"] by simp
qed

function param_matches :: "string \<Rightarrow> string list" where
  "param_matches s =
     (case s of [] \<Rightarrow> []
      | c # cs \<Rightarrow> (case match_param (c # cs) of
            None \<Rightarrow> param_matches cs
          | Some (name, rest) \<Rightarrow> name # param_matches rest))"
  by auto
termination
  by (relation "measure length") (auto dest: match_param_shorter)

declare param_matches.simps [simp del]

fun collect_names :: "string list \<Rightarrow> string list \<Rightarrow> string list" where
  "collect_names names [] = names"
| "collect_names names (m # ms) =
     (let name = trim_space m in
      collect_names (if name \<noteq> '''' \<and> name \<notin> set names then names @ [name] else names) ms)"

definition ext_param_names :: "string \<Rightarrow> string list" where
  "ext_param_names content = collect_names [] (param_matches content)"

definition ascii_digit :: "char \<Rightarrow> bool" where
  "ascii_digit c \<longleftrightarrow> 48 \<le> byte c \<and> byte c \<le> 57"

definition is_positional_param :: "string \<Rightarrow> bool" where
  "is_positional_param name \<longleftrightarrow> list_all ascii_digit name \<and> 0 < length name"

text \<open>\<^const>\<open>True\<close> is no error.\<close>

definition validate_header_param_count :: "string \<Rightarrow> bool" where
  "validate_header_param_count content \<longleftrightarrow> length (ext_param_names content) \<le> 1"

definition validate_no_mixed_params :: "string \<Rightarrow> bool" where
  "validate_no_mixed_params content \<longleftrightarrow>
     \<not> (list_ex is_positional_param (ext_param_names content)
        \<and> list_ex (\<lambda>n. \<not> is_positional_param n) (ext_param_names content))"

section \<open>Values\<close>

text \<open>
  A value is looked up by name, then by its position from 1.  \<open>show\<close> prints a value as \<open>%v\<close> does.
\<close>

definition param_value :: "('v \<Rightarrow> string) \<Rightarrow> (string \<times> 'v) list \<Rightarrow> nat \<Rightarrow> string \<Rightarrow> string option" where
  "param_value show params i name =
     (case map_of params name of
        Some v \<Rightarrow> Some (show v)
      | None \<Rightarrow> map_option show (map_of params (show_nat (i + 1))))"

definition resolve_params :: "('v \<Rightarrow> string) \<Rightarrow> string list \<Rightarrow> (string \<times> 'v) list \<Rightarrow> string list" where
  "resolve_params show names params =
     (if names = [] \<or> params = [] then []
      else map2 (\<lambda>i name. case param_value show params i name of None \<Rightarrow> '''' | Some v \<Rightarrow> v)
             [0..<length names] names)"

definition resolve_params_from_map :: "string list \<Rightarrow> (string \<times> string) list \<Rightarrow> string list" where
  "resolve_params_from_map names params = resolve_params (\<lambda>v. v) names params"

text \<open>\<open>strings.ReplaceAll\<close> for a non-empty old text.\<close>

function replace_all :: "string \<Rightarrow> string \<Rightarrow> string \<Rightarrow> string" where
  "replace_all old new s =
     (case s of [] \<Rightarrow> []
      | c # cs \<Rightarrow> (case (if old = [] then None else strip_prefix old (c # cs)) of
            None \<Rightarrow> c # replace_all old new cs
          | Some rest \<Rightarrow> new @ replace_all old new rest))"
  by auto
termination
  by (relation "measure (\<lambda>(old, new, s). length s)") (auto simp: strip_prefix_def split: if_splits)

declare replace_all.simps [simp del]

definition placeholder :: "string \<Rightarrow> string" where
  "placeholder name = ''{{'' @ name @ ''}}''"

fun replace_jsonb_from :: "('v \<Rightarrow> string) \<Rightarrow> (string \<times> 'v) list \<Rightarrow> nat \<Rightarrow> string list \<Rightarrow> string \<Rightarrow> string" where
  "replace_jsonb_from show params i [] content = content"
| "replace_jsonb_from show params i (name # names) content =
     (let val = (case param_value show params i name of None \<Rightarrow> '''' | Some v \<Rightarrow> v) in
      replace_jsonb_from show params (Suc i) names
        (replace_all (placeholder (show_nat (i + 1))) val
          (replace_all (placeholder name) val content)))"

definition replace_with_jsonb_params ::
    "('v \<Rightarrow> string) \<Rightarrow> string \<Rightarrow> string \<Rightarrow> (string \<times> 'v) list \<Rightarrow> string" where
  "replace_with_jsonb_params show body content params =
     (if params = [] \<or> ext_param_names body = [] then content
      else replace_jsonb_from show params 0 (ext_param_names body) content)"

fun replace_strings_from :: "(string \<times> string) list \<Rightarrow> nat \<Rightarrow> string list \<Rightarrow> string \<Rightarrow> string" where
  "replace_strings_from params i [] content = content"
| "replace_strings_from params i (name # names) content =
     replace_strings_from params (Suc i) names
       (case param_value (\<lambda>v. v) params i name of
          None \<Rightarrow> content
        | Some v \<Rightarrow> replace_all (placeholder name) v content)"

definition replace_with_string_params :: "string \<Rightarrow> (string \<times> string) list \<Rightarrow> string" where
  "replace_with_string_params content params =
     (if content = [] \<or> params = [] then content
      else replace_strings_from params 0 (ext_param_names content) content)"


section \<open>Substitution against its specification\<close>

text \<open>
  A template text as its author thinks of it: plain pieces and holes. \<open>filled\<close> is the text the
  author expects, every hole replaced by its own value and nothing else touched.
\<close>

datatype seg = Plain string | Hole string

fun seg_text :: "seg \<Rightarrow> string" where
  "seg_text (Plain t) = t"
| "seg_text (Hole n) = placeholder n"

definition template_text :: "seg list \<Rightarrow> string" where
  "template_text segs = concat (map seg_text segs)"

fun hole_names :: "seg list \<Rightarrow> string list" where
  "hole_names [] = []"
| "hole_names (Plain t # segs) = hole_names segs"
| "hole_names (Hole n # segs) = n # hole_names segs"

definition clean_name :: "string \<Rightarrow> bool" where
  "clean_name n \<longleftrightarrow> n \<noteq> [] \<and> CHR ''{'' \<notin> set n \<and> CHR ''}'' \<notin> set n \<and> trim_space n = n"

fun clean_seg :: "seg \<Rightarrow> bool" where
  "clean_seg (Plain t) \<longleftrightarrow> CHR ''{'' \<notin> set t"
| "clean_seg (Hole n) \<longleftrightarrow> clean_name n"

text \<open>The names in the order of their first occurrence.\<close>

fun first_names :: "string list \<Rightarrow> string list \<Rightarrow> string list" where
  "first_names names [] = names"
| "first_names names (n # ns) = first_names (if n \<in> set names then names else names @ [n]) ns"

definition hole_value :: "('v \<Rightarrow> string) \<Rightarrow> (string \<times> 'v) list \<Rightarrow> string list \<Rightarrow> string \<Rightarrow> string" where
  "hole_value show params names n =
     (case param_value show params (length (takeWhile (\<lambda>m. m \<noteq> n) names)) n of None \<Rightarrow> '''' | Some v \<Rightarrow> v)"

fun fill_seg :: "(string \<Rightarrow> string) \<Rightarrow> seg \<Rightarrow> string" where
  "fill_seg f (Plain t) = t"
| "fill_seg f (Hole n) = f n"

definition filled :: "('v \<Rightarrow> string) \<Rightarrow> (string \<times> 'v) list \<Rightarrow> seg list \<Rightarrow> string" where
  "filled show params segs =
     concat (map (fill_seg (hole_value show params (first_names [] (hole_names segs)))) segs)"

text \<open>Positional names appear in the order of their numbers: the first hole is \<open>1\<close>, and so on.\<close>

definition numbered_in_order :: "string list \<Rightarrow> bool" where
  "numbered_in_order names \<longleftrightarrow>
     list_all (\<lambda>i. names ! i = show_nat (i + 1) \<or> show_nat (i + 1) \<notin> set names) [0..<length names]"

lemma placeholder_ne [simp]: "placeholder n \<noteq> []"
  by (simp add: placeholder_def)

lemma replace_all_Nil [simp]: "replace_all old new [] = []"
  by (simp add: replace_all.simps)

lemma replace_all_skip:
  "strip_prefix old (c # cs) = None \<Longrightarrow> replace_all old new (c # cs) = c # replace_all old new cs"
  by (simp add: replace_all.simps [of _ _ "c # cs"])

lemma replace_all_hit:
  "old \<noteq> [] \<Longrightarrow> replace_all old new (old @ s) = new @ replace_all old new s"
  by (cases old) (simp_all add: replace_all.simps [of "_ # _"] strip_prefix_def)

lemma replace_all_plain:
  "CHR ''{'' \<notin> set t \<Longrightarrow> replace_all (placeholder n) v (t @ s) = t @ replace_all (placeholder n) v s"
proof (induction t)
  case (Cons c t)
  then have "strip_prefix (placeholder n) (c # t @ s) = None"
    by (auto simp: strip_prefix_None placeholder_def)
  then show ?case using Cons by (simp add: replace_all_skip)
qed simp

lemma brace_free_prefix:
  assumes "CHR ''}'' \<notin> set m" "CHR ''}'' \<notin> set n" "m @ CHR ''}'' # s = n @ CHR ''}'' # r"
  shows "m = n"
proof -
  have "takeWhile (\<lambda>c. c \<noteq> CHR ''}'') (m @ CHR ''}'' # s) = m"
    using assms(1) by (induction m) auto
  moreover have "takeWhile (\<lambda>c. c \<noteq> CHR ''}'') (n @ CHR ''}'' # r) = n"
    using assms(2) by (induction n) auto
  ultimately show ?thesis using assms(3) by simp
qed

lemma replace_all_other:
  assumes "clean_name m" "CHR ''}'' \<notin> set n" "m \<noteq> n"
  shows "replace_all (placeholder n) v (placeholder m @ s) = placeholder m @ replace_all (placeholder n) v s"
proof -
  obtain c cs where m: "m = c # cs" using assms(1) by (cases m) (auto simp: clean_name_def)
  have c: "c \<noteq> CHR ''{''" using assms(1) by (auto simp: clean_name_def m)
  have 1: "strip_prefix (placeholder n) (placeholder m @ s) = None"
    using brace_free_prefix [of m n] assms by (auto simp: strip_prefix_None placeholder_def clean_name_def)
  have 2: "strip_prefix (placeholder n) (CHR ''{'' # m @ ''}}'' @ s) = None"
    using c by (auto simp: strip_prefix_None placeholder_def m)
  have "replace_all (placeholder n) v (placeholder m @ s)
      = CHR ''{'' # CHR ''{'' # replace_all (placeholder n) v ((m @ ''}}'') @ s)"
    using replace_all_skip [OF 1 [unfolded placeholder_def [of m] append_Cons append_Nil]]
      replace_all_skip [OF 2]
    by (simp add: placeholder_def [of m])
  also have "\<dots> = CHR ''{'' # CHR ''{'' # (m @ ''}}'') @ replace_all (placeholder n) v s"
    using assms(1) by (subst replace_all_plain) (auto simp: clean_name_def)
  finally show ?thesis by (simp add: placeholder_def [of m])
qed

definition fill_name :: "string \<Rightarrow> string \<Rightarrow> seg \<Rightarrow> seg" where
  "fill_name n v s = (if s = Hole n then Plain v else s)"

lemma replace_all_segs:
  assumes "list_all clean_seg segs" "CHR ''}'' \<notin> set n"
  shows "replace_all (placeholder n) v (template_text segs) = template_text (map (fill_name n v) segs)"
  using assms(1)
proof (induction segs)
  case (Cons s segs)
  then show ?case
    using assms(2)
    by (cases s)
      (auto simp: template_text_def replace_all_plain replace_all_other replace_all_hit fill_name_def)
qed (simp add: template_text_def)

lemma match_param_plain: "c \<noteq> CHR ''{'' \<Longrightarrow> match_param (c # cs) = None"
  by (simp add: match_param_def)

lemma match_param_hole: "clean_name n \<Longrightarrow> match_param (placeholder n @ s) = Some (n, s)"
proof -
  assume n: "clean_name n"
  then have free: "CHR ''}'' \<notin> set n" and "n \<noteq> []" by (auto simp: clean_name_def)
  from free have "takeWhile (\<lambda>c. c \<noteq> CHR ''}'') (n @ ''}}'' @ s) = n"
    "dropWhile (\<lambda>c. c \<noteq> CHR ''}'') (n @ ''}}'' @ s) = ''}}'' @ s"
    by (induction n) auto
  then show ?thesis
    using \<open>n \<noteq> []\<close> by (simp add: match_param_def placeholder_def)
qed

lemma param_matches_plain: "CHR ''{'' \<notin> set t \<Longrightarrow> param_matches (t @ s) = param_matches s"
  by (induction t) (auto simp: param_matches.simps [of "_ # _"] match_param_plain)

lemma param_matches_hole: "clean_name n \<Longrightarrow> param_matches (placeholder n @ s) = n # param_matches s"
  using match_param_hole [of n s]
  by (subst param_matches.simps) (simp add: placeholder_def)

lemma param_matches_segs:
  "list_all clean_seg segs \<Longrightarrow> param_matches (template_text segs) = hole_names segs"
proof (induction segs)
  case Nil
  then show ?case by (simp add: template_text_def param_matches.simps)
next
  case (Cons s segs)
  then show ?case
    by (cases s) (auto simp: template_text_def param_matches_plain param_matches_hole)
qed

lemma hole_names_clean: "list_all clean_seg segs \<Longrightarrow> list_all clean_name (hole_names segs)"
  by (induction segs rule: hole_names.induct) auto

lemma collect_names_clean: "list_all clean_name ns \<Longrightarrow> collect_names names ns = first_names names ns"
  by (induction ns arbitrary: names) (auto simp: clean_name_def Let_def)

lemma ext_param_names_segs:
  "list_all clean_seg segs \<Longrightarrow> ext_param_names (template_text segs) = first_names [] (hole_names segs)"
  by (simp add: ext_param_names_def param_matches_segs collect_names_clean hole_names_clean)

lemma first_names_set [simp]: "set (first_names names ns) = set names \<union> set ns"
  by (induction ns arbitrary: names) auto

lemma first_names_distinct: "distinct names \<Longrightarrow> distinct (first_names names ns)"
  by (induction ns arbitrary: names) auto


fun fill_all :: "('v \<Rightarrow> string) \<Rightarrow> (string \<times> 'v) list \<Rightarrow> nat \<Rightarrow> string list \<Rightarrow> seg list \<Rightarrow> seg list" where
  "fill_all show params i [] segs = segs"
| "fill_all show params i (n # ns) segs =
     fill_all show params (Suc i) ns
       (map (fill_name n (case param_value show params i n of None \<Rightarrow> '''' | Some v \<Rightarrow> v)) segs)"

definition clean_values :: "('v \<Rightarrow> string) \<Rightarrow> (string \<times> 'v) list \<Rightarrow> bool" where
  "clean_values show params \<longleftrightarrow> list_all (\<lambda>(k, v). CHR ''{'' \<notin> set (show v)) params"

lemma param_value_clean:
  "clean_values show params \<Longrightarrow> param_value show params i n = Some v \<Longrightarrow> CHR ''{'' \<notin> set v"
  by (auto simp: clean_values_def param_value_def list_all_iff split: option.splits
      dest!: map_of_SomeD)

lemma fill_name_absent: "Hole n \<notin> set segs \<Longrightarrow> map (fill_name n v) segs = segs"
  by (induction segs) (auto simp: fill_name_def)

lemma hole_names_iff: "n \<in> set (hole_names segs) \<longleftrightarrow> Hole n \<in> set segs"
  by (induction segs rule: hole_names.induct) auto

lemma fill_name_clean:
  "CHR ''{'' \<notin> set v \<Longrightarrow> list_all clean_seg segs \<Longrightarrow> list_all clean_seg (map (fill_name n v) segs)"
  by (induction segs) (auto simp: fill_name_def)

lemma show_nat_brace_free: "CHR ''}'' \<notin> set (show_nat k)"
proof (induction k rule: show_nat.induct)
  case (1 n)
  have "CHR ''}'' \<noteq> char_of (48 + d)" if "d < 10" for d :: nat
  proof
    assume "CHR ''}'' = char_of (48 + d)"
    then have "byte CHR ''}'' = byte (char_of (48 + d))" by simp
    then show False using that by (simp add: byte_char_of)
  qed
  then show ?case using 1 by (subst show_nat.simps) auto
qed

lemma replace_jsonb_from_segs:
  assumes "list_all clean_seg segs" "clean_values show params" "distinct names" "list_all clean_name names"
    and "\<And>j. j < length names \<Longrightarrow>
           names ! j = show_nat (i + j + 1) \<or> Hole (show_nat (i + j + 1)) \<notin> set segs"
  shows "replace_jsonb_from show params i names (template_text segs)
       = template_text (fill_all show params i names segs)"
  using assms
proof (induction names arbitrary: i segs)
  case (Cons n names)
  define v where "v = (case param_value show params i n of None \<Rightarrow> '''' | Some v \<Rightarrow> v)"
  let ?segs = "map (fill_name n v) segs"
  have v: "CHR ''{'' \<notin> set v"
    using param_value_clean [OF Cons.prems(2)] by (auto simp: v_def split: option.splits)
  have clean: "list_all clean_seg ?segs" by (rule fill_name_clean [OF v Cons.prems(1)])
  have sub: "Hole m \<in> set segs \<and> m \<noteq> n" if "Hole m \<in> set ?segs" for m
    using that by (auto simp: fill_name_def split: if_splits)
  have named: "replace_all (placeholder n) v (template_text segs) = template_text ?segs"
    using Cons.prems(4) by (intro replace_all_segs [OF Cons.prems(1)]) (auto simp: clean_name_def)
  have "Hole (show_nat (i + 1)) \<notin> set ?segs"
    using Cons.prems(5) [of 0] sub by auto
  then have numbered: "replace_all (placeholder (show_nat (i + 1))) v (template_text ?segs) = template_text ?segs"
    using replace_all_segs [OF clean show_nat_brace_free] fill_name_absent by metis
  have "replace_jsonb_from show params (Suc i) names (template_text ?segs)
      = template_text (fill_all show params (Suc i) names ?segs)"
  proof (rule Cons.IH [OF clean Cons.prems(2)])
    show "names ! j = show_nat (Suc i + j + 1) \<or> Hole (show_nat (Suc i + j + 1)) \<notin> set ?segs"
      if "j < length names" for j
      using Cons.prems(5) [of "Suc j"] that sub by auto
  qed (use Cons.prems in auto)
  then show ?case using named numbered by (simp add: v_def [symmetric] Let_def)
qed simp

lemma fill_all_text:
  assumes "distinct names"
  shows "map seg_text (fill_all show params i names segs) =
    map (\<lambda>s. case s of Plain t \<Rightarrow> t
       | Hole n \<Rightarrow> if n \<in> set names
           then (case param_value show params (i + length (takeWhile (\<lambda>m. m \<noteq> n) names)) n of
                   None \<Rightarrow> '''' | Some v \<Rightarrow> v)
           else placeholder n) segs"
  using assms
proof (induction names arbitrary: i segs)
  case Nil
  then show ?case by (auto split: seg.splits)
next
  case (Cons n names)
  then show ?case
    by (auto simp: fill_name_def split: seg.splits)
qed

lemma first_names_nonempty: "ns \<noteq> [] \<Longrightarrow> first_names [] ns \<noteq> []"
  by (metis first_names_set list.set(1) set_empty sup_bot.left_neutral)

text \<open>
  On a template whose positional names appear in their numeric order, and with
  values that contain no opening brace, the one-after-the-other replacement of the code is the
  simultaneous substitution: every hole becomes the value of its own name (or of its position) and
  no other byte of the text changes.\<close>

theorem replacement_is_substitution:
  assumes "list_all clean_seg segs" "clean_values show params" "params \<noteq> []"
    and "numbered_in_order (first_names [] (hole_names segs))"
  shows "replace_with_jsonb_params show (template_text segs) (template_text segs) params
       = filled show params segs"
proof -
  let ?names = "first_names [] (hole_names segs)"
  have names: "ext_param_names (template_text segs) = ?names" by (rule ext_param_names_segs [OF assms(1)])
  have d: "distinct ?names" by (rule first_names_distinct) simp
  have rendered: "template_text (fill_all show params 0 ?names segs) = filled show params segs"
  proof -
    have "map seg_text (fill_all show params 0 ?names segs)
        = map (fill_seg (hole_value show params ?names)) segs"
      unfolding fill_all_text [OF d]
      by (intro map_cong [OF refl]) (auto simp: hole_value_def hole_names_iff split: seg.splits)
    then show ?thesis by (simp add: template_text_def filled_def)
  qed
  show ?thesis
  proof (cases "?names = []")
    case True
    then show ?thesis
      using rendered names by (simp add: replace_with_jsonb_params_def)
  next
    case False
    have "replace_jsonb_from show params 0 ?names (template_text segs)
        = template_text (fill_all show params 0 ?names segs)"
    proof (rule replace_jsonb_from_segs [OF assms(1,2) d])
      show "list_all clean_name ?names"
        using hole_names_clean [OF assms(1)] by (simp add: list_all_iff)
      show "?names ! j = show_nat (0 + j + 1) \<or> Hole (show_nat (0 + j + 1)) \<notin> set segs"
        if "j < length ?names" for j
        using assms(4) that by (auto simp: numbered_in_order_def list_all_iff hole_names_iff)
    qed
    then show ?thesis
      using False assms(3) names rendered by (simp add: replace_with_jsonb_params_def)
  qed
qed

text \<open>
  Out of order the second replacement of a round hits the wrong hole: the value of the first name
  is also written into the hole numbered 1, and the value of that hole is never used.
\<close>

lemma positional_value_in_the_wrong_hole:
  "replace_with_jsonb_params (\<lambda>v. v) ''Pedido {{2}} de {{1}}'' ''Pedido {{2}} de {{1}}''
     [(''1'', ''Ana''), (''2'', ''99'')] = ''Pedido 99 de 99''"
  "replace_with_string_params ''Pedido {{2}} de {{1}}'' [(''1'', ''Ana''), (''2'', ''99'')] = ''Pedido 99 de Ana''"
  by code_simp+

text \<open>A value that contains a placeholder is substituted again; a name written with blanks never is.\<close>

lemma value_is_substituted_again:
  "replace_with_jsonb_params (\<lambda>v. v) ''{{nome}}, pedido {{id}}'' ''{{nome}}, pedido {{id}}''
     [(''nome'', ''{{id}}''), (''id'', ''7'')] = ''7, pedido 7''"
  by code_simp

lemma spaced_name_is_not_replaced:
  "ext_param_names ''Ola {{ nome }}'' = [''nome'']"
  "replace_with_jsonb_params (\<lambda>v. v) ''Ola {{ nome }}'' ''Ola {{ nome }}'' [(''nome'', ''Ana'')] = ''Ola {{ nome }}''"
  by code_simp+

lemma replacement_is_substitution_witness:
  "replace_with_jsonb_params (\<lambda>v. v) (template_text [Plain ''Oi '', Hole ''nome'', Plain ''!''])
     (template_text [Plain ''Oi '', Hole ''nome'', Plain ''!'']) [(''nome'', ''Ana'')] = ''Oi Ana!''"
proof -
  have "list_all clean_seg [Plain ''Oi '', Hole ''nome'', Plain ''!'']"
    "clean_values (\<lambda>v. v) [(''nome'', ''Ana'')]"
    "numbered_in_order (first_names [] (hole_names [Plain ''Oi '', Hole ''nome'', Plain ''!'']))"
    by code_simp+
  from replacement_is_substitution [OF this(1,2) _ this(3)] show ?thesis
    by (simp add: filled_def hole_value_def param_value_def)
qed


section \<open>The components of a send request\<close>

text \<open>\<open>strconv.Atoi\<close>: an optional sign and decimal digits, within 64 bits.\<close>

definition digits_nat :: "string \<Rightarrow> nat" where
  "digits_nat ds = foldl (\<lambda>n c. 10 * n + (byte c - 48)) 0 ds"

definition atoi :: "string \<Rightarrow> int option" where
  "atoi s =
     (let negative = (s \<noteq> [] \<and> hd s = CHR ''-'');
          ds = (if s \<noteq> [] \<and> (hd s = CHR ''-'' \<or> hd s = CHR ''+'') then tl s else s);
          i = (if negative then - int (digits_nat ds) else int (digits_nat ds))
      in if ds \<noteq> [] \<and> list_all ascii_digit ds \<and> - (2 ^ 63) \<le> i \<and> i < 2 ^ 63 then Some i else None)"

text \<open>
  The keys of the map come in no particular order; \<open>force\<close> sorts them as text. Two positional keys
  with the same number (\<open>1\<close> and \<open>01\<close>) stay in the order they came in.
\<close>

definition sort_param_keys :: "string list \<Rightarrow> bool \<Rightarrow> string list" where
  "sort_param_keys keys force =
     (if force then sort keys
      else if list_ex (\<lambda>k. atoi k = None) keys then sort keys
      else sort_key (\<lambda>k. the (atoi k)) keys)"

definition text_parameter :: "bool \<Rightarrow> string \<Rightarrow> string \<Rightarrow> any" where
  "text_parameter named key v =
     AObj ([(''type'', AStr ''text''), (''text'', AStr v)]
           @ (if named then [(''parameter_name'', AStr key)] else []))"

definition params_component :: "string \<Rightarrow> any list \<Rightarrow> any" where
  "params_component kind ps = AObj [(''type'', AStr kind), (''parameters'', AArr ps)]"

definition body_params_to_components :: "(string \<times> string) list \<Rightarrow> any list" where
  "body_params_to_components params =
     (if params = [] then []
      else let named = list_ex (\<lambda>k. atoi k = None) (map fst params);
               keys = sort_param_keys (map fst params) named
           in [params_component ''body''
                 (map (\<lambda>k. text_parameter named k (case map_of params k of None \<Rightarrow> '''' | Some v \<Rightarrow> v)) keys)])"

definition str_get :: "(string \<times> string) list \<Rightarrow> string \<Rightarrow> string" where
  "str_get m k = (case map_of m k of None \<Rightarrow> '''' | Some v \<Rightarrow> v)"

definition contains_braces :: "string \<Rightarrow> bool" where
  "contains_braces s \<longleftrightarrow> list_ex (\<lambda>i. take 2 (drop i s) = ''{{'') [0..<length s]"

text \<open>\<^const>\<open>None\<close> is the error of a header with more than one variable.\<close>

definition header_text_params_component ::
    "string \<Rightarrow> (string \<times> string) list \<Rightarrow> (string \<times> string) list \<Rightarrow> any option option" where
  "header_text_params_component content params fallback =
     (if \<not> contains_braces content then Some None
      else let names = ext_param_names content in
        if names = [] then Some None
        else if 1 < length names then None
        else let name = hd names;
                 value = (if str_get params name = '''' then str_get fallback name else str_get params name)
             in Some (Some (params_component ''header'' [text_parameter (atoi name = None) name value])))"

definition build_template_components ::
    "(string \<times> string) list \<Rightarrow> string \<Rightarrow> string \<Rightarrow> (string \<times> string) list \<Rightarrow> string \<Rightarrow> string
     \<Rightarrow> any list option" where
  "build_template_components body_params header_type header_content header_params media_id media_filename =
     (let kind = to_lower header_type;
          body = body_params_to_components body_params
      in if kind = ''text'' then
           (case header_text_params_component header_content header_params body_params of
              None \<Rightarrow> None
            | Some None \<Rightarrow> Some body
            | Some (Some h) \<Rightarrow> Some (h # body))
         else if kind \<in> {''image'', ''video'', ''document''} \<and> media_id \<noteq> '''' then
           Some (params_component ''header''
             [AObj [(''type'', AStr kind),
                    (kind, AObj ([(''id'', AStr media_id)]
                       @ (if kind = ''document'' \<and> media_filename \<noteq> ''''
                          then [(''filename'', AStr media_filename)] else [])))]] # body)
         else Some body)"


lemma digits_nat_show: "digits_nat (show_nat n) = n"
proof (induction n rule: less_induct)
  case (less n)
  show ?case
  proof (cases "n < 10")
    case True
    then show ?thesis by (simp add: digits_nat_def show_nat.simps [of n] byte_char_of)
  next
    case False
    then have "digits_nat (show_nat (n div 10)) = n div 10" by (intro less) simp
    then show ?thesis using False byte_char_of [of "48 + n mod 10"]
      by (simp add: digits_nat_def show_nat.simps [of n])
  qed
qed

lemma show_nat_digits: "list_all ascii_digit (show_nat n)" "show_nat n \<noteq> []"
proof (induction n rule: show_nat.induct)
  case (1 n)
  have "ascii_digit (char_of (48 + d))" if "d < 10" for d :: nat
    using that by (simp add: ascii_digit_def byte_char_of)
  then show "list_all ascii_digit (show_nat n)" using 1(1) by (subst show_nat.simps) simp
  show "show_nat n \<noteq> []" by (subst show_nat.simps) simp
qed

lemma atoi_show: "n < 2 ^ 63 \<Longrightarrow> atoi (show_nat n) = Some (int n)"
proof -
  assume n: "n < 2 ^ 63"
  have "ascii_digit (hd (show_nat n))" using show_nat_digits [of n] by (cases "show_nat n") auto
  then have "hd (show_nat n) \<noteq> CHR ''-''" "hd (show_nat n) \<noteq> CHR ''+''" by (auto simp: ascii_digit_def)
  moreover have "int n < 2 ^ 63" using n by (metis of_nat_less_iff of_nat_numeral of_nat_power)
  ultimately show ?thesis
    using show_nat_digits [of n] by (simp add: atoi_def Let_def digits_nat_show)
qed

text \<open>
  Positional values leave in the order of their numbers, in whatever order the map is walked: the
  tenth does not slip between the first and the second.
\<close>

lemma positional_values_in_numeric_order:
  assumes "distinct (map fst params)" "set (map fst params) = show_nat ` {1..n}" "0 < n" "n < 2 ^ 63"
  shows "body_params_to_components params =
     [params_component ''body'' (map (\<lambda>i. text_parameter False (show_nat i) (str_get params (show_nat i))) [1..<Suc n])]"
proof -
  let ?keys = "map fst params" and ?num = "\<lambda>k. the (atoi k)"
  have num: "?num (show_nat i) = int i" if "i \<le> n" for i using that assms(4) by (simp add: atoi_show)
  have all: "list_ex (\<lambda>k. atoi k = None) ?keys = False"
  proof -
    have "atoi k \<noteq> None" if k: "k \<in> set ?keys" for k
    proof -
      obtain i where "k = show_nat i" "i \<le> n" using k unfolding assms(2) by auto
      then show ?thesis using assms(4) by (simp add: atoi_show)
    qed
    then show ?thesis by (auto simp: list_ex_iff)
  qed
  have "map ?num (sort_key ?num ?keys) = map ?num (map show_nat [1..<Suc n])"
  proof (rule sorted_distinct_set_unique)
    show "sorted (map ?num (sort_key ?num ?keys))" by simp
    have nums: "set (map ?num ?keys) = int ` {1..n}"
      unfolding set_map [of ?num] assms(2) image_image by (intro image_cong) (auto simp: num)
    have inj: "inj_on ?num (set ?keys)"
      unfolding assms(2) by (intro inj_onI) (auto simp: num)
    show "distinct (map ?num (sort_key ?num ?keys))"
      using assms(1) inj by (simp add: distinct_map)
    have list: "map ?num (map show_nat [1..<Suc n]) = map int [1..<Suc n]"
      by (simp add: num del: upt_Suc)
    show "sorted (map ?num (map show_nat [1..<Suc n]))" "distinct (map ?num (map show_nat [1..<Suc n]))"
      unfolding list by (simp_all add: sorted_wrt_map distinct_map del: upt_Suc)
    show "set (map ?num (sort_key ?num ?keys)) = set (map ?num (map show_nat [1..<Suc n]))"
      using nums unfolding list by (simp add: atLeastLessThanSuc_atLeastAtMost image_image del: upt_Suc)
  qed
  moreover have "inj_on ?num (set (sort_key ?num ?keys) \<union> set (map show_nat [1..<Suc n]))"
    using assms(2) by (intro inj_onI) (auto simp: num atLeastLessThanSuc_atLeastAtMost simp del: upt_Suc)
  ultimately have "sort_key ?num ?keys = map show_nat [1..<Suc n]"
    by (rule map_inj_on)
  moreover have "params \<noteq> []" using assms(2,3) by (auto simp: image_iff)
  ultimately show ?thesis
    using all by (simp add: body_params_to_components_def sort_param_keys_def str_get_def Let_def o_def del: upt_Suc)
qed

text \<open>Sorting the keys as text would put \<open>10\<close> right after \<open>1\<close>.\<close>

lemma named_values_in_lexical_order:
  "sort_param_keys [''2'', ''10'', ''1''] True = [''1'', ''10'', ''2'']"
  "sort_param_keys [''2'', ''10'', ''1''] False = [''1'', ''2'', ''10'']"
  by code_simp+

section \<open>Button components\<close>

definition upper_char :: "char \<Rightarrow> char" where
  "upper_char c = (if 97 \<le> byte c \<and> byte c \<le> 122 then char_of (byte c - 32) else c)"

definition to_upper :: "string \<Rightarrow> string" where
  "to_upper s = map upper_char s"

definition button_component :: "string \<Rightarrow> string \<Rightarrow> any \<Rightarrow> any" where
  "button_component sub index p =
     AObj [(''type'', AStr ''button''), (''sub_type'', AStr sub), (''index'', AStr index), (''parameters'', AArr [p])]"

text \<open>\<open>nano\<close> is the clock as each button reads it.\<close>

definition auto_button :: "(nat \<Rightarrow> int) \<Rightarrow> nat \<Rightarrow> any \<Rightarrow> any list" where
  "auto_button nano i raw =
     (case as_obj raw of
        None \<Rightarrow> []
      | Some btn \<Rightarrow>
          if to_upper (str_of (jget btn ''type'')) = ''FLOW'' then
            [button_component ''flow'' (show_nat i)
               (AObj [(''type'', AStr ''action''),
                      (''action'', AObj [(''flow_token'', AStr (''flow_'' @ show_int (nano i)))])])]
          else [])"

definition auto_button_components :: "(nat \<Rightarrow> int) \<Rightarrow> any list \<Rightarrow> any list" where
  "auto_button_components nano buttons =
     concat (map (\<lambda>(i, raw). auto_button nano i raw) (zip [0..<length buttons] buttons))"

text \<open>The type of a button and whether it was an \<open>OTP\<close> button; \<^const>\<open>None\<close> when it has no type.\<close>

definition button_kind :: "any \<Rightarrow> (string \<times> bool) option" where
  "button_kind raw =
     (case as_obj raw of
        None \<Rightarrow> None
      | Some btn \<Rightarrow> (case as_str (jget btn ''type'') of
          None \<Rightarrow> None
        | Some t \<Rightarrow>
            if to_upper t = ''OTP'' then
              Some (case as_str (jget btn ''otp_type'') of
                      Some o' \<Rightarrow> (to_upper o', True) | None \<Rightarrow> (to_upper t, True))
            else Some (to_upper t, False)))"

definition kind_at :: "any list \<Rightarrow> string \<Rightarrow> string \<times> bool" where
  "kind_at buttons key =
     (case List.find (\<lambda>(i, raw). show_nat i = key) (zip [0..<length buttons] buttons) of
        None \<Rightarrow> ('''', False)
      | Some (i, raw) \<Rightarrow> (case button_kind raw of None \<Rightarrow> ('''', False) | Some k \<Rightarrow> k))"

definition static_kinds :: "string list" where
  "static_kinds = [''QUICK_REPLY'', ''FLOW'', ''PHONE_NUMBER'', ''VOICE_CALL'', ''ONE_TAP'', ''ZERO_TAP'']"

definition button_url_component :: "any list \<Rightarrow> string \<Rightarrow> string \<Rightarrow> any list" where
  "button_url_component buttons index v =
     (let (kind, otp) = kind_at buttons index in
      if kind \<in> set static_kinds then []
      else if kind = ''COPY_CODE'' \<and> \<not> otp then
        [button_component ''copy_code'' index
           (AObj [(''type'', AStr ''coupon_code''), (''coupon_code'', AStr v)])]
      else [button_component ''url'' index (AObj [(''type'', AStr ''text''), (''text'', AStr v)])])"

definition button_url_params_to_components :: "(string \<times> string) list \<Rightarrow> any list \<Rightarrow> any list" where
  "button_url_params_to_components params buttons =
     concat (map (\<lambda>k. button_url_component buttons k (str_get params k)) (sort_param_keys (map fst params) False))"

text \<open>
  Every component names a button of the request and none of the types without parameters, and the
  components follow the numeric order of their buttons.
\<close>

fun component_index :: "any \<Rightarrow> string" where
  "component_index (AObj m) = str_of (jget m ''index'')"
| "component_index _ = ''''"

lemma button_component_index [simp]: "component_index (button_component sub i p) = i"
  by (simp add: button_component_def jget_def str_of_def)

lemma button_components_of_one_key:
  "map component_index (button_url_component buttons k v)
     = (if fst (kind_at buttons k) \<in> set static_kinds then [] else [k])"
  by (simp add: button_url_component_def Let_def split: prod.split)

lemma button_components_follow_their_buttons:
  "map component_index (button_url_params_to_components params buttons)
     = filter (\<lambda>k. fst (kind_at buttons k) \<notin> set static_kinds) (sort_param_keys (map fst params) False)"
proof -
  have "map component_index (concat (map (\<lambda>k. button_url_component buttons k (f k)) ks))
      = filter (\<lambda>k. fst (kind_at buttons k) \<notin> set static_kinds) ks" for f ks
    by (induction ks) (simp_all add: button_components_of_one_key)
  then show ?thesis by (simp add: button_url_params_to_components_def)
qed

text \<open>An \<open>OTP\<close> button that copies a code is sent as a link, any other one that does as a code.\<close>

lemma copy_code_kinds:
  "button_url_params_to_components [(''1'', ''42''), (''0'', ''99'')]
     [AObj [(''type'', AStr ''COPY_CODE'')], AObj [(''type'', AStr ''otp''), (''otp_type'', AStr ''copy_code'')]]
   = [button_component ''copy_code'' ''0'' (AObj [(''type'', AStr ''coupon_code''), (''coupon_code'', AStr ''99'')]),
      button_component ''url'' ''1'' (AObj [(''type'', AStr ''text''), (''text'', AStr ''42'')])]"
  by code_simp

end
