(* ===== verification/Campaigns.thy ===== *)
theory Campaigns
  imports Contact_Identity Template_Params
begin

text \<open>
  Bulk campaigns: the handlers that create, fill, start, pause, cancel and retry a campaign
  (\<open>internal/handlers/campaigns.go\<close>), the stream the jobs travel on (\<open>internal/queue/redis.go\<close>),
  the worker that sends one message per job (\<open>internal/worker/worker.go\<close>) and the delivery
  reports that move the counters (\<open>internal/handlers/webhook.go\<close>). A request is one step; what can come
  between its statements in the code is shown on examples at the end.
\<close>

section \<open>The tables\<close>

datatype campaign_status =
  CampDraft | CampScheduled | CampQueued | CampProcessing | CampPaused | CampCompleted
  | CampCancelled | CampFailed

datatype msg_status = MsgPending | MsgSent | MsgDelivered | MsgRead | MsgFailed | MsgOther string

record campaign =
  cp_id :: string
  cp_org :: string
  cp_account :: string
  cp_name :: string
  cp_template :: string
  cp_media :: string
  cp_media_name :: string
  cp_status :: campaign_status
  cp_total :: int
  cp_sent :: int
  cp_delivered :: int
  cp_read :: int
  cp_failed :: int
  cp_scheduled :: "int option"
  cp_started :: "int option"
  cp_completed :: "int option"
  cp_deleted :: bool

record recipient =
  rc_id :: string
  rc_camp :: string
  rc_phone :: string
  rc_name :: string
  rc_params :: jsonb
  rc_header :: jsonb
  rc_status :: msg_status
  rc_wamid :: string
  rc_error :: string
  rc_sent_at :: "int option"
  rc_deleted :: bool

record recipient_job =
  jb_camp :: string
  jb_recipient :: string
  jb_org :: string
  jb_phone :: string
  jb_name :: string
  jb_params :: jsonb
  jb_header :: jsonb

text \<open>
  An entry of the stream that the group has not acknowledged; \<open>se_delivered\<close> says it was handed to
  a consumer, so only a claim hands it out again.
\<close>

record stream_entry =
  se_id :: nat
  se_job :: recipient_job
  se_delivered :: bool

record wa_template =
  tp_id :: string
  tp_org :: string
  tp_name :: string
  tp_category :: string
  tp_body :: string
  tp_header_type :: string
  tp_header :: string
  tp_buttons :: "any list"
  tp_deleted :: bool

record campaign_message =
  mg_camp :: string
  mg_contact :: string
  mg_wamid :: string
  mg_status :: msg_status
  mg_error :: string
  mg_content :: string

record contact_attrs =
  ct_kind :: string
  ct_unit :: "string option"
  ct_dept :: "string option"
  ct_opt_out :: bool

text \<open>One call to the send interface of WhatsApp, with what the worker had read by then.\<close>

record sent_call =
  sd_camp :: string
  sd_recipient :: string
  sd_status :: campaign_status
  sd_contact :: string
  sd_marketing :: bool
  sd_opted_out :: bool

record camp_world =
  w_camps :: "campaign list"
  w_recips :: "recipient list"
  w_stream :: "stream_entry list"
  w_entries :: nat
  w_contacts :: "crow list"
  w_attrs :: "string \<Rightarrow> contact_attrs"
  w_accounts :: "(string \<times> string) list"
  w_templates :: "wa_template list"
  w_occurrences :: "(string \<times> string) list"
  w_msgs :: "campaign_message list"
  w_calls :: "sent_call list"

text \<open>
  What the services do during one operation: \<open>e_ok\<close> says which database statements succeed, by
  name; \<open>e_enqueue\<close> is \<^const>\<open>None\<close> when the whole pipeline is accepted and otherwise says which of
  its jobs were; \<open>e_send\<close> is the WhatsApp client and \<open>e_nano\<close> its clock for each button; \<open>e_meanwhile\<close> is what other processes write
  between the last read and the last write of the worker.
\<close>

record camp_env =
  e_now :: int
  e_new_id :: string
  e_recipient_id :: "nat \<Rightarrow> string"
  e_ok :: "string \<Rightarrow> bool"
  e_identity :: identity_env
  e_show :: "any \<Rightarrow> string"
  e_nano :: "nat \<Rightarrow> int"
  e_send :: "wa_template \<Rightarrow> string \<Rightarrow> any list \<Rightarrow> string + string"
  e_enqueue :: "(nat \<Rightarrow> bool) option"
  e_meanwhile :: "camp_world \<Rightarrow> camp_world"
  e_units :: "string list"
  e_departments :: "string list"

datatype camp_reply = Refused nat string | Created campaign | Accepted string | Counted int "string list" int

section \<open>Shared steps\<close>

definition find_campaign :: "camp_env \<Rightarrow> camp_world \<Rightarrow> string \<Rightarrow> string \<Rightarrow> campaign option" where
  "find_campaign E w i org =
     (if e_ok E ''find campaign''
      then find (\<lambda>c. cp_id c = i \<and> cp_org c = org \<and> \<not> cp_deleted c) (w_camps w) else None)"

text \<open>\<open>UPDATE ... WHERE id = ?\<close> on live rows.\<close>

definition update_campaign_row :: "string \<Rightarrow> (campaign \<Rightarrow> campaign) \<Rightarrow> camp_world \<Rightarrow> camp_world" where
  "update_campaign_row i f w =
     w\<lparr>w_camps := map (\<lambda>c. if cp_id c = i \<and> \<not> cp_deleted c then f c else c) (w_camps w)\<rparr>"

definition set_status :: "campaign_status \<Rightarrow> campaign \<Rightarrow> campaign" where
  "set_status s c = c\<lparr>cp_status := s\<rparr>"

text \<open>Every handler starts with the organisation of the caller and the id of the path.\<close>

definition with_campaign ::
    "camp_env \<Rightarrow> string option \<Rightarrow> string option \<Rightarrow> camp_world
     \<Rightarrow> (string \<Rightarrow> campaign \<Rightarrow> camp_reply \<times> camp_world) \<Rightarrow> camp_reply \<times> camp_world" where
  "with_campaign E org i w act =
     (case org of None \<Rightarrow> (Refused 401 ''Unauthorized'', w)
      | Some o' \<Rightarrow> (case i of None \<Rightarrow> (Refused 400 ''Invalid campaign ID'', w)
        | Some k \<Rightarrow> (case find_campaign E w k o' of None \<Rightarrow> (Refused 404 ''Campaign not found'', w)
          | Some c \<Rightarrow> act o' c)))"

definition job_of :: "string \<Rightarrow> string \<Rightarrow> recipient \<Rightarrow> recipient_job" where
  "job_of camp org r =
     \<lparr>jb_camp = camp, jb_recipient = rc_id r, jb_org = org, jb_phone = rc_phone r, jb_name = rc_name r,
      jb_params = rc_params r, jb_header = rc_header r\<rparr>"

text \<open>\<open>EnqueueRecipients\<close>: a pipeline of \<open>XADD\<close>; an error may leave some of the jobs on the stream.\<close>

definition enqueue_recipients :: "camp_env \<Rightarrow> recipient_job list \<Rightarrow> camp_world \<Rightarrow> bool \<times> camp_world" where
  "enqueue_recipients E jobs w =
     (let numbered = zip [0..<length jobs] jobs;
          kept = (case e_enqueue E of None \<Rightarrow> numbered | Some p \<Rightarrow> filter (\<lambda>(k, j). p k) numbered)
      in (e_enqueue E = None,
          w\<lparr>w_stream := w_stream w
              @ map (\<lambda>(k, j). \<lparr>se_id = w_entries w + k, se_job = j, se_delivered = False\<rparr>) kept,
            w_entries := w_entries w + length jobs\<rparr>))"

definition recipients_with :: "string \<Rightarrow> msg_status \<Rightarrow> camp_world \<Rightarrow> recipient list" where
  "recipients_with camp s w =
     filter (\<lambda>r. rc_camp r = camp \<and> rc_status r = s \<and> \<not> rc_deleted r) (w_recips w)"

section \<open>The handlers\<close>

record campaign_request =
  rq_name :: string
  rq_account :: string
  rq_template :: "string option"
  rq_template_given :: bool
  rq_media :: string
  rq_scheduled :: "int option"

text \<open>
  The template id of the request is \<^const>\<open>None\<close> when it is not a UUID; \<open>rq_template_given\<close> says it
  is not the empty string. An empty account name stands for the default account of the
  organisation, or for any of its accounts.
\<close>

definition template_exists :: "camp_env \<Rightarrow> camp_world \<Rightarrow> string \<Rightarrow> string \<Rightarrow> bool" where
  "template_exists E w t org \<longleftrightarrow>
     e_ok E ''find template'' \<and> (\<exists>x \<in> set (w_templates w). tp_id x = t \<and> tp_org x = org \<and> \<not> tp_deleted x)"

definition account_exists :: "camp_env \<Rightarrow> camp_world \<Rightarrow> string \<Rightarrow> string \<Rightarrow> bool" where
  "account_exists E w org name \<longleftrightarrow>
     e_ok E ''find account''
     \<and> (if name = '''' then org \<in> snd ` set (w_accounts w) else (name, org) \<in> set (w_accounts w))"

definition create_campaign ::
    "camp_env \<Rightarrow> string option \<Rightarrow> campaign_request option \<Rightarrow> camp_world \<Rightarrow> camp_reply \<times> camp_world" where
  "create_campaign E org req w =
     (case org of None \<Rightarrow> (Refused 401 ''Unauthorized'', w)
      | Some o' \<Rightarrow>
        (case req of None \<Rightarrow> (Refused 400 ''Invalid request body'', w)
         | Some q \<Rightarrow>
           (case rq_template q of None \<Rightarrow> (Refused 400 ''Invalid template ID'', w)
            | Some t \<Rightarrow>
              if \<not> template_exists E w t o' then (Refused 404 ''Template not found'', w)
              else if \<not> account_exists E w o' (rq_account q) then (Refused 400 ''WhatsApp account not found'', w)
              else if \<not> e_ok E ''create'' then (Refused 500 ''Failed to create campaign'', w)
              else let c = \<lparr>cp_id = e_new_id E, cp_org = o', cp_account = rq_account q, cp_name = rq_name q,
                            cp_template = t, cp_media = rq_media q, cp_media_name = '''', cp_status = CampDraft,
                            cp_total = 0, cp_sent = 0, cp_delivered = 0, cp_read = 0, cp_failed = 0,
                            cp_scheduled = rq_scheduled q, cp_started = None, cp_completed = None,
                            cp_deleted = False\<rparr>
                   in (Created c, w\<lparr>w_camps := w_camps w @ [c]\<rparr>))))"

definition update_campaign ::
    "camp_env \<Rightarrow> string option \<Rightarrow> string option \<Rightarrow> campaign_request option \<Rightarrow> camp_world
     \<Rightarrow> camp_reply \<times> camp_world" where
  "update_campaign E org i req w =
     with_campaign E org i w (\<lambda>o' c.
       if cp_status c \<noteq> CampDraft then (Refused 400 ''Can only update draft campaigns'', w)
       else case req of None \<Rightarrow> (Refused 400 ''Invalid request body'', w)
       | Some q \<Rightarrow>
         if rq_template_given q \<and> rq_template q = None then (Refused 400 ''Invalid template ID'', w)
         else if \<not> e_ok E ''update'' then (Refused 500 ''Failed to update campaign'', w)
         else (Accepted ''updated'',
               update_campaign_row (cp_id c) (\<lambda>x. x\<lparr>cp_name := rq_name q, cp_scheduled := rq_scheduled q,
                 cp_template := (if rq_template_given q then the (rq_template q) else cp_template x),
                 cp_account := (if rq_account q \<noteq> '''' then rq_account q else cp_account x)\<rparr>) w))"

text \<open>The recipients go first; when the second statement fails the campaign stays without them.\<close>

definition delete_campaign ::
    "camp_env \<Rightarrow> string option \<Rightarrow> string option \<Rightarrow> camp_world \<Rightarrow> camp_reply \<times> camp_world" where
  "delete_campaign E org i w =
     with_campaign E org i w (\<lambda>o' c.
       if cp_status c \<in> {CampProcessing, CampQueued} then (Refused 400 ''Cannot delete running campaign'', w)
       else if \<not> e_ok E ''delete recipients'' then (Refused 500 ''Failed to delete campaign'', w)
       else let w1 = w\<lparr>w_recips :=
                   map (\<lambda>r. if rc_camp r = cp_id c then r\<lparr>rc_deleted := True\<rparr> else r) (w_recips w)\<rparr>
         in if \<not> e_ok E ''delete campaign'' then (Refused 500 ''Failed to delete campaign'', w1)
            else (Accepted ''deleted'', update_campaign_row (cp_id c) (\<lambda>x. x\<lparr>cp_deleted := True\<rparr>) w1))"

text \<open>
  \<open>StartCampaign\<close> after the campaign was found: its reads, the update and the enqueueing are one step here,
  as the statements of every handler are. Only the worker's completion has other writes in between.
\<close>

definition start_body :: "camp_env \<Rightarrow> camp_world \<Rightarrow> string \<Rightarrow> campaign \<Rightarrow> camp_reply \<times> camp_world" where
  "start_body E w o' c =
    (if cp_status c \<notin> {CampDraft, CampScheduled, CampPaused}
       then (Refused 400 ''Campaign cannot be started in current state'', w)
       else if \<not> e_ok E ''load recipients'' then (Refused 500 ''Failed to load recipients'', w)
       else let recips = recipients_with (cp_id c) MsgPending w in
         if recips = [] then (Refused 400 ''Campaign has no pending recipients'', w)
         else if cp_template c \<noteq> '''' \<and> \<not> template_exists E w (cp_template c) o'
         then (Refused 400 ''Campaign template no longer exists'', w)
         else if \<not> e_ok E ''start'' then (Refused 500 ''Failed to start campaign'', w)
         else let w1 = update_campaign_row (cp_id c)
                     (\<lambda>x. x\<lparr>cp_status := CampProcessing, cp_started := Some (e_now E)\<rparr>) w;
                  (queued, w2) = enqueue_recipients E (map (job_of (cp_id c) o') recips) w1
           in if queued then (Accepted ''started'', w2)
              else (Refused 500 ''Failed to queue recipients'',
                    if e_ok E ''revert'' then update_campaign_row (cp_id c) (set_status CampDraft) w2 else w2))"

definition start_campaign ::
    "camp_env \<Rightarrow> string option \<Rightarrow> string option \<Rightarrow> camp_world \<Rightarrow> camp_reply \<times> camp_world" where
  "start_campaign E org i w = with_campaign E org i w (start_body E w)"

definition pause_campaign ::
    "camp_env \<Rightarrow> string option \<Rightarrow> string option \<Rightarrow> camp_world \<Rightarrow> camp_reply \<times> camp_world" where
  "pause_campaign E org i w =
     with_campaign E org i w (\<lambda>o' c.
       if cp_status c \<notin> {CampProcessing, CampQueued} then (Refused 400 ''Campaign is not running'', w)
       else if \<not> e_ok E ''pause'' then (Refused 500 ''Failed to pause campaign'', w)
       else (Accepted ''paused'', update_campaign_row (cp_id c) (set_status CampPaused) w))"

definition cancel_campaign ::
    "camp_env \<Rightarrow> string option \<Rightarrow> string option \<Rightarrow> camp_world \<Rightarrow> camp_reply \<times> camp_world" where
  "cancel_campaign E org i w =
     with_campaign E org i w (\<lambda>o' c.
       if cp_status c \<in> {CampCompleted, CampCancelled} then (Refused 400 ''Campaign already finished'', w)
       else if \<not> e_ok E ''cancel'' then (Refused 500 ''Failed to cancel campaign'', w)
       else (Accepted ''cancelled'', update_campaign_row (cp_id c) (set_status CampCancelled) w))"

text \<open>\<open>recalculateCampaignStats\<close> counts the messages of the campaign, not its recipients.\<close>

definition count_messages :: "string \<Rightarrow> msg_status set \<Rightarrow> camp_world \<Rightarrow> int" where
  "count_messages camp ss w =
     int (length (filter (\<lambda>m. mg_camp m = camp \<and> mg_status m \<in> ss) (w_msgs w)))"

definition recalculate_stats :: "camp_env \<Rightarrow> string \<Rightarrow> camp_world \<Rightarrow> camp_world" where
  "recalculate_stats E camp w =
     (if e_ok E ''scan stats'' \<and> e_ok E ''write stats'' then
        update_campaign_row camp (\<lambda>x. x\<lparr>
          cp_sent := count_messages camp {MsgSent, MsgDelivered, MsgRead} w,
          cp_delivered := count_messages camp {MsgDelivered, MsgRead} w,
          cp_read := count_messages camp {MsgRead} w,
          cp_failed := count_messages camp {MsgFailed} w\<rparr>) w
      else w)"

definition retry_body :: "camp_env \<Rightarrow> camp_world \<Rightarrow> string \<Rightarrow> campaign \<Rightarrow> camp_reply \<times> camp_world" where
  "retry_body E w o' c =
    (if cp_status c \<notin> {CampCompleted, CampPaused, CampFailed}
       then (Refused 400 ''Can only retry failed messages on completed, paused, or failed campaigns'', w)
       else if \<not> e_ok E ''load failed'' then (Refused 500 ''Failed to load failed recipients'', w)
       else let failed = recipients_with (cp_id c) MsgFailed w in
         if failed = [] then (Refused 400 ''No failed messages to retry'', w)
         else if \<not> e_ok E ''reset recipients'' then (Refused 500 ''Failed to reset failed recipients'', w)
         else let w1 = w\<lparr>w_recips :=
                   map (\<lambda>r. if rc_camp r = cp_id c \<and> rc_status r = MsgFailed \<and> \<not> rc_deleted r
                            then r\<lparr>rc_status := MsgPending, rc_error := ''''\<rparr> else r) (w_recips w)\<rparr>;
                  w2 = (if e_ok E ''reset messages'' then w1\<lparr>w_msgs :=
                   map (\<lambda>m. if mg_camp m = cp_id c \<and> mg_status m = MsgFailed
                            then m\<lparr>mg_status := MsgPending, mg_error := ''''\<rparr> else m) (w_msgs w1)\<rparr> else w1);
                  w3 = recalculate_stats E (cp_id c) w2
           in if \<not> e_ok E ''retry status'' then (Refused 500 ''Failed to update campaign'', w3)
              else let w4 = update_campaign_row (cp_id c) (set_status CampProcessing) w3;
                       (queued, w5) = enqueue_recipients E (map (job_of (cp_id c) o') failed) w4
                in if queued then (Accepted ''retrying'', w5)
                   else (Refused 500 ''Failed to queue recipients'', w5))"

definition retry_failed ::
    "camp_env \<Rightarrow> string option \<Rightarrow> string option \<Rightarrow> camp_world \<Rightarrow> camp_reply \<times> camp_world" where
  "retry_failed E org i w = with_campaign E org i w (retry_body E w)"

subsection \<open>Recipients\<close>

record recipient_request =
  rr_phone :: string
  rr_name :: string
  rr_params :: jsonb
  rr_header :: jsonb

text \<open>The identities of every live contact with an open occurrence; the flag is the error of the query.\<close>

definition active_occurrence_phones :: "camp_env \<Rightarrow> camp_world \<Rightarrow> string \<Rightarrow> string list option" where
  "active_occurrence_phones E w org =
     (if e_ok E ''active occurrences''
      then Some (concat (map (\<lambda>r. phone_identities (row_phone r))
             (filter (\<lambda>r. row_org r = org \<and> \<not> row_deleted r
                        \<and> (org, row_id r) \<in> set (w_occurrences w)) (w_contacts w))))
      else None)"

definition new_recipient :: "camp_env \<Rightarrow> string \<Rightarrow> nat \<Rightarrow> recipient_request \<Rightarrow> recipient" where
  "new_recipient E camp k q =
     \<lparr>rc_id = e_recipient_id E k, rc_camp = camp, rc_phone = rr_phone q, rc_name = rr_name q,
      rc_params = rr_params q, rc_header = rr_header q, rc_status = MsgPending, rc_wamid = '''',
      rc_error = '''', rc_sent_at = None, rc_deleted = False\<rparr>"

definition live_recipients :: "string \<Rightarrow> camp_world \<Rightarrow> recipient list" where
  "live_recipients camp w = filter (\<lambda>r. rc_camp r = camp \<and> \<not> rc_deleted r) (w_recips w)"

text \<open>The batches are inserted in one transaction. A failed count is not looked at and writes 0.\<close>

definition add_campaign_recipients ::
    "camp_env \<Rightarrow> string \<Rightarrow> campaign \<Rightarrow> recipient_request list \<Rightarrow> bool \<Rightarrow> camp_world
     \<Rightarrow> camp_reply \<times> camp_world" where
  "add_campaign_recipients E org c reqs dry w =
     (case active_occurrence_phones E w org of
        None \<Rightarrow> (Refused 500 ''Failed to add recipients'', w)
      | Some blocked \<Rightarrow>
          let is_blocked = (\<lambda>q. normalize_phone (rr_phone q) \<in> set blocked);
              skipped = map rr_phone (filter is_blocked reqs);
              kept = filter (\<lambda>q. \<not> is_blocked q) reqs;
              recips = map2 (new_recipient E (cp_id c)) [0..<length kept] kept
          in if dry then (Counted (int (length recips)) skipped (cp_total c), w)
             else if recips \<noteq> [] \<and> \<not> e_ok E ''insert recipients''
             then (Refused 500 ''Failed to add recipients'', w)
             else let w1 = w\<lparr>w_recips := w_recips w @ recips\<rparr>;
                      total = (if e_ok E ''count recipients''
                               then int (length (live_recipients (cp_id c) w1)) else 0)
               in (Counted (int (length recips)) skipped total,
                   if e_ok E ''write total''
                   then update_campaign_row (cp_id c) (\<lambda>x. x\<lparr>cp_total := total\<rparr>) w1 else w1))"

definition import_recipients ::
    "camp_env \<Rightarrow> string option \<Rightarrow> string option \<Rightarrow> recipient_request list option \<Rightarrow> camp_world
     \<Rightarrow> camp_reply \<times> camp_world" where
  "import_recipients E org i reqs w =
     with_campaign E org i w (\<lambda>o' c.
       if cp_status c \<noteq> CampDraft then (Refused 400 ''Can only add recipients to draft campaigns'', w)
       else case reqs of None \<Rightarrow> (Refused 400 ''Invalid request body'', w)
       | Some qs \<Rightarrow> add_campaign_recipients E o' c qs False w)"

text \<open>
  The filters of \<open>AddRecipientsFromContacts\<close>. A unit or department id is \<^const>\<open>None\<close> when it is
  absent or the empty string, and \<open>Some None\<close> when it is not a UUID.
\<close>

record segment_request =
  sg_ddds :: "string list"
  sg_kind :: string
  sg_unit :: "string option option"
  sg_dept :: "string option option"
  sg_dry :: bool

definition valid_ddd :: "string \<Rightarrow> bool" where
  "valid_ddd d \<longleftrightarrow> length d = 2 \<and> byte CHR ''1'' \<le> byte (d ! 0) \<and> byte (d ! 0) \<le> byte CHR ''9''
     \<and> phone_digit (d ! 1)"

definition contact_kinds :: "string list" where
  "contact_kinds = [''cliente'', ''fornecedor'', ''colaborador'']"

definition marketing_template :: "camp_env \<Rightarrow> camp_world \<Rightarrow> string \<Rightarrow> bool" where
  "marketing_template E w t \<longleftrightarrow>
     e_ok E ''load category''
     \<and> (case find (\<lambda>x. tp_id x = t \<and> \<not> tp_deleted x) (w_templates w) of
          None \<Rightarrow> False | Some x \<Rightarrow> equal_fold (tp_category x) ''MARKETING'')"

definition in_segment ::
    "string \<Rightarrow> string \<Rightarrow> segment_request \<Rightarrow> bool \<Rightarrow> camp_world \<Rightarrow> crow \<Rightarrow> bool" where
  "in_segment org camp q marketing w r \<longleftrightarrow>
     row_org r = org \<and> \<not> row_deleted r
     \<and> (\<forall>b \<in> set (live_recipients camp w). normalize_phone (rc_phone b) \<noteq> normalize_phone (row_phone r))
     \<and> (sg_ddds q = [] \<or> take 4 (normalize_phone (row_phone r)) \<in> set (map (\<lambda>d. ''55'' @ d) (sg_ddds q)))
     \<and> (sg_kind q = '''' \<or> ct_kind (w_attrs w (row_id r)) = sg_kind q)
     \<and> (case sg_unit q of Some (Some u) \<Rightarrow> ct_unit (w_attrs w (row_id r)) = Some u | _ \<Rightarrow> True)
     \<and> (case sg_dept q of Some (Some d) \<Rightarrow> ct_dept (w_attrs w (row_id r)) = Some d | _ \<Rightarrow> True)
     \<and> (marketing \<longrightarrow> \<not> ct_opt_out (w_attrs w (row_id r)))"

definition placement_error :: "camp_env \<Rightarrow> segment_request \<Rightarrow> (nat \<times> string) option" where
  "placement_error E q =
     (if sg_unit q = Some None then Some (400, ''Invalid unit_id'')
      else if sg_dept q = Some None then Some (400, ''Invalid department_id'')
      else if (case sg_unit q of Some (Some u) \<Rightarrow> u \<notin> set (e_units E) | _ \<Rightarrow> False)
      then Some (404, ''Unit not found'')
      else if (case sg_dept q of Some (Some d) \<Rightarrow> d \<notin> set (e_departments E) | _ \<Rightarrow> False)
      then Some (404, ''Department not found'')
      else None)"

definition add_recipients_from_contacts ::
    "camp_env \<Rightarrow> string option \<Rightarrow> string option \<Rightarrow> segment_request option \<Rightarrow> camp_world
     \<Rightarrow> camp_reply \<times> camp_world" where
  "add_recipients_from_contacts E org i req w =
     with_campaign E org i w (\<lambda>o' c.
       if cp_status c \<noteq> CampDraft then (Refused 400 ''Can only add recipients to draft campaigns'', w)
       else case req of None \<Rightarrow> (Refused 400 ''Invalid request body'', w)
       | Some q \<Rightarrow>
         (case find (\<lambda>d. \<not> valid_ddd d) (sg_ddds q) of
            Some d \<Rightarrow> (Refused 400 (''Invalid DDD: '' @ d), w)
          | None \<Rightarrow>
            if sg_kind q \<noteq> '''' \<and> sg_kind q \<notin> set contact_kinds
            then (Refused 400 ''contact_type must be one of: cliente, fornecedor, colaborador'', w)
            else (case placement_error E q of Some (n, m) \<Rightarrow> (Refused n m, w)
            | None \<Rightarrow>
              if sg_ddds q = [] \<and> sg_kind q = '''' \<and> sg_unit q = None \<and> sg_dept q = None
              then (Refused 400 ''At least one filter is required: ddds, contact_type, unit_id or department_id'', w)
              else if \<not> e_ok E ''load contacts'' then (Refused 500 ''Failed to load contacts'', w)
              else let rows = filter (in_segment o' (cp_id c) q (marketing_template E w (cp_template c)) w)
                                (w_contacts w);
                       recs = map (\<lambda>r. \<lparr>rr_phone = row_phone r, rr_name = row_profile r,
                                        rr_params = [], rr_header = []\<rparr>) rows
                in add_campaign_recipients E o' c recs (sg_dry q) w)))"

definition delete_campaign_recipient ::
    "camp_env \<Rightarrow> string option \<Rightarrow> string option \<Rightarrow> string option \<Rightarrow> camp_world \<Rightarrow> camp_reply \<times> camp_world" where
  "delete_campaign_recipient E org i rid w =
     (if org \<noteq> None \<and> i \<noteq> None \<and> rid = None then (Refused 400 ''Invalid recipient ID'', w)
      else with_campaign E org i w (\<lambda>o' c.
        if cp_status c \<noteq> CampDraft then (Refused 400 ''Can only delete recipients from draft campaigns'', w)
        else if \<not> e_ok E ''delete recipient'' then (Refused 500 ''Failed to delete recipient'', w)
        else let hit = (\<lambda>r. Some (rc_id r) = rid \<and> rc_camp r = cp_id c \<and> \<not> rc_deleted r) in
          if filter hit (w_recips w) = [] then (Refused 404 ''Recipient not found'', w)
          else let w1 = w\<lparr>w_recips := map (\<lambda>r. if hit r then r\<lparr>rc_deleted := True\<rparr> else r) (w_recips w)\<rparr>
            in (Accepted ''recipient deleted'',
                if e_ok E ''decrement total''
                then update_campaign_row (cp_id c) (\<lambda>x. x\<lparr>cp_total := cp_total x - 1\<rparr>) w1 else w1)))"


section \<open>The worker\<close>

datatype job_result = JobOk | JobErr | JobPanic

definition update_recipient_status ::
    "camp_env \<Rightarrow> string \<Rightarrow> msg_status \<Rightarrow> string \<Rightarrow> string \<Rightarrow> camp_world \<Rightarrow> camp_world" where
  "update_recipient_status E rid s wamid err w =
     (if e_ok E ''recipient status'' then
        w\<lparr>w_recips := map (\<lambda>r. if rc_id r = rid \<and> \<not> rc_deleted r
            then r\<lparr>rc_status := s, rc_wamid := wamid,
                   rc_sent_at := (if s = MsgSent then Some (e_now E) else rc_sent_at r),
                   rc_error := (if err \<noteq> '''' then err else rc_error r)\<rparr> else r) (w_recips w)\<rparr>
      else w)"

definition increment_count :: "camp_env \<Rightarrow> string \<Rightarrow> (campaign \<Rightarrow> campaign) \<Rightarrow> camp_world \<Rightarrow> camp_world" where
  "increment_count E camp f w =
     (if e_ok E ''increment'' then update_campaign_row camp f w else w)"

definition one_more_failed :: "campaign \<Rightarrow> campaign" where
  "one_more_failed c = c\<lparr>cp_failed := cp_failed c + 1\<rparr>"

definition one_more_sent :: "campaign \<Rightarrow> campaign" where
  "one_more_sent c = c\<lparr>cp_sent := cp_sent c + 1\<rparr>"

definition mark_failed :: "camp_env \<Rightarrow> recipient_job \<Rightarrow> string \<Rightarrow> camp_world \<Rightarrow> camp_world" where
  "mark_failed E j err w =
     increment_count E (jb_camp j) one_more_failed
       (update_recipient_status E (jb_recipient j) MsgFailed '''' err w)"

text \<open>The error of the count is not looked at, so a failed count reads as no pending recipient.\<close>

definition check_campaign_completion :: "camp_env \<Rightarrow> string \<Rightarrow> camp_world \<Rightarrow> camp_world" where
  "check_campaign_completion E camp w =
     (let pending = (if e_ok E ''count pending'' then length (recipients_with camp MsgPending w) else 0) in
      if pending \<noteq> 0 \<or> \<not> e_ok E ''reload campaign'' then w
      else case find (\<lambda>c. cp_id c = camp \<and> \<not> cp_deleted c) (w_camps w) of
        None \<Rightarrow> w
      | Some c \<Rightarrow>
          if cp_status c \<noteq> CampProcessing then w
          else let w1 = e_meanwhile E w in
            if e_ok E ''complete'' then
              update_campaign_row camp
                (\<lambda>x. x\<lparr>cp_status := CampCompleted, cp_completed := Some (e_now E)\<rparr>) w1
            else w1)"

text \<open>
  \<open>sendTemplateMessage\<close>: the body values by name, the header value, the components, the call.
  The left result is an error before the call, the right one the outcome of the call.
\<close>

definition header_values :: "camp_env \<Rightarrow> wa_template \<Rightarrow> recipient_job \<Rightarrow> (string \<times> string) list" where
  "header_values E t j =
     (if tp_header_type t \<noteq> ''TEXT'' then []
      else case ext_param_names (tp_header t) of
        [name] \<Rightarrow>
          (case map_of (jb_header j) name of
             Some v \<Rightarrow> [(name, e_show E v)]
           | None \<Rightarrow> (case map_of (jb_params j) name of Some v \<Rightarrow> [(name, e_show E v)] | None \<Rightarrow> []))
      | _ \<Rightarrow> [])"

definition body_values :: "camp_env \<Rightarrow> wa_template \<Rightarrow> recipient_job \<Rightarrow> (string \<times> string) list" where
  "body_values E t j =
     (let names = ext_param_names (tp_body t) in
      zip names (resolve_params (e_show E) names (jb_params j)))"

definition send_template_message ::
    "camp_env \<Rightarrow> campaign \<Rightarrow> wa_template \<Rightarrow> recipient_job \<Rightarrow> string + (string + string)" where
  "send_template_message E c t j =
     (case build_template_components (body_values E t j) (tp_header_type t) (tp_header t)
             (header_values E t j) (cp_media c) (cp_media_name c) of
        None \<Rightarrow> Inl ''failed to build template components''
      | Some comps \<Rightarrow>
          Inr (e_send E t (jb_phone j) (comps @ auto_button_components (e_nano E) (tp_buttons t))))"

definition load_template :: "camp_world \<Rightarrow> campaign \<Rightarrow> wa_template option" where
  "load_template w c = find (\<lambda>x. tp_id x = cp_template c \<and> \<not> tp_deleted x) (w_templates w)"

definition deliver :: "camp_env \<Rightarrow> campaign \<Rightarrow> wa_template \<Rightarrow> recipient_job \<Rightarrow> crow \<Rightarrow> camp_world \<Rightarrow> camp_world" where
  "deliver E c t j contact w =
     (let outcome = send_template_message E c t j;
          call = \<lparr>sd_camp = cp_id c, sd_recipient = jb_recipient j, sd_status = cp_status c,
                  sd_contact = row_id contact, sd_marketing = equal_fold (tp_category t) ''MARKETING'',
                  sd_opted_out = ct_opt_out (w_attrs w (row_id contact))\<rparr>;
          w1 = (case outcome of Inl _ \<Rightarrow> w | Inr _ \<Rightarrow> w\<lparr>w_calls := w_calls w @ [call]\<rparr>);
          result = (case outcome of Inl e \<Rightarrow> Inl e | Inr r \<Rightarrow> r);
          content = replace_with_jsonb_params (e_show E) (tp_body t) (tp_body t) (jb_params j);
          w2 = (case result of
                  Inl e \<Rightarrow> mark_failed E j e w1
                | Inr wamid \<Rightarrow>
                    increment_count E (jb_camp j) one_more_sent
                      (update_recipient_status E (jb_recipient j) MsgSent wamid '''' w1));
          msg = \<lparr>mg_camp = jb_camp j, mg_contact = row_id contact,
                 mg_wamid = (case result of Inl _ \<Rightarrow> '''' | Inr wamid \<Rightarrow> wamid),
                 mg_status = (case result of Inl _ \<Rightarrow> MsgFailed | Inr _ \<Rightarrow> MsgSent),
                 mg_error = (case result of Inl e \<Rightarrow> e | Inr _ \<Rightarrow> ''''), mg_content = content\<rparr>;
          w3 = (if e_ok E ''create message'' then w2\<lparr>w_msgs := w_msgs w2 @ [msg]\<rparr> else w2)
      in check_campaign_completion E (jb_camp j) w3)"

text \<open>
  \<open>HandleRecipientJob\<close>. The template is read with the campaign and is absent when it was deleted
  meanwhile; the send dereferences it all the same.
\<close>

definition handle_recipient_job :: "camp_env \<Rightarrow> recipient_job \<Rightarrow> camp_world \<Rightarrow> job_result \<times> camp_world" where
  "handle_recipient_job E j w =
     (case (if e_ok E ''load campaign''
            then find (\<lambda>c. cp_id c = jb_camp j \<and> \<not> cp_deleted c) (w_camps w) else None) of
        None \<Rightarrow> (JobErr, w)
      | Some c \<Rightarrow>
          if cp_status c \<in> {CampPaused, CampCancelled} then (JobOk, w)
          else if \<not> (e_ok E ''load account'' \<and> (cp_account c, jb_org j) \<in> set (w_accounts w))
          then (JobOk, mark_failed E j ''WhatsApp account not found'' w)
          else (case get_or_create_contact (e_identity E) (w_contacts w) (jb_org j) (jb_phone j) (jb_name j) of
              (Inl _, rows) \<Rightarrow> (JobOk, mark_failed E j ''Failed to create contact'' (w\<lparr>w_contacts := rows\<rparr>))
            | (Inr (contact, _), rows) \<Rightarrow>
                let w1 = w\<lparr>w_contacts := rows\<rparr>;
                    tmpl = load_template w c
                in (case tmpl of
                      None \<Rightarrow> (JobPanic, w1)
                    | Some t \<Rightarrow>
                        if ct_opt_out (w_attrs w (row_id contact)) \<and> equal_fold (tp_category t) ''MARKETING''
                        then (JobOk, mark_failed E j ''Contact opted out of marketing messages'' w1)
                        else (JobOk, deliver E c t j contact w1))))"

section \<open>The stream\<close>

definition acknowledge :: "camp_env \<Rightarrow> nat \<Rightarrow> camp_world \<Rightarrow> camp_world" where
  "acknowledge E k w =
     (if e_ok E ''ack'' then w\<lparr>w_stream := filter (\<lambda>s. se_id s \<noteq> k) (w_stream w)\<rparr> else w)"

definition process_entry :: "camp_env \<Rightarrow> stream_entry \<Rightarrow> camp_world \<Rightarrow> job_result \<times> camp_world" where
  "process_entry E s w =
     (let w0 = w\<lparr>w_stream := map (\<lambda>x. if se_id x = se_id s then x\<lparr>se_delivered := True\<rparr> else x) (w_stream w)\<rparr>
      in case handle_recipient_job E (se_job s) w0 of
        (JobOk, w1) \<Rightarrow> (JobOk, acknowledge E (se_id s) w1)
      | (r, w1) \<Rightarrow> (r, w1))"

text \<open>\<open>Consume\<close> takes the next new entry; \<open>claimPendingMessages\<close> takes over an entry of a dead worker.\<close>

definition consume_next :: "camp_env \<Rightarrow> camp_world \<Rightarrow> camp_world" where
  "consume_next E w =
     (case find (\<lambda>s. \<not> se_delivered s) (w_stream w) of
        None \<Rightarrow> w | Some s \<Rightarrow> snd (process_entry E s w))"

definition claim_entry :: "camp_env \<Rightarrow> nat \<Rightarrow> camp_world \<Rightarrow> camp_world" where
  "claim_entry E k w =
     (case find (\<lambda>s. se_delivered s \<and> se_id s = k) (w_stream w) of
        None \<Rightarrow> w | Some s \<Rightarrow> snd (process_entry E s w))"

section \<open>Delivery reports\<close>

fun status_priority :: "msg_status \<Rightarrow> int" where
  "status_priority MsgPending = 0"
| "status_priority MsgSent = 1"
| "status_priority MsgDelivered = 2"
| "status_priority MsgRead = 3"
| "status_priority MsgFailed = 4"
| "status_priority (MsgOther _) = -1"

definition increment_campaign_stat :: "camp_env \<Rightarrow> string \<Rightarrow> msg_status \<Rightarrow> camp_world \<Rightarrow> camp_world" where
  "increment_campaign_stat E camp s w =
     (if \<not> e_ok E ''stat'' then w
      else if s = MsgDelivered then update_campaign_row camp (\<lambda>c. c\<lparr>cp_delivered := cp_delivered c + 1\<rparr>) w
      else if s = MsgRead then update_campaign_row camp (\<lambda>c. c\<lparr>cp_read := cp_read c + 1\<rparr>) w
      else if s = MsgFailed then update_campaign_row camp one_more_failed w
      else w)"

fun replace_first :: "('a \<Rightarrow> bool) \<Rightarrow> 'a \<Rightarrow> 'a list \<Rightarrow> 'a list" where
  "replace_first P y [] = []"
| "replace_first P y (x # xs) = (if P x then y # xs else x # replace_first P y xs)"

text \<open>\<open>updateMessageStatus\<close> for a message of a campaign; \<open>err\<close> is the text of the report's first error.\<close>

definition update_message_status :: "camp_env \<Rightarrow> string \<Rightarrow> msg_status \<Rightarrow> string \<Rightarrow> camp_world \<Rightarrow> camp_world" where
  "update_message_status E wamid s err w =
     (case (if e_ok E ''find message'' then find (\<lambda>m. mg_wamid m = wamid) (w_msgs w) else None) of
        None \<Rightarrow> w
      | Some m \<Rightarrow>
          if status_priority s \<le> status_priority (mg_status m) \<and> s \<noteq> MsgFailed then w
          else if s \<notin> {MsgSent, MsgDelivered, MsgRead, MsgFailed} then w
          else if \<not> e_ok E ''write message'' then w
          else let m' = m\<lparr>mg_status := s, mg_error := (if s = MsgFailed \<and> err \<noteq> '''' then err else mg_error m)\<rparr>;
                   w1 = w\<lparr>w_msgs := replace_first (\<lambda>x. mg_wamid x = wamid) m' (w_msgs w)\<rparr>;
                   w2 = increment_campaign_stat E (mg_camp m) s w1
               in if e_ok E ''report recipient'' then
                    w2\<lparr>w_recips := map (\<lambda>r. if rc_wamid r = wamid \<and> \<not> rc_deleted r
                        then r\<lparr>rc_status := s,
                               rc_error := (if s = MsgFailed \<and> err \<noteq> '''' then err else rc_error r)\<rparr>
                        else r) (w_recips w2)\<rparr>
                  else w2)"


section \<open>Runs\<close>

text \<open>One request, one job of the worker, or one report; each with its own services.\<close>

datatype camp_op =
    OpCreate "string option" "campaign_request option"
  | OpUpdate "string option" "string option" "campaign_request option"
  | OpDelete "string option" "string option"
  | OpStart "string option" "string option"
  | OpPause "string option" "string option"
  | OpCancel "string option" "string option"
  | OpRetry "string option" "string option"
  | OpImport "string option" "string option" "recipient_request list option"
  | OpSegment "string option" "string option" "segment_request option"
  | OpRemove "string option" "string option" "string option"
  | OpConsume
  | OpClaim nat
  | OpReport string msg_status string

fun run_op :: "camp_env \<Rightarrow> camp_op \<Rightarrow> camp_world \<Rightarrow> camp_world" where
  "run_op E (OpCreate org req) w = snd (create_campaign E org req w)"
| "run_op E (OpUpdate org i req) w = snd (update_campaign E org i req w)"
| "run_op E (OpDelete org i) w = snd (delete_campaign E org i w)"
| "run_op E (OpStart org i) w = snd (start_campaign E org i w)"
| "run_op E (OpPause org i) w = snd (pause_campaign E org i w)"
| "run_op E (OpCancel org i) w = snd (cancel_campaign E org i w)"
| "run_op E (OpRetry org i) w = snd (retry_failed E org i w)"
| "run_op E (OpImport org i reqs) w = snd (import_recipients E org i reqs w)"
| "run_op E (OpSegment org i req) w = snd (add_recipients_from_contacts E org i req w)"
| "run_op E (OpRemove org i rid) w = snd (delete_campaign_recipient E org i rid w)"
| "run_op E OpConsume w = consume_next E w"
| "run_op E (OpClaim k) w = claim_entry E k w"
| "run_op E (OpReport wamid s err) w = update_message_status E wamid s err w"

fun run_ops :: "(camp_env \<times> camp_op) list \<Rightarrow> camp_world \<Rightarrow> camp_world" where
  "run_ops [] w = w"
| "run_ops ((E, x) # ops) w = run_ops ops (run_op E x w)"

subsection \<open>Every call to WhatsApp was allowed\<close>

lemma update_campaign_row_frame [simp]:
  "w_calls (update_campaign_row i f w) = w_calls w"
  "w_recips (update_campaign_row i f w) = w_recips w"
  "w_stream (update_campaign_row i f w) = w_stream w"
  "w_contacts (update_campaign_row i f w) = w_contacts w"
  "w_attrs (update_campaign_row i f w) = w_attrs w"
  "w_entries (update_campaign_row i f w) = w_entries w"
  "w_msgs (update_campaign_row i f w) = w_msgs w"
  by (simp_all add: update_campaign_row_def)

lemma increment_count_frame [simp]:
  "w_calls (increment_count E i f w) = w_calls w"
  "w_recips (increment_count E i f w) = w_recips w"
  "w_stream (increment_count E i f w) = w_stream w"
  by (simp_all add: increment_count_def)

lemma update_recipient_status_frame [simp]:
  "w_calls (update_recipient_status E i s m e w) = w_calls w"
  "w_camps (update_recipient_status E i s m e w) = w_camps w"
  "w_stream (update_recipient_status E i s m e w) = w_stream w"
  by (simp_all add: update_recipient_status_def)

lemma mark_failed_frame [simp]:
  "w_calls (mark_failed E j e w) = w_calls w"
  "w_stream (mark_failed E j e w) = w_stream w"
  by (simp_all add: mark_failed_def)

lemma enqueue_frame [simp]:
  "w_calls (snd (enqueue_recipients E js w)) = w_calls w"
  "w_camps (snd (enqueue_recipients E js w)) = w_camps w"
  "w_recips (snd (enqueue_recipients E js w)) = w_recips w"
  by (simp_all add: enqueue_recipients_def Let_def)

lemma enqueue_keeps:
  "enqueue_recipients E js w = (q, w') \<Longrightarrow>
     q = (e_enqueue E = None) \<and> w_calls w' = w_calls w \<and> w_camps w' = w_camps w \<and> w_recips w' = w_recips w"
  by (auto simp: enqueue_recipients_def Let_def)

lemma recalculate_frame [simp]:
  "w_calls (recalculate_stats E i w) = w_calls w"
  "w_recips (recalculate_stats E i w) = w_recips w"
  "w_stream (recalculate_stats E i w) = w_stream w"
  "w_entries (recalculate_stats E i w) = w_entries w"
  by (simp_all add: recalculate_stats_def)

definition call_allowed :: "sent_call \<Rightarrow> bool" where
  "call_allowed s \<longleftrightarrow> sd_status s \<notin> {CampPaused, CampCancelled} \<and> \<not> (sd_marketing s \<and> sd_opted_out s)"

text \<open>What other processes write between two statements of the worker adds no call of this worker.\<close>

definition quiet_meanwhile :: "camp_env \<Rightarrow> bool" where
  "quiet_meanwhile E \<longleftrightarrow> (\<forall>w. w_calls (e_meanwhile E w) = w_calls w)"

lemma check_completion_calls:
  "quiet_meanwhile E \<Longrightarrow> w_calls (check_campaign_completion E i w) = w_calls w"
  by (auto simp: check_campaign_completion_def Let_def quiet_meanwhile_def split: option.splits)

lemma deliver_calls:
  assumes "quiet_meanwhile E" "cp_status c \<notin> {CampPaused, CampCancelled}"
    and "\<not> (ct_opt_out (w_attrs w (row_id k)) \<and> equal_fold (tp_category t) ''MARKETING'')"
  shows "list_all call_allowed (w_calls w) \<Longrightarrow> list_all call_allowed (w_calls (deliver E c t j k w))"
  using assms
  by (auto simp: deliver_def Let_def check_completion_calls call_allowed_def split: sum.splits)

lemma handle_job_calls:
  assumes "quiet_meanwhile E" "list_all call_allowed (w_calls w)"
  shows "list_all call_allowed (w_calls (snd (handle_recipient_job E j w)))"
  using assms
  by (auto simp: handle_recipient_job_def Let_def split: option.splits sum.splits prod.splits
      intro!: deliver_calls)

lemma process_entry_calls:
  assumes "quiet_meanwhile E" "list_all call_allowed (w_calls w)"
  shows "list_all call_allowed (w_calls (snd (process_entry E s w)))"
proof -
  let ?w0 = "w\<lparr>w_stream := map (\<lambda>x. if se_id x = se_id s then x\<lparr>se_delivered := True\<rparr> else x) (w_stream w)\<rparr>"
  have "list_all call_allowed (w_calls (snd (handle_recipient_job E (se_job s) ?w0)))"
    by (rule handle_job_calls) (use assms in simp_all)
  then show ?thesis
    by (auto simp: process_entry_def Let_def acknowledge_def split: prod.splits job_result.splits)
qed

lemma with_campaign_snd:
  assumes "\<And>o' c. find_campaign E w (the i) o' = Some c \<Longrightarrow> P (snd (act o' c))" "P w"
  shows "P (snd (with_campaign E org i w act))"
  using assms by (auto simp: with_campaign_def split: option.splits)

lemma handlers_add_no_call [simp]:
  "w_calls (snd (create_campaign E org req w)) = w_calls w"
  "w_calls (snd (update_campaign E org i req w)) = w_calls w"
  "w_calls (snd (delete_campaign E org i w)) = w_calls w"
  "w_calls (snd (start_campaign E org i w)) = w_calls w"
  "w_calls (snd (pause_campaign E org i w)) = w_calls w"
  "w_calls (snd (cancel_campaign E org i w)) = w_calls w"
  "w_calls (snd (retry_failed E org i w)) = w_calls w"
  by (auto simp: create_campaign_def update_campaign_def delete_campaign_def start_campaign_def start_body_def
      pause_campaign_def cancel_campaign_def retry_failed_def retry_body_def with_campaign_def Let_def
      split: option.splits prod.splits dest!: enqueue_keeps)

lemma recipient_handlers_add_no_call [simp]:
  "w_calls (snd (add_campaign_recipients E o' c reqs dry w)) = w_calls w"
  "w_calls (snd (import_recipients E org i qs w)) = w_calls w"
  "w_calls (snd (add_recipients_from_contacts E org i req w)) = w_calls w"
  "w_calls (snd (delete_campaign_recipient E org i rid w)) = w_calls w"
  by (auto simp: add_campaign_recipients_def import_recipients_def add_recipients_from_contacts_def
      delete_campaign_recipient_def with_campaign_def Let_def split: option.splits)

lemma report_adds_no_call [simp]: "w_calls (update_message_status E wamid s err w) = w_calls w"
  by (auto simp: update_message_status_def increment_campaign_stat_def Let_def split: option.splits)

text \<open>C35 (safety). Whatever requests, jobs, claims and delivery reports come in whatever order, and
  whatever statements fail: the worker calls WhatsApp only for a campaign it has just read and
  found neither paused nor cancelled, and never with a marketing template for a contact who has
  opted out of marketing.\<close>

theorem campaign_calls_are_allowed:
  assumes "list_all call_allowed (w_calls w)" "list_all (\<lambda>(E, x). quiet_meanwhile E) ops"
  shows "list_all call_allowed (w_calls (run_ops ops w))"
  using assms
proof (induction ops arbitrary: w)
  case (Cons a ops)
  obtain E x where a: "a = (E, x)" by (cases a)
  have "list_all call_allowed (w_calls (run_op E x w))"
    using Cons.prems process_entry_calls [of E w]
    by (cases x) (auto simp: a consume_next_def claim_entry_def split: option.splits)
  then show ?case using Cons a by simp
qed simp


subsection \<open>No recipient of a running campaign is forgotten\<close>

definition pending_of :: "string \<Rightarrow> recipient list \<Rightarrow> recipient set" where
  "pending_of camp rs = {r \<in> set rs. rc_camp r = camp \<and> rc_status r = MsgPending \<and> \<not> rc_deleted r}"

definition waiting :: "stream_entry list \<Rightarrow> string \<Rightarrow> string \<Rightarrow> bool" where
  "waiting st camp rid \<longleftrightarrow> (\<exists>s \<in> set st. jb_camp (se_job s) = camp \<and> jb_recipient (se_job s) = rid)"

text \<open>A running campaign has a job on the stream for each pending recipient; a completed one has none pending.\<close>

definition served :: "recipient list \<Rightarrow> stream_entry list \<Rightarrow> campaign \<Rightarrow> bool" where
  "served rs st c \<longleftrightarrow>
     (cp_status c = CampProcessing \<longrightarrow> (\<forall>r \<in> pending_of (cp_id c) rs. waiting st (cp_id c) (rc_id r)))
     \<and> (cp_status c = CampCompleted \<longrightarrow> pending_of (cp_id c) rs = {})
     \<and> cp_status c \<noteq> CampFailed"

definition campaigns_ok :: "camp_world \<Rightarrow> bool" where
  "campaigns_ok w \<longleftrightarrow>
     distinct (map cp_id (w_camps w))
     \<and> distinct (map se_id (w_stream w)) \<and> (\<forall>s \<in> set (w_stream w). se_id s < w_entries w)
     \<and> (\<forall>c \<in> set (w_camps w). \<not> cp_deleted c \<longrightarrow> served (w_recips w) (w_stream w) c)"

text \<open>
  The operation meets healthy services and fresh ids, no other process writes while it runs, and nobody
  retries a campaign that is paused.
\<close>

definition calm_op :: "camp_env \<Rightarrow> camp_op \<Rightarrow> camp_world \<Rightarrow> bool" where
  "calm_op E x w \<longleftrightarrow>
     e_ok E = (\<lambda>_. True) \<and> e_enqueue E = None \<and> e_meanwhile E = (\<lambda>w. w)
     \<and> e_new_id E \<notin> cp_id ` set (w_camps w) \<and> e_new_id E \<notin> rc_camp ` set (w_recips w)
     \<and> (case x of OpRetry org (Some i) \<Rightarrow>
          \<not> (\<exists>c \<in> set (w_camps w). cp_id c = i \<and> \<not> cp_deleted c \<and> cp_status c = CampPaused)
        | _ \<Rightarrow> True)"

fun calm_run :: "(camp_env \<times> camp_op) list \<Rightarrow> camp_world \<Rightarrow> bool" where
  "calm_run [] w = True"
| "calm_run ((E, x) # ops) w = (calm_op E x w \<and> calm_run ops (run_op E x w))"

lemma campaigns_ok_row:
  assumes "campaigns_ok w"
    and "\<And>c. c \<in> set (w_camps w) \<Longrightarrow> cp_id c = i \<Longrightarrow> \<not> cp_deleted c \<Longrightarrow>
           cp_id (f c) = i \<and> (\<not> cp_deleted (f c) \<longrightarrow> served (w_recips w) (w_stream w) (f c))"
  shows "campaigns_ok (update_campaign_row i f w)"
proof -
  let ?g = "\<lambda>c. if cp_id c = i \<and> \<not> cp_deleted c then f c else c"
  define rows where "rows = map ?g (w_camps w)"
  have row: "update_campaign_row i f w = w\<lparr>w_camps := rows\<rparr>"
    by (simp add: update_campaign_row_def rows_def)
  have ids: "map cp_id rows = map cp_id (w_camps w)"
    unfolding rows_def using assms(2) by (auto intro!: map_cong)
  have "served (w_recips w) (w_stream w) (?g c)" if "c \<in> set (w_camps w)" "\<not> cp_deleted (?g c)" for c
    using assms that by (auto simp: campaigns_ok_def split: if_splits)
  then have "\<forall>c \<in> set rows. \<not> cp_deleted c \<longrightarrow> served (w_recips w) (w_stream w) c"
    unfolding set_map rows_def by blast
  then show ?thesis
    using assms(1) ids unfolding row campaigns_ok_def by simp
qed

lemma served_less:
  assumes "served rs st c" "pending_of (cp_id c) rs' \<subseteq> pending_of (cp_id c) rs"
  shows "served rs' st c"
  using assms unfolding served_def by blast

lemma served_id: "served rs st c \<Longrightarrow> cp_id c' = cp_id c \<Longrightarrow> cp_status c' = cp_status c \<Longrightarrow> served rs st c'"
  by (simp add: served_def)

lemma campaigns_ok_served:
  "campaigns_ok w \<Longrightarrow> c \<in> set (w_camps w) \<Longrightarrow> \<not> cp_deleted c \<Longrightarrow> served (w_recips w) (w_stream w) c"
  by (simp add: campaigns_ok_def)

text \<open>A change of the counters, names or times of a campaign is no concern.\<close>

lemma campaigns_ok_counters:
  assumes "campaigns_ok w"
    and "\<And>c. cp_id (f c) = cp_id c \<and> cp_status (f c) = cp_status c"
  shows "campaigns_ok (update_campaign_row i f w)"
  by (rule campaigns_ok_row [OF assms(1)]) (metis assms campaigns_ok_served served_id)

lemma campaigns_ok_status:
  assumes "campaigns_ok w" "s \<notin> {CampProcessing, CampCompleted, CampFailed}"
  shows "campaigns_ok (update_campaign_row i (set_status s) w)"
  by (rule campaigns_ok_row [OF assms(1)]) (use assms(2) in \<open>auto simp: set_status_def served_def\<close>)

lemma campaigns_ok_cong:
  assumes "campaigns_ok w" "w_camps w' = w_camps w" "w_recips w' = w_recips w"
    "w_stream w' = w_stream w" "w_entries w' = w_entries w"
  shows "campaigns_ok w'"
  using assms by (simp add: campaigns_ok_def)

lemma find_campaign_Some:
  "find_campaign E w i org = Some c \<Longrightarrow> c \<in> set (w_camps w) \<and> cp_id c = i \<and> cp_org c = org \<and> \<not> cp_deleted c"
  by (auto simp: find_campaign_def find_Some_iff split: if_splits)

lemma same_campaign:
  "campaigns_ok w \<Longrightarrow> c \<in> set (w_camps w) \<Longrightarrow> d \<in> set (w_camps w) \<Longrightarrow> cp_id c = cp_id d \<Longrightarrow> c = d"
  by (metis campaigns_ok_def distinct_map inj_onD)

text \<open>
  Recipients may leave the pending state; they may enter it in a campaign that is neither running
  nor completed, or with a job already on the stream.
\<close>

lemma campaigns_ok_new_recipients:
  assumes "campaigns_ok w"
    and "\<And>c. c \<in> set (w_camps w) \<Longrightarrow> \<not> cp_deleted c \<Longrightarrow> cp_status c = CampCompleted \<Longrightarrow>
           pending_of (cp_id c) rs \<subseteq> pending_of (cp_id c) (w_recips w)"
    and "\<And>c r. c \<in> set (w_camps w) \<Longrightarrow> \<not> cp_deleted c \<Longrightarrow> cp_status c = CampProcessing \<Longrightarrow>
           r \<in> pending_of (cp_id c) rs \<Longrightarrow>
           r \<in> pending_of (cp_id c) (w_recips w) \<or> waiting (w_stream w) (cp_id c) (rc_id r)"
  shows "campaigns_ok (w\<lparr>w_recips := rs\<rparr>)"
proof -
  have "served rs (w_stream w) c" if "c \<in> set (w_camps w)" "\<not> cp_deleted c" for c
    using campaigns_ok_served [OF assms(1) that] assms(2) [OF that] assms(3) [OF that]
    unfolding served_def by blast
  then show ?thesis using assms(1) by (simp add: campaigns_ok_def)
qed

lemma campaigns_ok_recipients:
  assumes "campaigns_ok w"
    and "\<And>c. c \<in> set (w_camps w) \<Longrightarrow> \<not> cp_deleted c \<Longrightarrow> cp_status c \<in> {CampProcessing, CampCompleted} \<Longrightarrow>
           pending_of (cp_id c) rs \<subseteq> pending_of (cp_id c) (w_recips w)"
  shows "campaigns_ok (w\<lparr>w_recips := rs\<rparr>)"
  by (rule campaigns_ok_new_recipients [OF assms(1)]) (use assms(2) in blast)+

text \<open>Only the id, the status and the deletion mark of a campaign matter.\<close>

definition camp_view :: "campaign \<Rightarrow> string \<times> campaign_status \<times> bool" where
  "camp_view c = (cp_id c, cp_status c, cp_deleted c)"

lemma campaigns_ok_view:
  assumes "campaigns_ok w" "map camp_view (w_camps w') = map camp_view (w_camps w)"
    "w_recips w' = w_recips w" "w_stream w' = w_stream w" "w_entries w' = w_entries w"
  shows "campaigns_ok w'"
proof -
  have "map fst (map camp_view (w_camps w')) = map fst (map camp_view (w_camps w))" using assms(2) by simp
  then have ids: "map cp_id (w_camps w') = map cp_id (w_camps w)" by (simp add: camp_view_def o_def)
  have "served (w_recips w) (w_stream w) c" if c: "c \<in> set (w_camps w')" "\<not> cp_deleted c" for c
  proof -
    have "camp_view c \<in> set (map camp_view (w_camps w))" using c(1) assms(2) by (metis image_eqI set_map)
    then obtain d where "d \<in> set (w_camps w)" "cp_id d = cp_id c" "cp_status d = cp_status c" "\<not> cp_deleted d"
      using c(2) by (auto simp: camp_view_def)
    then show ?thesis using campaigns_ok_served [OF assms(1)] served_id by metis
  qed
  then show ?thesis using assms ids by (simp add: campaigns_ok_def)
qed


lemma calm_env:
  assumes "calm_op E x w"
  shows "e_ok E = (\<lambda>_. True)" "e_enqueue E = None" "e_meanwhile E = (\<lambda>w. w)"
  using assms by (simp_all add: calm_op_def)

text \<open>Starting or retrying: the jobs of all pending recipients are on the stream.\<close>

lemma enqueue_all:
  assumes "e_enqueue E = None" "campaigns_ok w"
  shows "campaigns_ok (snd (enqueue_recipients E js w))"
    "j \<in> set js \<Longrightarrow> waiting (w_stream (snd (enqueue_recipients E js w))) (jb_camp j) (jb_recipient j)"
    "waiting (w_stream w) camp rid \<Longrightarrow> waiting (w_stream (snd (enqueue_recipients E js w))) camp rid"
proof -
  let ?w = "snd (enqueue_recipients E js w)"
  define es where "es = map (\<lambda>(k, j). \<lparr>se_id = w_entries w + k, se_job = j, se_delivered = False\<rparr>)
      (zip [0..<length js] js)"
  have st: "w_stream ?w = w_stream w @ es" and next_id: "w_entries ?w = w_entries w + length js"
    using assms(1) by (simp_all add: enqueue_recipients_def Let_def es_def)
  have entry: "es ! k = \<lparr>se_id = w_entries w + k, se_job = js ! k, se_delivered = False\<rparr>"
    and len: "length es = length js" if "k < length js" for k
    using that by (simp_all add: es_def)
  have [simp]: "length es = length js" by (simp add: es_def)
  have ids: "map se_id es = map (\<lambda>k. w_entries w + k) [0..<length js]"
    by (rule nth_equalityI) (simp_all add: entry)
  show mono: "waiting (w_stream w) camp rid \<Longrightarrow> waiting (w_stream ?w) camp rid" for camp rid
    by (auto simp: waiting_def st)
  show "j \<in> set js \<Longrightarrow> waiting (w_stream ?w) (jb_camp j) (jb_recipient j)"
  proof -
    assume "j \<in> set js"
    then obtain k where k: "k < length js" "js ! k = j" by (metis in_set_conv_nth)
    then have "es ! k \<in> set (w_stream ?w)" by (simp add: st)
    then show ?thesis using entry [OF k(1)] k(2) by (auto simp: waiting_def intro!: bexI [of _ "es ! k"])
  qed
  have new: "set (map se_id es) = {w_entries w..<w_entries w + length js}"
    unfolding ids set_map set_upt using image_add_atLeastLessThan [of "w_entries w" 0 "length js"]
    by (simp add: add.commute)
  have old: "\<forall>s \<in> set (w_stream w). se_id s < w_entries w" "distinct (map se_id (w_stream w))"
    using assms(2) by (simp_all add: campaigns_ok_def)
  have "distinct (map se_id es)" unfolding ids by (simp add: distinct_map)
  then have "distinct (map se_id (w_stream ?w))"
    using old new by (force simp: st)
  moreover have "\<forall>s \<in> set (w_stream ?w). se_id s < w_entries ?w"
    using old(1) new by (force simp: st next_id)
  moreover have "served (w_recips ?w) (w_stream ?w) c" if "c \<in> set (w_camps ?w)" "\<not> cp_deleted c" for c
    using campaigns_ok_served [OF assms(2)] that mono by (auto simp: served_def)
  ultimately show "campaigns_ok ?w" using assms(2) by (simp add: campaigns_ok_def)
qed


text \<open>The worker takes a recipient out of the pending state before the job leaves the stream.\<close>

lemma recipient_status_ok:
  assumes "campaigns_ok w" "s \<noteq> MsgPending" "e_ok E = (\<lambda>_. True)"
  shows "campaigns_ok (update_recipient_status E rid s m e w)"
    "r \<in> pending_of camp (w_recips (update_recipient_status E rid s m e w)) \<Longrightarrow> rc_id r \<noteq> rid"
proof -
  define rs where "rs = map (\<lambda>r. if rc_id r = rid \<and> \<not> rc_deleted r
            then r\<lparr>rc_status := s, rc_wamid := m,
                   rc_sent_at := (if s = MsgSent then Some (e_now E) else rc_sent_at r),
                   rc_error := (if e \<noteq> '''' then e else rc_error r)\<rparr> else r) (w_recips w)"
  have eq: "update_recipient_status E rid s m e w = w\<lparr>w_recips := rs\<rparr>"
    using assms(3) by (simp add: update_recipient_status_def rs_def)
  have sub: "r \<in> pending_of camp (w_recips w) \<and> rc_id r \<noteq> rid" if "r \<in> pending_of camp rs" for r camp
    using that assms(2) by (auto simp: rs_def pending_of_def split: if_splits)
  show "campaigns_ok (update_recipient_status E rid s m e w)"
    unfolding eq by (rule campaigns_ok_recipients [OF assms(1)]) (use sub in blast)
  show "r \<in> pending_of camp (w_recips (update_recipient_status E rid s m e w)) \<Longrightarrow> rc_id r \<noteq> rid"
    using sub unfolding eq by simp
qed

lemma increment_count_ok:
  assumes "campaigns_ok w" "\<And>c. cp_id (f c) = cp_id c \<and> cp_status (f c) = cp_status c"
  shows "campaigns_ok (increment_count E camp f w)"
  using campaigns_ok_counters [OF assms(1), of f] assms by (simp add: increment_count_def)

lemma one_more_keeps:
  "cp_id (one_more_failed c) = cp_id c \<and> cp_status (one_more_failed c) = cp_status c"
  "cp_id (one_more_sent c) = cp_id c \<and> cp_status (one_more_sent c) = cp_status c"
  by (simp_all add: one_more_failed_def one_more_sent_def)

lemma mark_failed_ok:
  assumes "campaigns_ok w" "e_ok E = (\<lambda>_. True)"
  shows "campaigns_ok (mark_failed E j e w)"
    "r \<in> pending_of camp (w_recips (mark_failed E j e w)) \<Longrightarrow> rc_id r \<noteq> jb_recipient j"
proof -
  show "campaigns_ok (mark_failed E j e w)"
    using increment_count_ok [OF recipient_status_ok(1) [OF assms(1) _ assms(2), of MsgFailed] one_more_keeps(1)]
    by (simp add: mark_failed_def)
  show "r \<in> pending_of camp (w_recips (mark_failed E j e w)) \<Longrightarrow> rc_id r \<noteq> jb_recipient j"
    using recipient_status_ok(2) [OF assms(1) _ assms(2), of MsgFailed] by (simp add: mark_failed_def)
qed

lemma recipients_pending: "recipients_with camp MsgPending w = [] \<longleftrightarrow> pending_of camp (w_recips w) = {}"
  by (auto simp: recipients_with_def pending_of_def filter_empty_conv)

lemma check_completion_ok:
  assumes "campaigns_ok w" "e_ok E = (\<lambda>_. True)" "e_meanwhile E = (\<lambda>w. w)"
  shows "campaigns_ok (check_campaign_completion E camp w)"
    "w_recips (check_campaign_completion E camp w) = w_recips w"
    "w_stream (check_campaign_completion E camp w) = w_stream w"
proof -
  have "campaigns_ok (update_campaign_row camp
      (\<lambda>x. x\<lparr>cp_status := CampCompleted, cp_completed := Some (e_now E)\<rparr>) w)"
    if "recipients_with camp MsgPending w = []"
    by (rule campaigns_ok_row [OF assms(1)]) (use that in \<open>auto simp: served_def recipients_pending\<close>)
  then show "campaigns_ok (check_campaign_completion E camp w)"
    using assms by (auto simp: check_campaign_completion_def Let_def split: option.splits)
  show "w_recips (check_campaign_completion E camp w) = w_recips w"
    "w_stream (check_campaign_completion E camp w) = w_stream w"
    using assms(3) by (auto simp: check_campaign_completion_def Let_def split: option.splits)
qed

lemma deliver_ok:
  assumes "campaigns_ok w" "e_ok E = (\<lambda>_. True)" "e_meanwhile E = (\<lambda>w. w)"
  shows "campaigns_ok (deliver E c t j k w)"
    "r \<in> pending_of camp (w_recips (deliver E c t j k w)) \<Longrightarrow> rc_id r \<noteq> jb_recipient j"
    "w_stream (deliver E c t j k w) = w_stream w"
proof -
  define w1 where "w1 = (case send_template_message E c t j of Inl _ \<Rightarrow> w
     | Inr _ \<Rightarrow> w\<lparr>w_calls := w_calls w @ [\<lparr>sd_camp = cp_id c, sd_recipient = jb_recipient j, sd_status = cp_status c,
                  sd_contact = row_id k, sd_marketing = equal_fold (tp_category t) ''MARKETING'',
                  sd_opted_out = ct_opt_out (w_attrs w (row_id k))\<rparr>]\<rparr>)"
  have w1: "campaigns_ok w1" "w_stream w1 = w_stream w"
    using assms(1) by (auto simp: w1_def campaigns_ok_def split: sum.splits)
  define w2 where "w2 = (case (case send_template_message E c t j of Inl e \<Rightarrow> Inl e | Inr r \<Rightarrow> r) of
      Inl e \<Rightarrow> mark_failed E j e w1
    | Inr wamid \<Rightarrow> increment_count E (jb_camp j) one_more_sent
        (update_recipient_status E (jb_recipient j) MsgSent wamid '''' w1))"
  have w2: "campaigns_ok w2" "w_stream w2 = w_stream w"
    "r \<in> pending_of camp (w_recips w2) \<Longrightarrow> rc_id r \<noteq> jb_recipient j" for r camp
    using mark_failed_ok [OF w1(1) assms(2)] recipient_status_ok [OF w1(1) _ assms(2), of MsgSent] w1(2)
      increment_count_ok [OF recipient_status_ok(1) [OF w1(1) _ assms(2), of MsgSent] one_more_keeps(2)]
    by (auto simp: w2_def split: sum.splits)
  obtain msgs where d: "deliver E c t j k w = check_campaign_completion E (jb_camp j) (w2\<lparr>w_msgs := msgs\<rparr>)"
    using assms(2) unfolding deliver_def Let_def w2_def [symmetric] w1_def [symmetric] by simp
  have "campaigns_ok (w2\<lparr>w_msgs := msgs\<rparr>)" by (rule campaigns_ok_cong [OF w2(1)]) simp_all
  note finished = check_completion_ok [OF this assms(2,3), of "jb_camp j"]
  show "campaigns_ok (deliver E c t j k w)" "w_stream (deliver E c t j k w) = w_stream w"
    "r \<in> pending_of camp (w_recips (deliver E c t j k w)) \<Longrightarrow> rc_id r \<noteq> jb_recipient j"
    unfolding d using finished w2 by auto
qed

text \<open>
  A job that is done leaves nothing pending under its recipient, or belongs to a campaign that does
  not run.
\<close>

definition settled_job :: "recipient_job \<Rightarrow> camp_world \<Rightarrow> bool" where
  "settled_job j w \<longleftrightarrow> (\<forall>r camp. r \<in> pending_of camp (w_recips w) \<longrightarrow> rc_id r \<noteq> jb_recipient j)"

definition idle_campaign :: "string \<Rightarrow> camp_world \<Rightarrow> bool" where
  "idle_campaign i w \<longleftrightarrow>
     (\<exists>c \<in> set (w_camps w). cp_id c = i \<and> \<not> cp_deleted c \<and> cp_status c \<in> {CampPaused, CampCancelled})"

lemma handle_job_ok:
  assumes "campaigns_ok w" "e_ok E = (\<lambda>_. True)" "e_meanwhile E = (\<lambda>w. w)"
    and "handle_recipient_job E j w = (res, w')"
  shows "campaigns_ok w' \<and> w_stream w' = w_stream w
    \<and> (res = JobOk \<longrightarrow> settled_job j w' \<or> idle_campaign (jb_camp j) w' )"
proof -
  have contacts: "campaigns_ok (w\<lparr>w_contacts := rows\<rparr>)" for rows
    by (rule campaigns_ok_cong [OF assms(1)]) simp_all
  have failed: "campaigns_ok (mark_failed E j e w2) \<and> w_stream (mark_failed E j e w2) = w_stream w2
      \<and> settled_job j (mark_failed E j e w2)" if "campaigns_ok w2" for e w2
    using mark_failed_ok [OF that assms(2), where j = j and e = e] by (auto simp: settled_job_def)
  have sent: "campaigns_ok (deliver E c t j k w2) \<and> w_stream (deliver E c t j k w2) = w_stream w2
      \<and> settled_job j (deliver E c t j k w2)" if "campaigns_ok w2" for c t k w2
    using deliver_ok [OF that assms(2,3), where c = c and t = t and j = j and k = k] by (auto simp: settled_job_def)
  show ?thesis
  proof (cases "find (\<lambda>c. cp_id c = jb_camp j \<and> \<not> cp_deleted c) (w_camps w)")
    case None
    then show ?thesis using assms by (simp add: handle_recipient_job_def)
  next
    case (Some c)
    have c: "c \<in> set (w_camps w)" "cp_id c = jb_camp j" "\<not> cp_deleted c" using find_SomeD [OF Some] by auto
    note job = assms(4) [unfolded handle_recipient_job_def assms(2) Some, simplified]
    show ?thesis
    proof (cases "cp_status c \<in> {CampPaused, CampCancelled}")
      case True
      then show ?thesis using job c assms(1) by (auto simp: idle_campaign_def)
    next
      case running: False
      show ?thesis
      proof (cases "(cp_account c, jb_org j) \<in> set (w_accounts w)")
        case False
        then show ?thesis using job running failed [OF assms(1)] by auto
      next
        case account: True
        obtain found rows where g:
          "get_or_create_contact (e_identity E) (w_contacts w) (jb_org j) (jb_phone j) (jb_name j) = (found, rows)"
          by fastforce
        show ?thesis
        proof (cases found)
          case (Inl e)
          then show ?thesis using job running account g failed [OF contacts] by auto
        next
          case (Inr kb)
          then show ?thesis
            using job running account g failed [OF contacts] sent [OF contacts] contacts
            by (cases kb) (auto simp: Let_def split: option.splits if_splits)
        qed
      qed
    qed
  qed
qed

lemma waiting_map: "(\<And>x. se_job (g x) = se_job x) \<Longrightarrow> waiting (map g st) camp rid \<longleftrightarrow> waiting st camp rid"
  by (auto simp: waiting_def)

lemma mark_delivered_ok:
  assumes "campaigns_ok w"
  shows "campaigns_ok (w\<lparr>w_stream := map (\<lambda>x. if se_id x = k then x\<lparr>se_delivered := True\<rparr> else x) (w_stream w)\<rparr>)"
proof -
  define st where "st = map (\<lambda>x. if se_id x = k then x\<lparr>se_delivered := True\<rparr> else x) (w_stream w)"
  have ids: "map se_id st = map se_id (w_stream w)" by (auto simp: st_def)
  have "waiting st camp rid \<longleftrightarrow> waiting (w_stream w) camp rid" for camp rid
    unfolding st_def by (rule waiting_map) simp
  then have "served (w_recips w) st c \<longleftrightarrow> served (w_recips w) (w_stream w) c" for c
    by (simp add: served_def)
  moreover have "\<forall>s \<in> set st. se_id s < w_entries w"
    using assms by (auto simp: campaigns_ok_def st_def)
  ultimately have "campaigns_ok (w\<lparr>w_stream := st\<rparr>)"
    using assms ids unfolding campaigns_ok_def by simp
  then show ?thesis by (simp add: st_def)
qed

lemma acknowledge_ok:
  assumes "campaigns_ok w" "s \<in> set (w_stream w)"
    and "settled_job (se_job s) w \<or> idle_campaign (jb_camp (se_job s)) w"
  shows "campaigns_ok (acknowledge E (se_id s) w)"
proof -
  let ?st = "filter (\<lambda>x. se_id x \<noteq> se_id s) (w_stream w)"
  have keep: "waiting ?st camp (rc_id r)"
    if "waiting (w_stream w) camp (rc_id r)" "rc_id r \<noteq> jb_recipient (se_job s) \<or> camp \<noteq> jb_camp (se_job s)"
    for camp r
  proof -
    obtain x where x: "x \<in> set (w_stream w)" "jb_camp (se_job x) = camp" "jb_recipient (se_job x) = rc_id r"
      using \<open>waiting (w_stream w) camp (rc_id r)\<close> by (auto simp: waiting_def)
    then have "x \<noteq> s" using that(2) by auto
    then have "se_id x \<noteq> se_id s"
      using x(1) assms(1,2) by (metis campaigns_ok_def distinct_map inj_onD)
    then show ?thesis using x by (auto simp: waiting_def)
  qed
  have "served (w_recips w) ?st c" if c: "c \<in> set (w_camps w)" "\<not> cp_deleted c" for c
  proof -
    note ok = campaigns_ok_served [OF assms(1) c]
    have "waiting ?st (cp_id c) (rc_id r)"
      if run: "cp_status c = CampProcessing" and r: "r \<in> pending_of (cp_id c) (w_recips w)" for r
    proof (rule keep)
      show "waiting (w_stream w) (cp_id c) (rc_id r)" using ok run r by (simp add: served_def)
      show "rc_id r \<noteq> jb_recipient (se_job s) \<or> cp_id c \<noteq> jb_camp (se_job s)"
        using assms(3)
      proof
        assume "settled_job (se_job s) w"
        then show ?thesis using r by (auto simp: settled_job_def)
      next
        assume "idle_campaign (jb_camp (se_job s)) w"
        then obtain d where d: "d \<in> set (w_camps w)" "cp_id d = jb_camp (se_job s)"
            "cp_status d \<in> {CampPaused, CampCancelled}"
          by (auto simp: idle_campaign_def)
        then have "cp_id c \<noteq> cp_id d" using same_campaign [OF assms(1) c(1) d(1)] run by auto
        then show ?thesis using d(2) by simp
      qed
    qed
    then show ?thesis using ok by (simp add: served_def)
  qed
  moreover have "distinct (map se_id ?st)" using assms(1) by (simp add: campaigns_ok_def distinct_map_filter)
  ultimately show ?thesis
    using assms(1) by (simp add: acknowledge_def campaigns_ok_def)
qed

lemma process_entry_ok:
  assumes "campaigns_ok w" "s \<in> set (w_stream w)" "e_ok E = (\<lambda>_. True)" "e_meanwhile E = (\<lambda>w. w)"
  shows "campaigns_ok (snd (process_entry E s w))"
proof -
  let ?mark = "\<lambda>x. if se_id x = se_id s then x\<lparr>se_delivered := True\<rparr> else x"
  let ?w0 = "w\<lparr>w_stream := map ?mark (w_stream w)\<rparr>"
  obtain res w' where h: "handle_recipient_job E (se_job s) ?w0 = (res, w')" by fastforce
  have ok: "campaigns_ok w'" "w_stream w' = map ?mark (w_stream w)"
    "res = JobOk \<Longrightarrow> settled_job (se_job s) w' \<or> idle_campaign (jb_camp (se_job s)) w'"
    using handle_job_ok [OF mark_delivered_ok [OF assms(1)] assms(3,4) h] by auto
  have "?mark s \<in> set (w_stream w')" using assms(2) ok(2) by auto
  then have "campaigns_ok (acknowledge E (se_id s) w')" if "res = JobOk"
    using acknowledge_ok [OF ok(1), of "?mark s"] ok(3) [OF that] by simp
  then show ?thesis
    using ok(1) by (cases res) (simp_all add: process_entry_def Let_def h)
qed


lemma with_campaign_ok:
  assumes "campaigns_ok w"
    and "\<And>o' c. c \<in> set (w_camps w) \<Longrightarrow> \<not> cp_deleted c \<Longrightarrow> i = Some (cp_id c) \<Longrightarrow> campaigns_ok (snd (act o' c))"
  shows "campaigns_ok (snd (with_campaign E org i w act))"
  using assms by (auto simp: with_campaign_def split: option.splits dest!: find_campaign_Some)

lemma create_ok:
  assumes "campaigns_ok w" "e_new_id E \<notin> cp_id ` set (w_camps w)"
  shows "campaigns_ok (snd (create_campaign E org req w))"
  using assms
  by (auto simp: create_campaign_def campaigns_ok_def served_def Let_def split: option.splits)

lemma update_ok:
  assumes "campaigns_ok w"
  shows "campaigns_ok (snd (update_campaign E org i req w))"
  unfolding update_campaign_def
  by (rule with_campaign_ok [OF assms])
    (auto simp: Let_def assms intro!: campaigns_ok_counters [OF assms] split: option.splits)

lemma delete_ok:
  assumes "campaigns_ok w"
  shows "campaigns_ok (snd (delete_campaign E org i w))"
proof -
  have w1: "campaigns_ok (w\<lparr>w_recips := map (\<lambda>r. if rc_camp r = k then r\<lparr>rc_deleted := True\<rparr> else r) (w_recips w)\<rparr>)" for k
    by (rule campaigns_ok_recipients [OF assms]) (auto simp: pending_of_def)
  have "campaigns_ok (update_campaign_row k (\<lambda>x. x\<lparr>cp_deleted := True\<rparr>)
      (w\<lparr>w_recips := map (\<lambda>r. if rc_camp r = k then r\<lparr>rc_deleted := True\<rparr> else r) (w_recips w)\<rparr>))" for k
    by (rule campaigns_ok_row [OF w1]) auto
  with w1 show ?thesis
    unfolding delete_campaign_def
    by (intro with_campaign_ok [OF assms]) (auto simp: Let_def assms)
qed

lemma pause_cancel_ok:
  assumes "campaigns_ok w"
  shows "campaigns_ok (snd (pause_campaign E org i w))" "campaigns_ok (snd (cancel_campaign E org i w))"
  unfolding pause_campaign_def cancel_campaign_def
  by (intro with_campaign_ok [OF assms]; auto simp: assms intro!: campaigns_ok_status [OF assms])+

lemma enqueue_row:
  "snd (enqueue_recipients E js (update_campaign_row i f w)) = update_campaign_row i f (snd (enqueue_recipients E js w))"
  "fst (enqueue_recipients E js w) = (e_enqueue E = None)"
  by (simp_all add: enqueue_recipients_def update_campaign_row_def Let_def)

lemma set_processing_ok:
  assumes "campaigns_ok w" "\<And>r. r \<in> pending_of k (w_recips w) \<Longrightarrow> waiting (w_stream w) k (rc_id r)"
    and "\<And>c. cp_id (f c) = cp_id c \<and> cp_status (f c) = CampProcessing"
  shows "campaigns_ok (update_campaign_row k f w)"
  by (rule campaigns_ok_row [OF assms(1)]) (use assms(2,3) in \<open>auto simp: served_def\<close>)

lemma jobs_waiting:
  assumes "campaigns_ok w" "e_enqueue E = None" "r \<in> set recips"
  shows "waiting (w_stream (snd (enqueue_recipients E (map (job_of k o') recips) w))) k (rc_id r)"
  using enqueue_all(2) [OF assms(2,1), of "job_of k o' r" "map (job_of k o') recips"] assms(3)
  by (simp add: job_of_def)

lemma start_ok:
  assumes "campaigns_ok w" "e_enqueue E = None"
  shows "campaigns_ok (snd (start_campaign E org i w))"
proof -
  have started: "campaigns_ok (snd (enqueue_recipients E (map (job_of k o') (recipients_with k MsgPending w))
      (update_campaign_row k (\<lambda>x. x\<lparr>cp_status := CampProcessing, cp_started := t\<rparr>) w)))" for k o' t
    unfolding enqueue_row(1)
    by (rule set_processing_ok [OF enqueue_all(1) [OF assms(2,1)]])
      (auto intro!: jobs_waiting [OF assms] simp: pending_of_def recipients_with_def)
  have "campaigns_ok (snd (start_body E w o' c))" for o' c
    using started [where k = "cp_id c" and o' = o' and t = "Some (e_now E)"] assms enqueue_row(2) [of E]
    by (simp add: start_body_def Let_def case_prod_beta)
  then show ?thesis
    unfolding start_campaign_def by (intro with_campaign_ok [OF assms(1)])
qed

lemma camp_view_row:
  assumes "\<And>c. cp_id (f c) = cp_id c \<and> cp_status (f c) = cp_status c \<and> cp_deleted (f c) = cp_deleted c"
  shows "map camp_view (w_camps (update_campaign_row i f w)) = map camp_view (w_camps w)"
  using assms by (simp add: update_campaign_row_def camp_view_def)

lemma recalculate_view: "map camp_view (w_camps (recalculate_stats E i w)) = map camp_view (w_camps w)"
  by (simp add: recalculate_stats_def camp_view_row)

lemma camp_view_status:
  "map camp_view (w_camps w) = map camp_view (w_camps w') \<Longrightarrow>
   map camp_view (w_camps (update_campaign_row i (set_status s) w))
     = map camp_view (w_camps (update_campaign_row i (set_status s) w'))"
proof -
  have "map camp_view (w_camps (update_campaign_row i (set_status s) w))
      = map (\<lambda>(k, t, d). if k = i \<and> \<not> d then (k, s, d) else (k, t, d)) (map camp_view (w_camps w))" for w
    by (simp add: update_campaign_row_def camp_view_def set_status_def)
  then show "map camp_view (w_camps w) = map camp_view (w_camps w') \<Longrightarrow>
   map camp_view (w_camps (update_campaign_row i (set_status s) w))
     = map camp_view (w_camps (update_campaign_row i (set_status s) w'))" by (simp only:)
qed

lemma retry_ok:
  assumes "campaigns_ok w" "e_enqueue E = None" "e_ok E = (\<lambda>_. True)"
    and "\<And>c. c \<in> set (w_camps w) \<Longrightarrow> i = Some (cp_id c) \<Longrightarrow> \<not> cp_deleted c \<Longrightarrow> cp_status c \<noteq> CampPaused"
  shows "campaigns_ok (snd (retry_failed E org i w))"
proof -
  have "campaigns_ok (snd (retry_body E w o' c))"
    if c: "c \<in> set (w_camps w)" "\<not> cp_deleted c" "i = Some (cp_id c)" for o' c
  proof (cases "cp_status c = CampCompleted \<and> recipients_with (cp_id c) MsgFailed w \<noteq> []")
    case False
    moreover have "cp_status c \<noteq> CampPaused" "cp_status c \<noteq> CampFailed"
      using assms(4) c campaigns_ok_served [OF assms(1) c(1,2)] by (auto simp: served_def)
    ultimately show ?thesis using assms(1,3) by (auto simp: retry_body_def Let_def)
  next
    case completed: True
    define k where "k = cp_id c"
    define failed where "failed = recipients_with k MsgFailed w"
    define js where "js = map (job_of k o') failed"
    define rs where "rs = map (\<lambda>r. if rc_camp r = k \<and> rc_status r = MsgFailed \<and> \<not> rc_deleted r
        then r\<lparr>rc_status := MsgPending, rc_error := ''''\<rparr> else r) (w_recips w)"
    define w0 where "w0 = snd (enqueue_recipients E js w)"
    have none: "pending_of k (w_recips w) = {}"
      using completed campaigns_ok_served [OF assms(1) c(1,2)] unfolding served_def k_def by blast
    have w0: "campaigns_ok w0" "w_recips w0 = w_recips w" "w_camps w0 = w_camps w"
      using enqueue_all(1) [OF assms(2,1)] by (simp_all add: w0_def)
    have running: "campaigns_ok (update_campaign_row k (set_status CampProcessing) w0)"
      by (rule set_processing_ok [OF w0(1)]) (use none in \<open>auto simp: w0(2) set_status_def\<close>)
    have "campaigns_ok ((update_campaign_row k (set_status CampProcessing) w0)\<lparr>w_recips := rs\<rparr>)"
    proof (rule campaigns_ok_new_recipients [OF running])
      fix d
      assume d: "d \<in> set (w_camps (update_campaign_row k (set_status CampProcessing) w0))" "\<not> cp_deleted d"
      have other: "pending_of l rs = pending_of l (w_recips w)" if "l \<noteq> k" for l
        using that by (auto simp: rs_def pending_of_def)
      have mine: "waiting (w_stream w0) k (rc_id r)" if r: "r \<in> pending_of k rs" for r
      proof -
        have r_in: "r \<in> set rs" "rc_camp r = k" "rc_status r = MsgPending" "\<not> rc_deleted r"
          using r by (simp_all add: pending_of_def)
        from r_in(1) obtain q where q: "q \<in> set (w_recips w)"
          "r = (if rc_camp q = k \<and> rc_status q = MsgFailed \<and> \<not> rc_deleted q
                then q\<lparr>rc_status := MsgPending, rc_error := ''''\<rparr> else q)"
          unfolding rs_def set_map by blast
        have "q \<notin> pending_of k (w_recips w)" using none by simp
        then have hit: "rc_camp q = k \<and> rc_status q = MsgFailed \<and> \<not> rc_deleted q"
          using q r_in unfolding pending_of_def by (metis (mono_tags, lifting) mem_Collect_eq)
        then have "q \<in> set failed" "rc_id q = rc_id r"
          using q by (simp_all add: failed_def recipients_with_def)
        then show ?thesis
          using jobs_waiting [OF assms(1,2)] unfolding w0_def js_def by metis
      qed
      show "pending_of (cp_id d) rs \<subseteq> pending_of (cp_id d) (w_recips (update_campaign_row k (set_status CampProcessing) w0))"
        if "cp_status d = CampCompleted"
        using d that other by (auto simp: update_campaign_row_def set_status_def w0(2) split: if_splits)
      show "r \<in> pending_of (cp_id d) (w_recips (update_campaign_row k (set_status CampProcessing) w0))
          \<or> waiting (w_stream (update_campaign_row k (set_status CampProcessing) w0)) (cp_id d) (rc_id r)"
        if "r \<in> pending_of (cp_id d) rs" for r
        using that other [of "cp_id d"] mine [of r] by (cases "cp_id d = k") (auto simp: w0(2))
    qed
    then have final: "campaigns_ok w'" if "map camp_view (w_camps w')
        = map camp_view (w_camps (update_campaign_row k (set_status CampProcessing) w0))"
      "w_recips w' = rs" "w_stream w' = w_stream w0" "w_entries w' = w_entries w0" for w'
      using that by (elim campaigns_ok_view) simp_all
    define w3 where "w3 = recalculate_stats E k (w\<lparr>w_recips := rs, w_msgs :=
        map (\<lambda>m. if mg_camp m = k \<and> mg_status m = MsgFailed
                 then m\<lparr>mg_status := MsgPending, mg_error := ''''\<rparr> else m) (w_msgs w)\<rparr>)"
    have w3: "map camp_view (w_camps w3) = map camp_view (w_camps w)" "w_recips w3 = rs"
      "w_stream w3 = w_stream w" "w_entries w3 = w_entries w"
      by (simp_all add: w3_def recalculate_view)
    have "snd (retry_body E w o' c) = update_campaign_row k (set_status CampProcessing) (snd (enqueue_recipients E js w3))"
      using completed assms(2,3) enqueue_row(2) [of E]
      by (simp add: retry_body_def Let_def case_prod_beta k_def [symmetric] failed_def [symmetric] js_def [symmetric]
          rs_def [symmetric] w3_def [symmetric] enqueue_row(1))
    moreover have "campaigns_ok (update_campaign_row k (set_status CampProcessing) (snd (enqueue_recipients E js w3)))"
    proof (rule final)
      show "w_stream (update_campaign_row k (set_status CampProcessing) (snd (enqueue_recipients E js w3))) = w_stream w0"
        "w_entries (update_campaign_row k (set_status CampProcessing) (snd (enqueue_recipients E js w3))) = w_entries w0"
        by (simp_all add: enqueue_recipients_def w0_def w3 Let_def)
      show "map camp_view (w_camps (update_campaign_row k (set_status CampProcessing) (snd (enqueue_recipients E js w3))))
          = map camp_view (w_camps (update_campaign_row k (set_status CampProcessing) w0))"
        by (rule camp_view_status) (simp only: enqueue_frame w3(1) w0(3))
      show "w_recips (update_campaign_row k (set_status CampProcessing) (snd (enqueue_recipients E js w3))) = rs"
        by (simp only: update_campaign_row_frame enqueue_frame w3(2))
    qed
    ultimately show ?thesis by simp
  qed
  then show ?thesis
    unfolding retry_failed_def by (intro with_campaign_ok [OF assms(1)])
qed


lemma add_recipients_ok:
  assumes "campaigns_ok w" "c \<in> set (w_camps w)" "\<not> cp_deleted c" "cp_status c = CampDraft"
  shows "campaigns_ok (snd (add_campaign_recipients E org c reqs dry w))"
proof -
  have rows: "campaigns_ok (w\<lparr>w_recips := w_recips w @ rs\<rparr>)" if "list_all (\<lambda>r. rc_camp r = cp_id c) rs" for rs
  proof (rule campaigns_ok_recipients [OF assms(1)])
    fix d
    assume d: "d \<in> set (w_camps w)" "cp_status d \<in> {CampProcessing, CampCompleted}"
    then have "d \<noteq> c" using assms(4) by auto
    then have "cp_id d \<noteq> cp_id c" using same_campaign [OF assms(1) d(1) assms(2)] by auto
    then show "pending_of (cp_id d) (w_recips w @ rs) \<subseteq> pending_of (cp_id d) (w_recips w)"
      using that by (auto simp: pending_of_def list_all_iff)
  qed
  have new: "list_all (\<lambda>r. rc_camp r = cp_id c) (map2 (new_recipient E (cp_id c)) [0..<length kept] kept)" for kept
    by (auto simp: list_all_iff new_recipient_def)
  have "campaigns_ok (update_campaign_row (cp_id c) (\<lambda>x. x\<lparr>cp_total := t\<rparr>) (w\<lparr>w_recips := w_recips w @ rs\<rparr>))"
    if "list_all (\<lambda>r. rc_camp r = cp_id c) rs" for rs t
    by (rule campaigns_ok_counters [OF rows [OF that]]) simp
  moreover have "campaigns_ok (update_campaign_row (cp_id c) (\<lambda>x. x\<lparr>cp_total := t\<rparr>) w)" for t
    by (rule campaigns_ok_counters [OF assms(1)]) simp
  ultimately show ?thesis
    using assms(1) rows new
    by (simp add: add_campaign_recipients_def Let_def split: option.splits)
qed

lemma import_ok:
  assumes "campaigns_ok w"
  shows "campaigns_ok (snd (import_recipients E org i reqs w))"
    "campaigns_ok (snd (add_recipients_from_contacts E org i req w))"
  unfolding import_recipients_def add_recipients_from_contacts_def
  by (rule with_campaign_ok [OF assms];
      auto simp: assms Let_def intro!: add_recipients_ok [OF assms] split: option.splits)+

lemma remove_ok:
  assumes "campaigns_ok w"
  shows "campaigns_ok (snd (delete_campaign_recipient E org i rid w))"
proof -
  have rows: "campaigns_ok (w\<lparr>w_recips := map (\<lambda>r. if P r then r\<lparr>rc_deleted := True\<rparr> else r) (w_recips w)\<rparr>)" for P
    by (rule campaigns_ok_recipients [OF assms]) (auto simp: pending_of_def split: if_splits)
  have "campaigns_ok (update_campaign_row k (\<lambda>x. x\<lparr>cp_total := cp_total x - 1\<rparr>)
      (w\<lparr>w_recips := map (\<lambda>r. if P r then r\<lparr>rc_deleted := True\<rparr> else r) (w_recips w)\<rparr>))" for P k
    by (rule campaigns_ok_counters [OF rows]) simp
  then have body: "campaigns_ok (snd (with_campaign E org i w (\<lambda>o' c.
        if cp_status c \<noteq> CampDraft then (Refused 400 ''Can only delete recipients from draft campaigns'', w)
        else if \<not> e_ok E ''delete recipient'' then (Refused 500 ''Failed to delete recipient'', w)
        else let hit = (\<lambda>r. Some (rc_id r) = rid \<and> rc_camp r = cp_id c \<and> \<not> rc_deleted r) in
          if filter hit (w_recips w) = [] then (Refused 404 ''Recipient not found'', w)
          else let w1 = w\<lparr>w_recips := map (\<lambda>r. if hit r then r\<lparr>rc_deleted := True\<rparr> else r) (w_recips w)\<rparr>
            in (Accepted ''recipient deleted'',
                if e_ok E ''decrement total''
                then update_campaign_row (cp_id c) (\<lambda>x. x\<lparr>cp_total := cp_total x - 1\<rparr>) w1 else w1))))"
    by (intro with_campaign_ok [OF assms]) (simp add: Let_def assms rows)
  then show ?thesis using assms by (simp add: delete_campaign_recipient_def)
qed

lemma increment_stat_ok:
  "campaigns_ok w \<Longrightarrow> campaigns_ok (increment_campaign_stat E k s w)"
  by (auto simp: increment_campaign_stat_def one_more_failed_def intro!: campaigns_ok_counters)

lemma report_ok:
  assumes "campaigns_ok w"
  shows "campaigns_ok (update_message_status E wamid s err w)"
proof -
  have msgs: "campaigns_ok (w\<lparr>w_msgs := ms\<rparr>)" for ms
    by (rule campaigns_ok_cong [OF assms]) simp_all
  have "campaigns_ok (w'\<lparr>w_recips := map (\<lambda>r. if rc_wamid r = wamid \<and> \<not> rc_deleted r
          then r\<lparr>rc_status := s, rc_error := (if s = MsgFailed \<and> err \<noteq> '''' then err else rc_error r)\<rparr>
          else r) (w_recips w')\<rparr>)"
    if "campaigns_ok w'" "s \<noteq> MsgPending" for w'
    by (rule campaigns_ok_recipients [OF that(1)]) (use that(2) in \<open>auto simp: pending_of_def split: if_splits\<close>)
  then show ?thesis
    using assms increment_stat_ok [OF msgs]
    by (auto simp: update_message_status_def Let_def split: option.splits)
qed

lemma run_op_ok:
  assumes "campaigns_ok w" "calm_op E x w"
  shows "campaigns_ok (run_op E x w)"
proof (cases x)
  case (OpRetry org i)
  then have "campaigns_ok (snd (retry_failed E org i w))"
    using assms by (intro retry_ok) (auto simp: calm_op_def split: option.splits)
  then show ?thesis using OpRetry by simp
next
  case OpConsume
  then show ?thesis
    using assms process_entry_ok [OF assms(1) _ calm_env(1,3) [OF assms(2)]]
    by (auto simp: consume_next_def split: option.splits dest: find_SomeD)
next
  case (OpClaim k)
  then show ?thesis
    using assms process_entry_ok [OF assms(1) _ calm_env(1,3) [OF assms(2)]]
    by (auto simp: claim_entry_def split: option.splits dest: find_SomeD)
qed (use assms in \<open>auto simp: create_ok update_ok delete_ok start_ok pause_cancel_ok import_ok remove_ok report_ok
      calm_op_def\<close>)

text \<open>C34 (invariant). With healthy services, fresh ids, and as long as nobody retries a paused campaign, no
  recipient is forgotten: after any number of requests, jobs and reports, one after the other, a running campaign has,
  for each of its pending recipients, a job on the stream that was not acknowledged yet, through starts, pauses, resumes,
  redeliveries and retries in any order; and a campaign is completed only with no recipient pending. Each
  request and each job runs whole, with no other in between (\<open>calm_op\<close>; \<open>e_meanwhile\<close> writes nothing): the theorem says nothing
  of two that overlap, where an import can strand a recipient (\<open>import_beside_a_start_strands\<close>) and
  a completion can overwrite a cancel.\<close>

theorem no_recipient_is_forgotten:
  assumes "campaigns_ok w" "calm_run ops w"
    and "c \<in> set (w_camps (run_ops ops w))" "\<not> cp_deleted c"
    and "r \<in> set (w_recips (run_ops ops w))" "rc_camp r = cp_id c" "\<not> rc_deleted r" "rc_status r = MsgPending"
  shows "cp_status c \<noteq> CampCompleted
    \<and> (cp_status c = CampProcessing \<longrightarrow> waiting (w_stream (run_ops ops w)) (cp_id c) (rc_id r))"
proof -
  have "campaigns_ok (run_ops ops w)"
    using assms(1,2)
  proof (induction ops arbitrary: w)
    case (Cons a ops)
    then show ?case by (cases a) (simp add: run_op_ok)
  qed simp
  from campaigns_ok_served [OF this assms(3,4)] show ?thesis
    using assms(5-8) by (auto simp: served_def pending_of_def)
qed


subsection \<open>Customers with an open occurrence\<close>

text \<open>
  A recipient row is new when the table had none with its id, campaign and number; the other columns
  change as the campaign runs. \<open>adds_nobody\<close>: what other processes do while the worker is in its job
  adds no recipient, their requests being operations of their own.
\<close>

definition recipient_key :: "recipient \<Rightarrow> string \<times> string \<times> string" where
  "recipient_key r = (rc_id r, rc_camp r, rc_phone r)"

definition recipient_keys :: "camp_world \<Rightarrow> (string \<times> string \<times> string) set" where
  "recipient_keys w = recipient_key ` set (w_recips w)"

definition adds_nobody :: "camp_env \<Rightarrow> bool" where
  "adds_nobody E \<longleftrightarrow> (\<forall>v. recipient_keys (e_meanwhile E v) \<subseteq> recipient_keys v)"

lemma recipient_keys_rows [simp]:
  "recipient_keys (update_campaign_row i f w) = recipient_keys w"
  "recipient_keys (increment_count E i f w) = recipient_keys w"
  "recipient_keys (recalculate_stats E i w) = recipient_keys w"
  "recipient_keys (w\<lparr>w_stream := st\<rparr>) = recipient_keys w"
  "recipient_keys (w\<lparr>w_contacts := ks\<rparr>) = recipient_keys w"
  "recipient_keys (w\<lparr>w_msgs := ms\<rparr>) = recipient_keys w"
  "recipient_keys (w\<lparr>w_calls := cs\<rparr>) = recipient_keys w"
  "recipient_keys (w\<lparr>w_camps := rows\<rparr>) = recipient_keys w"
  by (simp_all add: recipient_keys_def)

lemma recipient_keys_map:
  assumes "\<And>r. recipient_key (f r) = recipient_key r"
  shows "recipient_keys (w\<lparr>w_recips := map f (w_recips w)\<rparr>) = recipient_keys w"
  using assms by (simp add: recipient_keys_def image_image)

lemma recipient_keys_status [simp]: "recipient_keys (update_recipient_status E rid s wamid err w) = recipient_keys w"
  by (simp add: update_recipient_status_def recipient_keys_map recipient_key_def)

lemma recipient_keys_failed [simp]: "recipient_keys (mark_failed E j err w) = recipient_keys w"
  by (simp add: mark_failed_def)

lemma recipient_keys_enqueue [simp]: "recipient_keys (snd (enqueue_recipients E js w)) = recipient_keys w"
  by (simp add: recipient_keys_def)

lemma completion_adds_nobody: "adds_nobody E \<Longrightarrow> recipient_keys (check_campaign_completion E i w) \<subseteq> recipient_keys w"
  by (auto simp: check_campaign_completion_def Let_def adds_nobody_def split: option.splits)

lemma deliver_adds_nobody: "adds_nobody E \<Longrightarrow> recipient_keys (deliver E c t j k w) \<subseteq> recipient_keys w"
  unfolding deliver_def Let_def
  by (rule order_trans [OF completion_adds_nobody]) (simp_all split: sum.split)

lemma job_adds_nobody: "adds_nobody E \<Longrightarrow> recipient_keys (snd (handle_recipient_job E j w)) \<subseteq> recipient_keys w"
  by (auto simp: handle_recipient_job_def Let_def split: option.splits sum.splits prod.splits
      dest!: subsetD [OF deliver_adds_nobody])

lemma entry_adds_nobody: "adds_nobody E \<Longrightarrow> recipient_keys (snd (process_entry E s w)) \<subseteq> recipient_keys w"
proof -
  assume E: "adds_nobody E"
  let ?w0 = "w\<lparr>w_stream := map (\<lambda>x. if se_id x = se_id s then x\<lparr>se_delivered := True\<rparr> else x) (w_stream w)\<rparr>"
  have "recipient_keys (snd (handle_recipient_job E (se_job s) ?w0)) \<subseteq> recipient_keys w"
    using job_adds_nobody [OF E, of "se_job s" ?w0] by simp
  then show ?thesis
    by (auto simp: process_entry_def Let_def acknowledge_def split: prod.splits job_result.splits)
qed

lemma handlers_add_nobody:
  "recipient_keys (snd (create_campaign E org req w)) = recipient_keys w"
  "recipient_keys (snd (update_campaign E org i req w)) = recipient_keys w"
  "recipient_keys (snd (delete_campaign E org i w)) = recipient_keys w"
  "recipient_keys (snd (pause_campaign E org i w)) = recipient_keys w"
  "recipient_keys (snd (cancel_campaign E org i w)) = recipient_keys w"
  "recipient_keys (snd (delete_campaign_recipient E org i rid w)) = recipient_keys w"
  "recipient_keys (update_message_status E wamid s err w) = recipient_keys w"
  by (auto simp: create_campaign_def update_campaign_def delete_campaign_def pause_campaign_def cancel_campaign_def
      delete_campaign_recipient_def update_message_status_def increment_campaign_stat_def with_campaign_def Let_def
      recipient_keys_map recipient_key_def
      split: option.splits)

lemma start_adds_nobody: "recipient_keys (snd (start_campaign E org i w)) = recipient_keys w"
  unfolding start_campaign_def
  by (rule with_campaign_snd [where P = "\<lambda>v. recipient_keys v = recipient_keys w"])
    (auto simp: start_body_def Let_def case_prod_beta)

lemma retry_adds_nobody: "recipient_keys (snd (retry_failed E org i w)) = recipient_keys w"
  unfolding retry_failed_def
  by (rule with_campaign_snd [where P = "\<lambda>v. recipient_keys v = recipient_keys w"])
    (auto simp: retry_body_def Let_def case_prod_beta recipient_keys_map recipient_key_def)

text \<open>Who is kept out: the customers of the organisation, as contacts that are not deleted, with an open occurrence.\<close>

definition kept_out :: "string \<Rightarrow> camp_world \<Rightarrow> string \<Rightarrow> bool" where
  "kept_out org w phone \<longleftrightarrow> (\<exists>k \<in> set (w_contacts w). row_org k = org \<and> \<not> row_deleted k \<and> (org, row_id k) \<in> set (w_occurrences w)
     \<and> (normalize_phone phone \<in> set (phone_identities (row_phone k)) \<or> canonical_phone phone = canonical_phone (row_phone k)))"

lemma added_recipients:
  assumes "r \<in> set (w_recips (snd (add_campaign_recipients E org c reqs dry w)))"
  shows "r \<in> set (w_recips w) \<or> rc_camp r = cp_id c \<and> rc_status r = MsgPending \<and> \<not> kept_out org w (rc_phone r)"
proof (cases "r \<in> set (w_recips w)")
  case False
  then obtain blocked where b: "active_occurrence_phones E w org = Some blocked"
    using assms by (cases "active_occurrence_phones E w org") (auto simp: add_campaign_recipients_def)
  let ?kept = "filter (\<lambda>q. normalize_phone (rr_phone q) \<notin> set blocked) reqs"
  have "r \<in> set (map2 (new_recipient E (cp_id c)) [0..<length ?kept] ?kept)"
    using assms False b by (auto simp: add_campaign_recipients_def Let_def split: if_splits)
  then obtain q where "q \<in> set ?kept" "rc_phone r = rr_phone q" "rc_camp r = cp_id c" "rc_status r = MsgPending"
    by (auto simp: new_recipient_def dest: set_zip_rightD)
  moreover have "set (phone_identities (row_phone k)) \<subseteq> set blocked"
    if "k \<in> set (w_contacts w)" "row_org k = org" "\<not> row_deleted k" "(org, row_id k) \<in> set (w_occurrences w)" for k
    using b that by (auto simp: active_occurrence_phones_def split: if_splits)
  ultimately show ?thesis using same_canonical_identity unfolding kept_out_def by fastforce
qed simp

text \<open>C36 (safety). Whatever the operation, a request, a job of the worker or a delivery report, with
  whatever statements failing: a recipient it adds is a pending recipient of a draft campaign, and no
  customer of that organisation with an open occurrence has the number. The number is not spelled like one of the
  phone identities of such a customer, nor is it the customer's number in another spelling of the same canonical
  form. The customers are the contacts that are not deleted, with the occurrences the table holds at that
  moment; a request is one step, and what other processes write during a job of the worker is their own.\<close>

theorem open_occurrences_are_left_out:
  assumes "adds_nobody E" "r \<in> set (w_recips (run_op E x w))" "recipient_key r \<notin> recipient_keys w"
  shows "\<exists>c \<in> set (w_camps w). cp_id c = rc_camp r \<and> \<not> cp_deleted c \<and> cp_status c = CampDraft \<and> rc_status r = MsgPending
     \<and> (\<forall>k \<in> set (w_contacts w). row_org k = cp_org c \<and> \<not> row_deleted k \<and> (cp_org c, row_id k) \<in> set (w_occurrences w) \<longrightarrow>
          normalize_phone (rc_phone r) \<notin> set (phone_identities (row_phone k))
          \<and> canonical_phone (rc_phone r) \<noteq> canonical_phone (row_phone k))"
proof -
  define fine where "fine = (\<lambda>w' :: camp_world. \<forall>r \<in> set (w_recips w'). recipient_key r \<in> recipient_keys w
     \<or> (\<exists>c \<in> set (w_camps w). cp_id c = rc_camp r \<and> \<not> cp_deleted c \<and> cp_status c = CampDraft \<and> rc_status r = MsgPending
          \<and> \<not> kept_out (cp_org c) w (rc_phone r)))"
  have old: "fine w'" if "recipient_keys w' \<subseteq> recipient_keys w" for w'
    using that unfolding fine_def recipient_keys_def by blast
  have add: "fine (snd (add_campaign_recipients E o' c reqs dry w))"
    if "find_campaign E w i o' = Some c" "cp_status c = CampDraft" for i o' c reqs dry
  proof -
    have c: "c \<in> set (w_camps w)" "cp_org c = o'" "\<not> cp_deleted c" using find_campaign_Some [OF that(1)] by simp_all
    show ?thesis
      unfolding fine_def recipient_keys_def
    proof (intro ballI)
      fix r assume "r \<in> set (w_recips (snd (add_campaign_recipients E o' c reqs dry w)))"
      from added_recipients [OF this] c that(2)
      show "recipient_key r \<in> recipient_key ` set (w_recips w)
        \<or> (\<exists>c \<in> set (w_camps w). cp_id c = rc_camp r \<and> \<not> cp_deleted c \<and> cp_status c = CampDraft \<and> rc_status r = MsgPending
             \<and> \<not> kept_out (cp_org c) w (rc_phone r))"
        by auto
    qed
  qed
  have "fine (run_op E x w)"
  proof (cases x)
    case (OpImport org i reqs)
    have "fine (snd (import_recipients E org i reqs w))"
      unfolding import_recipients_def
      by (rule with_campaign_snd) (auto intro: old add split: option.split)
    then show ?thesis using OpImport by simp
  next
    case (OpSegment org i req)
    have "fine (snd (add_recipients_from_contacts E org i req w))"
      unfolding add_recipients_from_contacts_def
      by (rule with_campaign_snd) (auto simp: Let_def intro: old add split: option.split)
    then show ?thesis using OpSegment by simp
  next
    case OpConsume
    then show ?thesis using entry_adds_nobody [OF assms(1)]
      by (auto simp: consume_next_def intro!: old split: option.splits)
  next
    case (OpClaim k)
    then show ?thesis using entry_adds_nobody [OF assms(1)]
      by (auto simp: claim_entry_def intro!: old split: option.splits)
  qed (simp_all add: old handlers_add_nobody start_adds_nobody retry_adds_nobody)
  then show ?thesis using assms(2,3) unfolding fine_def kept_out_def by blast
qed

section \<open>A campaign with its hard cases\<close>

definition sample_campaign :: campaign where
  "sample_campaign =
    \<lparr>cp_id = ''c'', cp_org = ''o'', cp_account = ''wa'', cp_name = ''Black Friday'', cp_template = ''t'',
     cp_media = '''', cp_media_name = '''', cp_status = CampProcessing, cp_total = 2, cp_sent = 0,
     cp_delivered = 0, cp_read = 0, cp_failed = 0, cp_scheduled = None, cp_started = None,
     cp_completed = None, cp_deleted = False\<rparr>"

definition sample_recipient :: "string \<Rightarrow> string \<Rightarrow> msg_status \<Rightarrow> recipient" where
  "sample_recipient i phone s =
    \<lparr>rc_id = i, rc_camp = ''c'', rc_phone = phone, rc_name = ''Ana'', rc_params = [], rc_header = [],
     rc_status = s, rc_wamid = '''', rc_error = '''', rc_sent_at = None, rc_deleted = False\<rparr>"

definition sample_template :: wa_template where
  "sample_template = \<lparr>tp_id = ''t'', tp_org = ''o'', tp_name = ''promo'', tp_category = ''MARKETING'',
     tp_body = ''Oi'', tp_header_type = '''', tp_header = '''', tp_buttons = [], tp_deleted = False\<rparr>"

definition sample_entry :: "nat \<Rightarrow> bool \<Rightarrow> recipient \<Rightarrow> stream_entry" where
  "sample_entry k delivered r = \<lparr>se_id = k, se_job = job_of ''c'' ''o'' r, se_delivered = delivered\<rparr>"

definition sample_attrs :: contact_attrs where
  "sample_attrs = \<lparr>ct_kind = ''cliente'', ct_unit = None, ct_dept = None, ct_opt_out = False\<rparr>"

definition running_world :: camp_world where
  "running_world =
    \<lparr>w_camps = [sample_campaign], w_recips = [sample_recipient ''r'' ''5571991234567'' MsgPending],
     w_stream = [sample_entry 0 False (sample_recipient ''r'' ''5571991234567'' MsgPending)], w_entries = 1,
     w_contacts = [first_row], w_attrs = (\<lambda>_. sample_attrs), w_accounts = [(''wa'', ''o'')],
     w_templates = [sample_template], w_occurrences = [], w_msgs = [], w_calls = []\<rparr>"

definition calm_services :: camp_env where
  "calm_services =
    \<lparr>e_now = 9, e_new_id = ''new'', e_recipient_id = (\<lambda>k. show_nat k), e_ok = (\<lambda>_. True),
     e_identity = calm_env, e_show = (\<lambda>_. ''''), e_nano = (\<lambda>_. 0), e_send = (\<lambda>_ _ _. Inr ''wamid''), e_enqueue = None,
     e_meanwhile = (\<lambda>w. w), e_units = [], e_departments = []\<rparr>"

text \<open>The ordinary end: the last job is sent and the campaign completes.\<close>

lemma last_job_completes:
  "map cp_status (w_camps (consume_next calm_services running_world)) = [CampCompleted]"
  "w_stream (consume_next calm_services running_world) = []"
  by code_simp+

text \<open>
  The jobs that end early, an opted-out contact or a missing account, do not look whether they were
  the last: the campaign keeps running with nothing left to do.
\<close>

lemma opted_out_last_job_leaves_it_running:
  "let w = consume_next calm_services (running_world\<lparr>w_attrs := (\<lambda>_. sample_attrs\<lparr>ct_opt_out := True\<rparr>)\<rparr>)
   in map cp_status (w_camps w) = [CampProcessing] \<and> w_stream w = []
      \<and> map rc_status (w_recips w) = [MsgFailed]"
  by code_simp

text \<open>The template is deleted while the campaign runs: the worker dereferences it and panics, on every redelivery.\<close>

lemma deleted_template_panics:
  "fst (handle_recipient_job calm_services (job_of ''c'' ''o'' (sample_recipient ''r'' ''5571991234567'' MsgPending))
     (running_world\<lparr>w_templates := [sample_template\<lparr>tp_deleted := True\<rparr>]\<rparr>)) = JobPanic"
  by code_simp

text \<open>The handler does not look at the recipient: a redelivered job sends the message again.\<close>

lemma redelivered_job_sends_again:
  "let w = consume_next (calm_services\<lparr>e_ok := (\<lambda>s. s \<noteq> ''ack'')\<rparr>) running_world;
       w' = claim_entry calm_services 0 w
   in map sd_recipient (w_calls w') = [''r'', ''r''] \<and> map cp_sent (w_camps w') = [2]"
  by code_simp

text \<open>A pause and a resume put a second job of each pending recipient on the stream, and both send.\<close>

lemma resume_sends_twice:
  "let w = run_ops (map (Pair calm_services) [OpPause (Some ''o'') (Some ''c''), OpStart (Some ''o'') (Some ''c''),
             OpConsume, OpConsume]) running_world
   in map sd_recipient (w_calls w) = [''r'', ''r'']"
  by code_simp

text \<open>
  Retrying a paused campaign queues the failed recipients only. The jobs of the pending ones were
  dropped while it was paused, so they wait for ever in a running campaign.
\<close>

lemma retry_of_a_paused_campaign_strands:
  "let w0 = running_world\<lparr>w_camps := [sample_campaign\<lparr>cp_status := CampPaused\<rparr>],
             w_recips := w_recips running_world @ [sample_recipient ''q'' ''5571987654321'' MsgFailed]\<rparr>;
       w = run_ops (map (Pair calm_services) [OpConsume, OpRetry (Some ''o'') (Some ''c''), OpConsume]) w0
   in map cp_status (w_camps w) = [CampProcessing] \<and> w_stream w = []
      \<and> map rc_status (w_recips w) = [MsgPending, MsgSent]"
  by code_simp

text \<open>A failed count of the pending recipients reads as none, and completes the campaign over them.\<close>

lemma failed_count_completes:
  "let w0 = running_world\<lparr>w_recips := w_recips running_world @ [sample_recipient ''q'' ''5571987654321'' MsgPending]\<rparr>;
       w = consume_next (calm_services\<lparr>e_ok := (\<lambda>s. s \<noteq> ''count pending'')\<rparr>) w0
   in map cp_status (w_camps w) = [CampCompleted] \<and> map rc_status (w_recips w) = [MsgSent, MsgPending]"
  by code_simp

text \<open>The completion is written without a condition: a cancel that comes between is overwritten.\<close>

lemma completion_overwrites_a_cancel:
  "let E = calm_services\<lparr>e_meanwhile := (\<lambda>w. snd (cancel_campaign calm_services (Some ''o'') (Some ''c'') w))\<rparr>
   in map cp_status (w_camps (consume_next E running_world)) = [CampCompleted]"
  by code_simp

text \<open>A report that fails again counts the message again.\<close>

lemma repeated_failure_counts_twice:
  "let w = run_ops (map (Pair calm_services) [OpConsume, OpReport ''wamid'' MsgFailed '''', OpReport ''wamid'' MsgFailed '''']) running_world
   in map cp_failed (w_camps w) = [2] \<and> map cp_sent (w_camps w) = [1]"
  by code_simp

lemma sample_ok: "campaigns_ok running_world"
  by (simp add: campaigns_ok_def running_world_def sample_campaign_def served_def pending_of_def waiting_def
      sample_entry_def job_of_def sample_recipient_def)

lemma campaign_calls_are_allowed_witness:
  "list_all call_allowed (w_calls (run_ops [(calm_services, OpConsume)] running_world))"
  by (rule campaign_calls_are_allowed) (simp_all add: running_world_def quiet_meanwhile_def calm_services_def)

lemma no_recipient_is_forgotten_witness:
  "waiting (w_stream (run_ops [(calm_services, OpPause (Some ''o'') (Some ''c'')), (calm_services, OpStart (Some ''o'') (Some ''c''))]
     running_world)) ''c'' ''r''"
proof -
  let ?ops = "[(calm_services, OpPause (Some ''o'') (Some ''c'')), (calm_services, OpStart (Some ''o'') (Some ''c''))]"
  let ?c = "sample_campaign\<lparr>cp_started := Some 9\<rparr>" and ?r = "sample_recipient ''r'' ''5571991234567'' MsgPending"
  have "w_camps (run_ops ?ops running_world) = [?c]" "w_recips (run_ops ?ops running_world) = [?r]"
    by code_simp+
  moreover have "calm_run ?ops running_world"
    by (simp add: calm_op_def calm_services_def running_world_def sample_campaign_def sample_recipient_def
        pause_campaign_def with_campaign_def find_campaign_def update_campaign_row_def set_status_def)
  ultimately show ?thesis
    using no_recipient_is_forgotten [OF sample_ok, of ?ops ?c ?r]
    by (simp add: sample_campaign_def sample_recipient_def)
qed

text \<open>
  The handlers are one step each here. In the code another request may come between their statements:
  an import that read the campaign as a draft and inserts after a start has collected the
  recipients leaves a pending recipient without a job in a running campaign.
\<close>

lemma import_beside_a_start_strands:
  "let draft = sample_campaign\<lparr>cp_status := CampDraft\<rparr>;
       w0 = running_world\<lparr>w_camps := [draft], w_stream := []\<rparr>;
       read = find_campaign calm_services w0 ''c'' ''o'';
       w1 = snd (start_campaign calm_services (Some ''o'') (Some ''c'') w0);
       w2 = snd (add_campaign_recipients calm_services ''o'' (the read)
              [\<lparr>rr_phone = ''5571987654321'', rr_name = '''', rr_params = [], rr_header = []\<rparr>] False w1)
   in map cp_status (w_camps w2) = [CampProcessing] \<and> map rc_status (w_recips w2) = [MsgPending, MsgPending]
      \<and> map (\<lambda>s. jb_phone (se_job s)) (w_stream w2) = [''5571991234567'']"
  by code_simp

lemma open_occurrences_are_left_out_witness:
  "canonical_phone ''71 98888-7777'' \<noteq> canonical_phone (row_phone first_row)"
proof -
  let ?w = "running_world\<lparr>w_occurrences := [(''o'', ''a'')], w_camps := [sample_campaign\<lparr>cp_status := CampDraft\<rparr>]\<rparr>"
  let ?q = "\<lparr>rr_phone = ''71 98888-7777'', rr_name = '''', rr_params = [], rr_header = []\<rparr>"
  let ?new = "new_recipient calm_services ''c'' 0 ?q"
  have "w_recips (run_op calm_services (OpImport (Some ''o'') (Some ''c'') (Some [?q])) ?w) = w_recips ?w @ [?new]"
    by code_simp
  moreover have "adds_nobody calm_services" by (simp add: adds_nobody_def calm_services_def)
  moreover have "recipient_key ?new \<notin> recipient_keys ?w"
    by (simp add: recipient_key_def recipient_keys_def new_recipient_def running_world_def sample_recipient_def)
  ultimately show ?thesis
    using open_occurrences_are_left_out [of calm_services ?new "OpImport (Some ''o'') (Some ''c'') (Some [?q])" ?w]
    by (simp add: new_recipient_def running_world_def first_row_def sample_campaign_def)
qed

end
