(* ===== verification/Role_Catalog.thy ===== *)
theory Role_Catalog
  imports Prelude
begin

text \<open>
  The catalog of permissions, the permissions of the system roles (\<open>models/roles.go\<close>) and their order
  on the permissions screen (\<open>models/permission_catalog.go\<close>).
\<close>

definition default_permissions :: "(string \<times> string) list" where
  "default_permissions =
    [(''users'', ''read''), (''users'', ''write''), (''users'', ''delete''), (''teams'', ''read''),
     (''teams'', ''write''), (''teams'', ''delete''), (''roles'', ''read''), (''roles'', ''write''),
     (''roles'', ''delete''), (''settings.general'', ''read''), (''settings.general'', ''write''),
     (''settings.chatbot'', ''read''), (''settings.chatbot'', ''write''), (''settings.sso'', ''read''),
     (''settings.sso'', ''write''), (''accounts'', ''read''), (''accounts'', ''write''),
     (''accounts'', ''delete''), (''templates'', ''read''), (''templates'', ''write''),
     (''templates'', ''delete''), (''templates'', ''sync''), (''flows.whatsapp'', ''read''),
     (''flows.whatsapp'', ''write''), (''flows.whatsapp'', ''delete''), (''flows.chatbot'', ''read''),
     (''flows.chatbot'', ''write''), (''flows.chatbot'', ''delete''), (''campaigns'', ''read''),
     (''campaigns'', ''write''), (''campaigns'', ''delete''), (''campaigns'', ''execute''),
     (''chatbot.keywords'', ''read''), (''chatbot.keywords'', ''write''),
     (''chatbot.keywords'', ''delete''), (''chatbot.ai'', ''read''), (''chatbot.ai'', ''write''),
     (''chatbot.ai'', ''delete''), (''chat'', ''read''), (''chat'', ''write''),
     (''chat.assign'', ''write''), (''team_chat'', ''read''), (''team_chat'', ''write''),
     (''team_chat'', ''manage''), (''team_chat'', ''delete''), (''team_chat'', ''join_any''),
     (''conversations'', ''view_all''), (''conversations'', ''view_team''), (''contacts'', ''read''),
     (''contacts'', ''write''), (''contacts'', ''delete''), (''contacts'', ''import''),
     (''contacts'', ''export''), (''contacts.name'', ''write''), (''tags'', ''read''),
     (''tags'', ''write''), (''tags'', ''delete''), (''analytics'', ''read''), (''analytics'', ''write''),
     (''analytics'', ''delete''), (''analytics.agents'', ''read''), (''analytics.agents'', ''view_team''),
     (''whatsapp_usage'', ''read''), (''whatsapp_usage'', ''write''), (''transfers'', ''read''),
     (''transfers'', ''write''), (''transfers'', ''pickup''), (''webhooks'', ''read''),
     (''webhooks'', ''write''), (''webhooks'', ''delete''), (''api_keys'', ''read''),
     (''api_keys'', ''write''), (''api_keys'', ''delete''), (''xprocess_integration'', ''read''),
     (''xprocess_integration'', ''write''), (''knowledge'', ''read''), (''knowledge'', ''write''),
     (''ai_tools'', ''read''), (''ai_tools'', ''write''), (''canned_responses'', ''read''),
     (''canned_responses'', ''write''), (''canned_responses'', ''delete''), (''custom_actions'', ''read''),
     (''custom_actions'', ''write''), (''custom_actions'', ''delete''), (''organizations'', ''read''),
     (''organizations'', ''write''), (''organizations'', ''delete''), (''organizations'', ''assign''),
     (''call_logs'', ''read''), (''ivr_flows'', ''read''), (''ivr_flows'', ''write''),
     (''ivr_flows'', ''delete''), (''call_transfers'', ''read''), (''call_transfers'', ''write''),
     (''outgoing_calls'', ''read''), (''outgoing_calls'', ''write''), (''audit_logs'', ''read''),
     (''occurrences'', ''read''), (''occurrences'', ''write''), (''occurrences'', ''delete''),
     (''occurrences.stages'', ''read''), (''occurrences.stages'', ''write''),
     (''occurrences.stages'', ''delete''), (''occurrences.categories'', ''read''),
     (''occurrences.categories'', ''write''), (''occurrences.categories'', ''delete''),
     (''occurrences.what_happened'', ''read''), (''occurrences.what_happened'', ''write''),
     (''occurrences.what_happened'', ''delete''), (''occurrences.sla_policies'', ''read''),
     (''occurrences.sla_policies'', ''write''), (''occurrences.processes'', ''read''),
     (''occurrences.processes'', ''write''), (''occurrences.processes'', ''delete''), (''units'', ''read''),
     (''units'', ''write''), (''units'', ''delete''), (''departments'', ''read''),
     (''departments'', ''write''), (''departments'', ''delete''), (''sales_opportunities'', ''read''),
     (''sales_opportunities'', ''write''), (''sales_opportunities'', ''view_all''),
     (''sales_opportunities'', ''view_team''), (''sales_opportunities'', ''delete'')]"

definition perm_key :: "string \<times> string \<Rightarrow> string" where
  "perm_key p = fst p @ '':'' @ snd p"

definition manager_permissions :: "string list" where
  "manager_permissions =
    [''teams:read'', ''settings.general:read'', ''settings.general:write'', ''settings.chatbot:read'',
     ''settings.chatbot:write'', ''accounts:read'', ''accounts:write'', ''accounts:delete'',
     ''templates:read'', ''templates:write'', ''templates:delete'', ''templates:sync'',
     ''flows.whatsapp:read'', ''flows.whatsapp:write'', ''flows.whatsapp:delete'', ''flows.chatbot:read'',
     ''flows.chatbot:write'', ''flows.chatbot:delete'', ''campaigns:read'', ''campaigns:write'',
     ''campaigns:delete'', ''campaigns:execute'', ''chatbot.keywords:read'', ''chatbot.keywords:write'',
     ''chatbot.keywords:delete'', ''chatbot.ai:read'', ''chatbot.ai:write'', ''chatbot.ai:delete'',
     ''chat:read'', ''chat:write'', ''chat.assign:write'', ''team_chat:read'', ''team_chat:write'',
     ''team_chat:manage'', ''team_chat:delete'', ''occurrences:read'', ''occurrences:write'',
     ''occurrences.stages:read'', ''occurrences.stages:write'', ''occurrences.stages:delete'',
     ''occurrences.categories:read'', ''occurrences.categories:write'', ''occurrences.categories:delete'',
     ''occurrences.what_happened:read'', ''occurrences.what_happened:write'',
     ''occurrences.what_happened:delete'', ''occurrences.sla_policies:read'',
     ''occurrences.sla_policies:write'', ''units:read'', ''units:write'', ''units:delete'',
     ''departments:read'', ''departments:write'', ''departments:delete'', ''conversations:view_all'',
     ''contacts:read'', ''contacts:write'', ''contacts:delete'', ''contacts:import'', ''contacts:export'',
     ''tags:read'', ''tags:write'', ''tags:delete'', ''analytics:read'', ''analytics.agents:read'',
     ''whatsapp_usage:read'', ''transfers:read'', ''transfers:write'', ''transfers:pickup'',
     ''webhooks:read'', ''webhooks:write'', ''webhooks:delete'', ''canned_responses:read'',
     ''canned_responses:write'', ''canned_responses:delete'', ''custom_actions:read'',
     ''custom_actions:write'', ''custom_actions:delete'', ''organizations:read'', ''call_logs:read'',
     ''ivr_flows:read'', ''ivr_flows:write'', ''ivr_flows:delete'', ''call_transfers:read'',
     ''call_transfers:write'', ''outgoing_calls:read'', ''outgoing_calls:write'',
     ''sales_opportunities:read'', ''sales_opportunities:write'', ''sales_opportunities:view_all'']"

definition agent_permissions :: "string list" where
  "agent_permissions =
    [''accounts:read'', ''chat:read'', ''chat:write'', ''team_chat:read'', ''team_chat:write'',
     ''occurrences:read'', ''occurrences:write'', ''contacts:read'', ''contacts.name:write'', ''tags:read'',
     ''analytics.agents:read'', ''transfers:read'', ''transfers:write'', ''transfers:pickup'',
     ''canned_responses:read'', ''call_transfers:read'', ''call_transfers:write'', ''outgoing_calls:read'',
     ''outgoing_calls:write'', ''sales_opportunities:read'', ''sales_opportunities:write'']"

definition system_role_permissions :: "string \<Rightarrow> string list" where
  "system_role_permissions name =
     (if name = ''admin'' then map perm_key default_permissions
      else if name = ''manager'' then manager_permissions
      else if name = ''agent'' then agent_permissions else [])"

section \<open>The permissions screen\<close>

definition permission_groups :: "(string \<times> nat \<times> string list) list" where
  "permission_groups =
    [(''admin'', 10, [''users'', ''teams'', ''roles'', ''organizations'', ''audit_logs'', ''settings.general'',
       ''settings.sso'']),
     (''service'', 20, [''chat'', ''chat.assign'', ''team_chat'', ''conversations'', ''contacts'',
       ''contacts.name'', ''tags'', ''transfers'', ''canned_responses'']),
     (''crm'', 30, [''occurrences'', ''occurrences.stages'', ''occurrences.categories'',
       ''occurrences.what_happened'', ''occurrences.sla_policies'', ''occurrences.processes'',
       ''units'', ''departments'']),
     (''sales'', 40, [''sales_opportunities'']),
     (''whatsapp'', 50, [''accounts'', ''templates'', ''campaigns'', ''flows.whatsapp'', ''flows.chatbot'',
       ''chatbot.keywords'', ''settings.chatbot'']),
     (''ai'', 60, [''chatbot.ai'', ''knowledge'', ''ai_tools'']),
     (''integrations'', 70, [''xprocess_integration'', ''webhooks'', ''api_keys'', ''custom_actions'']),
     (''analytics'', 80, [''analytics'', ''analytics.agents'', ''whatsapp_usage'']),
     (''calls'', 90, [''call_logs'', ''ivr_flows'', ''call_transfers'', ''outgoing_calls''])]"

definition permission_action_order :: "string list" where
  "permission_action_order =
    [''read'', ''write'', ''delete'', ''sync'', ''execute'', ''import'', ''export'', ''pickup'', ''assign'',
     ''view_all'', ''view_team'', ''manage'', ''join_any'']"

text \<open>The first place of an element, and the length of the list when there is none.\<close>

fun index_of :: "'a \<Rightarrow> 'a list \<Rightarrow> nat" where
  "index_of x [] = 0"
| "index_of x (y # ys) = (if x = y then 0 else Suc (index_of x ys))"

text \<open>The loop over the groups does not stop at a hit: the last group that lists the resource counts.\<close>

definition resource_group :: "string \<Rightarrow> string \<times> nat \<times> nat" where
  "resource_group r =
     fold (\<lambda>(k, n, rs) best. if r \<in> set rs then (k, n, index_of r rs) else best)
       permission_groups (''other'', 999, 0)"

definition permission_presentation :: "string \<Rightarrow> string \<Rightarrow> string \<times> nat \<times> nat" where
  "permission_presentation r act =
     (let (k, n, i) = resource_group r
      in (k, n, n * 10000 + i * 100 + index_of act permission_action_order))"

section \<open>What the catalog promises\<close>

text \<open>Each permission of the catalog has a group of its own on the screen.\<close>

definition pick_group :: "string \<Rightarrow> string \<times> nat \<times> string list \<Rightarrow> string \<times> nat \<times> nat \<Rightarrow> string \<times> nat \<times> nat" where
  "pick_group r g best = 
     (if r \<in> set (snd (snd g)) then (fst g, fst (snd g), index_of r (snd (snd g))) else best)"

lemma resource_group_pick: "resource_group r = fold (pick_group r) permission_groups (''other'', 999, 0)"
proof -
  have "(\<lambda>(k, n, rs) best. if r \<in> set rs then (k, n, index_of r rs) else best) = pick_group r"
    by (intro ext) (auto simp: pick_group_def)
  then show ?thesis by (simp add: resource_group_def)
qed

lemma fold_pick_keeps:
  "fst b \<noteq> ''other'' \<Longrightarrow> \<forall>g \<in> set gs. fst g \<noteq> ''other'' \<Longrightarrow> fst (fold (pick_group r) gs b) \<noteq> ''other''"
  by (induction gs arbitrary: b) (simp_all add: pick_group_def)

lemma fold_pick_finds:
  "g \<in> set gs \<Longrightarrow> r \<in> set (snd (snd g)) \<Longrightarrow> \<forall>g \<in> set gs. fst g \<noteq> ''other''
   \<Longrightarrow> fst (fold (pick_group r) gs b) \<noteq> ''other''"
proof (induction gs arbitrary: b)
  case (Cons h gs)
  show ?case
  proof (cases "g = h")
    case True
    then have "fst (pick_group r h b) \<noteq> ''other''" using Cons.prems by (simp add: pick_group_def)
    then show ?thesis using Cons.prems by (simp add: fold_pick_keeps)
  qed (use Cons in simp)
qed simp

lemma catalog_resources_are_grouped:
  "list_all (\<lambda>r. list_ex (\<lambda>g. r \<in> set (snd (snd g))) permission_groups) (remdups_adj (map fst default_permissions))"
  by (simp add: default_permissions_def permission_groups_def)

lemma every_permission_has_a_group:
  assumes "(r, act) \<in> set default_permissions"
  shows "fst (permission_presentation r act) \<noteq> ''other''"
proof -
  have "r \<in> set (remdups_adj (map fst default_permissions))" using assms by force
  then obtain g where "g \<in> set permission_groups" "r \<in> set (snd (snd g))"
    using catalog_resources_are_grouped by (auto simp: list_all_iff list_ex_iff)
  moreover have "\<forall>g \<in> set permission_groups. fst g \<noteq> ''other''" by (simp add: permission_groups_def)
  ultimately have "fst (resource_group r) \<noteq> ''other''" by (simp add: resource_group_pick fold_pick_finds)
  then show ?thesis by (cases "resource_group r") (simp add: permission_presentation_def)
qed

text \<open>Only the admin may enter any private channel or delete a protocol for good.\<close>

lemma admin_only_keys:
  "list_all (\<lambda>k. k \<in> set (system_role_permissions ''admin'') \<and> k \<notin> set manager_permissions \<and> k \<notin> set agent_permissions)
     [''team_chat:join_any'', ''occurrences:delete'', ''sales_opportunities:delete'', ''roles:write'', ''users:write'']"
  by code_simp

text \<open>A manager may do all an agent may, except rename a contact by that permission alone.\<close>

lemma manager_covers_agent:
  "filter (\<lambda>k. k \<notin> set manager_permissions) agent_permissions = [''contacts.name:write'']"
  by code_simp

end
