(* ===== verification/Access_Control.thy ===== *)
theory Access_Control
  imports Role_Catalog
begin

text \<open>
  Users, roles, memberships and permissions (\<open>handlers/users.go\<close>, \<open>roles.go\<close>, \<open>apikeys.go\<close>, the members
  of \<open>organization.go\<close>, the permission part of \<open>cache.go\<close> and \<open>app.go\<close>). A handler is a step that
  answers an error or a value; which requests reach it, and as whom, is the subject of
  \<open>Auth_Sessions\<close>.
\<close>

section \<open>Tables\<close>

record user_row =
  ur_id :: string
  ur_org :: string
  ur_email :: string
  ur_hash :: string
  ur_name :: string
  ur_role :: "string option"
  ur_settings :: jsonb
  ur_active :: bool
  ur_super :: bool
  ur_seller :: "string option"
  ur_unit :: "string option"
  ur_dept :: "string option"
  ur_sso :: string
  ur_sso_id :: string
  ur_deleted :: bool

record role_row =
  rl_id :: string
  rl_org :: string
  rl_name :: string
  rl_desc :: string
  rl_system :: bool
  rl_default :: bool
  rl_perms :: "(string \<times> string) list"
  rl_deleted :: bool

record member_row =
  mb_user :: string
  mb_org :: string
  mb_role :: "string option"
  mb_default :: bool
  mb_deleted :: bool

record api_key_row =
  ak_id :: string
  ak_org :: string
  ak_user :: string
  ak_name :: string
  ak_prefix :: string
  ak_hash :: string
  ak_expires :: "int option"
  ak_active :: bool
  ak_deleted :: bool

text \<open>\<open>UserPermissions\<close>, the entry of the cache.\<close>

record user_perms =
  up_role :: string
  up_name :: string
  up_system :: bool
  up_super :: bool
  up_keys :: "string list"

record acc_world =
  aw_users :: "user_row list"
  aw_roles :: "role_row list"
  aw_members :: "member_row list"
  aw_orgs :: "string list"
  aw_keys :: "api_key_row list"
  aw_catalog :: "(string \<times> string) list"
  aw_cache :: "string \<times> string option \<Rightarrow> user_perms option"

text \<open>
  What one request finds: \<open>a_ok\<close> says which statements succeed, by name; \<open>a_new_id\<close> are the fresh
  ids; the digest of passwords and the parser of mail addresses are parameters; \<open>a_random\<close> is the
  random part of an API key.
\<close>

record acc_env =
  a_ok :: "string \<Rightarrow> bool"
  a_new_id :: "nat \<Rightarrow> string"
  a_digest :: "string \<Rightarrow> string option"
  a_verify :: "string \<Rightarrow> string \<Rightarrow> bool"
  a_mail :: "string \<Rightarrow> bool"
  a_random :: "string option"
  a_units :: "(string \<times> string) list"
  a_departments :: "(string \<times> string) list"

text \<open>The caller as the middleware left it: user, organisation and super admin flag, and the header.\<close>

record req_ctx =
  cx_user :: string
  cx_org :: string
  cx_super :: bool
  cx_header :: "string option"

section \<open>Steps that answer\<close>

datatype acc_error = AccErr nat string

type_synonym 'a step = "acc_world \<Rightarrow> (acc_error + 'a) \<times> acc_world"

definition give :: "'a \<Rightarrow> 'a step" where
  "give x w = (Inr x, w)"

definition deny :: "nat \<Rightarrow> string \<Rightarrow> 'a step" where
  "deny n m w = (Inl (AccErr n m), w)"

definition andthen :: "'a step \<Rightarrow> ('a \<Rightarrow> 'b step) \<Rightarrow> 'b step" where
  "andthen m f w = (case m w of (Inl e, w') \<Rightarrow> (Inl e, w') | (Inr a, w') \<Rightarrow> f a w')"

definition seen :: "(acc_world \<Rightarrow> 'a) \<Rightarrow> 'a step" where
  "seen f w = (Inr (f w), w)"

definition change :: "(acc_world \<Rightarrow> acc_world) \<Rightarrow> unit step" where
  "change f w = (Inr (), f w)"

definition check :: "bool \<Rightarrow> nat \<Rightarrow> string \<Rightarrow> unit step" where
  "check b n m = (if b then give () else deny n m)"

definition need :: "'a option \<Rightarrow> nat \<Rightarrow> string \<Rightarrow> 'a step" where
  "need x n m = (case x of None \<Rightarrow> deny n m | Some a \<Rightarrow> give a)"

text \<open>A statement that must succeed, and one whose error nobody looks at.\<close>

definition must :: "acc_env \<Rightarrow> string \<Rightarrow> string \<Rightarrow> (acc_world \<Rightarrow> acc_world) \<Rightarrow> unit step" where
  "must E stmt m f = andthen (check (a_ok E stmt) 500 m) (\<lambda>_. change f)"

definition attempt :: "acc_env \<Rightarrow> string \<Rightarrow> (acc_world \<Rightarrow> acc_world) \<Rightarrow> unit step" where
  "attempt E stmt f = (if a_ok E stmt then change f else give ())"

section \<open>Reading the tables\<close>

definition live_user :: "acc_env \<Rightarrow> string \<Rightarrow> acc_world \<Rightarrow> user_row option" where
  "live_user E u w = (if a_ok E ''user'' then find (\<lambda>x. ur_id x = u \<and> \<not> ur_deleted x) (aw_users w) else None)"

definition live_role :: "acc_env \<Rightarrow> string \<Rightarrow> acc_world \<Rightarrow> role_row option" where
  "live_role E r w = (if a_ok E ''role'' then find (\<lambda>x. rl_id x = r \<and> \<not> rl_deleted x) (aw_roles w) else None)"

definition role_of_org :: "acc_env \<Rightarrow> string \<Rightarrow> string \<Rightarrow> acc_world \<Rightarrow> role_row option" where
  "role_of_org E r org w =
     (if a_ok E ''role of org''
      then find (\<lambda>x. rl_id x = r \<and> rl_org x = org \<and> \<not> rl_deleted x) (aw_roles w) else None)"

definition default_role :: "acc_env \<Rightarrow> string \<Rightarrow> acc_world \<Rightarrow> role_row option" where
  "default_role E org w =
     (if a_ok E ''default role''
      then find (\<lambda>x. rl_org x = org \<and> rl_default x \<and> \<not> rl_deleted x) (aw_roles w) else None)"

definition membership :: "acc_env \<Rightarrow> string \<Rightarrow> string \<Rightarrow> acc_world \<Rightarrow> member_row option" where
  "membership E u org w =
     (if a_ok E ''membership''
      then find (\<lambda>m. mb_user m = u \<and> mb_org m = org \<and> \<not> mb_deleted m) (aw_members w) else None)"

text \<open>A live user with a live membership of the organisation.\<close>

definition member_user :: "acc_env \<Rightarrow> string \<Rightarrow> string \<Rightarrow> acc_world \<Rightarrow> user_row option" where
  "member_user E u org w =
     (if list_ex (\<lambda>m. mb_user m = u \<and> mb_org m = org \<and> \<not> mb_deleted m) (aw_members w)
      then live_user E u w else None)"

section \<open>Permissions and their cache\<close>

definition cache_put :: "acc_env \<Rightarrow> string \<Rightarrow> string option \<Rightarrow> user_perms \<Rightarrow> acc_world \<Rightarrow> acc_world" where
  "cache_put E u org p w =
     (if a_ok E ''cache set'' then w\<lparr>aw_cache := (aw_cache w)((u, org) := Some p)\<rparr> else w)"

text \<open>The role that counts: the one of the membership, and the one of the user row for the own organisation.\<close>

definition effective_role :: "acc_env \<Rightarrow> user_row \<Rightarrow> string option \<Rightarrow> acc_world \<Rightarrow> string option" where
  "effective_role E x org w =
     (case org of
        None \<Rightarrow> ur_role x
      | Some o' \<Rightarrow>
          let r = (case membership E (ur_id x) o' w of None \<Rightarrow> None | Some m \<Rightarrow> mb_role m)
          in if r = None \<and> o' = ur_org x then ur_role x else r)"

definition user_permissions ::
    "acc_env \<Rightarrow> string \<Rightarrow> string option \<Rightarrow> acc_world \<Rightarrow> user_perms option \<times> acc_world" where
  "user_permissions E u org w =
     (case (if a_ok E ''cache get'' then aw_cache w (u, org) else None) of
        Some p \<Rightarrow> (Some p, w)
      | None \<Rightarrow> (case live_user E u w of
          None \<Rightarrow> (None, w)
        | Some x \<Rightarrow> (case effective_role E x org w of
            None \<Rightarrow>
              if \<not> ur_super x then (None, w)
              else let p = \<lparr>up_role = '''', up_name = '''', up_system = False, up_super = True, up_keys = []\<rparr>
                   in (Some p, cache_put E u org p w)
          | Some r \<Rightarrow> (case live_role E r w of
              None \<Rightarrow> (None, w)
            | Some rl \<Rightarrow>
                if \<not> a_ok E ''permissions'' then (None, w)
                else let p = \<lparr>up_role = rl_id rl, up_name = rl_name rl, up_system = rl_system rl,
                              up_super = ur_super x, up_keys = map perm_key (rl_perms rl)\<rparr>
                     in (Some p, cache_put E u org p w)))))"

definition has_permission :: "acc_env \<Rightarrow> string \<Rightarrow> string \<Rightarrow> string \<Rightarrow> string option \<Rightarrow> bool step" where
  "has_permission E u res act org w =
     (case user_permissions E u org w of
        (None, w') \<Rightarrow> (Inr False, w')
      | (Some p, w') \<Rightarrow> (Inr (up_super p \<or> perm_key (res, act) \<in> set (up_keys p)), w'))"

definition has_any_permission :: "acc_env \<Rightarrow> string \<Rightarrow> string list \<Rightarrow> bool step" where
  "has_any_permission E u keys w =
     (case user_permissions E u None w of
        (None, w') \<Rightarrow> (Inr False, w')
      | (Some p, w') \<Rightarrow> (Inr (up_super p \<or> list_ex (\<lambda>k. k \<in> set (up_keys p)) keys), w'))"

definition is_super_admin :: "acc_env \<Rightarrow> string \<Rightarrow> bool step" where
  "is_super_admin E u w =
     (case user_permissions E u None w of
        (None, w') \<Rightarrow> (Inr False, w') | (Some p, w') \<Rightarrow> (Inr (up_super p), w'))"

definition invalidate_user :: "string \<Rightarrow> acc_world \<Rightarrow> acc_world" where
  "invalidate_user u w = w\<lparr>aw_cache := (\<lambda>k. if fst k = u then None else aw_cache w k)\<rparr>"

definition holders_of :: "string \<Rightarrow> acc_world \<Rightarrow> string list" where
  "holders_of r w =
     map ur_id (filter (\<lambda>x. ur_role x = Some r \<and> \<not> ur_deleted x) (aw_users w))
     @ map mb_user (filter (\<lambda>m. mb_role m = Some r \<and> \<not> mb_deleted m) (aw_members w))"

definition invalidate_role :: "string \<Rightarrow> acc_world \<Rightarrow> acc_world" where
  "invalidate_role r w = fold invalidate_user (holders_of r w) w"

text \<open>\<open>getOrgID\<close>: the header may name another organisation, of a super admin or of a member.\<close>

definition get_org_id :: "acc_env \<Rightarrow> req_ctx \<Rightarrow> string step" where
  "get_org_id E cx =
     (case cx_header cx of
        None \<Rightarrow> give (cx_org cx)
      | Some h \<Rightarrow>
          if h = cx_org cx then give (cx_org cx)
          else andthen (is_super_admin E (cx_user cx)) (\<lambda>super.
            if super then seen (\<lambda>w. if a_ok E ''organization'' \<and> h \<in> set (aw_orgs w) then h else cx_org cx)
            else seen (\<lambda>w. if membership E (cx_user cx) h w \<noteq> None then h else cx_org cx)))"

text \<open>\<^const>\<open>None\<close> is a request without an authenticated caller.\<close>

definition org_and_user :: "acc_env \<Rightarrow> req_ctx option \<Rightarrow> (string \<times> string) step" where
  "org_and_user E cx =
     (case cx of
        None \<Rightarrow> deny 401 ''Unauthorized''
      | Some c \<Rightarrow> andthen (get_org_id E c) (\<lambda>org. give (org, cx_user c)))"

definition require_permission :: "acc_env \<Rightarrow> req_ctx option \<Rightarrow> string \<Rightarrow> string \<Rightarrow> (string \<times> string) step" where
  "require_permission E cx res act =
     andthen (org_and_user E cx) (\<lambda>(org, u).
       andthen (has_permission E u res act (Some org)) (\<lambda>ok.
         if ok then give (org, u) else deny 403 ''Insufficient permissions''))"

section \<open>Roles\<close>

record role_request =
  rq_name :: string
  rq_desc :: string
  rq_default :: bool
  rq_keys :: "string list"

fun split_permission_key :: "string \<Rightarrow> (string \<times> string) option" where
  "split_permission_key [] = None"
| "split_permission_key (c # cs) =
     (if c = CHR '':'' then Some ([], cs)
      else map_option (\<lambda>(r, act). (c # r, act)) (split_permission_key cs))"

text \<open>\<^const>\<open>None\<close> is the error of the query.\<close>

definition permissions_by_keys :: "acc_env \<Rightarrow> string list \<Rightarrow> acc_world \<Rightarrow> (string \<times> string) list option" where
  "permissions_by_keys E keys w =
     (let conds = List.map_filter split_permission_key keys in
      if conds = [] then Some []
      else if a_ok E ''find permissions'' then Some (filter (\<lambda>p. p \<in> set conds) (aw_catalog w))
      else None)"

definition name_taken :: "acc_env \<Rightarrow> string \<Rightarrow> string \<Rightarrow> string option \<Rightarrow> acc_world \<Rightarrow> bool" where
  "name_taken E org name but w \<longleftrightarrow>
     a_ok E ''role name''
     \<and> list_ex (\<lambda>x. rl_org x = org \<and> rl_name x = name \<and> Some (rl_id x) \<noteq> but \<and> \<not> rl_deleted x) (aw_roles w)"

definition map_roles :: "(role_row \<Rightarrow> role_row) \<Rightarrow> acc_world \<Rightarrow> acc_world" where
  "map_roles f w = w\<lparr>aw_roles := map f (aw_roles w)\<rparr>"

definition unset_defaults :: "string \<Rightarrow> string option \<Rightarrow> acc_world \<Rightarrow> acc_world" where
  "unset_defaults org but =
     map_roles (\<lambda>x. if rl_org x = org \<and> rl_default x \<and> Some (rl_id x) \<noteq> but \<and> \<not> rl_deleted x
                   then x\<lparr>rl_default := False\<rparr> else x)"

definition add_role :: "role_row \<Rightarrow> acc_world \<Rightarrow> acc_world" where
  "add_role r w = w\<lparr>aw_roles := aw_roles w @ [r]\<rparr>"

definition create_role :: "acc_env \<Rightarrow> req_ctx option \<Rightarrow> role_request option \<Rightarrow> role_row step" where
  "create_role E cx req =
     andthen (org_and_user E cx) (\<lambda>(org, u).
     andthen (need req 400 ''Invalid request body'') (\<lambda>q.
     andthen (check (rq_name q \<noteq> '''') 400 ''Name is required'') (\<lambda>_.
     andthen (seen (name_taken E org (rq_name q) None)) (\<lambda>taken.
     andthen (check (\<not> taken) 409 ''Role with this name already exists'') (\<lambda>_.
     andthen (seen (permissions_by_keys E (rq_keys q))) (\<lambda>found.
     andthen (need found 500 ''Failed to create role'') (\<lambda>ps.
       let r = \<lparr>rl_id = a_new_id E 0, rl_org = org, rl_name = rq_name q, rl_desc = rq_desc q,
                rl_system = False, rl_default = rq_default q, rl_perms = ps, rl_deleted = False\<rparr>
       in andthen (must E ''create role'' ''Failed to create role''
            (\<lambda>w. add_role r (if rq_default q then unset_defaults org None w else w))) (\<lambda>_. give r))))))))"

text \<open>\<open>Association(...).Replace\<close> writes the join table alone, \<open>Save\<close> the whole row.\<close>

definition set_role_perms :: "string \<Rightarrow> (string \<times> string) list \<Rightarrow> acc_world \<Rightarrow> acc_world" where
  "set_role_perms i ps = map_roles (\<lambda>x. if rl_id x = i then x\<lparr>rl_perms := ps\<rparr> else x)"

definition save_role :: "role_row \<Rightarrow> acc_world \<Rightarrow> acc_world" where
  "save_role r =
     map_roles (\<lambda>x. if rl_id x = rl_id r \<and> \<not> rl_deleted x
        then x\<lparr>rl_name := rl_name r, rl_desc := rl_desc r, rl_default := rl_default r\<rparr> else x)"

definition replace_role_perms :: "acc_env \<Rightarrow> role_row \<Rightarrow> string list \<Rightarrow> role_row step" where
  "replace_role_perms E r keys =
     andthen (seen (permissions_by_keys E keys)) (\<lambda>found.
     andthen (need found 500 ''Failed to update role'') (\<lambda>ps.
     andthen (must E ''replace permissions'' ''Failed to update role'' (set_role_perms (rl_id r) ps)) (\<lambda>_.
       give (r\<lparr>rl_perms := ps\<rparr>))))"

text \<open>A system role: the description, and the permissions when the token says super admin.\<close>

definition update_system_role :: "acc_env \<Rightarrow> bool \<Rightarrow> role_row \<Rightarrow> role_request \<Rightarrow> role_row step" where
  "update_system_role E super r q =
     (let r1 = (if rq_desc q \<noteq> '''' then r\<lparr>rl_desc := rq_desc q\<rparr> else r) in
      andthen (if super \<and> rq_keys q \<noteq> [] then replace_role_perms E r1 (rq_keys q) else give r1) (\<lambda>r2.
      andthen (must E ''save role'' ''Failed to update role'' (save_role r2)) (\<lambda>_.
      andthen (change (invalidate_role (rl_id r))) (\<lambda>_. give r2))))"

definition update_custom_role :: "acc_env \<Rightarrow> string \<Rightarrow> role_row \<Rightarrow> role_request \<Rightarrow> role_row step" where
  "update_custom_role E org r q =
     andthen (seen (name_taken E org (rq_name q) (Some (rl_id r)))) (\<lambda>taken.
     andthen (check (\<not> (rq_name q \<noteq> '''' \<and> taken)) 409 ''Role with this name already exists'') (\<lambda>_.
       let r1 = r\<lparr>rl_name := (if rq_name q \<noteq> '''' then rq_name q else rl_name r),
                  rl_desc := (if rq_desc q \<noteq> '''' then rq_desc q else rl_desc r)\<rparr> in
     andthen (if rq_keys q \<noteq> [] then replace_role_perms E r1 (rq_keys q) else give r1) (\<lambda>r2.
       let r3 = r2\<lparr>rl_default := rq_default q\<rparr> in
     andthen (must E ''save role'' ''Failed to update role''
        (\<lambda>w. save_role r3 (if rq_default q \<and> \<not> rl_default r2 then unset_defaults org (Some (rl_id r)) w else w))) (\<lambda>_.
     andthen (change (invalidate_role (rl_id r))) (\<lambda>_. give r3)))))"

definition update_role :: "acc_env \<Rightarrow> req_ctx option \<Rightarrow> string option \<Rightarrow> role_request option \<Rightarrow> role_row step" where
  "update_role E cx i req =
     andthen (org_and_user E cx) (\<lambda>(org, u).
     andthen (need i 400 ''Invalid role ID'') (\<lambda>k.
     andthen (seen (role_of_org E k org)) (\<lambda>found.
     andthen (need found 404 ''Role not found'') (\<lambda>r.
     andthen (check (a_ok E ''permissions'') 500 ''Failed to update role'') (\<lambda>_.
     andthen (need req 400 ''Invalid request body'') (\<lambda>q.
       if rl_system r then update_system_role E (case cx of Some c \<Rightarrow> cx_super c | None \<Rightarrow> False) r q
       else update_custom_role E org r q))))))"

text \<open>The count looks at the users alone, and an error of it counts nobody.\<close>

definition delete_role :: "acc_env \<Rightarrow> req_ctx option \<Rightarrow> string option \<Rightarrow> unit step" where
  "delete_role E cx i =
     andthen (org_and_user E cx) (\<lambda>(org, u).
     andthen (need i 400 ''Invalid role ID'') (\<lambda>k.
     andthen (seen (role_of_org E k org)) (\<lambda>found.
     andthen (need found 404 ''Role not found'') (\<lambda>r.
     andthen (check (\<not> rl_system r) 400 ''Cannot delete system roles'') (\<lambda>_.
     andthen (seen (\<lambda>w. if a_ok E ''count users''
        then length (filter (\<lambda>x. ur_role x = Some k \<and> \<not> ur_deleted x) (aw_users w)) else 0)) (\<lambda>n.
     andthen (check (n = 0) 400 ''Cannot delete role with assigned users'') (\<lambda>_.
       must E ''delete role'' ''Failed to delete role''
         (map_roles (\<lambda>x. if rl_id x = k then x\<lparr>rl_deleted := True\<rparr> else x)))))))))"

section \<open>Users\<close>

datatype place_patch = PlaceAbsent | PlaceClear | PlaceBad | PlaceAt string

record user_request =
  uq_email :: string
  uq_password :: string
  uq_name :: string
  uq_role :: "string option"
  uq_active :: "bool option"
  uq_seller :: "string option"
  uq_unit :: place_patch
  uq_dept :: place_patch
  uq_super :: "bool option"

fun patch_value :: "place_patch \<Rightarrow> string option option" where
  "patch_value PlaceClear = Some None"
| "patch_value (PlaceAt k) = Some (Some k)"
| "patch_value _ = None"

definition patched :: "place_patch \<Rightarrow> string option \<Rightarrow> string option" where
  "patched p old = (case patch_value p of None \<Rightarrow> old | Some v \<Rightarrow> v)"

definition parse_place :: "acc_env \<Rightarrow> string \<Rightarrow> place_patch \<Rightarrow> place_patch \<Rightarrow> unit step" where
  "parse_place E org unit dept =
     andthen (check (unit \<noteq> PlaceBad) 400 ''Invalid unit_id'') (\<lambda>_.
     andthen (check (dept \<noteq> PlaceBad) 400 ''Invalid department_id'') (\<lambda>_.
     andthen (check (case unit of PlaceAt k \<Rightarrow> (org, k) \<in> set (a_units E) | _ \<Rightarrow> True) 404 ''Unit not found'') (\<lambda>_.
       check (case dept of PlaceAt k \<Rightarrow> (org, k) \<in> set (a_departments E) | _ \<Rightarrow> True) 404 ''Department not found'')))"

definition map_users :: "(user_row \<Rightarrow> user_row) \<Rightarrow> acc_world \<Rightarrow> acc_world" where
  "map_users f w = w\<lparr>aw_users := map f (aw_users w)\<rparr>"

definition map_members :: "(member_row \<Rightarrow> member_row) \<Rightarrow> acc_world \<Rightarrow> acc_world" where
  "map_members f w = w\<lparr>aw_members := map f (aw_members w)\<rparr>"

text \<open>The indexes on the address of users and on the pair of a membership count deleted rows too.\<close>

definition add_user :: "acc_env \<Rightarrow> user_row \<Rightarrow> unit step" where
  "add_user E x =
     andthen (seen (\<lambda>w. a_ok E ''create user'' \<and> ur_email x \<notin> set (map ur_email (aw_users w)))) (\<lambda>ok.
     andthen (check ok 500 ''Failed to create user'') (\<lambda>_. change (\<lambda>w. w\<lparr>aw_users := aw_users w @ [x]\<rparr>)))"

definition pair_taken :: "string \<Rightarrow> string \<Rightarrow> acc_world \<Rightarrow> bool" where
  "pair_taken u org w \<longleftrightarrow> list_ex (\<lambda>m. mb_user m = u \<and> mb_org m = org) (aw_members w)"

definition add_membership :: "acc_env \<Rightarrow> member_row \<Rightarrow> acc_world \<Rightarrow> acc_world" where
  "add_membership E m w =
     (if a_ok E ''create membership'' \<and> \<not> pair_taken (mb_user m) (mb_org m) w
      then w\<lparr>aw_members := aw_members w @ [m]\<rparr> else w)"

text \<open>The row of a deleted user with the same address is taken up again.\<close>

definition restore_membership :: "acc_env \<Rightarrow> string \<Rightarrow> string \<Rightarrow> string option \<Rightarrow> acc_world \<Rightarrow> acc_world" where
  "restore_membership E u org r w =
     (if a_ok E ''find membership'' \<and> pair_taken u org w then
        (if a_ok E ''restore membership''
         then map_members (\<lambda>m. if mb_user m = u \<and> mb_org m = org
                then m\<lparr>mb_deleted := False, mb_role := r, mb_default := True\<rparr> else m) w else w)
      else add_membership E \<lparr>mb_user = u, mb_org = org, mb_role = r, mb_default = True, mb_deleted = False\<rparr> w)"

definition pick_role :: "acc_env \<Rightarrow> string \<Rightarrow> string option \<Rightarrow> string option step" where
  "pick_role E org req =
     (case req of
        Some r \<Rightarrow> andthen (seen (role_of_org E r org)) (\<lambda>found.
                    andthen (need found 400 ''Invalid role'') (\<lambda>_. give (Some r)))
      | None \<Rightarrow> seen (\<lambda>w. map_option rl_id (default_role E org w)))"

definition grant_super :: "acc_env \<Rightarrow> string \<Rightarrow> bool option \<Rightarrow> bool step" where
  "grant_super E actor field =
     (if field = Some True then
        andthen (is_super_admin E actor) (\<lambda>s.
        andthen (check s 403 ''Only super admins can create super admins'') (\<lambda>_. give True))
      else give False)"

definition take_up_user ::
    "acc_env \<Rightarrow> string \<Rightarrow> user_request \<Rightarrow> string option \<Rightarrow> string \<Rightarrow> bool \<Rightarrow> user_row \<Rightarrow> user_row step" where
  "take_up_user E org q r hash super x =
     (let y = x\<lparr>ur_deleted := False, ur_org := org, ur_hash := hash, ur_name := uq_name q, ur_role := r,
                ur_active := True, ur_super := super, ur_unit := patched (uq_unit q) None,
                ur_dept := patched (uq_dept q) None\<rparr>
      in andthen (must E ''restore user'' ''Failed to create user''
           (map_users (\<lambda>z. if ur_id z = ur_id x then y else z))) (\<lambda>_.
         andthen (change (restore_membership E (ur_id x) org r)) (\<lambda>_. give y)))"

definition insert_user ::
    "acc_env \<Rightarrow> string \<Rightarrow> user_request \<Rightarrow> string option \<Rightarrow> string \<Rightarrow> bool \<Rightarrow> user_row step" where
  "insert_user E org q r hash super =
     (let y = \<lparr>ur_id = a_new_id E 0, ur_org = org, ur_email = uq_email q, ur_hash = hash, ur_name = uq_name q,
               ur_role = r, ur_settings = [], ur_active = True, ur_super = super, ur_seller = None,
               ur_unit = patched (uq_unit q) None, ur_dept = patched (uq_dept q) None,
               ur_sso = '''', ur_sso_id = '''', ur_deleted = False\<rparr>
      in andthen (add_user E y) (\<lambda>_.
         andthen (change (add_membership E \<lparr>mb_user = ur_id y, mb_org = org, mb_role = r,
            mb_default = True, mb_deleted = False\<rparr>)) (\<lambda>_. give y)))"

definition create_user :: "acc_env \<Rightarrow> req_ctx option \<Rightarrow> user_request option \<Rightarrow> user_row step" where
  "create_user E cx req =
     andthen (require_permission E cx ''users'' ''write'') (\<lambda>(org, actor).
     andthen (need req 400 ''Invalid request body'') (\<lambda>q.
     andthen (check (uq_email q \<noteq> '''' \<and> uq_password q \<noteq> '''' \<and> uq_name q \<noteq> '''') 400
        ''Email, password, and full_name are required'') (\<lambda>_.
     andthen (check (a_mail E (uq_email q)) 400 ''Invalid email format'') (\<lambda>_.
     andthen (parse_place E org (uq_unit q) (uq_dept q)) (\<lambda>_.
     andthen (pick_role E org (uq_role q)) (\<lambda>r.
     andthen (seen (\<lambda>w. a_ok E ''find email''
        \<and> list_ex (\<lambda>x. ur_email x = uq_email q \<and> \<not> ur_deleted x) (aw_users w))) (\<lambda>taken.
     andthen (check (\<not> taken) 409 ''Email already exists'') (\<lambda>_.
     andthen (need (a_digest E (uq_password q)) 500 ''Failed to create user'') (\<lambda>hash.
     andthen (grant_super E actor (uq_super q)) (\<lambda>super.
     andthen (seen (\<lambda>w. if a_ok E ''find deleted''
        then find (\<lambda>x. ur_email x = uq_email q \<and> ur_deleted x) (aw_users w) else None)) (\<lambda>old.
       case old of Some x \<Rightarrow> take_up_user E org q r hash super x
       | None \<Rightarrow> insert_user E org q r hash super)))))))))))"

text \<open>\<open>Save\<close> fails when another row has the address.\<close>

definition save_user :: "acc_env \<Rightarrow> string \<Rightarrow> user_row \<Rightarrow> unit step" where
  "save_user E m y =
     andthen (seen (\<lambda>w. a_ok E ''save user''
        \<and> \<not> list_ex (\<lambda>z. ur_id z \<noteq> ur_id y \<and> ur_email z = ur_email y) (aw_users w))) (\<lambda>ok.
     andthen (check ok 500 m) (\<lambda>_.
       change (map_users (\<lambda>z. if ur_id z = ur_id y \<and> \<not> ur_deleted z then y else z))))"

definition set_member_role :: "string \<Rightarrow> string \<Rightarrow> string option \<Rightarrow> acc_world \<Rightarrow> acc_world" where
  "set_member_role u org r =
     map_members (\<lambda>m. if mb_user m = u \<and> mb_org m = org \<and> \<not> mb_deleted m then m\<lparr>mb_role := r\<rparr> else m)"

text \<open>A member whose own organisation is another one: only the role of the membership.\<close>

definition update_guest :: "acc_env \<Rightarrow> string \<Rightarrow> user_row \<Rightarrow> user_request \<Rightarrow> user_row step" where
  "update_guest E org x q =
     andthen (need (uq_role q) 400 ''Only role can be updated for organization members'') (\<lambda>r.
     andthen (seen (role_of_org E r org)) (\<lambda>found.
     andthen (need found 400 ''Invalid role'') (\<lambda>_.
     andthen (must E ''member role'' ''Failed to update member role'' (set_member_role (ur_id x) org (Some r))) (\<lambda>_.
     andthen (change (invalidate_user (ur_id x))) (\<lambda>_. give (x\<lparr>ur_role := Some r\<rparr>))))))"

definition edit_identity :: "acc_env \<Rightarrow> user_row \<Rightarrow> user_request \<Rightarrow> user_row step" where
  "edit_identity E x q =
     andthen (check (uq_email q = '''' \<or> a_mail E (uq_email q)) 400 ''Invalid email format'') (\<lambda>_.
     andthen (seen (\<lambda>w. uq_email q \<noteq> '''' \<and> a_ok E ''find email''
        \<and> list_ex (\<lambda>z. ur_email z = uq_email q \<and> ur_id z \<noteq> ur_id x \<and> \<not> ur_deleted z) (aw_users w))) (\<lambda>taken.
     andthen (check (\<not> taken) 409 ''Email already exists'') (\<lambda>_.
       let x1 = x\<lparr>ur_email := (if uq_email q \<noteq> '''' then uq_email q else ur_email x),
                  ur_name := (if uq_name q \<noteq> '''' then uq_name q else ur_name x)\<rparr>
       in if uq_password q = '''' then give x1
          else andthen (need (a_digest E (uq_password q)) 500 ''Failed to update user'') (\<lambda>h.
                 give (x1\<lparr>ur_hash := h\<rparr>)))))"

definition role_name_of :: "acc_env \<Rightarrow> string option \<Rightarrow> acc_world \<Rightarrow> string" where
  "role_name_of E r w =
     (case r of None \<Rightarrow> ''''
      | Some k \<Rightarrow> (case live_role E k w of None \<Rightarrow> '''' | Some rl \<Rightarrow> rl_name rl))"

definition edit_role :: "acc_env \<Rightarrow> string \<Rightarrow> string \<Rightarrow> user_row \<Rightarrow> user_request \<Rightarrow> user_row step" where
  "edit_role E actor org x q =
     (case uq_role q of
        None \<Rightarrow> give x
      | Some r \<Rightarrow>
          andthen (seen (role_of_org E r org)) (\<lambda>found.
          andthen (need found 400 ''Invalid role'') (\<lambda>new.
          andthen (seen (role_name_of E (ur_role x))) (\<lambda>old.
          andthen (check (\<not> (actor = ur_id x \<and> old = ''admin'' \<and> rl_name new \<noteq> ''admin'')) 400
             ''Cannot demote yourself'') (\<lambda>_.
            give (x\<lparr>ur_role := Some r\<rparr>))))))"

definition edit_state :: "acc_env \<Rightarrow> string \<Rightarrow> string \<Rightarrow> user_row \<Rightarrow> user_request \<Rightarrow> user_row step" where
  "edit_state E actor org x q =
     andthen (check (\<not> (actor = ur_id x \<and> uq_active q = Some False)) 400 ''Cannot deactivate yourself'') (\<lambda>_.
       let x1 = x\<lparr>ur_active := (case uq_active q of None \<Rightarrow> ur_active x | Some b \<Rightarrow> b),
                  ur_seller := (case uq_seller q of None \<Rightarrow> ur_seller x | Some s \<Rightarrow> Some s)\<rparr>
       in if uq_unit q = PlaceAbsent \<and> uq_dept q = PlaceAbsent then give x1
          else andthen (has_permission E actor ''users'' ''write'' (Some org)) (\<lambda>ok.
               andthen (check ok 403 ''Insufficient permissions to change unit or department'') (\<lambda>_.
               andthen (parse_place E org (uq_unit q) (uq_dept q)) (\<lambda>_.
                 give (x1\<lparr>ur_unit := patched (uq_unit q) (ur_unit x), ur_dept := patched (uq_dept q) (ur_dept x)\<rparr>)))))"

definition edit_super :: "acc_env \<Rightarrow> string \<Rightarrow> user_row \<Rightarrow> user_request \<Rightarrow> user_row step" where
  "edit_super E actor x q =
     (case uq_super q of
        None \<Rightarrow> give x
      | Some b \<Rightarrow>
          andthen (is_super_admin E actor) (\<lambda>s.
          andthen (check s 403 ''Only super admins can modify super admin status'') (\<lambda>_.
          andthen (check (\<not> (actor = ur_id x \<and> \<not> b \<and> ur_super x)) 400
             ''Cannot remove your own super admin status'') (\<lambda>_.
            give (x\<lparr>ur_super := b\<rparr>)))))"

definition update_native :: "acc_env \<Rightarrow> string \<Rightarrow> string \<Rightarrow> user_row \<Rightarrow> user_request \<Rightarrow> user_row step" where
  "update_native E actor org x q =
     andthen (edit_identity E x q) (\<lambda>x1.
     andthen (edit_role E actor org x1 q) (\<lambda>x2.
     andthen (edit_state E actor org x2 q) (\<lambda>x3.
     andthen (edit_super E actor x3 q) (\<lambda>x4.
     andthen (save_user E ''Failed to update user'' x4) (\<lambda>_.
       if uq_role q \<noteq> None \<and> ur_role x \<noteq> uq_role q then
         andthen (attempt E ''sync membership'' (set_member_role (ur_id x) org (ur_role x4))) (\<lambda>_.
         andthen (change (invalidate_user (ur_id x))) (\<lambda>_. give x4))
       else give x4)))))"

definition update_user :: "acc_env \<Rightarrow> req_ctx option \<Rightarrow> string option \<Rightarrow> user_request option \<Rightarrow> user_row step" where
  "update_user E cx i req =
     andthen (org_and_user E cx) (\<lambda>(org, actor).
     andthen (need i 400 ''Invalid user ID'') (\<lambda>k.
     andthen (if actor = k then give True else has_permission E actor ''users'' ''write'' (Some org)) (\<lambda>ok.
     andthen (check ok 403 ''Insufficient permissions'') (\<lambda>_.
     andthen (seen (member_user E k org)) (\<lambda>found.
     andthen (need found 404 ''User not found'') (\<lambda>x.
     andthen (need req 400 ''Invalid request body'') (\<lambda>q.
     andthen (if uq_role q = None then give True
              else has_permission E actor ''users'' ''write'' (Some org)) (\<lambda>may.
     andthen (check may 403 ''Insufficient permissions to change roles'') (\<lambda>_.
       if ur_org x \<noteq> org then update_guest E org x q else update_native E actor org x q)))))))))"

text \<open>The last admin of an organisation stays; the address of a failed count is nobody.\<close>

definition last_admin :: "acc_env \<Rightarrow> string \<Rightarrow> string \<Rightarrow> acc_world \<Rightarrow> bool" where
  "last_admin E k org w \<longleftrightarrow>
     (case membership E k org w of None \<Rightarrow> False | Some m \<Rightarrow> role_name_of E (mb_role m) w = ''admin'')
     \<and> (case (if a_ok E ''admin role'' then
                find (\<lambda>r. rl_org r = org \<and> rl_name r = ''admin'' \<and> rl_system r \<and> \<not> rl_deleted r) (aw_roles w)
              else None) of
          None \<Rightarrow> False
        | Some r \<Rightarrow>
            (if a_ok E ''count admins''
             then length (filter (\<lambda>m. mb_org m = org \<and> mb_role m = Some (rl_id r) \<and> \<not> mb_deleted m) (aw_members w))
             else 0) \<le> 1)"

definition delete_memberships :: "string \<Rightarrow> string option \<Rightarrow> acc_world \<Rightarrow> acc_world" where
  "delete_memberships u org =
     map_members (\<lambda>m. if mb_user m = u \<and> (org = None \<or> org = Some (mb_org m)) \<and> \<not> mb_deleted m
                     then m\<lparr>mb_deleted := True\<rparr> else m)"

definition delete_user :: "acc_env \<Rightarrow> req_ctx option \<Rightarrow> string option \<Rightarrow> unit step" where
  "delete_user E cx i =
     andthen (org_and_user E cx) (\<lambda>(org, actor).
     andthen (has_permission E actor ''users'' ''delete'' (Some org)) (\<lambda>ok.
     andthen (check ok 403 ''Insufficient permissions'') (\<lambda>_.
     andthen (need i 400 ''Invalid user ID'') (\<lambda>k.
     andthen (check (actor \<noteq> k) 400 ''Cannot delete yourself'') (\<lambda>_.
     andthen (seen (member_user E k org)) (\<lambda>found.
     andthen (need found 404 ''User not found'') (\<lambda>x.
       if ur_org x \<noteq> org then
         andthen (must E ''remove member'' ''Failed to remove member'' (delete_memberships k (Some org))) (\<lambda>_.
           change (invalidate_user k))
       else
         andthen (seen (last_admin E k org)) (\<lambda>lonely.
         andthen (check (\<not> lonely) 400 ''Cannot delete the last admin'') (\<lambda>_.
         andthen (must E ''delete user'' ''Failed to delete user''
           (map_users (\<lambda>z. if ur_id z = k \<and> \<not> ur_deleted z then z\<lparr>ur_deleted := True\<rparr> else z))) (\<lambda>_.
           attempt E ''delete memberships'' (delete_memberships k None)))))))))))"

section \<open>The caller's own account\<close>

definition change_password :: "acc_env \<Rightarrow> req_ctx option \<Rightarrow> (string \<times> string) option \<Rightarrow> unit step" where
  "change_password E cx req =
     andthen (need cx 401 ''Unauthorized'') (\<lambda>c.
     andthen (seen (live_user E (cx_user c))) (\<lambda>found.
     andthen (need found 404 ''User not found'') (\<lambda>x.
     andthen (need req 400 ''Invalid request body'') (\<lambda>(old, new).
     andthen (check (old \<noteq> '''' \<and> new \<noteq> '''') 400 ''Current password and new password are required'') (\<lambda>_.
     andthen (check (6 \<le> length new) 400 ''New password must be at least 6 characters'') (\<lambda>_.
     andthen (check (a_verify E (ur_hash x) old) 400 ''Current password is incorrect'') (\<lambda>_.
     andthen (need (a_digest E new) 500 ''Failed to change password'') (\<lambda>h.
       save_user E ''Failed to change password'' (x\<lparr>ur_hash := h\<rparr>)))))))))"

definition update_settings :: "acc_env \<Rightarrow> req_ctx option \<Rightarrow> (bool \<times> bool \<times> bool) option \<Rightarrow> jsonb step" where
  "update_settings E cx req =
     andthen (org_and_user E cx) (\<lambda>(org, u).
     andthen (seen (live_user E u)) (\<lambda>found.
     andthen (need found 404 ''User not found'') (\<lambda>x.
     andthen (need req 400 ''Invalid request body'') (\<lambda>(mail, alerts, campaigns).
       let s = jput ''campaign_updates'' (ABool campaigns)
                 (jput ''new_message_alerts'' (ABool alerts)
                   (jput ''email_notifications'' (ABool mail) (ur_settings x)))
       in andthen (save_user E ''Failed to update settings'' (x\<lparr>ur_settings := s\<rparr>)) (\<lambda>_. give s)))))"

section \<open>Members of an organisation\<close>

record member_request =
  mq_user :: "string option"
  mq_email :: string
  mq_role :: "string option"

definition find_target :: "acc_env \<Rightarrow> member_request \<Rightarrow> user_row step" where
  "find_target E q =
     (case mq_user q of
        Some u \<Rightarrow> andthen (seen (live_user E u)) (\<lambda>x. need x 404 ''User not found'')
      | None \<Rightarrow>
          if mq_email q = '''' then deny 400 ''user_id or email is required''
          else andthen (seen (\<lambda>w. if a_ok E ''find email''
                  then find (\<lambda>x. ur_email x = mq_email q \<and> \<not> ur_deleted x) (aw_users w) else None))
                 (\<lambda>x. need x 404 ''No user found with this email''))"

definition member_role :: "acc_env \<Rightarrow> string \<Rightarrow> string option \<Rightarrow> role_row step" where
  "member_role E org req =
     (case req of
        Some r \<Rightarrow> andthen (seen (role_of_org E r org)) (\<lambda>x. need x 400 ''Invalid role'')
      | None \<Rightarrow> andthen (seen (default_role E org))
                  (\<lambda>x. need x 400 ''role_id is required: this organization has no default role''))"

definition old_membership :: "acc_env \<Rightarrow> string \<Rightarrow> string \<Rightarrow> acc_world \<Rightarrow> member_row option" where
  "old_membership E u org w =
     (if a_ok E ''find membership'' then find (\<lambda>m. mb_user m = u \<and> mb_org m = org) (aw_members w) else None)"

definition add_member :: "acc_env \<Rightarrow> req_ctx option \<Rightarrow> member_request option \<Rightarrow> unit step" where
  "add_member E cx req =
     andthen (require_permission E cx ''organizations'' ''assign'') (\<lambda>(org, actor).
     andthen (need req 400 ''Invalid request body'') (\<lambda>q.
     andthen (find_target E q) (\<lambda>x.
     andthen (seen (old_membership E (ur_id x) org)) (\<lambda>old.
     andthen (check (case old of None \<Rightarrow> True | Some m \<Rightarrow> mb_deleted m) 409
        ''User is already a member of this organization'') (\<lambda>_.
     andthen (member_role E org (mq_role q)) (\<lambda>r.
     andthen (if old \<noteq> None then
          must E ''restore membership'' ''Failed to add member''
            (map_members (\<lambda>m. if mb_user m = ur_id x \<and> mb_org m = org
                then m\<lparr>mb_deleted := False, mb_role := Some (rl_id r)\<rparr> else m))
        else
          andthen (seen (\<lambda>w. a_ok E ''create membership'' \<and> \<not> pair_taken (ur_id x) org w)) (\<lambda>ok.
          andthen (check ok 500 ''Failed to add member'') (\<lambda>_.
            change (\<lambda>w. w\<lparr>aw_members := aw_members w
              @ [\<lparr>mb_user = ur_id x, mb_org = org, mb_role = Some (rl_id r), mb_default = False,
                   mb_deleted = False\<rparr>]\<rparr>)))) (\<lambda>_.
       change (invalidate_user (ur_id x)))))))))"

definition live_member :: "string \<Rightarrow> string \<Rightarrow> acc_world \<Rightarrow> bool" where
  "live_member u org w \<longleftrightarrow> list_ex (\<lambda>m. mb_user m = u \<and> mb_org m = org \<and> \<not> mb_deleted m) (aw_members w)"

definition remove_member :: "acc_env \<Rightarrow> req_ctx option \<Rightarrow> string option \<Rightarrow> unit step" where
  "remove_member E cx i =
     andthen (require_permission E cx ''organizations'' ''assign'') (\<lambda>(org, actor).
     andthen (need i 400 ''Invalid member ID'') (\<lambda>k.
     andthen (check (k \<noteq> actor) 400 ''Cannot remove yourself from the organization'') (\<lambda>_.
     andthen (seen (live_member k org)) (\<lambda>hit.
     andthen (must E ''remove member'' ''Failed to remove member'' (delete_memberships k (Some org))) (\<lambda>_.
     andthen (check hit 404 ''Member not found in this organization'') (\<lambda>_.
       change (invalidate_user k)))))))"

definition update_member_role :: "acc_env \<Rightarrow> req_ctx option \<Rightarrow> string option \<Rightarrow> string option option \<Rightarrow> unit step" where
  "update_member_role E cx i req =
     andthen (require_permission E cx ''organizations'' ''assign'') (\<lambda>(org, actor).
     andthen (need i 400 ''Invalid member ID'') (\<lambda>k.
     andthen (need req 400 ''Invalid request body'') (\<lambda>q.
     andthen (need q 400 ''role_id is required'') (\<lambda>r.
     andthen (seen (role_of_org E r org)) (\<lambda>found.
     andthen (need found 400 ''Invalid role'') (\<lambda>_.
     andthen (seen (live_member k org)) (\<lambda>hit.
     andthen (must E ''member role'' ''Failed to update member role'' (set_member_role k org (Some r))) (\<lambda>_.
     andthen (check hit 404 ''Member not found in this organization'') (\<lambda>_.
       change (invalidate_user k))))))))))"

text \<open>The three system roles of a new organisation, with the permissions the catalog knows.\<close>

definition system_role :: "acc_env \<Rightarrow> string \<Rightarrow> acc_world \<Rightarrow> nat \<times> string \<times> string \<Rightarrow> role_row" where
  "system_role E org w = (\<lambda>(k, name, desc).
     \<lparr>rl_id = a_new_id E k, rl_org = org, rl_name = name, rl_desc = desc, rl_system = True,
      rl_default = (name = ''agent''),
      rl_perms = List.map_filter (\<lambda>key. find (\<lambda>p. perm_key p = key) (aw_catalog w)) (system_role_permissions name),
      rl_deleted = False\<rparr>)"

definition system_roles :: "acc_env \<Rightarrow> string \<Rightarrow> acc_world \<Rightarrow> role_row list" where
  "system_roles E org w =
     map (system_role E org w)
       [(1, ''admin'', ''Full system access''),
        (2, ''manager'', ''Manage chatbot, campaigns, and team operations''),
        (3, ''agent'', ''Handle customer conversations'')]"

text \<open>One transaction: the organisation, its roles and the membership of its creator.\<close>

definition create_organization :: "acc_env \<Rightarrow> req_ctx option \<Rightarrow> string option \<Rightarrow> string step" where
  "create_organization E cx req =
     andthen (require_permission E cx ''organizations'' ''write'') (\<lambda>(org, u).
     andthen (need req 400 ''Invalid request body'') (\<lambda>name.
     andthen (check (name \<noteq> '''') 400 ''Organization name is required'') (\<lambda>_.
       let new = a_new_id E 0 in
     andthen (must E ''create organization'' ''Failed to create organization'' (\<lambda>w.
        w\<lparr>aw_orgs := aw_orgs w @ [new], aw_roles := aw_roles w @ system_roles E new w,
          aw_members := aw_members w
            @ [\<lparr>mb_user = u, mb_org = new, mb_role = Some (a_new_id E 1), mb_default = False,
                mb_deleted = False\<rparr>]\<rparr>)) (\<lambda>_. give new))))"

section \<open>API keys\<close>

text \<open>The expiry is \<open>Some None\<close> when it does not parse.\<close>

definition create_api_key ::
    "acc_env \<Rightarrow> req_ctx option \<Rightarrow> (string \<times> int option option) option \<Rightarrow> string step" where
  "create_api_key E cx req =
     andthen (require_permission E cx ''api_keys'' ''write'') (\<lambda>(org, u).
     andthen (need req 400 ''Invalid request body'') (\<lambda>(name, expiry).
     andthen (check (name \<noteq> '''') 400 ''Name is required'') (\<lambda>_.
     andthen (check (expiry \<noteq> Some None) 400 ''Invalid expires_at format. Use RFC3339 format'') (\<lambda>_.
     andthen (need (a_random E) 500 ''Failed to generate API key'') (\<lambda>hex.
       let key = ''whm_'' @ hex in
     andthen (need (a_digest E key) 500 ''Failed to create API key'') (\<lambda>h.
     andthen (must E ''create key'' ''Failed to create API key'' (\<lambda>w.
        w\<lparr>aw_keys := aw_keys w
          @ [\<lparr>ak_id = a_new_id E 0, ak_org = org, ak_user = u, ak_name = name, ak_prefix = take 16 (drop 4 key),
               ak_hash = h, ak_expires = (case expiry of Some t \<Rightarrow> t | None \<Rightarrow> None), ak_active = True,
               ak_deleted = False\<rparr>]\<rparr>)) (\<lambda>_. give key)))))))"

definition find_key :: "acc_env \<Rightarrow> string \<Rightarrow> string \<Rightarrow> acc_world \<Rightarrow> api_key_row option" where
  "find_key E k org w =
     (if a_ok E ''find key''
      then find (\<lambda>x. ak_id x = k \<and> ak_org x = org \<and> \<not> ak_deleted x) (aw_keys w) else None)"

definition map_keys :: "(api_key_row \<Rightarrow> api_key_row) \<Rightarrow> acc_world \<Rightarrow> acc_world" where
  "map_keys f w = w\<lparr>aw_keys := map f (aw_keys w)\<rparr>"

definition update_api_key :: "acc_env \<Rightarrow> req_ctx option \<Rightarrow> string option \<Rightarrow> bool option option \<Rightarrow> unit step" where
  "update_api_key E cx i req =
     andthen (require_permission E cx ''api_keys'' ''write'') (\<lambda>(org, u).
     andthen (need i 400 ''Invalid API key ID'') (\<lambda>k.
     andthen (seen (find_key E k org)) (\<lambda>found.
     andthen (need found 404 ''API key not found'') (\<lambda>x.
     andthen (need req 400 ''Invalid request body'') (\<lambda>q.
       must E ''save key'' ''Failed to update API key''
         (map_keys (\<lambda>z. if ak_id z = k \<and> \<not> ak_deleted z
            then z\<lparr>ak_active := (case q of None \<Rightarrow> ak_active x | Some b \<Rightarrow> b)\<rparr> else z)))))))"

definition delete_api_key :: "acc_env \<Rightarrow> req_ctx option \<Rightarrow> string option \<Rightarrow> unit step" where
  "delete_api_key E cx i =
     andthen (require_permission E cx ''api_keys'' ''delete'') (\<lambda>(org, u).
     andthen (need i 400 ''Invalid API key ID'') (\<lambda>k.
     andthen (seen (\<lambda>w. list_ex (\<lambda>z. ak_id z = k \<and> ak_org z = org \<and> \<not> ak_deleted z) (aw_keys w))) (\<lambda>hit.
     andthen (must E ''delete key'' ''Failed to delete API key''
        (map_keys (\<lambda>z. if ak_id z = k \<and> ak_org z = org then z\<lparr>ak_deleted := True\<rparr> else z))) (\<lambda>_.
       check hit 404 ''API key not found''))))"

section \<open>Requests\<close>

datatype acc_op =
    OpCreateRole "role_request option"
  | OpUpdateRole "string option" "role_request option"
  | OpDeleteRole "string option"
  | OpCreateUser "user_request option"
  | OpUpdateUser "string option" "user_request option"
  | OpDeleteUser "string option"
  | OpPassword "(string \<times> string) option"
  | OpSettings "(bool \<times> bool \<times> bool) option"
  | OpAddMember "member_request option"
  | OpRemoveMember "string option"
  | OpMemberRole "string option" "string option option"
  | OpNewOrg "string option"
  | OpNewKey "(string \<times> int option option) option"
  | OpSetKey "string option" "bool option option"
  | OpDropKey "string option"
  | OpForget "string \<times> string option"

text \<open>\<open>OpForget\<close> is an entry of the cache that expires.\<close>

fun run_acc :: "acc_env \<Rightarrow> req_ctx option \<Rightarrow> acc_op \<Rightarrow> acc_world \<Rightarrow> acc_world" where
  "run_acc E cx (OpCreateRole q) w = snd (create_role E cx q w)"
| "run_acc E cx (OpUpdateRole i q) w = snd (update_role E cx i q w)"
| "run_acc E cx (OpDeleteRole i) w = snd (delete_role E cx i w)"
| "run_acc E cx (OpCreateUser q) w = snd (create_user E cx q w)"
| "run_acc E cx (OpUpdateUser i q) w = snd (update_user E cx i q w)"
| "run_acc E cx (OpDeleteUser i) w = snd (delete_user E cx i w)"
| "run_acc E cx (OpPassword q) w = snd (change_password E cx q w)"
| "run_acc E cx (OpSettings q) w = snd (update_settings E cx q w)"
| "run_acc E cx (OpAddMember q) w = snd (add_member E cx q w)"
| "run_acc E cx (OpRemoveMember i) w = snd (remove_member E cx i w)"
| "run_acc E cx (OpMemberRole i q) w = snd (update_member_role E cx i q w)"
| "run_acc E cx (OpNewOrg q) w = snd (create_organization E cx q w)"
| "run_acc E cx (OpNewKey q) w = snd (create_api_key E cx q w)"
| "run_acc E cx (OpSetKey i q) w = snd (update_api_key E cx i q w)"
| "run_acc E cx (OpDropKey i) w = snd (delete_api_key E cx i w)"
| "run_acc E cx (OpForget k) w = w\<lparr>aw_cache := (aw_cache w)(k := None)\<rparr>"

fun run_accs :: "(acc_env \<times> req_ctx option \<times> acc_op) list \<Rightarrow> acc_world \<Rightarrow> acc_world" where
  "run_accs [] w = w"
| "run_accs ((E, cx, x) # ops) w = run_accs ops (run_acc E cx x w)"

section \<open>A calculus for steps\<close>

text \<open>What a step must find for \<open>Q\<close> to hold of its value and \<open>R\<close> of the world of an error.\<close>

definition wp :: "'a step \<Rightarrow> ('a \<Rightarrow> acc_world \<Rightarrow> bool) \<Rightarrow> (acc_world \<Rightarrow> bool) \<Rightarrow> acc_world \<Rightarrow> bool" where
  "wp m Q R w = (case m w of (Inl e, w') \<Rightarrow> R w' | (Inr a, w') \<Rightarrow> Q a w')"

named_theorems wps

lemma wp_give [wps]: "wp (give x) Q R w = Q x w"
  by (simp add: wp_def give_def)

lemma wp_deny [wps]: "wp (deny n m) Q R w = R w"
  by (simp add: wp_def deny_def)

lemma wp_andthen [wps]: "wp (andthen m f) Q R w = wp m (\<lambda>a. wp (f a) Q R) R w"
  by (auto simp: wp_def andthen_def split: prod.split sum.split)

lemma wp_seen [wps]: "wp (seen f) Q R w = Q (f w) w"
  by (simp add: wp_def seen_def)

lemma wp_change [wps]: "wp (change f) Q R w = Q () (f w)"
  by (simp add: wp_def change_def)

lemma wp_check [wps]: "wp (check b n m) Q R w = (if b then Q () w else R w)"
  by (simp add: check_def wps)

lemma wp_need [wps]: "wp (need x n m) Q R w = (case x of None \<Rightarrow> R w | Some a \<Rightarrow> Q a w)"
  by (simp add: need_def wps split: option.split)

lemma wp_must [wps]: "wp (must E s m f) Q R w = (if a_ok E s then Q () (f w) else R w)"
  by (simp add: must_def wps)

lemma wp_attempt [wps]: "wp (attempt E s f) Q R w = Q () (if a_ok E s then f w else w)"
  by (simp add: attempt_def wps)

lemma wp_if [wps]: "wp (if b then m else n) Q R w = (if b then wp m Q R w else wp n Q R w)"
  by simp

lemma wp_option [wps]: "wp (case x of None \<Rightarrow> m | Some a \<Rightarrow> f a) Q R w = (case x of None \<Rightarrow> wp m Q R w | Some a \<Rightarrow> wp (f a) Q R w)"
  by (simp split: option.split)

lemma wp_prod [wps]: "wp (case p of (a, b) \<Rightarrow> f a b) Q R w = (case p of (a, b) \<Rightarrow> wp (f a b) Q R w)"
  by (simp split: prod.split)

lemma wp_Let [wps]: "wp (let x = v in f x) Q R w = wp (f v) Q R w"
  by simp

lemma wp_snd: "wp m (\<lambda>_. I) I w \<Longrightarrow> I (snd (m w))"
  by (cases "m w") (auto simp: wp_def split: sum.splits)

section \<open>Reading permissions touches the cache alone\<close>

lemma cache_put_cache: "\<exists>c. cache_put E u org p w = w\<lparr>aw_cache := c\<rparr>"
proof (cases "a_ok E ''cache set''")
  case False
  have "w = w\<lparr>aw_cache := aw_cache w\<rparr>" by simp
  then show ?thesis using False unfolding cache_put_def by metis
qed (auto simp: cache_put_def)

lemma user_permissions_cache: "\<exists>c. snd (user_permissions E u org w) = w\<lparr>aw_cache := c\<rparr>"
proof -
  have same: "\<exists>c. w = w\<lparr>aw_cache := c\<rparr>" by (metis acc_world.surjective acc_world.update_convs(7))
  show ?thesis
    by (auto simp: user_permissions_def Let_def same cache_put_cache split: option.split)
qed

text \<open>The role of an organisation; role rows never leave the table nor change their organisation.\<close>

definition role_in :: "acc_world \<Rightarrow> string \<Rightarrow> string \<Rightarrow> bool" where
  "role_in w r org \<longleftrightarrow> (\<exists>x \<in> set (aw_roles w). rl_id x = r \<and> rl_org x = org)"

lemma role_in_frame [simp]:
  "role_in (w\<lparr>aw_cache := c\<rparr>) r org = role_in w r org"
  "role_in (w\<lparr>aw_users := us\<rparr>) r org = role_in w r org"
  "role_in (w\<lparr>aw_members := ms\<rparr>) r org = role_in w r org"
  by (simp_all add: role_in_def)

lemma role_of_org_in: "role_of_org E r org w = Some x \<Longrightarrow> role_in w r org \<and> rl_id x = r \<and> x \<in> set (aw_roles w)"
  by (auto simp: role_of_org_def role_in_def dest!: find_SomeD split: if_splits)

lemma default_role_in: "default_role E org w = Some x \<Longrightarrow> role_in w (rl_id x) org"
  by (auto simp: default_role_def role_in_def dest!: find_SomeD split: if_splits)

definition keeps_rows :: "acc_world \<Rightarrow> role_row list \<Rightarrow> bool" where
  "keeps_rows w rs \<longleftrightarrow> (\<forall>x \<in> set (aw_roles w). \<exists>y \<in> set rs. rl_id y = rl_id x \<and> rl_org y = rl_org x)"

lemma keeps_rows_map: "(\<And>x. rl_id (f x) = rl_id x \<and> rl_org (f x) = rl_org x) \<Longrightarrow> keeps_rows w (map f (aw_roles w))"
  by (auto simp: keeps_rows_def)

text \<open>A user row that no handler may object to: its role and its super admin flag.\<close>

definition fine_user :: "bool \<Rightarrow> acc_world \<Rightarrow> user_row \<Rightarrow> bool" where
  "fine_user granted w x \<longleftrightarrow>
     ((\<exists>y \<in> set (aw_users w). ur_org y = ur_org x \<and> ur_role y = ur_role x)
        \<or> (\<forall>r. ur_role x = Some r \<longrightarrow> role_in w r (ur_org x)))
     \<and> (ur_super x \<longrightarrow> granted \<or> (\<exists>y \<in> set (aw_users w). ur_id y = ur_id x \<and> ur_super y))"

definition fine_member :: "acc_world \<Rightarrow> member_row \<Rightarrow> bool" where
  "fine_member w m \<longleftrightarrow>
     (\<exists>n \<in> set (aw_members w). mb_org n = mb_org m \<and> mb_role n = mb_role m)
     \<or> (\<forall>r. mb_role m = Some r \<longrightarrow> role_in w r (mb_org m))"

text \<open>
  The interface of an invariant of the tables: what each write of a handler, under the conditions the
  handler has checked, must keep. \<open>granted\<close> says whether somebody who counts as a super admin acts.
\<close>

locale acc_invariant =
  fixes I :: "acc_world \<Rightarrow> bool" and granted :: bool and actors :: "string set"
  assumes cached: "I w \<Longrightarrow> I (snd (user_permissions E u org w))"
    and forgets: "I w \<Longrightarrow> (\<And>k. c k = None \<or> c k = aw_cache w k) \<Longrightarrow> I (w\<lparr>aw_cache := c\<rparr>)"
    and grants: "I w \<Longrightarrow> u \<in> actors \<Longrightarrow> fst (user_permissions E u None w) = Some p \<Longrightarrow> up_super p \<Longrightarrow> granted"
    and roles: "I w \<Longrightarrow> keeps_rows w rs \<Longrightarrow> I (w\<lparr>aw_roles := rs\<rparr>)"
    and users: "I w \<Longrightarrow> \<forall>x \<in> set us. fine_user granted w x \<Longrightarrow> I (w\<lparr>aw_users := us\<rparr>)"
    and members: "I w \<Longrightarrow> \<forall>m \<in> set ms. fine_member w m \<Longrightarrow> I (w\<lparr>aw_members := ms\<rparr>)"
    and keys: "I w \<Longrightarrow> I (w\<lparr>aw_keys := ks\<rparr>)"
    and orgs: "I w \<Longrightarrow> I (w\<lparr>aw_orgs := os\<rparr>)"
begin

lemma perm_world:
  assumes "I w" obtains c where "snd (user_permissions E u org w) = w\<lparr>aw_cache := c\<rparr>" "I (w\<lparr>aw_cache := c\<rparr>)"
  using cached [OF assms, of E u org] user_permissions_cache [of E u org w] by metis

lemma wp_has_permission:
  assumes "I w" "\<And>b c. I (w\<lparr>aw_cache := c\<rparr>) \<Longrightarrow> Q b (w\<lparr>aw_cache := c\<rparr>)"
  shows "wp (has_permission E u res act org) Q I w"
proof -
  obtain c where c: "snd (user_permissions E u org w) = w\<lparr>aw_cache := c\<rparr>" "I (w\<lparr>aw_cache := c\<rparr>)"
    using perm_world [OF assms(1)] .
  show ?thesis using c assms(2)
    by (cases "user_permissions E u org w") (auto simp: wp_def has_permission_def split: option.split)
qed

lemma wp_is_super_admin:
  assumes "I w" "u \<in> actors" "\<And>b c. I (w\<lparr>aw_cache := c\<rparr>) \<Longrightarrow> b \<longrightarrow> granted \<Longrightarrow> Q b (w\<lparr>aw_cache := c\<rparr>)"
  shows "wp (is_super_admin E u) Q I w"
proof -
  obtain c where c: "snd (user_permissions E u None w) = w\<lparr>aw_cache := c\<rparr>" "I (w\<lparr>aw_cache := c\<rparr>)"
    using perm_world [OF assms(1)] .
  show ?thesis using c assms(3) grants [OF assms(1,2), of E]
    by (cases "user_permissions E u None w") (auto simp: wp_def is_super_admin_def split: option.split)
qed

lemma wp_get_org_id:
  assumes "I w" "cx_user cx \<in> actors" "\<And>o' c. I (w\<lparr>aw_cache := c\<rparr>) \<Longrightarrow> Q o' (w\<lparr>aw_cache := c\<rparr>)"
  shows "wp (get_org_id E cx) Q I w"
proof -
  have q: "Q o' w" for o' using assms(3) [of "aw_cache w"] assms(1) by simp
  show ?thesis
    unfolding get_org_id_def
    by (auto simp: wps q assms(3) intro!: wp_is_super_admin assms(1,2) split: option.split)
qed

lemma wp_org_and_user:
  assumes "I w" "\<And>c. cx = Some c \<Longrightarrow> cx_user c \<in> actors"
    "\<And>o' u c. u \<in> actors \<Longrightarrow> I (w\<lparr>aw_cache := c\<rparr>) \<Longrightarrow> Q (o', u) (w\<lparr>aw_cache := c\<rparr>)"
  shows "wp (org_and_user E cx) Q I w"
  using assms unfolding org_and_user_def by (auto simp: wps intro!: wp_get_org_id split: option.split)

lemma wp_require_permission:
  assumes "I w" "\<And>c. cx = Some c \<Longrightarrow> cx_user c \<in> actors"
    "\<And>o' u c. u \<in> actors \<Longrightarrow> I (w\<lparr>aw_cache := c\<rparr>) \<Longrightarrow> Q (o', u) (w\<lparr>aw_cache := c\<rparr>)"
  shows "wp (require_permission E cx res act) Q I w"
proof -
  have "Q (o', u) (w\<lparr>aw_cache := c, aw_cache := c'\<rparr>)" if "u \<in> actors" "I (w\<lparr>aw_cache := c, aw_cache := c'\<rparr>)" for o' u c c'
    using assms(3) [of u c'] that by simp
  then show ?thesis
    unfolding require_permission_def
    by (auto simp: wps intro!: wp_org_and_user wp_has_permission assms(1,2))
qed

end

subsection \<open>Every handler keeps every such invariant\<close>

lemma invalidate_user_forgets: "\<exists>c. invalidate_user u w = w\<lparr>aw_cache := c\<rparr> \<and> (\<forall>k. c k = None \<or> c k = aw_cache w k)"
  unfolding invalidate_user_def by (rule exI [of _ "\<lambda>k. if fst k = u then None else aw_cache w k"]) simp

context acc_invariant
begin

abbreviation authorised :: "req_ctx option \<Rightarrow> bool" where
  "authorised cx \<equiv> (\<forall>c. cx = Some c \<longrightarrow> cx_user c \<in> actors)"

lemma invalidate_user_ok: "I w \<Longrightarrow> I (invalidate_user u w)"
  using invalidate_user_forgets [of u w] forgets by metis

lemma fold_invalidate_ok: "I w \<Longrightarrow> I (fold invalidate_user us w)"
  by (induction us arbitrary: w) (simp_all add: invalidate_user_ok)

lemma invalidate_role_ok: "I w \<Longrightarrow> I (invalidate_role r w)"
  by (simp add: invalidate_role_def fold_invalidate_ok)

lemma map_roles_ok: "I w \<Longrightarrow> (\<And>x. rl_id (f x) = rl_id x \<and> rl_org (f x) = rl_org x) \<Longrightarrow> I (map_roles f w)"
  unfolding map_roles_def by (rule roles) (simp_all add: keeps_rows_map)

lemma add_role_ok: "I w \<Longrightarrow> I (add_role r w)"
  unfolding add_role_def by (rule roles) (auto simp: keeps_rows_def)

lemma role_writes_ok:
  "I w \<Longrightarrow> I (unset_defaults org but w)"
  "I w \<Longrightarrow> I (set_role_perms i ps w)"
  "I w \<Longrightarrow> I (save_role r w)"
  unfolding unset_defaults_def set_role_perms_def save_role_def by (auto intro!: map_roles_ok)

lemma map_users_ok:
  assumes "I w" "\<And>x. x \<in> set (aw_users w) \<Longrightarrow> fine_user granted w (f x)"
  shows "I (map_users f w)"
  unfolding map_users_def by (rule users) (use assms in auto)

lemma fine_old: "x \<in> set (aw_users w) \<Longrightarrow> fine_user granted w x"
  by (auto simp: fine_user_def)

lemma map_members_ok:
  assumes "I w" "\<And>m. m \<in> set (aw_members w) \<Longrightarrow> fine_member w (f m)"
  shows "I (map_members f w)"
  unfolding map_members_def by (rule members) (use assms in auto)

lemma fine_old_member: "m \<in> set (aw_members w) \<Longrightarrow> mb_org n = mb_org m \<Longrightarrow> mb_role n = mb_role m \<Longrightarrow> fine_member w n"
  by (auto simp: fine_member_def)

lemma set_member_role_ok:
  assumes "I w" "\<And>k. r = Some k \<Longrightarrow> role_in w k org"
  shows "I (set_member_role u org r w)"
  unfolding set_member_role_def
  by (rule map_members_ok) (use assms in \<open>auto simp: fine_member_def\<close>)

lemma delete_memberships_ok: "I w \<Longrightarrow> I (delete_memberships u org w)"
  unfolding delete_memberships_def by (rule map_members_ok) (auto simp: fine_member_def)

lemma add_membership_ok:
  assumes "I w" "\<And>k. mb_role m = Some k \<Longrightarrow> role_in w k (mb_org m)"
  shows "I (add_membership E m w)"
  unfolding add_membership_def
  using assms by (auto intro!: members simp: fine_member_def)

lemma restore_membership_ok:
  assumes "I w" "\<And>k. r = Some k \<Longrightarrow> role_in w k org"
  shows "I (restore_membership E u org r w)"
  unfolding restore_membership_def
  using assms by (auto intro!: map_members_ok add_membership_ok simp: fine_member_def)

lemma create_role_ok: "authorised cx \<Longrightarrow> I w \<Longrightarrow> wp (create_role E cx q) (\<lambda>_. I) I w"
  unfolding create_role_def
  by (auto simp: wps add_role_ok role_writes_ok Let_def intro!: wp_org_and_user split: option.split)

lemma update_system_role_ok: "I w \<Longrightarrow> wp (update_system_role E s r q) (\<lambda>_. I) I w"
  unfolding update_system_role_def replace_role_perms_def
  by (auto simp: wps Let_def invalidate_role_ok role_writes_ok split: option.split)

lemma update_custom_role_ok: "I w \<Longrightarrow> wp (update_custom_role E org r q) (\<lambda>_. I) I w"
  unfolding update_custom_role_def replace_role_perms_def
  by (auto simp: wps Let_def invalidate_role_ok role_writes_ok split: option.split)

lemma update_role_ok: "authorised cx \<Longrightarrow> I w \<Longrightarrow> wp (update_role E cx i q) (\<lambda>_. I) I w"
  unfolding update_role_def
  by (auto simp: wps update_system_role_ok update_custom_role_ok intro!: wp_org_and_user split: option.split)

lemma delete_role_ok: "authorised cx \<Longrightarrow> I w \<Longrightarrow> wp (delete_role E cx i) (\<lambda>_. I) I w"
  unfolding delete_role_def
  by (auto simp: wps intro!: wp_org_and_user map_roles_ok split: option.split)

end

context acc_invariant
begin

lemma wp_pick_role:
  assumes "I w" "\<And>r. (\<And>k. r = Some k \<Longrightarrow> role_in w k org) \<Longrightarrow> Q r w"
  shows "wp (pick_role E org req) Q I w"
  unfolding pick_role_def
  by (auto simp: wps assms(1) dest: role_of_org_in default_role_in intro!: assms(2) split: option.split)

lemma wp_parse_place: "I w \<Longrightarrow> Q () w \<Longrightarrow> wp (parse_place E org unit dept) Q I w"
  unfolding parse_place_def by (simp add: wps)

lemma wp_grant_super:
  assumes "I w" "u \<in> actors" "\<And>b c. I (w\<lparr>aw_cache := c\<rparr>) \<Longrightarrow> b \<longrightarrow> granted \<Longrightarrow> Q b (w\<lparr>aw_cache := c\<rparr>)"
  shows "wp (grant_super E u field) Q I w"
proof -
  have "Q False w" using assms(3) [of "aw_cache w" False] assms(1) by simp
  then show ?thesis
    unfolding grant_super_def using assms by (auto simp: wps intro!: wp_is_super_admin)
qed

lemma wp_add_user:
  assumes "I w" "fine_user granted w x" "\<And>us. I (w\<lparr>aw_users := us\<rparr>) \<Longrightarrow> Q () (w\<lparr>aw_users := us\<rparr>)"
  shows "wp (add_user E x) Q I w"
proof -
  have "\<forall>y \<in> set (aw_users w @ [x]). fine_user granted w y" using assms(2) fine_old by auto
  then show ?thesis
    unfolding add_user_def by (simp add: wps assms(1,3) users)
qed

lemma take_up_user_ok:
  assumes "I w" "\<And>k. r = Some k \<Longrightarrow> role_in w k org" "super \<longrightarrow> granted"
  shows "wp (take_up_user E org q r hash super x) (\<lambda>_. I) I w"
  unfolding take_up_user_def
  using assms
  by (auto simp: wps fine_user_def map_users_def intro!: restore_membership_ok users)

lemma insert_user_ok:
  assumes "I w" "\<And>k. r = Some k \<Longrightarrow> role_in w k org" "super \<longrightarrow> granted"
  shows "wp (insert_user E org q r hash super) (\<lambda>_. I) I w"
  unfolding insert_user_def
  using assms
  by (auto simp: wps fine_user_def Let_def intro!: wp_add_user add_membership_ok)

lemma create_user_ok:
  assumes "authorised cx" "I w"
  shows "wp (create_user E cx req) (\<lambda>_. I) I w"
  unfolding create_user_def
  using assms
  by (auto simp: wps intro!: wp_require_permission wp_parse_place wp_pick_role wp_grant_super
      take_up_user_ok insert_user_ok split: option.split)

end

lemma fine_user_cong:
  "ur_id y = ur_id x \<Longrightarrow> ur_org y = ur_org x \<Longrightarrow> ur_role y = ur_role x \<Longrightarrow> ur_super y = ur_super x
   \<Longrightarrow> fine_user g w y = fine_user g w x"
  by (simp add: fine_user_def)

lemma fine_user_cache [simp]: "fine_user g (w\<lparr>aw_cache := c\<rparr>) x = fine_user g w x"
  by (simp add: fine_user_def)

text \<open>What the edits of an account leave alone.\<close>

definition same_account :: "user_row \<Rightarrow> user_row \<Rightarrow> bool" where
  "same_account x y \<longleftrightarrow> ur_id y = ur_id x \<and> ur_org y = ur_org x \<and> ur_role y = ur_role x"

context acc_invariant
begin

lemma wp_edit_identity:
  assumes "I w" "\<And>y. same_account x y \<Longrightarrow> ur_super y = ur_super x \<Longrightarrow> Q y w"
  shows "wp (edit_identity E x q) Q I w"
  unfolding edit_identity_def
  by (auto simp: wps Let_def same_account_def assms(1) intro!: assms(2) split: option.split)

lemma wp_edit_role:
  assumes "I w"
    "\<And>y. ur_id y = ur_id x \<Longrightarrow> ur_org y = ur_org x \<Longrightarrow> ur_super y = ur_super x \<Longrightarrow>
       (if uq_role q = None then ur_role y = ur_role x else \<forall>k. ur_role y = Some k \<longrightarrow> role_in w k org) \<Longrightarrow> Q y w"
  shows "wp (edit_role E actor org x q) Q I w"
  unfolding edit_role_def
  by (auto simp: wps assms(1) dest: role_of_org_in intro!: assms(2) split: option.split)

lemma wp_edit_state:
  assumes "I w" "\<And>y c. same_account x y \<Longrightarrow> ur_super y = ur_super x \<Longrightarrow> I (w\<lparr>aw_cache := c\<rparr>) \<Longrightarrow> Q y (w\<lparr>aw_cache := c\<rparr>)"
  shows "wp (edit_state E actor org x q) Q I w"
proof -
  have "Q y w" if "same_account x y" "ur_super y = ur_super x" for y
    using assms(2) [of y "aw_cache w"] that assms(1) by simp
  then show ?thesis
    unfolding edit_state_def
    by (auto simp: wps Let_def same_account_def assms intro!: wp_has_permission wp_parse_place)
qed

lemma wp_edit_super:
  assumes "I w" "actor \<in> actors"
    "\<And>y c. same_account x y \<Longrightarrow> (ur_super y \<longrightarrow> ur_super x \<or> granted) \<Longrightarrow> I (w\<lparr>aw_cache := c\<rparr>) \<Longrightarrow> Q y (w\<lparr>aw_cache := c\<rparr>)"
  shows "wp (edit_super E actor x q) Q I w"
proof -
  have "Q x w" using assms(3) [of x "aw_cache w"] assms(1) by (simp add: same_account_def)
  then show ?thesis
    unfolding edit_super_def
    by (auto simp: wps same_account_def assms intro!: wp_is_super_admin split: option.split)
qed

lemma wp_save_user:
  assumes "I w" "fine_user granted w y" "\<And>us. I (w\<lparr>aw_users := us\<rparr>) \<Longrightarrow> Q () (w\<lparr>aw_users := us\<rparr>)"
  shows "wp (save_user E m y) Q I w"
proof -
  have "I (map_users (\<lambda>z. if ur_id z = ur_id y \<and> \<not> ur_deleted z then y else z) w)"
    by (rule map_users_ok) (simp_all add: assms(1,2) fine_old)
  then show ?thesis
    unfolding save_user_def map_users_def by (simp add: wps assms(1,3))
qed

lemma update_native_ok:
  assumes "I w" "actor \<in> actors" "x \<in> set (aw_users w)" "ur_org x = org"
  shows "wp (update_native E actor org x q) (\<lambda>_. I) I w"
proof -
  have fine: "fine_user granted w y" if "ur_id y = ur_id x" "ur_org y = org" "ur_super y \<longrightarrow> ur_super x \<or> granted"
      "if uq_role q = None then ur_role y = ur_role x else \<forall>k. ur_role y = Some k \<longrightarrow> role_in w k org" for y
    using that assms(3,4) by (auto simp: fine_user_def split: if_splits)
  show ?thesis
    unfolding update_native_def
    apply (simp only: wp_andthen, rule wp_edit_identity [OF assms(1)])
    apply (simp only: wp_andthen, rule wp_edit_role [OF assms(1)])
    apply (simp only: wp_andthen, rule wp_edit_state [OF assms(1)])
    apply (simp only: wp_andthen, rule wp_edit_super [OF _ assms(2)], assumption)
    apply (simp only: wp_andthen, rule wp_save_user, assumption)
    subgoal for y1 y2 y3 c y4 c'
      using fine [of y4] assms(4) by (auto simp: same_account_def split: if_splits)
    subgoal for y1 y2 y3 c y4 c' us
      using assms(4)
      by (cases "uq_role q") (auto simp: wps same_account_def intro!: invalidate_user_ok set_member_role_ok)
    done
qed

lemma update_guest_ok: "I w \<Longrightarrow> wp (update_guest E org x q) (\<lambda>_. I) I w"
  unfolding update_guest_def
  by (auto simp: wps dest: role_of_org_in intro!: invalidate_user_ok set_member_role_ok split: option.split)

end

lemma member_user_in: "member_user E u org w = Some x \<Longrightarrow> x \<in> set (aw_users w) \<and> ur_id x = u"
  by (auto simp: member_user_def live_user_def dest!: find_SomeD split: if_splits)

context acc_invariant
begin

lemma update_user_ok:
  assumes "authorised cx" "I w"
  shows "wp (update_user E cx i req) (\<lambda>_. I) I w"
  unfolding update_user_def
  using assms
  by (auto simp: wps dest!: member_user_in intro!: wp_org_and_user wp_has_permission update_guest_ok
      update_native_ok split: option.split)

lemma delete_user_ok:
  assumes "authorised cx" "I w"
  shows "wp (delete_user E cx i) (\<lambda>_. I) I w"
  unfolding delete_user_def
  using assms
  by (auto simp: wps fine_user_def intro!: wp_org_and_user wp_has_permission invalidate_user_ok delete_memberships_ok
      map_users_ok split: option.split)

end

lemma live_user_in: "live_user E u w = Some x \<Longrightarrow> x \<in> set (aw_users w) \<and> ur_id x = u"
  by (auto simp: live_user_def dest!: find_SomeD split: if_splits)

context acc_invariant
begin

lemma own_row_fine: "x \<in> set (aw_users w) \<Longrightarrow> ur_id y = ur_id x \<Longrightarrow> ur_org y = ur_org x \<Longrightarrow> ur_role y = ur_role x
    \<Longrightarrow> ur_super y = ur_super x \<Longrightarrow> fine_user granted w y"
  by (auto simp: fine_user_def)

lemma change_password_ok: "I w \<Longrightarrow> wp (change_password E cx q) (\<lambda>_. I) I w"
  unfolding change_password_def
  by (auto simp: wps dest!: live_user_in intro!: wp_save_user own_row_fine split: option.split)

lemma update_settings_ok:
  assumes "authorised cx" "I w"
  shows "wp (update_settings E cx q) (\<lambda>_. I) I w"
  unfolding update_settings_def
  using assms
  by (auto simp: wps Let_def dest!: live_user_in intro!: wp_org_and_user wp_save_user own_row_fine split: option.split)

lemma wp_find_target: "I w \<Longrightarrow> (\<And>x. Q x w) \<Longrightarrow> wp (find_target E q) Q I w"
  unfolding find_target_def by (auto simp: wps split: option.split)

lemma wp_member_role: "I w \<Longrightarrow> (\<And>r. role_in w (rl_id r) org \<Longrightarrow> Q r w) \<Longrightarrow> wp (member_role E org req) Q I w"
  unfolding member_role_def by (auto simp: wps dest: role_of_org_in default_role_in split: option.split)

lemma add_member_ok:
  assumes "authorised cx" "I w"
  shows "wp (add_member E cx req) (\<lambda>_. I) I w"
  unfolding add_member_def
  using assms
  by (auto simp: wps fine_member_def intro!: wp_require_permission wp_find_target wp_member_role invalidate_user_ok
      map_members_ok members split: option.split)

lemma remove_member_ok:
  assumes "authorised cx" "I w"
  shows "wp (remove_member E cx i) (\<lambda>_. I) I w"
  unfolding remove_member_def
  using assms
  by (auto simp: wps intro!: wp_require_permission invalidate_user_ok delete_memberships_ok split: option.split)

lemma update_member_role_ok:
  assumes "authorised cx" "I w"
  shows "wp (update_member_role E cx i req) (\<lambda>_. I) I w"
  unfolding update_member_role_def
  using assms
  by (auto simp: wps dest: role_of_org_in intro!: wp_require_permission invalidate_user_ok set_member_role_ok
      split: option.split)

lemma create_organization_ok:
  assumes "authorised cx" "I w"
  shows "wp (create_organization E cx req) (\<lambda>_. I) I w"
proof -
  have new: "I (w'\<lparr>aw_orgs := os, aw_roles := rs @ system_roles E n v,
      aw_members := ms @ [\<lparr>mb_user = u, mb_org = n, mb_role = Some (a_new_id E (Suc 0)), mb_default = False,
                mb_deleted = False\<rparr>]\<rparr>)"
    if "I w'" "rs = aw_roles w'" "ms = aw_members w'" for w' os rs ms n v u
  proof -
    have "I (w'\<lparr>aw_orgs := os, aw_roles := rs @ system_roles E n v\<rparr>)"
      by (intro roles orgs that) (auto simp: keeps_rows_def that)
    then show ?thesis
      by (rule members) (auto simp: fine_member_def role_in_def system_roles_def system_role_def that)
  qed
  show ?thesis
    unfolding create_organization_def
    using assms by (auto simp: wps Let_def intro!: new wp_require_permission split: option.split)
qed

lemma key_handlers_ok:
  assumes "authorised cx" "I w"
  shows "wp (create_api_key E cx k) (\<lambda>_. I) I w" "wp (update_api_key E cx i b) (\<lambda>_. I) I w"
    "wp (delete_api_key E cx i) (\<lambda>_. I) I w"
  unfolding create_api_key_def update_api_key_def delete_api_key_def map_keys_def
  using assms by (auto simp: wps Let_def intro!: wp_require_permission keys split: option.split)

theorem run_acc_ok: "authorised cx \<Longrightarrow> I w \<Longrightarrow> I (run_acc E cx x w)"
  by (cases x)
    (auto intro!: wp_snd [of _ I] create_role_ok update_role_ok delete_role_ok create_user_ok update_user_ok delete_user_ok
      change_password_ok update_settings_ok add_member_ok remove_member_ok update_member_role_ok
      create_organization_ok key_handlers_ok forgets)

theorem run_accs_ok:
  "list_all (\<lambda>(E, cx, x). authorised cx) ops \<Longrightarrow> I w \<Longrightarrow> I (run_accs ops w)"
  by (induction ops w rule: run_accs.induct) (auto simp: run_acc_ok)

end

section \<open>A permission comes from a role of the organisation\<close>

definition tenant_ok :: "acc_world \<Rightarrow> bool" where
  "tenant_ok w \<longleftrightarrow>
     (\<forall>m \<in> set (aw_members w). \<forall>r. mb_role m = Some r \<longrightarrow> role_in w r (mb_org m))
     \<and> (\<forall>x \<in> set (aw_users w). \<forall>r. ur_role x = Some r \<longrightarrow> role_in w r (ur_org x))
     \<and> (\<forall>u org p. aw_cache w (u, Some org) = Some p \<longrightarrow> up_super p \<or> role_in w (up_role p) org)"

lemma effective_role_in:
  assumes "tenant_ok w" "x \<in> set (aw_users w)" "effective_role E x (Some org) w = Some r"
  shows "role_in w r org"
proof (cases "membership E (ur_id x) org w")
  case None
  then show ?thesis using assms by (auto simp: effective_role_def tenant_ok_def split: if_splits)
next
  case (Some m)
  then have "m \<in> set (aw_members w)" "mb_org m = org"
    by (auto simp: membership_def dest!: find_SomeD split: if_splits)
  then show ?thesis
    using assms Some by (auto simp: effective_role_def tenant_ok_def Let_def split: if_splits)
qed

lemma live_role_id: "live_role E r w = Some x \<Longrightarrow> rl_id x = r"
  by (auto simp: live_role_def dest!: find_SomeD split: if_splits)

lemma user_permissions_role:
  assumes "tenant_ok w" "fst (user_permissions E u (Some org) w) = Some p"
  shows "up_super p \<or> role_in w (up_role p) org"
proof (cases "if a_ok E ''cache get'' then aw_cache w (u, Some org) else None")
  case None
  then obtain x where x: "live_user E u w = Some x"
    using assms(2) by (auto simp: user_permissions_def split: option.splits)
  then have mem: "x \<in> set (aw_users w)" by (simp add: live_user_in)
  show ?thesis
  proof (cases "effective_role E x (Some org) w")
    case no: None
    then show ?thesis using assms(2) None x by (auto simp: user_permissions_def Let_def split: if_splits)
  next
    case (Some r)
    then have "role_in w r org" using effective_role_in [OF assms(1) mem] by blast
    then show ?thesis
      using assms(2) None x Some by (auto simp: user_permissions_def Let_def live_role_id split: option.splits if_splits)
  qed
next
  case (Some q)
  then show ?thesis using assms by (auto simp: user_permissions_def tenant_ok_def split: if_splits)
qed

lemma user_permissions_cached:
  "aw_cache (snd (user_permissions E u org w)) k = Some p
   \<Longrightarrow> aw_cache w k = Some p \<or> k = (u, org) \<and> fst (user_permissions E u org w) = Some p"
  by (auto simp: user_permissions_def cache_put_def Let_def split: option.splits if_splits)

lemma user_permissions_tables:
  "aw_users (snd (user_permissions E u org w)) = aw_users w"
  "aw_roles (snd (user_permissions E u org w)) = aw_roles w"
  "aw_members (snd (user_permissions E u org w)) = aw_members w"
proof -
  obtain c where "snd (user_permissions E u org w) = w\<lparr>aw_cache := c\<rparr>" using user_permissions_cache by blast
  then show "aw_users (snd (user_permissions E u org w)) = aw_users w"
    "aw_roles (snd (user_permissions E u org w)) = aw_roles w"
    "aw_members (snd (user_permissions E u org w)) = aw_members w" by simp_all
qed

lemma role_in_tables: "aw_roles w' = aw_roles w \<Longrightarrow> role_in w' = role_in w"
  by (intro ext) (simp add: role_in_def)

lemma keeps_rows_in: "keeps_rows w rs \<Longrightarrow> role_in w r org \<Longrightarrow> role_in (w\<lparr>aw_roles := rs\<rparr>) r org"
  by (auto simp: keeps_rows_def role_in_def)

interpretation tenants: acc_invariant tenant_ok True UNIV
proof (unfold_locales, goal_cases)
  case (1 w E u org)
  have in_eq: "role_in (snd (user_permissions E u org w)) = role_in w"
    by (rule role_in_tables) (rule user_permissions_tables)
  show ?case
    unfolding tenant_ok_def user_permissions_tables in_eq
  proof (intro conjI allI impI)
    fix v org' p assume "aw_cache (snd (user_permissions E u org w)) (v, Some org') = Some p"
    then have "aw_cache w (v, Some org') = Some p \<or> v = u \<and> org = Some org' \<and> fst (user_permissions E u org w) = Some p"
      using user_permissions_cached by fastforce
    then show "up_super p \<or> role_in w (up_role p) org'"
      using 1 user_permissions_role [OF 1, of E u org' p] unfolding tenant_ok_def by blast
  qed (use 1 in \<open>auto simp: tenant_ok_def\<close>)
next
  case (2 w c)
  then show ?case by (auto simp: tenant_ok_def) (metis option.distinct(1))
next
  case (4 w rs)
  have "role_in w r org \<Longrightarrow> role_in (w\<lparr>aw_roles := rs\<rparr>) r org" for r org by (rule keeps_rows_in [OF 4(2)])
  then show ?case using 4(1) unfolding tenant_ok_def by simp blast
next
  case (5 w us)
  then show ?case unfolding tenant_ok_def fine_user_def by simp metis
next
  case (6 w ms)
  then show ?case unfolding tenant_ok_def fine_member_def by simp metis
qed (auto simp: tenant_ok_def role_in_def)

section \<open>Super admins are made by super admins\<close>

definition supers_within :: "string set \<Rightarrow> acc_world \<Rightarrow> bool" where
  "supers_within S w \<longleftrightarrow>
     (\<forall>x \<in> set (aw_users w). ur_super x \<longrightarrow> ur_id x \<in> S)
     \<and> (\<forall>u org p. aw_cache w (u, org) = Some p \<longrightarrow> up_super p \<longrightarrow> u \<in> S)"

lemma user_permissions_super:
  assumes "supers_within S w" "fst (user_permissions E u org w) = Some p" "up_super p"
  shows "u \<in> S"
  using assms
  by (auto simp: user_permissions_def supers_within_def Let_def dest!: live_user_in split: option.splits if_splits)

interpretation supers: acc_invariant "supers_within S" False "- S" for S
proof (unfold_locales, goal_cases)
  case (1 w E u org)
  show ?case
    unfolding supers_within_def user_permissions_tables
  proof (intro conjI allI impI)
    fix v org' p assume "aw_cache (snd (user_permissions E u org w)) (v, org') = Some p" "up_super p"
    then have "aw_cache w (v, org') = Some p \<or> v = u \<and> fst (user_permissions E u org w) = Some p"
      using user_permissions_cached by fastforce
    then show "v \<in> S" using 1 user_permissions_super [OF 1, of E u org p] \<open>up_super p\<close> unfolding supers_within_def by blast
  qed (use 1 in \<open>auto simp: supers_within_def\<close>)
next
  case (2 w c)
  then show ?case by (auto simp: supers_within_def) (metis option.distinct(1))
next
  case (3 w u E p)
  then show ?case using user_permissions_super by blast
next
  case (5 w us)
  then show ?case unfolding supers_within_def fine_user_def by simp metis
qed (auto simp: supers_within_def)

section \<open>What an answer rests on\<close>

text \<open>
  What the tables say of a user's permissions, without the lookup: a live row of the user with the flag of the
  answer, and either no permission but the flag, or exactly the permissions of a live role the user
  holds, through a live membership of the organisation or as the role of the user row for the user's own.
\<close>

definition holds_role :: "acc_world \<Rightarrow> user_row \<Rightarrow> string option \<Rightarrow> string \<Rightarrow> bool" where
  "holds_role v x org r \<longleftrightarrow>
     (case org of
        None \<Rightarrow> ur_role x = Some r
      | Some o' \<Rightarrow>
          (\<exists>m \<in> set (aw_members v). mb_user m = ur_id x \<and> mb_org m = o' \<and> \<not> mb_deleted m \<and> mb_role m = Some r)
          \<or> o' = ur_org x \<and> ur_role x = Some r)"

definition read_from :: "acc_world \<Rightarrow> string \<Rightarrow> string option \<Rightarrow> user_perms \<Rightarrow> bool" where
  "read_from v u org p \<longleftrightarrow>
     (\<exists>x \<in> set (aw_users v). ur_id x = u \<and> \<not> ur_deleted x \<and> up_super p = ur_super x
        \<and> (up_super p \<and> up_keys p = []
           \<or> (\<exists>r \<in> set (aw_roles v). \<not> rl_deleted r \<and> up_keys p = map perm_key (rl_perms r) \<and> holds_role v x org (rl_id r))))"

lemma read_from_cache [simp]: "read_from (w\<lparr>aw_cache := c\<rparr>) = read_from w"
  by (intro ext) (simp add: read_from_def holds_role_def cong: option.case_cong)

lemma effective_role_held: "effective_role E x org w = Some r \<Longrightarrow> holds_role w x org r"
  by (auto simp: effective_role_def holds_role_def membership_def Let_def dest!: find_SomeD split: option.splits if_splits)

lemma user_permissions_reads:
  assumes "fst (user_permissions E u org w) = Some p"
  shows "aw_cache w (u, org) = Some p \<or> read_from w u org p"
proof (cases "if a_ok E ''cache get'' then aw_cache w (u, org) else None")
  case None
  then obtain x where x: "live_user E u w = Some x"
    using assms by (auto simp: user_permissions_def split: option.splits)
  then have mem: "x \<in> set (aw_users w)" "ur_id x = u" "\<not> ur_deleted x"
    by (auto simp: live_user_def dest!: find_SomeD split: if_splits)
  have "read_from w u org p"
  proof (cases "effective_role E x org w")
    case no: None
    then show ?thesis
      using assms None x mem by (auto simp: user_permissions_def read_from_def Let_def split: if_splits)
  next
    case (Some r)
    then obtain rl where rl: "live_role E r w = Some rl" "up_super p = ur_super x" "up_keys p = map perm_key (rl_perms rl)"
      using assms None x by (auto simp: user_permissions_def Let_def split: option.splits if_splits)
    then have "rl \<in> set (aw_roles w)" "\<not> rl_deleted rl" "rl_id rl = r"
      by (auto simp: live_role_def dest!: find_SomeD split: if_splits)
    then show ?thesis using rl mem effective_role_held [OF Some] unfolding read_from_def by blast
  qed
  then show ?thesis by simp
next
  case (Some q)
  then show ?thesis using assms by (auto simp: user_permissions_def split: if_splits)
qed

text \<open>
  Every handler looks permissions up before it writes: while it looks up, the tables are those of its
  start. So the entries of the cache are all among \<open>G\<close>, what the tables of the start say among them.
\<close>

definition entries_in :: "(string \<times> string option \<Rightarrow> user_perms \<Rightarrow> bool) \<Rightarrow> acc_world \<Rightarrow> bool" where
  "entries_in G w \<longleftrightarrow> (\<forall>k p. aw_cache w k = Some p \<longrightarrow> G k p)"

definition before_writes :: "(string \<times> string option \<Rightarrow> user_perms \<Rightarrow> bool) \<Rightarrow> acc_world \<Rightarrow> acc_world \<Rightarrow> bool" where
  "before_writes G w0 w \<longleftrightarrow> entries_in G w \<and> (\<exists>c. w = w0\<lparr>aw_cache := c\<rparr>)"

lemma entries_in_tables [simp]:
  "entries_in G (w\<lparr>aw_users := us\<rparr>) = entries_in G w"
  "entries_in G (w\<lparr>aw_roles := rs\<rparr>) = entries_in G w"
  "entries_in G (w\<lparr>aw_members := ms\<rparr>) = entries_in G w"
  "entries_in G (w\<lparr>aw_orgs := os\<rparr>) = entries_in G w"
  "entries_in G (w\<lparr>aw_keys := ks\<rparr>) = entries_in G w"
  by (simp_all add: entries_in_def)

lemma entries_in_writes [simp]:
  "entries_in G (map_users f w) = entries_in G w"
  "entries_in G (map_roles g w) = entries_in G w"
  "entries_in G (map_members h w) = entries_in G w"
  "entries_in G (map_keys k w) = entries_in G w"
  "entries_in G (add_role r w) = entries_in G w"
  "entries_in G (unset_defaults org but w) = entries_in G w"
  "entries_in G (set_role_perms i ps w) = entries_in G w"
  "entries_in G (save_role r w) = entries_in G w"
  "entries_in G (add_membership E m w) = entries_in G w"
  "entries_in G (restore_membership E u org' r' w) = entries_in G w"
  "entries_in G (set_member_role u' org'' r'' w) = entries_in G w"
  "entries_in G (delete_memberships u'' org''' w) = entries_in G w"
  by (simp_all add: map_users_def map_roles_def map_members_def map_keys_def add_role_def unset_defaults_def
      set_role_perms_def save_role_def add_membership_def restore_membership_def set_member_role_def delete_memberships_def)

lemma entries_in_forgets: "entries_in G w \<Longrightarrow> (\<And>k. c k = None \<or> c k = aw_cache w k) \<Longrightarrow> entries_in G (w\<lparr>aw_cache := c\<rparr>)"
  unfolding entries_in_def by simp (metis option.distinct(1))

lemma entries_in_invalidate: "entries_in G w \<Longrightarrow> entries_in G (invalidate_user u w)"
  using invalidate_user_forgets [of u w] entries_in_forgets by metis

lemma entries_in_invalidate_role: "entries_in G w \<Longrightarrow> entries_in G (invalidate_role r w)"
proof -
  have "entries_in G w \<Longrightarrow> entries_in G (fold invalidate_user us w)" for us w
    by (induction us arbitrary: w) (simp_all add: entries_in_invalidate)
  then show "entries_in G w \<Longrightarrow> entries_in G (invalidate_role r w)" by (simp add: invalidate_role_def)
qed

lemma before_writes_entries: "before_writes G w0 w \<Longrightarrow> entries_in G w"
  by (simp add: before_writes_def)

locale lookups_first =
  fixes w0 :: acc_world and G :: "string \<times> string option \<Rightarrow> user_perms \<Rightarrow> bool"
  assumes reads: "read_from w0 u org p \<Longrightarrow> G (u, org) p"
begin

abbreviation early :: "acc_world \<Rightarrow> bool" where "early \<equiv> before_writes G w0"
abbreviation late :: "acc_world \<Rightarrow> bool" where "late \<equiv> entries_in G"

lemma lookup_early:
  assumes "early w" obtains c where "snd (user_permissions E u org w) = w\<lparr>aw_cache := c\<rparr>" "early (w\<lparr>aw_cache := c\<rparr>)"
proof -
  obtain c where c: "snd (user_permissions E u org w) = w\<lparr>aw_cache := c\<rparr>" using user_permissions_cache by blast
  obtain c0 where w: "w = w0\<lparr>aw_cache := c0\<rparr>" using assms by (auto simp: before_writes_def)
  have "G k p" if "c k = Some p" for k p
  proof -
    have old: "G k p" if "aw_cache w k = Some p" using assms that unfolding before_writes_def entries_in_def by blast
    have "aw_cache w k = Some p \<or> k = (u, org) \<and> fst (user_permissions E u org w) = Some p"
      using user_permissions_cached [of E u org w k p] c that by simp
    moreover have "read_from w u org p \<Longrightarrow> G (u, org) p" using reads by (simp add: w)
    ultimately show ?thesis using user_permissions_reads [of E u org w p] old by metis
  qed
  then have "early (w\<lparr>aw_cache := c\<rparr>)" by (auto simp: before_writes_def entries_in_def w)
  then show ?thesis using c that by blast
qed

lemma wp_has_permission:
  assumes "early w" "\<And>b c. early (w\<lparr>aw_cache := c\<rparr>) \<Longrightarrow> Q b (w\<lparr>aw_cache := c\<rparr>)"
  shows "wp (has_permission E u res act org) Q late w"
proof -
  obtain c where "snd (user_permissions E u org w) = w\<lparr>aw_cache := c\<rparr>" "early (w\<lparr>aw_cache := c\<rparr>)"
    using lookup_early [OF assms(1)] .
  then show ?thesis using assms(2)
    by (cases "user_permissions E u org w") (auto simp: wp_def has_permission_def split: option.split)
qed

lemma wp_is_super_admin:
  assumes "early w" "\<And>b c. early (w\<lparr>aw_cache := c\<rparr>) \<Longrightarrow> Q b (w\<lparr>aw_cache := c\<rparr>)"
  shows "wp (is_super_admin E u) Q late w"
proof -
  obtain c where "snd (user_permissions E u None w) = w\<lparr>aw_cache := c\<rparr>" "early (w\<lparr>aw_cache := c\<rparr>)"
    using lookup_early [OF assms(1)] .
  then show ?thesis using assms(2)
    by (cases "user_permissions E u None w") (auto simp: wp_def is_super_admin_def split: option.split)
qed

lemma wp_org_and_user:
  assumes "early w" "\<And>o' u c. early (w\<lparr>aw_cache := c\<rparr>) \<Longrightarrow> Q (o', u) (w\<lparr>aw_cache := c\<rparr>)"
  shows "wp (org_and_user E cx) Q late w"
proof -
  have q: "Q (o', u) w" for o' u using assms(2) [of "aw_cache w"] assms(1) by simp
  show ?thesis
    unfolding org_and_user_def get_org_id_def
    by (auto simp: wps q assms before_writes_entries [OF assms(1)] intro!: wp_is_super_admin split: option.split)
qed

lemma wp_require_permission:
  assumes "early w" "\<And>o' u c. early (w\<lparr>aw_cache := c\<rparr>) \<Longrightarrow> Q (o', u) (w\<lparr>aw_cache := c\<rparr>)"
  shows "wp (require_permission E cx res act) Q late w"
proof -
  have "Q (o', u) (w\<lparr>aw_cache := c, aw_cache := c'\<rparr>)" if "early (w\<lparr>aw_cache := c, aw_cache := c'\<rparr>)" for o' u c c'
    using assms(2) [of c'] that by simp
  then show ?thesis
    unfolding require_permission_def
    by (auto simp: wps before_writes_entries intro!: wp_org_and_user wp_has_permission assms(1))
qed

lemmas phases = wps before_writes_entries entries_in_invalidate entries_in_invalidate_role

lemma role_handlers_late:
  assumes "early w"
  shows "wp (create_role E cx q) (\<lambda>_. late) late w" "wp (update_role E cx i q) (\<lambda>_. late) late w"
    "wp (delete_role E cx i) (\<lambda>_. late) late w"
  using assms unfolding create_role_def update_role_def update_system_role_def update_custom_role_def
    replace_role_perms_def delete_role_def
  by (auto simp: phases Let_def intro!: wp_org_and_user split: option.split)

lemma write_steps_late:
  assumes "late w"
  shows "wp (take_up_user E org q r hash super x) (\<lambda>_. late) late w" "wp (insert_user E org q r hash super) (\<lambda>_. late) late w"
    "wp (update_guest E org x q) (\<lambda>_. late) late w"
  using assms unfolding take_up_user_def insert_user_def update_guest_def add_user_def
  by (auto simp: phases Let_def split: option.split)

lemma create_user_late:
  assumes "early w"
  shows "wp (create_user E cx req) (\<lambda>_. late) late w"
  unfolding create_user_def parse_place_def pick_role_def grant_super_def
  using assms
  by (auto simp: phases write_steps_late intro!: wp_require_permission wp_is_super_admin split: option.split)

lemma wp_edit_identity: "early w \<Longrightarrow> (\<And>y. Q y w) \<Longrightarrow> wp (edit_identity E x q) Q late w"
  unfolding edit_identity_def by (simp add: phases Let_def split: option.split)

lemma wp_edit_role: "early w \<Longrightarrow> (\<And>y. Q y w) \<Longrightarrow> wp (edit_role E actor org x q) Q late w"
  unfolding edit_role_def by (simp add: phases split: option.split)

lemma wp_edit_state:
  assumes "early w" "\<And>y c. early (w\<lparr>aw_cache := c\<rparr>) \<Longrightarrow> Q y (w\<lparr>aw_cache := c\<rparr>)"
  shows "wp (edit_state E actor org x q) Q late w"
proof -
  have "Q y w" for y using assms(2) [of "aw_cache w"] assms(1) by simp
  then show ?thesis
    unfolding edit_state_def parse_place_def
    by (auto simp: phases Let_def assms before_writes_entries [OF assms(1)] intro!: wp_has_permission)
qed

lemma wp_edit_super:
  assumes "early w" "\<And>y c. early (w\<lparr>aw_cache := c\<rparr>) \<Longrightarrow> Q y (w\<lparr>aw_cache := c\<rparr>)"
  shows "wp (edit_super E actor x q) Q late w"
proof -
  have "Q x w" using assms(2) [of "aw_cache w"] assms(1) by simp
  then show ?thesis
    unfolding edit_super_def by (auto simp: phases assms intro!: wp_is_super_admin split: option.split)
qed

lemma update_native_late:
  assumes "early w"
  shows "wp (update_native E actor org x q) (\<lambda>_. late) late w"
  unfolding update_native_def
  apply (simp only: wp_andthen, rule wp_edit_identity [OF assms])
  apply (simp only: wp_andthen, rule wp_edit_role [OF assms])
  apply (simp only: wp_andthen, rule wp_edit_state [OF assms])
  apply (simp only: wp_andthen, rule wp_edit_super, assumption)
  apply (auto simp: save_user_def phases)
  done

lemma user_handlers_late:
  assumes "early w"
  shows "wp (update_user E cx i req) (\<lambda>_. late) late w" "wp (delete_user E cx i) (\<lambda>_. late) late w"
    "wp (change_password E cx p) (\<lambda>_. late) late w" "wp (update_settings E cx z) (\<lambda>_. late) late w"
  using assms unfolding update_user_def delete_user_def change_password_def update_settings_def save_user_def
  by (auto simp: phases Let_def update_native_late write_steps_late intro!: wp_org_and_user wp_has_permission split: option.split)

lemma member_handlers_late:
  assumes "early w"
  shows "wp (add_member E cx req) (\<lambda>_. late) late w" "wp (remove_member E cx i) (\<lambda>_. late) late w"
    "wp (update_member_role E cx i mr) (\<lambda>_. late) late w" "wp (create_organization E cx name) (\<lambda>_. late) late w"
  using assms unfolding add_member_def remove_member_def update_member_role_def create_organization_def
    find_target_def member_role_def
  by (auto simp: phases Let_def intro!: wp_require_permission split: option.split)

lemma key_handlers_late:
  assumes "early w"
  shows "wp (create_api_key E cx k) (\<lambda>_. late) late w" "wp (update_api_key E cx i b) (\<lambda>_. late) late w"
    "wp (delete_api_key E cx i) (\<lambda>_. late) late w"
  using assms unfolding create_api_key_def update_api_key_def delete_api_key_def
  by (auto simp: phases Let_def intro!: wp_require_permission split: option.split)

lemma run_acc_late: "early w \<Longrightarrow> late (run_acc E cx x w)"
  by (cases x)
    (auto intro!: wp_snd [of _ late] role_handlers_late create_user_late user_handlers_late member_handlers_late
      key_handlers_late entries_in_forgets dest: before_writes_entries)

end

interpretation lookups: lookups_first w "\<lambda>k p. aw_cache w k = Some p \<or> read_from w (fst k) (snd k) p" for w
  by unfold_locales simp

lemma run_acc_entries:
  assumes "aw_cache (run_acc E cx x w) (u, org) = Some p"
  shows "aw_cache w (u, org) = Some p \<or> read_from w u org p"
proof -
  have "before_writes (\<lambda>k p. aw_cache w k = Some p \<or> read_from w (fst k) (snd k) p) w w"
    unfolding before_writes_def entries_in_def by (auto intro: exI [of _ "aw_cache w"])
  from lookups.run_acc_late [OF this, of E cx x] show ?thesis using assms by (fastforce simp: entries_in_def)
qed

text \<open>The worlds a run goes through: before each request, and at the end.\<close>

fun run_worlds :: "(acc_env \<times> req_ctx option \<times> acc_op) list \<Rightarrow> acc_world \<Rightarrow> acc_world list" where
  "run_worlds [] w = [w]"
| "run_worlds ((E, cx, x) # ops) w = w # run_worlds ops (run_acc E cx x w)"

lemma run_worlds_ends: "w \<in> set (run_worlds ops w)" "run_accs ops w \<in> set (run_worlds ops w)"
  by (induction ops w rule: run_worlds.induct) simp_all

lemma run_worlds_ok: "tenant_ok w \<Longrightarrow> v \<in> set (run_worlds ops w) \<Longrightarrow> tenant_ok v"
  by (induction ops w rule: run_worlds.induct) (auto simp: tenants.run_acc_ok)

lemma run_entries:
  "aw_cache (run_accs ops w) (u, org) = Some p \<Longrightarrow>
     aw_cache w (u, org) = Some p \<or> (\<exists>v \<in> set (run_worlds ops w). read_from v u org p)"
proof (induction ops w rule: run_worlds.induct)
  case (2 E cx x ops w)
  then show ?case using run_acc_entries [of E cx x w u org p] by auto
qed simp

lemma held_role_of_org:
  assumes "tenant_ok v" "distinct (map rl_id (aw_roles v))" "x \<in> set (aw_users v)"
    and "r \<in> set (aw_roles v)" "holds_role v x (Some org) (rl_id r)"
  shows "rl_org r = org"
proof -
  have "role_in v (rl_id r) org" using assms(1,3,5) by (auto simp: holds_role_def tenant_ok_def)
  then obtain r' where "r' \<in> set (aw_roles v)" "rl_id r' = rl_id r" "rl_org r' = org" by (auto simp: role_in_def)
  then show ?thesis using assms(2,4) by (metis distinct_map inj_onD)
qed

text \<open>C37 (safety). After any requests of any callers, with the database failing wherever it likes: when a
  permission check for an organisation answers yes, there was a moment of the run, the check's own or an
  earlier one whose answer is still cached, at which the tables said so. The user's row was live, and
  either it had the super admin flag, or a live role of that very organisation had the permission and the user
  held it, through a live membership of the organisation or as the role of the user row in the user's own
  organisation. No role of another tenant, nor an entry of the cache, opens a second tenant. At the start the roles
  users and members have belong to their organisations (\<open>tenant_ok\<close>) and the cache holds only what the
  tables say then, as an empty one does; the ids of roles are a primary key, also with the fresh ones.\<close>

theorem permissions_stay_in_their_tenant:
  assumes "tenant_ok w" "\<forall>v o' p. aw_cache w (v, o') = Some p \<longrightarrow> read_from w v o' p"
    and "list_all (\<lambda>v. distinct (map rl_id (aw_roles v))) (run_worlds ops w)"
    and "fst (has_permission E u res act (Some org) (run_accs ops w)) = Inr True"
  shows "\<exists>v \<in> set (run_worlds ops w). \<exists>x \<in> set (aw_users v). ur_id x = u \<and> \<not> ur_deleted x
    \<and> (ur_super x
       \<or> (\<exists>r \<in> set (aw_roles v). rl_org r = org \<and> \<not> rl_deleted r \<and> perm_key (res, act) \<in> perm_key ` set (rl_perms r)
           \<and> ((\<exists>m \<in> set (aw_members v). mb_user m = u \<and> mb_org m = org \<and> \<not> mb_deleted m \<and> mb_role m = Some (rl_id r))
              \<or> org = ur_org x \<and> ur_role x = Some (rl_id r))))"
proof -
  obtain p where p: "fst (user_permissions E u (Some org) (run_accs ops w)) = Some p" "up_super p \<or> perm_key (res, act) \<in> set (up_keys p)"
    using assms(4) by (auto simp: has_permission_def split: prod.splits option.splits)
  obtain v where v: "v \<in> set (run_worlds ops w)" "read_from v u (Some org) p"
    using user_permissions_reads [OF p(1)] run_entries [of ops w u "Some org" p] assms(2)
      run_worlds_ends [where ops = ops and w = w] by blast
  then obtain x where x: "x \<in> set (aw_users v)" "ur_id x = u" "\<not> ur_deleted x" "up_super p = ur_super x"
    "up_super p \<and> up_keys p = [] \<or> (\<exists>r \<in> set (aw_roles v). \<not> rl_deleted r \<and> up_keys p = map perm_key (rl_perms r)
       \<and> holds_role v x (Some org) (rl_id r))"
    unfolding read_from_def by blast
  show ?thesis
  proof (cases "ur_super x")
    case False
    then obtain r where r: "r \<in> set (aw_roles v)" "\<not> rl_deleted r" "up_keys p = map perm_key (rl_perms r)"
      "holds_role v x (Some org) (rl_id r)"
      using x(4,5) by auto
    have "distinct (map rl_id (aw_roles v))" using assms(3) v(1) by (simp add: list_all_iff)
    then have "rl_org r = org" using held_role_of_org run_worlds_ok [OF assms(1) v(1)] x(1) r(1,4) by blast
    moreover have "perm_key (res, act) \<in> perm_key ` set (rl_perms r)" using p(2) False x(4) r(3) by auto
    ultimately show ?thesis using v(1) x(1-3) r by (auto simp: holds_role_def)
  qed (use v x in blast)
qed

text \<open>C38 (safety). Whatever requests come in, and however the cache lags behind: while none of the users
  who are super admins, or are cached as such, acts, nobody becomes one. No handler takes the flag from
  the body of a request on anybody else's word.\<close>

theorem super_admins_are_made_by_super_admins:
  assumes "supers_within S w"
    and "list_all (\<lambda>(E, cx, x). case cx of None \<Rightarrow> True | Some c \<Rightarrow> cx_user c \<notin> S) ops"
    and "x \<in> set (aw_users (run_accs ops w))" "ur_super x"
  shows "ur_id x \<in> S"
proof -
  have "list_all (\<lambda>(E, cx, x). \<forall>c. cx = Some c \<longrightarrow> cx_user c \<in> - S) ops"
    using assms(2) by (auto simp: list_all_iff split: option.splits)
  then have "supers_within S (run_accs ops w)" by (rule supers.run_accs_ok) (rule assms(1))
  then show ?thesis using assms(3,4) by (auto simp: supers_within_def)
qed

section \<open>An organisation with its hard cases\<close>

definition plain_services :: acc_env where
  "plain_services =
    \<lparr>a_ok = (\<lambda>_. True), a_new_id = (\<lambda>k. ''new'' @ show_nat k), a_digest = (\<lambda>s. Some (''#'' @ s)),
     a_verify = (\<lambda>h s. h = ''#'' @ s), a_mail = (\<lambda>_. True), a_random = Some ''00112233445566778899aabbccddeeff'',
     a_units = [], a_departments = []\<rparr>"

definition sample_user :: "string \<Rightarrow> string option \<Rightarrow> bool \<Rightarrow> user_row" where
  "sample_user i r super =
    \<lparr>ur_id = i, ur_org = ''o'', ur_email = i @ ''@x'', ur_hash = ''#old'', ur_name = i, ur_role = r, ur_settings = [],
     ur_active = True, ur_super = super, ur_seller = None, ur_unit = None, ur_dept = None, ur_sso = '''',
     ur_sso_id = '''', ur_deleted = False\<rparr>"

definition sample_role :: "string \<Rightarrow> string \<Rightarrow> bool \<Rightarrow> (string \<times> string) list \<Rightarrow> role_row" where
  "sample_role i name system ps =
    \<lparr>rl_id = i, rl_org = ''o'', rl_name = name, rl_desc = '''', rl_system = system, rl_default = False,
     rl_perms = ps, rl_deleted = False\<rparr>"

definition sample_member :: "string \<Rightarrow> string \<Rightarrow> string \<Rightarrow> member_row" where
  "sample_member u org r = \<lparr>mb_user = u, mb_org = org, mb_role = Some r, mb_default = True, mb_deleted = False\<rparr>"

text \<open>Ana is the admin, Rui works with a role that may do nothing, Eva is a super admin.\<close>

definition sample_org :: acc_world where
  "sample_org =
    \<lparr>aw_users = [sample_user ''ana'' (Some ''adm'') False, sample_user ''rui'' (Some ''low'') False,
                 sample_user ''eva'' (Some ''adm'') True],
     aw_roles = [sample_role ''adm'' ''admin'' True
                   [(''users'', ''write''), (''users'', ''delete''), (''organizations'', ''assign'')],
                 sample_role ''low'' ''trainee'' False []],
     aw_members = [sample_member ''ana'' ''o'' ''adm'', sample_member ''rui'' ''o'' ''low'', sample_member ''eva'' ''o'' ''adm''],
     aw_orgs = [''o''], aw_keys = [],
     aw_catalog = [(''users'', ''write''), (''users'', ''delete''), (''organizations'', ''assign'')],
     aw_cache = (\<lambda>_. None)\<rparr>"

definition caller :: "string \<Rightarrow> req_ctx option" where
  "caller u = Some \<lparr>cx_user = u, cx_org = ''o'', cx_super = False, cx_header = None\<rparr>"

definition plain_edit :: user_request where
  "plain_edit =
    \<lparr>uq_email = '''', uq_password = '''', uq_name = '''', uq_role = None, uq_active = None, uq_seller = None,
     uq_unit = PlaceAbsent, uq_dept = PlaceAbsent, uq_super = None\<rparr>"

definition may :: "string \<Rightarrow> string \<Rightarrow> string \<Rightarrow> acc_world \<Rightarrow> bool" where
  "may u res act w \<longleftrightarrow> fst (has_permission plain_services u res act (Some ''o'') w) = Inr True"

text \<open>
  The role handlers check no permission: Rui may not touch a user, writes himself the permission into
  his own role, and may.
\<close>

lemma anybody_edits_their_own_role:
  "\<not> may ''rui'' ''users'' ''write'' sample_org"
  "may ''rui'' ''users'' ''write'' (run_acc plain_services (caller ''rui'')
     (OpUpdateRole (Some ''low'') (Some \<lparr>rq_name = '''', rq_desc = '''', rq_default = False, rq_keys = [''users:write'']\<rparr>))
     sample_org)"
  by code_simp+

text \<open>
  A native member who is removed from the organisation keeps every permission: without a membership the
  check falls back to the role of the user row.
\<close>

lemma removed_member_keeps_permissions:
  "map mb_deleted (aw_members (run_acc plain_services (caller ''ana'') (OpRemoveMember (Some ''eva'')) sample_org))
     = [False, False, True]"
  "may ''rui'' ''users'' ''write''
     (run_accs [(plain_services, caller ''ana'', OpMemberRole (Some ''rui'') (Some (Some ''adm''))),
                (plain_services, caller ''ana'', OpUpdateUser (Some ''rui'') (Some (plain_edit\<lparr>uq_role := Some ''adm''\<rparr>))),
                (plain_services, caller ''ana'', OpRemoveMember (Some ''rui''))] sample_org)"
  by code_simp+

text \<open>
  The role of a membership is changed without the one of the user row; when an admin later sets that one
  to the value it already has, nothing is written: the promoted member cannot be demoted that way.
\<close>

lemma demotion_does_not_reach_the_membership:
  "may ''rui'' ''users'' ''write''
     (run_accs [(plain_services, caller ''ana'', OpMemberRole (Some ''rui'') (Some (Some ''adm''))),
                (plain_services, caller ''ana'', OpUpdateUser (Some ''rui'') (Some (plain_edit\<lparr>uq_role := Some ''low''\<rparr>)))]
      sample_org)"
  by code_simp

text \<open>A super admin who loses the flag keeps the cached one.\<close>

lemma demoted_super_admin_stays_cached:
  "let w = run_accs
      [(plain_services, caller ''eva'', OpUpdateUser (Some ''ana'') (Some (plain_edit\<lparr>uq_super := Some True\<rparr>))),
       (plain_services, caller ''ana'', OpUpdateUser (Some ''eva'') (Some (plain_edit\<lparr>uq_super := Some False\<rparr>)))] sample_org
   in map ur_super (aw_users w) = [True, False, False]
      \<and> fst (is_super_admin plain_services ''eva'' w) = Inr True"
  by code_simp

text \<open>A deleted user keeps the cached permissions as well.\<close>

lemma deleted_user_keeps_permissions:
  "let w = run_accs
      [(plain_services, caller ''eva'', OpDeleteUser (Some ''eva'')),
       (plain_services, caller ''ana'', OpDeleteUser (Some ''eva''))] sample_org
   in map ur_deleted (aw_users w) = [False, False, True] \<and> may ''eva'' ''users'' ''write'' w"
  by code_simp

text \<open>Deleting a role looks at the users alone: members who hold it by membership are left without any.\<close>

lemma deleted_role_strands_its_members:
  "let w = run_accs
      [(plain_services, caller ''ana'', OpMemberRole (Some ''eva'') (Some (Some ''low''))),
       (plain_services, caller ''ana'', OpUpdateUser (Some ''rui'') (Some (plain_edit\<lparr>uq_role := Some ''adm''\<rparr>))),
       (plain_services, caller ''ana'', OpDeleteRole (Some ''low''))] sample_org
   in map rl_deleted (aw_roles w) = [False, True]
      \<and> fst (user_permissions plain_services ''eva'' (Some ''o'') w) = None"
  by code_simp

text \<open>Whoever may write users sets the password of a super admin of the organisation.\<close>

lemma admin_takes_over_a_super_admin:
  "map ur_hash (aw_users (run_acc plain_services (caller ''ana'')
     (OpUpdateUser (Some ''eva'') (Some (plain_edit\<lparr>uq_password := ''mine''\<rparr>))) sample_org)) = [''#old'', ''#old'', ''#mine'']"
  by code_simp

text \<open>A disabled user with a session enables the account again.\<close>

lemma disabled_user_enables_the_account:
  "let w = run_acc plain_services (caller ''ana'')
             (OpUpdateUser (Some ''rui'') (Some (plain_edit\<lparr>uq_active := Some False\<rparr>))) sample_org
   in map ur_active (aw_users w) = [True, False, True]
      \<and> map ur_active (aw_users (run_acc plain_services (caller ''rui'')
          (OpUpdateUser (Some ''rui'') (Some (plain_edit\<lparr>uq_active := Some True\<rparr>))) w)) = [True, True, True]"
  by code_simp

lemma sample_org_ok: "tenant_ok sample_org" "supers_within {''eva''} sample_org"
  by (simp_all add: tenant_ok_def supers_within_def role_in_def sample_org_def sample_user_def sample_role_def
      sample_member_def)

text \<open>Ana promotes Rui; the answer for Ana is read from the cache the request has filled.\<close>

lemma permissions_stay_in_their_tenant_witness:
  "let ops = [(plain_services, caller ''ana'', OpMemberRole (Some ''rui'') (Some (Some ''adm'')))] in
   \<exists>v \<in> set (run_worlds ops sample_org). \<exists>x \<in> set (aw_users v). ur_id x = ''ana'' \<and> \<not> ur_deleted x
    \<and> (ur_super x
       \<or> (\<exists>r \<in> set (aw_roles v). rl_org r = ''o'' \<and> \<not> rl_deleted r \<and> perm_key (''users'', ''write'') \<in> perm_key ` set (rl_perms r)
           \<and> ((\<exists>m \<in> set (aw_members v). mb_user m = ''ana'' \<and> mb_org m = ''o'' \<and> \<not> mb_deleted m \<and> mb_role m = Some (rl_id r))
              \<or> ''o'' = ur_org x \<and> ur_role x = Some (rl_id r))))"
  unfolding Let_def
proof (rule permissions_stay_in_their_tenant [OF sample_org_ok(1)])
  let ?ops = "[(plain_services, caller ''ana'', OpMemberRole (Some ''rui'') (Some (Some ''adm'')))]"
  show "\<forall>v o' p. aw_cache sample_org (v, o') = Some p \<longrightarrow> read_from sample_org v o' p"
    by (simp add: sample_org_def)
  show "list_all (\<lambda>v. distinct (map rl_id (aw_roles v))) (run_worlds ?ops sample_org)"
    by code_simp
  show "fst (has_permission plain_services ''ana'' ''users'' ''write'' (Some ''o'') (run_accs ?ops sample_org)) = Inr True"
    by code_simp
qed

lemma super_admins_are_made_by_super_admins_witness: "ur_id (sample_user ''eva'' (Some ''adm'') True) \<in> {''eva''}"
proof (rule super_admins_are_made_by_super_admins [OF sample_org_ok(2),
      of "[(plain_services, caller ''rui'', OpDeleteUser (Some ''ana''))]"])
  show "list_all (\<lambda>(E, cx, x). case cx of None \<Rightarrow> True | Some c \<Rightarrow> cx_user c \<notin> {''eva''})
      [(plain_services, caller ''rui'', OpDeleteUser (Some ''ana''))]"
    by (simp add: caller_def)
  show "sample_user ''eva'' (Some ''adm'') True
      \<in> set (aw_users (run_accs [(plain_services, caller ''rui'', OpDeleteUser (Some ''ana''))] sample_org))"
    by code_simp
qed (simp add: sample_user_def)

end
