(* ===== verification/Auth_Sessions.thy ===== *)
theory Auth_Sessions
  imports Access_Control
begin

text \<open>
  Who a request is: the middleware (\<open>middleware/middleware.go\<close>, \<open>csrf.go\<close>), the sessions (\<open>handlers/auth.go\<close>)
  and single sign-on (\<open>handlers/sso.go\<close>). The library that signs and parses tokens is a parameter.
\<close>

section \<open>Tokens and state\<close>

record token_claims =
  tk_user :: string
  tk_org :: string
  tk_email :: string
  tk_role :: "string option"
  tk_super :: bool
  tk_id :: string
  tk_subject :: string
  tk_expires :: int

record sso_row =
  so_org :: string
  so_provider :: string
  so_client :: string
  so_secret :: string
  so_enabled :: bool
  so_auto :: bool
  so_role :: string
  so_domains :: string
  so_auth_url :: string
  so_token_url :: string
  so_info_url :: string

record sso_state =
  st_org :: string
  st_provider :: string
  st_expires :: int

record sso_identity =
  si_id :: string
  si_email :: string
  si_name :: string

text \<open>
  \<open>sw_jtis\<close> are the refresh tokens Redis knows, \<open>sw_states\<close> the single sign-ons under way. Three logs
  say what happened: the claims that were signed, the ids given to refresh tokens, the ids redeemed.
\<close>

record auth_world =
  sw_acc :: acc_world
  sw_jtis :: "string list"
  sw_states :: "(string \<times> sso_state) list"
  sw_sso :: "sso_row list"
  sw_issued :: "token_claims list"
  sw_given :: "string list"
  sw_redeemed :: "string list"

text \<open>
  \<open>s_claims\<close> reads the claims of a token, \<open>s_signed\<close> checks its signature; \<open>s_oauth\<close> is what the
  provider of a configuration answers for a code.
\<close>

record auth_env =
  s_acc :: acc_env
  s_now :: int
  s_jti :: string
  s_access_mins :: int
  s_refresh_days :: int
  s_sign :: "token_claims \<Rightarrow> string option"
  s_claims :: "string \<Rightarrow> token_claims option"
  s_signed :: "string \<Rightarrow> bool"
  s_nonce :: string
  s_encrypt :: "string \<Rightarrow> string option"
  s_oauth :: "sso_row \<Rightarrow> string \<Rightarrow> sso_identity option"

type_synonym 'a answer = "(acc_error + 'a) \<times> auth_world"

definition s_ok :: "auth_env \<Rightarrow> string \<Rightarrow> bool" where
  "s_ok E = a_ok (s_acc E)"

text \<open>\<open>jwt.ParseWithClaims\<close>: signature and expiry.\<close>

definition parse_token :: "auth_env \<Rightarrow> string \<Rightarrow> token_claims option" where
  "parse_token E s =
     (case s_claims E s of
        None \<Rightarrow> None | Some c \<Rightarrow> if s_signed E s \<and> s_now E < tk_expires c then Some c else None)"

definition access_claims :: "auth_env \<Rightarrow> user_row \<Rightarrow> token_claims" where
  "access_claims E x =
     \<lparr>tk_user = ur_id x, tk_org = ur_org x, tk_email = ur_email x, tk_role = ur_role x, tk_super = ur_super x,
      tk_id = '''', tk_subject = '''', tk_expires = s_now E + s_access_mins E * 60\<rparr>"

definition refresh_claims :: "auth_env \<Rightarrow> user_row \<Rightarrow> token_claims" where
  "refresh_claims E x =
     \<lparr>tk_user = ur_id x, tk_org = ur_org x, tk_email = ur_email x, tk_role = ur_role x, tk_super = ur_super x,
      tk_id = s_jti E, tk_subject = '''', tk_expires = s_now E + s_refresh_days E * 86400\<rparr>"

text \<open>
  Both tokens; a failure to store the id of the refresh token is logged and nothing else. \<open>sw_issued\<close> are the
  claims of tokens that are given out: when the refresh token cannot be signed, the access token signed
  just before is dropped with the error and not among them.
\<close>

definition issue_tokens :: "auth_env \<Rightarrow> user_row \<Rightarrow> auth_world \<Rightarrow> (string \<times> string) answer" where
  "issue_tokens E x w =
     (case s_sign E (access_claims E x) of
        None \<Rightarrow> (Inl (AccErr 500 ''Failed to generate token''), w)
      | Some a \<Rightarrow> (case s_sign E (refresh_claims E x) of
          None \<Rightarrow> (Inl (AccErr 500 ''Failed to generate token''), w)
        | Some r \<Rightarrow>
            (Inr (a, r),
             w\<lparr>sw_jtis := (if s_ok E ''redis set'' then sw_jtis w @ [s_jti E] else sw_jtis w),
               sw_issued := sw_issued w @ [access_claims E x, refresh_claims E x],
               sw_given := sw_given w @ [s_jti E]\<rparr>)))"

definition user_by_email :: "auth_env \<Rightarrow> string \<Rightarrow> auth_world \<Rightarrow> user_row option" where
  "user_by_email E email w =
     (if s_ok E ''find email''
      then find (\<lambda>x. ur_email x = email \<and> \<not> ur_deleted x) (aw_users (sw_acc w)) else None)"

definition refused :: "nat \<Rightarrow> string \<Rightarrow> auth_world \<Rightarrow> 'a answer" where
  "refused n m w = (Inl (AccErr n m), w)"

section \<open>Sessions\<close>

definition login :: "auth_env \<Rightarrow> (string \<times> string) option \<Rightarrow> auth_world \<Rightarrow> (string \<times> string) answer" where
  "login E req w =
     (case req of
        None \<Rightarrow> refused 400 ''Invalid request body'' w
      | Some (email, password) \<Rightarrow> (case user_by_email E email w of
          None \<Rightarrow> refused 401 ''Invalid credentials'' w
        | Some x \<Rightarrow>
            if \<not> ur_active x then refused 401 ''Account is disabled'' w
            else if \<not> a_verify (s_acc E) (ur_hash x) password then refused 401 ''Invalid credentials'' w
            else issue_tokens E x w))"

record register_request =
  gq_email :: string
  gq_password :: string
  gq_name :: string
  gq_org :: string

definition first_role :: "auth_env \<Rightarrow> string \<Rightarrow> acc_world \<Rightarrow> role_row option" where
  "first_role E org w =
     (case default_role (s_acc E) org w of
        Some r \<Rightarrow> Some r
      | None \<Rightarrow>
          if s_ok E ''agent role''
          then find (\<lambda>r. rl_org r = org \<and> rl_name r = ''agent'' \<and> rl_system r \<and> \<not> rl_deleted r) (aw_roles w)
          else None)"

definition join_row :: "user_row \<Rightarrow> string \<Rightarrow> string \<Rightarrow> bool \<Rightarrow> member_row" where
  "join_row x org r home =
     \<lparr>mb_user = ur_id x, mb_org = org, mb_role = Some r, mb_default = home, mb_deleted = False\<rparr>"

definition add_row :: "member_row \<Rightarrow> auth_world \<Rightarrow> auth_world" where
  "add_row m w = w\<lparr>sw_acc := (sw_acc w)\<lparr>aw_members := aw_members (sw_acc w) @ [m]\<rparr>\<rparr>"

text \<open>A known address: the password opens the membership, and the tokens name the new organisation.\<close>

definition join_organization ::
    "auth_env \<Rightarrow> register_request \<Rightarrow> role_row \<Rightarrow> user_row \<Rightarrow> auth_world \<Rightarrow> (string \<times> string) answer" where
  "join_organization E q r x w =
     (if \<not> a_verify (s_acc E) (ur_hash x) (gq_password q) then
        refused 409 ''An account with this email already exists. Please sign in and ask your organization admin to add you.'' w
      else if \<not> ur_active x then refused 401 ''Account is disabled'' w
      else if s_ok E ''count membership'' \<and> live_member (ur_id x) (gq_org q) (sw_acc w) then
        refused 409 ''You are already a member of this organization'' w
      else if \<not> s_ok E ''create membership'' \<or> pair_taken (ur_id x) (gq_org q) (sw_acc w) then
        refused 500 ''Failed to join organization'' w
      else issue_tokens E (x\<lparr>ur_org := gq_org q, ur_role := Some (rl_id r)\<rparr>)
             (add_row (join_row x (gq_org q) (rl_id r) False) w))"

definition new_account :: "auth_env \<Rightarrow> register_request \<Rightarrow> role_row \<Rightarrow> string \<Rightarrow> user_row" where
  "new_account E q r hash =
     \<lparr>ur_id = a_new_id (s_acc E) 0, ur_org = gq_org q, ur_email = gq_email q, ur_hash = hash, ur_name = gq_name q,
      ur_role = Some (rl_id r), ur_settings = [], ur_active = True, ur_super = False, ur_seller = None,
      ur_unit = None, ur_dept = None, ur_sso = '''', ur_sso_id = '''', ur_deleted = False\<rparr>"

definition add_account :: "user_row \<Rightarrow> auth_world \<Rightarrow> auth_world" where
  "add_account x w = w\<lparr>sw_acc := (sw_acc w)\<lparr>aw_users := aw_users (sw_acc w) @ [x]\<rparr>\<rparr>"

definition register :: "auth_env \<Rightarrow> register_request option \<Rightarrow> auth_world \<Rightarrow> (string \<times> string) answer" where
  "register E req w =
     (case req of
        None \<Rightarrow> refused 400 ''Invalid request body'' w
      | Some q \<Rightarrow>
          if gq_org q = '''' then refused 400 ''organization_id is required'' w
          else if \<not> (s_ok E ''organization'' \<and> gq_org q \<in> set (aw_orgs (sw_acc w))) then
            refused 404 ''Organization not found'' w
          else (case first_role E (gq_org q) (sw_acc w) of
            None \<Rightarrow> refused 500 ''Failed to find default role'' w
          | Some r \<Rightarrow> (case user_by_email E (gq_email q) w of
              Some x \<Rightarrow> join_organization E q r x w
            | None \<Rightarrow> (case a_digest (s_acc E) (gq_password q) of
                None \<Rightarrow> refused 500 ''Failed to create account'' w
              | Some h \<Rightarrow>
                  let x = new_account E q r h in
                  if \<not> s_ok E ''create account'' \<or> gq_email q \<in> set (map ur_email (aw_users (sw_acc w)))
                     \<or> pair_taken (ur_id x) (gq_org q) (sw_acc w)
                  then refused 500 ''Failed to create account'' w
                  else issue_tokens E x
                         (add_row (join_row x (gq_org q) (rl_id r) True) (add_account x w))))))"

text \<open>The organisation a session was switched into is carried over, if the user still may be there.\<close>

definition carry_org :: "auth_env \<Rightarrow> token_claims \<Rightarrow> user_row \<Rightarrow> acc_world \<Rightarrow> user_row" where
  "carry_org E c x w =
     (if tk_org c = '''' \<or> tk_org c = ur_org x then x
      else if ur_super x then
        (if s_ok E ''organization'' \<and> tk_org c \<in> set (aw_orgs w) then x\<lparr>ur_org := tk_org c\<rparr> else x)
      else (case membership (s_acc E) (ur_id x) (tk_org c) w of
          None \<Rightarrow> x | Some m \<Rightarrow> x\<lparr>ur_org := tk_org c, ur_role := mb_role m\<rparr>))"

text \<open>A token without an id is not looked up in Redis at all.\<close>

definition refresh_token :: "auth_env \<Rightarrow> string \<Rightarrow> auth_world \<Rightarrow> (string \<times> string) answer" where
  "refresh_token E s w =
     (if s = '''' then refused 401 ''Missing refresh token'' w
      else case parse_token E s of
        None \<Rightarrow> refused 401 ''Invalid refresh token'' w
      | Some c \<Rightarrow>
          if tk_id c \<noteq> '''' \<and> \<not> (s_ok E ''redis del'' \<and> tk_id c \<in> set (sw_jtis w)) then
            refused 401 ''Refresh token has been revoked'' w
          else
            let w1 = w\<lparr>sw_jtis := (if tk_id c = '''' then sw_jtis w else filter (\<lambda>j. j \<noteq> tk_id c) (sw_jtis w)),
                       sw_redeemed := sw_redeemed w @ [tk_id c]\<rparr>
            in (case live_user (s_acc E) (tk_user c) (sw_acc w) of
                  None \<Rightarrow> refused 401 ''User not found'' w1
                | Some x \<Rightarrow>
                    if \<not> ur_active x then refused 401 ''Account is disabled'' w1
                    else issue_tokens E (carry_org E c x (sw_acc w)) w1))"

text \<open>The token is not validated here: any readable one has its id revoked.\<close>

definition logout :: "auth_env \<Rightarrow> string \<Rightarrow> auth_world \<Rightarrow> auth_world" where
  "logout E s w =
     (case (if s = '''' then None else s_claims E s) of
        None \<Rightarrow> w
      | Some c \<Rightarrow>
          if tk_id c \<noteq> '''' \<and> s_ok E ''redis del''
          then w\<lparr>sw_jtis := filter (\<lambda>j. j \<noteq> tk_id c) (sw_jtis w)\<rparr> else w)"

definition switch_org :: "auth_env \<Rightarrow> req_ctx option \<Rightarrow> string option \<Rightarrow> auth_world \<Rightarrow> (string \<times> string) answer" where
  "switch_org E cx req w =
     (case cx of
        None \<Rightarrow> refused 401 ''Unauthorized'' w
      | Some c \<Rightarrow> (case req of
          None \<Rightarrow> refused 400 ''Invalid request body'' w
        | Some org \<Rightarrow>
            if org = '''' then refused 400 ''organization_id is required'' w
            else if \<not> (s_ok E ''organization'' \<and> org \<in> set (aw_orgs (sw_acc w))) then
              refused 404 ''Organization not found'' w
            else (case live_user (s_acc E) (cx_user c) (sw_acc w) of
                None \<Rightarrow> refused 404 ''User not found'' w
              | Some x \<Rightarrow>
                  if ur_super x then issue_tokens E (x\<lparr>ur_org := org\<rparr>) w
                  else (case membership (s_acc E) (ur_id x) org (sw_acc w) of
                      None \<Rightarrow> refused 403 ''You are not a member of this organization'' w
                    | Some m \<Rightarrow> issue_tokens E (x\<lparr>ur_org := org, ur_role := mb_role m\<rparr>) w))))"

definition ws_claims :: "auth_env \<Rightarrow> string \<Rightarrow> string \<Rightarrow> token_claims" where
  "ws_claims E u org =
     \<lparr>tk_user = u, tk_org = org, tk_email = '''', tk_role = None, tk_super = False, tk_id = '''', tk_subject = ''ws'',
      tk_expires = s_now E + 30\<rparr>"

definition ws_token :: "auth_env \<Rightarrow> req_ctx option \<Rightarrow> auth_world \<Rightarrow> string answer" where
  "ws_token E cx w =
     (case cx of
        None \<Rightarrow> refused 401 ''Unauthorized'' w
      | Some c \<Rightarrow> (case get_org_id (s_acc E) c (sw_acc w) of
          (Inl e, a) \<Rightarrow> (Inl e, w\<lparr>sw_acc := a\<rparr>)
        | (Inr org, a) \<Rightarrow> (case s_sign E (ws_claims E (cx_user c) org) of
            None \<Rightarrow> refused 500 ''Failed to generate token'' (w\<lparr>sw_acc := a\<rparr>)
          | Some s \<Rightarrow> (Inr s, w\<lparr>sw_acc := a, sw_issued := sw_issued w @ [ws_claims E (cx_user c) org]\<rparr>))))"

text \<open>The websocket takes any valid token, whatever it was made for.\<close>

definition validate_ws_token :: "auth_env \<Rightarrow> string \<Rightarrow> (string \<times> string) option" where
  "validate_ws_token E s = map_option (\<lambda>c. (tk_user c, tk_org c)) (parse_token E s)"

section \<open>The middleware\<close>

record req_headers =
  hd_api_key :: string
  hd_auth :: string
  hd_cookie :: string
  hd_org :: "string option"

fun check_keys :: "auth_env \<Rightarrow> string \<Rightarrow> string option \<Rightarrow> acc_world \<Rightarrow> api_key_row list \<Rightarrow> req_ctx option" where
  "check_keys E key hdr w [] = None"
| "check_keys E key hdr w (k # ks) =
     (if \<not> a_verify (s_acc E) (ak_hash k) key then check_keys E key hdr w ks
      else if (case ak_expires k of None \<Rightarrow> False | Some t \<Rightarrow> t < s_now E) then None
      else case find (\<lambda>x. ur_id x = ak_user k \<and> \<not> ur_deleted x) (aw_users w) of
        None \<Rightarrow> check_keys E key hdr w ks
      | Some x \<Rightarrow> Some \<lparr>cx_user = ak_user k, cx_org = ak_org k, cx_super = ur_super x, cx_header = hdr\<rparr>)"

text \<open>Keys made before the prefix grew are found by its first 8 characters.\<close>

definition validate_api_key :: "auth_env \<Rightarrow> string \<Rightarrow> string option \<Rightarrow> acc_world \<Rightarrow> req_ctx option" where
  "validate_api_key E key hdr w =
     (if length key \<noteq> 36 \<or> take 4 key \<noteq> ''whm_'' \<or> \<not> s_ok E ''find keys'' then None
      else check_keys E key hdr w
        (filter (\<lambda>k. ak_prefix k \<in> {take 16 (drop 4 key), take 8 (drop 4 key)} \<and> ak_active k \<and> \<not> ak_deleted k)
          (aw_keys w)))"

definition bearer :: "string \<Rightarrow> string option" where
  "bearer h = (case split_char CHR '' '' h of [b, s] \<Rightarrow> if b = ''Bearer'' then Some s else None | _ \<Rightarrow> None)"

definition auth_with_db :: "auth_env \<Rightarrow> req_headers \<Rightarrow> acc_world \<Rightarrow> req_ctx option" where
  "auth_with_db E h w =
     (if hd_api_key h \<noteq> '''' then validate_api_key E (hd_api_key h) (hd_org h) w
      else case (if hd_auth h \<noteq> '''' then bearer (hd_auth h) else Some (hd_cookie h)) of
        None \<Rightarrow> None
      | Some s \<Rightarrow>
          if s = '''' then None
          else map_option (\<lambda>c. \<lparr>cx_user = tk_user c, cx_org = tk_org c, cx_super = tk_super c, cx_header = hd_org h\<rparr>)
                 (parse_token E s))"

text \<open>A request that changes something and is authenticated by the cookie alone repeats the token of the page.\<close>

definition csrf_ok :: "string \<Rightarrow> req_headers \<Rightarrow> string \<Rightarrow> string \<Rightarrow> bool" where
  "csrf_ok verb h csrf_cookie csrf_header \<longleftrightarrow>
     verb \<notin> {''POST'', ''PUT'', ''DELETE'', ''PATCH''}
     \<or> hd_auth h \<noteq> '''' \<or> hd_api_key h \<noteq> '''' \<or> hd_cookie h = ''''
     \<or> csrf_cookie \<noteq> '''' \<and> csrf_header \<noteq> '''' \<and> csrf_cookie = csrf_header"

section \<open>Single sign-on\<close>

definition sso_providers :: "string list" where
  "sso_providers = [''google'', ''microsoft'', ''github'', ''facebook'', ''custom'']"

text \<open>The first enabled configuration of the kind of provider, of whatever organisation.\<close>

definition init_sso :: "auth_env \<Rightarrow> string \<Rightarrow> auth_world \<Rightarrow> string answer" where
  "init_sso E provider w =
     (if provider \<notin> set sso_providers then refused 400 ''Invalid SSO provider'' w
      else case (if s_ok E ''find sso'' then find (\<lambda>o'. so_provider o' = provider \<and> so_enabled o') (sw_sso w) else None) of
        None \<Rightarrow> refused 404 ''SSO provider not configured or disabled'' w
      | Some cfg \<Rightarrow>
          if \<not> s_ok E ''store state'' then refused 500 ''Failed to initiate SSO'' w
          else (Inr (s_nonce E),
                w\<lparr>sw_states := (s_nonce E, \<lparr>st_org = so_org cfg, st_provider = provider,
                     st_expires = s_now E + 300\<rparr>) # sw_states w\<rparr>))"

definition domain_allowed :: "string \<Rightarrow> string \<Rightarrow> string option" where
  "domain_allowed domains email =
     (if domains = '''' then None
      else case split_char CHR ''@'' email of
        [_, d] \<Rightarrow>
          if list_ex (\<lambda>x. to_lower (trim_space x) = to_lower (trim_space d)) (split_char CHR '','' domains) then None
          else Some ''Email domain not allowed for this organization''
      | _ \<Rightarrow> Some ''Invalid email from provider'')"

definition sso_account :: "auth_env \<Rightarrow> string \<Rightarrow> string \<Rightarrow> sso_identity \<Rightarrow> role_row \<Rightarrow> user_row" where
  "sso_account E org provider i r =
     \<lparr>ur_id = a_new_id (s_acc E) 0, ur_org = org, ur_email = si_email i, ur_hash = '''', ur_name = si_name i,
      ur_role = Some (rl_id r), ur_settings = [], ur_active = True, ur_super = False, ur_seller = None,
      ur_unit = None, ur_dept = None, ur_sso = provider, ur_sso_id = si_id i, ur_deleted = False\<rparr>"

definition role_by_name :: "auth_env \<Rightarrow> string \<Rightarrow> string \<Rightarrow> acc_world \<Rightarrow> role_row option" where
  "role_by_name E org name w =
     (if s_ok E ''role by name''
      then find (\<lambda>r. rl_org r = org \<and> rl_name r = name \<and> \<not> rl_deleted r) (aw_roles w) else None)"

definition sso_sign_up ::
    "auth_env \<Rightarrow> sso_row \<Rightarrow> string \<Rightarrow> sso_identity \<Rightarrow> auth_world \<Rightarrow> (string \<times> string) answer" where
  "sso_sign_up E cfg provider i w =
     (if \<not> so_auto cfg then refused 307 ''User not found. Contact your administrator.'' w
      else let name = (if so_role cfg = '''' then ''agent'' else so_role cfg) in
        case role_by_name E (so_org cfg) name (sw_acc w) of
          None \<Rightarrow> refused 307 ''Failed to create user account: role not found'' w
        | Some r \<Rightarrow>
            let x = sso_account E (so_org cfg) provider i r in
            if \<not> s_ok E ''create account'' \<or> si_email i \<in> set (map ur_email (aw_users (sw_acc w)))
            then refused 307 ''Failed to create user account'' w
            else
              let w1 = add_account x w;
                  w2 = (if s_ok E ''create membership'' \<and> \<not> pair_taken (ur_id x) (so_org cfg) (sw_acc w1)
                        then add_row (join_row x (so_org cfg) (rl_id r) True) w1 else w1)
              in issue_tokens E x w2)"

text \<open>A known address signs in whatever its organisation is.\<close>

definition sso_sign_in ::
    "auth_env \<Rightarrow> string \<Rightarrow> sso_identity \<Rightarrow> user_row \<Rightarrow> auth_world \<Rightarrow> (string \<times> string) answer" where
  "sso_sign_in E provider i x w =
     (let y = (if ur_sso x = '''' then x\<lparr>ur_sso := provider, ur_sso_id := si_id i\<rparr> else x);
          w1 = (if ur_sso x = '''' \<and> s_ok E ''save user''
                then w\<lparr>sw_acc := map_users (\<lambda>z. if ur_id z = ur_id x \<and> \<not> ur_deleted z then y else z) (sw_acc w)\<rparr>
                else w)
      in if \<not> ur_active x then refused 307 ''Account is disabled'' w1
         else issue_tokens E y w1)"

definition callback_sso ::
    "auth_env \<Rightarrow> string \<Rightarrow> string \<Rightarrow> string \<Rightarrow> string option \<Rightarrow> auth_world \<Rightarrow> (string \<times> string) answer" where
  "callback_sso E provider code nonce err w =
     (case err of
        Some e \<Rightarrow> refused 307 (''SSO failed: '' @ e) w
      | None \<Rightarrow>
          if code = '''' \<or> nonce = '''' then refused 307 ''Invalid callback parameters'' w
          else case (if s_ok E ''get state'' then map_of (sw_states w) nonce else None) of
            None \<Rightarrow> refused 307 ''Invalid or expired state'' w
          | Some st \<Rightarrow>
              let w1 = (if s_ok E ''del state'' then w\<lparr>sw_states := filter (\<lambda>(n, _). n \<noteq> nonce) (sw_states w)\<rparr> else w) in
              if st_provider st \<noteq> provider \<or> st_expires st < s_now E then refused 307 ''Invalid or expired state'' w1
              else (case (if s_ok E ''find config''
                          then find (\<lambda>o'. so_org o' = st_org st \<and> so_provider o' = provider) (sw_sso w1) else None) of
                  None \<Rightarrow> refused 307 ''SSO provider not configured'' w1
                | Some cfg \<Rightarrow> (case s_oauth E cfg code of
                    None \<Rightarrow> refused 307 ''Failed to authenticate with provider'' w1
                  | Some i \<Rightarrow> (case domain_allowed (so_domains cfg) (si_email i) of
                      Some m \<Rightarrow> refused 307 m w1
                    | None \<Rightarrow> (case user_by_email E (si_email i) w1 of
                        None \<Rightarrow> sso_sign_up E cfg provider i w1
                      | Some x \<Rightarrow> sso_sign_in E provider i x w1)))))"

record sso_request =
  oq_client :: string
  oq_secret :: string
  oq_enabled :: bool
  oq_auto :: bool
  oq_role :: string
  oq_domains :: string
  oq_auth_url :: string
  oq_token_url :: string
  oq_info_url :: string

text \<open>\<open>UpdateSSOProvider\<close> and \<open>DeleteSSOProvider\<close> ask for an organisation and for nothing else.\<close>

definition sso_org :: "auth_env \<Rightarrow> req_ctx option \<Rightarrow> auth_world \<Rightarrow> string answer" where
  "sso_org E cx w =
     (case cx of
        None \<Rightarrow> refused 401 ''Unauthorized'' w
      | Some c \<Rightarrow> (case get_org_id (s_acc E) c (sw_acc w) of (r, a) \<Rightarrow> (r, w\<lparr>sw_acc := a\<rparr>)))"

definition sso_config :: "string \<Rightarrow> string \<Rightarrow> sso_request \<Rightarrow> string \<Rightarrow> sso_row" where
  "sso_config org provider q secret =
     \<lparr>so_org = org, so_provider = provider, so_client = oq_client q, so_secret = secret, so_enabled = oq_enabled q,
      so_auto = oq_auto q, so_role = (if oq_role q = '''' then ''agent'' else oq_role q), so_domains = oq_domains q,
      so_auth_url = oq_auth_url q, so_token_url = oq_token_url q, so_info_url = oq_info_url q\<rparr>"

definition update_sso_provider ::
    "auth_env \<Rightarrow> req_ctx option \<Rightarrow> string \<Rightarrow> sso_request option \<Rightarrow> auth_world \<Rightarrow> sso_row answer" where
  "update_sso_provider E cx provider req w0 =
     (case sso_org E cx w0 of
        (Inl e, w) \<Rightarrow> (Inl e, w)
      | (Inr org, w) \<Rightarrow>
          if provider \<notin> set sso_providers then refused 400 ''Invalid provider'' w
          else (case req of
            None \<Rightarrow> refused 400 ''Invalid request body'' w
          | Some q \<Rightarrow>
              if provider = ''custom'' \<and> (oq_auth_url q = '''' \<or> oq_token_url q = '''' \<or> oq_info_url q = '''') then
                refused 400 ''Custom provider requires auth_url, token_url, and user_info_url'' w
              else
                let old = (if s_ok E ''find config''
                           then find (\<lambda>o'. so_org o' = org \<and> so_provider o' = provider) (sw_sso w) else None);
                    kept = (case old of None \<Rightarrow> '''' | Some o' \<Rightarrow> so_secret o')
                in (case (if oq_secret q = '''' then Some kept else s_encrypt E (oq_secret q)) of
                      None \<Rightarrow> refused 500 ''Failed to save SSO configuration'' w
                    | Some secret \<Rightarrow>
                        if \<not> s_ok E ''save config''
                           \<or> old = None \<and> list_ex (\<lambda>o'. so_org o' = org \<and> so_provider o' = provider) (sw_sso w)
                        then refused 500 ''Failed to save SSO settings'' w
                        else let row = sso_config org provider q secret in
                          (Inr row,
                           w\<lparr>sw_sso := (if old = None then sw_sso w @ [row]
                              else map (\<lambda>o'. if so_org o' = org \<and> so_provider o' = provider then row else o') (sw_sso w))\<rparr>))))"

definition delete_sso_provider :: "auth_env \<Rightarrow> req_ctx option \<Rightarrow> string \<Rightarrow> auth_world \<Rightarrow> unit answer" where
  "delete_sso_provider E cx provider w0 =
     (case sso_org E cx w0 of
        (Inl e, w) \<Rightarrow> (Inl e, w)
      | (Inr org, w) \<Rightarrow>
          if \<not> s_ok E ''delete config'' then refused 500 ''Failed to delete SSO provider'' w
          else if \<not> list_ex (\<lambda>o'. so_org o' = org \<and> so_provider o' = provider) (sw_sso w)
          then refused 404 ''SSO provider not found'' w
          else (Inr (), w\<lparr>sw_sso := filter (\<lambda>o'. \<not> (so_org o' = org \<and> so_provider o' = provider)) (sw_sso w)\<rparr>))"

text \<open>\<open>sanitizeRedirectPath\<close>: the loop strips what follows the first slash.\<close>

fun strip_slashes :: "string \<Rightarrow> string" where
  "strip_slashes (a # b # s) = (if b = CHR ''/'' \<or> b = CHR 0x5C then strip_slashes (CHR ''/'' # s) else a # b # s)"
| "strip_slashes s = s"

definition sanitize_redirect_path :: "string \<Rightarrow> string" where
  "sanitize_redirect_path p =
     (if p = '''' then '''' else strip_slashes (if hd p \<noteq> CHR ''/'' then CHR ''/'' # p else p))"

section \<open>Requests\<close>

datatype auth_op =
    OpLogin "(string \<times> string) option"
  | OpRegister "register_request option"
  | OpRefresh string
  | OpLogout string
  | OpSwitch req_headers "string option"
  | OpWsToken req_headers
  | OpSsoInit string
  | OpSsoCallback string string string "string option"
  | OpSsoUpdate req_headers string "sso_request option"
  | OpSsoDelete req_headers string
  | OpHandler req_headers acc_op
  | OpExpire "string \<Rightarrow> bool"
  | OpUncache "string \<times> string option"

text \<open>\<open>OpExpire\<close> and \<open>OpUncache\<close> are the time to live of the ids and of the cache in Redis.\<close>

fun run_auth :: "auth_env \<Rightarrow> auth_op \<Rightarrow> auth_world \<Rightarrow> auth_world" where
  "run_auth E (OpLogin q) w = snd (login E q w)"
| "run_auth E (OpRegister q) w = snd (register E q w)"
| "run_auth E (OpRefresh s) w = snd (refresh_token E s w)"
| "run_auth E (OpLogout s) w = logout E s w"
| "run_auth E (OpSwitch h q) w = snd (switch_org E (auth_with_db E h (sw_acc w)) q w)"
| "run_auth E (OpWsToken h) w = snd (ws_token E (auth_with_db E h (sw_acc w)) w)"
| "run_auth E (OpSsoInit p) w = snd (init_sso E p w)"
| "run_auth E (OpSsoCallback p c n e) w = snd (callback_sso E p c n e w)"
| "run_auth E (OpSsoUpdate h p q) w = snd (update_sso_provider E (auth_with_db E h (sw_acc w)) p q w)"
| "run_auth E (OpSsoDelete h p) w = snd (delete_sso_provider E (auth_with_db E h (sw_acc w)) p w)"
| "run_auth E (OpHandler h x) w =
     (case auth_with_db E h (sw_acc w) of
        None \<Rightarrow> w | Some c \<Rightarrow> w\<lparr>sw_acc := run_acc (s_acc E) (Some c) x (sw_acc w)\<rparr>)"
| "run_auth E (OpExpire gone) w = w\<lparr>sw_jtis := filter (\<lambda>j. \<not> gone j) (sw_jtis w)\<rparr>"
| "run_auth E (OpUncache k) w = w\<lparr>sw_acc := run_acc (s_acc E) None (OpForget k) (sw_acc w)\<rparr>"

fun run_auths :: "(auth_env \<times> auth_op) list \<Rightarrow> auth_world \<Rightarrow> auth_world" where
  "run_auths [] w = w"
| "run_auths ((E, x) # ops) w = run_auths ops (run_auth E x w)"

section \<open>A refresh token is redeemed once\<close>

definition sessions_ok :: "auth_world \<Rightarrow> bool" where
  "sessions_ok w \<longleftrightarrow>
     distinct (filter (\<lambda>j. j \<noteq> '''') (sw_redeemed w))
     \<and> list_all (\<lambda>j. j \<notin> set (sw_redeemed w)) (sw_jtis w)
     \<and> set (sw_jtis w) \<union> set (filter (\<lambda>j. j \<noteq> '''') (sw_redeemed w)) \<subseteq> set (sw_given w)
     \<and> '''' \<notin> set (sw_jtis w)"

definition fresh_jti :: "auth_env \<Rightarrow> auth_world \<Rightarrow> bool" where
  "fresh_jti E w \<longleftrightarrow> s_jti E \<noteq> '''' \<and> s_jti E \<notin> set (sw_given w)"

lemma issue_tokens_sessions:
  "sessions_ok w \<Longrightarrow> fresh_jti E w \<Longrightarrow> sessions_ok (snd (issue_tokens E x w))"
  by (auto simp: issue_tokens_def sessions_ok_def fresh_jti_def list_all_iff split: option.split)

text \<open>The fields of the sessions, and what leaves them alone.\<close>

definition same_sessions :: "auth_world \<Rightarrow> auth_world \<Rightarrow> bool" where
  "same_sessions w w' \<longleftrightarrow>
     sw_jtis w' = sw_jtis w \<and> sw_given w' = sw_given w \<and> sw_redeemed w' = sw_redeemed w
     \<and> sw_issued w' = sw_issued w"

lemma same_sessions_ok:
  "same_sessions w w' \<Longrightarrow> sessions_ok w' = sessions_ok w"
  "same_sessions w w' \<Longrightarrow> fresh_jti E w' = fresh_jti E w"
  by (simp_all add: same_sessions_def sessions_ok_def fresh_jti_def)

lemma issue_after:
  "sessions_ok w \<Longrightarrow> fresh_jti E w \<Longrightarrow> same_sessions w w' \<Longrightarrow> sessions_ok (snd (issue_tokens E x w'))"
  by (simp add: issue_tokens_sessions same_sessions_ok)

lemma fewer_jtis:
  "sessions_ok w \<Longrightarrow> sessions_ok (w\<lparr>sw_jtis := filter P (sw_jtis w)\<rparr>)"
  by (auto simp: sessions_ok_def list_all_iff)

lemma refused_sessions: "sessions_ok w \<Longrightarrow> sessions_ok (snd (refused n m w))"
  by (simp add: refused_def)

lemma refused_same: "same_sessions w w' \<Longrightarrow> sessions_ok w \<Longrightarrow> sessions_ok (snd (refused n m w'))"
  by (simp add: refused_def same_sessions_ok)

lemma same_refl: "same_sessions w w" "same_sessions w (w\<lparr>sw_acc := a\<rparr>)" "same_sessions w (add_row m w)"
  "same_sessions w (add_row m (add_account x w))" "same_sessions w (add_account x w)"
  "same_sessions w (w\<lparr>sw_states := st\<rparr>)" "same_sessions w (w\<lparr>sw_sso := so\<rparr>)"
  by (simp_all add: same_sessions_def add_row_def add_account_def)

lemma redeem_sessions:
  assumes "sessions_ok w" "tk_id c = '''' \<or> tk_id c \<in> set (sw_jtis w)"
  shows "sessions_ok (w\<lparr>sw_jtis := (if tk_id c = '''' then sw_jtis w else filter (\<lambda>j. j \<noteq> tk_id c) (sw_jtis w)),
                       sw_redeemed := sw_redeemed w @ [tk_id c]\<rparr>)"
  using assms by (auto simp: sessions_ok_def list_all_iff)

lemma refresh_sessions:
  assumes "sessions_ok w" "fresh_jti E w"
  shows "sessions_ok (snd (refresh_token E s w))"
proof -
  have "sessions_ok (snd (refresh_token E s w))"
    if p: "parse_token E s = Some c" "s \<noteq> ''''" "tk_id c = '''' \<or> tk_id c \<in> set (sw_jtis w) \<and> s_ok E ''redis del''" for c
  proof -
    define w1 where "w1 = w\<lparr>sw_jtis := (if tk_id c = '''' then sw_jtis w else filter (\<lambda>j. j \<noteq> tk_id c) (sw_jtis w)),
                       sw_redeemed := sw_redeemed w @ [tk_id c]\<rparr>"
    have ok: "sessions_ok w1" unfolding w1_def by (rule redeem_sessions) (use assms(1) p in auto)
    have fresh: "fresh_jti E w1" using assms(2) by (simp add: fresh_jti_def w1_def)
    show ?thesis
      using p by (auto simp: refresh_token_def Let_def w1_def [symmetric] refused_sessions issue_tokens_sessions ok fresh
          split: option.split)
  qed
  then show ?thesis
    by (cases "parse_token E s") (auto simp: refresh_token_def refused_sessions assms(1))
qed

lemma join_sessions: "sessions_ok w \<Longrightarrow> fresh_jti E w \<Longrightarrow> sessions_ok (snd (join_organization E q r x w))"
  by (auto simp: join_organization_def refused_sessions same_refl intro!: issue_after)

lemma register_sessions: "sessions_ok w \<Longrightarrow> fresh_jti E w \<Longrightarrow> sessions_ok (snd (register E q w))"
  by (auto simp: register_def Let_def refused_sessions join_sessions same_refl intro!: issue_after split: option.split)

lemma switch_sessions: "sessions_ok w \<Longrightarrow> fresh_jti E w \<Longrightarrow> sessions_ok (snd (switch_org E cx q w))"
  by (auto simp: switch_org_def refused_sessions issue_tokens_sessions split: option.split)

lemma login_sessions: "sessions_ok w \<Longrightarrow> fresh_jti E w \<Longrightarrow> sessions_ok (snd (login E q w))"
  by (auto simp: login_def refused_sessions issue_tokens_sessions split: option.split)

lemma ws_sessions: "sessions_ok w \<Longrightarrow> sessions_ok (snd (ws_token E cx w))"
  by (auto simp: ws_token_def refused_def sessions_ok_def split: option.split prod.split sum.split)

lemma sign_up_sessions: "sessions_ok w \<Longrightarrow> fresh_jti E w \<Longrightarrow> sessions_ok (snd (sso_sign_up E cfg p i w))"
  by (auto simp: sso_sign_up_def Let_def refused_sessions same_refl intro!: issue_after split: option.split)

lemma sign_in_sessions: "sessions_ok w \<Longrightarrow> fresh_jti E w \<Longrightarrow> sessions_ok (snd (sso_sign_in E p i x w))"
  by (auto simp: sso_sign_in_def Let_def refused_sessions same_refl intro!: issue_after refused_same)

lemma callback_sessions:
  assumes "sessions_ok w" "fresh_jti E w"
  shows "sessions_ok (snd (callback_sso E p c n e w))"
proof -
  have "sessions_ok (w\<lparr>sw_states := st\<rparr>)" "fresh_jti E (w\<lparr>sw_states := st\<rparr>)" for st
    using assms by (simp_all add: same_sessions_ok [OF same_refl(6)])
  then show ?thesis
    using assms by (auto simp: callback_sso_def Let_def refused_sessions sign_up_sessions sign_in_sessions split: option.split)
qed

text \<open>The administration of the providers leaves the sessions alone.\<close>

lemma same_trans: "same_sessions w v \<Longrightarrow> same_sessions v u \<Longrightarrow> same_sessions w u"
  by (simp add: same_sessions_def)

lemma sso_org_same: "same_sessions w (snd (sso_org E cx w))"
  by (auto simp: sso_org_def refused_def same_refl split: option.split prod.split)

lemma sso_update_same: "same_sessions w (snd (update_sso_provider E cx p q w))"
proof (cases "sso_org E cx w")
  case (Pair r v)
  have v: "same_sessions w v" using sso_org_same [of w E cx] Pair by simp
  have "same_sessions w (v\<lparr>sw_sso := so\<rparr>)" for so by (rule same_trans [OF v same_refl(7)])
  then show ?thesis
    by (simp add: update_sso_provider_def Pair refused_def Let_def v split: sum.split option.split)
qed

lemma sso_delete_same: "same_sessions w (snd (delete_sso_provider E cx p w))"
proof (cases "sso_org E cx w")
  case (Pair r v)
  have v: "same_sessions w v" using sso_org_same [of w E cx] Pair by simp
  have "same_sessions w (v\<lparr>sw_sso := so\<rparr>)" for so by (rule same_trans [OF v same_refl(7)])
  then show ?thesis
    by (simp add: delete_sso_provider_def Pair refused_def v split: sum.split)
qed

lemma sso_init_same: "same_sessions w (snd (init_sso E p w))"
  by (simp add: init_sso_def refused_def same_refl split: option.split)

lemma sso_admin_sessions:
  "sessions_ok w \<Longrightarrow> sessions_ok (snd (init_sso E p w))"
  "sessions_ok w \<Longrightarrow> sessions_ok (snd (update_sso_provider E cx p q w))"
  "sessions_ok w \<Longrightarrow> sessions_ok (snd (delete_sso_provider E cx p w))"
  by (simp_all add: same_sessions_ok(1) [OF sso_init_same] same_sessions_ok(1) [OF sso_update_same]
      same_sessions_ok(1) [OF sso_delete_same])

lemma run_auth_sessions: "sessions_ok w \<Longrightarrow> fresh_jti E w \<Longrightarrow> sessions_ok (run_auth E x w)"
  by (cases x)
    (auto simp: login_sessions register_sessions refresh_sessions switch_sessions ws_sessions callback_sessions
      sso_admin_sessions logout_def fewer_jtis same_sessions_ok [OF same_refl(2)] split: option.split)

text \<open>The ids come from a random generator: none comes twice.\<close>

fun fresh_run :: "(auth_env \<times> auth_op) list \<Rightarrow> auth_world \<Rightarrow> bool" where
  "fresh_run [] w \<longleftrightarrow> True"
| "fresh_run ((E, x) # ops) w \<longleftrightarrow> fresh_jti E w \<and> fresh_run ops (run_auth E x w)"

lemma run_auths_sessions: "sessions_ok w \<Longrightarrow> fresh_run ops w \<Longrightarrow> sessions_ok (run_auths ops w)"
  by (induction ops w rule: run_auths.induct) (auto simp: run_auth_sessions)

lemma count_list_kept: "P j \<Longrightarrow> count_list (filter P xs) j = count_list xs j"
  by (induction xs) auto

lemma count_list_distinct: "distinct xs \<Longrightarrow> count_list xs j \<le> 1"
  by (induction xs) (auto simp: count_list_0_iff)

text \<open>C39 (safety). Over any run of logins, registrations, refreshes, logouts, switches and single sign-ons,
  whoever presents which token: a refresh token with an id is redeemed at most once, and none that is
  still good has been redeemed.\<close>

theorem refresh_tokens_are_single_use:
  assumes "sessions_ok w" "fresh_run ops w" "j \<noteq> ''''"
  shows "count_list (sw_redeemed (run_auths ops w)) j \<le> 1
    \<and> (j \<in> set (sw_jtis (run_auths ops w)) \<longrightarrow> count_list (sw_redeemed (run_auths ops w)) j = 0)"
proof -
  let ?r = "sw_redeemed (run_auths ops w)"
  have ok: "sessions_ok (run_auths ops w)" by (rule run_auths_sessions [OF assms(1,2)])
  have "count_list ?r j = count_list (filter (\<lambda>i. i \<noteq> '''') ?r) j"
    using assms(3) by (simp add: count_list_kept)
  then have "count_list ?r j \<le> 1"
    using ok count_list_distinct [of "filter (\<lambda>i. i \<noteq> '''') ?r" j] by (simp add: sessions_ok_def)
  then show ?thesis using ok by (auto simp: sessions_ok_def list_all_iff count_list_0_iff)
qed


section \<open>Whom a token may name\<close>

text \<open>A live account, its own flag, and an organisation that is its home, one it belongs to, or any for a super admin.\<close>

definition entitled :: "bool \<Rightarrow> auth_world \<Rightarrow> token_claims \<Rightarrow> bool" where
  "entitled active w c \<longleftrightarrow>
     list_ex (\<lambda>u. ur_id u = tk_user c \<and> \<not> ur_deleted u \<and> (ur_active u \<or> \<not> active) \<and> ur_super u = tk_super c
       \<and> ur_email u = tk_email c
       \<and> (tk_org c = ur_org u \<or> live_member (tk_user c) (tk_org c) (sw_acc w)
          \<or> ur_super u \<and> tk_org c \<in> set (aw_orgs (sw_acc w)))) (aw_users (sw_acc w))"

definition issues_well :: "bool \<Rightarrow> auth_world \<Rightarrow> auth_world \<Rightarrow> bool" where
  "issues_well active w w' \<longleftrightarrow>
     take (length (sw_issued w)) (sw_issued w') = sw_issued w
     \<and> list_all (\<lambda>c. tk_subject c = ''ws'' \<or> entitled active w' c) (drop (length (sw_issued w)) (sw_issued w'))"

text \<open>The account behind the row a handler signs for; the row differs in its organisation and role only.\<close>

definition stands_for :: "bool \<Rightarrow> auth_world \<Rightarrow> user_row \<Rightarrow> bool" where
  "stands_for active w y \<longleftrightarrow>
     list_ex (\<lambda>u. ur_id u = ur_id y \<and> \<not> ur_deleted u \<and> (ur_active u \<or> \<not> active) \<and> ur_super u = ur_super y
       \<and> ur_email u = ur_email y
       \<and> (ur_org y = ur_org u \<or> live_member (ur_id y) (ur_org y) (sw_acc w)
          \<or> ur_super u \<and> ur_org y \<in> set (aw_orgs (sw_acc w)))) (aw_users (sw_acc w))"

lemma issue_well:
  assumes "sw_issued w' = sw_issued w" "stands_for a w' y"
  shows "issues_well a w (snd (issue_tokens E y w'))"
  using assms
  by (auto simp: issue_tokens_def issues_well_def entitled_def stands_for_def access_claims_def refresh_claims_def
      split: option.split)

lemma issues_nothing: "sw_issued w' = sw_issued w \<Longrightarrow> issues_well a w w'"
  by (simp add: issues_well_def)

lemma refused_well: "sw_issued w' = sw_issued w \<Longrightarrow> issues_well a w (snd (refused n m w'))"
  by (simp add: refused_def issues_nothing)

lemma stands_for_itself: "x \<in> set (aw_users (sw_acc w)) \<Longrightarrow> \<not> ur_deleted x \<Longrightarrow> ur_active x \<or> \<not> a \<Longrightarrow> stands_for a w x"
  by (auto simp: stands_for_def list_ex_iff)

lemma user_by_emailD:
  "user_by_email E m w = Some x \<Longrightarrow> x \<in> set (aw_users (sw_acc w)) \<and> \<not> ur_deleted x \<and> ur_email x = m"
  by (auto simp: user_by_email_def find_Some_iff split: if_splits)

lemma stands_abroad:
  assumes "x \<in> set (aw_users (sw_acc w))" "\<not> ur_deleted x" "ur_active x \<or> \<not> a"
    "live_member (ur_id x) org (sw_acc w) \<or> ur_super x \<and> org \<in> set (aw_orgs (sw_acc w))"
  shows "stands_for a w (x\<lparr>ur_org := org\<rparr>)" "stands_for a w (x\<lparr>ur_org := org, ur_role := r\<rparr>)"
  using assms by (auto simp: stands_for_def list_ex_iff)

lemma login_well: "issues_well True w (snd (login E q w))"
  by (auto simp: login_def refused_well dest!: user_by_emailD intro!: issue_well stands_for_itself split: option.split)


lemma join_well:
  assumes "x \<in> set (aw_users (sw_acc w))" "\<not> ur_deleted x"
  shows "issues_well True w (snd (join_organization E q r x w))"
proof -
  let ?w = "add_row (join_row x (gq_org q) (rl_id r) False) w"
  have "stands_for True ?w (x\<lparr>ur_org := gq_org q, ur_role := Some (rl_id r)\<rparr>)" if "ur_active x"
    using assms that by (intro stands_abroad) (auto simp: add_row_def join_row_def live_member_def)
  then show ?thesis
    by (auto simp: join_organization_def refused_well add_row_def intro!: issue_well)
qed

lemma register_well: "issues_well True w (snd (register E q w))"
proof -
  have "stands_for True (add_row m (add_account x w)) x" if "x = new_account E g r h" for m g r h x
    using that by (intro stands_for_itself) (auto simp: add_row_def add_account_def new_account_def)
  then have "issues_well True w (snd (issue_tokens E x (add_row m (add_account x w))))"
    if "x = new_account E g r h" for m g r h x
    using that by (intro issue_well) (auto simp: add_row_def add_account_def)
  then show ?thesis
    by (auto simp: register_def Let_def refused_well join_well dest!: user_by_emailD split: option.split)
qed

lemma live_userD: "live_user A u a = Some x \<Longrightarrow> x \<in> set (aw_users a) \<and> \<not> ur_deleted x \<and> ur_id x = u"
  by (auto simp: live_user_def find_Some_iff split: if_splits)

lemma membershipD: "membership A u org a = Some m \<Longrightarrow> live_member u org a"
  by (auto simp: membership_def find_Some_iff live_member_def list_ex_iff split: if_splits)

lemma carry_stands:
  assumes "x \<in> set (aw_users (sw_acc w))" "\<not> ur_deleted x" "ur_active x"
  shows "stands_for True w (carry_org E c x (sw_acc w))"
  using assms
  by (auto simp: carry_org_def dest: membershipD intro: stands_for_itself stands_abroad split: option.split)

lemma refresh_well: "issues_well True w (snd (refresh_token E s w))"
proof -
  have "issues_well True w (snd (issue_tokens E (carry_org E c x (sw_acc w)) w'))"
    if "live_user (s_acc E) u (sw_acc w) = Some x" "ur_active x" "sw_issued w' = sw_issued w" "sw_acc w' = sw_acc w"
    for c x u w'
    using live_userD [OF that(1)] that(2-4) carry_stands [of x w' E c] by (intro issue_well) auto
  then show ?thesis
    by (auto simp: refresh_token_def Let_def refused_well split: option.split)
qed

lemma switch_well: "issues_well False w (snd (switch_org E cx q w))"
  by (auto simp: switch_org_def refused_well dest!: live_userD dest: membershipD intro!: issue_well stands_abroad
      split: option.split)


lemma issues_well_from:
  assumes "sw_issued w' = sw_issued w"
  shows "issues_well a w v = issues_well a w' v"
  using assms by (simp add: issues_well_def)

lemma sign_up_well: "issues_well True w (snd (sso_sign_up E cfg p i w))"
proof -
  have "issues_well True w (snd (issue_tokens E x w'))"
    if "x = sso_account E org p i r" "sw_issued w' = sw_issued w" "x \<in> set (aw_users (sw_acc w'))" for org r x w'
    using that by (intro issue_well stands_for_itself) (auto simp: sso_account_def)
  then show ?thesis
    by (auto simp: sso_sign_up_def Let_def refused_well add_row_def add_account_def split: option.split)
qed

lemma sign_in_well:
  assumes "x \<in> set (aw_users (sw_acc w))" "\<not> ur_deleted x"
  shows "issues_well True w (snd (sso_sign_in E p i x w))"
proof -
  define y where "y = (if ur_sso x = '''' then x\<lparr>ur_sso := p, ur_sso_id := si_id i\<rparr> else x)"
  define w1 where "w1 = (if ur_sso x = '''' \<and> s_ok E ''save user''
                then w\<lparr>sw_acc := map_users (\<lambda>z. if ur_id z = ur_id x \<and> \<not> ur_deleted z then y else z) (sw_acc w)\<rparr>
                else w)"
  have y: "ur_id y = ur_id x" "ur_org y = ur_org x" "ur_super y = ur_super x" "ur_email y = ur_email x"
    "ur_active y = ur_active x" "ur_deleted y = ur_deleted x" by (simp_all add: y_def)
  have "x \<in> set (aw_users (sw_acc w1)) \<or> y \<in> set (aw_users (sw_acc w1))"
    using assms by (force simp: w1_def map_users_def)
  then have "stands_for True w1 y" if "ur_active x"
    using assms(2) that y by (force simp: stands_for_def list_ex_iff)
  moreover have "sw_issued w1 = sw_issued w" by (simp add: w1_def)
  moreover have "snd (sso_sign_in E p i x w) =
      (if \<not> ur_active x then snd (refused 307 ''Account is disabled'' w1 :: (string \<times> string) answer)
       else snd (issue_tokens E y w1))"
    unfolding sso_sign_in_def Let_def y_def [symmetric] w1_def [symmetric] by simp
  ultimately show ?thesis by (simp add: issue_well refused_well)
qed

lemma callback_well: "issues_well True w (snd (callback_sso E p c n e w))"
proof -
  have "issues_well True w (snd (sso_sign_in E p i x w1))"
    if "user_by_email E m w1 = Some x" "sw_issued w1 = sw_issued w" for i x m w1
    using user_by_emailD [OF that(1)] sign_in_well by (auto simp: issues_well_from [OF that(2)])
  moreover have "issues_well True w (snd (sso_sign_up E cfg p i w1))" if "sw_issued w1 = sw_issued w" for cfg i w1
    by (simp add: issues_well_from [OF that] sign_up_well)
  ultimately show ?thesis
    by (auto simp: callback_sso_def Let_def refused_well split: option.split)
qed


lemma same_sessions_issued: "same_sessions w w' \<Longrightarrow> issues_well a w w'"
  by (simp add: same_sessions_def issues_nothing)

lemma ws_well: "issues_well a w (snd (ws_token E cx w))"
  by (auto simp: ws_token_def refused_def issues_well_def ws_claims_def split: option.split prod.split sum.split)

text \<open>C40 (safety). Whoever asks, whatever the tables and whatever fails: every token a request has signed, but the
  ones for the websocket, names a live account with its own address and its own super admin flag, and an
  organisation that is its home, one it is a live member of, or, for a super admin, one that exists. Unless the
  request is a switch of organisation, the account is active.\<close>

theorem tokens_name_a_permitted_org:
  "issues_well (case x of OpSwitch h q \<Rightarrow> False | _ \<Rightarrow> True) w (run_auth E x w)"
  by (cases x)
    (simp_all add: login_well register_well refresh_well switch_well ws_well callback_well logout_def issues_nothing
      same_sessions_issued [OF sso_init_same] same_sessions_issued [OF sso_update_same]
      same_sessions_issued [OF sso_delete_same] split: option.split)

section \<open>The path of the redirect\<close>

lemma strip_slashes_local:
  "p \<noteq> '''' \<Longrightarrow> hd p = CHR ''/'' \<Longrightarrow>
   \<exists>q. strip_slashes p = CHR ''/'' # q \<and> (q = '''' \<or> hd q \<noteq> CHR ''/'' \<and> hd q \<noteq> CHR 0x5C)"
  by (induction p rule: strip_slashes.induct) auto

text \<open>A redirect stays on the host: the path never opens with two slashes, of either sort.\<close>

lemma redirects_are_local:
  "sanitize_redirect_path p = ''''
   \<or> (\<exists>q. sanitize_redirect_path p = CHR ''/'' # q \<and> (q = '''' \<or> hd q \<noteq> CHR ''/'' \<and> hd q \<noteq> CHR 0x5C))"
  using strip_slashes_local [of "if hd p \<noteq> CHR ''/'' then CHR ''/'' # p else p"]
  by (auto simp: sanitize_redirect_path_def)


section \<open>Sessions of the sample organisation\<close>

text \<open>A token library that writes the claims down as they are; a provider that answers what its address says.\<close>

definition sample_sign :: "token_claims \<Rightarrow> string" where
  "sample_sign c =
     tk_id c @ ''/'' @ tk_user c @ ''/'' @ tk_org c @ ''/'' @ (if tk_super c then ''1'' else ''0'') @ ''/'' @ tk_subject c"

definition sample_claims :: "string \<Rightarrow> token_claims option" where
  "sample_claims s =
     (case split_char CHR ''/'' s of
        [i, u, org, super, sub] \<Rightarrow>
          Some \<lparr>tk_user = u, tk_org = org, tk_email = '''', tk_role = None, tk_super = (super = ''1''), tk_id = i,
                tk_subject = sub, tk_expires = 100\<rparr>
      | _ \<Rightarrow> None)"

definition sample_auth :: "string \<Rightarrow> auth_env" where
  "sample_auth jti =
    \<lparr>s_acc = plain_services, s_now = 10, s_jti = jti, s_access_mins = 15, s_refresh_days = 7,
     s_sign = (\<lambda>c. Some (sample_sign c)), s_claims = sample_claims, s_signed = (\<lambda>_. True), s_nonce = ''nonce'',
     s_encrypt = (\<lambda>s. Some s),
     s_oauth = (\<lambda>cfg code. Some \<lparr>si_id = ''1'', si_email = so_info_url cfg, si_name = code\<rparr>)\<rparr>"

definition sample_world :: "acc_world \<Rightarrow> auth_world" where
  "sample_world a =
    \<lparr>sw_acc = a, sw_jtis = [], sw_states = [], sw_sso = [], sw_issued = [], sw_given = [], sw_redeemed = []\<rparr>"

definition with_token :: "string \<Rightarrow> req_headers" where
  "with_token s = \<lparr>hd_api_key = '''', hd_auth = ''Bearer '' @ s, hd_cookie = '''', hd_org = None\<rparr>"

definition granted :: "'a answer \<Rightarrow> bool" where
  "granted r = (case fst r of Inl _ \<Rightarrow> False | Inr _ \<Rightarrow> True)"

definition ana_login :: "auth_world" where
  "ana_login = run_auth (sample_auth ''j1'') (OpLogin (Some (''ana@x'', ''old''))) (sample_world sample_org)"

text \<open>The refresh token is good once; after that, and after a logout, it is refused.\<close>

lemma refresh_goes_once:
  "granted (refresh_token (sample_auth ''j2'') ''j1/ana/o/0/'' ana_login)"
  "\<not> granted (refresh_token (sample_auth ''j3'') ''j1/ana/o/0/''
       (run_auth (sample_auth ''j2'') (OpRefresh ''j1/ana/o/0/'') ana_login))"
  "\<not> granted (refresh_token (sample_auth ''j3'') ''j1/ana/o/0/''
       (run_auth (sample_auth ''j2'') (OpLogout ''j1/ana/o/0/'') ana_login))"
  by code_simp+

text \<open>
  The kinds of token are not told apart. The access token has no id: it renews the session even after the
  logout, any number of times. The refresh token opens the API, before and after it is spent; and both
  open the websocket.
\<close>

lemma access_token_renews_after_logout:
  "granted (refresh_token (sample_auth ''j4'') ''/ana/o/0/''
     (run_auths [(sample_auth ''j2'', OpLogout ''j1/ana/o/0/''), (sample_auth ''j3'', OpRefresh ''/ana/o/0/'')] ana_login))"
  by code_simp

lemma refresh_token_opens_the_api:
  "auth_with_db (sample_auth ''j3'') (with_token ''j1/ana/o/0/'')
     (sw_acc (run_auth (sample_auth ''j2'') (OpLogout ''j1/ana/o/0/'') ana_login)) = caller ''ana''"
  "validate_ws_token (sample_auth ''j3'') ''j1/ana/o/0/'' = Some (''ana'', ''o'')"
  "validate_ws_token (sample_auth ''j3'') ''/ana/o/0/'' = Some (''ana'', ''o'')"
  by code_simp+

text \<open>A disabled account cannot sign in or refresh, and yet may switch, which gives it both tokens again.\<close>

definition rui_disabled :: auth_world where
  "rui_disabled = sample_world (run_acc plain_services (caller ''ana'')
     (OpUpdateUser (Some ''rui'') (Some (plain_edit\<lparr>uq_active := Some False\<rparr>))) sample_org)"

lemma disabled_user_renews_by_switching:
  "\<not> granted (login (sample_auth ''j1'') (Some (''rui@x'', ''old'')) rui_disabled)"
  "\<not> granted (refresh_token (sample_auth ''j1'') ''/rui/o/0/'' rui_disabled)"
  "fst (switch_org (sample_auth ''j1'') (caller ''rui'') (Some ''o'') rui_disabled) = Inr (''/rui/o/0/'', ''j1/rui/o/0/'')"
  by code_simp+

definition rui_key :: api_key_row where
  "rui_key =
    \<lparr>ak_id = ''k'', ak_org = ''o'', ak_user = ''rui'', ak_name = ''k'', ak_prefix = ''00112233'',
     ak_hash = ''#whm_00112233445566778899aabbccddeeff'', ak_expires = None, ak_active = True, ak_deleted = False\<rparr>"

lemma key_of_a_disabled_user_is_good:
  "map ur_active (aw_users (sw_acc rui_disabled)) = [True, False, True]"
  "validate_api_key (sample_auth ''j'') ''whm_00112233445566778899aabbccddeeff'' None
     ((sw_acc rui_disabled)\<lparr>aw_keys := [rui_key]\<rparr>) = caller ''rui''"
  by code_simp+

text \<open>
  Rui, whose role may do nothing, configures a provider of his own for the organisation, signs in through
  it with the address of Eva and is given the tokens of a super admin.
\<close>

definition rui_provider :: sso_request where
  "rui_provider =
    \<lparr>oq_client = ''c'', oq_secret = ''s'', oq_enabled = True, oq_auto = False, oq_role = '''', oq_domains = '''',
     oq_auth_url = ''a'', oq_token_url = ''t'', oq_info_url = ''eva@x''\<rparr>"

lemma own_provider_signs_in_as_a_super_admin:
  "fst (callback_sso (sample_auth ''j1'') ''custom'' ''code'' ''nonce'' None
     (run_auths [(sample_auth ''j0'', OpSsoUpdate (with_token ''/rui/o/0/'') ''custom'' (Some rui_provider)),
                 (sample_auth ''j0'', OpSsoInit ''custom'')] (sample_world sample_org)))
   = Inr (''/eva/o/1/'', ''j1/eva/o/1/'')"
  by code_simp

lemma refresh_tokens_are_single_use_witness:
  "count_list (sw_redeemed (run_auths [(sample_auth ''j1'', OpLogin (Some (''ana@x'', ''old''))),
     (sample_auth ''j2'', OpRefresh ''j1/ana/o/0/''), (sample_auth ''j3'', OpRefresh ''j1/ana/o/0/'')]
     (sample_world sample_org))) ''j1'' \<le> 1"
proof (rule refresh_tokens_are_single_use [THEN conjunct1])
  show "sessions_ok (sample_world sample_org)" by (simp add: sessions_ok_def sample_world_def)
  show "fresh_run [(sample_auth ''j1'', OpLogin (Some (''ana@x'', ''old''))),
     (sample_auth ''j2'', OpRefresh ''j1/ana/o/0/''), (sample_auth ''j3'', OpRefresh ''j1/ana/o/0/'')]
     (sample_world sample_org)" by code_simp
qed simp

end
