(* ===== verification/Spec2Isabelle.thy ===== *)
theory Spec2Isabelle
  imports Tool_Runtime Tool_Confirmer Visibility Assignment Chat_Runner Usage_Ledger Presence_Reaper SLA_Processor Ivr_Runner
    Knowledge_Api Knowledge_Html Contact_Merge Campaigns Auth_Sessions
begin

text \<open>
  A verification library of Whatomate, a WhatsApp business platform written in Go. The server keeps
  its state in PostgreSQL and Redis; the logic modelled here decides what the chatbot says, what the
  AI may do on behalf of a contact, and which human owns a conversation.

  The parts and how they meet. An incoming message reaches the chatbot, whose graph runner walks a
  flow of nodes; a node renders text with the template engine, asks the opening hours, asks the AI,
  or ends in a transfer. The AI layer runs a bounded loop of model calls and tool calls; the tools of
  a loop are the ones the governed resolver lets through, every call is audited, and a tool that
  writes only proposes an action, stored as a confirmation that the contact accepts with a tap. A
  transfer becomes a human attendance: at most one is alive per contact, a team's assigner picks its
  agent, the send gate and the visibility rule decide what each agent may do and see, and the reaper
  returns what an absent agent holds. A campaign sends one template to many numbers through a stream of jobs that
  workers consume; the numbers of campaigns and of incoming messages meet in one contact per
  subscriber. Every message sent is an entry of the usage ledger. Before any of it, a request has to be
  somebody: a token or a key names a user and an organisation, and a role says what the user may do there.

  The theories, in the order of their imports, and what they translate:
  \<^item> \<open>Prelude\<close>: Go strings as byte strings, the dynamic values JSON decodes to, JSONB objects, the
    printing of integers, searching in strings, and the collections of lemmas the rest uses.
  \<^item> \<open>Tool_Loop\<close> (\<open>internal/ai/toolloop.go\<close>, \<open>tools.go\<close>, \<open>toolflatten.go\<close>): \<open>RunToolLoop\<close> over a record
    of the provider, the tools, the clock and the context. The bounds of a loop, the validity of each
    conversation sent to a provider, the flattening that cannot be forged, UTF-8 truncation. The
    locale \<open>loop_contract\<close> says what a loop keeps when each tool keeps it.
  \<^item> \<open>Tool_Policy\<close> (\<open>internal/aitools/aitools.go\<close>, \<open>policy.go\<close>, \<open>args.go\<close>, \<open>write.go\<close>): \<open>Authorize\<close> and the catalog.
  \<^item> \<open>Tool_Confirmations\<close> (\<open>confirmations.go\<close>): the store as a list of rows and its transitions; a step
    relation, its invariants, at most one winner of a confirmation.
  \<^item> \<open>Tool_Resolver\<close>, \<open>Tool_Audit\<close> (\<open>resolver.go\<close>, \<open>audit.go\<close>): the governed resolver, and the grammar of
    what a run leaves in the audit (\<open>gov_trace\<close>); no tool acts unrecorded, denials look alike.
  \<^item> \<open>Tool_Runtime\<close> (\<open>internal/handlers/ai_runtime.go\<close>): \<open>completeWithTools\<close> on the database auditor, where
    the loop, the resolver and the store meet (the locale \<open>confirm_contract\<close>, a \<open>sublocale\<close> of
    \<open>loop_contract\<close>).
  \<^item> \<open>Tool_Confirmer\<close> (\<open>confirmer.go\<close>): the tap and the reconciler, with the statements of other
    processes between any two of their own (the locale \<open>tap_race\<close>).
  \<^item> \<open>Business_Hours\<close> (\<open>internal/businesshours\<close>): the opening rule, the schedule, and the timing node.
  \<^item> \<open>Transfers\<close> (\<open>distribution.go\<close>, parts of \<open>agent_transfers.go\<close> and \<open>sla_processor.go\<close>): the creation
    of attendances, claim and move, the send gate, the return to the queue, all in the presence of
    other processes (the locale \<open>attendance_races\<close>).
  \<^item> \<open>Attendance_Desk\<close> (the handlers of \<open>agent_transfers.go\<close>, \<open>contact_status.go\<close>, \<open>reassign.go\<close>): create, assign,
    unassign, pick, resume and resolve, and the redistribution of an away agent's attendances; who may
    take an attendance from whom.
  \<^item> \<open>Presence_Reaper\<close> (\<open>presence_reaper.go\<close>, \<open>away_tolerance.go\<close>): the disconnect clock that the listener and
    the sweeps share, and the sweep of the agents away past the tolerance.
  \<^item> \<open>SLA_Processor\<close> (\<open>sla_processor.go\<close>): the periodic passes over attendances, silent customers, occurrences
    and sales opportunities (the locale \<open>row_pass\<close>: a pass handles each row of its list by itself).
  \<^item> \<open>Visibility\<close> (\<open>conversation_visibility.go\<close>): the decision function and the SQL scope, and that they agree.
  \<^item> \<open>Assignment\<close> (\<open>internal/assignment\<close>): eligibility, round robin, load balancing (the locale \<open>load_count\<close>,
    interpreted on both counters).
  \<^item> \<open>Template_Engine\<close> (\<open>template_engine.go\<close>): the three passes with their patterns as matchers, against a
    reference that reads a template as a list of segments.
  \<^item> \<open>Flow_Graph\<close>, \<open>Chat_Runner\<close> (\<open>internal/flowgraph\<close>, \<open>chatbot_graph_types.go\<close>, \<open>chatbot_graph_runner.go\<close>,
    \<open>flow_transfer_routing.go\<close>): every node of the chatbot and its run loop (the locale
    \<open>chat_executor\<close>: what one node does to the session).
  \<^item> \<open>Ivr_Runner\<close> (\<open>internal/calling/ivr.go\<close>, \<open>dtmf.go\<close>, \<open>session.go\<close>): the telephone menus over the same
    graphs, what their loop records, the digits of a call from the bytes of its packets to the buffer of 32
    digits, and what ends it.
  \<^item> \<open>Usage_Settlement\<close>, \<open>Usage_Ledger\<close> (\<open>internal/usage\<close>): the settlement of a message's cost from its events,
    which converges whatever the order of the settlements, and the writes of the recorder and of the
    integrity job as a step relation in which no event is lost.
  \<^item> \<open>Knowledge_Text\<close>, \<open>Knowledge_Markdown\<close>, \<open>Knowledge_Query\<close> (\<open>internal/knowledge/normalize.go\<close>, \<open>chunk.go\<close>,
    \<open>stopwords.go\<close>, \<open>plain.go\<close>): text as a list of code points, its normal form, the chunks, which are
    bounded and lose no word (of the text without its control characters), and what a customer's text
    becomes as a query, which is never syntax.
  \<^item> \<open>Knowledge_Store\<close>, \<open>Knowledge_Html\<close> (\<open>store.go\<close>, \<open>manuals.go\<close>, \<open>html.go\<close>): documents and chunks, and the
    importer of the manuals (the locale \<open>import_run\<close>: what a relation that both its transactions satisfy
    says of a whole run), which overrules nobody's decision.
  \<^item> \<open>Knowledge_Search\<close>, \<open>Knowledge_Api\<close> (\<open>retriever.go\<close>, \<open>lexical.go\<close>, \<open>assemble.go\<close>, \<open>handlers/knowledge.go\<close>,
    \<open>knowledge_scopes.go\<close>, \<open>chatbot_knowledge.go\<close>): the contract of a retriever (the locale
    \<open>retriever_laws\<close>, interpreted on the full-text retriever), the block of the prompt, which never leaves
    the contact's scope, and the requests, whose steps keep every chunk in agreement with its document.
  \<^item> \<open>Contact_Identity\<close>, \<open>Contact_Merge\<close> (\<open>internal/contactutil\<close>): the spellings of a Brazilian number, the
    search and creation of a contact by any of them, and the merge of duplicate contacts: its union-find
    gives the connected components of shared spellings, and a run leaves one live row per subscriber.
  \<^item> \<open>Template_Params\<close> (\<open>internal/templateutil\<close>, \<open>pkg/whatsapp/message.go\<close>): the variables of a message
    template, their substitution against a reference on segments, the components of a send request.
  \<^item> \<open>Campaigns\<close> (\<open>handlers/campaigns.go\<close>, \<open>internal/worker\<close>, \<open>internal/queue/redis.go\<close>, the delivery reports
    of \<open>webhook.go\<close>): requests, jobs, claims and reports as operations on one state, in any order. Which
    calls to WhatsApp are made, that no pending recipient loses its job while the services answer and requests
    do not overlap, and that no operation adds a number with an open occurrence; the examples at its end
    show what happens when services fail or requests overlap.
  \<^item> \<open>Role_Catalog\<close> (\<open>models/roles.go\<close>, \<open>permission_catalog.go\<close>): the permissions, the three system roles and
    the order of the screen.
  \<^item> \<open>Access_Control\<close> (\<open>handlers/users.go\<close>, \<open>roles.go\<close>, \<open>apikeys.go\<close>, the members and the creation of an
    organisation in \<open>organization.go\<close>, the permission part of \<open>cache.go\<close> and \<open>app.go\<close>): every handler that
    writes a user, a role, a membership or a key, as a step over the tables and the cache of permissions. A
    locale says what an invariant must survive; it is interpreted for the tenants and for the super admins. A
    second one (\<open>lookups_first\<close>) shows that every handler looks permissions up before it writes, so an
    entry of the cache is what the tables of some moment of the run said.
  \<^item> \<open>Auth_Sessions\<close> (\<open>handlers/auth.go\<close>, \<open>sso.go\<close>, \<open>internal/middleware\<close>): login, registration, refresh, logout,
    switch of organisation, single sign-on, API keys and the middleware. Whom a token may name, and that a
    refresh token is redeemed once; signing and parsing tokens, digests and the provider are parameters. The
    examples at the ends of both theories are what the handlers let through.

  How the code is written down. A struct is a record, an enumeration or an interface a datatype; an
  error is a value of a sum or an option; a Go string is a list of bytes (\<open>string\<close>), a map a function
  to options or an association list where its order can be observed. A table is a list of rows and a
  statement a function on it; where two processes may interleave, the environment's evolution is a
  parameter that runs between two statements. A database error is a parameter of each statement. The
  provider, the HTTP client, the regular expressions that users write, the expression language, the
  printing of floats, the cryptographic digests, the full-text search of the database, the parser of HTML and the
  Unicode tables are parameters: a theorem holds for all of them.
  Times are integers (nanoseconds or seconds as the code compares them), and Go's fixed width
  integers are \<open>int\<close> where the code's guards keep them far from the bounds.

  Bounds. The tool loop recurses on the number of steps the configuration allows, at most 50; the
  chatbot's run loop on the 100 iterations of \<open>maxChatGraphIterations\<close>; the passes of the template
  engine on the length of the rest of the text, except the \<open>for\<close> pass, which rescans what it inserted
  and therefore runs on fuel: the refinement theorem says how much is enough for a text without
  loops in its data, and \<open>template_injection_diverges\<close> that no fuel is enough in general.

  The count of \<open>pickAnchor\<close> runs on as many numbers as there are anchors in use, which is enough since the
  numbered anchors are all different. \<open>breakLong\<close> ends because each cut takes at least one character.

  Not modelled. The HTTP handlers that only parse a request, check a permission and run one query;
  the paging queries of the usage sweep; the wire formats of the providers and of Meta's API (\<open>pkg/whatsapp\<close> but for
  the components of a template, \<open>pkg/xprocess\<close>); media and WebRTC
  (\<open>internal/calling\<close>); the websocket hub, whose behaviour is the
  scheduling of goroutines; the listings of contacts and campaigns and the media of a campaign's header; migrations and the backfill of permissions (\<open>internal/database\<close>);
  the listings, the audit log and the rate limits of users and sessions; the frontend.
  Logging and broadcasts are left out of every handler modelled.
\<close>

end
